(* ===== verification/Eco_Prelude.thy ===== *)
theory Eco_Prelude
  imports Main "HOL-Library.Word"
begin

unbundle bit_operations_syntax

text \<open>
  Shared vocabulary of the development: the machine integers of the C++ code as words, byte
  buffers as lists of bytes, the outcome of an operation that may fail or may touch memory
  outside its buffer, and the generic facts about lists and words that the component theories
  use.

  An operation of the code ends in one of three ways. \<open>Ok v\<close> is a normal return, \<open>Err n\<close> is a
  reported failure (the C++ function returns false and stores the id \<open>n\<close> in its \<open>eco::Error\<close>
  argument), and \<open>UB\<close> is an access outside the buffer or through a null pointer, for which C++
  promises nothing. Modelling the last one as a value makes memory safety a theorem.
\<close>

section \<open>Types\<close>

type_synonym byte = "8 word"
type_synonym u8 = "8 word"
type_synonym u16 = "16 word"
type_synonym u32 = "32 word"
type_synonym u64 = "64 word"
type_synonym bytes = "byte list"

datatype 'a outcome = Ok 'a | Err int | UB

named_theorems read_simps \<open>reading and writing byte buffers\<close>
named_theorems flag_simps \<open>flag words, bit by bit\<close>
named_theorems outcome_simps \<open>running a sequence of fallible operations\<close>

section \<open>Sequencing fallible operations\<close>

definition obind :: "'a outcome \<Rightarrow> ('a \<Rightarrow> 'b outcome) \<Rightarrow> 'b outcome" where
  "obind m f = (case m of Ok x \<Rightarrow> f x | Err n \<Rightarrow> Err n | UB \<Rightarrow> UB)"

lemma obind_simps [simp, outcome_simps]:
  "obind (Ok x) f = f x" "obind (Err n) f = Err n" "obind UB f = UB"
  by (simp_all add: obind_def)

lemma obind_eq_Ok [outcome_simps]: "obind m f = Ok y \<longleftrightarrow> (\<exists>x. m = Ok x \<and> f x = Ok y)"
  by (cases m) auto

lemma obind_eq_Err [outcome_simps]:
  "obind m f = Err n \<longleftrightarrow> m = Err n \<or> (\<exists>x. m = Ok x \<and> f x = Err n)"
  by (cases m) auto

lemma obind_not_UB: "m \<noteq> UB \<Longrightarrow> (\<And>x. m = Ok x \<Longrightarrow> f x \<noteq> UB) \<Longrightarrow> obind m f \<noteq> UB"
  by (cases m) auto

section \<open>Reading and writing a buffer\<close>

text \<open>
  \<open>rd bs i\<close> is the C++ expression \<open>bs[i]\<close> on a buffer of exactly \<open>length bs\<close> bytes;
  \<open>wr bs i b\<close> is the assignment \<open>bs[i] = b\<close>; \<open>memcpy_at bs i xs\<close> is
  \<open>memcpy(&bs[i], xs, |xs|)\<close>.
\<close>

definition rd :: "'a list \<Rightarrow> nat \<Rightarrow> 'a outcome" where
  "rd bs i = (if i < length bs then Ok (bs ! i) else UB)"

definition wr :: "'a list \<Rightarrow> nat \<Rightarrow> 'a \<Rightarrow> 'a list outcome" where
  "wr bs i b = (if i < length bs then Ok (bs[i := b]) else UB)"

definition memcpy_at :: "'a list \<Rightarrow> nat \<Rightarrow> 'a list \<Rightarrow> 'a list outcome" where
  "memcpy_at bs i xs =
     (if i + length xs \<le> length bs
      then Ok (take i bs @ xs @ drop (i + length xs) bs) else UB)"

text \<open>
  A non-null \<open>eco::String\<close> keeps a zero byte behind its last one, so \<open>s[size]\<close> is still
  inside its buffer.
\<close>

definition rds :: "bytes \<Rightarrow> nat \<Rightarrow> byte outcome" where
  "rds bs i = rd (bs @ [0]) i"

lemma rds_Ok [read_simps]: "i < length bs \<Longrightarrow> rds bs i = Ok (bs ! i)"
  by (simp add: rds_def rd_def nth_append)

lemma rd_Ok [read_simps]: "i < length bs \<Longrightarrow> rd bs i = Ok (bs ! i)"
  by (simp add: rd_def)

lemma rd_append_left [read_simps]: "i < length xs \<Longrightarrow> rd (xs @ ys) i = rd xs i"
  by (simp add: rd_def nth_append)

lemma rd_append_skip [read_simps]: "length xs \<le> i \<Longrightarrow> rd (xs @ ys) i = rd ys (i - length xs)"
  by (auto simp: rd_def nth_append)

lemma wr_Ok [read_simps]: "i < length bs \<Longrightarrow> wr bs i b = Ok (bs[i := b])"
  by (simp add: wr_def)

lemma memcpy_at_Ok [read_simps]:
  "i + length xs \<le> length bs \<Longrightarrow>
     memcpy_at bs i xs = Ok (take i bs @ xs @ drop (i + length xs) bs)"
  by (simp add: memcpy_at_def)

lemma memcpy_at_length: "memcpy_at bs i xs = Ok bs' \<Longrightarrow> length bs' = length bs"
  by (auto simp: memcpy_at_def split: if_splits)

lemma memcpy_at_take: "memcpy_at bs i xs = Ok bs' \<Longrightarrow> take i bs' = take i bs"
  by (auto simp: memcpy_at_def split: if_splits)

lemma memcpy_at_slice: "memcpy_at bs i xs = Ok bs' \<Longrightarrow> take (length xs) (drop i bs') = xs"
  by (auto simp: memcpy_at_def split: if_splits)

section \<open>Words\<close>

lemma and_pos_iff: "(0 < x AND y) \<longleftrightarrow> x AND y \<noteq> (0 :: 'a::len word)"
  by (simp add: word_gt_0)

lemma and_two_power_eq_0_iff:
  "x AND 2 ^ n = (0 :: 'a::len word) \<longleftrightarrow> \<not> bit x n"
  by (metis and_exp_eq_0_iff_not_bit)

lemma bit_not_word: "n < LENGTH('a) \<Longrightarrow> bit (NOT (w :: 'a::len word)) n \<longleftrightarrow> \<not> bit w n"
  by (simp add: bit_not_iff)

lemma ucast_ucast_id: "LENGTH('a) \<le> LENGTH('b) \<Longrightarrow> ucast (ucast (w :: 'a::len word) :: 'b::len word) = w"
  by (rule bit_word_eqI) (auto simp: bit_simps dest: bit_imp_le_length)

lemma scast_ucast_low: "LENGTH('a) \<le> LENGTH('b) \<Longrightarrow> ucast (scast (w :: 'a::len word) :: 'b::len word) = w"
proof (rule bit_word_eqI)
  fix n
  assume "LENGTH('a) \<le> LENGTH('b)" and "n < LENGTH('a)"
  then show "bit (ucast (scast w :: 'b word) :: 'a word) n \<longleftrightarrow> bit w n"
    by (cases "n = LENGTH('a) - Suc 0") (auto simp: bit_simps min_def)
qed

lemma ucast_narrow:
  assumes "w < 2 ^ LENGTH('b)" and "LENGTH('b) \<le> LENGTH('a)"
  shows "ucast (ucast (w :: 'a::len word) :: 'b::len word) = w"
proof (rule bit_word_eqI)
  fix n
  have "w AND mask LENGTH('b) = w" using assms(1) by (rule less_mask_eq)
  then have "bit w k \<Longrightarrow> k < LENGTH('b)" for k
    by (metis bit_and_iff bit_mask_iff)
  then show "bit (ucast (ucast w :: 'b word) :: 'a word) n \<longleftrightarrow> bit w n"
    using assms(2) by (auto simp: bit_simps dest: bit_imp_le_length)
qed

lemma high_half: "drop_bit 32 (push_bit 32 (ucast (x :: u32)) + ucast (y :: u32) :: u64) = ucast x"
proof -
  have "push_bit 32 (ucast x) + ucast y = (push_bit 32 (ucast x) OR ucast y :: u64)"
    by (rule disjunctive_add) (auto simp: bit_simps dest: bit_imp_le_length)
  moreover have "bit z k \<Longrightarrow> k < 32" for z :: u32 and k
    using bit_imp_le_length [of z k] by simp
  ultimately show ?thesis by (auto intro!: bit_word_eqI simp: bit_simps) force+
qed

lemma minus_one_byte: "scast (ucast (- 1 :: u32) :: byte) = (- 1 :: u32)"
  by (rule bit_word_eqI) (auto simp: bit_simps)

lemma replicate_2: "replicate 2 x = [x, x]"
  by (simp add: numeral_2_eq_2)

lemma replicate_4: "replicate 4 x = [x, x, x, x]"
  by (simp add: numeral_eq_Suc)

section \<open>Sizes that fit a word\<close>

lemma ucast_of_nat_u16: "(ucast (of_nat n :: u32) :: u16) = of_nat n"
  by (rule bit_word_eqI) (simp add: bit_simps)

lemma ucast_of_nat_u8: "(ucast (of_nat n :: u32) :: u8) = of_nat n"
  by (rule bit_word_eqI) (simp add: bit_simps)

lemma ucast_u16_of_nat: "(ucast (of_nat n :: u16) :: u32) = of_nat (n mod 65536)"
proof -
  have "n mod 65536 = take_bit 16 n" by (simp add: take_bit_eq_mod)
  then show ?thesis by (auto intro!: bit_word_eqI simp: bit_simps)
qed

lemma unat_of_nat_u32: "n < 4294967296 \<Longrightarrow> unat (of_nat n :: u32) = n"
  by (simp add: unat_of_nat)

lemma of_nat_u32_eq_0: "n < 4294967296 \<Longrightarrow> (of_nat n :: u32) = 0 \<longleftrightarrow> n = 0"
  by (metis unat_of_nat_u32 unat_eq_0)

lemma unat_add_small: "unat (a :: u32) + n < 4294967295 \<Longrightarrow> unat (a + of_nat n) = unat a + n"
  by (simp add: unat_word_ariths unat_of_nat)

lemma minus_one_nat: "unat (- 1 :: u32) = 4294967295"
  by (simp add: unsigned_minus_1_eq_mask mask_eq_exp_minus_1)

lemma unat_lt_max: "(c :: u32) < - 1 \<Longrightarrow> unat c < 4294967295"
  by (simp add: word_less_nat_alt minus_one_nat)

lemma unat_plus_one: "(c :: u32) < - 1 \<Longrightarrow> unat (c + 1) = Suc (unat c)"
  by (simp add: word_less_nat_alt minus_one_nat unat_word_ariths)

lemma add_small_lt_max: "unat (a :: u32) + n < 4294967295 \<Longrightarrow> a + of_nat n < - 1"
  by (simp add: word_less_nat_alt minus_one_nat unat_add_small)

section \<open>Text\<close>

definition lit :: "string \<Rightarrow> bytes" where
  "lit s = map of_char s"

lemma lit_append [simp]: "lit (s @ t) = lit s @ lit t"
  by (simp add: lit_def)

lemma length_lit [simp]: "length (lit s) = length s"
  by (simp add: lit_def)

end
