(* ===== verification/Eco_Flags.thy ===== *)
theory Eco_Flags
  imports Eco_Prelude
begin

text \<open>
  Flag words. The generic flag functions of \<open>src/project/eco/Export.h\<close> (\<open>eco::add\<close>,
  \<open>eco::del\<close>, \<open>eco::toggle\<close>, \<open>eco::set\<close>, \<open>eco::has\<close>), the atomic flag word
  \<open>eco::atomic::State\<close> of \<open>src/project/eco/thread/State.h\<close>, and the connection state
  \<open>eco::net::TcpState\<close> of \<open>src/project/eco/net/TcpState.h\<close> that is built on it.

  Both classes hold a single \<open>uint32_t\<close>, so an operation that runs alone is a function on that
  value. The updates of \<open>eco::Atomic\<close> are not single atomic steps, however; how they interleave
  is the subject of theory \<open>Eco_Atomic\<close>.
\<close>

section \<open>Generic flag functions\<close>

text \<open>
  The templates take any integer type for the object and a \<open>uint32_t\<close> mask: the object is
  converted to the common type, combined and converted back.
\<close>

definition eco_add :: "'a::len word \<Rightarrow> u32 \<Rightarrow> 'a word" where
  "eco_add obj v = obj OR ucast v"

definition eco_del :: "'a::len word \<Rightarrow> u32 \<Rightarrow> 'a word" where
  "eco_del obj v = obj AND ucast (NOT v)"

definition eco_toggle :: "'a::len word \<Rightarrow> u32 \<Rightarrow> 'a word" where
  "eco_toggle obj v = obj XOR ucast v"

definition eco_set :: "'a::len word \<Rightarrow> u32 \<Rightarrow> bool \<Rightarrow> 'a word" where
  "eco_set obj v is = (if is then obj OR ucast v else obj AND ucast (NOT v))"

definition eco_has :: "'a::len word \<Rightarrow> u32 \<Rightarrow> bool" where
  "eco_has obj v = (0 < (ucast obj :: u32) AND v)"

section \<open>The atomic flag word\<close>

type_synonym State = u32

definition State_a :: u32 where "State_a = 0x0001"
definition State_b :: u32 where "State_b = 0x0002"
definition State_c :: u32 where "State_c = 0x0004"
definition State_d :: u32 where "State_d = 0x0008"
definition State_e :: u32 where "State_e = 0x0010"
definition State_f :: u32 where "State_f = 0x0020"
definition State_g :: u32 where "State_g = 0x0040"
definition State_no :: u32 where "State_no = 0x0000"
definition State_ok_flag :: u32 where "State_ok_flag = 0x1000"

definition State_add :: "State \<Rightarrow> u32 \<Rightarrow> State" where
  "State_add s v = s OR v"

definition State_del :: "State \<Rightarrow> u32 \<Rightarrow> State" where
  "State_del s v = s AND NOT v"

definition State_set_v :: "State \<Rightarrow> u32 \<Rightarrow> u32 \<Rightarrow> State" where
  "State_set_v s add_v del_v = State_del (State_add s add_v) del_v"

definition State_assign :: "State \<Rightarrow> u32 \<Rightarrow> State" where
  "State_assign s v = v"

definition State_set :: "State \<Rightarrow> bool \<Rightarrow> u32 \<Rightarrow> State" where
  "State_set s is v = (if is then State_add s v else State_del s v)"

definition State_has :: "State \<Rightarrow> u32 \<Rightarrow> bool" where
  "State_has s v = (0 < s AND v)"

definition State_none :: "State \<Rightarrow> State" where
  "State_none s = State_no"

definition State_is_none :: "State \<Rightarrow> bool" where
  "State_is_none s = (s = State_no)"

definition State_ok :: "State \<Rightarrow> State" where
  "State_ok s = State_add s State_ok_flag"

definition State_is_ok :: "State \<Rightarrow> bool" where
  "State_is_ok s = State_has s State_ok_flag"

lemmas State_flag_defs =
  State_a_def State_b_def State_c_def State_d_def State_e_def State_f_def State_g_def
  State_no_def State_ok_flag_def

lemmas State_op_defs =
  State_add_def State_del_def State_set_v_def State_assign_def State_set_def State_has_def
  State_none_def State_is_none_def State_ok_def State_is_ok_def

section \<open>The state of a connection\<close>

type_synonym TcpState = State

definition TcpState_init :: TcpState where
  "TcpState_init = State_no"

definition set_closed :: "TcpState \<Rightarrow> TcpState" where
  "set_closed s = State_assign s State_no"

definition closed :: "TcpState \<Rightarrow> bool" where
  "closed s = (s = State_no)"

definition set_server :: "TcpState \<Rightarrow> TcpState" where
  "set_server s = State_assign s State_a"

definition server :: "TcpState \<Rightarrow> bool" where
  "server s = (0 < s AND State_a)"

definition set_connected :: "TcpState \<Rightarrow> TcpState" where
  "set_connected s = State_assign s State_b"

definition connected :: "TcpState \<Rightarrow> bool" where
  "connected s = (0 < s AND State_b)"

definition set_ready :: "TcpState \<Rightarrow> TcpState" where
  "set_ready s = State_add s State_c"

definition ready :: "TcpState \<Rightarrow> bool" where
  "ready s = (0 < s AND State_c)"

definition set_websocket :: "TcpState \<Rightarrow> TcpState" where
  "set_websocket s = State_add s State_d"

definition websocket :: "TcpState \<Rightarrow> bool" where
  "websocket s = (0 < s AND State_d)"

definition set_self_live :: "TcpState \<Rightarrow> bool \<Rightarrow> TcpState" where
  "set_self_live s is = State_set s is State_e"

definition self_live :: "TcpState \<Rightarrow> bool" where
  "self_live s = State_has s State_e"

definition set_peer_live :: "TcpState \<Rightarrow> bool \<Rightarrow> TcpState" where
  "set_peer_live s is =
     (if is then State_add s State_f else State_del s (State_f OR State_g))"

definition peer_live :: "TcpState \<Rightarrow> bool" where
  "peer_live s = State_has s State_f"

definition set_peer_active :: "TcpState \<Rightarrow> bool \<Rightarrow> TcpState" where
  "set_peer_active s is =
     (if is then State_add s (State_g OR State_f) else State_del s State_g)"

definition peer_active :: "TcpState \<Rightarrow> bool" where
  "peer_active s = State_has s State_g"

lemmas TcpState_defs =
  TcpState_init_def set_closed_def closed_def set_server_def server_def set_connected_def
  connected_def set_ready_def ready_def set_websocket_def websocket_def set_self_live_def
  self_live_def set_peer_live_def peer_live_def set_peer_active_def peer_active_def

text \<open>The updates a peer can make to its state, and the states they can reach.\<close>

inductive TcpState_step :: "TcpState \<Rightarrow> TcpState \<Rightarrow> bool" where
  close: "TcpState_step s (set_closed s)"
| serve: "TcpState_step s (set_server s)"
| connect: "TcpState_step s (set_connected s)"
| get_ready: "TcpState_step s (set_ready s)"
| upgrade: "TcpState_step s (set_websocket s)"
| self: "TcpState_step s (set_self_live s is)"
| live: "TcpState_step s (set_peer_live s is)"
| active: "TcpState_step s (set_peer_active s is)"

inductive TcpState_reachable :: "TcpState \<Rightarrow> bool" where
  start: "TcpState_reachable TcpState_init"
| step: "TcpState_reachable s \<Longrightarrow> TcpState_step s t \<Longrightarrow> TcpState_reachable t"

section \<open>Flag words bit by bit\<close>

lemma and_numeral_pos:
  fixes s :: "'a::len word"
  shows "(0 < s AND 1) \<longleftrightarrow> bit s 0" "(0 < s AND 2) \<longleftrightarrow> bit s 1" "(0 < s AND 4) \<longleftrightarrow> bit s 2"
    "(0 < s AND 8) \<longleftrightarrow> bit s 3" "(0 < s AND 16) \<longleftrightarrow> bit s 4" "(0 < s AND 32) \<longleftrightarrow> bit s 5"
    "(0 < s AND 64) \<longleftrightarrow> bit s 6"
  using and_two_power_eq_0_iff [of s 0] and_two_power_eq_0_iff [of s 1]
    and_two_power_eq_0_iff [of s 2] and_two_power_eq_0_iff [of s 3]
    and_two_power_eq_0_iff [of s 4] and_two_power_eq_0_iff [of s 5]
    and_two_power_eq_0_iff [of s 6]
  by (simp_all add: and_pos_iff)

lemma bit_State_add [flag_simps]: "bit (State_add s v) n \<longleftrightarrow> bit s n \<or> bit v n"
  by (simp add: State_add_def bit_or_iff)

lemma bit_State_del [flag_simps]: "bit (State_del s v) n \<longleftrightarrow> bit s n \<and> \<not> bit v n"
  by (auto simp: State_del_def bit_and_iff bit_not_iff dest: bit_imp_le_length)

lemma State_readers [flag_simps]:
  "server s \<longleftrightarrow> bit s 0" "connected s \<longleftrightarrow> bit s 1" "ready s \<longleftrightarrow> bit s 2" "websocket s \<longleftrightarrow> bit s 3"
  "self_live s \<longleftrightarrow> bit s 4" "peer_live s \<longleftrightarrow> bit s 5" "peer_active s \<longleftrightarrow> bit s 6"
  by (simp_all add: TcpState_defs State_flag_defs State_has_def and_numeral_pos del: One_nat_def)

lemma bit_State_flags [flag_simps]:
  "bit State_a n \<longleftrightarrow> n = 0" "bit State_b n \<longleftrightarrow> n = 1" "bit State_c n \<longleftrightarrow> n = 2"
  "bit State_d n \<longleftrightarrow> n = 3" "bit State_e n \<longleftrightarrow> n = 4" "bit State_f n \<longleftrightarrow> n = 5"
  "bit State_g n \<longleftrightarrow> n = 6" "bit State_no n \<longleftrightarrow> False"
proof -
  have pow: "bit (2 ^ m :: u32) n \<longleftrightarrow> n = m" if "m < 32" for m
    using that by (simp add: bit_exp_iff) auto
  show "bit State_a n \<longleftrightarrow> n = 0" "bit State_b n \<longleftrightarrow> n = 1" "bit State_c n \<longleftrightarrow> n = 2"
    "bit State_d n \<longleftrightarrow> n = 3" "bit State_e n \<longleftrightarrow> n = 4" "bit State_f n \<longleftrightarrow> n = 5"
    "bit State_g n \<longleftrightarrow> n = 6" "bit State_no n \<longleftrightarrow> False"
    using pow [of 0] pow [of 1] pow [of 2] pow [of 3] pow [of 4] pow [of 5] pow [of 6]
    by (simp_all add: State_flag_defs)
qed

lemma bit_State_updates [flag_simps]:
  "bit (set_closed s) n \<longleftrightarrow> False"
  "bit (set_server s) n \<longleftrightarrow> n = 0"
  "bit (set_connected s) n \<longleftrightarrow> n = 1"
  "bit (set_ready s) n \<longleftrightarrow> bit s n \<or> n = 2"
  "bit (set_websocket s) n \<longleftrightarrow> bit s n \<or> n = 3"
  "bit (set_self_live s is) n \<longleftrightarrow> (if n = 4 then is else bit s n)"
  "bit (set_peer_live s is) n \<longleftrightarrow> (if n = 5 then is else if n = 6 then is \<and> bit s n else bit s n)"
  "bit (set_peer_active s is) n \<longleftrightarrow> (if n = 6 then is else if n = 5 then is \<or> bit s n else bit s n)"
  by (auto simp: set_closed_def set_server_def set_connected_def set_ready_def set_websocket_def
      set_self_live_def set_peer_live_def set_peer_active_def State_assign_def State_set_def
      bit_State_add bit_State_del bit_State_flags bit_or_iff)

lemma closed_iff: "closed s \<longleftrightarrow> s = 0"
  by (simp add: closed_def State_no_def)

lemma not_closedI: "bit s n \<Longrightarrow> \<not> closed s"
  by (auto simp: closed_iff)

section \<open>Properties\<close>

text \<open>A peer that has been seen to be active also counts as alive.\<close>

lemma TcpState_step_active_live:
  "TcpState_step s t \<Longrightarrow> (peer_active s \<longrightarrow> peer_live s) \<Longrightarrow> peer_active t \<longrightarrow> peer_live t"
  by (induction rule: TcpState_step.induct) (auto simp: flag_simps)

lemma reachable_active_live:
  "TcpState_reachable s \<Longrightarrow> peer_active s \<longrightarrow> peer_live s"
proof (induction rule: TcpState_reachable.induct)
  case start
  show ?case by (simp add: flag_simps TcpState_init_def)
next
  case (step s t)
  then show ?case using TcpState_step_active_live by blast
qed

text \<open>
  Whatever updates a peer makes to its connection state and in whatever order, one
  update at a time, a peer that counts as active also counts as alive, so the timer never
  keeps the activity mark of a peer it considers dead.
\<close>

theorem TcpState_active_live:
  "TcpState_reachable s \<Longrightarrow> peer_active s \<longrightarrow> peer_live s"
  by (rule reachable_active_live)

theorem TcpState_active_live_witness: "peer_live (set_peer_active TcpState_init True)"
  using TcpState_active_live [OF TcpState_reachable.step
      [OF TcpState_reachable.start TcpState_step.active [of _ True]]]
  by (simp add: flag_simps)

end
