(* ===== verification/Eco_Atomic.thy ===== *)
theory Eco_Atomic
  imports Eco_Flags
begin

text \<open>
  \<open>eco::Atomic<uint32_t>\<close> of \<open>src/project/eco/thread/Atomic.h\<close>, the cell under every flag
  word. Its compound assignments are written as \<open>load(m_data | v)\<close>, and \<open>load(x)\<close> is
  \<open>exchange_add(&m_data, x - m_data)\<close>: the cell is read once to compute the new value, read a
  second time to compute the difference, and only the final addition is an atomic
  instruction.

  The first part models the operations as they behave when no other thread touches the cell.
  The second part models one compound assignment as the three memory accesses it makes, and
  two threads as any interleaving of their accesses.
\<close>

section \<open>The operations of one thread\<close>

definition exchange_add :: "u32 \<Rightarrow> u32 \<Rightarrow> u32 \<times> u32" where
  "exchange_add m ex = (m + ex, m)"

definition Atomic_load :: "u32 \<Rightarrow> u32 \<Rightarrow> u32" where
  "Atomic_load m v = fst (exchange_add m (v - m))"

definition Atomic_pre_inc :: "u32 \<Rightarrow> u32 \<times> u32" where
  "Atomic_pre_inc m = (let m' = fst (exchange_add m 1) in (m', m'))"

definition Atomic_post_inc :: "u32 \<Rightarrow> u32 \<times> u32" where
  "Atomic_post_inc m = exchange_add m 1"

definition Atomic_pre_dec :: "u32 \<Rightarrow> u32 \<times> u32" where
  "Atomic_pre_dec m = (let m' = fst (exchange_add m (- 1)) in (m', m'))"

definition Atomic_post_dec :: "u32 \<Rightarrow> u32 \<times> u32" where
  "Atomic_post_dec m = exchange_add m (- 1)"

definition Atomic_add_assign :: "u32 \<Rightarrow> u32 \<Rightarrow> u32" where
  "Atomic_add_assign m v = fst (exchange_add m v)"

definition Atomic_sub_assign :: "u32 \<Rightarrow> u32 \<Rightarrow> u32" where
  "Atomic_sub_assign m v = fst (exchange_add m (v * - 1))"

definition Atomic_and_assign :: "u32 \<Rightarrow> u32 \<Rightarrow> u32" where
  "Atomic_and_assign m v = Atomic_load m (m AND v)"

definition Atomic_or_assign :: "u32 \<Rightarrow> u32 \<Rightarrow> u32" where
  "Atomic_or_assign m v = Atomic_load m (m OR v)"

lemma Atomic_load_eq [simp]: "Atomic_load m v = v"
  by (simp add: Atomic_load_def exchange_add_def)

section \<open>One compound assignment as its memory accesses\<close>

text \<open>
  \<open>Idle f\<close> has not started \<open>m_data = f(m_data)\<close>; \<open>Computed x\<close> has read the cell and holds
  the value to store; \<open>Delta d\<close> has read the cell again and holds the difference; \<open>Done\<close> has
  added it. For \<open>State::add(v)\<close> the function is \<open>(OR) v\<close>, for \<open>State::del(v)\<close> it is
  \<open>(AND) (NOT v)\<close>, for an assignment it is constant.
\<close>

datatype rmw = Idle "u32 \<Rightarrow> u32" | Computed u32 | Delta u32 | Done

fun rmw_step :: "u32 \<Rightarrow> rmw \<Rightarrow> u32 \<times> rmw" where
  "rmw_step m (Idle f) = (m, Computed (f m))"
| "rmw_step m (Computed x) = (m, Delta (x - m))"
| "rmw_step m (Delta d) = (fst (exchange_add m d), Done)"
| "rmw_step m Done = (m, Done)"

text \<open>A schedule says, access by access, whether the first thread moves.\<close>

fun run2 :: "u32 \<Rightarrow> rmw \<Rightarrow> rmw \<Rightarrow> bool list \<Rightarrow> u32 \<times> rmw \<times> rmw" where
  "run2 m p q [] = (m, p, q)"
| "run2 m p q (True # ts) = (case rmw_step m p of (m', p') \<Rightarrow> run2 m' p' q ts)"
| "run2 m p q (False # ts) = (case rmw_step m q of (m', q') \<Rightarrow> run2 m' p q' ts)"

definition add_op :: "u32 \<Rightarrow> rmw" where
  "add_op v = Idle (\<lambda>m. m OR v)"

lemma run2_append:
  "run2 m p q (ts @ us) = (case run2 m p q ts of (m', p', q') \<Rightarrow> run2 m' p' q' us)"
  by (induction m p q ts rule: run2.induct) (auto split: prod.splits)

lemma run2_first_alone:
  "run2 m (Idle f) q [True, True, True] = (f m, Done, q)"
  by (simp add: exchange_add_def)

lemma run2_second_alone:
  "run2 m p (Idle g) [False, False, False] = (g m, p, Done)"
  by (simp add: exchange_add_def)

section \<open>Properties\<close>

text \<open>
  The compound assignments of \<open>eco::Atomic\<close> are not atomic. Two threads that mark the
  same connection at the same time, one with \<open>set_peer_live(true)\<close> and one with
  \<open>set_self_live(true)\<close>, can both finish and leave only one of the marks; and two threads that
  both run \<open>set_peer_live(true)\<close> can both finish and leave a connection that is active and not
  alive, a state no sequence of updates reaches.
\<close>

theorem Atomic_updates_interfere:
  "(\<exists>ts m. run2 State_no (add_op State_f) (add_op State_e) ts = (m, Done, Done)
      \<and> self_live m \<and> \<not> peer_live m) \<and>
   (\<exists>ts m. run2 State_no (add_op State_f) (add_op State_f) ts = (m, Done, Done)
      \<and> peer_active m \<and> \<not> peer_live m \<and> \<not> TcpState_reachable m)"
proof
  have "run2 State_no (add_op State_f) (add_op State_e)
      [False, True, True, True, False, False] = (State_e, Done, Done)"
    by (simp add: add_op_def exchange_add_def State_flag_defs)
  then show "\<exists>ts m. run2 State_no (add_op State_f) (add_op State_e) ts = (m, Done, Done)
      \<and> self_live m \<and> \<not> peer_live m"
    by (intro exI conjI) (assumption, simp_all add: flag_simps)
next
  have run: "run2 State_no (add_op State_f) (add_op State_f)
      [True, False, True, False, True, False] = (State_g, Done, Done)"
    by (simp add: add_op_def exchange_add_def State_flag_defs)
  have "\<not> TcpState_reachable State_g"
    using reachable_active_live [of State_g] by (auto simp: flag_simps)
  with run show "\<exists>ts m. run2 State_no (add_op State_f) (add_op State_f) ts = (m, Done, Done)
      \<and> peer_active m \<and> \<not> peer_live m \<and> \<not> TcpState_reachable m"
    by (intro exI conjI) (assumption, simp_all add: flag_simps)
qed

end
