(* ===== verification/Eco_Memory.thy ===== *)
theory Eco_Memory
  imports Eco_Prelude "HOL-Library.Sublist"
begin

text \<open>
  The C string routines of \<open>src/project/eco/Memory.h\<close>. A \<open>const char*\<close> argument is the list
  of the bytes from the pointer to the end of its buffer, so a scan that runs off the end of
  the list is an access outside the buffer (\<open>UB\<close>). A buffer holds the C string \<open>s\<close> when it is
  \<open>s @ 0 # rest\<close> and \<open>s\<close> has no zero byte. Pointers returned by the code are offsets here.
\<close>

section \<open>Copying\<close>

text \<open>
  \<open>strncpy_loop dest src i len\<close> is the loop of \<open>auto_strncpy\<close> from index \<open>i\<close> on; it returns
  the buffer and the value of \<open>cpy_len\<close> after the loop.
\<close>

function strncpy_loop :: "bytes \<Rightarrow> bytes \<Rightarrow> nat \<Rightarrow> nat \<Rightarrow> (bytes \<times> nat) outcome" where
  "strncpy_loop dest src i len =
     (if i < len then
        obind (rd src i) (\<lambda>c. obind (wr dest i c) (\<lambda>dest'.
          if c \<noteq> 0 then strncpy_loop dest' src (Suc i) len else Ok (dest', Suc i)))
      else Ok (dest, Suc i))"
  by pat_completeness auto
termination
  by (relation "measure (\<lambda>(dest, src, i, len). len - i)") auto

definition auto_strncpy :: "bytes \<Rightarrow> bytes \<Rightarrow> nat \<Rightarrow> (bytes \<times> nat) outcome" where
  "auto_strncpy dest src len =
     obind (strncpy_loop dest src 0 len) (\<lambda>(dest', cpy_len).
       if cpy_len - 1 = len
       then (if len = 0 then UB
             else obind (wr dest' (len - 1) 0) (\<lambda>dest''. Ok (dest'', len - 1)))
       else Ok (dest', cpy_len - 1))"

fun strlen :: "bytes \<Rightarrow> nat outcome" where
  "strlen [] = UB"
| "strlen (b # bs) = (if b = 0 then Ok 0 else obind (strlen bs) (\<lambda>n. Ok (Suc n)))"

definition auto_strncat :: "bytes \<Rightarrow> bytes \<Rightarrow> nat \<Rightarrow> (bytes \<times> nat) outcome" where
  "auto_strncat dest src len =
     obind (strlen dest) (\<lambda>dest_end.
       obind (auto_strncpy (drop dest_end dest) src
                (if dest_end \<le> len then len - dest_end else 2 ^ 64 + len - dest_end))
         (\<lambda>(tail, n). Ok (take dest_end dest @ tail, n)))"

section \<open>Searching\<close>

fun find_cmp :: "bytes \<Rightarrow> bytes \<Rightarrow> bool outcome" where
  "find_cmp [] v = UB"
| "find_cmp (d # ds) [] = UB"
| "find_cmp (d # ds) (v # vs) =
     (if d \<noteq> 0 \<and> v \<noteq> 0 \<and> d = v then find_cmp ds vs else Ok (v = 0))"

fun find_from :: "bytes \<Rightarrow> bytes \<Rightarrow> nat \<Rightarrow> nat option outcome" where
  "find_from [] v i = UB"
| "find_from (d # ds) v i =
     (if d \<noteq> 0
      then obind (find_cmp (d # ds) v) (\<lambda>hit. if hit then Ok (Some i) else find_from ds v (Suc i))
      else Ok None)"

definition eco_find :: "bytes \<Rightarrow> bytes \<Rightarrow> nat option outcome" where
  "eco_find dest v = find_from dest v 0"

text \<open>
  The sized search tries the offsets \<open>0, \<dots>, size - strlen(v)\<close>; where the needle is longer than
  \<open>size\<close> the end pointer lies before the start and the loop body never runs.
\<close>

fun find_upto :: "bytes \<Rightarrow> bytes \<Rightarrow> nat \<Rightarrow> nat \<Rightarrow> nat option outcome" where
  "find_upto dest v i 0 = Ok None"
| "find_upto dest v i (Suc n) =
     obind (find_cmp (drop i dest) v) (\<lambda>hit. if hit then Ok (Some i) else find_upto dest v (Suc i) n)"

definition eco_find_n :: "bytes \<Rightarrow> nat \<Rightarrow> bytes \<Rightarrow> nat option outcome" where
  "eco_find_n dest siz v =
     obind (strlen v) (\<lambda>n. if n \<le> siz then find_upto dest v 0 (Suc (siz - n)) else Ok None)"

fun find_first_from :: "bytes \<Rightarrow> byte \<Rightarrow> u32 \<Rightarrow> u32 outcome" where
  "find_first_from [] flag pos = UB"
| "find_first_from (k # ks) flag pos =
     (if k \<noteq> 0 \<and> k \<noteq> flag then find_first_from ks flag (pos + 1)
      else Ok (if k = 0 then - 1 else pos))"

definition find_first :: "bytes \<Rightarrow> byte \<Rightarrow> u32 outcome" where
  "find_first key flag = find_first_from key flag 0"

text \<open>
  The backward scan tests \<open>*it != flag\<close> before \<open>it >= key\<close>, so the step to \<open>key - 1\<close> is read
  before the bound is noticed. \<open>find_last_from key n flag\<close> is the loop with \<open>it = key + n - 1\<close>.
\<close>

fun find_last_from :: "bytes \<Rightarrow> nat \<Rightarrow> byte \<Rightarrow> u32 outcome" where
  "find_last_from key 0 flag = UB"
| "find_last_from key (Suc n) flag =
     obind (rd key n) (\<lambda>b. if b \<noteq> flag then find_last_from key n flag else Ok (of_nat n))"

definition find_last_n :: "bytes \<Rightarrow> u32 \<Rightarrow> byte \<Rightarrow> u32 outcome" where
  "find_last_n key end flag = find_last_from key (unat end) flag"

definition find_last :: "bytes \<Rightarrow> byte \<Rightarrow> u32 outcome" where
  "find_last key flag = obind (strlen key) (\<lambda>n. find_last_n key (of_nat n) flag)"

fun find_nth_from :: "bytes \<Rightarrow> byte \<Rightarrow> u32 \<Rightarrow> u32 \<Rightarrow> u32 \<Rightarrow> u32 outcome" where
  "find_nth_from [] flag k_th pos cur_seq = UB"
| "find_nth_from (k # ks) flag k_th pos cur_seq =
     (if k = 0 then Ok (- 1)
      else if k = flag \<and> cur_seq + 1 = k_th then Ok pos
      else find_nth_from ks flag k_th (pos + 1) (if k = flag then cur_seq + 1 else cur_seq))"

definition find_nth :: "bytes \<Rightarrow> byte \<Rightarrow> u32 \<Rightarrow> u32 outcome" where
  "find_nth key flag k_th = find_nth_from key flag k_th 0 0"

fun eco_replace :: "bytes \<Rightarrow> byte \<Rightarrow> byte \<Rightarrow> bytes outcome" where
  "eco_replace [] c r = UB"
| "eco_replace (p # ps) c r =
     (if p = 0 then Ok (p # ps)
      else obind (eco_replace ps c r) (\<lambda>ps'. Ok ((if p = c then r else p) # ps')))"

section \<open>Inserting\<close>

text \<open>
  The tail is moved from the terminator down to \<open>pos\<close>, one byte at a time;
  \<open>insert_move dest pos num n\<close> is that loop with \<open>n\<close> bytes left to move.
\<close>

fun insert_move :: "bytes \<Rightarrow> nat \<Rightarrow> nat \<Rightarrow> nat \<Rightarrow> bytes outcome" where
  "insert_move dest pos num 0 = Ok dest"
| "insert_move dest pos num (Suc n) =
     obind (rd dest (pos + n)) (\<lambda>b. obind (wr dest (pos + n + num) b) (\<lambda>dest'.
       insert_move dest' pos num n))"

definition eco_insert :: "bytes \<Rightarrow> nat \<Rightarrow> nat \<Rightarrow> byte \<Rightarrow> bytes outcome" where
  "eco_insert dest pos num c =
     (if num = 0 then Ok dest
      else obind (strlen dest) (\<lambda>siz.
        obind (insert_move dest pos num (if pos \<le> siz then Suc (siz - pos) else 0)) (\<lambda>dest'.
          memcpy_at dest' pos (replicate num c))))"

section \<open>Hashing\<close>

definition hash_combine :: "u64 \<Rightarrow> u64 \<Rightarrow> u64" where
  "hash_combine seed val =
     seed XOR (val + 0x9e3779b9 + push_bit 6 seed + drop_bit 2 seed)"

section \<open>Facts about C strings\<close>

lemma strlen_cstr [simp]: "0 \<notin> set s \<Longrightarrow> strlen (s @ 0 # rest) = Ok (length s)"
  by (induction s) auto

declare strncpy_loop.simps [simp del]

lemma strncpy_loop_cstr:
  assumes "0 \<notin> set s" and "len \<le> length dest" and "i \<le> length s" and "i \<le> len"
  shows "strncpy_loop dest (s @ 0 # rest) i len =
    (if length s < len
     then Ok (take i dest @ drop i s @ 0 # drop (Suc (length s)) dest, Suc (length s))
     else Ok (take i dest @ take (len - i) (drop i s) @ drop len dest, Suc len))"
  using assms
proof (induction "len - i" arbitrary: i dest)
  case 0
  then show ?case by (simp add: strncpy_loop.simps [of _ _ i])
next
  case (Suc n)
  then have i: "i < len" by simp
  show ?case
  proof (cases "i = length s")
    case True
    then show ?thesis using i Suc.prems
      by (subst strncpy_loop.simps) (simp add: rd_def wr_def nth_append upd_conv_take_nth_drop)
  next
    case False
    with Suc.prems have "i < length s" by simp
    then have "s ! i \<in> set s" by simp
    then have nz: "s ! i \<noteq> 0" using Suc.prems by metis
    have "strncpy_loop dest (s @ 0 # rest) i len =
        strncpy_loop (dest[i := s ! i]) (s @ 0 # rest) (Suc i) len"
      using i nz \<open>i < length s\<close> Suc.prems
      by (simp add: strncpy_loop.simps [of _ _ i] rd_def wr_def nth_append)
    also have "\<dots> = (if length s < len
       then Ok (take (Suc i) (dest[i := s ! i]) @ drop (Suc i) s @ 0 # drop (Suc (length s)) (dest[i := s ! i]), Suc (length s))
       else Ok (take (Suc i) (dest[i := s ! i]) @ take (len - Suc i) (drop (Suc i) s) @ drop len (dest[i := s ! i]), Suc len))"
      using Suc.hyps Suc.prems i \<open>i < length s\<close> by (intro Suc.hyps(1)) auto
    also have "take (Suc i) (dest[i := s ! i]) = take i dest @ [s ! i]"
      using i Suc.prems by (simp add: take_Suc_conv_app_nth)
    finally show ?thesis
      using i \<open>i < length s\<close> Suc.prems
      by (simp add: Cons_nth_drop_Suc [symmetric] take_Cons' drop_update_cancel)
  qed
qed

lemma auto_strncpy_cstr:
  assumes "0 \<notin> set s" and "0 < len" and "len \<le> length dest"
  shows "auto_strncpy dest (s @ 0 # rest) len =
    Ok (take (len - 1) s @ 0 # drop (Suc (min (length s) (len - 1))) dest, min (length s) (len - 1))"
proof (cases "length s < len")
  case True
  then show ?thesis
    using strncpy_loop_cstr [of s len dest 0 rest] assms by (simp add: auto_strncpy_def)
next
  case False
  have "(take len s @ drop len dest)[len - 1 := 0] = take (len - 1) s @ 0 # drop len dest"
    using False assms by (simp add: list_update_append upd_conv_take_nth_drop min_def)
  then show ?thesis
    using strncpy_loop_cstr [of s len dest 0 rest] assms False
    by (auto simp: auto_strncpy_def wr_def min_def)
qed

lemma insert_move_shift:
  assumes "num \<le> length r" and "length a = pos"
  shows "insert_move (a @ b @ r) pos num (length b) = Ok (take (pos + num) (a @ b @ r) @ b @ drop num r)"
  using assms(1)
proof (induction b arbitrary: r rule: rev_induct)
  case Nil
  then show ?case using assms(2) by simp
next
  case (snoc x b)
  define r' where "r' = (x # r)[num := x]"
  have len': "length r' = Suc (length r)"
    unfolding r'_def length_list_update by simp
  have upd: "(a @ (b @ [x]) @ r)[pos + length b + num := x] = a @ b @ r'"
    using assms(2) by (simp add: r'_def list_update_append)
  have nth: "(a @ b @ x # r) ! (pos + length b) = x"
    using assms(2) nth_append_length [of "a @ b" x r] by simp
  have "insert_move (a @ (b @ [x]) @ r) pos num (length (b @ [x])) = insert_move (a @ b @ r') pos num (length b)"
    using upd snoc.prems assms(2) nth by (simp add: rd_def wr_def)
  also have "\<dots> = Ok (take (pos + num) (a @ b @ r') @ b @ drop num r')"
    using snoc.prems len' by (intro snoc.IH) simp
  also have "drop num r' = x # drop num r"
    using snoc.prems by (cases num) (auto simp: r'_def upd_conv_take_nth_drop)
  also have "take (pos + num) (a @ b @ r') = take (pos + num) (a @ (b @ [x]) @ r)"
    unfolding upd [symmetric] by (rule take_update_cancel) simp
  finally show ?case by simp
qed

lemma eco_insert_cstr:
  assumes "0 \<notin> set s" and "pos \<le> length s" and "num \<le> length rest"
  shows "eco_insert (s @ 0 # rest) pos num c =
    Ok (take pos s @ replicate num c @ drop pos s @ 0 # drop num rest)"
proof (cases "num = 0")
  case True
  then show ?thesis by (simp add: eco_insert_def append_assoc [symmetric] del: append_assoc)
next
  case False
  let ?a = "take pos s" and ?b = "drop pos s @ [0]"
  have "insert_move (?a @ ?b @ rest) pos num (length ?b) = Ok (take (pos + num) (?a @ ?b @ rest) @ ?b @ drop num rest)"
    using assms by (intro insert_move_shift) auto
  moreover have "?a @ ?b @ rest = s @ 0 # rest"
    by (metis append_Cons append_Nil append_assoc append_take_drop_id)
  moreover have "length ?b = Suc (length s - pos)" by simp
  ultimately have mv: "insert_move (s @ 0 # rest) pos num (Suc (length s - pos)) =
      Ok (take (pos + num) (s @ 0 # rest) @ ?b @ drop num rest)"
    by (simp only:)
  show ?thesis
    using False assms mv by (auto simp: eco_insert_def memcpy_at_def min_def simp del: insert_move.simps)
qed
lemma find_cmp_cstr:
  "0 \<notin> set s \<Longrightarrow> 0 \<notin> set v \<Longrightarrow> find_cmp (s @ 0 # rest) (v @ 0 # vrest) = Ok (prefix v s)"
proof (induction s arbitrary: v)
  case Nil
  then show ?case by (cases v) auto
next
  case (Cons d ds)
  then show ?case by (cases v) auto
qed

lemma find_from_cstr:
  assumes "0 \<notin> set s" and "0 \<notin> set v"
  shows "find_from (s @ 0 # rest) (v @ 0 # vrest) i =
    Ok (if \<exists>k < length s. prefix v (drop k s)
        then Some (i + (LEAST k. k < length s \<and> prefix v (drop k s))) else None)"
  using assms(1)
proof (induction s arbitrary: i)
  case Nil
  then show ?case by simp
next
  case (Cons d ds)
  have hit: "find_cmp (d # ds @ 0 # rest) (v @ 0 # vrest) = Ok (prefix v (d # ds))"
    using find_cmp_cstr [of "d # ds" v rest vrest] Cons.prems assms(2) by simp
  show ?case
  proof (cases "prefix v (d # ds)")
    case True
    then have "(LEAST k. k < length (d # ds) \<and> prefix v (drop k (d # ds))) = 0"
      by (intro Least_equality) auto
    moreover have "\<exists>k < length (d # ds). prefix v (drop k (d # ds))"
      using True by (intro exI [of _ 0]) simp
    ultimately show ?thesis using hit True Cons.prems by simp
  next
    case False
    have ex: "(\<exists>k < length (d # ds). prefix v (drop k (d # ds))) \<longleftrightarrow>
        (\<exists>k < length ds. prefix v (drop k ds))" (is "?L \<longleftrightarrow> ?R")
    proof
      assume ?L
      then obtain k where k: "k < length (d # ds)" "prefix v (drop k (d # ds))" by blast
      with False have "k \<noteq> 0" by (cases k) auto
      with k show ?R by (intro exI [of _ "k - 1"]) (auto simp: drop_Cons')
    next
      assume ?R
      then obtain k where "k < length ds" "prefix v (drop k ds)" by blast
      then show ?L by (intro exI [of _ "Suc k"]) simp
    qed
    have least: "(LEAST k. k < length (d # ds) \<and> prefix v (drop k (d # ds))) =
        Suc (LEAST k. k < length ds \<and> prefix v (drop k ds))" if R: "\<exists>k < length ds. prefix v (drop k ds)"
    proof -
      from R obtain n where "n < length ds \<and> prefix v (drop n ds)" by blast
      then show ?thesis
        using False Least_Suc [where P = "\<lambda>k. k < length (d # ds) \<and> prefix v (drop k (d # ds))"
            and n = "Suc n"] by simp
    qed
    have "find_from ((d # ds) @ 0 # rest) (v @ 0 # vrest) i =
        find_from (ds @ 0 # rest) (v @ 0 # vrest) (Suc i)"
      using hit False Cons.prems by simp
    also have "\<dots> = Ok (if \<exists>k < length ds. prefix v (drop k ds)
        then Some (Suc i + (LEAST k. k < length ds \<and> prefix v (drop k ds))) else None)"
      using Cons.IH Cons.prems by simp
    finally show ?thesis using ex least by (simp only: ex) auto
  qed
qed

section \<open>Properties\<close>

text \<open>
  \<open>auto_strncpy\<close> with a capacity of at least one byte copies as much of the C string as
  fits, always leaves a terminated string in the destination, touches nothing behind it and
  returns the number of characters copied.
\<close>

theorem auto_strncpy_truncates:
  assumes "0 \<notin> set s" and "0 < len" and "len \<le> length dest"
  shows "auto_strncpy dest (s @ 0 # rest) len =
    Ok (take (len - 1) s @ 0 # drop (Suc (min (length s) (len - 1))) dest, min (length s) (len - 1))"
  using assms by (rule auto_strncpy_cstr)

theorem auto_strncpy_truncates_witness:
  "auto_strncpy [9, 9, 9, 9] ([97, 98, 99, 100] @ 0 # []) 3 = Ok ([97, 98, 0, 9], 2)"
  using auto_strncpy_truncates [of "[97, 98, 99, 100]" 3 "[9, 9, 9, 9]" "[]"] by simp

text \<open>
  \<open>eco::find\<close> on C strings returns the position of the first occurrence of a non-empty needle, and no
  position exactly when the needle does not occur.
\<close>

theorem eco_find_first_occurrence:
  assumes "0 \<notin> set s" and "0 \<notin> set v" and "v \<noteq> []"
  shows "\<exists>r. eco_find (s @ 0 # rest) (v @ 0 # vrest) = Ok r
    \<and> (r = None \<longleftrightarrow> \<not> sublist v s)
    \<and> (\<forall>k. r = Some k \<longrightarrow> prefix v (drop k s) \<and> (\<forall>j < k. \<not> prefix v (drop j s)))"
proof -
  define P where "P = (\<lambda>k. k < length s \<and> prefix v (drop k s))"
  have sub: "sublist v s \<longleftrightarrow> (\<exists>k. P k)"
  proof
    assume "sublist v s"
    then obtain xs ys where "s = xs @ v @ ys" by (auto simp: sublist_def)
    then show "\<exists>k. P k" using assms(3) by (intro exI [of _ "length xs"]) (simp add: P_def)
  next
    assume "\<exists>k. P k"
    then show "sublist v s"
      unfolding P_def by (metis append_take_drop_id prefix_def sublist_def)
  qed
  have P: "P j \<longleftrightarrow> prefix v (drop j s)" for j
    using assms(3) by (cases "j < length s") (auto simp: P_def)
  have "eco_find (s @ 0 # rest) (v @ 0 # vrest) = Ok (if \<exists>k. P k then Some (LEAST k. P k) else None)"
    using find_from_cstr [OF assms(1,2)] by (simp add: eco_find_def P_def)
  moreover have "prefix v (drop (LEAST k. P k) s) \<and> (\<forall>j < (LEAST k. P k). \<not> prefix v (drop j s))"
    if "\<exists>k. P k"
    using LeastI_ex [OF that] not_less_Least [of _ P] by (simp only: P [symmetric]) blast
  ultimately show ?thesis
    unfolding sub by (cases "\<exists>k. P k") simp_all
qed

theorem eco_find_first_occurrence_witness:
  "\<exists>r. eco_find ([1, 2, 1, 2] @ 0 # []) ([1, 2] @ 0 # []) = Ok r
    \<and> (r = None \<longleftrightarrow> \<not> sublist [1, 2] [1, 2, 1, 2 :: byte])
    \<and> (\<forall>k. r = Some k \<longrightarrow> prefix [1, 2] (drop k [1, 2, 1, 2 :: byte])
      \<and> (\<forall>j < k. \<not> prefix [1, 2] (drop j [1, 2, 1, 2 :: byte])))"
  by (rule eco_find_first_occurrence) simp_all

text \<open>
  \<open>eco::insert\<close> puts \<open>num\<close> copies of a character at a position inside the string and
  moves the rest, terminator included, behind them, provided the buffer has \<open>num\<close> bytes to
  spare.
\<close>

theorem eco_insert_shifts:
  assumes "0 \<notin> set s" and "pos \<le> length s" and "num \<le> length rest"
  shows "eco_insert (s @ 0 # rest) pos num c =
    Ok (take pos s @ replicate num c @ drop pos s @ 0 # drop num rest)"
  using assms by (rule eco_insert_cstr)

theorem eco_insert_shifts_witness:
  "eco_insert ([1, 2, 3] @ 0 # [9, 9, 9]) 1 2 7 =
     Ok (take 1 [1, 2, 3] @ replicate 2 7 @ drop 1 [1, 2, 3] @ 0 # drop 2 [9, 9, 9])"
  by (rule eco_insert_shifts) simp_all

end
