(* ===== verification/Eco_String.thy ===== *)
theory Eco_String
  imports Eco_Memory
begin

text \<open>
  The heap string \<open>eco::String\<close> of \<open>src/project/eco/Type.h\<close>: a pointer, a size and a capacity,
  all updates of them, and the buffer itself. A null pointer is \<open>None\<close>; a buffer is the list of
  its \<open>m_capacity + 1\<close> bytes. \<open>new char[n]\<close> returns memory with unknown contents, given by the
  parameter \<open>heap\<close>; sizes are \<open>uint32_t\<close> and wrap.

  The abstraction \<open>String_bytes\<close> is the byte sequence a String stands for. Each operation is
  shown to implement the corresponding list operation and to keep the representation
  invariant \<open>String_wf\<close>, without touching memory outside its buffer, as long as the requested
  size does not reach the largest \<open>uint32_t\<close>.
\<close>

section \<open>The representation\<close>

record String_rec =
  m_data :: "bytes option"
  m_size :: u32
  m_capacity :: u32

definition String_new :: String_rec where
  "String_new = \<lparr>m_data = None, m_size = 0, m_capacity = 0\<rparr>"

definition alloc :: "(nat \<Rightarrow> byte) \<Rightarrow> u32 \<Rightarrow> bytes" where
  "alloc heap n = map heap [0..<unat n]"

definition with_data :: "String_rec \<Rightarrow> (bytes \<Rightarrow> bytes outcome) \<Rightarrow> String_rec outcome" where
  "with_data s f =
     (case m_data s of None \<Rightarrow> UB | Some d \<Rightarrow> obind (f d) (\<lambda>d'. Ok (s\<lparr>m_data := Some d'\<rparr>)))"

section \<open>Operations\<close>

definition String_reserve :: "(nat \<Rightarrow> byte) \<Rightarrow> String_rec \<Rightarrow> u32 \<Rightarrow> String_rec outcome" where
  "String_reserve heap s c =
     (if m_capacity s < c then
        let old_size = m_size s;
            new_size = (if m_capacity s * 2 < c then c else m_capacity s * 2);
            new_data = alloc heap (new_size + 1)
        in obind (if old_size > 0
                  then (case m_data s of
                          None \<Rightarrow> UB
                        | Some d \<Rightarrow> if unat old_size \<le> length d
                                    then memcpy_at new_data 0 (take (unat old_size) d) else UB)
                  else Ok new_data) (\<lambda>d1.
           obind (wr d1 (unat old_size) 0) (\<lambda>d2.
             Ok \<lparr>m_data = Some d2, m_size = old_size, m_capacity = new_size\<rparr>))
      else Ok s)"

definition String_resize :: "(nat \<Rightarrow> byte) \<Rightarrow> String_rec \<Rightarrow> u32 \<Rightarrow> String_rec outcome" where
  "String_resize heap s n =
     obind (String_reserve heap s n) (\<lambda>s1.
       let s2 = s1\<lparr>m_size := n\<rparr> in
       case m_data s2 of
         None \<Rightarrow> Ok s2
       | Some d \<Rightarrow> with_data s2 (\<lambda>d. wr d (unat n) 0))"

definition String_append :: "(nat \<Rightarrow> byte) \<Rightarrow> String_rec \<Rightarrow> bytes \<Rightarrow> u32 \<Rightarrow> String_rec outcome" where
  "String_append heap s d n =
     obind (String_reserve heap s (m_size s + n)) (\<lambda>s1.
     obind (if n = 0 then Ok s1
            else if unat n \<le> length d
                 then with_data s1 (\<lambda>b. memcpy_at b (unat (m_size s1)) (take (unat n) d))
                 else UB) (\<lambda>s2.
       let s3 = s2\<lparr>m_size := m_size s2 + n\<rparr> in
       with_data s3 (\<lambda>b. wr b (unat (m_size s3)) 0)))"

definition String_append_fill :: "(nat \<Rightarrow> byte) \<Rightarrow> String_rec \<Rightarrow> u32 \<Rightarrow> byte \<Rightarrow> String_rec outcome" where
  "String_append_fill heap s n c =
     obind (String_reserve heap s (m_size s + n)) (\<lambda>s1.
     obind (if n = 0 then Ok s1
            else with_data s1 (\<lambda>b. memcpy_at b (unat (m_size s1)) (replicate (unat n) c))) (\<lambda>s2.
       let s3 = s2\<lparr>m_size := m_size s2 + n\<rparr> in
       with_data s3 (\<lambda>b. wr b (unat (m_size s3)) 0)))"

definition String_append_char :: "(nat \<Rightarrow> byte) \<Rightarrow> String_rec \<Rightarrow> byte \<Rightarrow> String_rec outcome" where
  "String_append_char heap s c = String_append_fill heap s 1 c"

definition String_append_cstr :: "(nat \<Rightarrow> byte) \<Rightarrow> String_rec \<Rightarrow> bytes \<Rightarrow> String_rec outcome" where
  "String_append_cstr heap s d = obind (strlen d) (\<lambda>n. String_append heap s d (of_nat n))"

definition String_asign :: "(nat \<Rightarrow> byte) \<Rightarrow> String_rec \<Rightarrow> bytes \<Rightarrow> u32 \<Rightarrow> String_rec outcome" where
  "String_asign heap s d n =
     obind (String_resize heap s n) (\<lambda>s1.
       if n = 0 then Ok s1
       else if unat n \<le> length d
            then with_data s1 (\<lambda>b. memcpy_at b 0 (take (unat n) d)) else UB)"

definition String_clear :: "(nat \<Rightarrow> byte) \<Rightarrow> String_rec \<Rightarrow> String_rec outcome" where
  "String_clear heap s = String_resize heap s 0"

definition String_release :: "String_rec \<Rightarrow> String_rec" where
  "String_release s = s\<lparr>m_data := None, m_size := 0, m_capacity := 0\<rparr>"

text \<open>The move constructor and the move assignment return the target and the emptied source.\<close>

definition String_move :: "String_rec \<Rightarrow> String_rec \<times> String_rec" where
  "String_move v =
     (\<lparr>m_data = m_data v, m_size = m_size v, m_capacity = m_capacity v\<rparr>,
      v\<lparr>m_data := None, m_size := 0, m_capacity := 0\<rparr>)"

definition String_swap :: "String_rec \<Rightarrow> String_rec \<Rightarrow> String_rec \<times> String_rec" where
  "String_swap s v = (v, s)"

text \<open>\<open>find_reverse\<close> looks for the last occurrence of \<open>v\<close> that starts at \<open>find_end\<close> or later.\<close>

fun find_reverse_loop :: "bytes \<Rightarrow> bytes \<Rightarrow> nat \<Rightarrow> nat \<Rightarrow> nat option outcome" where
  "find_reverse_loop buf v end 0 =
     obind (find_cmp (drop end buf) v) (\<lambda>hit. Ok (if hit then Some end else None))"
| "find_reverse_loop buf v end (Suc n) =
     obind (find_cmp (drop (end + Suc n) buf) v) (\<lambda>hit.
       if hit then Ok (Some (end + Suc n)) else find_reverse_loop buf v end n)"

definition String_find_reverse :: "String_rec \<Rightarrow> bytes \<Rightarrow> u32 \<Rightarrow> nat option outcome" where
  "String_find_reverse s v find_end =
     obind (strlen v) (\<lambda>len.
       if m_size s < find_end + of_nat len then Ok None
       else (case m_data s of
               None \<Rightarrow> UB
             | Some d \<Rightarrow> find_reverse_loop d v (unat find_end)
                           (unat (m_size s - of_nat len - find_end))))"

section \<open>Abstraction and invariant\<close>

definition String_bytes :: "String_rec \<Rightarrow> bytes" where
  "String_bytes s = (case m_data s of None \<Rightarrow> [] | Some d \<Rightarrow> take (unat (m_size s)) d)"

definition String_wf :: "String_rec \<Rightarrow> bool" where
  "String_wf s =
     (case m_data s of
        None \<Rightarrow> m_size s = 0 \<and> m_capacity s = 0
      | Some d \<Rightarrow> length d = Suc (unat (m_capacity s)) \<and> m_size s \<le> m_capacity s
                  \<and> m_capacity s < - 1 \<and> d ! unat (m_size s) = 0)"

text \<open>Both forms of \<open>append\<close> reserve, copy \<open>xs\<close> behind the end and move the end.\<close>

definition String_put :: "(nat \<Rightarrow> byte) \<Rightarrow> String_rec \<Rightarrow> bytes \<Rightarrow> String_rec outcome" where
  "String_put heap s xs =
     obind (String_reserve heap s (m_size s + of_nat (length xs))) (\<lambda>s1.
     obind (if xs = [] then Ok s1
            else with_data s1 (\<lambda>b. memcpy_at b (unat (m_size s1)) xs)) (\<lambda>s2.
       let s3 = s2\<lparr>m_size := m_size s2 + of_nat (length xs)\<rparr> in
       with_data s3 (\<lambda>b. wr b (unat (m_size s3)) 0)))"

lemma String_new_wf: "String_wf String_new" "String_bytes String_new = []"
  by (simp_all add: String_wf_def String_new_def String_bytes_def)

lemma String_wf_length: "String_wf s \<Longrightarrow> length (String_bytes s) = unat (m_size s)"
  by (auto simp: String_wf_def String_bytes_def word_le_nat_alt split: option.splits)

text \<open>
  Growth by doubling never passes below the request: where the doubled capacity wraps it is
  smaller than the request and the request itself is taken.
\<close>

lemma grow_ge: "(c :: u32) \<le> (if k * 2 < c then c else k * 2)"
  by (simp add: not_less)

lemma double_even: "k * 2 \<noteq> (- 1 :: u32)"
proof
  assume "k * 2 = (- 1 :: u32)"
  then have "bit (k * 2) 0 = bit (- 1 :: u32) 0" by simp
  then show False by (simp add: bit_0)
qed

lemma grow_lt_max: "c < - 1 \<Longrightarrow> (if k * 2 < c then c else k * 2) < (- 1 :: u32)"
  using double_even [of k] by (auto simp: order_less_le)

lemma String_reserve_refines:
  assumes wf: "String_wf s" and c: "c < - 1"
  obtains s' where "String_reserve heap s c = Ok s'" "String_wf s'" "m_size s' = m_size s"
    "String_bytes s' = String_bytes s" "c \<le> m_capacity s'" "m_capacity s \<le> m_capacity s'"
    "m_data s = None \<Longrightarrow> 0 < c \<Longrightarrow> m_data s' \<noteq> None" "m_data s \<noteq> None \<Longrightarrow> m_data s' \<noteq> None"
proof (cases "m_capacity s < c")
  case False
  then show ?thesis
    using wf by (intro that [of s]) (auto simp: String_reserve_def String_wf_def not_less split: option.splits)
next
  case True
  define n where "n = (if m_capacity s * 2 < c then c else m_capacity s * 2)"
  have n: "c \<le> n" "n < - 1"
    using grow_ge grow_lt_max c unfolding n_def by blast+
  have size: "m_size s \<le> m_capacity s"
    using wf by (auto simp: String_wf_def split: option.splits)
  with True n(1) have sn: "m_size s < n" by (meson order_le_less_trans order_less_le_trans)
  then have sn': "unat (m_size s) < Suc (unat n)"
    by (simp add: word_less_nat_alt)
  have len: "length (alloc heap (n + 1)) = Suc (unat n)"
    using n(2) by (simp add: alloc_def unat_plus_one)
  define old where "old = String_bytes s"
  have old: "length old = unat (m_size s)"
    using wf unfolding old_def by (rule String_wf_length)
  define d2 where "d2 = old @ 0 # drop (Suc (unat (m_size s))) (alloc heap (n + 1))"
  have pos: "m_size s = 0 \<Longrightarrow> old = []" using old by simp
  define r where "r = \<lparr>m_data = Some d2, m_size = m_size s, m_capacity = n\<rparr>"
  have "String_reserve heap s c = Ok r"
    using True sn' len old wf pos
    by (auto simp: String_reserve_def n_def [symmetric] Let_def memcpy_at_def wr_def old_def
        String_bytes_def String_wf_def d2_def r_def word_gt_0 list_update_append upd_conv_take_nth_drop
        unat_eq_0 word_le_nat_alt split: option.splits)
  then show ?thesis
    using n True size sn sn' len old
    by (intro that [of r]) (auto simp: String_wf_def d2_def r_def old_def [symmetric] nth_append
        String_bytes_def [of "\<lparr>m_data = _, m_size = _, m_capacity = _\<rparr>"])
qed

text \<open>Writing behind the current end of a reserved buffer and moving the end.\<close>

lemma String_write_end:
  assumes wf: "String_wf s" and d: "m_data s = Some d"
    and room: "m_size s + of_nat (length xs) \<le> m_capacity s"
    and small: "unat (m_size s) + length xs < 4294967295"
  defines "d1 \<equiv> take (unat (m_size s)) d @ xs @ drop (unat (m_size s) + length xs) d"
  defines "s' \<equiv> s\<lparr>m_size := m_size s + of_nat (length xs),
                  m_data := Some (d1[unat (m_size s) + length xs := 0])\<rparr>"
  shows "memcpy_at d (unat (m_size s)) xs = Ok d1" "unat (m_size s) + length xs < length d1"
    "String_wf s'" "String_bytes s' = String_bytes s @ xs"
proof -
  have le: "unat (m_size s) + length xs \<le> unat (m_capacity s)"
    using room small by (simp add: word_le_nat_alt unat_add_small)
  have ld: "length d = Suc (unat (m_capacity s))" and cap: "m_capacity s < - 1"
    using wf d by (auto simp: String_wf_def)
  show "memcpy_at d (unat (m_size s)) xs = Ok d1"
    using le ld by (simp add: memcpy_at_def d1_def)
  show "unat (m_size s) + length xs < length d1"
    using le ld by (simp add: d1_def)
  have us: "unat (m_size s + of_nat (length xs)) = unat (m_size s) + length xs"
    using small by (rule unat_add_small)
  show "String_wf s'"
    using le ld cap room us by (simp add: String_wf_def s'_def d1_def nth_list_update)
  show "String_bytes s' = String_bytes s @ xs"
    using le ld us d by (simp add: String_bytes_def s'_def d1_def)
qed

lemma String_append_put:
  "length xs < 4294967295 \<Longrightarrow>
     String_append heap s (xs @ rest) (of_nat (length xs)) = String_put heap s xs"
  by (simp add: String_append_def String_put_def of_nat_u32_eq_0 unat_of_nat_u32 cong: if_cong)

lemma String_append_fill_put:
  "String_append_fill heap s n c = String_put heap s (replicate (unat n) c)"
  by (auto simp: String_append_fill_def String_put_def unat_eq_0)

lemma String_put_refines:
  assumes wf: "String_wf s" and ne: "xs \<noteq> [] \<or> m_data s \<noteq> None"
    and small: "unat (m_size s) + length xs < 4294967295"
  shows "\<exists>s'. String_put heap s xs = Ok s' \<and> String_wf s'
    \<and> String_bytes s' = String_bytes s @ xs \<and> m_data s' \<noteq> None"
proof -
  let ?n = "of_nat (length xs) :: u32"
  have add: "unat (m_size s + ?n) = unat (m_size s) + length xs"
    using small by (rule unat_add_small)
  obtain s1 where s1: "String_reserve heap s (m_size s + ?n) = Ok s1" "String_wf s1"
    "m_size s1 = m_size s" "String_bytes s1 = String_bytes s" "m_size s + ?n \<le> m_capacity s1"
    "m_data s = None \<Longrightarrow> 0 < m_size s + ?n \<Longrightarrow> m_data s1 \<noteq> None" "m_data s \<noteq> None \<Longrightarrow> m_data s1 \<noteq> None"
    using String_reserve_refines [OF wf add_small_lt_max [OF small]] by metis
  have "m_data s = None \<Longrightarrow> 0 < m_size s + ?n"
    using ne add by (auto simp: word_less_nat_alt)
  with s1(6,7) obtain d where d: "m_data s1 = Some d" by blast
  have room: "m_size s1 + ?n \<le> m_capacity s1" and sm: "unat (m_size s1) + length xs < 4294967295"
    using s1 small by simp_all
  show ?thesis
    using s1(1,3,4) d add String_write_end [OF s1(2) d room sm]
    by (auto simp: String_put_def with_data_def wr_def Let_def)
qed

lemma String_resize_refines:
  assumes wf: "String_wf s" and n: "n < - 1"
  shows "\<exists>s'. String_resize heap s n = Ok s' \<and> String_wf s' \<and> m_size s' = n
    \<and> (\<exists>junk. String_bytes s' = take (unat n) (String_bytes s @ junk))
    \<and> (m_data s \<noteq> None \<or> 0 < n \<longrightarrow> m_data s' \<noteq> None)"
proof -
  obtain s1 where s1: "String_reserve heap s n = Ok s1" "String_wf s1"
    "m_size s1 = m_size s" "String_bytes s1 = String_bytes s" "n \<le> m_capacity s1"
    "m_data s = None \<Longrightarrow> 0 < n \<Longrightarrow> m_data s1 \<noteq> None" "m_data s \<noteq> None \<Longrightarrow> m_data s1 \<noteq> None"
    using String_reserve_refines [OF wf n] by metis
  show ?thesis
  proof (cases "m_data s1")
    case None
    then have "n = 0" using s1(2,5) by (auto simp: String_wf_def)
    moreover have "m_data s = None" using s1(7) None by blast
    ultimately show ?thesis
      using s1 None by (auto simp: String_resize_def String_wf_def String_bytes_def)
  next
    case (Some d)
    then have d: "length d = Suc (unat (m_capacity s1))" "m_size s1 \<le> m_capacity s1"
      using s1(2) by (auto simp: String_wf_def)
    have le: "unat n \<le> unat (m_capacity s1)" "unat (m_size s1) \<le> unat (m_capacity s1)"
      using s1(5) d(2) by (simp_all add: word_le_nat_alt)
    have "String_bytes s @ drop (unat (m_size s1)) d = d"
      unfolding s1(4) [symmetric] using Some by (simp add: String_bytes_def)
    then have "take (unat n) (d[unat n := 0]) = take (unat n) (String_bytes s @ drop (unat (m_size s1)) d)"
      by simp
    then show ?thesis
      using s1(1,2,5) Some d le n
      by (auto simp: String_resize_def with_data_def wr_def String_wf_def String_bytes_def)
  qed
qed

lemma String_asign_refines:
  assumes wf: "String_wf s" and small: "length xs < 4294967295"
  shows "\<exists>s'. String_asign heap s (xs @ rest) (of_nat (length xs)) = Ok s' \<and> String_wf s' \<and> String_bytes s' = xs"
proof -
  let ?n = "of_nat (length xs) :: u32"
  have un: "unat ?n = length xs" using small by (simp add: unat_of_nat)
  have "?n < - 1" using small un by (simp add: word_less_nat_alt minus_one_nat)
  from String_resize_refines [OF wf this] obtain s1 where s1: "String_resize heap s ?n = Ok s1"
    "String_wf s1" "m_size s1 = ?n" "0 < ?n \<longrightarrow> m_data s1 \<noteq> None" by blast
  show ?thesis
  proof (cases "xs = []")
    case True
    then show ?thesis using s1 by (auto simp: String_asign_def String_bytes_def split: option.splits)
  next
    case False
    then have "0 < ?n" using un by (simp add: word_less_nat_alt)
    with s1(4) obtain d where d: "m_data s1 = Some d" by blast
    have le: "length xs \<le> unat (m_capacity s1)" and ld: "length d = Suc (unat (m_capacity s1))"
      "m_capacity s1 < - 1" "d ! length xs = 0"
      using s1(2,3) d un by (auto simp: String_wf_def word_le_nat_alt)
    have "String_asign heap s (xs @ rest) ?n = Ok (s1\<lparr>m_data := Some (xs @ drop (length xs) d)\<rparr>)"
      using s1 d le ld un \<open>0 < ?n\<close> by (simp add: String_asign_def with_data_def memcpy_at_def)
    then show ?thesis
      using s1 d le ld un by (auto simp: String_wf_def String_bytes_def word_le_nat_alt nth_append)
  qed
qed

section \<open>Properties\<close>



text \<open>
  Appending nothing to a String that has never owned a buffer writes its terminator
  through the null pointer.
\<close>

theorem String_append_empty_null:
  "String_append heap String_new xs 0 = UB \<and> String_append_cstr heap String_new (0 # rest) = UB"
  by (simp add: String_append_cstr_def String_append_def String_new_def String_reserve_def with_data_def Let_def)

text \<open>
  Assignment and resizing refine their list counterparts: \<open>asign\<close> leaves exactly the assigned
  bytes, and \<open>resize\<close> keeps the common prefix and gives the requested size, both well formed and
  without an access outside the buffer.
\<close>

theorem String_asign_resize_refine:
  assumes "String_wf s" and "length xs < 4294967295" and "n < - 1"
  shows "(\<exists>s'. String_asign heap s (xs @ rest) (of_nat (length xs)) = Ok s' \<and> String_wf s'
      \<and> String_bytes s' = xs)
    \<and> (\<exists>s'. String_resize heap s n = Ok s' \<and> String_wf s' \<and> m_size s' = n
      \<and> take (min (unat n) (length (String_bytes s))) (String_bytes s') =
        take (min (unat n) (length (String_bytes s))) (String_bytes s))"
proof
  show "\<exists>s'. String_asign heap s (xs @ rest) (of_nat (length xs)) = Ok s' \<and> String_wf s'
      \<and> String_bytes s' = xs"
    using assms String_asign_refines by blast
  show "\<exists>s'. String_resize heap s n = Ok s' \<and> String_wf s' \<and> m_size s' = n
      \<and> take (min (unat n) (length (String_bytes s))) (String_bytes s') =
        take (min (unat n) (length (String_bytes s))) (String_bytes s)"
    using String_resize_refines [OF assms(1,3), of heap] by (auto simp: min_def)
qed

theorem String_asign_resize_refine_witness:
  "(\<exists>s'. String_asign (\<lambda>_. 170) String_new ([1, 2, 3] @ []) (of_nat (length [1, 2, 3 :: byte])) = Ok s'
      \<and> String_wf s' \<and> String_bytes s' = [1, 2, 3])
    \<and> (\<exists>s'. String_resize (\<lambda>_. 170) String_new 5 = Ok s' \<and> String_wf s' \<and> m_size s' = 5
      \<and> take (min (unat (5 :: u32)) (length (String_bytes String_new))) (String_bytes s') =
        take (min (unat (5 :: u32)) (length (String_bytes String_new))) (String_bytes String_new))"
  by (rule String_asign_resize_refine) (simp_all add: String_new_wf)

end
