(* ===== verification/Eco_Net.thy ===== *)
theory Eco_Net
  imports Eco_Prelude
begin

text \<open>
  Byte order conversion: \<open>src/project/eco/net/Net.h\<close> and \<open>src/project/eco/prj/src/net/Net.cpp\<close>.
  The 16 and 32 bit functions copy between the buffer and an integer and call the platform's
  \<open>ntohs\<close> / \<open>htons\<close> / \<open>ntohl\<close> / \<open>htonl\<close> (through Boost's wrappers of the same name), so on every
  host the most significant byte comes first in the buffer. The 64 bit functions are built from the
  32 bit ones in the header.

  A pointer into a message buffer is the buffer and a position. \<open>String::resize\<close> does not
  initialise the bytes it adds: they hold whatever the heap block held before, given by the
  parameter \<open>fill\<close> (position to byte).
\<close>

section \<open>Integers in network order\<close>

definition be16 :: "byte \<Rightarrow> byte \<Rightarrow> u16" where
  "be16 b0 b1 = push_bit 8 (ucast b0) OR ucast b1"

definition be32 :: "byte \<Rightarrow> byte \<Rightarrow> byte \<Rightarrow> byte \<Rightarrow> u32" where
  "be32 b0 b1 b2 b3 =
     push_bit 24 (ucast b0) OR push_bit 16 (ucast b1) OR push_bit 8 (ucast b2) OR ucast b3"

definition be16_bytes :: "u16 \<Rightarrow> bytes" where
  "be16_bytes v = [ucast (drop_bit 8 v), ucast v]"

definition be32_bytes :: "u32 \<Rightarrow> bytes" where
  "be32_bytes v = [ucast (drop_bit 24 v), ucast (drop_bit 16 v), ucast (drop_bit 8 v), ucast v]"

section \<open>Reading\<close>

definition ntoh16 :: "bytes \<Rightarrow> nat \<Rightarrow> u16 outcome" where
  "ntoh16 bs pos = obind (rd bs pos) (\<lambda>b0. obind (rd bs (pos + 1)) (\<lambda>b1. Ok (be16 b0 b1)))"

definition ntoh32 :: "bytes \<Rightarrow> nat \<Rightarrow> u32 outcome" where
  "ntoh32 bs pos =
     obind (rd bs pos) (\<lambda>b0. obind (rd bs (pos + 1)) (\<lambda>b1.
     obind (rd bs (pos + 2)) (\<lambda>b2. obind (rd bs (pos + 3)) (\<lambda>b3. Ok (be32 b0 b1 b2 b3)))))"

definition ntoh64 :: "bytes \<Rightarrow> nat \<Rightarrow> u64 outcome" where
  "ntoh64 bs pos =
     obind (ntoh32 bs pos) (\<lambda>high. obind (ntoh32 bs (pos + 4)) (\<lambda>low.
       Ok (push_bit 32 (ucast high) + ucast low)))"

section \<open>Writing\<close>

definition hton16 :: "bytes \<Rightarrow> nat \<Rightarrow> u16 \<Rightarrow> bytes outcome" where
  "hton16 bs pos val = memcpy_at bs pos (be16_bytes val)"

definition hton32 :: "bytes \<Rightarrow> nat \<Rightarrow> u32 \<Rightarrow> bytes outcome" where
  "hton32 bs pos val = memcpy_at bs pos (be32_bytes val)"

text \<open>
  The overloads with a position argument advance the caller's position but write at the
  pointer they are given.
\<close>

definition hton32_pos :: "bytes \<Rightarrow> nat \<Rightarrow> u32 \<Rightarrow> u32 \<Rightarrow> (bytes \<times> u32) outcome" where
  "hton32_pos bs str pos val = obind (hton32 bs str val) (\<lambda>bs'. Ok (bs', pos + 4))"

definition hton64 :: "bytes \<Rightarrow> nat \<Rightarrow> u64 \<Rightarrow> bytes outcome" where
  "hton64 bs str val =
     (let low = (ucast val :: u32);
          high = (ucast (drop_bit 32 val) :: u32)
      in obind (hton32_pos bs str 0 high) (\<lambda>(bs1, pos1).
         obind (hton32_pos bs1 str pos1 low) (\<lambda>(bs2, pos2). Ok bs2)))"

section \<open>Appending\<close>

definition bytes_resize :: "(nat \<Rightarrow> byte) \<Rightarrow> bytes \<Rightarrow> nat \<Rightarrow> bytes" where
  "bytes_resize fill bs n = take n bs @ map fill [length bs..<n]"

definition append_hton16 :: "(nat \<Rightarrow> byte) \<Rightarrow> bytes \<Rightarrow> u16 \<Rightarrow> bytes outcome" where
  "append_hton16 fill bs val = hton16 (bytes_resize fill bs (length bs + 2)) (length bs) val"

definition append_hton32 :: "(nat \<Rightarrow> byte) \<Rightarrow> bytes \<Rightarrow> u32 \<Rightarrow> bytes outcome" where
  "append_hton32 fill bs val = hton32 (bytes_resize fill bs (length bs + 4)) (length bs) val"

definition append_hton64 :: "(nat \<Rightarrow> byte) \<Rightarrow> bytes \<Rightarrow> u64 \<Rightarrow> bytes outcome" where
  "append_hton64 fill bs val = hton64 (bytes_resize fill bs (length bs + 8)) (length bs) val"

section \<open>Facts\<close>

lemma be16_bytes_length [simp]: "length (be16_bytes v) = 2"
  by (simp add: be16_bytes_def)

lemma be32_bytes_length [simp]: "length (be32_bytes v) = 4"
  by (simp add: be32_bytes_def)

lemma be16_inverse: "be16 (ucast (drop_bit 8 v)) (ucast v) = v"
  by (rule bit_word_eqI) (auto simp: be16_def bit_simps not_le not_less le_add_diff_inverse)

lemma be32_inverse:
  "be32 (ucast (drop_bit 24 v)) (ucast (drop_bit 16 v)) (ucast (drop_bit 8 v)) (ucast v) = v"
proof (rule bit_word_eqI)
  fix n
  assume "n < LENGTH(32)"
  then consider "n < 8" | k where "n = 8 + k" "k < 8" | k where "n = 16 + k" "k < 8"
    | k where "n = 24 + k" "k < 8"
    using le_Suc_ex [of 8 n] le_Suc_ex [of 16 n] le_Suc_ex [of 24 n] by fastforce
  then show "bit (be32 (ucast (drop_bit 24 v)) (ucast (drop_bit 16 v)) (ucast (drop_bit 8 v)) (ucast v)) n
      \<longleftrightarrow> bit v n"
    by cases (auto simp: be32_def bit_simps)
qed

lemma length_bytes_resize [simp]: "length (bytes_resize fill bs n) = n"
  by (simp add: bytes_resize_def)

lemma append_hton16_eq [simp]: "append_hton16 fill bs v = Ok (bs @ be16_bytes v)"
  by (simp add: append_hton16_def hton16_def memcpy_at_def bytes_resize_def)

lemma append_hton32_eq [simp]: "append_hton32 fill bs v = Ok (bs @ be32_bytes v)"
  by (simp add: append_hton32_def hton32_def memcpy_at_def bytes_resize_def)

lemma append_hton64_eq [simp]:
  "append_hton64 fill bs v = Ok (bs @ be32_bytes (ucast v) @ map fill [length bs + 4..<length bs + 8])"
  by (simp add: append_hton64_def hton64_def hton32_pos_def hton32_def memcpy_at_def
      bytes_resize_def drop_map Let_def)

lemma ntoh16_be16 [read_simps]: "ntoh16 (xs @ be16_bytes v @ ys) (length xs) = Ok v"
  by (simp add: ntoh16_def rd_def be16_bytes_def nth_append be16_inverse)

lemma ntoh32_be32 [read_simps]: "ntoh32 (xs @ be32_bytes v @ ys) (length xs) = Ok v"
  by (simp add: ntoh32_def rd_def be32_bytes_def nth_append nth_Cons' be32_inverse)

lemma ntoh16_here [read_simps]: "ntoh16 (be16_bytes v @ ys) 0 = Ok v"
  using ntoh16_be16 [of "[]"] by simp

lemma ntoh32_here [read_simps]: "ntoh32 (be32_bytes v @ ys) 0 = Ok v"
  using ntoh32_be32 [of "[]"] by simp

lemma ntoh_skip [read_simps]:
  assumes "length xs \<le> pos"
  shows "ntoh16 (xs @ ys) pos = ntoh16 ys (pos - length xs)"
    "ntoh32 (xs @ ys) pos = ntoh32 ys (pos - length xs)"
    "ntoh64 (xs @ ys) pos = ntoh64 ys (pos - length xs)"
proof -
  obtain k where "pos = length xs + k" using assms le_Suc_ex by blast
  moreover have "rd (xs @ ys) (length xs + i) = rd ys i" for i
    by (simp add: rd_def)
  ultimately show "ntoh16 (xs @ ys) pos = ntoh16 ys (pos - length xs)"
    "ntoh32 (xs @ ys) pos = ntoh32 ys (pos - length xs)"
    "ntoh64 (xs @ ys) pos = ntoh64 ys (pos - length xs)"
    by (simp_all only: ntoh16_def ntoh32_def ntoh64_def add.assoc diff_add_inverse)
qed

lemma ntoh16_safe: "pos + 2 \<le> length bs \<Longrightarrow> \<exists>v. ntoh16 bs pos = Ok v"
  by (simp add: ntoh16_def rd_def)

lemma ntoh32_safe: "pos + 4 \<le> length bs \<Longrightarrow> \<exists>v. ntoh32 bs pos = Ok v"
  by (simp add: ntoh32_def rd_def)

lemma ntoh64_safe: "pos + 8 \<le> length bs \<Longrightarrow> \<exists>v. ntoh64 bs pos = Ok v"
  using ntoh32_safe [of pos bs] ntoh32_safe [of "pos + 4" bs] by (auto simp: ntoh64_def)

end
