(* ===== verification/Eco_Message.thy ===== *)
theory Eco_Message
  imports Eco_Flags Eco_Net
begin

text \<open>
  What every protocol shares: message heads and categories
  (\<open>src/project/eco/net/protocol/ProtocolHead.h\<close>), message metadata
  (\<open>src/project/eco/net/protocol/Protocol.h\<close>), the codec of a message body (\<open>Codec.h\<close>,
  \<open>StringCodec.h\<close>) and the interfaces of the checksum and the cipher (\<open>Check.h\<close>, \<open>Crypt.h\<close>).
  The abstract C++ classes \<open>Codec\<close>, \<open>Check\<close> and \<open>Crypt\<close> are records of their virtual functions.
\<close>

section \<open>Error ids (Ecode.h)\<close>

definition e_message_unknown :: int where "e_message_unknown = - 1002"
definition e_message_category :: int where "e_message_category = - 1003"
definition e_message_checksum :: int where "e_message_checksum = - 1004"
definition e_message_encode :: int where "e_message_encode = - 1006"
definition e_protocol_parameter :: int where "e_protocol_parameter = - 1100"
definition e_peer_client_close :: int where "e_peer_client_close = - 1202"

section \<open>Message head\<close>

definition category_message :: u32 where "category_message = 0x01"
definition category_heartbeat :: u32 where "category_heartbeat = 0x02"
definition category_authority :: u32 where "category_authority = 0x04"
definition category_checksum :: u32 where "category_checksum = 0x08"
definition category_encrypted :: u32 where "category_encrypted = 0x10"
definition category_sync :: u32 where "category_sync = 0x20"
definition category_session :: u32 where "category_session = 0x40"

type_synonym MessageCategory = u16
type_synonym MessageModel = u16
type_synonym MessageOption = u32

record MessageHead =
  head_version :: u32
  head_category :: MessageCategory

section \<open>Body codec\<close>

text \<open>\<open>codec_encode buf pos n\<close> is \<open>encode(&buf[pos], n)\<close>.\<close>

record Codec =
  codec_byte_size :: u32
  codec_encode :: "bytes \<Rightarrow> nat \<Rightarrow> u32 \<Rightarrow> bytes outcome"

definition Codec_encode_append :: "(nat \<Rightarrow> byte) \<Rightarrow> Codec \<Rightarrow> bytes \<Rightarrow> u32 \<Rightarrow> bytes outcome" where
  "Codec_encode_append fill c bs n =
     codec_encode c (bytes_resize fill bs (length bs + unat n)) (length bs) n"

definition StringCodec :: "bytes \<Rightarrow> Codec" where
  "StringCodec m_msg =
     \<lparr>codec_byte_size = of_nat (length m_msg),
      codec_encode = (\<lambda>buf pos n.
        let siz = (if n > of_nat (length m_msg) then of_nat (length m_msg) else n)
        in memcpy_at buf pos (take (unat siz) m_msg))\<rparr>"

section \<open>Checksum and cipher\<close>

record Check =
  check_byte_size :: u32
  check_encode_append :: "bytes \<Rightarrow> u32 \<Rightarrow> bytes"
  check_decode :: "bytes \<Rightarrow> u32 \<Rightarrow> u32 \<Rightarrow> bool"

definition Check_encode :: "Check \<Rightarrow> bytes \<Rightarrow> bytes" where
  "Check_encode c bs = check_encode_append c bs 0"

definition Check_decode :: "Check \<Rightarrow> bytes \<Rightarrow> bool" where
  "Check_decode c bs = check_decode c bs (of_nat (length bs)) 0"

text \<open>A null String returned by the cipher is \<open>Err\<close> with the id the cipher has set.\<close>

record Crypt =
  crypt_byte_size :: "u32 \<Rightarrow> u32"
  crypt_append_encode :: "bytes \<Rightarrow> u32 \<Rightarrow> bytes outcome"
  crypt_decode :: "bytes \<Rightarrow> u32 \<Rightarrow> u32 \<Rightarrow> bytes outcome"

text \<open>The base class \<open>Crypt\<close> itself moves its argument through unchanged.\<close>

definition Crypt_base :: Crypt where
  "Crypt_base = \<lparr>crypt_byte_size = (\<lambda>n. n), crypt_append_encode = (\<lambda>bs start. Ok bs),
                 crypt_decode = (\<lambda>bs start n. Ok bs)\<rparr>"

section \<open>Message metadata\<close>

definition model_req :: u32 where "model_req = 0x01"
definition model_rsp :: u32 where "model_rsp = 0x02"
definition model_sub :: u32 where "model_sub = 0x04"
definition model_pub :: u32 where "model_pub = 0x08"
definition model_all :: u32 where "model_all = 0x10"
definition model_set :: u32 where "model_set = 0x20"
definition model_str :: u32 where "model_str = 0x40"

definition option_last :: u32 where "option_last = 0x01"
definition option_type :: u32 where "option_type = 0x02"
definition option_req4 :: u32 where "option_req4 = 0x04"
definition option_req8 :: u32 where "option_req8 = 0x08"
definition option_sess :: u32 where "option_sess = 0x10"

definition none_session :: u32 where "none_session = 0"

record MessageMeta =
  m_category :: MessageCategory
  m_model :: MessageModel
  m_option :: MessageOption
  m_session_id :: u32
  m_message_type :: u32
  m_request_data :: u64
  m_codec :: "Codec option"

definition MessageMeta_new :: MessageMeta where
  "MessageMeta_new = \<lparr>m_category = 0, m_model = 0, m_option = 0, m_session_id = 0,
     m_message_type = 0, m_request_data = 0, m_codec = None\<rparr>"

definition MessageMeta_cat :: "MessageCategory \<Rightarrow> MessageMeta" where
  "MessageMeta_cat v = MessageMeta_new\<lparr>m_category := v\<rparr>"

definition set_session_id :: "u32 \<Rightarrow> MessageMeta \<Rightarrow> MessageMeta" where
  "set_session_id i m =
     m\<lparr>m_session_id := i, m_option := eco_set (m_option m) option_sess (i \<noteq> none_session)\<rparr>"

definition set_last :: "bool \<Rightarrow> MessageMeta \<Rightarrow> MessageMeta" where
  "set_last is m = m\<lparr>m_option := eco_set (m_option m) option_last is\<rparr>"

definition meta_last :: "MessageMeta \<Rightarrow> bool" where
  "meta_last m = eco_has (m_option m) option_last"

definition set_message_type :: "u32 \<Rightarrow> MessageMeta \<Rightarrow> MessageMeta" where
  "set_message_type t m = m\<lparr>m_message_type := t, m_option := eco_add (m_option m) option_type\<rparr>"

definition set_request_data4 :: "u32 \<Rightarrow> MessageMeta \<Rightarrow> MessageMeta" where
  "set_request_data4 r m = m\<lparr>m_request_data := ucast r, m_option := eco_add (m_option m) option_req4\<rparr>"

definition set_request_data8 :: "u64 \<Rightarrow> MessageMeta \<Rightarrow> MessageMeta" where
  "set_request_data8 r m = m\<lparr>m_request_data := r, m_option := eco_add (m_option m) option_req8\<rparr>"

definition set_request_data_ptr :: "nat \<Rightarrow> u64 \<Rightarrow> MessageMeta \<Rightarrow> MessageMeta" where
  "set_request_data_ptr sizeof_ptr p m =
     (if sizeof_ptr = 4 then set_request_data4 (ucast p) m
      else if sizeof_ptr = 8 then set_request_data8 p m else m)"

definition set_request_data_opt :: "u64 \<Rightarrow> u32 \<Rightarrow> MessageMeta \<Rightarrow> MessageMeta" where
  "set_request_data_opt r opt m =
     (let m1 = m\<lparr>m_request_data := r\<rparr>;
          m2 = m1\<lparr>m_option := eco_set (m_option m1) option_req4 (eco_has opt option_req4)\<rparr>
      in m2\<lparr>m_option := eco_set (m_option m2) option_req8 (eco_has opt option_req8)\<rparr>)"

definition get_req4 :: "MessageMeta \<Rightarrow> u32" where
  "get_req4 m = ucast (m_request_data m)"

definition get_req8 :: "MessageMeta \<Rightarrow> u64" where
  "get_req8 m = m_request_data m"

definition MessageMeta_msg :: "Codec \<Rightarrow> u32 \<Rightarrow> u32 \<Rightarrow> bool \<Rightarrow> MessageMeta" where
  "MessageMeta_msg codec session_id type encrypted =
     (let m = MessageMeta_new\<lparr>m_category := ucast category_message\<rparr>;
          m = (if encrypted then m\<lparr>m_category := eco_add (m_category m) category_encrypted\<rparr> else m);
          m = (if session_id \<noteq> none_session
               then m\<lparr>m_category := eco_add (m_category m) category_session\<rparr> else m)
      in (set_message_type type (set_session_id session_id m))\<lparr>m_codec := Some codec\<rparr>)"

definition model_topic :: "MessageMeta \<Rightarrow> bool" where
  "model_topic m = eco_has (m_model m) (model_sub OR model_pub)"

definition model_topic_all :: "MessageMeta \<Rightarrow> bool" where
  "model_topic_all m = eco_has (m_model m) model_all"

definition model_topic_set :: "MessageMeta \<Rightarrow> bool" where
  "model_topic_set m = eco_has (m_model m) model_set"

definition model_topic_str :: "MessageMeta \<Rightarrow> bool" where
  "model_topic_str m = eco_has (m_model m) model_str"

section \<open>The optional fields of a message\<close>

text \<open>
  Both protocols lay out the optional fields the same way: each is present when its option flag
  is set, and \<open>option_req4\<close> hides \<open>option_req8\<close>. The readers take and advance a position, the
  writers append.
\<close>

definition sess_size :: "MessageOption \<Rightarrow> nat" where
  "sess_size opt = (if eco_has opt option_sess then 4 else 0)"

definition type_size :: "MessageOption \<Rightarrow> nat" where
  "type_size opt = (if eco_has opt option_type then 2 else 0)"

definition req_size :: "MessageOption \<Rightarrow> nat" where
  "req_size opt =
     (if eco_has opt option_req4 then 4 else if eco_has opt option_req8 then 8 else 0)"

definition read_sess :: "bytes \<Rightarrow> MessageMeta \<times> nat \<Rightarrow> (MessageMeta \<times> nat) outcome" where
  "read_sess bs = (\<lambda>(meta, pos).
     if eco_has (m_option meta) option_sess
     then obind (ntoh32 bs pos) (\<lambda>v. Ok (meta\<lparr>m_session_id := v\<rparr>, pos + 4))
     else Ok (meta, pos))"

definition read_type :: "bytes \<Rightarrow> MessageMeta \<times> nat \<Rightarrow> (MessageMeta \<times> nat) outcome" where
  "read_type bs = (\<lambda>(meta, pos).
     if eco_has (m_option meta) option_type
     then obind (ntoh16 bs pos) (\<lambda>v. Ok (meta\<lparr>m_message_type := ucast v\<rparr>, pos + 2))
     else Ok (meta, pos))"

definition read_req :: "bytes \<Rightarrow> MessageMeta \<times> nat \<Rightarrow> (MessageMeta \<times> nat) outcome" where
  "read_req bs = (\<lambda>(meta, pos).
     if eco_has (m_option meta) option_req4
     then obind (ntoh32 bs pos) (\<lambda>v. Ok (meta\<lparr>m_request_data := ucast v\<rparr>, pos + 4))
     else if eco_has (m_option meta) option_req8
     then obind (ntoh64 bs pos) (\<lambda>v. Ok (meta\<lparr>m_request_data := v\<rparr>, pos + 8))
     else Ok (meta, pos))"

definition put_sess :: "(nat \<Rightarrow> byte) \<Rightarrow> MessageMeta \<Rightarrow> bytes \<Rightarrow> bytes outcome" where
  "put_sess fill meta bs =
     (if eco_has (m_option meta) option_sess then append_hton32 fill bs (m_session_id meta) else Ok bs)"

definition put_type :: "(nat \<Rightarrow> byte) \<Rightarrow> MessageMeta \<Rightarrow> bytes \<Rightarrow> bytes outcome" where
  "put_type fill meta bs =
     (if eco_has (m_option meta) option_type
      then append_hton16 fill bs (ucast (m_message_type meta)) else Ok bs)"

definition put_req :: "(nat \<Rightarrow> byte) \<Rightarrow> MessageMeta \<Rightarrow> bytes \<Rightarrow> bytes outcome" where
  "put_req fill meta bs =
     (if eco_has (m_option meta) option_req4
      then append_hton32 fill bs (ucast (m_request_data meta))
      else if eco_has (m_option meta) option_req8
      then append_hton64 fill bs (m_request_data meta) else Ok bs)"

text \<open>
  What these writers put on the wire. With \<open>option_req8\<close> the eight bytes of the request data are
  its low half followed by four bytes that nobody has written.
\<close>

definition wire_sess :: "MessageMeta \<Rightarrow> bytes" where
  "wire_sess meta = (if eco_has (m_option meta) option_sess then be32_bytes (m_session_id meta) else [])"

definition wire_type :: "MessageMeta \<Rightarrow> bytes" where
  "wire_type meta =
     (if eco_has (m_option meta) option_type then be16_bytes (ucast (m_message_type meta)) else [])"

definition wire_req :: "(nat \<Rightarrow> byte) \<Rightarrow> MessageMeta \<Rightarrow> nat \<Rightarrow> bytes" where
  "wire_req fill meta pos =
     (if eco_has (m_option meta) option_req4 then be32_bytes (ucast (m_request_data meta))
      else if eco_has (m_option meta) option_req8
      then be32_bytes (ucast (m_request_data meta)) @ map fill [pos + 4..<pos + 8]
      else [])"

text \<open>The request data as the receiver reads it, sent from position \<open>pos\<close> of the buffer.\<close>

definition seen_req :: "(nat \<Rightarrow> byte) \<Rightarrow> MessageMeta \<Rightarrow> nat \<Rightarrow> u64 \<Rightarrow> u64" where
  "seen_req fill meta pos old =
     (if eco_has (m_option meta) option_req4 then ucast (ucast (m_request_data meta) :: u32)
      else if eco_has (m_option meta) option_req8
      then push_bit 32 (ucast (ucast (m_request_data meta) :: u32))
           + ucast (be32 (fill (pos + 4)) (fill (pos + 5)) (fill (pos + 6)) (fill (pos + 7)))
      else old)"

definition low_byte :: "'a::len word \<Rightarrow> 'a word" where
  "low_byte w = scast (ucast w :: byte)"

lemmas category_defs =
  category_message_def category_heartbeat_def category_authority_def category_checksum_def
  category_encrypted_def category_sync_def category_session_def

lemmas option_defs =
  option_last_def option_type_def option_req4_def option_req8_def option_sess_def

lemmas ecode_defs =
  e_message_unknown_def e_message_category_def e_message_checksum_def e_message_encode_def
  e_protocol_parameter_def e_peer_client_close_def

section \<open>What a codec promises\<close>

text \<open>
  A protocol relies on its codec to write exactly the announced number of bytes, all inside the
  room it is given, and to leave the bytes before them alone.
\<close>

locale body_codec =
  fixes codec :: Codec and payload :: bytes
  assumes size_law: "unat (codec_byte_size codec) = length payload"
    and encode_law: "\<And>buf pos. pos + length payload = length buf \<Longrightarrow>
      codec_encode codec buf pos (codec_byte_size codec) = Ok (take pos buf @ payload)"
begin

lemma encode_append_payload:
  "Codec_encode_append fill codec bs (codec_byte_size codec) = Ok (bs @ payload)"
  by (simp add: Codec_encode_append_def size_law encode_law bytes_resize_def)

end

text \<open>
  The string codec keeps that promise for every text; \<open>m_size\<close> is a \<open>uint32_t\<close>, so a text of
  \<open>2\<^sup>3\<^sup>2\<close> bytes or more would count modulo \<open>2\<^sup>3\<^sup>2\<close>.
\<close>

interpretation string_codec: body_codec "StringCodec m" "take (length m mod 2 ^ 32) m" for m
  by unfold_locales (auto simp: StringCodec_def memcpy_at_def unat_of_nat take_bit_eq_mod Let_def)

lemma StringCodec_body: "length m < 2 ^ 32 \<Longrightarrow> body_codec (StringCodec m) m"
  using string_codec.body_codec_axioms [of m] by simp

section \<open>Single-bit masks of flag words\<close>

text \<open>
  A flag word of 16 or 32 bits travels as its low byte and comes back sign extended; the seven
  low flags survive.
\<close>

lemma eco_has_bit [flag_simps]:
  fixes w :: "'a::len word"
  assumes "LENGTH('a) = 16 \<or> LENGTH('a) = 32 \<or> LENGTH('a) = 64"
  shows "eco_has w 1 \<longleftrightarrow> bit w 0" "eco_has w 2 \<longleftrightarrow> bit w 1" "eco_has w 4 \<longleftrightarrow> bit w 2"
    "eco_has w 8 \<longleftrightarrow> bit w 3" "eco_has w 16 \<longleftrightarrow> bit w 4" "eco_has w 32 \<longleftrightarrow> bit w 5"
    "eco_has w 64 \<longleftrightarrow> bit w 6"
  using assms by (auto simp: eco_has_def and_numeral_pos bit_simps)

lemma bit_scast_ucast_byte:
  fixes w :: "'a::len word"
  assumes "LENGTH('a) = 16 \<or> LENGTH('a) = 32" and "n < 7"
  shows "bit (scast (ucast w :: byte) :: 'a word) n \<longleftrightarrow> bit w n"
  using assms by (auto simp: bit_simps min_def)

lemma has_low_byte [flag_simps]:
  "eco_has (low_byte (w :: u32)) option_sess = eco_has w option_sess"
  "eco_has (low_byte (w :: u32)) option_type = eco_has w option_type"
  "eco_has (low_byte (w :: u32)) option_req4 = eco_has w option_req4"
  "eco_has (low_byte (w :: u32)) option_req8 = eco_has w option_req8"
  "eco_has (low_byte (w :: u32)) option_last = eco_has w option_last"
  by (simp_all add: option_defs flag_simps low_byte_def bit_scast_ucast_byte)

lemma low_byte_id:
  assumes "(w :: 'a::len word) < 128" "LENGTH('a) = 16 \<or> LENGTH('a) = 32"
  shows "low_byte w = w"
proof (rule bit_word_eqI)
  fix n
  assume n: "n < LENGTH('a)"
  have "w AND mask 7 = w"
    using assms by (intro less_mask_eq) simp
  then have "bit w k \<Longrightarrow> k < 7" for k
    by (metis bit_and_iff bit_mask_iff)
  then show "bit (low_byte w) n \<longleftrightarrow> bit w n"
    using n assms(2) by (auto simp: low_byte_def bit_simps min_def) fastforce+
qed

section \<open>Reading and writing the optional fields\<close>

lemma put_fields:
  "put_sess fill meta bs = Ok (bs @ wire_sess meta)"
  "put_type fill meta bs = Ok (bs @ wire_type meta)"
  "put_req fill meta bs = Ok (bs @ wire_req fill meta (length bs))"
  by (simp_all add: put_sess_def put_type_def put_req_def wire_sess_def wire_type_def wire_req_def)

lemma wire_lengths [simp]:
  "length (wire_sess meta) = sess_size (m_option meta)"
  "length (wire_type meta) = type_size (m_option meta)"
  "length (wire_req fill meta pos) = req_size (m_option meta)"
  by (simp_all add: wire_sess_def wire_type_def wire_req_def sess_size_def type_size_def req_size_def)

lemma sizes_low_byte [flag_simps]:
  "sess_size (low_byte opt) = sess_size opt" "type_size (low_byte opt) = type_size opt"
  "req_size (low_byte opt) = req_size opt"
  by (simp_all add: sess_size_def type_size_def req_size_def flag_simps)

text \<open>Inside the bounds a reader succeeds, advances by the field's size and keeps the options.\<close>

lemma read_sess_safe:
  "pos + sess_size (m_option meta) \<le> length bs \<Longrightarrow>
     \<exists>meta'. read_sess bs (meta, pos) = Ok (meta', pos + sess_size (m_option meta))
       \<and> m_option meta' = m_option meta"
  using ntoh32_safe [of pos bs] by (auto simp: read_sess_def sess_size_def split: if_splits)

lemma read_type_safe:
  "pos + type_size (m_option meta) \<le> length bs \<Longrightarrow>
     \<exists>meta'. read_type bs (meta, pos) = Ok (meta', pos + type_size (m_option meta))
       \<and> m_option meta' = m_option meta"
  using ntoh16_safe [of pos bs] by (auto simp: read_type_def type_size_def split: if_splits)

lemma read_req_safe:
  "pos + req_size (m_option meta) \<le> length bs \<Longrightarrow>
     \<exists>meta'. read_req bs (meta, pos) = Ok (meta', pos + req_size (m_option meta))
       \<and> m_option meta' = m_option meta"
  using ntoh32_safe [of pos bs] ntoh64_safe [of pos bs]
  by (auto simp: read_req_def req_size_def split: if_splits)

text \<open>A reader finds what the writer has put, whatever surrounds it.\<close>

lemma ntoh64_half [read_simps]:
  "ntoh64 (be32_bytes v @ a # b # c # d # ys) 0 = Ok (push_bit 32 (ucast v) + ucast (be32 a b c d))"
proof -
  have "ntoh32 (be32_bytes v @ a # b # c # d # ys) (0 + 4) = Ok (be32 a b c d)"
    by (simp add: ntoh_skip(2)) (simp add: ntoh32_def rd_def)
  then show ?thesis by (simp add: ntoh64_def ntoh32_here)
qed

lemma upt_4: "[n + 4..<n + 8] = [n + 4, n + 5, n + 6, n + 7]"
  by (simp add: upt_rec)

lemma read_sess_wire:
  assumes "length xs = pos" "m_option meta0 = low_byte (m_option meta)"
  shows "read_sess (xs @ wire_sess meta @ ys) (meta0, pos) =
    Ok (meta0\<lparr>m_session_id := (if eco_has (m_option meta) option_sess
                              then m_session_id meta else m_session_id meta0)\<rparr>,
        pos + sess_size (m_option meta))"
  using assms by (simp add: read_sess_def wire_sess_def sess_size_def flag_simps read_simps)

lemma read_type_wire:
  assumes "length xs = pos" "m_option meta0 = low_byte (m_option meta)"
  shows "read_type (xs @ wire_type meta @ ys) (meta0, pos) =
    Ok (meta0\<lparr>m_message_type := (if eco_has (m_option meta) option_type
                                then ucast (ucast (m_message_type meta) :: u16)
                                else m_message_type meta0)\<rparr>,
        pos + type_size (m_option meta))"
  using assms by (simp add: read_type_def wire_type_def type_size_def flag_simps read_simps)

lemma read_req_wire:
  assumes "length xs = pos" "m_option meta0 = low_byte (m_option meta)"
  shows "read_req (xs @ wire_req fill meta at @ ys) (meta0, pos) =
    Ok (meta0\<lparr>m_request_data := seen_req fill meta at (m_request_data meta0)\<rparr>,
        pos + req_size (m_option meta))"
  using assms
  by (simp add: read_req_def wire_req_def req_size_def seen_req_def flag_simps read_simps upt_4)

end
