(* ===== verification/Eco_TcpProtocol.thy ===== *)
theory Eco_TcpProtocol
  imports Eco_Message
begin

text \<open>
  The binary TCP protocol of \<open>src/project/eco/net/protocol/TcpProtocol.h\<close>: the 4 byte head
  (version, category, body size in network order) and the message behind it (model, option,
  the optional session id, type and request data, then the body).

  Message buffers are byte lists: theory \<open>Eco_String\<close> shows that \<open>eco::String\<close> implements the
  list operations used here. The calls of \<open>reserve\<close> only set a capacity and have no
  counterpart; the size they ask for is \<open>TcpProtocol_byte_size\<close>.
\<close>

section \<open>The protocol head\<close>

definition TcpProtocolHead_size :: nat where "TcpProtocolHead_size = 4"

definition TcpProtocolHead_max_data_size :: u32 where "TcpProtocolHead_max_data_size = 0xFFFF"

definition TcpProtocolHead_decode_data_size :: "bytes \<Rightarrow> u32 outcome" where
  "TcpProtocolHead_decode_data_size bs = obind (ntoh16 bs 2) (\<lambda>n. Ok (ucast n))"

text \<open>\<open>char\<close> is signed: a head byte is sign extended into the wider fields.\<close>

definition TcpProtocolHead_decode :: "bytes \<Rightarrow> MessageHead outcome" where
  "TcpProtocolHead_decode bs =
     obind (rd bs 0) (\<lambda>v. obind (rd bs 1) (\<lambda>c.
       let category = (scast c :: u16) in
       if \<not> eco_has category category_message \<and> \<not> eco_has category category_heartbeat
       then Err e_message_category
       else Ok \<lparr>head_version = scast v, head_category = category\<rparr>))"

definition TcpProtocolHead_encode_append :: "bytes \<Rightarrow> MessageHead \<Rightarrow> bytes outcome" where
  "TcpProtocolHead_encode_append bs head =
     (let bs1 = bs @ replicate TcpProtocolHead_size 0
      in obind (wr bs1 0 (ucast (head_version head))) (\<lambda>bs2.
           wr bs2 1 (ucast (head_category head))))"

definition TcpProtocolHead_encode_heartbeat :: "bytes \<Rightarrow> bytes outcome" where
  "TcpProtocolHead_encode_heartbeat bs =
     TcpProtocolHead_encode_append bs \<lparr>head_version = - 1, head_category = ucast category_heartbeat\<rparr>"

definition TcpProtocolHead_encode_data_size :: "bytes \<Rightarrow> (bytes \<times> u32) outcome" where
  "TcpProtocolHead_encode_data_size bs =
     obind (hton16 bs 2 (ucast (of_nat (length bs) - of_nat TcpProtocolHead_size :: u32)))
       (\<lambda>bs'. Ok (bs', 0))"

section \<open>The protocol\<close>

record TcpProtocol =
  m_crypt :: "Crypt option"
  m_check :: "Check option"

definition TcpProtocol_new :: TcpProtocol where
  "TcpProtocol_new = \<lparr>m_crypt = None, m_check = None\<rparr>"

definition TcpProtocol_version :: u32 where "TcpProtocol_version = 1"

definition TcpProtocol_get_model_pos :: "nat \<Rightarrow> nat" where
  "TcpProtocol_get_model_pos head_size = head_size"

definition TcpProtocol_get_option_pos :: "nat \<Rightarrow> nat" where
  "TcpProtocol_get_option_pos head_size = head_size + 1"

definition TcpProtocol_get_option_data_pos :: "nat \<Rightarrow> nat" where
  "TcpProtocol_get_option_data_pos head_size = TcpProtocol_get_option_pos head_size + 1"

definition TcpProtocol_get_meta_size :: "MessageMeta \<Rightarrow> nat" where
  "TcpProtocol_get_meta_size meta =
     2 + sess_size (m_option meta) + type_size (m_option meta) + req_size (m_option meta)"

definition TcpProtocol_byte_size :: "TcpProtocol \<Rightarrow> MessageMeta \<Rightarrow> Codec \<Rightarrow> u32" where
  "TcpProtocol_byte_size p meta codec =
     (let n = of_nat (TcpProtocol_get_meta_size meta) + codec_byte_size codec;
          n = (case m_crypt p of
                 Some c \<Rightarrow> if eco_has (m_category meta) category_encrypted
                           then crypt_byte_size c n else n
               | None \<Rightarrow> n);
          n = n + of_nat TcpProtocolHead_size
      in case m_check p of
           Some c \<Rightarrow> if eco_has (m_category meta) category_checksum
                     then n + check_byte_size c else n
         | None \<Rightarrow> n)"

text \<open>
  \<open>decode\<close> returns the metadata, the (decrypted) buffer and the body as a position in that
  buffer and a size.
\<close>

definition TcpProtocol_decode ::
  "TcpProtocol \<Rightarrow> MessageMeta \<Rightarrow> bytes \<Rightarrow> (MessageMeta \<times> bytes \<times> nat \<times> u32) outcome" where
  "TcpProtocol_decode p meta0 bytes0 =
     (let head_size = TcpProtocolHead_size in
      obind (case m_check p of
               Some c \<Rightarrow>
                 if eco_has (m_category meta0) category_checksum
                 then (if \<not> Check_decode c bytes0 then Err e_message_checksum
                       else Ok (check_byte_size c))
                 else Ok 0
             | None \<Rightarrow> Ok 0) (\<lambda>check_sum_size.
      obind (case m_crypt p of
               Some c \<Rightarrow>
                 if eco_has (m_category meta0) category_encrypted
                 then crypt_decode c bytes0 (of_nat head_size)
                        (of_nat (length bytes0) - (of_nat head_size + check_sum_size))
                 else Ok bytes0
             | None \<Rightarrow> Ok bytes0) (\<lambda>bs.
      let opt_data_pos = TcpProtocol_get_option_data_pos head_size in
      if length bs < opt_data_pos then Err e_protocol_parameter
      else
        obind (rd bs (TcpProtocol_get_model_pos head_size)) (\<lambda>mb.
        obind (rd bs (TcpProtocol_get_option_pos head_size)) (\<lambda>ob.
        let meta1 = meta0\<lparr>m_model := scast mb, m_option := scast ob\<rparr>;
            meta_end = TcpProtocol_get_meta_size meta1 + head_size
        in if length bs < meta_end then Err e_protocol_parameter
           else
             obind (read_sess bs (meta1, opt_data_pos)) (\<lambda>s2.
             obind (read_type bs s2) (\<lambda>s3.
             obind (read_req bs s3) (\<lambda>(meta4, pos4).
             Ok (meta4, bs, pos4, of_nat (length bs) - of_nat pos4 - check_sum_size)))))))))"

definition TcpProtocol_encode ::
  "(nat \<Rightarrow> byte) \<Rightarrow> TcpProtocol \<Rightarrow> MessageMeta \<Rightarrow> (bytes \<times> u32) outcome" where
  "TcpProtocol_encode fill p meta =
     (case m_codec meta of
        None \<Rightarrow> UB
      | Some codec \<Rightarrow>
          obind (TcpProtocolHead_encode_append []
                   \<lparr>head_version = TcpProtocol_version, head_category = m_category meta\<rparr>) (\<lambda>b0.
          let b2 = b0 @ [ucast (m_model meta)] @ [ucast (m_option meta)] in
          obind (put_sess fill meta b2) (\<lambda>b3.
          obind (put_type fill meta b3) (\<lambda>b4.
          obind (put_req fill meta b4) (\<lambda>b5.
          obind (Codec_encode_append fill codec b5 (codec_byte_size codec)) (\<lambda>b6.
          obind (case m_crypt p of
                   Some c \<Rightarrow> if eco_has (m_category meta) category_encrypted
                             then (case crypt_append_encode c b6 (of_nat TcpProtocolHead_size) of
                                     Err n \<Rightarrow> Err e_message_encode | r \<Rightarrow> r)
                             else Ok b6
                 | None \<Rightarrow> Ok b6) (\<lambda>b7.
          let b8 = (case m_check p of
                      Some c \<Rightarrow> if eco_has (m_category meta) category_checksum
                                then Check_encode c b7 else b7
                    | None \<Rightarrow> b7)
          in TcpProtocolHead_encode_data_size b8)))))))"

section \<open>The bytes on the wire\<close>

definition wire_head :: "MessageMeta \<Rightarrow> nat \<Rightarrow> bytes" where
  "wire_head meta n = [1, ucast (m_category meta)] @ be16_bytes (of_nat n)"

definition req_pos :: "MessageMeta \<Rightarrow> nat" where
  "req_pos meta = 6 + sess_size (m_option meta) + type_size (m_option meta)"

definition wire_body :: "(nat \<Rightarrow> byte) \<Rightarrow> MessageMeta \<Rightarrow> bytes \<Rightarrow> bytes" where
  "wire_body fill meta payload =
     [ucast (m_model meta), ucast (m_option meta)]
       @ wire_sess meta @ wire_type meta @ wire_req fill meta (req_pos meta) @ payload"

definition wire_message :: "(nat \<Rightarrow> byte) \<Rightarrow> MessageMeta \<Rightarrow> bytes \<Rightarrow> bytes" where
  "wire_message fill meta payload =
     wire_head meta (TcpProtocol_get_meta_size meta + length payload) @ wire_body fill meta payload"

text \<open>What the receiver finds in the metadata: the fields that were sent.\<close>

definition received_meta :: "(nat \<Rightarrow> byte) \<Rightarrow> MessageMeta \<Rightarrow> MessageMeta \<Rightarrow> MessageMeta" where
  "received_meta fill meta0 meta =
     meta0\<lparr>m_model := low_byte (m_model meta),
           m_option := low_byte (m_option meta),
           m_session_id := (if eco_has (m_option meta) option_sess
                            then m_session_id meta else m_session_id meta0),
           m_message_type := (if eco_has (m_option meta) option_type
                              then ucast (ucast (m_message_type meta) :: u16)
                              else m_message_type meta0),
           m_request_data := seen_req fill meta (req_pos meta) (m_request_data meta0)\<rparr>"

lemma wire_head_length [simp]: "length (wire_head meta n) = 4"
  by (simp add: wire_head_def)

lemma wire_body_length:
  "length (wire_body fill meta payload) = TcpProtocol_get_meta_size meta + length payload"
  by (simp add: wire_body_def TcpProtocol_get_meta_size_def)

lemma wire_message_length:
  "length (wire_message fill meta payload) = 4 + TcpProtocol_get_meta_size meta + length payload"
  by (simp add: wire_message_def wire_body_length)

lemma TcpProtocol_encode_wire:
  assumes codec: "m_codec meta = Some codec" "body_codec codec payload"
  shows "TcpProtocol_encode fill TcpProtocol_new meta = Ok (wire_message fill meta payload, 0)"
proof -
  define opts where "opts = wire_sess meta @ wire_type meta @ wire_req fill meta (req_pos meta)"
  define b where "b = [1, ucast (m_category meta), 0, 0, ucast (m_model meta), ucast (m_option meta)]
    @ opts @ payload"
  define n where "n = TcpProtocol_get_meta_size meta + length payload"
  have head: "TcpProtocolHead_encode_append []
      \<lparr>head_version = TcpProtocol_version, head_category = m_category meta\<rparr> = Ok [1, ucast (m_category meta), 0, 0]"
    by (simp add: TcpProtocolHead_encode_append_def wr_def TcpProtocolHead_size_def
        TcpProtocol_version_def numeral_eq_Suc)
  have rp: "req_pos meta =
      Suc (Suc (Suc (Suc (Suc (Suc (sess_size (m_option meta) + type_size (m_option meta)))))))"
    by (simp add: req_pos_def)
  have len: "length b = 4 + n"
    by (simp add: b_def n_def opts_def TcpProtocol_get_meta_size_def)
  have sz: "(of_nat (4 + n) - of_nat TcpProtocolHead_size :: u32) = of_nat n"
    by (simp add: TcpProtocolHead_size_def)
  have "TcpProtocol_encode fill TcpProtocol_new meta = TcpProtocolHead_encode_data_size b"
    using body_codec.encode_append_payload [OF codec(2)]
    by (simp add: TcpProtocol_encode_def codec(1) head TcpProtocol_new_def put_fields Let_def b_def
        opts_def rp)
  also have "\<dots> = Ok (wire_message fill meta payload, 0)"
    unfolding TcpProtocolHead_encode_data_size_def len sz ucast_of_nat_u16
    by (simp add: hton16_def memcpy_at_def b_def opts_def wire_message_def wire_body_def wire_head_def n_def)
  finally show ?thesis .
qed

lemma TcpProtocol_data_size_wire:
  "TcpProtocolHead_decode_data_size (wire_message fill meta payload @ rest) =
     Ok (of_nat ((TcpProtocol_get_meta_size meta + length payload) mod 65536))"
proof -
  have "ntoh16 (wire_message fill meta payload @ rest) 2 =
      Ok (of_nat (TcpProtocol_get_meta_size meta + length payload))"
    using ntoh16_be16 [of "[1, ucast (m_category meta)]"]
    by (simp add: wire_message_def wire_head_def numeral_2_eq_2)
  then show ?thesis
    by (simp only: TcpProtocolHead_decode_data_size_def obind_simps ucast_u16_of_nat)
qed

text \<open>The decoder never looks at the four bytes of the head.\<close>

lemma TcpProtocol_decode_body:
  assumes a: "length a = 4"
  shows "TcpProtocol_decode TcpProtocol_new meta0 (a @ wire_body fill meta payload) =
     Ok (received_meta fill meta0 meta, a @ wire_body fill meta payload,
         4 + TcpProtocol_get_meta_size meta, of_nat (length payload))"
proof -
  let ?bs = "a @ wire_body fill meta payload"
  define h where "h = a @ [ucast (m_model meta), ucast (m_option meta)]"
  have h: "length h = 6" using a by (simp add: h_def)
  have bs: "?bs = h @ wire_sess meta @ wire_type meta @ wire_req fill meta (req_pos meta) @ payload"
    by (simp add: h_def wire_body_def)
  have bytes: "rd ?bs 4 = Ok (ucast (m_model meta))" "rd ?bs 5 = Ok (ucast (m_option meta))"
    using a by (simp_all add: wire_body_def rd_def nth_append)
  define m1 where "m1 = meta0\<lparr>m_model := low_byte (m_model meta), m_option := low_byte (m_option meta)\<rparr>"
  have msize: "TcpProtocol_get_meta_size m1 = TcpProtocol_get_meta_size meta"
    by (simp add: TcpProtocol_get_meta_size_def m1_def flag_simps)
  define m2 where "m2 = m1\<lparr>m_session_id := (if eco_has (m_option meta) option_sess
                              then m_session_id meta else m_session_id m1)\<rparr>"
  have s2: "read_sess ?bs (m1, 6) = Ok (m2, 6 + sess_size (m_option meta))"
    unfolding bs m2_def by (intro read_sess_wire h) (simp add: m1_def)
  define m3 where "m3 = m2\<lparr>m_message_type := (if eco_has (m_option meta) option_type
       then ucast (ucast (m_message_type meta) :: u16) else m_message_type m2)\<rparr>"
  have s3: "read_type ?bs (m2, 6 + sess_size (m_option meta)) = Ok (m3, req_pos meta)"
    using read_type_wire [of "h @ wire_sess meta" "6 + sess_size (m_option meta)" m2 meta
        "wire_req fill meta (req_pos meta) @ payload"]
    by (simp add: bs m3_def m2_def m1_def h req_pos_def)
  have s4: "read_req ?bs (m3, req_pos meta) =
      Ok (m3\<lparr>m_request_data := seen_req fill meta (req_pos meta) (m_request_data m3)\<rparr>,
          req_pos meta + req_size (m_option meta))"
    using read_req_wire [of "h @ wire_sess meta @ wire_type meta" "req_pos meta" m3 meta fill "req_pos meta" payload]
    by (simp add: bs m3_def m2_def m1_def h req_pos_def)
  have pos: "req_pos meta + req_size (m_option meta) = 4 + TcpProtocol_get_meta_size meta"
    by (simp add: req_pos_def TcpProtocol_get_meta_size_def)
  have ge: "6 \<le> length ?bs" "4 + TcpProtocol_get_meta_size meta \<le> length ?bs"
    using a by (simp_all add: wire_body_length TcpProtocol_get_meta_size_def)
  have "TcpProtocol_decode TcpProtocol_new meta0 ?bs =
      Ok (m3\<lparr>m_request_data := seen_req fill meta (req_pos meta) (m_request_data m3)\<rparr>, ?bs,
         4 + TcpProtocol_get_meta_size meta, of_nat (length payload))"
    using ge a by (simp add: TcpProtocol_decode_def TcpProtocol_new_def TcpProtocolHead_size_def Let_def
      TcpProtocol_get_option_data_pos_def TcpProtocol_get_option_pos_def TcpProtocol_get_model_pos_def
      bytes low_byte_def [symmetric] m1_def [symmetric] msize s2 s3 s4 pos wire_body_length)
  also have "m3\<lparr>m_request_data := seen_req fill meta (req_pos meta) (m_request_data m3)\<rparr> =
      received_meta fill meta0 meta"
    by (simp add: m3_def m2_def m1_def received_meta_def)
  finally show ?thesis .
qed

lemma TcpProtocol_decode_wire:
  "TcpProtocol_decode TcpProtocol_new meta0 (wire_message fill meta payload) =
     Ok (received_meta fill meta0 meta, wire_message fill meta payload,
         4 + TcpProtocol_get_meta_size meta, of_nat (length payload))"
  unfolding wire_message_def by (rule TcpProtocol_decode_body) simp

lemma TcpProtocol_decode_cases:
  "TcpProtocol_decode TcpProtocol_new meta bs = Err e_protocol_parameter \<or>
   (\<exists>meta' pos. TcpProtocol_decode TcpProtocol_new meta bs = Ok (meta', bs, pos, of_nat (length bs - pos))
      \<and> pos \<le> length bs \<and> pos = 4 + TcpProtocol_get_meta_size meta')"
proof -
  note d = TcpProtocol_decode_def TcpProtocol_new_def TcpProtocolHead_size_def Let_def rd_def
      TcpProtocol_get_option_data_pos_def TcpProtocol_get_option_pos_def TcpProtocol_get_model_pos_def
  define m1 where "m1 = meta\<lparr>m_model := scast (bs ! 4), m_option := scast (bs ! 5)\<rparr>"
  consider "length bs < 6" | "6 \<le> length bs" "length bs < TcpProtocol_get_meta_size m1 + 4"
    | "TcpProtocol_get_meta_size m1 + 4 \<le> length bs" "6 \<le> length bs"
    by linarith
  then show ?thesis
  proof cases
    case 3
    then obtain m2 where m2: "read_sess bs (m1, 6) = Ok (m2, 6 + sess_size (m_option m1))"
      "m_option m2 = m_option m1"
      using read_sess_safe [of 6 m1 bs] by (auto simp: TcpProtocol_get_meta_size_def)
    with 3 obtain m3 where m3: "read_type bs (m2, 6 + sess_size (m_option m1)) =
        Ok (m3, 6 + sess_size (m_option m1) + type_size (m_option m1))" "m_option m3 = m_option m1"
      using read_type_safe [of "6 + sess_size (m_option m1)" m2 bs]
      by (auto simp: TcpProtocol_get_meta_size_def)
    with 3 obtain m4 where m4: "read_req bs (m3, 6 + sess_size (m_option m1) + type_size (m_option m1)) =
        Ok (m4, 4 + TcpProtocol_get_meta_size m1)" "m_option m4 = m_option m1"
      using read_req_safe [of "6 + sess_size (m_option m1) + type_size (m_option m1)" m3 bs]
      by (auto simp: TcpProtocol_get_meta_size_def)
    have "TcpProtocol_decode TcpProtocol_new meta bs =
        Ok (m4, bs, 4 + TcpProtocol_get_meta_size m1, of_nat (length bs - (4 + TcpProtocol_get_meta_size m1)))"
      using 3 m2 m3 m4 by (simp add: d m1_def [symmetric])
    then show ?thesis using 3 m4 by (auto simp: TcpProtocol_get_meta_size_def)
  qed (simp_all add: d m1_def)
qed


section \<open>Properties\<close>

text \<open>
  Claim C21. Round trip. A message whose model and options fit seven bits, whose type fits 16 bits and
  whose request data (if any) is sent in four bytes comes back from \<open>decode\<close> exactly as it
  was given to \<open>encode\<close>: the same model, options, session id, type and request data, and the
  body as a slice of the received buffer, whatever the codec and whatever the heap contained.
\<close>

theorem TcpProtocol_roundtrip:
  assumes "m_codec meta = Some codec" and "body_codec codec payload"
    and "m_model meta < 128" and "m_option meta < 128" and "m_message_type meta < 65536"
    and "m_request_data meta < 2 ^ 32"
    and "eco_has (m_option meta) option_req8 \<longrightarrow> eco_has (m_option meta) option_req4"
  shows "\<exists>bs meta' pos siz.
    TcpProtocol_encode fill TcpProtocol_new meta = Ok (bs, 0)
    \<and> TcpProtocol_decode TcpProtocol_new (MessageMeta_cat (m_category meta)) bs = Ok (meta', bs, pos, siz)
    \<and> take (unat siz) (drop pos bs) = payload
    \<and> m_category meta' = m_category meta \<and> m_model meta' = m_model meta \<and> m_option meta' = m_option meta
    \<and> (eco_has (m_option meta) option_sess \<longrightarrow> m_session_id meta' = m_session_id meta)
    \<and> (eco_has (m_option meta) option_type \<longrightarrow> m_message_type meta' = m_message_type meta)
    \<and> (eco_has (m_option meta) option_req4 \<longrightarrow> m_request_data meta' = m_request_data meta)"
proof -
  let ?bs = "wire_message fill meta payload"
  have size: "unat (of_nat (length payload) :: u32) = length payload"
    unfolding body_codec.size_law [OF assms(2), symmetric] by simp
  have "drop (4 + TcpProtocol_get_meta_size meta) ?bs = payload"
    by (simp add: wire_message_def wire_body_def TcpProtocol_get_meta_size_def)
  moreover have "ucast (ucast (m_message_type meta) :: u16) = m_message_type meta"
    using assms(5) by (intro ucast_narrow) auto
  moreover have "ucast (ucast (m_request_data meta) :: u32) = m_request_data meta"
    using assms(6) by (intro ucast_narrow) auto
  ultimately show ?thesis
    using size assms(3,4)
    by (auto simp: TcpProtocol_encode_wire [OF assms(1,2)] TcpProtocol_decode_wire received_meta_def
        MessageMeta_cat_def low_byte_id seen_req_def)
qed

text \<open>
  Claim C33. Decoding never reads outside the buffer: on every byte sequence \<open>TcpProtocol::decode\<close>
  either reports \<open>e_protocol_parameter\<close> or returns, and then the body is the rest of the buffer
  behind the metadata its own option byte announces.
\<close>

theorem TcpProtocol_decode_safe:
  "TcpProtocol_decode TcpProtocol_new meta bs = Err e_protocol_parameter \<or>
   (\<exists>meta' pos. TcpProtocol_decode TcpProtocol_new meta bs = Ok (meta', bs, pos, of_nat (length bs - pos))
      \<and> pos \<le> length bs \<and> pos = 4 + TcpProtocol_get_meta_size meta')"
  by (rule TcpProtocol_decode_cases)

text \<open>
  The size field of an encoded message is the number of bytes behind the head modulo
  65536, so the receiver learns the true size exactly when it is at most 65535; nothing in
  \<open>encode\<close> rejects a longer message.
\<close>

theorem TcpProtocol_size_field:
  assumes "m_codec meta = Some codec" and "body_codec codec payload"
  shows "\<exists>bs. TcpProtocol_encode fill TcpProtocol_new meta = Ok (bs, 0)
    \<and> length bs = 4 + TcpProtocol_get_meta_size meta + length payload
    \<and> TcpProtocolHead_decode_data_size bs = Ok (of_nat ((length bs - 4) mod 65536))"
  using TcpProtocol_data_size_wire [of fill meta payload "[]"]
  by (simp add: TcpProtocol_encode_wire [OF assms] wire_message_length)

text \<open>
  Request data sent in eight bytes does not survive: the receiver always reads the low half
  of the sent value in the high half of its own, followed by four bytes of uninitialised
  heap, so a value whose two halves differ never comes back.
\<close>

theorem TcpProtocol_req8_corrupted:
  assumes "m_codec meta = Some codec" and "body_codec codec payload"
    and "eco_has (m_option meta) option_req8" and "\<not> eco_has (m_option meta) option_req4"
    and "drop_bit 32 (m_request_data meta) \<noteq> ucast (ucast (m_request_data meta) :: u32)"
  shows "\<exists>bs meta' pos siz.
    TcpProtocol_encode fill TcpProtocol_new meta = Ok (bs, 0)
    \<and> TcpProtocol_decode TcpProtocol_new (MessageMeta_cat (m_category meta)) bs = Ok (meta', bs, pos, siz)
    \<and> m_request_data meta' \<noteq> m_request_data meta"
proof -
  let ?r = "seen_req fill meta (req_pos meta) 0"
  have "drop_bit 32 ?r = ucast (ucast (m_request_data meta) :: u32)"
    using assms(3,4) by (simp add: seen_req_def high_half)
  with assms(5) have "?r \<noteq> m_request_data meta" by metis
  then show ?thesis
    by (auto simp: MessageMeta_cat_def MessageMeta_new_def TcpProtocol_encode_wire [OF assms(1,2)] TcpProtocol_decode_wire received_meta_def)
qed

text \<open>
  A heartbeat is four bytes, announces no body, and is recognised by the receiver's head
  decoder as a heartbeat and not as a message.
\<close>

theorem TcpProtocolHead_heartbeat:
  "\<exists>bs head. TcpProtocolHead_encode_heartbeat [] = Ok bs \<and> length bs = TcpProtocolHead_size
    \<and> TcpProtocolHead_decode_data_size bs = Ok 0
    \<and> TcpProtocolHead_decode bs = Ok head \<and> head_version head = - 1
    \<and> eco_has (head_category head) category_heartbeat
    \<and> \<not> eco_has (head_category head) category_message"
  by (simp add: TcpProtocolHead_encode_heartbeat_def TcpProtocolHead_encode_append_def wr_def rd_def
      TcpProtocolHead_size_def TcpProtocolHead_decode_data_size_def ntoh16_def be16_def
      TcpProtocolHead_decode_def category_defs replicate_4 eco_has_def minus_one_byte)

text \<open>A request with a session, a type and four bytes of request data, as used below.\<close>

definition sample_meta :: MessageMeta where
  "sample_meta = set_request_data4 7 (MessageMeta_msg (StringCodec [104, 105]) 3 258 False)"

definition sample_meta8 :: MessageMeta where
  "sample_meta8 = set_request_data8 (2 ^ 32) (MessageMeta_msg (StringCodec [104, 105]) 3 258 False)"

lemma sample_meta_fields:
  "m_codec sample_meta = Some (StringCodec [104, 105])" "m_model sample_meta = 0"
  "m_option sample_meta = 22" "m_message_type sample_meta = 258" "m_request_data sample_meta = 7"
  "m_codec sample_meta8 = Some (StringCodec [104, 105])" "m_option sample_meta8 = 26"
  "m_request_data sample_meta8 = 2 ^ 32" "m_category sample_meta = 65" "m_category sample_meta8 = 65"
  "m_session_id sample_meta = 3"
  by (simp_all add: sample_meta_def sample_meta8_def set_request_data4_def set_request_data8_def
      MessageMeta_msg_def MessageMeta_new_def set_message_type_def set_session_id_def eco_add_def
      eco_set_def option_defs none_session_def category_defs)

theorem TcpProtocol_roundtrip_witness:
  "\<exists>bs meta' pos siz. TcpProtocol_encode (\<lambda>_. 170) TcpProtocol_new sample_meta = Ok (bs, 0)
    \<and> TcpProtocol_decode TcpProtocol_new (MessageMeta_cat 65) bs = Ok (meta', bs, pos, siz)
    \<and> take (unat siz) (drop pos bs) = [104, 105] \<and> m_session_id meta' = 3
    \<and> m_message_type meta' = 258 \<and> m_request_data meta' = 7"
  using TcpProtocol_roundtrip [of sample_meta "StringCodec [104, 105]" "[104, 105]" "\<lambda>_. 170"]
  by (auto simp: sample_meta_fields StringCodec_body option_defs flag_simps)

theorem TcpProtocol_size_field_witness:
  "\<exists>bs. TcpProtocol_encode (\<lambda>_. 170) TcpProtocol_new sample_meta = Ok (bs, 0)
    \<and> length bs = 18 \<and> TcpProtocolHead_decode_data_size bs = Ok 14"
  using TcpProtocol_size_field [of sample_meta "StringCodec [104, 105]" "[104, 105]" "\<lambda>_. 170"]
  by (auto simp: sample_meta_fields StringCodec_body option_defs flag_simps
      TcpProtocol_get_meta_size_def sess_size_def type_size_def req_size_def)

theorem TcpProtocol_req8_corrupted_witness:
  "\<exists>bs meta' pos siz. TcpProtocol_encode (\<lambda>_. 170) TcpProtocol_new sample_meta8 = Ok (bs, 0)
    \<and> TcpProtocol_decode TcpProtocol_new (MessageMeta_cat 65) bs = Ok (meta', bs, pos, siz)
    \<and> m_request_data meta' \<noteq> 2 ^ 32"
  using TcpProtocol_req8_corrupted [of sample_meta8 "StringCodec [104, 105]" "[104, 105]" "\<lambda>_. 170"]
  by (auto simp: sample_meta_fields StringCodec_body option_defs flag_simps)

end
