(* ===== verification/Eco_WebSocket.thy ===== *)
theory Eco_WebSocket
  imports Eco_Message
begin

text \<open>
  The WebSocket transport of \<open>src/project/eco/net/protocol/WebSocketProtocol.h\<close>: the frame head
  (\<open>WebSocketProtocolHead\<close>), the same head with the version and category bytes of this
  framework (\<open>WebSocketProtocolHeadEx\<close>), and the message protocol on top. A frame is built behind
  ten reserved bytes and the head is then written backwards from them, so \<open>encode\<close> returns the
  buffer together with the position where the frame starts.
\<close>

section \<open>The frame head\<close>

definition websocket_frame_binary :: byte where "websocket_frame_binary = 0x2"
definition websocket_frame_close :: byte where "websocket_frame_close = 0x8"

definition eco_masking_key :: bytes where
  "eco_masking_key = lit ''#2^1''"

definition size_ws_head :: nat where "size_ws_head = 2"
definition size_ws_len2 :: nat where "size_ws_len2 = 2"
definition size_ws_len8 :: nat where "size_ws_len8 = 8"
definition size_ws_mask_key :: nat where "size_ws_mask_key = 4"
definition max_uint16 :: u32 where "max_uint16 = 0xFFFF"

record ws_frame =
  ws_fin :: bool
  ws_opcode :: byte
  ws_masked :: bool
  ws_payload_len :: u32

definition get_payload_len_size :: "u8 \<Rightarrow> nat" where
  "get_payload_len_size n =
     (if n < 126 then 0 else if n = 126 then 2 else if n = 127 then 8 else 0)"

text \<open>\<open>decode_head\<close> returns the fields and the position behind the (extended) length.\<close>

definition ws_decode_head :: "bytes \<Rightarrow> nat \<Rightarrow> nat \<Rightarrow> (ws_frame \<times> nat) outcome" where
  "ws_decode_head head siz pos =
     obind (rds head pos) (\<lambda>b0. obind (rds head (pos + 1)) (\<lambda>b1.
       let fin = (drop_bit 7 b0 > 0);
           frame = b0 AND 0x0f;
           mask = (drop_bit 7 b1 > 0);
           len7 = (ucast (b1 AND 0x7F) :: u32);
           pos = pos + 2;
           len_end = get_payload_len_size (ucast len7) + pos;
           result = (\<lambda>n. Ok (\<lparr>ws_fin = fin, ws_opcode = frame, ws_masked = mask,
                               ws_payload_len = n\<rparr>, len_end))
       in if siz < len_end then Err (- 1)
          else if len7 = 126 then obind (ntoh16 head pos) (\<lambda>v. result (ucast v))
          else if len7 = 127 then
            obind (ntoh64 head pos) (\<lambda>v.
              if drop_bit 32 v > 0 then Err (- 1) else result (ucast v))
          else result len7))"

text \<open>
  The number of bytes still to be read after the four bytes of \<open>WebSocketProtocolHeadEx\<close>. The
  last branch of the source, for a length above 65535, sits behind the test
  \<open>payload_len >= 126\<close> and is never taken.
\<close>

definition ws_decode_data_size :: "bytes \<Rightarrow> nat \<Rightarrow> u32 outcome" where
  "ws_decode_data_size head siz =
     obind (ws_decode_head head siz 0) (\<lambda>(f, pos).
       if ws_opcode f = websocket_frame_close then Err e_peer_client_close
       else
         let data_size = ws_payload_len f;
             data_size = (if ws_masked f then data_size + 4 else data_size)
         in Ok (if ws_payload_len f < 126 then data_size - 2
                else if ws_payload_len f \<ge> 126 then data_size + 0
                else if ws_payload_len f > max_uint16 then data_size + 6
                else data_size))"

text \<open>\<open>cpy_pos(masking_key, pos, &bytes[pos], 4)\<close>.\<close>

definition read_mask_key :: "bytes \<Rightarrow> nat \<Rightarrow> bytes outcome" where
  "read_mask_key bs pos =
     obind (rds bs pos) (\<lambda>k0. obind (rds bs (pos + 1)) (\<lambda>k1.
     obind (rds bs (pos + 2)) (\<lambda>k2. obind (rds bs (pos + 3)) (\<lambda>k3. Ok [k0, k1, k2, k3]))))"

definition ws_head_decode :: "bytes \<Rightarrow> MessageHead outcome" where
  "ws_head_decode bs =
     obind (ws_decode_head bs (length bs) 0) (\<lambda>(f, pos).
       if ws_masked f then
         obind (read_mask_key bs pos) (\<lambda>key.
         obind (rds bs (pos + 4)) (\<lambda>v. obind (rds bs (pos + 5)) (\<lambda>c.
           Ok \<lparr>head_version = scast (v XOR key ! 0), head_category = scast (c XOR key ! 1)\<rparr>)))
       else
         obind (rds bs pos) (\<lambda>v. obind (rds bs (pos + 1)) (\<lambda>c.
           Ok \<lparr>head_version = scast v, head_category = scast c\<rparr>)))"

definition ws_encode_heartbeat :: "bytes \<Rightarrow> bytes outcome" where
  "ws_encode_heartbeat bs =
     obind (wr (bs @ replicate size_ws_head 0) 1 2) (\<lambda>b.
       Ok (b @ [- 1] @ [ucast category_heartbeat]))"

section \<open>Masking\<close>

text \<open>
  The loop combines every byte from \<open>start\<close> on with the key. The number of bytes is the 32 bit
  difference of two sizes: with \<open>start\<close> behind the end it wraps and the loop leaves the buffer.
\<close>

definition xor_key :: "bytes \<Rightarrow> bytes \<Rightarrow> bytes" where
  "xor_key key xs = map (\<lambda>i. xs ! i XOR key ! (i mod size_ws_mask_key)) [0..<length xs]"

definition mask_data :: "bytes \<Rightarrow> nat \<Rightarrow> bytes \<Rightarrow> bytes outcome" where
  "mask_data bs start key =
     (if start \<le> length bs then Ok (take start bs @ xor_key key (drop start bs)) else UB)"

definition ws_pre_size :: "nat \<Rightarrow> MessageCategory \<Rightarrow> nat" where
  "ws_pre_size siz category =
     siz + (if eco_has category category_encrypted then size_ws_mask_key else 0) + size_ws_len8"

definition ws_head_size :: "MessageCategory \<Rightarrow> nat" where
  "ws_head_size category =
     size_ws_head + (if eco_has category category_encrypted then size_ws_mask_key else 0) + size_ws_len8"

definition ws_pre_encode_append :: "bytes \<Rightarrow> MessageCategory \<Rightarrow> bytes outcome" where
  "ws_pre_encode_append bs category =
     obind (wr (bs @ replicate size_ws_head 0) 0 websocket_frame_binary) (\<lambda>b1.
     obind (rd b1 0) (\<lambda>b0.
     obind (wr b1 0 (b0 OR 0x80)) (\<lambda>b2.
       Ok (b2 @ replicate size_ws_len8 0
             @ (if eco_has category category_encrypted then replicate size_ws_mask_key 0 else [])))))"

definition ws_encode_mask :: "bytes \<Rightarrow> MessageCategory \<Rightarrow> (bytes \<times> nat) outcome" where
  "ws_encode_mask bs category =
     (let data_size = (of_nat (length bs) - of_nat (ws_head_size category) :: u32) in
      obind (if data_size < 126 then
               obind (rd bs 0) (\<lambda>b0. obind (wr bs size_ws_len8 b0) (\<lambda>b1.
               obind (wr b1 (size_ws_len8 + 1) (ucast data_size)) (\<lambda>b2. Ok (b2, size_ws_len8))))
             else if data_size \<le> max_uint16 then
               obind (rd bs 0) (\<lambda>b0. obind (wr bs (size_ws_len8 - size_ws_len2) b0) (\<lambda>b1.
               obind (wr b1 (size_ws_len8 - size_ws_len2 + 1) 126) (\<lambda>b2.
               obind (hton16 b2 (size_ws_len8 - size_ws_len2 + size_ws_len2) (ucast data_size)) (\<lambda>b3.
                 Ok (b3, size_ws_len8 - size_ws_len2)))))
             else
               obind (wr bs 1 127) (\<lambda>b1.
               obind (hton64 b1 size_ws_len2 (ucast data_size)) (\<lambda>b2. Ok (b2, 0))))
      (\<lambda>(b, data_start).
         if eco_has category category_encrypted then
           obind (rd b (data_start + 1)) (\<lambda>l.
           obind (wr b (data_start + 1) (l OR 0x80)) (\<lambda>b1.
           obind (memcpy_at b1 (size_ws_head + size_ws_len8) eco_masking_key) (\<lambda>b2.
           obind (mask_data b2 (size_ws_head + size_ws_len8 + size_ws_mask_key) eco_masking_key) (\<lambda>b3.
             Ok (b3, data_start)))))
         else Ok (b, data_start)))"

definition ws_decode :: "bytes \<Rightarrow> (bytes \<times> nat) outcome" where
  "ws_decode bs =
     obind (ws_decode_head bs (length bs) 0) (\<lambda>(f, head_end).
       if ws_masked f then
         obind (read_mask_key bs head_end) (\<lambda>key.
         obind (mask_data bs (head_end + size_ws_mask_key) key) (\<lambda>b.
           Ok (b, head_end + size_ws_mask_key)))
       else Ok (bs, head_end))"

section \<open>The head with version and category\<close>

definition ws_ex_size :: nat where "ws_ex_size = size_ws_head + 1 + 1"

definition ws_ex_pre_encode_append :: "bytes \<Rightarrow> u8 \<Rightarrow> MessageCategory \<Rightarrow> bytes outcome" where
  "ws_ex_pre_encode_append bs version category =
     obind (ws_pre_encode_append bs category) (\<lambda>b. Ok (b @ [version] @ [ucast category]))"

definition ws_ex_decode :: "bytes \<Rightarrow> (bytes \<times> nat) outcome" where
  "ws_ex_decode bs = obind (ws_decode bs) (\<lambda>(b, head_end). Ok (b, head_end + 1 + 1))"

section \<open>The protocol\<close>

definition WebSocketProtocol_version :: u32 where "WebSocketProtocol_version = 1"

definition WebSocketProtocol_get_meta_size :: "MessageMeta \<Rightarrow> nat" where
  "WebSocketProtocol_get_meta_size meta = 2 + type_size (m_option meta) + req_size (m_option meta)"

text \<open>\<open>decode_websocket\<close> unmasks a frame in place and returns the position of its payload.\<close>

definition decode_websocket :: "bytes \<Rightarrow> (bytes \<times> nat option) outcome" where
  "decode_websocket bs =
     (case ws_decode_head bs (length bs) 0 of
        UB \<Rightarrow> UB
      | Err n \<Rightarrow> Ok (bs, None)
      | Ok (f, pos) \<Rightarrow>
          if ws_masked f then
            obind (read_mask_key bs pos) (\<lambda>key.
            obind (mask_data bs (pos + size_ws_mask_key) key) (\<lambda>b. Ok (b, Some (pos + size_ws_mask_key))))
          else Ok (bs, Some pos))"

definition WebSocketProtocol_decode ::
  "MessageMeta \<Rightarrow> bytes \<Rightarrow> (MessageMeta \<times> bytes \<times> nat \<times> u32) outcome" where
  "WebSocketProtocol_decode meta0 bytes0 =
     obind (ws_ex_decode bytes0) (\<lambda>(bs, meta_pos).
       let meta_opt_pos = meta_pos + 1 + 1 in
       if length bs < meta_opt_pos then Err e_protocol_parameter
       else
         obind (rds bs meta_pos) (\<lambda>mb. obind (rds bs (meta_pos + 1)) (\<lambda>ob.
         let meta1 = meta0\<lparr>m_model := scast mb, m_option := scast ob\<rparr>;
             meta_end = meta_pos + WebSocketProtocol_get_meta_size meta1
         in if length bs < meta_end then Err e_protocol_parameter
            else
              obind (read_type bs (meta1, meta_opt_pos)) (\<lambda>s2.
              obind (read_req bs s2) (\<lambda>(meta3, pos3).
                Ok (meta3, bs, pos3, of_nat (length bs) - of_nat pos3))))))"

definition WebSocketProtocol_encode ::
  "(nat \<Rightarrow> byte) \<Rightarrow> u32 \<Rightarrow> MessageMeta \<Rightarrow> (bytes \<times> nat) outcome" where
  "WebSocketProtocol_encode fill m_mask meta =
     (case m_codec meta of
        None \<Rightarrow> UB
      | Some codec \<Rightarrow>
          let category = eco_set (m_category meta) category_encrypted (m_mask > 0) in
          obind (ws_ex_pre_encode_append [] (ucast WebSocketProtocol_version) category) (\<lambda>b0.
          let b1 = b0 @ [ucast (m_model meta)] @ [ucast (m_option meta)] in
          obind (put_type fill meta b1) (\<lambda>b2.
          obind (put_req fill meta b2) (\<lambda>b3.
          obind (Codec_encode_append fill codec b3 (codec_byte_size codec)) (\<lambda>b4.
            ws_encode_mask b4 category)))))"

definition WebSocketProtocol_encode_text ::
  "u32 \<Rightarrow> bytes \<Rightarrow> MessageCategory \<Rightarrow> (bytes \<times> nat) outcome" where
  "WebSocketProtocol_encode_text m_mask message category =
     (let category = eco_set category category_encrypted (m_mask > 0) in
      obind (ws_pre_encode_append [] category) (\<lambda>b0.
        ws_encode_mask (b0 @ message) category))"

section \<open>Frames on the wire\<close>

lemma length_xor_key [simp]: "length (xor_key key xs) = length xs"
  by (simp add: xor_key_def)

lemma xor_key_involution [simp]: "xor_key key (xor_key key xs) = xs"
  by (auto simp: xor_key_def intro!: nth_equalityI) (simp add: xor.assoc)

lemma split_two: "2 \<le> length xs \<Longrightarrow> xs = xs ! 0 # xs ! 1 # drop 2 xs"
  by (cases xs; cases "tl xs") auto

lemma xor_key_nth: "i < length xs \<Longrightarrow> xor_key key xs ! i = xs ! i XOR key ! (i mod 4)"
  by (simp add: xor_key_def size_ws_mask_key_def)

lemma mask_data_append [simp]:
  "length h = n \<Longrightarrow> mask_data (h @ xs) n key = Ok (h @ xor_key key xs)"
  by (auto simp: mask_data_def)

definition ws_len_bytes :: "bool \<Rightarrow> nat \<Rightarrow> bytes" where
  "ws_len_bytes masked n =
     (let flag = (if masked then 0x80 else 0)
      in if n < 126 then [of_nat n OR flag] else (126 OR flag) # be16_bytes (of_nat n))"

definition ws_wire_head :: "bool \<Rightarrow> nat \<Rightarrow> bytes" where
  "ws_wire_head masked n = 0x82 # ws_len_bytes masked n @ (if masked then eco_masking_key else [])"

definition ws_wire_frame :: "bool \<Rightarrow> bytes \<Rightarrow> bytes" where
  "ws_wire_frame masked body =
     ws_wire_head masked (length body) @ (if masked then xor_key eco_masking_key body else body)"

lemmas ws_size_defs = size_ws_head_def size_ws_len2_def size_ws_len8_def size_ws_mask_key_def
  max_uint16_def websocket_frame_binary_def websocket_frame_close_def

lemma eco_masking_key_bytes: "eco_masking_key = [35, 50, 94, 49]"
  by (simp add: eco_masking_key_def lit_def of_char_def)

lemma replicate_8: "replicate 8 x = [x, x, x, x, x, x, x, x]"
  by (simp add: numeral_eq_Suc)

lemma ws_pre_encode:
  "ws_pre_encode_append [] category = Ok ([0x82, 0, 0, 0, 0, 0, 0, 0, 0, 0]
     @ (if eco_has category category_encrypted then [0, 0, 0, 0] else []))"
  by (simp add: ws_pre_encode_append_def wr_def rd_def ws_size_defs replicate_8 replicate_4 numeral_2_eq_2
      del: One_nat_def)

lemma ws_encode_mask_frame:
  assumes pre: "ws_pre_encode_append [] category = Ok pre" and small: "length body \<le> 65535"
  defines "start \<equiv> (if length body < 126 then 8 else 6 :: nat)"
  shows "ws_encode_mask (pre @ body) category =
    Ok (take start pre @ ws_wire_frame (eco_has category category_encrypted) body, start)"
proof -
  let ?enc = "eco_has category category_encrypted"
  have pre': "pre = [0x82, 0, 0, 0, 0, 0, 0, 0, 0, 0] @ (if ?enc then [0, 0, 0, 0] else [])"
    using pre ws_pre_encode [of category] by simp
  have sz: "(of_nat (length (pre @ body)) - of_nat (ws_head_size category) :: u32) = of_nat (length body)"
    by (simp add: pre' ws_head_size_def ws_size_defs)
  have un: "unat (of_nat (length body) :: u32) = length body"
    using small by (intro unat_of_nat_u32) simp
  note defs = pre' rd_def wr_def ws_size_defs ws_wire_frame_def ws_wire_head_def
    ws_len_bytes_def memcpy_at_def eco_masking_key_bytes mask_data_def
  show ?thesis
  proof (cases "length body < 126")
    case True
    then have "(of_nat (length body) :: u32) < 126"
      using un by (simp add: word_less_nat_alt)
    with True show ?thesis
      unfolding ws_encode_mask_def Let_def sz unfolding defs start_def by (simp add: ucast_of_nat_u8)
  next
    case False
    then have "\<not> (of_nat (length body) :: u32) < 126" "(of_nat (length body) :: u32) \<le> 65535"
      using un small by (simp_all add: word_less_nat_alt word_le_nat_alt)
    with False show ?thesis
      unfolding ws_encode_mask_def Let_def sz unfolding defs start_def
      by (simp add: ucast_of_nat_u16 hton16_def memcpy_at_def be16_bytes_def)
  qed
qed

lemma seven_bits:
  assumes "(b :: byte) < 128"
  shows "drop_bit 7 b = 0" "drop_bit 7 (b OR 0x80) = 1" "b AND 0x7F = b" "(b OR 0x80) AND 0x7F = b"
proof -
  have "b AND mask 7 = b" using assms by (intro less_mask_eq) simp
  then have m: "b AND 0x7F = b" by (simp add: mask_eq_exp_minus_1)
  then have low: "bit b k \<Longrightarrow> k < 7" for k
    using \<open>b AND mask 7 = b\<close> by (metis bit_and_iff bit_mask_iff)
  show "b AND 0x7F = b" by (rule m)
  show d: "drop_bit 7 b = 0" using low by (intro bit_word_eqI) (auto simp: bit_simps dest!: low)
  have "drop_bit 7 (b OR 0x80) = drop_bit 7 b OR drop_bit 7 0x80" by (rule drop_bit_or)
  also have "drop_bit 7 0x80 = (1 :: byte)" by simp
  finally show "drop_bit 7 (b OR 0x80) = 1" using d by simp
  have "(b OR 0x80) AND 0x7F = (b AND 0x7F) OR (0x80 AND 0x7F)" by (rule bit.conj_disj_distrib2)
  then show "(b OR 0x80) AND 0x7F = b" using m by simp
qed

lemma ws_decode_head_wire:
  assumes n: "n \<le> 65535" and siz: "1 + length (ws_len_bytes masked n) \<le> siz"
  shows "ws_decode_head (0x82 # ws_len_bytes masked n @ rest) siz 0 =
    Ok (\<lparr>ws_fin = True, ws_opcode = websocket_frame_binary, ws_masked = masked, ws_payload_len = of_nat n\<rparr>,
        1 + length (ws_len_bytes masked n))"
proof (cases "n < 126")
  case True
  then have un: "unat (of_nat n :: byte) = n" by (simp add: unat_of_nat)
  with True have small: "(of_nat n :: byte) < 128" "(of_nat n :: byte) < 126"
    by (simp_all add: word_less_nat_alt)
  have uc: "ucast (of_nat n :: byte) = (of_nat n :: u32)"
    using True by (simp add: word_unat_eq_iff unsigned_ucast_eq unat_of_nat take_bit_eq_mod)
  have ne: "(of_nat n :: u32) \<noteq> 126" "(of_nat n :: u32) \<noteq> 127"
    using True by (auto simp: word_unat_eq_iff unat_of_nat)
  show ?thesis
    using True siz small ne
    by (cases masked) (simp_all add: ws_decode_head_def ws_len_bytes_def rds_def rd_def seven_bits uc
        ucast_of_nat_u8 get_payload_len_size_def ws_size_defs Let_def)
next
  case False
  have "ntoh16 (a # b # be16_bytes (of_nat n) @ rest) (Suc (Suc 0)) = Ok (of_nat n :: u16)" for a b
    using ntoh16_be16 [of "[a, b]"] by simp
  moreover have "ucast (of_nat n :: u16) = (of_nat n :: u32)"
    using n by (simp add: ucast_u16_of_nat)
  ultimately show ?thesis
    using False siz
    by (cases masked) (simp_all add: ws_decode_head_def ws_len_bytes_def rds_def rd_def
        get_payload_len_size_def ws_size_defs Let_def)
qed

lemma read_mask_key_here: "length h = pos \<Longrightarrow> read_mask_key (h @ [a, b, c, d] @ rest) pos = Ok [a, b, c, d]"
  by (auto simp: read_mask_key_def rds_def rd_def nth_append)

lemma ws_decode_wire:
  assumes "length body \<le> 65535"
  shows "ws_decode (ws_wire_frame masked body) =
    Ok (ws_wire_head masked (length body) @ body, length (ws_wire_head masked (length body)))"
proof -
  define h where "h = 0x82 # ws_len_bytes masked (length body)"
  have head: "ws_decode_head (ws_wire_frame masked body) (length (ws_wire_frame masked body)) 0 =
    Ok (\<lparr>ws_fin = True, ws_opcode = websocket_frame_binary, ws_masked = masked,
         ws_payload_len = of_nat (length body)\<rparr>, length h)"
    using assms unfolding ws_wire_frame_def ws_wire_head_def h_def
    by (simp add: ws_decode_head_wire)
  show ?thesis
  proof (cases masked)
    case True
    then have fr: "ws_wire_frame masked body = h @ [35, 50, 94, 49] @ xor_key eco_masking_key body"
      by (simp add: ws_wire_frame_def ws_wire_head_def h_def eco_masking_key_bytes)
    have "mask_data (ws_wire_frame masked body) (length h + 4) eco_masking_key =
        Ok ((h @ [35, 50, 94, 49]) @ body)"
      using mask_data_append [of "h @ [35, 50, 94, 49]" "length h + 4"
          "xor_key eco_masking_key body" eco_masking_key]
      by (simp add: fr)
    moreover have "read_mask_key (ws_wire_frame masked body) (length h) = Ok eco_masking_key"
      unfolding fr by (simp only: read_mask_key_here [OF refl] eco_masking_key_bytes)
    ultimately have "ws_decode (ws_wire_frame masked body) =
        Ok ((h @ [35, 50, 94, 49]) @ body, length h + 4)"
      using head by (simp add: ws_decode_def True size_ws_mask_key_def)
    then show ?thesis
      using True by (simp add: ws_wire_head_def h_def eco_masking_key_bytes)
  next
    case False
    then show ?thesis using head by (simp add: ws_decode_def ws_wire_frame_def ws_wire_head_def h_def)
  qed
qed

lemma ws_wire_frame_length:
  "length (ws_wire_frame masked body) =
     2 + (if length body < 126 then 0 else 2) + (if masked then 4 else 0) + length body"
  by (simp add: ws_wire_frame_def ws_wire_head_def ws_len_bytes_def eco_masking_key_bytes Let_def)

text \<open>The four bytes the peer reads first announce the rest of the frame.\<close>

lemma ws_data_size_wire:
  assumes "2 \<le> length body" and "length body \<le> 65535"
  shows "ws_decode_data_size (take 4 (ws_wire_frame masked body)) 4 =
    Ok (of_nat (length (ws_wire_frame masked body) - 4))"
proof -
  let ?n = "length body"
  obtain rest where t: "take 4 (ws_wire_frame masked body) = 0x82 # ws_len_bytes masked ?n @ rest"
    by (cases "?n < 126")
      (auto simp: ws_wire_frame_def ws_wire_head_def ws_len_bytes_def Let_def be16_bytes_def)
  have "1 + length (ws_len_bytes masked ?n) \<le> 4"
    by (simp add: ws_len_bytes_def Let_def)
  then have head: "ws_decode_head (take 4 (ws_wire_frame masked body)) 4 0 =
    Ok (\<lparr>ws_fin = True, ws_opcode = websocket_frame_binary, ws_masked = masked, ws_payload_len = of_nat ?n\<rparr>,
        1 + length (ws_len_bytes masked ?n))"
    unfolding t by (rule ws_decode_head_wire [OF assms(2)])
  have lt: "(of_nat ?n :: u32) < 126 \<longleftrightarrow> ?n < 126"
    using assms(2) by (simp add: word_less_nat_alt unat_of_nat_u32)
  obtain k where k: "?n = 2 + k" using assms(1) le_Suc_ex by blast
  have lt': "(2 + of_nat k :: u32) < 126 \<longleftrightarrow> k < 124" "126 \<le> (2 + of_nat k :: u32) \<longleftrightarrow> \<not> k < 124"
    using lt k not_less [of "2 + of_nat k :: u32" 126] by auto
  show ?thesis
    by (simp add: ws_decode_data_size_def head ws_wire_frame_length ws_size_defs k Let_def lt')
qed

lemma ws_head_decode_wire:
  assumes "length (v # c # body) \<le> 65535"
  shows "ws_head_decode (ws_wire_frame masked (v # c # body)) =
    Ok \<lparr>head_version = scast v, head_category = scast c\<rparr>"
proof -
  let ?b = "v # c # body"
  define h where "h = 0x82 # ws_len_bytes masked (length ?b)"
  have head: "ws_decode_head (ws_wire_frame masked ?b) (length (ws_wire_frame masked ?b)) 0 =
    Ok (\<lparr>ws_fin = True, ws_opcode = websocket_frame_binary, ws_masked = masked,
         ws_payload_len = of_nat (length ?b)\<rparr>, length h)"
    using ws_decode_head_wire [OF assms, of masked] unfolding ws_wire_frame_def ws_wire_head_def h_def
    by simp
  have xk: "xor_key eco_masking_key ?b =
      (v XOR 35) # (c XOR 50) # drop 2 (xor_key eco_masking_key ?b)"
    using split_two [of "xor_key eco_masking_key ?b"] by (simp add: xor_key_nth eco_masking_key_bytes)
  have fr: "ws_wire_frame masked ?b = h @ (if masked then [35, 50, 94, 49]
      @ (v XOR 35) # (c XOR 50) # drop 2 (xor_key eco_masking_key ?b) else ?b)"
    using xk by (simp add: ws_wire_frame_def ws_wire_head_def h_def eco_masking_key_bytes)
  have x: "(v XOR 35) XOR 35 = v" "(c XOR 50) XOR 50 = c"
    by (simp_all only: xor.assoc xor_self_eq xor.right_neutral)
  show ?thesis
  proof (cases masked)
    case True
    have "read_mask_key (ws_wire_frame masked ?b) (length h) = Ok [35, 50, 94, 49]"
      using True unfolding fr by (simp add: read_mask_key_here [OF refl, simplified])
    moreover have "rds (ws_wire_frame masked ?b) (length h + 4) = Ok (v XOR 35)"
      "rds (ws_wire_frame masked ?b) (length h + 5) = Ok (c XOR 50)"
      using True unfolding fr by (simp_all add: rds_def rd_def nth_append)
    ultimately show ?thesis using True head x by (simp add: ws_head_decode_def)
  next
    case False
    have "rds (ws_wire_frame masked ?b) (length h) = Ok v"
      "rds (ws_wire_frame masked ?b) (length h + 1) = Ok c"
      using False unfolding fr by (simp_all add: rds_def rd_def nth_append)
    then show ?thesis using False head by (simp add: ws_head_decode_def)
  qed
qed

section \<open>Messages on the wire\<close>

definition ws_req_pos :: "bool \<Rightarrow> MessageMeta \<Rightarrow> nat" where
  "ws_req_pos masked meta = (if masked then 18 else 14) + type_size (m_option meta)"

definition ws_wire_body :: "(nat \<Rightarrow> byte) \<Rightarrow> bool \<Rightarrow> MessageMeta \<Rightarrow> bytes \<Rightarrow> bytes" where
  "ws_wire_body fill masked meta payload =
     [1, ucast (eco_set (m_category meta) category_encrypted masked), ucast (m_model meta), ucast (m_option meta)]
       @ wire_type meta @ wire_req fill meta (ws_req_pos masked meta) @ payload"

definition ws_received_meta :: "(nat \<Rightarrow> byte) \<Rightarrow> bool \<Rightarrow> MessageMeta \<Rightarrow> MessageMeta \<Rightarrow> MessageMeta" where
  "ws_received_meta fill masked meta0 meta =
     meta0\<lparr>m_model := low_byte (m_model meta),
           m_option := low_byte (m_option meta),
           m_message_type := (if eco_has (m_option meta) option_type
                              then ucast (ucast (m_message_type meta) :: u16)
                              else m_message_type meta0),
           m_request_data := seen_req fill meta (ws_req_pos masked meta) (m_request_data meta0)\<rparr>"

lemma ws_wire_body_length:
  "length (ws_wire_body fill masked meta payload) = 2 + WebSocketProtocol_get_meta_size meta + length payload"
  by (simp add: ws_wire_body_def WebSocketProtocol_get_meta_size_def)

lemma has_set_encrypted [flag_simps]:
  "eco_has (eco_set (c :: MessageCategory) category_encrypted is) category_encrypted \<longleftrightarrow> is"
  by (simp add: eco_has_def category_encrypted_def and_numeral_pos eco_set_def bit_simps)

lemma WebSocketProtocol_encode_wire:
  assumes codec: "m_codec meta = Some codec" "body_codec codec payload"
    and small: "2 + WebSocketProtocol_get_meta_size meta + length payload \<le> 65535"
  shows "\<exists>bs start. WebSocketProtocol_encode fill m_mask meta = Ok (bs, start) \<and> start \<le> length bs
    \<and> drop start bs = ws_wire_frame (m_mask > 0) (ws_wire_body fill (m_mask > 0) meta payload)"
proof -
  let ?cat = "eco_set (m_category meta) category_encrypted (m_mask > 0)"
  let ?body = "ws_wire_body fill (m_mask > 0) meta payload"
  obtain pre where pre: "ws_pre_encode_append [] ?cat = Ok pre" "length pre = (if m_mask > 0 then 14 else 10)"
    by (simp add: ws_pre_encode flag_simps)
  let ?start = "if length ?body < 126 then 8 else 6 :: nat"
  have "WebSocketProtocol_encode fill m_mask meta = ws_encode_mask (pre @ ?body) ?cat"
    using body_codec.encode_append_payload [OF codec(2)]
    by (simp add: WebSocketProtocol_encode_def codec(1) ws_ex_pre_encode_append_def pre put_fields Let_def
      ws_wire_body_def WebSocketProtocol_version_def ws_req_pos_def)
  also have "\<dots> = Ok (take ?start pre @ ws_wire_frame (m_mask > 0) ?body, ?start)"
    using ws_encode_mask_frame [OF pre(1), of ?body] small
    by (simp add: ws_wire_body_length has_set_encrypted)
  finally show ?thesis using pre(2) by auto
qed

lemma WebSocketProtocol_decode_wire:
  assumes small: "2 + WebSocketProtocol_get_meta_size meta + length payload \<le> 65535"
  shows "\<exists>bs pos. WebSocketProtocol_decode meta0 (ws_wire_frame masked (ws_wire_body fill masked meta payload)) =
    Ok (ws_received_meta fill masked meta0 meta, bs, pos, of_nat (length payload)) \<and> drop pos bs = payload"
proof -
  let ?body = "ws_wire_body fill masked meta payload"
  let ?h = "ws_wire_head masked (length ?body)"
  define h where "h = ?h @ take 2 ?body"
  define h4 where "h4 = h @ [ucast (m_model meta), ucast (m_option meta)]"
  let ?bs = "?h @ ?body"
  have bs: "?bs = h4 @ wire_type meta @ wire_req fill meta (ws_req_pos masked meta) @ payload"
    by (simp add: h4_def h_def ws_wire_body_def numeral_2_eq_2)
  have dec: "ws_ex_decode (ws_wire_frame masked ?body) = Ok (?bs, length h)"
    using ws_decode_wire [of ?body masked] small
    by (simp add: ws_ex_decode_def ws_wire_body_length h_def)
  have bytes: "rds ?bs (length h) = Ok (ucast (m_model meta))"
    "rds ?bs (Suc (length h)) = Ok (ucast (m_option meta))"
    unfolding bs h4_def by (simp_all add: rds_def rd_def nth_append)
  define m1 where "m1 = meta0\<lparr>m_model := low_byte (m_model meta), m_option := low_byte (m_option meta)\<rparr>"
  have msize: "WebSocketProtocol_get_meta_size m1 = WebSocketProtocol_get_meta_size meta"
    by (simp add: WebSocketProtocol_get_meta_size_def m1_def flag_simps)
  define m2 where "m2 = m1\<lparr>m_message_type := (if eco_has (m_option meta) option_type
       then ucast (ucast (m_message_type meta) :: u16) else m_message_type m1)\<rparr>"
  have s2: "read_type ?bs (m1, length h + 2) = Ok (m2, length h + 2 + type_size (m_option meta))"
    unfolding bs m2_def by (rule read_type_wire) (simp_all add: h4_def m1_def)
  have s3: "read_req ?bs (m2, length h + 2 + type_size (m_option meta)) =
      Ok (m2\<lparr>m_request_data := seen_req fill meta (ws_req_pos masked meta) (m_request_data m2)\<rparr>,
          length h + WebSocketProtocol_get_meta_size meta)"
    using read_req_wire [of "h4 @ wire_type meta" "length h + 2 + type_size (m_option meta)" m2 meta fill
        "ws_req_pos masked meta" payload]
    by (simp add: bs h4_def m2_def m1_def WebSocketProtocol_get_meta_size_def)
  have len: "length ?bs = length h + WebSocketProtocol_get_meta_size meta + length payload"
    unfolding bs by (simp add: h4_def WebSocketProtocol_get_meta_size_def)
  have ge: "2 \<le> WebSocketProtocol_get_meta_size meta" by (simp add: WebSocketProtocol_get_meta_size_def)
  have "WebSocketProtocol_decode meta0 (ws_wire_frame masked ?body) =
      Ok (m2\<lparr>m_request_data := seen_req fill meta (ws_req_pos masked meta) (m_request_data m2)\<rparr>, ?bs,
          length h + WebSocketProtocol_get_meta_size meta, of_nat (length payload))"
    using ge len s2 s3 bytes
    by (simp add: WebSocketProtocol_decode_def dec Let_def low_byte_def [symmetric] m1_def [symmetric] msize)
  moreover have "m2\<lparr>m_request_data := seen_req fill meta (ws_req_pos masked meta) (m_request_data m2)\<rparr> =
      ws_received_meta fill masked meta0 meta"
    by (simp add: m2_def m1_def ws_received_meta_def)
  moreover have "drop (length h + WebSocketProtocol_get_meta_size meta) ?bs = payload"
    unfolding bs by (simp add: h4_def WebSocketProtocol_get_meta_size_def)
  ultimately show ?thesis by auto
qed

lemma lt_128_iff: "(x :: u16) < 128 \<longleftrightarrow> (\<forall>n. bit x n \<longrightarrow> n < 7)"
proof
  assume "x < 128"
  then have "x AND mask 7 = x" by (intro less_mask_eq) simp
  then show "\<forall>n. bit x n \<longrightarrow> n < 7" by (metis bit_and_iff bit_mask_iff)
next
  assume "\<forall>n. bit x n \<longrightarrow> n < 7"
  then have "x = x AND mask 7" by (intro bit_word_eqI) (auto simp: bit_simps)
  also have "\<dots> < 2 ^ 7" by (intro and_mask_less_size) (simp add: word_size)
  finally show "x < 128" by simp
qed

lemma set_encrypted_small:
  assumes "(c :: MessageCategory) < 128"
  shows "eco_set c category_encrypted is < 128"
proof -
  have "bit (16 :: u16) n \<longleftrightarrow> n = 4" for n
    using bit_exp_iff [of 4 n, where 'a = u16] by (cases "n = 4") auto
  with assms show ?thesis
    unfolding lt_128_iff by (auto simp: eco_set_def category_encrypted_def bit_simps)
qed

section \<open>Properties\<close>


text \<open>
  A payload of more than 65535 bytes cannot be received. The encoder announces it in the eight byte
  form, but the broken 64 bit conversion puts the length in the upper half of the field, so
  the decoder rejects the whole frame; and a peer never gets that far, because the four bytes
  it reads first are too short for the eight byte form.
\<close>

theorem WebSocket_large_frame_rejected:
  assumes "ws_pre_encode_append [] category = Ok pre"
    and "65535 < length body" and "length body < 2 ^ 32 - 14"
  shows "\<exists>bs. ws_encode_mask (pre @ body) category = Ok (bs, 0)
    \<and> ws_decode bs = Err (- 1) \<and> ws_decode_data_size (take 4 bs) 4 = Err (- 1)"
proof -
  let ?enc = "eco_has category category_encrypted"
  let ?n = "of_nat (length body) :: u32"
  have pre': "pre = [0x82, 0, 0, 0, 0, 0, 0, 0, 0, 0] @ (if ?enc then [0, 0, 0, 0] else [])"
    using assms(1) ws_pre_encode [of category] by simp
  have sz: "(of_nat (length (pre @ body)) - of_nat (ws_head_size category) :: u32) = ?n"
    by (simp add: pre' ws_head_size_def ws_size_defs)
  have un: "unat ?n = length body"
    using assms(3) by (intro unat_of_nat_u32) simp
  have big: "\<not> ?n < 126" "\<not> ?n \<le> 0xFFFF"
    using un assms(2) by (simp_all add: word_less_nat_alt word_le_nat_alt)
  define bs where "bs = [0x82, if ?enc then 0xFF else 0x7F] @ be32_bytes ?n @ [0, 0, 0, 0]
    @ (if ?enc then eco_masking_key @ xor_key eco_masking_key body else body)"
  have enc: "ws_encode_mask (pre @ body) category = Ok (bs, 0)"
    unfolding ws_encode_mask_def Let_def sz unfolding pre' bs_def
    using big by (simp add: ws_size_defs hton64_def hton32_pos_def hton32_def memcpy_at_def wr_def rd_def
        eco_masking_key_bytes mask_data_def be32_bytes_def ucast_ucast_id Let_def)
  have v: "ntoh64 bs 2 = Ok (push_bit 32 (ucast ?n))"
    unfolding bs_def using ntoh64_half [of ?n 0 0 0 0]
    by (simp add: ntoh_skip(3) [of "[_, _]", simplified] be32_def)
  have high: "drop_bit 32 (push_bit 32 (ucast ?n) :: u64) = ucast ?n"
    using high_half [of ?n 0] by simp
  have nz: "?n \<noteq> 0"
    using un assms(2) by auto
  have "0 < (ucast ?n :: u64)"
    using nz ucast_ucast_id [of ?n, where 'b = 64] by (auto simp: word_gt_0)
  moreover have b01: "rds bs 0 = Ok 0x82" "rds bs (Suc 0) = Ok (if ?enc then 0xFF else 0x7F)"
    by (simp_all add: bs_def rds_def rd_def)
  ultimately have head: "ws_decode_head bs siz 0 = Err (- 1)" for siz
    using v high b01 by (simp add: ws_decode_head_def Let_def get_payload_len_size_def
        numeral_2_eq_2 [symmetric])
  moreover have "ws_decode_head (take 4 bs) 4 0 = Err (- 1)"
    by (simp add: ws_decode_head_def rds_def rd_def bs_def Let_def get_payload_len_size_def)
  ultimately show ?thesis
    using enc by (simp add: ws_decode_def ws_decode_data_size_def)
qed

definition ws_sample :: MessageMeta where
  "ws_sample = MessageMeta_msg (StringCodec [104, 105]) 0 258 False"

lemma ws_sample_fields:
  "m_codec ws_sample = Some (StringCodec [104, 105])" "m_category ws_sample = 1" "m_model ws_sample = 0"
  "m_option ws_sample = 2" "m_message_type ws_sample = 258" "m_request_data ws_sample = 0"
  by (simp_all add: ws_sample_def MessageMeta_msg_def MessageMeta_new_def set_message_type_def
      set_session_id_def eco_add_def eco_set_def option_defs none_session_def category_defs)


theorem WebSocket_large_frame_rejected_witness:
  "\<exists>bs. ws_encode_mask ([0x82, 0, 0, 0, 0, 0, 0, 0, 0, 0] @ replicate 65536 7) (ucast category_message) = Ok (bs, 0)
    \<and> ws_decode bs = Err (- 1) \<and> ws_decode_data_size (take 4 bs) 4 = Err (- 1)"
proof (rule WebSocket_large_frame_rejected)
  show "ws_pre_encode_append [] (ucast category_message) = Ok [0x82, 0, 0, 0, 0, 0, 0, 0, 0, 0]"
    by (simp add: ws_pre_encode category_defs eco_has_def)
qed simp_all

end
