(* ===== verification/Eco_Base64.thy ===== *)
theory Eco_Base64
  imports Eco_Prelude
begin

text \<open>
  Base64 of \<open>src/project/eco/codec/base64.cpp\<close>, used by the WebSocket handshake. The loops keep
  up to three (encoding) or four (decoding) pending bytes in a fixed array; here the array is
  the list of the bytes pending so far.
\<close>

section \<open>Definitions\<close>

definition base64_chars :: bytes where
  "base64_chars =
     lit ''ABCDEFGHIJKLMNOPQRSTUVWXYZabcdefghijklmnopqrstuvwxyz0123456789+/''"

definition isalnum :: "byte \<Rightarrow> bool" where
  "isalnum c \<longleftrightarrow> (48 \<le> c \<and> c \<le> 57) \<or> (65 \<le> c \<and> c \<le> 90) \<or> (97 \<le> c \<and> c \<le> 122)"

definition is_base64 :: "byte \<Rightarrow> bool" where
  "is_base64 c \<longleftrightarrow> isalnum c \<or> c = 43 \<or> c = 47"

text \<open>The four 6 bit groups of three bytes.\<close>

definition enc_quad :: "byte \<Rightarrow> byte \<Rightarrow> byte \<Rightarrow> bytes" where
  "enc_quad a b c =
     [drop_bit 2 (a AND 0xfc),
      push_bit 4 (a AND 0x03) + drop_bit 4 (b AND 0xf0),
      push_bit 2 (b AND 0x0f) + drop_bit 6 (c AND 0xc0),
      c AND 0x3f]"

definition enc_char :: "byte \<Rightarrow> byte" where
  "enc_char v = base64_chars ! unat v"

definition enc_tail :: "bytes \<Rightarrow> bytes" where
  "enc_tail buf =
     (let i = length buf;
          arr = buf @ replicate (3 - i) 0;
          quad = enc_quad (arr ! 0) (arr ! 1) (arr ! 2)
      in if i = 0 then [] else map enc_char (take (i + 1) quad) @ replicate (3 - i) 61)"

fun enc_loop :: "bytes \<Rightarrow> bytes \<Rightarrow> bytes" where
  "enc_loop buf [] = enc_tail buf"
| "enc_loop buf (x # xs) =
     (let buf' = buf @ [x] in
      if length buf' = 3
      then map enc_char (enc_quad (buf' ! 0) (buf' ! 1) (buf' ! 2)) @ enc_loop [] xs
      else enc_loop buf' xs)"

definition base64_encode :: "bytes \<Rightarrow> bytes" where
  "base64_encode xs = enc_loop [] xs"

text \<open>\<open>std::string::find\<close> returns \<open>npos\<close> for a missing character; its low byte is 255.\<close>

fun index_from :: "nat \<Rightarrow> byte \<Rightarrow> bytes \<Rightarrow> nat option" where
  "index_from i c [] = None"
| "index_from i c (x # xs) = (if x = c then Some i else index_from (Suc i) c xs)"

definition dec_char :: "byte \<Rightarrow> byte" where
  "dec_char c = (case index_from 0 c base64_chars of Some i \<Rightarrow> of_nat i | None \<Rightarrow> 255)"

definition dec_triple :: "byte \<Rightarrow> byte \<Rightarrow> byte \<Rightarrow> byte \<Rightarrow> bytes" where
  "dec_triple p q r s =
     [push_bit 2 p + drop_bit 4 (q AND 0x30),
      push_bit 4 (q AND 0xf) + drop_bit 2 (r AND 0x3c),
      push_bit 6 (r AND 0x3) + s]"

definition dec_tail :: "bytes \<Rightarrow> bytes" where
  "dec_tail buf =
     (let i = length buf;
          arr = map dec_char (buf @ replicate (4 - i) 0)
      in if i = 0 then []
         else take (i - 1) (dec_triple (arr ! 0) (arr ! 1) (arr ! 2) (arr ! 3)))"

fun dec_loop :: "bytes \<Rightarrow> bytes \<Rightarrow> bytes" where
  "dec_loop buf [] = dec_tail buf"
| "dec_loop buf (x # xs) =
     (if x \<noteq> 61 \<and> is_base64 x then
        let buf' = buf @ [x] in
        if length buf' = 4
        then (let arr = map dec_char buf'
              in dec_triple (arr ! 0) (arr ! 1) (arr ! 2) (arr ! 3)) @ dec_loop [] xs
        else dec_loop buf' xs
      else dec_tail buf)"

definition base64_decode :: "bytes \<Rightarrow> bytes" where
  "base64_decode xs = dec_loop [] xs"

section \<open>Characters\<close>

lemma base64_chars_bytes:
  "base64_chars = [65, 66, 67, 68, 69, 70, 71, 72, 73, 74, 75, 76, 77, 78, 79, 80, 81, 82, 83, 84, 85, 86,
     87, 88, 89, 90, 97, 98, 99, 100, 101, 102, 103, 104, 105, 106, 107, 108, 109, 110, 111,
     112, 113, 114, 115, 116, 117, 118, 119, 120, 121, 122, 48, 49, 50, 51, 52, 53, 54, 55, 56,
     57, 43, 47]"
  by (simp add: base64_chars_def lit_def of_char_def)

lemma base64_chars_distinct: "distinct base64_chars"
  unfolding base64_chars_bytes by simp

lemma base64_chars_valid: "\<forall>c \<in> set base64_chars. is_base64 c \<and> c \<noteq> 61"
  unfolding base64_chars_bytes by (simp add: is_base64_def isalnum_def)

lemma length_base64_chars: "length base64_chars = 64"
  unfolding base64_chars_bytes by simp

lemma index_from_nth: "distinct xs \<Longrightarrow> k < length xs \<Longrightarrow> index_from i (xs ! k) xs = Some (i + k)"
proof (induction xs arbitrary: i k)
  case (Cons x xs)
  then show ?case by (cases k) (auto simp: nth_mem)
qed simp

lemma enc_char_table:
  assumes "v < (64 :: byte)"
  shows "dec_char (enc_char v) = v" "is_base64 (enc_char v)" "enc_char v \<noteq> 61"
proof -
  have v: "unat v < length base64_chars"
    using assms by (simp add: word_less_nat_alt length_base64_chars)
  show "dec_char (enc_char v) = v"
    using index_from_nth [OF base64_chars_distinct v, of 0] by (simp add: dec_char_def enc_char_def)
  show "is_base64 (enc_char v)" "enc_char v \<noteq> 61"
    using base64_chars_valid nth_mem [OF v] by (simp_all add: enc_char_def)
qed

section \<open>Bits\<close>

lemma add_or: "x AND y = 0 \<Longrightarrow> x + y = (x OR y :: byte)"
  by (metis disjunctive_add bit_and_iff bit_0_eq bot_apply bot_bool_def)

lemma lt_64_iff: "(x :: byte) < 64 \<longleftrightarrow> x AND 0x3f = x"
proof -
  have "x < 64 \<longleftrightarrow> x AND mask 6 = x"
    using less_mask_eq [of x 6] and_mask_less_size [of 6 x] by (auto simp: word_size)
  then show ?thesis by (simp add: mask_eq_exp_minus_1)
qed


lemma lt_8_cases: "(n :: nat) < 8 \<Longrightarrow> n = 0 \<or> n = 1 \<or> n = 2 \<or> n = 3 \<or> n = 4 \<or> n = 5 \<or> n = 6 \<or> n = 7"
  by arith

lemma quad_or:
  "push_bit 4 (a AND 0x03) + drop_bit 4 (b AND 0xf0) = (push_bit 4 (a AND 0x03) OR drop_bit 4 (b AND 0xf0) :: byte)"
  "push_bit 2 (b AND 0x0f) + drop_bit 6 (c AND 0xc0) = (push_bit 2 (b AND 0x0f) OR drop_bit 6 (c AND 0xc0) :: byte)"
  by (rule add_or, rule bit_word_eqI, auto simp: bit_simps dest!: lt_8_cases)+

lemma enc_quad_or:
  "enc_quad a b c =
     [drop_bit 2 (a AND 0xfc), push_bit 4 (a AND 0x03) OR drop_bit 4 (b AND 0xf0),
      push_bit 2 (b AND 0x0f) OR drop_bit 6 (c AND 0xc0), c AND 0x3f]"
  by (simp only: enc_quad_def quad_or)

lemma enc_quad_small: "\<forall>v \<in> set (enc_quad a b c). v < 64"
  by (auto simp: enc_quad_or lt_64_iff intro!: bit_word_eqI dest!: lt_8_cases) (auto simp: bit_simps)

lemma dec_triple_or:
  assumes "s < 64"
  shows "dec_triple p q r s =
     [push_bit 2 p OR drop_bit 4 (q AND 0x30), push_bit 4 (q AND 0xf) OR drop_bit 2 (r AND 0x3c),
      push_bit 6 (r AND 0x3) OR s]"
proof -
  have 1: "push_bit 2 p + drop_bit 4 (q AND 0x30) = push_bit 2 p OR drop_bit 4 (q AND 0x30)"
    by (rule add_or, rule bit_word_eqI, auto simp: bit_simps dest!: lt_8_cases)
  have 2: "push_bit 4 (q AND 0xf) + drop_bit 2 (r AND 0x3c) = push_bit 4 (q AND 0xf) OR drop_bit 2 (r AND 0x3c)"
    by (rule add_or, rule bit_word_eqI, auto simp: bit_simps dest!: lt_8_cases)
  have s: "s AND 0x3f = s" using assms unfolding lt_64_iff .
  have "push_bit 6 (r AND 0x3) AND (s AND 0x3f) = 0"
    by (rule bit_word_eqI) (auto simp: bit_simps dest!: lt_8_cases)
  then have 3: "push_bit 6 (r AND 0x3) + s = push_bit 6 (r AND 0x3) OR s"
    unfolding s by (rule add_or)
  show ?thesis by (simp only: dec_triple_def 1 2 3)
qed

lemma dec_enc_quad:
  "dec_triple (enc_quad a b c ! 0) (enc_quad a b c ! 1) (enc_quad a b c ! 2) (enc_quad a b c ! 3) = [a, b, c]"
proof -
  have "enc_quad a b c ! 3 < 64"
    using enc_quad_small [of a b c] by (simp add: enc_quad_def)
  then show ?thesis
    by (simp add: dec_triple_or) (auto simp: enc_quad_or bit_simps numeral_2_eq_2 [symmetric]
        numeral_3_eq_3 [symmetric] intro!: bit_word_eqI dest!: lt_8_cases)
qed

section \<open>The loops\<close>

lemma dec_loop_quad:
  assumes "\<forall>v \<in> {p, q, r, s}. v < 64"
  shows "dec_loop [] (map enc_char [p, q, r, s] @ rest) = dec_triple p q r s @ dec_loop [] rest"
  using assms by (simp add: enc_char_table Let_def)

lemma dec_tail_quad:
  assumes "v < 64" "w < 64"
  shows "dec_tail (map enc_char [v, w]) = take 1 (dec_triple v w 255 255)"
    "x < 64 \<Longrightarrow> dec_tail (map enc_char [v, w, x]) = take 2 (dec_triple v w x 255)"
proof -
  have "dec_char 0 = 255" by (simp add: dec_char_def base64_chars_bytes)
  then show "dec_tail (map enc_char [v, w]) = take 1 (dec_triple v w 255 255)"
    "x < 64 \<Longrightarrow> dec_tail (map enc_char [v, w, x]) = take 2 (dec_triple v w x 255)"
    using assms by (simp_all add: dec_tail_def Let_def enc_char_table dec_triple_def numeral_2_eq_2)
qed

lemma dec_enc_tail:
  assumes "length buf < 3"
  shows "dec_loop [] (enc_tail buf) = buf"
proof -
  consider "buf = []" | a where "buf = [a]" | a b where "buf = [a, b]"
    using assms by (cases buf; cases "tl buf") auto
  then show ?thesis
  proof cases
    case 1
    then show ?thesis by (simp add: enc_tail_def dec_tail_def)
  next
    case 2
    let ?q = "enc_quad a 0 0"
    have sm: "?q ! 0 < 64" "?q ! 1 < 64" using enc_quad_small [of a 0 0] by (simp_all add: enc_quad_def)
    have "dec_loop [] (enc_tail buf) = dec_tail (map enc_char [?q ! 0, ?q ! 1])"
      using sm 2 by (simp add: enc_tail_def Let_def enc_char_table enc_quad_def numeral_2_eq_2)
    also have "\<dots> = take 1 (dec_triple (?q ! 0) (?q ! 1) 255 255)"
      using sm by (rule dec_tail_quad)
    also have "\<dots> = [a]"
      using dec_enc_quad [of a 0 0] by (simp add: dec_triple_def)
    finally show ?thesis using 2 by simp
  next
    case 3
    let ?q = "enc_quad a b 0"
    have sm: "?q ! 0 < 64" "?q ! 1 < 64" "?q ! 2 < 64"
      using enc_quad_small [of a b 0] by (simp_all add: enc_quad_def)
    have "dec_loop [] (enc_tail buf) = dec_tail (map enc_char [?q ! 0, ?q ! 1, ?q ! 2])"
      using sm 3 by (simp add: enc_tail_def Let_def enc_char_table enc_quad_def numeral_2_eq_2 numeral_3_eq_3)
    also have "\<dots> = take 2 (dec_triple (?q ! 0) (?q ! 1) (?q ! 2) 255)"
      using sm by (intro dec_tail_quad)
    also have "\<dots> = [a, b]"
      using dec_enc_quad [of a b 0] by (simp add: dec_triple_def numeral_2_eq_2)
    finally show ?thesis using 3 by simp
  qed
qed

lemma dec_enc_loop: "length buf < 3 \<Longrightarrow> dec_loop [] (enc_loop buf xs) = buf @ xs"
proof (induction buf xs rule: enc_loop.induct)
  case (1 buf)
  then show ?case by (simp add: dec_enc_tail)
next
  case (2 buf x xs)
  show ?case
  proof (cases "length buf = 2")
    case True
    then obtain a b where ab: "buf = [a, b]"
      by (cases buf; cases "tl buf") auto
    let ?q = "enc_quad a b x"
    have q: "map enc_char ?q = map enc_char [?q ! 0, ?q ! 1, ?q ! 2, ?q ! 3]"
      by (simp add: enc_quad_def)
    have "enc_loop buf (x # xs) = map enc_char [?q ! 0, ?q ! 1, ?q ! 2, ?q ! 3] @ enc_loop [] xs"
      unfolding q [symmetric] ab by simp
    moreover have "\<forall>v \<in> {?q ! 0, ?q ! 1, ?q ! 2, ?q ! 3}. v < 64"
      using enc_quad_small [of a b x] by (simp add: enc_quad_def)
    ultimately have "dec_loop [] (enc_loop buf (x # xs)) = [a, b, x] @ dec_loop [] (enc_loop [] xs)"
      by (simp only: dec_loop_quad dec_enc_quad)
    moreover have "dec_loop [] (enc_loop [] xs) = xs"
      using 2(1) True by simp
    ultimately show ?thesis using ab by simp
  next
    case False
    then show ?thesis using 2 by simp
  qed
qed

section \<open>Properties\<close>

text \<open>
  Claim C34. Decoding an encoded byte sequence returns it, for every sequence and every length, the
  two padded cases included.
\<close>

theorem base64_roundtrip: "base64_decode (base64_encode xs) = xs"
  by (simp add: base64_decode_def base64_encode_def dec_enc_loop)

end
