(* ===== verification/Eco_Sha1.thy ===== *)
theory Eco_Sha1
  imports Eco_Net
begin

text \<open>
  The SHA-1 class of \<open>src/project/eco/codec/sha1.cpp\<close>, used by the WebSocket handshake: a 64 byte
  block that fills up byte by byte, a bit counter in two 32 bit words, and the chaining value.
  \<open>unsigned\<close> is 32 bits, so the masks with \<open>0xFFFFFFFF\<close> change nothing. The block is not
  initialised by the constructor; its first contents are a parameter.

  The reference \<open>sha1_digest\<close> pads the whole message and folds the compression function over
  its blocks, as the standard defines the hash. The class is shown to compute it.
\<close>

section \<open>The compression function\<close>

definition CircularShift :: "nat \<Rightarrow> u32 \<Rightarrow> u32" where
  "CircularShift bits word = push_bit bits word OR drop_bit (32 - bits) word"

type_synonym sha_regs = "u32 \<times> u32 \<times> u32 \<times> u32 \<times> u32"

definition sha_words :: "bytes \<Rightarrow> u32 list" where
  "sha_words block =
     map (\<lambda>t. be32 (block ! (t * 4)) (block ! (t * 4 + 1)) (block ! (t * 4 + 2)) (block ! (t * 4 + 3))) [0..<16]"

fun sha_expand :: "nat \<Rightarrow> u32 list \<Rightarrow> u32 list" where
  "sha_expand 0 W = W"
| "sha_expand (Suc n) W =
     (let t = length W
      in sha_expand n (W @ [CircularShift 1 (W ! (t - 3) XOR W ! (t - 8) XOR W ! (t - 14) XOR W ! (t - 16))]))"

definition sha_round :: "(u32 \<Rightarrow> u32 \<Rightarrow> u32 \<Rightarrow> u32) \<Rightarrow> u32 \<Rightarrow> sha_regs \<Rightarrow> u32 \<Rightarrow> sha_regs" where
  "sha_round f k = (\<lambda>(A, B, C, D, E) w.
     (CircularShift 5 A + f B C D + E + w + k, A, CircularShift 30 B, C, D))"

definition sha_block :: "u32 list \<Rightarrow> bytes \<Rightarrow> u32 list" where
  "sha_block H block =
     (let W = sha_expand 64 (sha_words block);
          r0 = (H ! 0, H ! 1, H ! 2, H ! 3, H ! 4);
          r1 = foldl (sha_round (\<lambda>B C D. (B AND C) OR (NOT B AND D)) 0x5A827999) r0 (take 20 W);
          r2 = foldl (sha_round (\<lambda>B C D. B XOR C XOR D) 0x6ED9EBA1) r1 (take 20 (drop 20 W));
          r3 = foldl (sha_round (\<lambda>B C D. (B AND C) OR (B AND D) OR (C AND D)) 0x8F1BBCDC) r2
                 (take 20 (drop 40 W));
          (A, B, C, D, E) = foldl (sha_round (\<lambda>B C D. B XOR C XOR D) 0xCA62C1D6) r3 (take 20 (drop 60 W))
      in [H ! 0 + A, H ! 1 + B, H ! 2 + C, H ! 3 + D, H ! 4 + E])"

section \<open>The class\<close>

record SHA1 =
  sha_H :: "u32 list"
  Length_Low :: u32
  Length_High :: u32
  Message_Block :: bytes
  Message_Block_Index :: nat
  sha_Computed :: bool
  sha_Corrupted :: bool

definition sha_init :: "u32 list" where
  "sha_init = [0x67452301, 0xEFCDAB89, 0x98BADCFE, 0x10325476, 0xC3D2E1F0]"

definition SHA1_Reset :: "SHA1 \<Rightarrow> SHA1" where
  "SHA1_Reset s =
     s\<lparr>Length_Low := 0, Length_High := 0, Message_Block_Index := 0, sha_H := sha_init,
       sha_Computed := False, sha_Corrupted := False\<rparr>"

definition SHA1_new :: "bytes \<Rightarrow> SHA1" where
  "SHA1_new block =
     SHA1_Reset \<lparr>sha_H = [], Length_Low = 0, Length_High = 0, Message_Block = block,
                 Message_Block_Index = 0, sha_Computed = False, sha_Corrupted = False\<rparr>"

definition ProcessMessageBlock :: "SHA1 \<Rightarrow> SHA1" where
  "ProcessMessageBlock s =
     s\<lparr>sha_H := sha_block (sha_H s) (Message_Block s), Message_Block_Index := 0\<rparr>"

text \<open>\<open>Message_Block[Message_Block_Index++] = b\<close>; the index is below 64 whenever this runs.\<close>

definition put_byte :: "SHA1 \<Rightarrow> byte \<Rightarrow> SHA1" where
  "put_byte s b =
     s\<lparr>Message_Block := (Message_Block s)[Message_Block_Index s := b],
       Message_Block_Index := Message_Block_Index s + 1\<rparr>"

definition count_byte :: "SHA1 \<Rightarrow> SHA1" where
  "count_byte s =
     (let s1 = s\<lparr>Length_Low := Length_Low s + 8\<rparr>
      in if Length_Low s1 = 0
         then let s2 = s1\<lparr>Length_High := Length_High s1 + 1\<rparr>
              in if Length_High s2 = 0 then s2\<lparr>sha_Corrupted := True\<rparr> else s2
         else s1)"

fun input_loop :: "SHA1 \<Rightarrow> bytes \<Rightarrow> SHA1" where
  "input_loop s [] = s"
| "input_loop s (b # bs) =
     (if sha_Corrupted s then s
      else let s1 = count_byte (put_byte s b);
               s2 = (if Message_Block_Index s1 = 64 then ProcessMessageBlock s1 else s1)
           in input_loop s2 bs)"

definition SHA1_Input :: "SHA1 \<Rightarrow> bytes \<Rightarrow> SHA1" where
  "SHA1_Input s bs =
     (if bs = [] then s
      else if sha_Computed s \<or> sha_Corrupted s then s\<lparr>sha_Corrupted := True\<rparr>
      else input_loop s bs)"

definition SHA1_Input_char :: "SHA1 \<Rightarrow> byte \<Rightarrow> SHA1" where
  "SHA1_Input_char s c = SHA1_Input s [c]"

text \<open>\<open>operator<<\<close> feeds the characters up to the terminator.\<close>

fun SHA1_feed :: "SHA1 \<Rightarrow> bytes \<Rightarrow> SHA1 outcome" where
  "SHA1_feed s [] = UB"
| "SHA1_feed s (c # cs) = (if c = 0 then Ok s else SHA1_feed (SHA1_Input_char s c) cs)"

definition zero_until :: "nat \<Rightarrow> SHA1 \<Rightarrow> SHA1" where
  "zero_until n s = fold (\<lambda>_ t. put_byte t 0) [Message_Block_Index s..<n] s"

definition put_length :: "SHA1 \<Rightarrow> SHA1" where
  "put_length s =
     s\<lparr>Message_Block := take 56 (Message_Block s) @ be32_bytes (Length_High s) @ be32_bytes (Length_Low s)\<rparr>"

definition PadMessage :: "SHA1 \<Rightarrow> SHA1" where
  "PadMessage s =
     (let s1 = (if Message_Block_Index s > 55
                then zero_until 56 (ProcessMessageBlock (zero_until 64 (put_byte s 0x80)))
                else zero_until 56 (put_byte s 0x80))
      in ProcessMessageBlock (put_length s1))"

definition SHA1_Result :: "SHA1 \<Rightarrow> SHA1 \<times> u32 list option" where
  "SHA1_Result s =
     (if sha_Corrupted s then (s, None)
      else let s1 = (if sha_Computed s then s else (PadMessage s)\<lparr>sha_Computed := True\<rparr>)
           in (s1, Some (take 5 (sha_H s1))))"

section \<open>The reference\<close>

definition sha_padding :: "nat \<Rightarrow> bytes" where
  "sha_padding n =
     0x80 # replicate (if n mod 64 \<le> 55 then 55 - n mod 64 else 119 - n mod 64) 0
       @ be32_bytes (of_nat (8 * n div 2 ^ 32)) @ be32_bytes (of_nat (8 * n))"

fun sha_blocks :: "bytes \<Rightarrow> bytes list" where
  "sha_blocks xs = (if length xs < 64 then [] else take 64 xs # sha_blocks (drop 64 xs))"

declare sha_blocks.simps [simp del]

definition sha1_digest :: "bytes \<Rightarrow> u32 list" where
  "sha1_digest msg = foldl sha_block sha_init (sha_blocks (msg @ sha_padding (length msg)))"

section \<open>Facts\<close>

lemma sha_blocks_concat:
  "\<forall>b \<in> set bs. length b = 64 \<Longrightarrow> length r < 64 \<Longrightarrow> sha_blocks (concat bs @ r) = bs"
  by (induction bs) (auto simp: sha_blocks.simps)

lemma length_sha_block [simp]: "length (sha_block H block) = 5"
  by (simp add: sha_block_def Let_def split: prod.splits)

text \<open>
  What the object has absorbed: \<open>bs\<close> are the complete blocks, \<open>r\<close> is the start of the next one.
\<close>

definition absorbed :: "SHA1 \<Rightarrow> bytes list \<Rightarrow> bytes \<Rightarrow> bool" where
  "absorbed s bs r \<longleftrightarrow>
     length (Message_Block s) = 64 \<and> length r < 64 \<and> (\<forall>b \<in> set bs. length b = 64)
     \<and> Message_Block_Index s = length r \<and> take (length r) (Message_Block s) = r
     \<and> sha_H s = foldl sha_block sha_init bs
     \<and> \<not> sha_Computed s \<and> \<not> sha_Corrupted s
     \<and> unat (Length_High s) * 4294967296 + unat (Length_Low s) = 8 * length (concat bs @ r)"

lemma absorbed_new: "length block = 64 \<Longrightarrow> absorbed (SHA1_new block) [] []"
  by (simp add: absorbed_def SHA1_new_def SHA1_Reset_def)

lemma count_byte_spec:
  assumes c: "unat (Length_High s) * 4294967296 + unat (Length_Low s) = 8 * n" and n: "n < 2 ^ 61 - 1"
  shows "\<exists>h l. count_byte s = s\<lparr>Length_Low := l, Length_High := h\<rparr> \<and> unat h * 4294967296 + unat l = 8 * Suc n"
proof -
  let ?l = "unat (Length_Low s)" and ?h = "unat (Length_High s)"
  have bounds: "?l < 4294967296" "?h < 4294967296"
    using unsigned_less [of "Length_Low s"] unsigned_less [of "Length_High s"] by simp_all
  have l8: "unat (Length_Low s + 8) = (?l + 8) mod 4294967296"
    by (simp add: unat_word_ariths)
  have h1: "unat (Length_High s + 1) = (?h + 1) mod 4294967296"
    by (simp add: unat_word_ariths)
  have "8 dvd ?h * 4294967296 + ?l" unfolding c by simp
  moreover have "8 dvd ?h * 4294967296" by (intro dvd_mult) simp
  ultimately have "8 dvd ?l" by (simp only: dvd_add_right_iff)
  then obtain k where k: "?l = 8 * k" by blast
  show ?thesis
  proof (cases "?l = 4294967288")
    case True
    have "Length_Low s + 8 = 0" using l8 True by (simp add: unat_eq_0 [symmetric])
    moreover have hh: "?h + 1 < 4294967296" using c n True by simp
    moreover have "Length_High s + 1 \<noteq> 0" using h1 hh by (auto simp: unat_eq_0 [symmetric])
    ultimately have "count_byte s = s\<lparr>Length_Low := 0, Length_High := Length_High s + 1\<rparr>"
      by (simp add: count_byte_def Let_def)
    moreover have "unat (Length_High s + 1) * 4294967296 + unat (0 :: u32) = 8 * Suc n"
      using c True h1 hh by simp
    ultimately show ?thesis by blast
  next
    case False
    have "k < 536870912" "k \<noteq> 536870911" using bounds False k by auto
    then have lt: "?l + 8 < 4294967296" using k by simp
    then have "Length_Low s + 8 \<noteq> 0" using l8 by (auto simp: unat_eq_0 [symmetric])
    then have "count_byte s = s\<lparr>Length_Low := Length_Low s + 8, Length_High := Length_High s\<rparr>"
      by (simp add: count_byte_def Let_def)
    moreover have "?h * 4294967296 + unat (Length_Low s + 8) = 8 * Suc n"
      using c l8 lt by simp
    ultimately show ?thesis by blast
  qed
qed

lemma take_Suc_update: "length r < length xs \<Longrightarrow> take (length r) xs = r \<Longrightarrow>
    take (Suc (length r)) (xs[length r := b]) = r @ [b]"
  by (simp add: take_Suc_conv_app_nth)

lemma absorbed_byte:
  fixes s :: SHA1 and b :: byte
  assumes ab: "absorbed s bs r" and n: "length (concat bs @ r) < 2 ^ 61 - 1"
  defines "s1 \<equiv> count_byte (put_byte s b)"
  defines "s2 \<equiv> (if Message_Block_Index s1 = 64 then ProcessMessageBlock s1 else s1)"
  shows "if length r = 63 then absorbed s2 (bs @ [r @ [b]]) [] else absorbed s2 bs (r @ [b])"
proof -
  have cnt: "unat (Length_High (put_byte s b)) * 4294967296 + unat (Length_Low (put_byte s b)) =
      8 * length (concat bs @ r)"
    using ab by (simp add: absorbed_def put_byte_def)
  obtain h l where s1: "s1 = (put_byte s b)\<lparr>Length_Low := l, Length_High := h\<rparr>"
    and hl: "unat h * 4294967296 + unat l = 8 * Suc (length (concat bs @ r))"
    using count_byte_spec [OF cnt n] unfolding s1_def by blast
  have tk: "take (Suc (length r)) ((Message_Block s)[length r := b]) = r @ [b]"
    using ab by (intro take_Suc_update) (simp_all add: absorbed_def)
  show ?thesis
  proof (cases "length r = 63")
    case True
    have blk: "(Message_Block s)[length r := b] = r @ [b]"
      using tk True ab by (simp add: absorbed_def)
    then show ?thesis
      using ab hl True by (simp add: absorbed_def s2_def s1 ProcessMessageBlock_def put_byte_def)
  next
    case False
    then show ?thesis
      using ab hl tk by (auto simp: absorbed_def s2_def s1 put_byte_def)
  qed
qed

lemma absorbed_input:
  "absorbed s bs r \<Longrightarrow> length (concat bs @ r) + length xs < 2 ^ 61 \<Longrightarrow>
     \<exists>bs' r'. absorbed (input_loop s xs) bs' r' \<and> concat bs' @ r' = concat bs @ r @ xs"
proof (induction xs arbitrary: s bs r)
  case Nil
  then show ?case by auto
next
  case (Cons x xs)
  define s1 where "s1 = count_byte (put_byte s x)"
  define s2 where "s2 = (if Message_Block_Index s1 = 64 then ProcessMessageBlock s1 else s1)"
  have step: "input_loop s (x # xs) = input_loop s2 xs"
    using Cons.prems(1) by (simp add: s1_def s2_def absorbed_def Let_def)
  have ab: "if length r = 63 then absorbed s2 (bs @ [r @ [x]]) [] else absorbed s2 bs (r @ [x])"
    unfolding s2_def s1_def using Cons.prems by (intro absorbed_byte) auto
  show ?case
  proof (cases "length r = 63")
    case True
    then show ?thesis using ab Cons.IH [of s2 "bs @ [r @ [x]]" "[]"] Cons.prems(2) step by auto
  next
    case False
    then show ?thesis using ab Cons.IH [of s2 bs "r @ [x]"] Cons.prems(2) step by auto
  qed
qed

lemma absorbed_Input:
  assumes "absorbed s bs r" and "length (concat bs @ r) + length xs < 2 ^ 61"
  shows "\<exists>bs' r'. absorbed (SHA1_Input s xs) bs' r' \<and> concat bs' @ r' = concat bs @ r @ xs"
  using assms absorbed_input [OF assms] by (cases xs) (auto simp: SHA1_Input_def absorbed_def)

section \<open>Padding\<close>

lemma put_byte_block:
  assumes "Message_Block_Index s < length (Message_Block s)"
  shows "take (Suc (Message_Block_Index s)) (Message_Block (put_byte s b)) =
      take (Message_Block_Index s) (Message_Block s) @ [b]"
    "Message_Block_Index (put_byte s b) = Suc (Message_Block_Index s)"
    "length (Message_Block (put_byte s b)) = length (Message_Block s)"
  using assms by (simp_all add: put_byte_def take_Suc_conv_app_nth)

lemma zero_until_spec:
  assumes "n \<le> length (Message_Block s)" and "Message_Block_Index s \<le> n"
  defines "i \<equiv> Message_Block_Index s"
  shows "zero_until n s = s\<lparr>Message_Block := take i (Message_Block s) @ replicate (n - i) 0 @ drop n (Message_Block s),
    Message_Block_Index := n\<rparr>"
  using assms(1,2) unfolding i_def zero_until_def
proof (induction "n - Message_Block_Index s" arbitrary: s)
  case 0
  then have "n = Message_Block_Index s" by simp
  then show ?case by simp
next
  case (Suc k)
  let ?i = "Message_Block_Index s"
  have i: "?i < n" using Suc.hyps(2) by simp
  have "fold (\<lambda>_ t. put_byte t 0) [?i..<n] s = fold (\<lambda>_ t. put_byte t 0) [Suc ?i..<n] (put_byte s 0)"
    using i by (simp add: upt_conv_Cons)
  also have "\<dots> = (put_byte s 0)\<lparr>Message_Block := take (Suc ?i) (Message_Block (put_byte s 0))
      @ replicate (n - Suc ?i) 0 @ drop n (Message_Block (put_byte s 0)), Message_Block_Index := n\<rparr>"
    using Suc.hyps(1) [of "put_byte s 0"] Suc.hyps(2) Suc.prems i by (simp add: put_byte_def)
  also have "take (Suc ?i) (Message_Block (put_byte s 0)) = take ?i (Message_Block s) @ [0]"
    using i Suc.prems by (intro put_byte_block(1)) simp
  also have "drop n (Message_Block (put_byte s 0)) = drop n (Message_Block s)"
    using i by (simp add: put_byte_def)
  also have "(take ?i (Message_Block s) @ [0]) @ replicate (n - Suc ?i) 0 @ drop n (Message_Block s) =
      take ?i (Message_Block s) @ replicate (n - ?i) 0 @ drop n (Message_Block s)"
    using i by (simp add: Suc_diff_Suc [symmetric])
  finally show ?case by (simp add: put_byte_def)
qed

lemma length_concat_64: "\<forall>b \<in> set bs. length b = 64 \<Longrightarrow> length (concat bs) = 64 * length bs"
  by (induction bs) auto

lemma length_words:
  assumes "unat (h :: u32) * 4294967296 + unat (l :: u32) = m"
  shows "of_nat (m div 2 ^ 32) = h" "of_nat m = l"
proof -
  have "unat l < 4294967296" using unsigned_less [of l] by simp
  then have "m div 2 ^ 32 = unat h" "m mod 2 ^ 32 = unat l"
    unfolding assms [symmetric] by simp_all
  then show "of_nat (m div 2 ^ 32) = h" "of_nat m = l"
    by (simp_all add: word_unat_eq_iff unat_of_nat take_bit_eq_mod)
qed

text \<open>The block under construction once the end mark has been put.\<close>

lemma put_mark:
  assumes "absorbed s bs r"
  shows "take (Suc (length r)) (Message_Block (put_byte s 0x80)) = r @ [0x80]"
    "Message_Block_Index (put_byte s 0x80) = Suc (length r)"
    "length (Message_Block (put_byte s 0x80)) = 64"
  using assms put_byte_block [of s "0x80"] by (simp_all add: absorbed_def)

lemma PadMessage_digest:
  assumes ab: "absorbed s bs r"
  defines "msg \<equiv> concat bs @ r"
  shows "sha_H (PadMessage s) = sha1_digest msg"
proof -
  let ?n = "length msg"
  have len: "unat (Length_High s) * 4294967296 + unat (Length_Low s) = 8 * ?n" and r: "length r < 64"
    and b64: "\<forall>b \<in> set bs. length b = 64" and H: "sha_H s = foldl sha_block sha_init bs"
    using ab by (simp_all add: absorbed_def msg_def)
  have mod: "?n mod 64 = length r"
    using r length_concat_64 [OF b64] by (simp add: msg_def)
  let ?len = "be32_bytes (Length_High s) @ be32_bytes (Length_Low s)"
  have tail: "be32_bytes (of_nat (8 * ?n div 2 ^ 32)) @ be32_bytes (of_nat (8 * ?n)) = ?len"
    using length_words [OF len] by simp
  have put: "Length_High (put_byte s b) = Length_High s" "Length_Low (put_byte s b) = Length_Low s"
    "sha_H (put_byte s b) = sha_H s" for b
    by (simp_all add: put_byte_def)
  show ?thesis
  proof (cases "length r \<le> 55")
    case True
    define blk where "blk = r @ [0x80] @ replicate (55 - length r) 0 @ ?len"
    have z: "zero_until 56 (put_byte s 0x80) = (put_byte s 0x80)\<lparr>Message_Block :=
        (r @ [0x80]) @ replicate (55 - length r) 0 @ drop 56 (Message_Block (put_byte s 0x80)), Message_Block_Index := 56\<rparr>"
      using zero_until_spec [of 56 "put_byte s 0x80"] put_mark [OF ab] True by simp
    have "56 - length r = Suc (55 - length r)" using True by simp
    then have "sha_H (PadMessage s) = sha_block (sha_H s) blk"
      using ab True by (simp add: PadMessage_def Let_def absorbed_def z ProcessMessageBlock_def put_length_def put blk_def)
    moreover have "sha_blocks (msg @ sha_padding ?n) = bs @ [blk]"
      using sha_blocks_concat [of "bs @ [blk]" "[]"] b64 True mod tail
      by (simp add: sha_padding_def msg_def blk_def)
    ultimately show ?thesis by (simp add: sha1_digest_def H)
  next
    case False
    define b1 where "b1 = r @ [0x80] @ replicate (63 - length r) 0"
    define b2 where "b2 = replicate 56 0 @ ?len"
    have l1: "length b1 = 64" using r by (simp add: b1_def)
    have z: "zero_until 64 (put_byte s 0x80) = (put_byte s 0x80)\<lparr>Message_Block := b1, Message_Block_Index := 64\<rparr>"
      using zero_until_spec [of 64 "put_byte s 0x80"] put_mark [OF ab] r by (simp add: b1_def)
    define t where "t = ProcessMessageBlock (zero_until 64 (put_byte s 0x80))"
    have t: "Message_Block t = b1" "Message_Block_Index t = 0" "sha_H t = sha_block (sha_H s) b1"
      "Length_High t = Length_High s" "Length_Low t = Length_Low s"
      by (simp_all add: t_def z ProcessMessageBlock_def put)
    have z2: "zero_until 56 t = t\<lparr>Message_Block := replicate 56 0 @ drop 56 b1, Message_Block_Index := 56\<rparr>"
      using zero_until_spec [of 56 t] t l1 by simp
    have "PadMessage s = ProcessMessageBlock (put_length (zero_until 56 t))"
      using ab False by (simp add: PadMessage_def Let_def absorbed_def t_def)
    then have "sha_H (PadMessage s) = sha_block (sha_block (sha_H s) b1) b2"
      by (simp add: z2 ProcessMessageBlock_def put_length_def t b2_def)
    moreover have "sha_blocks (msg @ sha_padding ?n) = bs @ [b1, b2]"
    proof -
      have e: "119 - length r = (63 - length r) + 56" using r False by simp
      have "replicate (119 - length r) (0 :: byte) = replicate (63 - length r) 0 @ replicate 56 0"
        unfolding e by (rule replicate_add)
      then have "sha_padding ?n = 0x80 # (replicate (63 - length r) 0 @ replicate 56 0) @ ?len"
        using False by (simp only: sha_padding_def mod tail if_False)
      then have "msg @ sha_padding ?n = concat (bs @ [b1, b2]) @ []"
        by (simp add: msg_def b1_def b2_def)
      then show ?thesis
        using sha_blocks_concat [of "bs @ [b1, b2]" "[]"] b64 l1 by (simp add: b2_def)
    qed
    ultimately show ?thesis by (simp add: sha1_digest_def H)
  qed
qed

lemma length_sha1_digest [simp]: "length (sha1_digest msg) = 5"
proof -
  have "length (foldl sha_block H bs) = 5" if "length H = 5" for H bs
    using that by (induction bs arbitrary: H) auto
  then show ?thesis by (simp add: sha1_digest_def sha_init_def)
qed

section \<open>Properties\<close>

text \<open>
  Claim C31. The SHA-1 object, fed with a message in two arbitrary pieces, returns the digest that the
  standard defines for their concatenation: buffering, bit counting and both padding cases
  agree with padding the whole message and folding the compression function over its blocks.
\<close>

theorem SHA1_digest_correct:
  assumes "length block = 64" and "length xs + length ys < 2 ^ 61"
  shows "\<exists>s'. SHA1_Result (SHA1_Input (SHA1_Input (SHA1_new block) xs) ys) = (s', Some (sha1_digest (xs @ ys)))
    \<and> sha_Computed s'"
proof -
  obtain bs r where 1: "absorbed (SHA1_Input (SHA1_new block) xs) bs r" "concat bs @ r = xs"
    using absorbed_Input [OF absorbed_new [OF assms(1)], of xs] assms(2) by auto
  have "length (concat bs @ r) + length ys < 2 ^ 61" using assms(2) by (simp only: 1(2))
  from absorbed_Input [OF 1(1) this] obtain bs' r' where
    2: "absorbed (SHA1_Input (SHA1_Input (SHA1_new block) xs) ys) bs' r'" "concat bs' @ r' = concat bs @ r @ ys"
    by blast
  have "concat bs' @ r' = xs @ ys" using 2(2) 1(2) by simp
  then show ?thesis
    using 2(1) PadMessage_digest [OF 2(1)] by (simp add: SHA1_Result_def absorbed_def Let_def)
qed

theorem SHA1_digest_correct_witness:
  "\<exists>s'. SHA1_Result (SHA1_Input (SHA1_Input (SHA1_new (replicate 64 7)) (lit ''ab'')) (lit ''c'')) =
     (s', Some (sha1_digest (lit ''ab'' @ lit ''c''))) \<and> sha_Computed s'"
  by (rule SHA1_digest_correct) simp_all

end
