(* ===== verification/Eco_ShakeHand.thy ===== *)
theory Eco_ShakeHand
  imports Eco_Memory Eco_Base64 Eco_Sha1
begin

text \<open>
  The WebSocket opening handshake of \<open>src/project/eco/net/protocol/WebSocketShakeHand.h\<close>. A request
  or response is a C string: the bytes from the pointer to the end of its buffer. Positions in
  it are offsets from its start. The response is built with \<open>String::append\<close>, which theory
  \<open>Eco_String\<close> relates to list concatenation.
\<close>

section \<open>Definitions\<close>

fun strchr :: "bytes \<Rightarrow> byte \<Rightarrow> nat option outcome" where
  "strchr [] c = UB"
| "strchr (b # bs) c =
     (if b = c then Ok (Some 0) else if b = 0 then Ok None
      else obind (strchr bs c) (\<lambda>r. Ok (map_option Suc r)))"

fun strcmp_eq :: "bytes \<Rightarrow> bytes \<Rightarrow> bool outcome" where
  "strcmp_eq (a # as) (b # bs) =
     (if a \<noteq> b then Ok False else if a = 0 then Ok True else strcmp_eq as bs)"
| "strcmp_eq as bs = UB"

definition WebSocketShakeHand_size :: nat where "WebSocketShakeHand_size = 1024"

definition head_end :: bytes where "head_end = [13, 10, 13, 10]"

definition magic_key :: bytes where
  "magic_key = lit ''258EAFA5-E914-47DA-95CA-C5AB0DC85B11''"

definition crlf :: bytes where "crlf = [13, 10]"

definition shake_format :: bytes where
  "shake_format =
     lit ''GET / HTTP/1.1'' @ crlf
     @ lit ''Host: 127.0.0.1:41205'' @ crlf
     @ lit ''Connection: Upgrade'' @ crlf
     @ lit ''Pragma: no-cache'' @ crlf
     @ lit ''Cache-Control: no-cache'' @ crlf
     @ lit ''Upgrade: websocket'' @ crlf
     @ lit ''Sec-WebSocket-Version: 13'' @ crlf
     @ lit ''User-Agent: Mozilla/5.0 (Windows NT 10.0; Win64; x64) AppleWebKit/537.36 (KHTML, like Gecko) Chrome/65.0.3325.146 Safari/537.36'' @ crlf
     @ lit ''Accept-Encoding: gzip, deflate, br'' @ crlf
     @ lit ''Accept-Language: zh-CN,zh;q=0.9,en;q=0.8'' @ crlf
     @ lit ''Sec-WebSocket-Key: 0A0r7tnSAYscOhMUO8tIcw=='' @ crlf
     @ lit ''Sec-WebSocket-Extensions: permessage-deflate; client_max_window_bits'' @ crlf @ crlf"

definition ws_key_name :: "bool \<Rightarrow> bytes" where
  "ws_key_name websocket_req =
     (if websocket_req then lit ''Sec-WebSocket-Key'' else lit ''Sec-WebSocket-Accept'')"

text \<open>
  The inner loop: while the line ends before the colon, go to the next line. It returns the
  start and the end of the line the colon is on.
\<close>

function skip_lines :: "bytes \<Rightarrow> nat \<Rightarrow> nat \<Rightarrow> nat \<Rightarrow> (nat \<times> nat) option outcome" where
  "skip_lines req data val_end key_end =
     (if val_end < key_end then
        obind (strchr (drop (val_end + 1) req) 10) (\<lambda>r.
          case r of None \<Rightarrow> Ok None
          | Some k \<Rightarrow> skip_lines req (val_end + 1) (val_end + 1 + k) key_end)
      else Ok (Some (data, val_end)))"
  by pat_completeness auto
termination
  by (relation "measure (\<lambda>(req, data, val_end, key_end). key_end - val_end)") auto

declare skip_lines.simps [simp del]

lemma skip_lines_bounds:
  "skip_lines req data val_end key_end = Ok (Some (data', val_end')) \<Longrightarrow> val_end \<le> val_end'"
proof (induction req data val_end key_end rule: skip_lines.induct)
  case (1 req data val_end key_end)
  have "if val_end < key_end then \<exists>k. skip_lines req (val_end + 1) (val_end + 1 + k) key_end =
      Ok (Some (data', val_end')) else val_end' = val_end"
    using "1.prems" by (subst (asm) skip_lines.simps) (auto simp: obind_eq_Ok split: if_splits option.splits)
  then show ?case
    using "1.IH" by (auto split: if_splits) (meson Suc_leD add_leD1)
qed

text \<open>
  The key of a matching line. The value starts two bytes behind the colon. An empty value
  leaves the String without a buffer, whose last byte is then read; a line that ends right behind
  the colon makes the length wrap.
\<close>

definition take_key :: "bytes \<Rightarrow> nat \<Rightarrow> nat \<Rightarrow> bool \<Rightarrow> bytes outcome" where
  "take_key req key_end val_end websocket_req =
     (if val_end \<le> key_end + 2 then UB
      else let key = take (val_end - (key_end + 2)) (drop (key_end + 2) req);
               key = (if last key = 13 then butlast key else key)
           in Ok (if websocket_req then key @ magic_key else key))"

lemma obind_cong [fundef_cong]:
  "m = m' \<Longrightarrow> (\<And>x. m' = Ok x \<Longrightarrow> f x = g x) \<Longrightarrow> obind m f = obind m' g"
  by (cases m') auto

lemma strchr_nonempty: "strchr (drop n xs) c = Ok r \<Longrightarrow> n < length xs"
  by (cases "n < length xs") auto

function parse_key_from :: "bytes \<Rightarrow> nat \<Rightarrow> bool \<Rightarrow> bytes option outcome" where
  "parse_key_from req data websocket_req =
     obind (strchr (drop data req) 58) (\<lambda>ke. obind (strchr (drop data req) 10) (\<lambda>ve.
       case ke of None \<Rightarrow> Ok None | Some ke \<Rightarrow>
       case ve of None \<Rightarrow> Ok None | Some ve \<Rightarrow>
         let key_end = data + ke in
         obind (skip_lines req data (data + ve) key_end) (\<lambda>r.
           case r of None \<Rightarrow> Ok None | Some (line, val_end) \<Rightarrow>
             obind (eco_find_n (drop line req) (key_end - line) (ws_key_name websocket_req @ [0])) (\<lambda>f.
               if f \<noteq> None
               then obind (take_key req key_end val_end websocket_req) (\<lambda>key. Ok (Some key))
               else parse_key_from req (val_end + 1) websocket_req))))"
  by pat_completeness auto

termination
  apply (relation "measure (\<lambda>(req, data, w). length req - data)")
   apply simp
  apply (auto dest!: skip_lines_bounds strchr_nonempty)
  done

declare parse_key_from.simps [simp del]

definition parse_key :: "bytes \<Rightarrow> bool \<Rightarrow> bytes option outcome" where
  "parse_key req websocket_req = parse_key_from req 0 websocket_req"

definition parse_rsp :: "bytes \<Rightarrow> bytes \<Rightarrow> bool outcome" where
  "parse_rsp req key =
     obind (parse_key req False) (\<lambda>r.
       case r of None \<Rightarrow> Ok False | Some server_key \<Rightarrow> strcmp_eq (server_key @ [0]) key)"

definition digest_bytes :: "u32 list \<Rightarrow> bytes" where
  "digest_bytes d = concat (map be32_bytes d)"

text \<open>
  \<open>parse_req\<close> returns whether it succeeded and the response it has prepared. The hash object's
  block starts with unknown contents \<open>junk\<close>; a failed hash leaves the digest array
  uninitialised.
\<close>

definition parse_req :: "bytes \<Rightarrow> bytes \<Rightarrow> bytes option outcome" where
  "parse_req junk req =
     obind (parse_key req True) (\<lambda>r.
       case r of None \<Rightarrow> Ok None
       | Some server_key \<Rightarrow>
           obind (SHA1_feed (SHA1_new junk) (server_key @ [0])) (\<lambda>sha.
             case snd (SHA1_Result sha) of
               None \<Rightarrow> UB
             | Some digest \<Rightarrow>
                 Ok (Some (lit ''HTTP/1.1 101 Switching Protocols'' @ crlf
                   @ lit ''Connection: upgrade'' @ crlf
                   @ lit ''Sec-WebSocket-Accept: '' @ base64_encode (digest_bytes digest) @ crlf
                   @ lit ''Upgrade: websocket'' @ crlf @ crlf))))"

section \<open>Scanning\<close>

lemma strchr_skip:
  "c \<notin> set xs \<Longrightarrow> 0 \<notin> set xs \<Longrightarrow>
     strchr (xs @ ys) c = obind (strchr ys c) (\<lambda>r. Ok (map_option ((+) (length xs)) r))"
proof (induction xs)
  case Nil
  show ?case by (cases "strchr ys c") (auto simp: option.map_ident id_def [symmetric] option.map_id)
next
  case (Cons x xs)
  then show ?case by (cases "strchr ys c") (auto simp: option.map_comp comp_def)
qed

lemma strchr_here: "c \<notin> set xs \<Longrightarrow> 0 \<notin> set xs \<Longrightarrow> strchr (xs @ c # ys) c = Ok (Some (length xs))"
  by (simp add: strchr_skip)

lemma strchr_total: "0 \<in> set ys \<Longrightarrow> \<exists>r. strchr ys c = Ok r"
  by (induction ys) auto

lemma find_cmp_bounded:
  "0 \<notin> set v \<Longrightarrow> length v \<le> length s \<Longrightarrow> rest \<noteq> [] \<Longrightarrow> find_cmp (s @ rest) (v @ [0]) = Ok (prefix v s)"
proof (induction v arbitrary: s)
  case Nil
  then show ?case by (cases "s @ rest") auto
next
  case (Cons a v)
  then show ?case by (cases s) auto
qed

lemma find_upto_None:
  "\<forall>j < n. find_cmp (drop (i + j) dest) v = Ok False \<Longrightarrow> find_upto dest v i n = Ok None"
proof (induction n arbitrary: i)
  case (Suc n)
  have "\<forall>j < n. find_cmp (drop (Suc i + j) dest) v = Ok False"
    using Suc.prems by (metis Suc_less_eq add_Suc_shift)
  moreover have "find_cmp (drop i dest) v = Ok False" using Suc.prems by (metis add_0_right zero_less_Suc)
  ultimately show ?case using Suc.IH by simp
qed simp

text \<open>The bounded search of a line's name part.\<close>

lemma eco_find_n_miss:
  assumes "0 \<notin> set v" and "\<not> sublist v s" and "rest \<noteq> []"
  shows "eco_find_n (s @ rest) (length s) (v @ [0]) = Ok None"
proof -
  have "find_cmp (drop j (s @ rest)) (v @ [0]) = Ok False" if "j < Suc (length s - length v)" "length v \<le> length s" for j
  proof -
    have "\<not> prefix v (drop j s)"
      using assms(2) by (metis append_take_drop_id prefix_def sublist_def)
    then show ?thesis
      using that assms find_cmp_bounded [of v "drop j s" rest] by simp
  qed
  then show ?thesis using assms(1) by (simp add: eco_find_n_def find_upto_None del: find_upto.simps)
qed

lemma eco_find_n_hit:
  assumes "0 \<notin> set v" and "rest \<noteq> []"
  shows "eco_find_n (v @ rest) (length v) (v @ [0]) = Ok (Some 0)"
  using assms find_cmp_bounded [of v v rest] by (simp add: eco_find_n_def)

section \<open>Header lines\<close>

lemma skip_done: "key_end \<le> val_end \<Longrightarrow> skip_lines req data val_end key_end = Ok (Some (data, val_end))"
  by (subst skip_lines.simps) simp

definition after_line :: "bytes \<Rightarrow> bool \<Rightarrow> nat \<Rightarrow> (nat \<times> nat) option \<Rightarrow> bytes option outcome" where
  "after_line req w key_end r =
     (case r of None \<Rightarrow> Ok None | Some (line, val_end) \<Rightarrow>
        obind (eco_find_n (drop line req) (key_end - line) (ws_key_name w @ [0])) (\<lambda>f.
          if f \<noteq> None then obind (take_key req key_end val_end w) (\<lambda>key. Ok (Some key))
          else parse_key_from req (val_end + 1) w))"

lemma parse_key_from_step:
  "strchr (drop data req) 58 = Ok (Some ke) \<Longrightarrow> strchr (drop data req) 10 = Ok (Some ve) \<Longrightarrow>
     parse_key_from req data w =
       obind (skip_lines req data (data + ve) (data + ke)) (after_line req w (data + ke))"
  by (subst parse_key_from.simps) (simp add: after_line_def [abs_def] Let_def)

lemma parse_key_from_stop:
  "strchr (drop data req) 58 = Ok ke \<Longrightarrow> strchr (drop data req) 10 = Ok ve \<Longrightarrow> ke = None \<or> ve = None \<Longrightarrow>
     parse_key_from req data w = Ok None"
  by (subst parse_key_from.simps) (auto split: option.splits)

text \<open>A line without a colon is passed over.\<close>

lemma parse_key_plain_line:
  assumes l: "58 \<notin> set l" "10 \<notin> set l" "0 \<notin> set l" and ys: "0 \<in> set ys"
  shows "parse_key_from (xs @ l @ 10 # ys) (length xs) w =
    parse_key_from (xs @ l @ 10 # ys) (length (xs @ l @ [10])) w"
proof -
  let ?req = "xs @ l @ 10 # ys"
  let ?d = "length (xs @ l @ [10])"
  have d: "drop (length xs) ?req = l @ 10 # ys" "drop ?d ?req = ys" by simp_all
  have ke: "strchr (l @ 10 # ys) 58 = obind (strchr ys 58) (\<lambda>r. Ok (map_option ((+) (Suc (length l))) r))"
    using l strchr_skip [of 58 "l @ [10]" ys] by simp
  have ve: "strchr (l @ 10 # ys) 10 = Ok (Some (length l))"
    using l strchr_here [of 10 l ys] by simp
  have skip: "skip_lines ?req (length xs) (length xs + length l) (?d + k) =
      obind (strchr ys 10) (\<lambda>r. case r of None \<Rightarrow> Ok None | Some v \<Rightarrow> skip_lines ?req ?d (?d + v) (?d + k))" for k
    by (subst skip_lines.simps) (simp cong: option.case_cong)
  obtain r1 r2 where r: "strchr ys 58 = Ok r1" "strchr ys 10 = Ok r2"
    using strchr_total [OF ys] by metis
  show ?thesis
  proof (cases r1)
    case None
    have "parse_key_from ?req (length xs) w = Ok None"
      by (rule parse_key_from_stop [of _ _ None "Some (length l)"]) (use None d ke ve r in simp_all)
    moreover have "parse_key_from ?req ?d w = Ok None"
      by (rule parse_key_from_stop [of _ _ r1 r2]) (use None d r in simp_all)
    ultimately show ?thesis by simp
  next
    case (Some k)
    have 1: "parse_key_from ?req (length xs) w =
        obind (skip_lines ?req (length xs) (length xs + length l) (length xs + (Suc (length l) + k)))
          (after_line ?req w (length xs + (Suc (length l) + k)))"
      by (rule parse_key_from_step) (use Some d ke ve r in simp_all)
    have e: "length xs + (Suc (length l) + k) = ?d + k" by simp
    show ?thesis
    proof (cases r2)
      case None
      have "parse_key_from ?req ?d w = Ok None"
        by (rule parse_key_from_stop [of _ _ r1 r2]) (use None d r in simp_all)
      then show ?thesis using None r unfolding 1 e skip by (simp add: after_line_def)
    next
      case (Some v)
      have "parse_key_from ?req ?d w = obind (skip_lines ?req ?d (?d + v) (?d + k)) (after_line ?req w (?d + k))"
        by (rule parse_key_from_step) (use Some \<open>r1 = Some k\<close> d r in simp_all)
      then show ?thesis using Some r unfolding 1 e skip by simp
    qed
  qed
qed

lemma parse_key_other_line:
  assumes n: "58 \<notin> set n" "10 \<notin> set n" "0 \<notin> set n" "\<not> sublist (ws_key_name w) n"
    and v: "10 \<notin> set v" "0 \<notin> set v"
  shows "parse_key_from (xs @ (n @ 58 # v) @ 10 # ys) (length xs) w =
    parse_key_from (xs @ (n @ 58 # v) @ 10 # ys) (length (xs @ (n @ 58 # v) @ [10])) w"
proof -
  let ?req = "xs @ (n @ 58 # v) @ 10 # ys"
  have d: "drop (length xs) ?req = n @ 58 # v @ 10 # ys" by simp
  have ke: "strchr (n @ 58 # v @ 10 # ys) 58 = Ok (Some (length n))"
    using n by (intro strchr_here)
  have ve: "strchr (n @ 58 # v @ 10 # ys) 10 = Ok (Some (length n + 1 + length v))"
    using n v strchr_here [of 10 "n @ 58 # v" ys] by simp
  have name: "0 \<notin> set (ws_key_name w)" by (simp add: ws_key_name_def lit_def of_char_def)
  have f: "eco_find_n (n @ 58 # v @ 10 # ys) (length n) (ws_key_name w @ [0]) = Ok None"
    using eco_find_n_miss [OF name n(4), of "58 # v @ 10 # ys"] by simp
  have "parse_key_from ?req (length xs) w =
      obind (skip_lines ?req (length xs) (length xs + (length n + 1 + length v)) (length xs + length n))
        (after_line ?req w (length xs + length n))"
    by (rule parse_key_from_step) (simp_all only: d ke ve)
  also have "\<dots> = after_line ?req w (length xs + length n) (Some (length xs, length xs + (length n + 1 + length v)))"
    by (simp add: skip_done)
  finally show ?thesis by (simp add: after_line_def f)
qed

section \<open>Properties\<close>

text \<open>
  A header that comes before the key: a line without a colon (the request line) or a named
  value whose name does not contain the key's name.
\<close>

definition other_header :: "bool \<Rightarrow> bytes \<Rightarrow> bool" where
  "other_header w l \<longleftrightarrow> 10 \<notin> set l \<and> 0 \<notin> set l
     \<and> \<not> (58 \<in> set l \<and> sublist (ws_key_name w) (takeWhile (\<lambda>b. b \<noteq> 58) l))"

lemma parse_key_headers:
  assumes "\<forall>l \<in> set ls. other_header w l" and "0 \<in> set ys"
  shows "parse_key_from (xs @ concat (map (\<lambda>l. l @ [10]) ls) @ ys) (length xs) w =
    parse_key_from (xs @ concat (map (\<lambda>l. l @ [10]) ls) @ ys) (length (xs @ concat (map (\<lambda>l. l @ [10]) ls))) w"
  using assms(1)
proof (induction ls arbitrary: xs)
  case (Cons l ls)
  let ?rest = "concat (map (\<lambda>l. l @ [10]) ls) @ ys"
  have "parse_key_from (xs @ l @ 10 # ?rest) (length xs) w = parse_key_from (xs @ l @ 10 # ?rest) (length (xs @ l @ [10])) w"
  proof (cases "58 \<in> set l")
    case False
    then show ?thesis using Cons.prems assms(2) by (intro parse_key_plain_line) (auto simp: other_header_def)
  next
    case True
    from split_list_first [OF this] obtain n v where lv: "l = n @ 58 # v" and n58: "58 \<notin> set n"
      by blast
    have n: "takeWhile (\<lambda>b. b \<noteq> 58) l = n"
      unfolding lv using n58 by (subst takeWhile_append2) auto
    have "\<not> sublist (ws_key_name w) n" "10 \<notin> set l" "0 \<notin> set l"
      using Cons.prems True n by (auto simp: other_header_def)
    then show ?thesis
      using n58 unfolding lv by (intro parse_key_other_line) auto
  qed
  then show ?case
    using Cons.IH [of "xs @ l @ [10]"] Cons.prems by simp
qed simp

lemma parse_key_here:
  assumes K: "K \<noteq> []" "10 \<notin> set K" "0 \<notin> set K" "last K \<noteq> 13"
  shows "parse_key_from (xs @ ws_key_name w @ lit '': '' @ K @ crlf @ rest) (length xs) w =
    Ok (Some (K @ (if w then magic_key else [])))"
proof -
  let ?n = "ws_key_name w"
  let ?req = "xs @ ?n @ lit '': '' @ K @ crlf @ rest"
  have name: "0 \<notin> set ?n" "58 \<notin> set ?n" "10 \<notin> set ?n"
    by (simp_all add: ws_key_name_def lit_def of_char_def)
  have d: "drop (length xs) ?req = ?n @ 58 # 32 # K @ 13 # 10 # rest"
    by (simp add: crlf_def lit_def of_char_def)
  have ke: "strchr (?n @ 58 # 32 # K @ 13 # 10 # rest) 58 = Ok (Some (length ?n))"
    using name by (intro strchr_here)
  have ve: "strchr (?n @ 58 # 32 # K @ 13 # 10 # rest) 10 = Ok (Some (length ?n + 3 + length K))"
    using name K strchr_here [of 10 "?n @ 58 # 32 # K @ [13]" rest] by simp
  have f: "eco_find_n (?n @ 58 # 32 # K @ 13 # 10 # rest) (length ?n) (?n @ [0]) = Ok (Some 0)"
    using name by (intro eco_find_n_hit) auto
  have "take (Suc (length K)) (drop (length xs + length ?n + 2) ?req) = K @ [13]"
    by (simp add: crlf_def lit_def of_char_def)
  then have t: "take_key ?req (length xs + length ?n) (length xs + (length ?n + 3 + length K)) w =
      Ok (K @ (if w then magic_key else []))"
    using K by (simp add: take_key_def Let_def numeral_eq_Suc)
  have "parse_key_from ?req (length xs) w =
      obind (skip_lines ?req (length xs) (length xs + (length ?n + 3 + length K)) (length xs + length ?n))
        (after_line ?req w (length xs + length ?n))"
    by (rule parse_key_from_step) (simp_all only: d ke ve)
  also have "\<dots> = after_line ?req w (length xs + length ?n) (Some (length xs, length xs + (length ?n + 3 + length K)))"
    by (simp only: skip_done [of "length xs + length ?n"] obind_simps le_add1 add.assoc add_le_cancel_left)
  finally show ?thesis
    by (simp only: after_line_def option.case prod.case d f add_diff_cancel_left' obind_simps t
        option.distinct if_True not_False_eq_True)
qed

lemma SHA1_feed_Input:
  assumes "absorbed s bs r" and "length (concat bs @ r) + length cs < 2 ^ 61" and "0 \<notin> set cs"
  shows "\<exists>s' bs' r'. SHA1_feed s (cs @ [0]) = Ok s' \<and> absorbed s' bs' r' \<and> concat bs' @ r' = concat bs @ r @ cs"
  using assms
proof (induction cs arbitrary: s bs r)
  case (Cons c cs)
  have "length (concat bs @ r) + length [c] < 2 ^ 61" using Cons.prems(2) by simp
  from absorbed_Input [OF Cons.prems(1) this] obtain bs1 r1 where
    1: "absorbed (SHA1_Input_char s c) bs1 r1" "concat bs1 @ r1 = concat bs @ r @ [c]"
    unfolding SHA1_Input_char_def by blast
  have "length (concat bs1 @ r1) + length cs < 2 ^ 61" using Cons.prems(2) by (simp add: 1(2))
  note IH = Cons.IH [OF 1(1) this]
  have eq: "concat bs1 @ r1 @ cs = concat bs @ r @ c # cs"
    using 1(2) by (metis append.assoc append_Cons append_Nil)
  from IH show ?case
    using Cons.prems(3) eq by auto
qed auto

text \<open>
  Claim C32. The server's side of the handshake computes the reply the WebSocket standard asks
  for. In a request whose other headers come first, the key \<open>K\<close> of the line
  \<open>Sec-WebSocket-Key: K\<close> is found whatever follows it, and the prepared response carries the
  base64 form of the SHA-1 digest of \<open>K\<close> followed by the protocol's magic string.
\<close>

theorem parse_req_accepts:
  assumes "\<forall>l \<in> set ls. other_header True l" and "0 \<in> set rest" and "length junk = 64"
    and "K \<noteq> []" and "10 \<notin> set K" and "0 \<notin> set K" and "last K \<noteq> 13" and "length K < 2 ^ 60"
  shows "parse_req junk (concat (map (\<lambda>l. l @ [10]) ls) @ lit ''Sec-WebSocket-Key'' @ lit '': '' @ K @ crlf @ rest) =
    Ok (Some (lit ''HTTP/1.1 101 Switching Protocols'' @ crlf @ lit ''Connection: upgrade'' @ crlf
      @ lit ''Sec-WebSocket-Accept: '' @ base64_encode (digest_bytes (sha1_digest (K @ magic_key))) @ crlf
      @ lit ''Upgrade: websocket'' @ crlf @ crlf))"
proof -
  let ?hs = "concat (map (\<lambda>l. l @ [10]) ls)"
  let ?kl = "ws_key_name True @ lit '': '' @ K @ crlf @ rest"
  have "parse_key (?hs @ ?kl) True = parse_key_from (?hs @ ?kl) (length ?hs) True"
    using parse_key_headers [OF assms(1), of ?kl "[]"] assms(2) by (simp add: parse_key_def)
  also have "\<dots> = Ok (Some (K @ magic_key))"
    using parse_key_here [OF assms(4-7), of ?hs True rest] by simp
  finally have key: "parse_key (?hs @ ?kl) True = Ok (Some (K @ magic_key))" .
  have m: "0 \<notin> set magic_key" "length magic_key = 36" by (simp_all add: magic_key_def lit_def of_char_def)
  have "length (concat [] @ []) + length (K @ magic_key) < 2 ^ 61" using assms(8) m by simp
  then obtain s' bs' r' where s': "SHA1_feed (SHA1_new junk) ((K @ magic_key) @ [0]) = Ok s'"
    "absorbed s' bs' r'" "concat bs' @ r' = K @ magic_key"
    using SHA1_feed_Input [OF absorbed_new [OF assms(3)], of "K @ magic_key"] assms(6) m by auto
  have "snd (SHA1_Result s') = Some (sha1_digest (K @ magic_key))"
    using s'(2,3) PadMessage_digest [OF s'(2)] by (simp add: SHA1_Result_def absorbed_def Let_def)
  then show ?thesis
    using key s'(1) by (simp add: parse_req_def ws_key_name_def)
qed

theorem parse_req_accepts_witness:
  "parse_req (replicate 64 0) (concat (map (\<lambda>l. l @ [10]) [lit ''GET / HTTP/1.1'', lit ''Host: a''])
      @ lit ''Sec-WebSocket-Key'' @ lit '': '' @ lit ''abc='' @ crlf @ [0]) =
    Ok (Some (lit ''HTTP/1.1 101 Switching Protocols'' @ crlf @ lit ''Connection: upgrade'' @ crlf
      @ lit ''Sec-WebSocket-Accept: '' @ base64_encode (digest_bytes (sha1_digest (lit ''abc='' @ magic_key))) @ crlf
      @ lit ''Upgrade: websocket'' @ crlf @ crlf))"
  by (rule parse_req_accepts)
    (simp_all add: other_header_def ws_key_name_def lit_def of_char_def sublist_def Cons_eq_append_conv)

end
