(* ===== verification/Eco_TcpPeer.thy ===== *)
theory Eco_TcpPeer
  imports Eco_TcpProtocol Eco_WebSocket Eco_ShakeHand
begin

text \<open>
  One connection: \<open>TcpPeer\<close> of \<open>src/project/eco/prj/src/net/TcpPeer.cpp\<close> and \<open>TcpPeer.ipp\<close>, behind the
  interfaces \<open>ProtocolHead\<close> and \<open>Protocol\<close> that it uses.

  A peer talks to its socket (\<open>TcpConnector\<close>, Boost asio) and to its handler (the server or the
  client) only through calls without a result. A handler of the peer therefore returns the new
  peer and the list of these calls, in the order the code makes them. No call is followed by a
  further change of the peer in the same handler, so the receiver may carry them out one after
  the other.
\<close>

section \<open>Protocol interfaces\<close>

record ProtocolHead =
  ph_size :: nat
  ph_decode_data_size :: "bytes \<Rightarrow> nat \<Rightarrow> u32 outcome"
  ph_decode :: "bytes \<Rightarrow> MessageHead outcome"
  ph_encode_heartbeat :: "bytes \<Rightarrow> bytes outcome"

definition TcpProtocolHead :: ProtocolHead where
  "TcpProtocolHead = \<lparr>ph_size = TcpProtocolHead_size,
     ph_decode_data_size = (\<lambda>bs siz. TcpProtocolHead_decode_data_size bs),
     ph_decode = TcpProtocolHead_decode, ph_encode_heartbeat = TcpProtocolHead_encode_heartbeat\<rparr>"

definition WebSocketProtocolHeadEx :: ProtocolHead where
  "WebSocketProtocolHeadEx = \<lparr>ph_size = ws_ex_size, ph_decode_data_size = ws_decode_data_size,
     ph_decode = ws_head_decode, ph_encode_heartbeat = ws_encode_heartbeat\<rparr>"

text \<open>
  \<open>prot_encode fill meta\<close> returns the buffer and the position the bytes to send start at;
  \<open>prot_decode meta bs\<close> the metadata, the buffer and the body as position and size.
\<close>

record Protocol =
  prot_version :: u32
  prot_encode :: "(nat \<Rightarrow> byte) \<Rightarrow> MessageMeta \<Rightarrow> (bytes \<times> nat) outcome"
  prot_decode :: "MessageMeta \<Rightarrow> bytes \<Rightarrow> (MessageMeta \<times> bytes \<times> nat \<times> u32) outcome"

definition TcpProtocol_protocol :: Protocol where
  "TcpProtocol_protocol = \<lparr>prot_version = TcpProtocol_version,
     prot_encode = (\<lambda>fill meta. obind (TcpProtocol_encode fill TcpProtocol_new meta) (\<lambda>(bs, start). Ok (bs, unat start))),
     prot_decode = TcpProtocol_decode TcpProtocol_new\<rparr>"

definition WebSocketProtocol_protocol :: "bool \<Rightarrow> Protocol" where
  "WebSocketProtocol_protocol is_mask = \<lparr>prot_version = WebSocketProtocol_version,
     prot_encode = (\<lambda>fill meta. WebSocketProtocol_encode fill (if is_mask then 1 else 0) meta),
     prot_decode = WebSocketProtocol_decode\<rparr>"

section \<open>The peer\<close>

type_synonym ConnectionId = u64

datatype action =
    ReadHead nat
  | ReadUntil nat bytes
  | ReadData bytes nat
  | WriteData bytes nat
  | CloseSocket
  | NotifyConnect
  | NotifyRead bytes
  | NotifySend u32
  | NotifyClose ConnectionId

text \<open>What a peer asks its \<open>TcpPeerHandler\<close> for.\<close>

record Handler =
  hdl_head :: ProtocolHead
  hdl_websocket :: bool
  hdl_key :: bytes

record Connection =
  conn_id :: ConnectionId
  conn_protocol :: Protocol

record Peer =
  p_id :: ConnectionId
  p_state :: TcpState
  p_data :: "Connection option"

definition TcpPeer_make :: "ConnectionId \<Rightarrow> Peer" where
  "TcpPeer_make i = \<lparr>p_id = i, p_state = set_self_live TcpState_init False, p_data = None\<rparr>"

definition make_connection_data :: "bool \<Rightarrow> Protocol \<Rightarrow> Peer \<Rightarrow> Peer" where
  "make_connection_data has_make_func prot p =
     (if has_make_func \<and> p_data p = None
      then p\<lparr>p_data := Some \<lparr>conn_id = p_id p, conn_protocol = prot\<rparr>\<rparr> else p)"

definition peer_set_connected :: "Peer \<Rightarrow> Peer" where
  "peer_set_connected p = p\<lparr>p_state := set_peer_live (set_connected (p_state p)) True\<rparr>"

definition async_recv :: "Handler \<Rightarrow> Peer \<Rightarrow> Peer \<times> action list" where
  "async_recv h p = (p, [ReadHead (ph_size (hdl_head h))])"

definition async_recv_shakehand :: "Peer \<Rightarrow> Peer \<times> action list" where
  "async_recv_shakehand p =
     (p\<lparr>p_state := set_websocket (p_state p)\<rparr>, [ReadUntil WebSocketShakeHand_size head_end])"

definition async_recv_by_client :: "Handler \<Rightarrow> Peer \<Rightarrow> Peer \<times> action list" where
  "async_recv_by_client h p =
     (let (p2, acts) = async_recv h (p\<lparr>p_state := set_ready (p_state p)\<rparr>)
      in (p2, NotifyConnect # acts))"

definition async_recv_by_server :: "Handler \<Rightarrow> Peer \<Rightarrow> Peer \<times> action list" where
  "async_recv_by_server h p = async_recv h (p\<lparr>p_state := set_ready (p_state p)\<rparr>)"

definition async_send :: "bytes \<Rightarrow> nat \<Rightarrow> Peer \<Rightarrow> Peer \<times> action list" where
  "async_send data start p =
     (p\<lparr>p_state := set_self_live (p_state p) True\<rparr>, [WriteData data start])"

definition async_send_meta :: "(nat \<Rightarrow> byte) \<Rightarrow> MessageMeta \<Rightarrow> Protocol \<Rightarrow> Peer \<Rightarrow> (Peer \<times> action list) outcome" where
  "async_send_meta fill meta prot p =
     (case prot_encode prot fill meta of
        UB \<Rightarrow> UB | Err n \<Rightarrow> Ok (p, []) | Ok (data, start) \<Rightarrow> Ok (async_send data start p))"

definition async_send_heartbeat :: "ProtocolHead \<Rightarrow> Peer \<Rightarrow> (Peer \<times> action list) outcome" where
  "async_send_heartbeat head p =
     (if \<not> ready (p_state p) then Ok (p, [])
      else obind (ph_encode_heartbeat head []) (\<lambda>data. Ok (async_send data 0 p)))"

definition async_send_live_heartbeat :: "ProtocolHead \<Rightarrow> Peer \<Rightarrow> (Peer \<times> action list) outcome" where
  "async_send_live_heartbeat head p =
     (if \<not> ready (p_state p) then Ok (p, [])
      else if self_live (p_state p)
           then Ok (p\<lparr>p_state := set_self_live (p_state p) False\<rparr>, [])
           else async_send_heartbeat head p)"

definition peer_close :: "Peer \<Rightarrow> Peer \<times> action list" where
  "peer_close p =
     (if \<not> closed (p_state p) then (p\<lparr>p_state := set_closed (p_state p)\<rparr>, [CloseSocket]) else (p, []))"

definition close_and_notify :: "Peer \<Rightarrow> Peer \<times> action list" where
  "close_and_notify p = (let (p1, acts) = peer_close p in (p1, acts @ [NotifyClose (p_id p1)]))"

section \<open>Handshake\<close>

definition send_websocket_shakehand :: "Peer \<Rightarrow> Peer \<times> action list" where
  "send_websocket_shakehand p = async_send shake_format 0 p"

definition handle_websocket_shakehand_req :: "bytes \<Rightarrow> Handler \<Rightarrow> bytes \<Rightarrow> Peer \<Rightarrow> (Peer \<times> action list) outcome" where
  "handle_websocket_shakehand_req junk h data p =
     obind (eco_find_n (data @ [0]) (length data) (lit ''GET '' @ [0])) (\<lambda>f.
       if f \<noteq> Some 0 then Ok (p, [])
       else obind (parse_req junk (data @ [0])) (\<lambda>r.
         case r of
           None \<Rightarrow> Ok (close_and_notify p)
         | Some response \<Rightarrow>
             let (p1, a1) = async_send response 0 p;
                 (p2, a2) = async_recv_by_server h p1
             in Ok (p2, a1 @ a2)))"

definition handle_websocket_shakehand_rsp :: "Handler \<Rightarrow> bytes \<Rightarrow> Peer \<Rightarrow> (Peer \<times> action list) outcome" where
  "handle_websocket_shakehand_rsp h data p =
     obind (eco_find_n (data @ [0]) (length data) (lit ''HTTP'' @ [0])) (\<lambda>f.
       if f \<noteq> Some 0 then Ok (p, [])
       else obind (parse_rsp (data @ [0]) (hdl_key h)) (\<lambda>ok.
         Ok (if \<not> ok then close_and_notify p else async_recv_by_client h p)))"

section \<open>Events\<close>

definition on_connect :: "Handler \<Rightarrow> bool \<Rightarrow> Peer \<Rightarrow> Peer \<times> action list" where
  "on_connect h is_connected p =
     (if \<not> is_connected then (p, [])
      else let p1 = peer_set_connected p in
        if hdl_websocket h then
          let p2 = p1\<lparr>p_state := set_websocket (p_state p1)\<rparr>;
              (p3, a3) = send_websocket_shakehand p2;
              (p4, a4) = async_recv_shakehand p3
          in (p4, a3 @ a4)
        else async_recv_by_client h p1)"

text \<open>
  \<open>strncpy(dest, src, n)\<close> copies up to the first zero byte and fills the rest of the \<open>n\<close> bytes
  with zeros.
\<close>

definition strncpy :: "bytes \<Rightarrow> nat \<Rightarrow> bytes" where
  "strncpy src n =
     (let s = takeWhile (\<lambda>b. b \<noteq> 0) (take n src) in s @ replicate (n - length s) 0)"

text \<open>
  The buffer of \<open>head_size + data_size\<close> bytes (a 32 bit sum) and its terminator are allocated
  with unknown contents \<open>fill\<close>; then \<open>head_size\<close> bytes are written to its start.
\<close>

definition on_read_head ::
  "(nat \<Rightarrow> byte) \<Rightarrow> Handler \<Rightarrow> bytes \<Rightarrow> nat \<Rightarrow> bool \<Rightarrow> Peer \<Rightarrow> (Peer \<times> action list) outcome" where
  "on_read_head fill h data_head head_size err p =
     (if err then Ok (close_and_notify p)
      else case ph_decode_data_size (hdl_head h) data_head head_size of
        UB \<Rightarrow> UB
      | Err n \<Rightarrow> Ok (close_and_notify p)
      | Ok data_size \<Rightarrow>
          let p1 = p\<lparr>p_state := set_peer_live (p_state p) True\<rparr>;
              n = (of_nat head_size + data_size :: u32)
          in if n = 0 \<or> unat n + 1 < head_size then UB
             else let data = take (unat n) (strncpy data_head head_size @ map fill [head_size..<unat n])
                  in if data_size = 0
                     then let (p2, a2) = async_recv h p1 in Ok (p2, NotifyRead data # a2)
                     else Ok (p1, [ReadData data head_size]))"

definition on_read_data :: "bytes \<Rightarrow> Handler \<Rightarrow> bytes \<Rightarrow> bool \<Rightarrow> Peer \<Rightarrow> (Peer \<times> action list) outcome" where
  "on_read_data junk h data err p =
     (if err then Ok (close_and_notify p)
      else if \<not> ready (p_state p) then
        (if websocket (p_state p) then
           (if server (p_state p) then handle_websocket_shakehand_req junk h data p
            else handle_websocket_shakehand_rsp h data p)
         else Ok (p, []))
      else let (p2, a2) = async_recv h (p\<lparr>p_state := set_peer_active (p_state p) True\<rparr>)
           in Ok (p2, NotifyRead data # a2))"

definition on_write :: "u32 \<Rightarrow> bool \<Rightarrow> Peer \<Rightarrow> Peer \<times> action list" where
  "on_write siz err p = (if err then close_and_notify p else (p, [NotifySend siz]))"

text \<open>The request a response answers is given by the metadata of its context.\<close>

definition async_response ::
  "(nat \<Rightarrow> byte) \<Rightarrow> Codec \<Rightarrow> u32 \<Rightarrow> MessageMeta \<Rightarrow> Protocol \<Rightarrow> bool \<Rightarrow> bool \<Rightarrow> Peer \<Rightarrow> (Peer \<times> action list) outcome" where
  "async_response fill codec type c_meta prot is_last encrypted p =
     (let m0 = MessageMeta_msg codec (m_session_id c_meta) type True;
          m1 = m0\<lparr>m_category := eco_add (m_category m0) (ucast (m_category c_meta))\<rparr>;
          m2 = set_request_data_opt (m_request_data c_meta) (m_option c_meta) m1;
          m3 = set_last is_last m2
      in async_send_meta fill m3 prot p)"

section \<open>What a protocol head promises\<close>

text \<open>
  A peer relies on its protocol head for three things: the head fits the 32 byte buffer the peer
  reads it into, the announced size can be read from a complete head, and a heartbeat is a
  message of exactly one head that announces nothing more and is recognised as a heartbeat.
\<close>

locale protocol_head =
  fixes ph :: ProtocolHead
  assumes size_law: "0 < ph_size ph" "ph_size ph \<le> 32"
    and data_size_law: "length hdr = ph_size ph \<Longrightarrow> ph_decode_data_size ph hdr (ph_size ph) \<noteq> UB"
    and heartbeat_law: "\<exists>hb head. ph_encode_heartbeat ph [] = Ok hb \<and> length hb = ph_size ph
      \<and> ph_decode_data_size ph hb (ph_size ph) = Ok 0
      \<and> ph_decode ph hb = Ok head \<and> eco_has (head_category head) category_heartbeat"
begin

lemma on_read_head_safe:
  assumes "hdl_head h = ph" and "length hdr = ph_size ph"
    and "\<And>n. ph_decode_data_size ph hdr (ph_size ph) = Ok n \<Longrightarrow> unat n + ph_size ph < 2 ^ 32"
  shows "on_read_head fill h hdr (ph_size ph) err p \<noteq> UB"
proof (cases "ph_decode_data_size ph hdr (ph_size ph)")
  case (Ok n)
  have "ph_size ph < 2 ^ 32" using size_law(2) by simp
  then have "unat (of_nat (ph_size ph) + n :: u32) = ph_size ph + unat n"
    using assms(3) [OF Ok] by (simp add: unat_word_ariths unat_of_nat take_bit_eq_mod)
  moreover from this have "of_nat (ph_size ph) + n \<noteq> (0 :: u32)"
    using size_law(1) by (metis add_gr_0 less_not_refl unat_0)
  ultimately show ?thesis
    using assms(1) Ok by (auto simp: on_read_head_def Let_def async_recv_def)
next
  case (Err e)
  then show ?thesis using assms(1) by (auto simp: on_read_head_def)
next
  case UB
  then show ?thesis using data_size_law [OF assms(2)] by simp
qed

lemma heartbeat_sent:
  "ready (p_state p) \<Longrightarrow> \<exists>hb. async_send_heartbeat ph p =
     Ok (p\<lparr>p_state := set_self_live (p_state p) True\<rparr>, [WriteData hb 0]) \<and> length hb = ph_size ph"
  using heartbeat_law by (auto simp: async_send_heartbeat_def async_send_def)

end

interpretation tcp_head: protocol_head TcpProtocolHead
proof
  show "0 < ph_size TcpProtocolHead" "ph_size TcpProtocolHead \<le> 32"
    by (simp_all add: TcpProtocolHead_def TcpProtocolHead_size_def)
  show "length hdr = ph_size TcpProtocolHead \<Longrightarrow>
      ph_decode_data_size TcpProtocolHead hdr (ph_size TcpProtocolHead) \<noteq> UB" for hdr
    using ntoh16_safe [of 2 hdr] by (auto simp: TcpProtocolHead_def TcpProtocolHead_size_def
        TcpProtocolHead_decode_data_size_def)
  show "\<exists>hb head. ph_encode_heartbeat TcpProtocolHead [] = Ok hb \<and> length hb = ph_size TcpProtocolHead
      \<and> ph_decode_data_size TcpProtocolHead hb (ph_size TcpProtocolHead) = Ok 0
      \<and> ph_decode TcpProtocolHead hb = Ok head \<and> eco_has (head_category head) category_heartbeat"
    by (simp add: TcpProtocolHead_def TcpProtocolHead_encode_heartbeat_def TcpProtocolHead_encode_append_def
      wr_def rd_def TcpProtocolHead_size_def TcpProtocolHead_decode_data_size_def ntoh16_def be16_def
      TcpProtocolHead_decode_def category_defs replicate_4 eco_has_def minus_one_byte)
qed

lemma ws_heartbeat_bytes: "ws_encode_heartbeat [] = Ok [0, 2, - 1, 2]"
  by (simp add: ws_encode_heartbeat_def wr_def size_ws_head_def replicate_2 category_defs)

interpretation ws_head: protocol_head WebSocketProtocolHeadEx
proof
  show "0 < ph_size WebSocketProtocolHeadEx" "ph_size WebSocketProtocolHeadEx \<le> 32"
    by (simp_all add: WebSocketProtocolHeadEx_def ws_ex_size_def size_ws_head_def)
  show "ph_decode_data_size WebSocketProtocolHeadEx hdr (ph_size WebSocketProtocolHeadEx) \<noteq> UB"
    if "length hdr = ph_size WebSocketProtocolHeadEx" for hdr
  proof -
    have len: "length hdr = 4"
      using that by (simp add: WebSocketProtocolHeadEx_def ws_ex_size_def size_ws_head_def)
    obtain v where v: "ntoh16 hdr 2 = Ok v" using ntoh16_safe [of 2 hdr] len by auto
    have "ws_decode_head hdr 4 0 \<noteq> UB"
      using len v by (auto simp: ws_decode_head_def rds_def rd_def nth_append Let_def get_payload_len_size_def
          numeral_2_eq_2 [symmetric])
    then have "ws_decode_data_size hdr 4 \<noteq> UB"
      by (cases "ws_decode_head hdr 4 0") (auto simp: ws_decode_data_size_def Let_def split: if_splits)
    then show ?thesis by (simp add: WebSocketProtocolHeadEx_def ws_ex_size_def size_ws_head_def)
  qed
  show "\<exists>hb head. ph_encode_heartbeat WebSocketProtocolHeadEx [] = Ok hb \<and> length hb = ph_size WebSocketProtocolHeadEx
      \<and> ph_decode_data_size WebSocketProtocolHeadEx hb (ph_size WebSocketProtocolHeadEx) = Ok 0
      \<and> ph_decode WebSocketProtocolHeadEx hb = Ok head \<and> eco_has (head_category head) category_heartbeat"
    by (simp add: WebSocketProtocolHeadEx_def ws_heartbeat_bytes ws_ex_size_def ws_size_defs
      ws_decode_data_size_def ws_decode_head_def rds_def rd_def Let_def get_payload_len_size_def ws_head_decode_def
      category_defs eco_has_def)
qed

section \<open>Receiving\<close>

lemma length_strncpy [simp]: "length (strncpy src n) = n"
  using length_takeWhile_le [of "\<lambda>b. b \<noteq> 0" "take n src"]
  by (simp add: strncpy_def Let_def)

lemma strncpy_first: "0 < n \<Longrightarrow> src \<noteq> [] \<Longrightarrow> strncpy src n ! 0 = src ! 0"
  by (cases src; cases n) (auto simp: strncpy_def Let_def)

lemma strncpy_second:
  "1 < n \<Longrightarrow> 1 < length src \<Longrightarrow> src ! 0 \<noteq> 0 \<Longrightarrow> strncpy src n ! 1 = src ! 1"
  by (cases src; cases "tl src"; cases n; cases "n - 1") (auto simp: strncpy_def Let_def)

lemma strncpy_id_iff:
  assumes "length src = n"
  shows "strncpy src n = src \<longleftrightarrow> (\<forall>i j. i < j \<longrightarrow> j < n \<longrightarrow> src ! i = 0 \<longrightarrow> src ! j = 0)"
proof -
  let ?s = "takeWhile (\<lambda>b. b \<noteq> 0) src"
  have eq: "strncpy src n = ?s @ replicate (n - length ?s) 0"
    using assms by (simp add: strncpy_def Let_def)
  have len: "length ?s \<le> n" using assms length_takeWhile_le [of "\<lambda>b. b \<noteq> 0" src] by simp
  show ?thesis
  proof
    assume id: "strncpy src n = src"
    show "\<forall>i j. i < j \<longrightarrow> j < n \<longrightarrow> src ! i = 0 \<longrightarrow> src ! j = 0"
    proof (intro allI impI)
      fix i j assume ij: "i < j" "j < n" "src ! i = 0"
      have "\<not> i < length ?s"
      proof
        assume i: "i < length ?s"
        then have "?s ! i \<noteq> 0" using nth_mem set_takeWhileD by fastforce
        then show False using ij(3) takeWhile_nth [OF i] by simp
      qed
      then have "(?s @ replicate (n - length ?s) 0) ! j = 0" using ij len by (simp add: nth_append)
      then show "src ! j = 0" using id eq by simp
    qed
  next
    assume z: "\<forall>i j. i < j \<longrightarrow> j < n \<longrightarrow> src ! i = 0 \<longrightarrow> src ! j = 0"
    show "strncpy src n = src"
    proof (rule nth_equalityI)
      show "length (strncpy src n) = length src" using assms by simp
      fix i assume "i < length (strncpy src n)"
      then have i: "i < n" by simp
      show "strncpy src n ! i = src ! i"
      proof (cases "i < length ?s")
        case True
        then show ?thesis unfolding eq by (simp add: nth_append takeWhile_nth)
      next
        case False
        then have "length ?s < length src" using i assms by simp
        then have "src ! length ?s = 0" using nth_length_takeWhile [of "\<lambda>b. b \<noteq> 0" src] by simp
        then have "src ! i = 0" using z i False by (metis linorder_neqE_nat)
        then show ?thesis unfolding eq using False i by (simp add: nth_append)
      qed
    qed
  qed
qed

lemma on_read_head_data:
  fixes fill :: "nat \<Rightarrow> byte" and p :: Peer
  assumes "ph_decode_data_size (hdl_head h) hdr n = Ok data_size" and "0 < n" and "unat data_size + n < 2 ^ 32"
  defines "data \<equiv> strncpy hdr n @ map fill [n..<n + unat data_size]"
  defines "p1 \<equiv> p\<lparr>p_state := set_peer_live (p_state p) True\<rparr>"
  shows "on_read_head fill h hdr n False p =
    (if data_size = 0 then Ok (p1, [NotifyRead data, ReadHead (ph_size (hdl_head h))])
     else Ok (p1, [ReadData data n]))"
proof -
  have un: "unat (of_nat n + data_size :: u32) = n + unat data_size"
    using assms(3) by (simp add: unat_word_ariths unat_of_nat take_bit_eq_mod)
  then have nz: "of_nat n + data_size \<noteq> (0 :: u32)"
    using assms(2) by (metis add_gr_0 less_not_refl unat_0)
  show ?thesis
    using assms(1) un nz by (simp add: on_read_head_def Let_def async_recv_def data_def p1_def)
qed

lemma receives_message:
  assumes "m_codec meta = Some codec" and "body_codec codec payload"
    and "TcpProtocol_get_meta_size meta + length payload \<le> 65535"
    and "ucast (m_category meta) \<noteq> (0 :: byte)"
    and "hdl_head h = TcpProtocolHead" and "ready (p_state p)"
  shows "\<exists>bs p1 buf p2. TcpProtocol_encode fill0 TcpProtocol_new meta = Ok (bs, 0)
    \<and> on_read_head fill h (take 4 bs) 4 False p = Ok (p1, [ReadData buf 4]) \<and> length buf = length bs
    \<and> on_read_data junk h (take 4 buf @ drop 4 bs) False p1 =
        Ok (p2, [NotifyRead (take 4 buf @ drop 4 bs), ReadHead 4])
    \<and> peer_live (p_state p2) \<and> peer_active (p_state p2)
    \<and> take 2 (take 4 buf @ drop 4 bs) = [1, ucast (m_category meta)]
    \<and> TcpProtocol_decode TcpProtocol_new meta0 (take 4 buf @ drop 4 bs) =
        Ok (received_meta fill0 meta0 meta, take 4 buf @ drop 4 bs, 4 + TcpProtocol_get_meta_size meta,
            of_nat (length payload))
    \<and> drop (4 + TcpProtocol_get_meta_size meta) (take 4 buf @ drop 4 bs) = payload"
proof -
  let ?n = "TcpProtocol_get_meta_size meta + length payload"
  let ?bs = "wire_message fill0 meta payload"
  let ?hdr = "wire_head meta ?n"
  define buf where "buf = strncpy ?hdr 4 @ map fill [4..<4 + ?n]"
  define p1 where "p1 = p\<lparr>p_state := set_peer_live (p_state p) True\<rparr>"
  have split: "take 4 ?bs = ?hdr" "drop 4 ?bs = wire_body fill0 meta payload"
    by (simp_all add: wire_message_def)
  have un: "unat (of_nat ?n :: u32) = ?n" using assms(3) by (intro unat_of_nat_u32) simp
  have pos: "(of_nat ?n :: u32) \<noteq> 0"
    using un by (metis TcpProtocol_get_meta_size_def add_2_eq_Suc add_Suc nat.distinct(1) unat_0)
  have "ntoh16 (wire_head meta ?n) 2 = Ok (of_nat ?n)"
    using ntoh16_be16 [of "[1, ucast (m_category meta)]" "of_nat ?n" "[]"]
    by (simp add: wire_head_def numeral_2_eq_2)
  then have ds: "ph_decode_data_size (hdl_head h) ?hdr 4 = Ok (of_nat ?n)"
    using assms(3,5) by (simp only: TcpProtocolHead_def ProtocolHead.simps TcpProtocolHead_decode_data_size_def
        obind_simps ucast_u16_of_nat) simp
  have rh: "on_read_head fill h ?hdr 4 False p = Ok (p1, [ReadData buf 4])"
    using on_read_head_data [OF ds, of fill p] assms(3) un pos by (simp add: buf_def p1_def)
  have sz: "ph_size (hdl_head h) = 4" using assms(5) by (simp add: TcpProtocolHead_def TcpProtocolHead_size_def)
  define p2 where "p2 = p1\<lparr>p_state := set_peer_active (p_state p1) True\<rparr>"
  have rdy: "ready (p_state p1)" using assms(6) by (simp add: p1_def flag_simps)
  have rd: "on_read_data junk h d False p1 = Ok (p2, [NotifyRead d, ReadHead 4])" for d
    using rdy sz by (simp add: on_read_data_def async_recv_def p2_def)
  have live: "peer_live (p_state p2)" "peer_active (p_state p2)" by (simp_all add: p2_def flag_simps)
  have b4: "take 4 buf = strncpy ?hdr 4" by (simp add: buf_def)
  have two: "take 2 (strncpy ?hdr 4 @ xs) = [1, ucast (m_category meta)]" for xs
    using strncpy_first [of 4 ?hdr] strncpy_second [of 4 ?hdr]
    by (simp add: wire_head_def strncpy_def Let_def assms(4) numeral_2_eq_2)
  show ?thesis
  proof (intro exI conjI)
    show "TcpProtocol_encode fill0 TcpProtocol_new meta = Ok (?bs, 0)"
      by (rule TcpProtocol_encode_wire [OF assms(1,2)])
    show "on_read_head fill h (take 4 ?bs) 4 False p = Ok (p1, [ReadData buf 4])"
      unfolding split by (rule rh)
    show "length buf = length ?bs" by (simp add: buf_def wire_message_length)
    show "on_read_data junk h (take 4 buf @ drop 4 ?bs) False p1 =
        Ok (p2, [NotifyRead (take 4 buf @ drop 4 ?bs), ReadHead 4])" by (rule rd)
    show "take 2 (take 4 buf @ drop 4 ?bs) = [1, ucast (m_category meta)]" unfolding b4 by (rule two)
    show "TcpProtocol_decode TcpProtocol_new meta0 (take 4 buf @ drop 4 ?bs) =
        Ok (received_meta fill0 meta0 meta, take 4 buf @ drop 4 ?bs, 4 + TcpProtocol_get_meta_size meta,
            of_nat (length payload))"
      unfolding split b4 by (rule TcpProtocol_decode_body) simp
    show "drop (4 + TcpProtocol_get_meta_size meta) (take 4 buf @ drop 4 ?bs) = payload"
      unfolding split b4 by (simp add: wire_body_def TcpProtocol_get_meta_size_def)
  qed (rule live)+
qed

section \<open>Properties\<close>

text \<open>
  Reading a message head over TCP never leaves the buffers: whatever four bytes arrive and
  whatever state the peer is in, the buffer allocated for the message holds the head.
\<close>

theorem TcpPeer_read_head_safe:
  assumes "hdl_head h = TcpProtocolHead" and "length hdr = 4"
  shows "on_read_head fill h hdr 4 err p \<noteq> UB"
proof -
  have sz: "ph_size TcpProtocolHead = 4" by (simp add: TcpProtocolHead_def TcpProtocolHead_size_def)
  have "unat n + 4 < 2 ^ 32" if n: "ph_decode_data_size TcpProtocolHead hdr (ph_size TcpProtocolHead) = Ok n" for n
  proof -
    from n obtain v :: u16 where "n = ucast v"
      by (auto simp: TcpProtocolHead_def TcpProtocolHead_decode_data_size_def obind_eq_Ok)
    moreover have "unat v < 65536" using unsigned_less [of v] by simp
    ultimately show ?thesis by (simp add: unsigned_ucast_eq take_bit_eq_mod)
  qed
  then show ?thesis
    using tcp_head.on_read_head_safe [of h hdr fill err p] assms unfolding sz by simp
qed

theorem TcpPeer_read_head_safe_witness:
  "on_read_head (\<lambda>_. 170) \<lparr>hdl_head = TcpProtocolHead, hdl_websocket = False, hdl_key = []\<rparr> [1, 1, 255, 255] 4 False
     (TcpPeer_make 5) \<noteq> UB"
  by (rule TcpPeer_read_head_safe) simp_all


definition sample_handler :: "ProtocolHead \<Rightarrow> Handler" where
  "sample_handler ph = \<lparr>hdl_head = ph, hdl_websocket = False, hdl_key = [0]\<rparr>"


text \<open>
  A WebSocket client can make the server write outside its buffer: for an unmasked
  frame with an empty payload the announced size wraps below zero, the buffer allocated for the
  message is two bytes long, and the four bytes of the head are copied into it.
\<close>

theorem WebSocket_empty_frame_overflow:
  assumes "hdl_head h = WebSocketProtocolHeadEx" and "b0 AND 0x0f \<noteq> websocket_frame_close"
  shows "ws_decode_data_size [b0, 0, b2, b3] 4 = Ok (- 2)
    \<and> on_read_head fill h [b0, 0, b2, b3] 4 False p = UB"
proof -
  have ds: "ws_decode_data_size [b0, 0, b2, b3] 4 = Ok (- 2)"
    using assms(2) by (simp add: ws_decode_data_size_def ws_decode_head_def rds_def rd_def Let_def
        get_payload_len_size_def)
  moreover have "unat (of_nat 4 + - 2 :: u32) = 2" by simp
  ultimately show ?thesis
    using assms(1) by (simp add: on_read_head_def WebSocketProtocolHeadEx_def Let_def)
qed

theorem WebSocket_empty_frame_overflow_witness:
  "ws_decode_data_size [0x82, 0, 7, 7] 4 = Ok (- 2)
    \<and> on_read_head (\<lambda>_. 170) (sample_handler WebSocketProtocolHeadEx) [0x82, 0, 7, 7] 4 False (TcpPeer_make 5) = UB"
  by (rule WebSocket_empty_frame_overflow) (simp_all add: sample_handler_def websocket_frame_close_def)

text \<open>
  The head a peer hands on is the head it received exactly when no non-zero byte
  follows a zero byte in it, because it is copied with \<open>strncpy\<close>.
\<close>

theorem TcpPeer_head_copy:
  assumes "ph_decode_data_size (hdl_head h) hdr (length hdr) = Ok data_size" and "hdr \<noteq> []"
    and "unat data_size + length hdr < 2 ^ 32"
  shows "\<exists>p1 data. on_read_head fill h hdr (length hdr) False p =
       Ok (p1, if data_size = 0 then [NotifyRead data, ReadHead (ph_size (hdl_head h))]
               else [ReadData data (length hdr)])
     \<and> (take (length hdr) data = hdr \<longleftrightarrow>
          (\<forall>i j. i < j \<longrightarrow> j < length hdr \<longrightarrow> hdr ! i = 0 \<longrightarrow> hdr ! j = 0))"
proof -
  define data where "data = strncpy hdr (length hdr) @ map fill [length hdr..<length hdr + unat data_size]"
  have "take (length hdr) data = strncpy hdr (length hdr)" by (simp add: data_def)
  then have "take (length hdr) data = hdr \<longleftrightarrow>
      (\<forall>i j. i < j \<longrightarrow> j < length hdr \<longrightarrow> hdr ! i = 0 \<longrightarrow> hdr ! j = 0)"
    using strncpy_id_iff [of hdr "length hdr"] by simp
  then show ?thesis
    using on_read_head_data [OF assms(1) _ assms(3), of fill p] assms(2)
    unfolding data_def [symmetric] by (cases "data_size = 0") auto
qed

theorem TcpPeer_head_copy_witness:
  "\<exists>p1 data. on_read_head (\<lambda>_. 170) (sample_handler TcpProtocolHead) [1, 1, 0, 9] 4 False (TcpPeer_make 5) =
       Ok (p1, [ReadData data 4]) \<and> take 4 data \<noteq> [1, 1, 0, 9]"
proof -
  have ds: "ph_decode_data_size (hdl_head (sample_handler TcpProtocolHead)) [1, 1, 0, 9]
      (length [1, 1, 0, 9 :: byte]) = Ok 9"
    by (simp add: sample_handler_def TcpProtocolHead_def TcpProtocolHead_decode_data_size_def ntoh16_def rd_def be16_def)
  have len4: "length [1, 1, 0, 9 :: byte] = 4" by simp
  have z: "\<not> (\<forall>i j. i < j \<longrightarrow> j < length [1, 1, 0, 9 :: byte] \<longrightarrow> [1, 1, 0, 9 :: byte] ! i = 0 \<longrightarrow> [1, 1, 0, 9 :: byte] ! j = 0)"
    by (intro notI, drule spec [of _ 2], drule spec [of _ 3]) simp
  show ?thesis
    using TcpPeer_head_copy [OF ds, of "\<lambda>_. 170" "TcpPeer_make 5"] z unfolding len4 by fastforce
qed

text \<open>
  A WebSocket heartbeat does not survive that copy. It starts with a zero byte, so the peer that
  receives one hands four zero bytes to its handler, and the head decoder no longer sees a
  heartbeat in them.
\<close>

theorem WebSocket_heartbeat_lost:
  assumes "hdl_head h = WebSocketProtocolHeadEx"
  shows "\<exists>hb p1 hd. ph_encode_heartbeat (hdl_head h) [] = Ok hb
    \<and> on_read_head fill h hb 4 False p = Ok (p1, [NotifyRead [0, 0, 0, 0], ReadHead 4])
    \<and> ph_decode (hdl_head h) [0, 0, 0, 0] = Ok hd
    \<and> \<not> eco_has (head_category hd) category_heartbeat"
proof -
  have ds: "ws_decode_data_size [0, 2, - 1, 2] 4 = Ok 0"
    by (simp add: ws_decode_data_size_def ws_decode_head_def rds_def rd_def Let_def
        get_payload_len_size_def websocket_frame_close_def)
  have "strncpy [0, 2, - 1, 2] 4 = [0, 0, 0, 0]" by (simp add: strncpy_def replicate_4)
  then have "\<exists>p1. on_read_head fill h [0, 2, - 1, 2] 4 False p = Ok (p1, [NotifyRead [0, 0, 0, 0], ReadHead 4])"
    using on_read_head_data [of h "[0, 2, - 1, 2]" 4 0 fill p] ds assms
    by (simp add: WebSocketProtocolHeadEx_def ws_ex_size_def size_ws_head_def)
  moreover have "ws_head_decode [0, 0, 0, 0] = Ok \<lparr>head_version = 0, head_category = 0\<rparr>"
    by (simp add: ws_head_decode_def ws_decode_head_def rds_def rd_def Let_def get_payload_len_size_def)
  ultimately show ?thesis
    using assms by (auto simp: WebSocketProtocolHeadEx_def ws_heartbeat_bytes eco_has_def)
qed

theorem WebSocket_heartbeat_lost_witness:
  "\<exists>hb p1 hd. ph_encode_heartbeat (hdl_head (sample_handler WebSocketProtocolHeadEx)) [] = Ok hb
    \<and> on_read_head (\<lambda>_. 170) (sample_handler WebSocketProtocolHeadEx) hb 4 False (TcpPeer_make 5) =
        Ok (p1, [NotifyRead [0, 0, 0, 0], ReadHead 4])
    \<and> ph_decode (hdl_head (sample_handler WebSocketProtocolHeadEx)) [0, 0, 0, 0] = Ok hd
    \<and> \<not> eco_has (head_category hd) category_heartbeat"
  by (rule WebSocket_heartbeat_lost) (simp add: sample_handler_def)

text \<open>
  Closing is not final. \<open>closed\<close> means that no flag is set, and \<open>async_send\<close> and
  the arrival of a head set a flag without looking: a closed peer that is asked to send, or
  whose pending head arrives, is no longer closed, hands the data to its socket, and closes the
  socket again on the next error. Data that arrives for a closed peer is dropped.
\<close>

theorem TcpPeer_close_not_final:
  "closed (p_state (fst (peer_close p)))
   \<and> (\<exists>p2. async_send data start (fst (peer_close p)) = (p2, [WriteData data start])
        \<and> \<not> closed (p_state p2)
        \<and> snd (on_write siz True p2) = [CloseSocket, NotifyClose (p_id p)])
   \<and> on_read_data junk h d False (fst (peer_close p)) = Ok (fst (peer_close p), [])"
proof -
  let ?q = "fst (peer_close p)"
  have q: "p_state ?q = 0" "p_id ?q = p_id p"
    by (auto simp: peer_close_def closed_iff set_closed_def State_assign_def State_no_def)
  have "bit (set_self_live 0 True) 4" by (simp add: flag_simps)
  then have "\<not> closed (set_self_live 0 True)" by (rule not_closedI)
  then show ?thesis
    using q by (auto simp: closed_iff async_send_def on_write_def close_and_notify_def peer_close_def
        on_read_data_def flag_simps Let_def)
qed

end
