(* ===== verification/Eco_Map.thy ===== *)
theory Eco_Map
  imports Eco_Prelude "HOL-Library.AList"
begin

text \<open>
  The locked map \<open>eco::MapT\<close> of \<open>src/project/eco/thread/Map.h\<close>, behind \<open>HashMap\<close> and \<open>Map\<close>. The
  container is the list of its entries in iteration order, with distinct keys; a hash map leaves
  the place of a new entry open, and nothing below depends on it. Every operation holds the
  lock from its first to its last access, so it is one step.

  The second part is the contract clients of such a map rely on, as the locale \<open>keyed_store\<close>.
\<close>

section \<open>Operations\<close>

type_synonym ('k, 'v) MapT = "('k \<times> 'v) list"

definition eco_error :: int where "eco_error = - 2"

definition Map_size :: "('k, 'v) MapT \<Rightarrow> nat" where
  "Map_size m = length m"

definition Map_set :: "('k, 'v) MapT \<Rightarrow> 'k \<Rightarrow> 'v \<Rightarrow> ('k, 'v) MapT" where
  "Map_set m i v = AList.update i v m"

definition Map_find :: "('k, 'v) MapT \<Rightarrow> 'k \<Rightarrow> 'v option" where
  "Map_find m i = map_of m i"

definition Map_get_object :: "('k, 'v) MapT \<Rightarrow> 'k \<Rightarrow> ('k \<Rightarrow> 'v) \<Rightarrow> ('k, 'v) MapT \<times> 'v" where
  "Map_get_object m i make_func =
     (case map_of m i of Some v \<Rightarrow> (m, v)
      | None \<Rightarrow> let v = make_func i in (AList.update i v m, v))"

text \<open>\<open>get\<close> inserts a default-constructed value for a missing key.\<close>

definition Map_get :: "'v \<Rightarrow> ('k, 'v) MapT \<Rightarrow> 'k \<Rightarrow> ('k, 'v) MapT \<times> 'v" where
  "Map_get dflt m i =
     (case map_of m i of Some v \<Rightarrow> (m, v) | None \<Rightarrow> (AList.update i dflt m, dflt))"

definition Map_at :: "('k, 'v) MapT \<Rightarrow> 'k \<Rightarrow> 'v outcome" where
  "Map_at m i = (case Map_find m i of Some v \<Rightarrow> Ok v | None \<Rightarrow> Err 0)"

definition Map_has :: "('k, 'v) MapT \<Rightarrow> 'k \<Rightarrow> bool" where
  "Map_has m i = (map_of m i \<noteq> None)"

definition Map_pop_eid :: "'v \<Rightarrow> ('k, 'v) MapT \<Rightarrow> 'k \<Rightarrow> ('k, 'v) MapT \<times> 'v \<times> int" where
  "Map_pop_eid dflt m i =
     (case map_of m i of None \<Rightarrow> (m, dflt, eco_error) | Some v \<Rightarrow> (AList.delete i m, v, 0))"

definition Map_pop :: "'v \<Rightarrow> ('k, 'v) MapT \<Rightarrow> 'k \<Rightarrow> (('k, 'v) MapT \<times> 'v) outcome" where
  "Map_pop dflt m i =
     (case Map_pop_eid dflt m i of (m', v, eid) \<Rightarrow> if eid \<noteq> 0 then Err eid else Ok (m', v))"

definition Map_erase :: "('k, 'v) MapT \<Rightarrow> 'k \<Rightarrow> ('k, 'v) MapT" where
  "Map_erase m i = (case map_of m i of Some v \<Rightarrow> AList.delete i m | None \<Rightarrow> m)"

definition Map_clear :: "('k, 'v) MapT \<Rightarrow> ('k, 'v) MapT" where
  "Map_clear m = []"

definition Map_wf :: "('k, 'v) MapT \<Rightarrow> bool" where
  "Map_wf m = distinct (map fst m)"

section \<open>The contract\<close>

locale keyed_store =
  fixes find :: "'s \<Rightarrow> 'k \<Rightarrow> 'v option"
    and put :: "'s \<Rightarrow> 'k \<Rightarrow> 'v \<Rightarrow> 's"
    and del :: "'s \<Rightarrow> 'k \<Rightarrow> 's"
    and count :: "'s \<Rightarrow> nat"
    and wf :: "'s \<Rightarrow> bool"
  assumes find_put: "wf s \<Longrightarrow> find (put s k v) = (find s)(k \<mapsto> v)"
    and find_del: "wf s \<Longrightarrow> find (del s k) = (find s)(k := None)"
    and finite_dom: "finite (dom (find s))"
    and count_dom: "wf s \<Longrightarrow> count s = card (dom (find s))"
    and wf_put: "wf s \<Longrightarrow> wf (put s k v)"
    and wf_del: "wf s \<Longrightarrow> wf (del s k)"
begin

lemma dom_put: "wf s \<Longrightarrow> dom (find (put s k v)) = insert k (dom (find s))"
  by (simp add: find_put)

lemma dom_del: "wf s \<Longrightarrow> dom (find (del s k)) = dom (find s) - {k}"
  by (simp add: find_del)

lemma count_put: "wf s \<Longrightarrow> count (put s k v) = (if find s k = None then Suc (count s) else count s)"
  using finite_dom [of s] by (auto simp: count_dom wf_put dom_put card_insert_if)

lemma count_del: "wf s \<Longrightarrow> count (del s k) = (if find s k = None then count s else count s - 1)"
  using finite_dom [of s] by (auto simp: count_dom wf_del dom_del card_Diff_singleton_if)

end

interpretation map_store: keyed_store Map_find Map_set Map_erase Map_size Map_wf
proof
  fix s :: "('k, 'v) MapT" and k :: 'k and v :: 'v
  show "finite (dom (Map_find s))" by (simp add: Map_find_def [abs_def] finite_dom_map_of)
  assume wf: "Map_wf s"
  show "Map_find (Map_set s k v) = (Map_find s)(k \<mapsto> v)"
    by (simp add: Map_find_def [abs_def] Map_set_def update_conv')
  show "Map_find (Map_erase s k) = (Map_find s)(k := None)"
    by (auto simp: Map_find_def [abs_def] Map_erase_def delete_conv' split: option.splits)
  show "Map_size s = card (dom (Map_find s))"
    using wf by (metis Map_find_def Map_size_def Map_wf_def distinct_card dom_map_of_conv_image_fst
        image_set length_map ext)
  show "Map_wf (Map_set s k v)" using wf by (simp add: Map_wf_def Map_set_def distinct_update)
  show "Map_wf (Map_erase s k)"
    using wf by (auto simp: Map_wf_def Map_erase_def distinct_delete split: option.splits)
qed

end
