(* ===== verification/Eco_PeerSet.thy ===== *)
theory Eco_PeerSet
  imports Eco_TcpPeer Eco_Map
begin

text \<open>
  The connections of a server: \<open>TcpPeerSet\<close> of \<open>src/project/eco/prj/src/net/TcpPeerSet.h\<close>. The set owns
  its peers (every other reference to a peer is weak), so a peer that is erased from it is gone.
  Each operation holds the lock of the set and is one step. The calls the peers make meanwhile are
  listed with the connection that makes them.

  The lemmas say which peers an operation keeps, and in which state.
\<close>

section \<open>Operations\<close>

type_synonym TcpPeerMap = "(ConnectionId, Peer) MapT"
type_synonym peer_call = "ConnectionId \<times> action"

record TcpPeerSet =
  m_max_conn_size :: u32
  m_peer_map :: TcpPeerMap

definition TcpPeerSet_new :: "u32 \<Rightarrow> TcpPeerSet" where
  "TcpPeerSet_new max_size = \<lparr>m_max_conn_size = max_size, m_peer_map = []\<rparr>"

definition PeerSet_clear :: "TcpPeerSet \<Rightarrow> TcpPeerSet" where
  "PeerSet_clear s = s\<lparr>m_peer_map := []\<rparr>"

definition set_max_connection_size :: "u32 \<Rightarrow> TcpPeerSet \<Rightarrow> TcpPeerSet" where
  "set_max_connection_size n s = s\<lparr>m_max_conn_size := n\<rparr>"

definition PeerSet_add :: "Peer \<Rightarrow> TcpPeerSet \<Rightarrow> TcpPeerSet \<times> bool" where
  "PeerSet_add p s =
     (if unat (m_max_conn_size s) < length (m_peer_map s) then (s, False)
      else (s\<lparr>m_peer_map := AList.update (p_id p) p (m_peer_map s)\<rparr>, True))"

definition PeerSet_erase :: "ConnectionId \<Rightarrow> TcpPeerSet \<Rightarrow> TcpPeerSet" where
  "PeerSet_erase c s =
     (case map_of (m_peer_map s) c of
        Some _ \<Rightarrow> s\<lparr>m_peer_map := AList.delete c (m_peer_map s)\<rparr>
      | None \<Rightarrow> s)"

text \<open>The two ways of sending a heartbeat to every peer differ in the operation of the peer.\<close>

fun for_peers ::
  "(Peer \<Rightarrow> (Peer \<times> action list) outcome) \<Rightarrow> TcpPeerMap \<Rightarrow> (TcpPeerMap \<times> peer_call list) outcome" where
  "for_peers f [] = Ok ([], [])"
| "for_peers f ((c, p) # m) =
     obind (f p) (\<lambda>(p1, acts).
     obind (for_peers f m) (\<lambda>(m1, calls).
       Ok ((c, p1) # m1, map (Pair c) acts @ calls)))"

definition send_rhythm_heartbeat ::
  "ProtocolHead \<Rightarrow> TcpPeerSet \<Rightarrow> (TcpPeerSet \<times> peer_call list) outcome" where
  "send_rhythm_heartbeat head s =
     obind (for_peers (async_send_heartbeat head) (m_peer_map s)) (\<lambda>(m, calls).
       Ok (s\<lparr>m_peer_map := m\<rparr>, calls))"

definition send_live_heartbeat ::
  "ProtocolHead \<Rightarrow> TcpPeerSet \<Rightarrow> (TcpPeerSet \<times> peer_call list) outcome" where
  "send_live_heartbeat head s =
     obind (for_peers (async_send_live_heartbeat head) (m_peer_map s)) (\<lambda>(m, calls).
       Ok (s\<lparr>m_peer_map := m\<rparr>, calls))"

fun clean_dead :: "TcpPeerMap \<Rightarrow> TcpPeerMap \<times> peer_call list" where
  "clean_dead [] = ([], [])"
| "clean_dead ((c, p) # m) =
     (let (m1, calls) = clean_dead m in
      if peer_live (p_state p)
      then ((c, p\<lparr>p_state := set_peer_live (p_state p) False\<rparr>) # m1, calls)
      else (m1, map (Pair c) (snd (peer_close p)) @ calls))"

definition clean_dead_peer :: "TcpPeerSet \<Rightarrow> TcpPeerSet \<times> peer_call list" where
  "clean_dead_peer s = (let (m, calls) = clean_dead (m_peer_map s) in (s\<lparr>m_peer_map := m\<rparr>, calls))"

fun clean_inactive :: "TcpPeerMap \<Rightarrow> TcpPeerMap \<times> peer_call list" where
  "clean_inactive [] = ([], [])"
| "clean_inactive ((c, p) # m) =
     (let (m1, calls) = clean_inactive m in
      if peer_active (p_state p)
      then ((c, p\<lparr>p_state := set_peer_active (p_state p) False\<rparr>) # m1, calls)
      else (m1, map (Pair c) (snd (peer_close p)) @ calls))"

definition clean_inactive_peer :: "TcpPeerSet \<Rightarrow> TcpPeerSet \<times> peer_call list" where
  "clean_inactive_peer s =
     (let (m, calls) = clean_inactive (m_peer_map s) in (s\<lparr>m_peer_map := m\<rparr>, calls))"

section \<open>Facts\<close>

definition PeerSet_find :: "TcpPeerSet \<Rightarrow> ConnectionId \<Rightarrow> Peer option" where
  "PeerSet_find s c = map_of (m_peer_map s) c"

text \<open>The set is well formed when it is a map and every peer is filed under its own id.\<close>

definition PeerSet_wf :: "TcpPeerSet \<Rightarrow> bool" where
  "PeerSet_wf s \<longleftrightarrow> distinct (map fst (m_peer_map s)) \<and> (\<forall>x \<in> set (m_peer_map s). p_id (snd x) = fst x)"

lemma PeerSet_wf_find: "PeerSet_wf s \<Longrightarrow> PeerSet_find s c = Some p \<Longrightarrow> p_id p = c"
  by (auto simp: PeerSet_wf_def PeerSet_find_def dest!: map_of_SomeD)

lemma clean_inactive_eq:
  "fst (clean_inactive m) = map (\<lambda>(c, p). (c, p\<lparr>p_state := set_peer_active (p_state p) False\<rparr>))
     (filter (\<lambda>(c, p). peer_active (p_state p)) m)"
  by (induction m rule: clean_inactive.induct) (auto simp: Let_def split: prod.splits)

lemma clean_dead_eq:
  "fst (clean_dead m) = map (\<lambda>(c, p). (c, p\<lparr>p_state := set_peer_live (p_state p) False\<rparr>))
     (filter (\<lambda>(c, p). peer_live (p_state p)) m)"
  by (induction m rule: clean_dead.induct) (auto simp: Let_def split: prod.splits)

lemma map_of_update_filter:
  "distinct (map fst m) \<Longrightarrow> map_of (map (\<lambda>(c, p). (c, f p)) (filter (\<lambda>(c, p). P p) m)) c =
     (case map_of m c of Some p \<Rightarrow> if P p then Some (f p) else None | None \<Rightarrow> None)"
  by (induction m) (auto split: option.splits simp: map_of_eq_None_iff image_iff
      dest!: map_of_SomeD)

lemma distinct_update_filter:
  "distinct (map fst m) \<Longrightarrow> distinct (map fst (map (\<lambda>(c, p). (c, f p)) (filter (\<lambda>(c, p). P p) m)))"
  by (simp add: distinct_map_filter comp_def split_beta)

lemma clean_inactive_peer_sel [simp]:
  "m_peer_map (fst (clean_inactive_peer s)) = fst (clean_inactive (m_peer_map s))"
  "m_max_conn_size (fst (clean_inactive_peer s)) = m_max_conn_size s"
  by (simp_all add: clean_inactive_peer_def split: prod.splits)

lemma clean_inactive_find:
  "PeerSet_wf s \<Longrightarrow> PeerSet_find (fst (clean_inactive_peer s)) c =
     (case PeerSet_find s c of
        Some p \<Rightarrow> if peer_active (p_state p)
                then Some (p\<lparr>p_state := set_peer_active (p_state p) False\<rparr>) else None
      | None \<Rightarrow> None)"
  by (simp add: PeerSet_wf_def PeerSet_find_def clean_inactive_eq map_of_update_filter)

lemma clean_inactive_wf: "PeerSet_wf s \<Longrightarrow> PeerSet_wf (fst (clean_inactive_peer s))"
  using distinct_update_filter [of "m_peer_map s"] by (auto simp: PeerSet_wf_def clean_inactive_eq)

lemma PeerSet_add_wf: "PeerSet_wf s \<Longrightarrow> PeerSet_wf (fst (PeerSet_add p s))"
proof -
  have "(\<forall>x \<in> set m. p_id (snd x) = fst x) \<Longrightarrow> (\<forall>x \<in> set (AList.update (p_id p) p m). p_id (snd x) = fst x)" for m
    by (induction m) (auto split: if_splits)
  from this [of "m_peer_map s"] show "PeerSet_wf s \<Longrightarrow> PeerSet_wf (fst (PeerSet_add p s))"
    by (simp add: PeerSet_wf_def PeerSet_add_def distinct_update)
qed

lemma PeerSet_erase_wf: "PeerSet_wf s \<Longrightarrow> PeerSet_wf (PeerSet_erase c s)"
  by (auto simp: PeerSet_wf_def PeerSet_erase_def AList.delete_eq distinct_map_filter split: option.splits)

lemma PeerSet_add_find:
  "PeerSet_add p s = (s', True) \<Longrightarrow> PeerSet_find s' = (PeerSet_find s)(p_id p \<mapsto> p)"
  by (auto simp: PeerSet_add_def PeerSet_find_def [abs_def] update_conv' split: if_splits)

lemma PeerSet_erase_find: "PeerSet_find (PeerSet_erase c s) = (PeerSet_find s)(c := None)"
  by (auto simp: PeerSet_find_def [abs_def] PeerSet_erase_def delete_conv' split: option.splits)

end
