(* ===== verification/Eco_Sessions.thy ===== *)
theory Eco_Sessions
  imports Eco_Map Eco_Atomic Eco_Message
begin

text \<open>
  The session table of the server, in \<open>src/project/eco/prj/src/net/TcpServer.ipp\<close> and
  \<open>TcpServer.cpp\<close>: the counter and the stack of recycled session ids, the map from ids to session
  data, and the set of sessions of each connection. The mutexes make each operation (or, in
  \<open>add_session\<close> and \<open>erase_session\<close>, each of their calls) one step; the operations run one after
  the other here.

  \<open>Sessions_wf\<close> says that the table is consistent: ids in use and recycled ids are distinct,
  and every id in use belongs to exactly one connection. It is kept by every operation as long
  as a session is erased under the connection it was opened on.
\<close>

section \<open>Operations\<close>

type_synonym SessionId = u32
type_synonym ConnId = u64

record 'd Sessions =
  m_next_session_id :: u32
  m_left_session_ids :: "SessionId list"
  m_session_map :: "(SessionId, 'd) MapT"
  m_conn_session :: "(ConnId, SessionId list) MapT"

definition Sessions_new :: "'d Sessions" where
  "Sessions_new = \<lparr>m_next_session_id = none_session, m_left_session_ids = [],
                   m_session_map = [], m_conn_session = []\<rparr>"

definition next_session_id :: "'d Sessions \<Rightarrow> 'd Sessions \<times> SessionId" where
  "next_session_id t =
     (if length (m_left_session_ids t) > 0
      then (t\<lparr>m_left_session_ids := butlast (m_left_session_ids t)\<rparr>, last (m_left_session_ids t))
      else let (n, i) = Atomic_pre_inc (m_next_session_id t)
           in (t\<lparr>m_next_session_id := n\<rparr>, i))"

text \<open>The sessions of a connection are a \<open>std::set\<close>: sorted, without duplicates.\<close>

definition add_conn_session :: "ConnId \<Rightarrow> SessionId \<Rightarrow> 'd Sessions \<Rightarrow> 'd Sessions" where
  "add_conn_session c i t =
     (let set1 = (case Map_find (m_conn_session t) c of None \<Rightarrow> [] | Some s \<Rightarrow> s)
      in t\<lparr>m_conn_session := Map_set (m_conn_session t) c (if i \<in> set set1 then set1 else insort i set1)\<rparr>)"

definition erase_conn_session :: "ConnId \<Rightarrow> SessionId \<Rightarrow> 'd Sessions \<Rightarrow> 'd Sessions \<times> bool" where
  "erase_conn_session c i t =
     (case Map_find (m_conn_session t) c of
        Some s \<Rightarrow> (t\<lparr>m_conn_session := Map_set (m_conn_session t) c (remove1 i s)\<rparr>, True)
      | None \<Rightarrow> (t, False))"

definition find_session :: "'d Sessions \<Rightarrow> SessionId \<Rightarrow> 'd option" where
  "find_session t i = Map_find (m_session_map t) i"

definition add_session ::
  "(SessionId \<Rightarrow> ConnId \<Rightarrow> 'd) option \<Rightarrow> u32 \<Rightarrow> ConnId \<Rightarrow> 'd Sessions \<Rightarrow> 'd Sessions \<times> SessionId option" where
  "add_session make_session max_session_size c t =
     (case make_session of
        None \<Rightarrow> (t, None)
      | Some make_func \<Rightarrow>
          if Map_size (m_session_map t) \<ge> unat max_session_size then (t, None)
          else let (t1, i) = next_session_id t;
                   t2 = t1\<lparr>m_session_map := Map_set (m_session_map t1) i (make_func i c)\<rparr>
               in (add_conn_session c i t2, Some i))"

definition erase_session :: "SessionId \<Rightarrow> ConnId \<Rightarrow> 'd Sessions \<Rightarrow> 'd Sessions" where
  "erase_session i c t =
     (let t1 = (if Map_has (m_session_map t) i
                then t\<lparr>m_session_map := Map_erase (m_session_map t) i,
                       m_left_session_ids := m_left_session_ids t @ [i]\<rparr>
                else t)
      in fst (erase_conn_session c i t1))"

definition recycle :: "'d Sessions \<Rightarrow> SessionId \<Rightarrow> 'd Sessions" where
  "recycle t i =
     t\<lparr>m_session_map := Map_erase (m_session_map t) i, m_left_session_ids := m_left_session_ids t @ [i]\<rparr>"

definition clear_conn_session :: "ConnId \<Rightarrow> 'd Sessions \<Rightarrow> 'd Sessions" where
  "clear_conn_session c t =
     (case Map_find (m_conn_session t) c of
        Some s \<Rightarrow> let t1 = foldl recycle t s
                  in t1\<lparr>m_conn_session := Map_erase (m_conn_session t1) c\<rparr>
      | None \<Rightarrow> t)"

section \<open>Consistency\<close>

definition live_ids :: "'d Sessions \<Rightarrow> SessionId set" where
  "live_ids t = dom (Map_find (m_session_map t))"

definition owned :: "'d Sessions \<Rightarrow> ConnId \<Rightarrow> SessionId list" where
  "owned t c = (case Map_find (m_conn_session t) c of None \<Rightarrow> [] | Some s \<Rightarrow> s)"

definition Sessions_wf :: "'d Sessions \<Rightarrow> bool" where
  "Sessions_wf t \<longleftrightarrow>
     Map_wf (m_session_map t) \<and> Map_wf (m_conn_session t)
     \<and> distinct (m_left_session_ids t) \<and> set (m_left_session_ids t) \<inter> live_ids t = {}
     \<and> (\<forall>i \<in> set (m_left_session_ids t) \<union> live_ids t. 0 < i \<and> i \<le> m_next_session_id t)
     \<and> (\<forall>c. distinct (owned t c)) \<and> (\<Union>c. set (owned t c)) = live_ids t
     \<and> (\<forall>c d. c \<noteq> d \<longrightarrow> set (owned t c) \<inter> set (owned t d) = {})"

section \<open>Facts\<close>

lemmas store_simps = map_store.find_put map_store.find_del map_store.wf_put map_store.wf_del
  map_store.dom_put map_store.dom_del

lemma Sessions_new_wf: "Sessions_wf Sessions_new"
  by (simp add: Sessions_wf_def Sessions_new_def Map_wf_def live_ids_def owned_def Map_find_def [abs_def] dom_def)

lemma owned_add:
  "Map_wf (m_conn_session t) \<Longrightarrow> set (owned (add_conn_session c i t) d) =
     (if d = c then insert i (set (owned t c)) else set (owned t d))"
  "Map_wf (m_conn_session t) \<Longrightarrow> distinct (owned t d) \<Longrightarrow> distinct (owned (add_conn_session c i t) d)"
  by (auto simp: owned_def add_conn_session_def Let_def store_simps set_insort_key distinct_insort
      split: option.splits)

lemma add_conn_session_other [simp]:
  "m_session_map (add_conn_session c i t) = m_session_map t"
  "m_left_session_ids (add_conn_session c i t) = m_left_session_ids t"
  "m_next_session_id (add_conn_session c i t) = m_next_session_id t"
  "live_ids (add_conn_session c i t) = live_ids t"
  by (simp_all add: add_conn_session_def Let_def live_ids_def)

lemma owned_erase:
  "Map_wf (m_conn_session t) \<Longrightarrow> owned (fst (erase_conn_session c i t)) d =
     (if d = c then remove1 i (owned t c) else owned t d)"
  by (auto simp: owned_def erase_conn_session_def store_simps split: option.splits)

lemma erase_conn_session_other [simp]:
  "m_session_map (fst (erase_conn_session c i t)) = m_session_map t"
  "m_left_session_ids (fst (erase_conn_session c i t)) = m_left_session_ids t"
  "m_next_session_id (fst (erase_conn_session c i t)) = m_next_session_id t"
  by (auto simp: erase_conn_session_def split: option.splits)

lemma Map_wf_conn:
  "Map_wf (m_conn_session t) \<Longrightarrow> Map_wf (m_conn_session (add_conn_session c i t))"
  "Map_wf (m_conn_session t) \<Longrightarrow> Map_wf (m_conn_session (fst (erase_conn_session c i t)))"
  by (auto simp: add_conn_session_def erase_conn_session_def Let_def store_simps split: option.splits)

text \<open>A new id is not in use, not on the stack any more, and inside the counter's range.\<close>

lemma next_session_id_fresh:
  assumes wf: "Sessions_wf t" and nx: "next_session_id t = (t1, i)"
    and room: "m_next_session_id t < - 1"
  shows "i \<notin> live_ids t" "0 < i" "i \<le> m_next_session_id t1" "m_next_session_id t \<le> m_next_session_id t1"
    "distinct (m_left_session_ids t1)" "set (m_left_session_ids t1) = set (m_left_session_ids t) - {i}"
    "m_session_map t1 = m_session_map t" "m_conn_session t1 = m_conn_session t"
proof -
  have left: "distinct (m_left_session_ids t)" "set (m_left_session_ids t) \<inter> live_ids t = {}"
    "\<forall>i \<in> set (m_left_session_ids t) \<union> live_ids t. 0 < i \<and> i \<le> m_next_session_id t"
    using wf by (auto simp: Sessions_wf_def)
  have *: "i \<notin> live_ids t \<and> 0 < i \<and> i \<le> m_next_session_id t1 \<and> m_next_session_id t \<le> m_next_session_id t1
    \<and> distinct (m_left_session_ids t1) \<and> set (m_left_session_ids t1) = set (m_left_session_ids t) - {i}
    \<and> m_session_map t1 = m_session_map t \<and> m_conn_session t1 = m_conn_session t"
  proof (cases "m_left_session_ids t = []")
    case True
    have un: "unat (m_next_session_id t + 1) = Suc (unat (m_next_session_id t))"
      using room by (rule unat_plus_one)
    have lt: "m_next_session_id t < m_next_session_id t + 1"
      by (simp add: word_less_nat_alt un)
    moreover have "0 < m_next_session_id t + 1" by (simp add: word_less_nat_alt un)
    moreover have "m_next_session_id t + 1 \<notin> live_ids t"
      using left(3) lt by (meson UnI2 not_le)
    ultimately show ?thesis
      using True nx by (auto simp: next_session_id_def Atomic_pre_inc_def exchange_add_def Let_def)
  next
    case False
    then have split: "m_left_session_ids t = butlast (m_left_session_ids t) @ [last (m_left_session_ids t)]" by simp
    let ?b = "butlast (m_left_session_ids t)" and ?l = "last (m_left_session_ids t)"
    have "distinct (?b @ [?l])" using left(1) unfolding split [symmetric] .
    then have "distinct ?b" "?l \<notin> set ?b" by (auto simp del: append_butlast_last_id)
    moreover have "set (m_left_session_ids t) = insert ?l (set ?b)" by (subst split) simp
    ultimately show ?thesis
      using False nx left(2,3) last_in_set [OF False] by (auto simp: next_session_id_def)
  qed
  then show "i \<notin> live_ids t" "0 < i" "i \<le> m_next_session_id t1" "m_next_session_id t \<le> m_next_session_id t1"
    "distinct (m_left_session_ids t1)" "set (m_left_session_ids t1) = set (m_left_session_ids t) - {i}"
    "m_session_map t1 = m_session_map t" "m_conn_session t1 = m_conn_session t"
    by blast+
qed

lemma foldl_recycle:
  "Map_wf (m_session_map t) \<Longrightarrow>
     live_ids (foldl recycle t s) = live_ids t - set s
     \<and> m_left_session_ids (foldl recycle t s) = m_left_session_ids t @ s
     \<and> m_next_session_id (foldl recycle t s) = m_next_session_id t
     \<and> m_conn_session (foldl recycle t s) = m_conn_session t
     \<and> Map_wf (m_session_map (foldl recycle t s))"
  by (induction s arbitrary: t) (auto simp: recycle_def live_ids_def store_simps)

lemma owned_clear:
  "Map_wf (m_session_map t) \<Longrightarrow> Map_wf (m_conn_session t) \<Longrightarrow>
     owned (clear_conn_session c t) d = (if d = c then [] else owned t d)"
  using foldl_recycle [of t "owned t c"]
  by (auto simp: owned_def clear_conn_session_def Let_def store_simps split: option.splits)

section \<open>The operations keep the table consistent\<close>

lemma Sessions_wfD:
  assumes "Sessions_wf t"
  shows "Map_wf (m_session_map t)" "Map_wf (m_conn_session t)" "distinct (m_left_session_ids t)"
    "set (m_left_session_ids t) \<inter> live_ids t = {}"
    "i \<in> set (m_left_session_ids t) \<Longrightarrow> 0 < i \<and> i \<le> m_next_session_id t"
    "i \<in> live_ids t \<Longrightarrow> 0 < i \<and> i \<le> m_next_session_id t"
    "distinct (owned t c)" "(\<Union>c. set (owned t c)) = live_ids t"
    "c \<noteq> d \<Longrightarrow> set (owned t c) \<inter> set (owned t d) = {}"
  using assms by (simp_all add: Sessions_wf_def)

lemma live_iff: "Sessions_wf t \<Longrightarrow> i \<in> live_ids t \<longleftrightarrow> (\<exists>c. i \<in> set (owned t c))"
  using Sessions_wfD(8) by blast

lemma owned_live: "Sessions_wf t \<Longrightarrow> i \<in> set (owned t c) \<Longrightarrow> i \<in> live_ids t"
  using Sessions_wfD(8) by blast

lemma owned_unique: "Sessions_wf t \<Longrightarrow> i \<in> set (owned t c) \<Longrightarrow> i \<in> set (owned t d) \<Longrightarrow> d = c"
  using Sessions_wfD(9) by blast

lemma add_session_wf:
  assumes wf: "Sessions_wf t" and room: "m_next_session_id t < - 1"
    and add: "add_session mk max_size c t = (t', r)"
  shows "Sessions_wf t'"
proof (cases "t' = t")
  case False
  then obtain f t1 i where f: "mk = Some f" and nx: "next_session_id t = (t1, i)"
    and t': "t' = add_conn_session c i (t1\<lparr>m_session_map := Map_set (m_session_map t1) i (f i c)\<rparr>)"
    using add by (auto simp: add_session_def Let_def split: option.splits if_splits prod.splits)
  note fresh = next_session_id_fresh [OF wf nx room]
  let ?t2 = "t1\<lparr>m_session_map := Map_set (m_session_map t1) i (f i c)\<rparr>"
  have own: "owned ?t2 d = owned t d" for d using fresh(8) by (simp add: owned_def)
  have wf2: "Map_wf (m_conn_session ?t2)" using fresh(8) Sessions_wfD(2) [OF wf] by simp
  have live: "live_ids ?t2 = insert i (live_ids t)"
    using Sessions_wfD(1) [OF wf] fresh(7) by (simp add: live_ids_def store_simps)
  have own': "set (owned t' d) = (if d = c then insert i (set (owned t c)) else set (owned t d))" for d
    unfolding t' owned_add(1) [OF wf2] own ..
  show ?thesis
    unfolding Sessions_wf_def
  proof (intro conjI)
    show "Map_wf (m_session_map t')" "Map_wf (m_conn_session t')"
      using Sessions_wfD(1) [OF wf] fresh(7) Map_wf_conn(1) [OF wf2] by (simp_all add: t' store_simps)
    show "distinct (m_left_session_ids t')" using fresh(5) by (simp add: t')
    show "set (m_left_session_ids t') \<inter> live_ids t' = {}"
      using fresh(6) Sessions_wfD(4) [OF wf] by (auto simp: t' live)
    show "\<forall>i \<in> set (m_left_session_ids t') \<union> live_ids t'. 0 < i \<and> i \<le> m_next_session_id t'"
      using fresh(2,3,4,6) Sessions_wfD(5,6) [OF wf] by (auto simp: t' live intro: order_trans)
    show "\<forall>c. distinct (owned t' c)"
      using owned_add(2) [OF wf2] Sessions_wfD(7) [OF wf] by (simp add: t' own)
    show "(\<Union>c. set (owned t' c)) = live_ids t'"
      unfolding add_conn_session_other(4) t' [THEN arg_cong [of _ _ live_ids]] live
      by (auto simp: own' live_iff [OF wf] split: if_splits)
    show "\<forall>c d. c \<noteq> d \<longrightarrow> set (owned t' c) \<inter> set (owned t' d) = {}"
      unfolding own' disjoint_iff using owned_unique [OF wf] owned_live [OF wf] fresh(1) by (metis insert_iff)
  qed
qed (use wf in simp)

lemma erase_session_wf:
  assumes wf: "Sessions_wf t" and own: "i \<in> set (owned t c)"
  shows "Sessions_wf (erase_session i c t)"
proof -
  let ?t1 = "recycle t i" and ?t' = "erase_session i c t"
  have has: "Map_has (m_session_map t) i"
    using owned_live [OF wf own] by (auto simp: Map_has_def live_ids_def Map_find_def)
  then have t': "?t' = fst (erase_conn_session c i ?t1)" by (simp add: erase_session_def recycle_def)
  have r: "live_ids ?t1 = live_ids t - {i}" "m_left_session_ids ?t1 = m_left_session_ids t @ [i]"
    "m_next_session_id ?t1 = m_next_session_id t" "m_conn_session ?t1 = m_conn_session t"
    "Map_wf (m_session_map ?t1)"
    using foldl_recycle [OF Sessions_wfD(1) [OF wf], of "[i]"] by auto
  have own': "owned ?t' d = (if d = c then remove1 i (owned t c) else owned t d)" for d
    unfolding t' using owned_erase [of ?t1] Sessions_wfD(2) [OF wf] r(4) by (simp add: owned_def)
  have live': "live_ids ?t' = live_ids t - {i}" using r(1) by (simp add: t' live_ids_def)
  show ?thesis
    unfolding Sessions_wf_def
  proof (intro conjI)
    show "Map_wf (m_session_map ?t')" "Map_wf (m_conn_session ?t')"
      using r Map_wf_conn(2) [of ?t1] Sessions_wfD(2) [OF wf] by (simp_all add: t')
    show "distinct (m_left_session_ids ?t')"
      using Sessions_wfD(3,4) [OF wf] owned_live [OF wf own] r(2) by (auto simp: t')
    show "set (m_left_session_ids ?t') \<inter> live_ids ?t' = {}"
      using Sessions_wfD(4) [OF wf] r(2) live' by (auto simp: t')
    show "\<forall>j \<in> set (m_left_session_ids ?t') \<union> live_ids ?t'. 0 < j \<and> j \<le> m_next_session_id ?t'"
      using Sessions_wfD(5,6) [OF wf] r(2,3) owned_live [OF wf own] live' by (auto simp: t')
    show "\<forall>c. distinct (owned ?t' c)" using Sessions_wfD(7) [OF wf] by (simp add: own')
    show "(\<Union>c. set (owned ?t' c)) = live_ids ?t'"
    proof (rule set_eqI)
      fix j
      have "j \<in> set (owned ?t' d) \<longleftrightarrow> j \<in> set (owned t d) \<and> j \<noteq> i" for d
        using own owned_unique [OF wf, of i] Sessions_wfD(7) [OF wf] by (auto simp: own')
      then show "j \<in> (\<Union>c. set (owned ?t' c)) \<longleftrightarrow> j \<in> live_ids ?t'"
        by (simp add: live' live_iff [OF wf])
    qed
    have "set (owned ?t' d) \<subseteq> set (owned t d)" for d
      by (simp add: own' set_remove1_subset)
    then show "\<forall>c d. c \<noteq> d \<longrightarrow> set (owned ?t' c) \<inter> set (owned ?t' d) = {}"
      using owned_unique [OF wf] by blast
  qed
qed

lemma clear_conn_session_wf:
  assumes wf: "Sessions_wf t"
  shows "Sessions_wf (clear_conn_session c t)"
proof -
  let ?t1 = "foldl recycle t (owned t c)" and ?t' = "clear_conn_session c t"
  note r = foldl_recycle [OF Sessions_wfD(1) [OF wf], of "owned t c"]
  have own': "owned ?t' d = (if d = c then [] else owned t d)" for d
    by (rule owned_clear [OF Sessions_wfD(1,2) [OF wf]])
  have other: "m_left_session_ids ?t' = m_left_session_ids t @ owned t c"
    "m_next_session_id ?t' = m_next_session_id t" "live_ids ?t' = live_ids t - set (owned t c)"
    "Map_wf (m_session_map ?t')" "Map_wf (m_conn_session ?t')"
    using r Sessions_wfD(1,2) [OF wf]
    by (auto simp: clear_conn_session_def Let_def live_ids_def owned_def store_simps split: option.splits)
  show ?thesis
    unfolding Sessions_wf_def
  proof (intro conjI)
    show "Map_wf (m_session_map ?t')" "Map_wf (m_conn_session ?t')" using other(4,5) by auto
    show "distinct (m_left_session_ids ?t')"
      using Sessions_wfD(3,4,7) [OF wf] owned_live [OF wf] by (fastforce simp: other)
    show "set (m_left_session_ids ?t') \<inter> live_ids ?t' = {}"
      using Sessions_wfD(4) [OF wf] by (auto simp: other)
    show "\<forall>j \<in> set (m_left_session_ids ?t') \<union> live_ids ?t'. 0 < j \<and> j \<le> m_next_session_id ?t'"
      using Sessions_wfD(5,6) [OF wf] owned_live [OF wf] by (auto simp: other)
    show "\<forall>c. distinct (owned ?t' c)" using Sessions_wfD(7) [OF wf] by (simp add: own')
    show "(\<Union>c. set (owned ?t' c)) = live_ids ?t'"
      using owned_unique [OF wf] by (auto simp: own' other live_iff [OF wf] split: if_splits) metis
    show "\<forall>d e. d \<noteq> e \<longrightarrow> set (owned ?t' d) \<inter> set (owned ?t' e) = {}"
      using Sessions_wfD(9) [OF wf] by (simp add: own')
  qed
qed


section \<open>Reachable tables\<close>

text \<open>
  The tables the server gets to when a session is always erased under the connection it was
  opened on. A new id is only taken while the counter has room.
\<close>

inductive sess_step :: "'d Sessions \<Rightarrow> 'd Sessions \<Rightarrow> bool" where
  sess_add: "m_next_session_id t < - 1 \<Longrightarrow> sess_step t (fst (add_session mk max_size c t))"
| sess_erase: "i \<in> set (owned t c) \<Longrightarrow> sess_step t (erase_session i c t)"
| sess_clear: "sess_step t (clear_conn_session c t)"

inductive sess_reach :: "'d Sessions \<Rightarrow> bool" where
  sess_init: "sess_reach Sessions_new"
| sess_next: "sess_reach t \<Longrightarrow> sess_step t t' \<Longrightarrow> sess_reach t'"

inductive_cases sess_stepE: "sess_step t t'"

lemma sess_step_wf: "sess_step t t' \<Longrightarrow> Sessions_wf t \<Longrightarrow> Sessions_wf t'"
  by (erule sess_stepE) (auto intro: add_session_wf erase_session_wf clear_conn_session_wf prod.collapse [symmetric])

lemma sess_reach_wf: "sess_reach t \<Longrightarrow> Sessions_wf t"
  by (induction rule: sess_reach.induct) (auto intro: Sessions_new_wf sess_step_wf)





text \<open>The id of the connection is taken on trust by \<open>erase_session\<close>: a session of
  connection \<open>c\<close> that is erased under another connection stays in the set of \<open>c\<close>, is recycled
  again when \<open>c\<close> is closed, and then the next two sessions get the same id.\<close>

theorem erase_session_foreign_duplicates:
  assumes "c \<noteq> d" "max_size \<ge> 1"
    and t1: "t1 = fst (add_session (Some f) max_size c Sessions_new)"
    and t2: "t2 = clear_conn_session c (erase_session 1 d t1)"
  shows "find_session t1 1 = Some (f 1 c) \<and> m_left_session_ids t2 = [1, 1]
    \<and> snd (add_session (Some f) 2 c t2) = Some 1
    \<and> snd (add_session (Some f) 2 d (fst (add_session (Some f) 2 c t2))) = Some 1"
proof -
  have max: "\<not> unat max_size \<le> 0" using assms(2) by (simp add: word_le_nat_alt)
  have 1: "t1 = \<lparr>m_next_session_id = 1, m_left_session_ids = [],
                m_session_map = [(1, f 1 c)], m_conn_session = [(c, [1])]\<rparr>"
    using max by (simp add: t1 add_session_def Sessions_new_def next_session_id_def Atomic_pre_inc_def
      exchange_add_def Let_def Map_size_def none_session_def Map_find_def Map_set_def add_conn_session_def)
  have 2: "t2 = \<lparr>m_next_session_id = 1, m_left_session_ids = [1, 1],
                m_session_map = [], m_conn_session = []\<rparr>"
    using assms(1) by (simp add: t2 1 erase_session_def clear_conn_session_def erase_conn_session_def recycle_def
      Let_def Map_find_def Map_set_def Map_has_def Map_erase_def)
  show ?thesis
    using assms(1) by (simp add: 1 2 add_session_def next_session_id_def Let_def Map_size_def find_session_def
      Map_find_def Map_set_def add_conn_session_def)
qed

lemma erase_session_foreign_duplicates_witness:
  "snd (add_session (Some (\<lambda>i c. c)) 2 8 (fst (add_session (Some (\<lambda>i c. c)) 2 7
     (clear_conn_session 7 (erase_session 1 8 (fst (add_session (Some (\<lambda>i c. c)) 9 7 Sessions_new)))))))
   = Some 1"
  using erase_session_foreign_duplicates [of 7 8 9 _ "\<lambda>i c. c" _, OF _ _ refl refl] by simp

end
