(* ===== verification/Eco_TcpServer.thy ===== *)
theory Eco_TcpServer
  imports Eco_PeerSet Eco_Sessions
begin

text \<open>
  The TCP server: \<open>src/project/eco/prj/src/net/TcpServer.cpp\<close>, \<open>TcpServer.ipp\<close>, \<open>TcpServerOption.cpp\<close>, the
  dispatching of a received message to the user's handler in \<open>DispatchServer.cpp\<close>, and what the
  handler can do with its session in \<open>TcpSession.cpp\<close> and \<open>TcpOuter.h\<close>.

  The state is the option record, the protocols, the peer set, the session table and the queue of
  messages posted to the business threads. What the server asks of its acceptor, its timer, its
  thread pool and its peers' sockets is listed as calls, in order. The threads of the server take
  turns: an event of a peer, a tick of the timer, and the handling of a posted message are each one
  step.
\<close>

section \<open>Options\<close>

record TcpServerOption =
  opt_router :: bytes
  opt_name :: bytes
  opt_port :: u32
  opt_max_connection_size :: u32
  opt_max_session_size :: u32
  opt_tick_time :: u32
  opt_tick_count :: u32
  opt_heartbeat_send_tick :: u32
  opt_heartbeat_recv_tick :: u32
  opt_clean_inactive_peer_tick :: u32
  opt_rhythm_heartbeat :: u16
  opt_response_heartbeat :: u16
  opt_no_delay :: u16
  opt_io_heartbeat :: u16
  opt_websocket :: u16
  opt_io_thread_size :: u16
  opt_business_thread_size :: u16

definition TcpServerOption_init :: TcpServerOption where
  "TcpServerOption_init = \<lparr>opt_router = [], opt_name = [], opt_port = 0, opt_max_connection_size = 0,
     opt_max_session_size = 0, opt_tick_time = 0, opt_tick_count = 0, opt_heartbeat_send_tick = 0,
     opt_heartbeat_recv_tick = 0, opt_clean_inactive_peer_tick = 0, opt_rhythm_heartbeat = 1,
     opt_response_heartbeat = 0, opt_no_delay = 0, opt_io_heartbeat = 0, opt_websocket = 0,
     opt_io_thread_size = 0, opt_business_thread_size = 0\<rparr>"

definition reset_tick :: "TcpServerOption \<Rightarrow> TcpServerOption" where
  "reset_tick opt = opt\<lparr>opt_tick_count := 0\<rparr>"

definition step_tick :: "u32 \<Rightarrow> TcpServerOption \<Rightarrow> TcpServerOption" where
  "step_tick step opt = opt\<lparr>opt_tick_count := opt_tick_count opt + step\<rparr>"

definition has_tick_timer :: "TcpServerOption \<Rightarrow> bool" where
  "has_tick_timer opt = (opt_tick_time opt > 0)"

section \<open>The server\<close>

text \<open>\<open>dc_peer\<close> is a weak reference: the peer may be gone when the message is handled.\<close>

record DataContext =
  dc_category :: MessageCategory
  dc_data :: bytes
  dc_peer :: ConnectionId
  dc_prot :: "Protocol option"

datatype server_call =
    DispatchRun u32
  | Listen u16 u16
  | SetTimer u32
  | AsyncAccept
  | PeerCall ConnectionId action

record 'd Server =
  srv_option :: TcpServerOption
  srv_prot_head :: "ProtocolHead option"
  srv_protocol_set :: "(u32, Protocol) MapT"
  srv_peer_set :: TcpPeerSet
  srv_make_connection :: bool
  srv_make_session :: "(SessionId \<Rightarrow> ConnId \<Rightarrow> 'd) option"
  srv_sessions :: "'d Sessions"
  srv_posted :: "DataContext list"

definition max_conn_size :: u32 where "max_conn_size = 10000"

definition e_server_no_port :: int where "e_server_no_port = - 1206"

definition Server_new :: "'d Server" where
  "Server_new = \<lparr>srv_option = TcpServerOption_init, srv_prot_head = None, srv_protocol_set = [],
     srv_peer_set = TcpPeerSet_new 1024, srv_make_connection = False, srv_make_session = None,
     srv_sessions = Sessions_new, srv_posted = []\<rparr>"

definition set_protocol_head :: "ProtocolHead \<Rightarrow> 'd Server \<Rightarrow> 'd Server" where
  "set_protocol_head v s = s\<lparr>srv_prot_head := Some v\<rparr>"

definition set_protocol :: "Protocol \<Rightarrow> 'd Server \<Rightarrow> 'd Server" where
  "set_protocol p s = s\<lparr>srv_protocol_set := AList.update (prot_version p) p []\<rparr>"

definition register_protocol :: "Protocol \<Rightarrow> 'd Server \<Rightarrow> 'd Server" where
  "register_protocol p s = s\<lparr>srv_protocol_set := AList.update (prot_version p) p (srv_protocol_set s)\<rparr>"

definition find_protocol :: "u32 \<Rightarrow> 'd Server \<Rightarrow> Protocol option" where
  "find_protocol version s = map_of (srv_protocol_set s) version"

definition set_tick_timer :: "TcpServerOption \<Rightarrow> server_call list" where
  "set_tick_timer opt = (if has_tick_timer opt then [SetTimer (opt_tick_time opt)] else [])"

text \<open>The default of an option that was left at zero.\<close>

definition start_option :: "TcpServerOption \<Rightarrow> TcpServerOption" where
  "start_option o0 =
     (let o1 = (if opt_max_connection_size o0 = 0 then o0\<lparr>opt_max_connection_size := max_conn_size\<rparr> else o0);
          o2 = (if opt_max_session_size o1 = 0
                then o1\<lparr>opt_max_session_size := opt_max_connection_size o1 * 100\<rparr> else o1);
          o3 = (if opt_io_thread_size o2 = 0 then o2\<lparr>opt_io_thread_size := 2\<rparr> else o2)
      in if opt_business_thread_size o3 = 0 then o3\<lparr>opt_business_thread_size := 4\<rparr> else o3)"

definition TcpServer_start :: "'d Server \<Rightarrow> ('d Server \<times> server_call list) outcome" where
  "TcpServer_start s =
     (if opt_port (srv_option s) = 0 then Err e_server_no_port
      else let s1 = (if 0 < opt_websocket (srv_option s)
                     then set_protocol (WebSocketProtocol_protocol False) (set_protocol_head WebSocketProtocolHeadEx s)
                     else if srv_prot_head s = None \<or> srv_protocol_set s = []
                          then set_protocol TcpProtocol_protocol (set_protocol_head TcpProtocolHead s)
                          else s);
               opt = start_option (srv_option s1);
               s2 = s1\<lparr>srv_option := opt,
                        srv_peer_set := set_max_connection_size (opt_max_connection_size opt) (srv_peer_set s1)\<rparr>
           in Ok (s2, [DispatchRun (ucast (opt_business_thread_size opt)),
                       Listen (ucast (opt_port opt)) (opt_io_thread_size opt)] @ set_tick_timer opt))"

section \<open>Connections\<close>

text \<open>The server as the handler of its peers.\<close>

definition server_handler :: "ProtocolHead \<Rightarrow> 'd Server \<Rightarrow> Handler" where
  "server_handler head s =
     \<lparr>hdl_head = head, hdl_websocket = (0 < opt_websocket (srv_option s)), hdl_key = []\<rparr>"

definition store_peer :: "ConnectionId \<Rightarrow> Peer \<Rightarrow> 'd Server \<Rightarrow> 'd Server" where
  "store_peer c p s =
     s\<lparr>srv_peer_set := (srv_peer_set s)\<lparr>m_peer_map := AList.update c p (m_peer_map (srv_peer_set s))\<rparr>\<rparr>"

definition on_accept ::
  "ProtocolHead \<Rightarrow> Peer \<Rightarrow> bool \<Rightarrow> 'd Server \<Rightarrow> 'd Server \<times> server_call list" where
  "on_accept head p err s =
     (if err then (s, [])
      else let p1 = peer_set_connected p;
               p2 = p1\<lparr>p_state := set_server (p_state p1)\<rparr>;
               (ps, added) = PeerSet_add p2 (srv_peer_set s)
           in if added then
                let (p3, acts) = (if 0 < opt_websocket (srv_option s) then async_recv_shakehand p2
                                  else async_recv_by_server (server_handler head s) p2)
                in (store_peer (p_id p) p3 (s\<lparr>srv_peer_set := ps\<rparr>), map (PeerCall (p_id p)) acts @ [AsyncAccept])
              else (s, map (PeerCall (p_id p)) (snd (peer_close p2)) @ [AsyncAccept]))"

definition on_close :: "ConnectionId \<Rightarrow> 'd Server \<Rightarrow> 'd Server" where
  "on_close c s =
     s\<lparr>srv_peer_set := PeerSet_erase c (srv_peer_set s),
       srv_sessions := clear_conn_session c (srv_sessions s)\<rparr>"

definition on_read ::
  "ProtocolHead \<Rightarrow> Peer \<Rightarrow> bytes \<Rightarrow> 'd Server \<Rightarrow> (Peer \<times> 'd Server \<times> action list) outcome" where
  "on_read prot_head p data s =
     (case ph_decode prot_head data of
        UB \<Rightarrow> UB
      | Err n \<Rightarrow> Ok (p, s, [])
      | Ok head \<Rightarrow>
          let heartbeat = eco_has (head_category head) category_heartbeat;
              prot = (if heartbeat then None else find_protocol (head_version head) s)
          in if \<not> heartbeat \<and> prot = None then Ok (p, s, [])
             else let p1 = (case prot of None \<Rightarrow> p | Some pr \<Rightarrow> make_connection_data (srv_make_connection s) pr p)
                  in if heartbeat \<and> 0 < opt_io_heartbeat (srv_option s) then
                       let p2 = p1\<lparr>p_state := set_peer_live (p_state p1) True\<rparr>
                       in if 0 < opt_response_heartbeat (srv_option s)
                          then obind (async_send_heartbeat prot_head p2) (\<lambda>(p3, acts). Ok (p3, s, acts))
                          else Ok (p2, s, [])
                     else Ok (p1, s\<lparr>srv_posted := srv_posted s @
                       [\<lparr>dc_category = head_category head, dc_data = data, dc_peer = p_id p, dc_prot = prot\<rparr>]\<rparr>, []))"

text \<open>
  What a peer does in one of its events: the calls to the server are carried out, the calls to the
  socket are listed. The peer is stored again unless the server has dropped it.
\<close>

fun run_actions ::
  "ProtocolHead \<Rightarrow> Peer \<Rightarrow> action list \<Rightarrow> 'd Server \<Rightarrow> ('d Server \<times> server_call list) outcome" where
  "run_actions head p [] s = Ok (store_peer (p_id p) p s, [])"
| "run_actions head p (NotifyRead data # acts) s =
     obind (on_read head p data s) (\<lambda>(p1, s1, a1).
     obind (run_actions head p1 acts s1) (\<lambda>(s2, calls).
       Ok (s2, map (PeerCall (p_id p)) a1 @ calls)))"
| "run_actions head p (NotifyClose c # acts) s = Ok (on_close c s, [])"
| "run_actions head p (a # acts) s =
     obind (run_actions head p acts s) (\<lambda>(s2, calls). Ok (s2, PeerCall (p_id p) a # calls))"

text \<open>
  A completed socket operation reaches its peer through a weak reference; it is ignored when the
  peer is gone.
\<close>

definition peer_event ::
  "ProtocolHead \<Rightarrow> (Peer \<Rightarrow> (Peer \<times> action list) outcome) \<Rightarrow> ConnectionId \<Rightarrow> 'd Server \<Rightarrow>
     ('d Server \<times> server_call list) outcome" where
  "peer_event head event c s =
     (case PeerSet_find (srv_peer_set s) c of
        None \<Rightarrow> Ok (s, [])
      | Some p \<Rightarrow> obind (event p) (\<lambda>(p1, acts). run_actions head p1 acts s))"

section \<open>The tick timer\<close>

text \<open>Sending heartbeats and closing dead peers are commented out in the code; only the counting is left.\<close>

definition on_timer :: "bool \<Rightarrow> 'd Server \<Rightarrow> 'd Server \<times> server_call list" where
  "on_timer err s =
     (if err then (s, [])
      else let opt = step_tick 1 (srv_option s);
               s1 = s\<lparr>srv_option := opt\<rparr>;
               (ps, calls) =
                 (if 0 < opt_clean_inactive_peer_tick opt
                     \<and> opt_tick_count opt mod opt_clean_inactive_peer_tick opt = 0
                  then clean_inactive_peer (srv_peer_set s1) else (srv_peer_set s1, []))
           in (s1\<lparr>srv_peer_set := ps\<rparr>, map (\<lambda>(c, a). PeerCall c a) calls @ set_tick_timer opt))"

definition server_send_heartbeat :: "ProtocolHead \<Rightarrow> 'd Server \<Rightarrow> ('d Server \<times> server_call list) outcome" where
  "server_send_heartbeat head s =
     obind (if 0 < opt_rhythm_heartbeat (srv_option s) then send_rhythm_heartbeat head (srv_peer_set s)
            else send_live_heartbeat head (srv_peer_set s))
       (\<lambda>(ps, calls). Ok (s\<lparr>srv_peer_set := ps\<rparr>, map (\<lambda>(c, a). PeerCall c a) calls))"

definition TcpServer_stop :: "'d Server \<Rightarrow> 'd Server" where
  "TcpServer_stop s = s\<lparr>srv_peer_set := PeerSet_clear (srv_peer_set s)\<rparr>"

section \<open>Starting\<close>

lemma start_option_sel [simp]:
  "opt_port (start_option o0) = opt_port o0" "opt_tick_time (start_option o0) = opt_tick_time o0"
  "opt_websocket (start_option o0) = opt_websocket o0"
  by (simp_all add: start_option_def Let_def)

text \<open>
  A server that starts has a protocol head and a protocol under its version, at least one
  io thread and one business thread, room for at least one connection, and the peer set has the
  same limit; without a port it does not start at all.
\<close>

theorem TcpServer_start_ready:
  "(opt_port (srv_option s) = 0 \<and> TcpServer_start s = Err e_server_no_port) \<or>
   (\<exists>s' calls. TcpServer_start s = Ok (s', calls) \<and> srv_prot_head s' \<noteq> None \<and> srv_protocol_set s' \<noteq> []
     \<and> 0 < opt_io_thread_size (srv_option s') \<and> 0 < opt_business_thread_size (srv_option s')
     \<and> 0 < opt_max_connection_size (srv_option s')
     \<and> m_max_conn_size (srv_peer_set s') = opt_max_connection_size (srv_option s')
     \<and> take 2 calls = [DispatchRun (ucast (opt_business_thread_size (srv_option s'))),
                       Listen (ucast (opt_port (srv_option s))) (opt_io_thread_size (srv_option s'))])"
  by (auto simp: TcpServer_start_def Let_def start_option_def set_protocol_def set_protocol_head_def
      set_max_connection_size_def max_conn_size_def word_greater_zero_iff)

text \<open>
  The port is 32 bits wide and checked as such, but the acceptor gets its low 16 bits: a
  port of 65536 passes the check and the server listens on port 0.
\<close>

theorem TcpServer_start_port_wraps:
  assumes "opt_port (srv_option s) = 65536"
  shows "\<exists>s' calls io. TcpServer_start s = Ok (s', calls) \<and> Listen 0 io \<in> set calls"
  using assms by (auto simp: TcpServer_start_def Let_def set_protocol_def set_protocol_head_def
      start_option_def)

lemma TcpServer_start_port_wraps_witness:
  "\<exists>s' calls io. TcpServer_start (Server_new\<lparr>srv_option := TcpServerOption_init\<lparr>opt_port := 65536\<rparr>\<rparr>) =
     Ok (s' :: u32 Server, calls) \<and> Listen 0 io \<in> set calls"
  by (rule TcpServer_start_port_wraps) simp

section \<open>The tick\<close>

text \<open>
  A tick never sends a heartbeat and never closes a connection for a missing one, whatever
  the heartbeat ticks are set to: all it does besides counting and setting the timer again is
  to close the inactive peers, and only on a multiple of the interval set for that.
\<close>

theorem on_timer_no_heartbeat:
  "(\<forall>c d start. PeerCall c (WriteData d start) \<notin> set (snd (on_timer err s)))
   \<and> srv_peer_set (fst (on_timer err s)) =
        (if \<not> err \<and> 0 < opt_clean_inactive_peer_tick (srv_option s)
            \<and> (opt_tick_count (srv_option s) + 1) mod opt_clean_inactive_peer_tick (srv_option s) = 0
         then fst (clean_inactive_peer (srv_peer_set s)) else srv_peer_set s)
   \<and> srv_sessions (fst (on_timer err s)) = srv_sessions s"
proof -
  have "(c, WriteData d start) \<notin> set (snd (clean_inactive m))" for c d start m
    by (induction m rule: clean_inactive.induct) (auto simp: Let_def peer_close_def split: prod.splits)
  then have no: "(c, WriteData d start) \<in> set x2 \<Longrightarrow> clean_inactive m = (x1, x2) \<Longrightarrow> False" for c d start m x1 x2
    by (metis snd_conv)
  show ?thesis
    by (auto simp: on_timer_def Let_def step_tick_def set_tick_timer_def clean_inactive_peer_def
        split: prod.splits dest: no)
qed

end
