(* ===== verification/Eco_Dispatch.thy ===== *)
theory Eco_Dispatch
  imports Eco_TcpServer
begin

text \<open>
  From a posted message to the user's handler and back: \<open>DispatchHandler::operator()\<close> of
  \<open>src/project/eco/prj/src/net/DispatchServer.cpp\<close> for a server, the session a handler gets
  (\<open>net/TcpSession.h\<close>, \<open>prj/src/net/TcpSession.cpp\<close>, \<open>TcpOuter.h\<close>), its connection
  (\<open>net/TcpConnection.h\<close>), the handler table of \<open>thread/DispatchServer.h\<close> and the filter of
  \<open>net/DispatchRegistry.h\<close>.

  The user's handlers, their session data and their connection data are parameters.
\<close>

section \<open>Sessions\<close>

datatype SessionOwner = NoOwner | ClientOwner | ServerOwner

text \<open>
  The connection holds a weak reference to its peer, here its id. The weak reference to the session
  data is the object it was made from; whether it is still alive is asked for where the code
  locks it.
\<close>

record TcpConnection =
  tc_peer :: "ConnectionId option"
  tc_prot :: "Protocol option"
  tc_id :: ConnectionId

record 'd TcpSession =
  ses_conn :: TcpConnection
  ses_id :: SessionId
  ses_wptr :: "'d option"
  ses_owner :: SessionOwner

definition TcpConnection_new :: TcpConnection where
  "TcpConnection_new = \<lparr>tc_peer = None, tc_prot = None, tc_id = 0\<rparr>"

definition TcpConnection_clear :: "TcpConnection \<Rightarrow> TcpConnection" where
  "TcpConnection_clear conn = conn\<lparr>tc_peer := None, tc_prot := None, tc_id := 0\<rparr>"

definition TcpConnection_move :: "TcpConnection \<Rightarrow> TcpConnection \<Rightarrow> TcpConnection \<times> TcpConnection" where
  "TcpConnection_move conn other =
     (conn\<lparr>tc_peer := tc_peer other, tc_prot := tc_prot other, tc_id := tc_id other\<rparr>, other\<lparr>tc_peer := None\<rparr>)"

definition TcpSession_new :: "'d TcpSession" where
  "TcpSession_new = \<lparr>ses_conn = TcpConnection_new, ses_id = none_session, ses_wptr = None, ses_owner = NoOwner\<rparr>"

record 'd Context =
  c_data :: bytes
  c_message :: "(nat \<times> u32) option"
  c_meta :: MessageMeta
  c_session :: "'d TcpSession"

definition Context_new :: "'d Context" where
  "Context_new = \<lparr>c_data = [], c_message = None, c_meta = MessageMeta_new, c_session = TcpSession_new\<rparr>"

definition release_data :: "'d Context \<Rightarrow> 'd Context" where
  "release_data c = c\<lparr>c_data := [], c_message := None\<rparr>"

text \<open>
  The move assignment moves the target's own data onto itself instead of taking the data of the
  source; \<open>eco::String\<close> empties the source of a move last, so the target ends up empty.
\<close>

definition Context_move :: "'d Context \<Rightarrow> 'd Context \<Rightarrow> 'd Context" where
  "Context_move this c = this\<lparr>c_data := [], c_message := c_message c, c_meta := c_meta c, c_session := c_session c\<rparr>"

text \<open>\<open>lock\<close> gives the peer while the server still has it.\<close>

definition peer_lock :: "'d Server \<Rightarrow> TcpConnection \<Rightarrow> Peer option" where
  "peer_lock s conn = (case tc_peer conn of None \<Rightarrow> None | Some c \<Rightarrow> PeerSet_find (srv_peer_set s) c)"

definition TcpConnection_expired :: "'d Server \<Rightarrow> TcpConnection \<Rightarrow> bool" where
  "TcpConnection_expired s conn = (peer_lock s conn = None)"

definition TcpConnection_authed :: "(Connection \<Rightarrow> bool) \<Rightarrow> 'd Server \<Rightarrow> TcpConnection \<Rightarrow> bool" where
  "TcpConnection_authed data_authed s conn =
     (case peer_lock s conn of
        None \<Rightarrow> False
      | Some p \<Rightarrow> (case p_data p of None \<Rightarrow> False | Some d \<Rightarrow> data_authed d))"

definition TcpConnection_close ::
  "ProtocolHead \<Rightarrow> TcpConnection \<Rightarrow> 'd Server \<Rightarrow> ('d Server \<times> server_call list) outcome" where
  "TcpConnection_close head conn s =
     (case peer_lock s conn of
        None \<Rightarrow> Ok (s, [])
      | Some p \<Rightarrow> let (p1, acts) = close_and_notify p in run_actions head p1 acts s)"

definition TcpConnection_async_send ::
  "(nat \<Rightarrow> byte) \<Rightarrow> ProtocolHead \<Rightarrow> MessageMeta \<Rightarrow> TcpConnection \<Rightarrow> 'd Server \<Rightarrow>
     ('d Server \<times> server_call list) outcome" where
  "TcpConnection_async_send fill head meta conn s =
     (case peer_lock s conn of
        None \<Rightarrow> Ok (s, [])
      | Some p \<Rightarrow> (case tc_prot conn of
            None \<Rightarrow> UB
          | Some prot \<Rightarrow> obind (async_send_meta fill meta prot p) (\<lambda>(p1, acts). run_actions head p1 acts s)))"

definition TcpConnection_async_send_codec ::
  "(nat \<Rightarrow> byte) \<Rightarrow> ProtocolHead \<Rightarrow> Codec \<Rightarrow> u32 \<Rightarrow> SessionId \<Rightarrow> bool \<Rightarrow> bool \<Rightarrow> TcpConnection \<Rightarrow> 'd Server \<Rightarrow>
     ('d Server \<times> server_call list) outcome" where
  "TcpConnection_async_send_codec fill head codec type sess_id is_last encrypted conn s =
     TcpConnection_async_send fill head (set_last is_last (MessageMeta_msg codec sess_id type encrypted)) conn s"

definition TcpConnection_async_response ::
  "(nat \<Rightarrow> byte) \<Rightarrow> ProtocolHead \<Rightarrow> Codec \<Rightarrow> u32 \<Rightarrow> MessageMeta \<Rightarrow> bool \<Rightarrow> bool \<Rightarrow> TcpConnection \<Rightarrow> 'd Server \<Rightarrow>
     ('d Server \<times> server_call list) outcome" where
  "TcpConnection_async_response fill head codec type meta is_last encrypted conn s =
     (case peer_lock s conn of
        None \<Rightarrow> Ok (s, [])
      | Some p \<Rightarrow> (case tc_prot conn of
            None \<Rightarrow> UB
          | Some prot \<Rightarrow> obind (async_response fill codec type meta prot is_last encrypted p)
                          (\<lambda>(p1, acts). run_actions head p1 acts s)))"

definition session_open :: "SessionId \<Rightarrow> 'd Server \<Rightarrow> 'd TcpSession \<Rightarrow> 'd TcpSession \<times> bool" where
  "session_open i s sess =
     (case find_session (srv_sessions s) i of
        None \<Rightarrow> (sess, False)
      | Some d \<Rightarrow> (sess\<lparr>ses_wptr := Some d, ses_id := i\<rparr>, True))"

definition TcpSession_auth :: "'d TcpSession \<Rightarrow> 'd Server \<Rightarrow> 'd TcpSession \<times> 'd Server \<times> bool" where
  "TcpSession_auth sess s =
     (if ses_id sess = none_session \<and> ses_owner sess = ServerOwner
      then case add_session (srv_make_session s) (opt_max_session_size (srv_option s))
                  (tc_id (ses_conn sess)) (srv_sessions s) of
             (t, Some i) \<Rightarrow> (sess\<lparr>ses_id := i, ses_wptr := find_session t i\<rparr>, s\<lparr>srv_sessions := t\<rparr>, True)
           | (t, None) \<Rightarrow> (sess, s\<lparr>srv_sessions := t\<rparr>, False)
      else (sess, s, False))"

text \<open>
  An owner that is not a server is taken for a client; without any owner that is a null client.
  \<open>client\<close> is what the client does with the id.
\<close>

definition TcpSession_close :: "'d TcpSession \<Rightarrow> 'd Server \<Rightarrow> ('d TcpSession \<times> 'd Server) outcome" where
  "TcpSession_close sess s =
     (let closed_sess = sess\<lparr>ses_wptr := None, ses_owner := NoOwner\<rparr> in
      if ses_id sess \<noteq> none_session then
        (case ses_owner sess of
           ServerOwner \<Rightarrow>
             Ok (closed_sess, s\<lparr>srv_sessions := erase_session (ses_id sess) (tc_id (ses_conn sess)) (srv_sessions s)\<rparr>)
         | ClientOwner \<Rightarrow> Ok (closed_sess, s)
         | NoOwner \<Rightarrow> UB)
      else Ok (closed_sess, s))"

text \<open>\<open>alive\<close> says whether the session data can be locked.\<close>

definition TcpSession_async_response ::
  "bool \<Rightarrow> (nat \<Rightarrow> byte) \<Rightarrow> ProtocolHead \<Rightarrow> Codec \<Rightarrow> u32 \<Rightarrow> MessageMeta \<Rightarrow> bool \<Rightarrow> bool \<Rightarrow> 'd TcpSession \<Rightarrow> 'd Server \<Rightarrow>
     ('d Server \<times> server_call list) outcome" where
  "TcpSession_async_response alive fill head codec type meta is_last encrypted sess s =
     (if ses_id sess \<noteq> none_session then
        (if alive then TcpConnection_async_response fill head codec type meta is_last encrypted (ses_conn sess) s
         else Ok (s, []))
      else TcpConnection_async_response fill head codec type meta is_last encrypted (ses_conn sess) s)"

definition Context_async_response ::
  "bool \<Rightarrow> (nat \<Rightarrow> byte) \<Rightarrow> ProtocolHead \<Rightarrow> Codec \<Rightarrow> u32 \<Rightarrow> bool \<Rightarrow> bool \<Rightarrow> 'd Context \<Rightarrow> 'd Server \<Rightarrow>
     ('d Context \<times> 'd Server \<times> server_call list) outcome" where
  "Context_async_response alive fill head codec type is_last encrypted c s =
     (let c1 = c\<lparr>c_meta := (c_meta c)\<lparr>m_session_id := ses_id (c_session c)\<rparr>\<rparr>
      in obind (TcpSession_async_response alive fill head codec type (c_meta c1) is_last encrypted (c_session c1) s)
           (\<lambda>(s1, calls). Ok (c1, s1, calls)))"

section \<open>Dispatching a message\<close>

definition handle_server_context :: "'d Server \<Rightarrow> 'd Context \<Rightarrow> 'd Context \<times> bool" where
  "handle_server_context s c =
     (let (sess, ok) = (if m_session_id (c_meta c) \<noteq> none_session
                        then session_open (m_session_id (c_meta c)) s (c_session c)
                        else (c_session c, True));
          c1 = c\<lparr>c_session := sess\<rparr>
      in (c1, ok \<and> eco_has (m_category (c_meta c1)) category_message))"

text \<open>The result has the context that goes to the user's handler, if one does.\<close>

definition DispatchHandler_apply ::
  "ProtocolHead \<Rightarrow> DataContext \<Rightarrow> 'd Server \<Rightarrow> ('d Server \<times> server_call list \<times> 'd Context option) outcome" where
  "DispatchHandler_apply head dc s =
     (case PeerSet_find (srv_peer_set s) (dc_peer dc) of
        None \<Rightarrow> Ok (s, [], None)
      | Some p \<Rightarrow>
          if eco_has (dc_category dc) category_heartbeat then
            let p1 = p\<lparr>p_state := set_peer_live (p_state p) True\<rparr>
            in if 0 < opt_response_heartbeat (srv_option s)
               then obind (async_send_heartbeat head p1) (\<lambda>(p2, acts).
                      Ok (store_peer (p_id p) p2 s, map (PeerCall (p_id p)) acts, None))
               else Ok (store_peer (p_id p) p1 s, [], None)
          else case dc_prot dc of
            None \<Rightarrow> UB
          | Some prot \<Rightarrow>
              (case prot_decode prot (MessageMeta_new\<lparr>m_category := dc_category dc\<rparr>) (dc_data dc) of
                 UB \<Rightarrow> UB
               | Err n \<Rightarrow> Ok (s, [], None)
               | Ok (meta, data, msg) \<Rightarrow>
                   let sess = TcpSession_new\<lparr>ses_conn := \<lparr>tc_peer = Some (dc_peer dc), tc_prot = Some prot, tc_id = p_id p\<rparr>,
                                             ses_owner := ServerOwner\<rparr>;
                       c = \<lparr>c_data = data, c_message = Some msg, c_meta = meta, c_session = sess\<rparr>;
                       (c1, handle) = handle_server_context s c
                   in if handle
                      then Ok (store_peer (p_id p) (p\<lparr>p_state := set_peer_active (p_state p) True\<rparr>) s, [], Some c1)
                      else Ok (s, [], None)))"

section \<open>The handler table\<close>

record 'h HandlerTable =
  m_handler_map :: "(u64, 'h) MapT"
  m_default_handler :: "'h option"

definition HandlerTable_new :: "'h HandlerTable" where
  "HandlerTable_new = \<lparr>m_handler_map = [], m_default_handler = None\<rparr>"

definition set_dispatch :: "u64 \<Rightarrow> 'h \<Rightarrow> 'h HandlerTable \<Rightarrow> 'h HandlerTable" where
  "set_dispatch type handler t = t\<lparr>m_handler_map := AList.update type handler (m_handler_map t)\<rparr>"

definition set_default :: "'h \<Rightarrow> 'h HandlerTable \<Rightarrow> 'h HandlerTable" where
  "set_default handler t = t\<lparr>m_default_handler := Some handler\<rparr>"

definition dispatch :: "u64 \<Rightarrow> 'h HandlerTable \<Rightarrow> 'h option" where
  "dispatch type t = (case map_of (m_handler_map t) type of Some h \<Rightarrow> Some h | None \<Rightarrow> m_default_handler t)"

text \<open>The message that \<open>handle_context\<close> refuses, by the flag of the handler.\<close>

definition request_refused :: "int \<Rightarrow> u16 \<Rightarrow> bool \<Rightarrow> bool \<Rightarrow> bool" where
  "request_refused auth_flag category sess_authed conn_authed =
     (if auth_flag > 0 then
        (if eco_has category category_session
         then (auth_flag \<noteq> 0 \<and> \<not> sess_authed) \<or> (auth_flag = 0 \<and> sess_authed)
         else (auth_flag \<noteq> 0 \<and> \<not> conn_authed) \<or> (auth_flag = 0 \<and> conn_authed))
      else False)"

end
