(* ===== verification/Eco_ServerInv.thy ===== *)
theory Eco_ServerInv
  imports Eco_Dispatch
begin

text \<open>
  The server as a state machine: its steps, one per event it reacts to, and the invariant of its
  reachable states. Then what follows for single events, and the delivery of a message from the
  wire to the user's handler.
\<close>

section \<open>What an event leaves of a peer\<close>

definition peer_ok :: "Peer \<Rightarrow> bool" where
  "peer_ok p \<longleftrightarrow> server (p_state p) \<and> \<not> connected (p_state p) \<and> (peer_active (p_state p) \<longrightarrow> peer_live (p_state p))"

text \<open>
  An event of a peer either keeps it in order and never asks for it to be closed, or its very last
  call tells the server that it is closed.
\<close>

definition event_ok :: "ConnectionId \<Rightarrow> Peer \<times> action list \<Rightarrow> bool" where
  "event_ok c r \<longleftrightarrow> p_id (fst r) = c
     \<and> (peer_ok (fst r) \<and> (\<forall>d. NotifyClose d \<notin> set (snd r))
        \<or> (\<exists>pre. snd r = pre @ [NotifyClose c] \<and> (\<forall>d. NotifyClose d \<notin> set pre) \<and> (\<forall>b. NotifyRead b \<notin> set pre)))"

lemma event_okI:
  "p_id p = c \<Longrightarrow> peer_ok p \<Longrightarrow> (\<And>d. NotifyClose d \<notin> set acts) \<Longrightarrow> event_ok c (p, acts)"
  by (simp add: event_ok_def)

lemma close_and_notify_event: "p_id p = c \<Longrightarrow> event_ok c (close_and_notify p)"
  by (auto simp: event_ok_def close_and_notify_def peer_close_def Let_def)

lemmas event_defs = async_recv_def async_recv_by_server_def async_recv_by_client_def async_send_def async_recv_shakehand_def
  Let_def

lemma on_write_event: "peer_ok p \<Longrightarrow> event_ok (p_id p) (on_write siz err p)"
  by (auto simp: on_write_def close_and_notify_event intro!: event_okI)

lemma on_read_head_event:
  "peer_ok p \<Longrightarrow> on_read_head fill h hdr n err p = Ok r \<Longrightarrow> event_ok (p_id p) r"
  by (auto simp: on_read_head_def event_defs peer_ok_def flag_simps split: if_splits outcome.splits
      intro!: event_okI close_and_notify_event)

lemma peer_ok_updates:
  "peer_ok p \<Longrightarrow> peer_ok (p\<lparr>p_state := set_peer_active (p_state p) True\<rparr>)"
  "peer_ok p \<Longrightarrow> peer_ok (p\<lparr>p_state := set_ready (set_self_live (p_state p) True)\<rparr>)"
  by (auto simp: peer_ok_def flag_simps)

lemma handle_req_event:
  assumes ok: "peer_ok p" and res: "handle_websocket_shakehand_req junk h data p = Ok r"
  shows "event_ok (p_id p) r"
proof -
  have "r = (p, []) \<or> r = close_and_notify p \<or>
      (\<exists>rsp. r = (p\<lparr>p_state := set_ready (set_self_live (p_state p) True)\<rparr>, [WriteData rsp 0, ReadHead (ph_size (hdl_head h))]))"
    using res by (auto simp: handle_websocket_shakehand_req_def event_defs outcome_simps split: if_splits option.splits)
  then show ?thesis using ok by (auto intro!: event_okI close_and_notify_event peer_ok_updates)
qed

lemma on_read_data_event:
  assumes ok: "peer_ok p" and res: "on_read_data junk h data err p = Ok r"
  shows "event_ok (p_id p) r"
proof -
  have "server (p_state p)" using ok by (simp add: peer_ok_def)
  then have "r = (p, []) \<or> r = close_and_notify p \<or> handle_websocket_shakehand_req junk h data p = Ok r \<or>
      r = (p\<lparr>p_state := set_peer_active (p_state p) True\<rparr>, [NotifyRead data, ReadHead (ph_size (hdl_head h))])"
    using res by (auto simp: on_read_data_def async_recv_def split: if_splits)
  then show ?thesis
    using ok by (auto intro!: event_okI close_and_notify_event peer_ok_updates intro: handle_req_event)
qed

lemma async_send_meta_event:
  "peer_ok p \<Longrightarrow> async_send_meta fill meta prot p = Ok r \<Longrightarrow> event_ok (p_id p) r"
  by (auto simp: async_send_meta_def event_defs peer_ok_def flag_simps split: outcome.splits
      intro!: event_okI)

lemma async_response_event:
  "peer_ok p \<Longrightarrow> async_response fill codec type meta prot is_last enc p = Ok r \<Longrightarrow> event_ok (p_id p) r"
  unfolding async_response_def Let_def by (rule async_send_meta_event)

lemma async_send_heartbeat_ok:
  "peer_ok p \<Longrightarrow> async_send_heartbeat head p = Ok r \<Longrightarrow> peer_ok (fst r) \<and> p_id (fst r) = p_id p"
  by (auto simp: async_send_heartbeat_def event_defs peer_ok_def flag_simps outcome_simps split: if_splits)

lemma on_read_ok:
  "peer_ok p \<Longrightarrow> on_read head p data s = Ok (p', s', acts) \<Longrightarrow>
     peer_ok p' \<and> p_id p' = p_id p \<and> srv_peer_set s' = srv_peer_set s \<and> srv_option s' = srv_option s
     \<and> srv_sessions s' = srv_sessions s"
proof -
  assume ok: "peer_ok p" and r: "on_read head p data s = Ok (p', s', acts)"
  have data: "peer_ok (make_connection_data f pr p)" "p_id (make_connection_data f pr p) = p_id p"
    "p_state (make_connection_data f pr p) = p_state p" for f pr
    using ok by (auto simp: make_connection_data_def peer_ok_def)
  have live: "peer_ok (q\<lparr>p_state := set_peer_live (p_state q) True\<rparr>)" if "peer_ok q" for q
    using that by (auto simp: peer_ok_def flag_simps)
  show ?thesis
    using r ok data live [OF ok]
    by (auto simp: on_read_def Let_def outcome_simps split: outcome.splits if_splits option.splits
        dest!: async_send_heartbeat_ok [rotated])
qed

section \<open>The invariant of the server\<close>

definition srv_inv :: "'d Server \<Rightarrow> bool" where
  "srv_inv s \<longleftrightarrow> PeerSet_wf (srv_peer_set s)
     \<and> length (m_peer_map (srv_peer_set s)) \<le> unat (m_max_conn_size (srv_peer_set s)) + 1
     \<and> (\<forall>(c, p) \<in> set (m_peer_map (srv_peer_set s)). peer_ok p)"

lemma srv_inv_cong: "srv_inv s \<Longrightarrow> srv_peer_set s' = srv_peer_set s \<Longrightarrow> srv_inv s'"
  by (simp add: srv_inv_def)

lemma srv_inv_find: "srv_inv s \<Longrightarrow> PeerSet_find (srv_peer_set s) c = Some p \<Longrightarrow> peer_ok p \<and> p_id p = c"
  by (fastforce simp: srv_inv_def PeerSet_find_def PeerSet_wf_def dest!: map_of_SomeD)

lemma length_update_present: "map_of m c \<noteq> None \<Longrightarrow> length (AList.update c p m) = length m"
  by (induction m) auto

lemma set_update_cases: "x \<in> set (AList.update c p m) \<Longrightarrow> x = (c, p) \<or> x \<in> set m"
  by (induction m) (auto split: if_splits)

lemma store_peer_inv:
  assumes "srv_inv s" "PeerSet_find (srv_peer_set s) c \<noteq> None" "peer_ok p" "p_id p = c"
  shows "srv_inv (store_peer c p s)"
  using assms length_update_present [of "m_peer_map (srv_peer_set s)" c p]
  by (auto simp: srv_inv_def store_peer_def PeerSet_wf_def PeerSet_find_def distinct_update dest!: set_update_cases)

lemma on_close_inv: "srv_inv s \<Longrightarrow> srv_inv (on_close c s)"
proof -
  assume inv: "srv_inv s"
  have "m_peer_map (PeerSet_erase c t) = AList.delete c (m_peer_map t)
      \<and> m_max_conn_size (PeerSet_erase c t) = m_max_conn_size t" for t
    by (auto simp: PeerSet_erase_def delete_id split: option.splits dest: map_of_eq_None_iff [THEN iffD1])
  moreover have "length (AList.delete c m) \<le> length m" for m :: TcpPeerMap by (rule length_delete_le)
  ultimately show ?thesis
    using inv PeerSet_erase_wf [of "srv_peer_set s" c]
    by (auto simp: srv_inv_def on_close_def AList.delete_eq intro: le_trans [OF length_filter_le])
qed


lemma run_actions_inv:
  assumes "event_ok c (p, acts)" "srv_inv s" "PeerSet_find (srv_peer_set s) c \<noteq> None"
    and "run_actions head p acts s = Ok (s', calls)"
  shows "srv_inv s'"
  using assms
proof (induction head p acts s arbitrary: s' calls rule: run_actions.induct)
  case (1 head p s)
  then show ?case by (auto simp: event_ok_def intro: store_peer_inv)
next
  case (2 head p data acts s)
  have ok: "peer_ok p" "p_id p = c" "\<forall>d. NotifyClose d \<notin> set acts"
    using "2.prems"(1) by (auto simp: event_ok_def Cons_eq_append_conv)
  obtain p1 s1 a1 s2 calls2 where r: "on_read head p data s = Ok (p1, s1, a1)"
    and run: "run_actions head p1 acts s1 = Ok (s2, calls2)" and s': "s' = s2"
    using "2.prems"(4) by (auto simp: outcome_simps)
  note next1 = on_read_ok [OF ok(1) r]
  have ev: "event_ok c (p1, acts)" using next1 ok by (intro event_okI) auto
  have inv: "srv_inv s1" using "2.prems"(2) next1 by (auto intro: srv_inv_cong)
  have found: "PeerSet_find (srv_peer_set s1) c \<noteq> None" using "2.prems"(3) next1 by simp
  show ?case unfolding s' by (rule "2.IH" [OF r _ _ ev inv found run]) (rule refl)+
next
  case (3 head p d acts s)
  then show ?case by (auto intro: on_close_inv)
qed (auto simp: event_ok_def Cons_eq_append_conv outcome_simps)

lemma peer_event_inv:
  assumes "srv_inv s" "peer_event head event c s = Ok (s', calls)"
    and "\<And>p r. peer_ok p \<Longrightarrow> event p = Ok r \<Longrightarrow> event_ok (p_id p) r"
  shows "srv_inv s'"
proof (cases "PeerSet_find (srv_peer_set s) c")
  case None
  then show ?thesis using assms(1,2) by (simp add: peer_event_def)
next
  case (Some p)
  then have p: "peer_ok p" "p_id p = c" using srv_inv_find [OF assms(1)] by auto
  obtain p1 acts where r: "event p = Ok (p1, acts)" "run_actions head p1 acts s = Ok (s', calls)"
    using assms(2) Some by (auto simp: peer_event_def outcome_simps)
  then show ?thesis using run_actions_inv [of c p1 acts s] assms(3) [OF p(1) r(1)] p Some assms(1) by auto
qed

lemma PeerSet_add_inv:
  assumes "srv_inv s" "PeerSet_find (srv_peer_set s) (p_id p) = None" "peer_ok p"
    and "PeerSet_add p (srv_peer_set s) = (ps, True)"
  shows "srv_inv (s\<lparr>srv_peer_set := ps\<rparr>) \<and> PeerSet_find ps (p_id p) = Some p"
proof -
  have "length (AList.update c p m) = Suc (length m)" if "map_of m c = None" for c and m :: TcpPeerMap
    using that by (induction m) auto
  then have "length (m_peer_map ps) \<le> Suc (unat (m_max_conn_size ps))"
    using assms(2,4) by (auto simp: PeerSet_add_def PeerSet_find_def split: if_splits)
  moreover have "\<forall>(c, q) \<in> set (m_peer_map ps). peer_ok q"
    using assms(1,3,4) by (auto simp: PeerSet_add_def srv_inv_def split: if_splits dest!: set_update_cases)
  moreover have "PeerSet_wf ps"
    using PeerSet_add_wf [of "srv_peer_set s" p] assms(1,4) by (simp add: srv_inv_def)
  ultimately show ?thesis
    using PeerSet_add_find [OF assms(4)] by (simp add: srv_inv_def)
qed

lemma on_accept_inv:
  assumes "srv_inv s" "PeerSet_find (srv_peer_set s) c = None"
  shows "srv_inv (fst (on_accept head (TcpPeer_make c) err s))"
proof -
  let ?p1 = "peer_set_connected (TcpPeer_make c)"
  let ?p = "?p1\<lparr>p_state := set_server (p_state ?p1)\<rparr>"
  have p: "peer_ok ?p" "p_id ?p = c" "p_id (TcpPeer_make c) = c"
    by (simp_all add: peer_ok_def flag_simps peer_set_connected_def TcpPeer_make_def)
  have rec: "peer_ok (fst (async_recv_shakehand ?p))" "p_id (fst (async_recv_shakehand ?p)) = c"
    "peer_ok (fst (async_recv_by_server h ?p))" "p_id (fst (async_recv_by_server h ?p)) = c" for h
    using p by (auto simp: peer_ok_def flag_simps event_defs)
  show ?thesis
  proof (cases "PeerSet_add ?p (srv_peer_set s)")
    case (Pair ps added)
    show ?thesis
    proof (cases added)
      case True
      then have "srv_inv (s\<lparr>srv_peer_set := ps\<rparr>) \<and> PeerSet_find ps (p_id ?p) = Some ?p"
        using PeerSet_add_inv [of s ?p ps] assms p Pair by simp
      then have "srv_inv (store_peer c q (s\<lparr>srv_peer_set := ps\<rparr>))" if "peer_ok q" "p_id q = c" for q
        using that p by (intro store_peer_inv) auto
      from this [OF rec(1,2)] this [OF rec(3,4) [of "server_handler head s"]] show ?thesis
        using Pair True p(3) assms(1) by (auto simp: on_accept_def Let_def split: prod.splits)
    next
      case False
      then show ?thesis using Pair assms(1) by (simp add: on_accept_def Let_def)
    qed
  qed
qed

lemma on_timer_inv: "srv_inv s \<Longrightarrow> srv_inv (fst (on_timer err s))"
proof -
  assume inv: "srv_inv s"
  have "srv_inv (s\<lparr>srv_peer_set := fst (clean_inactive_peer (srv_peer_set s))\<rparr>)"
    using inv clean_inactive_wf [of "srv_peer_set s"]
    by (auto simp: srv_inv_def clean_inactive_eq peer_ok_def flag_simps intro: le_trans [OF length_filter_le])
  then have "srv_inv (s\<lparr>srv_peer_set := ps\<rparr>)" if "clean_inactive_peer (srv_peer_set s) = (ps, calls)" for ps calls
    using that by simp
  then show ?thesis
    using inv by (auto simp: on_timer_def Let_def intro: srv_inv_cong split: prod.splits)
qed

section \<open>The steps of the server\<close>

text \<open>
  A new connection has an id of its own: the id is the address of an object that exists as long as
  the peer does. A step that is undefined behaviour has no successor here; the properties of
  the peer say when that can happen.
\<close>

inductive srv_step :: "ProtocolHead \<Rightarrow> 'd Server \<Rightarrow> 'd Server \<Rightarrow> bool" for head where
  step_accept: "PeerSet_find (srv_peer_set s) c = None \<Longrightarrow>
     srv_step head s (fst (on_accept head (TcpPeer_make c) err s))"
| step_read_head: "peer_event head (on_read_head fill (server_handler head s) hdr n err) c s = Ok (s', calls) \<Longrightarrow>
     srv_step head s s'"
| step_read_data: "peer_event head (on_read_data junk (server_handler head s) data err) c s = Ok (s', calls) \<Longrightarrow>
     srv_step head s s'"
| step_write: "peer_event head (\<lambda>p. Ok (on_write siz err p)) c s = Ok (s', calls) \<Longrightarrow> srv_step head s s'"
| step_timer: "srv_step head s (fst (on_timer err s))"
| step_dispatch: "srv_posted s = dc # rest \<Longrightarrow>
     DispatchHandler_apply head dc (s\<lparr>srv_posted := rest\<rparr>) = Ok (s', calls, c) \<Longrightarrow> srv_step head s s'"
| step_send: "TcpConnection_async_send fill head meta conn s = Ok (s', calls) \<Longrightarrow> srv_step head s s'"
| step_response: "Context_async_response alive fill head codec type is_last enc c s = Ok (c', s', calls) \<Longrightarrow>
     srv_step head s s'"
| step_disconnect: "TcpConnection_close head conn s = Ok (s', calls) \<Longrightarrow> srv_step head s s'"
| step_auth: "TcpSession_auth sess s = (sess', s', ok) \<Longrightarrow> srv_step head s s'"
| step_session_close: "TcpSession_close sess s = Ok (sess', s') \<Longrightarrow> srv_step head s s'"

inductive srv_reach :: "ProtocolHead \<Rightarrow> 'd Server \<Rightarrow> 'd Server \<Rightarrow> bool" for head s0 where
  reach_start: "TcpServer_start s0 = Ok (s, calls) \<Longrightarrow> srv_prot_head s = Some head \<Longrightarrow> srv_reach head s0 s"
| reach_step: "srv_reach head s0 s \<Longrightarrow> srv_step head s s' \<Longrightarrow> srv_reach head s0 s'"

inductive_cases srv_stepE: "srv_step head s s'"

lemma conn_op_inv:
  assumes inv: "srv_inv s" and lock: "peer_lock s conn = Some p"
    and ev: "\<And>q r. peer_ok q \<Longrightarrow> event q = Ok r \<Longrightarrow> event_ok (p_id q) r"
    and res: "event p = Ok (p1, acts)" and run: "run_actions head p1 acts s = Ok (s', calls)"
  shows "srv_inv s'"
proof -
  obtain c where c: "PeerSet_find (srv_peer_set s) c = Some p"
    using lock by (auto simp: peer_lock_def split: option.splits)
  then have p: "peer_ok p" "p_id p = c" using srv_inv_find [OF inv] by auto
  show ?thesis
    using run_actions_inv [of c p1 acts s] ev [OF p(1) res] p(2) c inv run by auto
qed

lemma async_send_inv:
  assumes "srv_inv s" "TcpConnection_async_send fill head meta conn s = Ok (s', calls)"
  shows "srv_inv s'"
proof (cases "peer_lock s conn")
  case (Some p)
  then obtain prot p1 acts where "async_send_meta fill meta prot p = Ok (p1, acts)"
    "run_actions head p1 acts s = Ok (s', calls)"
    using assms(2) by (auto simp: TcpConnection_async_send_def outcome_simps split: option.splits)
  then show ?thesis
    using conn_op_inv [OF assms(1) Some, where event = "async_send_meta fill meta prot"] async_send_meta_event by blast
qed (use assms in \<open>simp add: TcpConnection_async_send_def\<close>)

lemma conn_response_inv:
  assumes "srv_inv s" "TcpConnection_async_response fill head codec type meta is_last enc conn s = Ok (s', calls)"
  shows "srv_inv s'"
proof (cases "peer_lock s conn")
  case (Some p)
  then obtain prot p1 acts where "async_response fill codec type meta prot is_last enc p = Ok (p1, acts)"
    "run_actions head p1 acts s = Ok (s', calls)"
    using assms(2) by (auto simp: TcpConnection_async_response_def outcome_simps split: option.splits)
  then show ?thesis
    using conn_op_inv [OF assms(1) Some, where event = "async_response fill codec type meta prot is_last enc"]
      async_response_event by blast
qed (use assms in \<open>simp add: TcpConnection_async_response_def\<close>)

lemma context_response_inv:
  assumes "srv_inv s" "Context_async_response alive fill head codec type is_last enc c s = Ok (c', s', calls)"
  shows "srv_inv s'"
  using assms conn_response_inv [OF assms(1)]
  by (auto simp: Context_async_response_def TcpSession_async_response_def Let_def outcome_simps split: if_splits)

lemma conn_close_inv:
  assumes "srv_inv s" "TcpConnection_close head conn s = Ok (s', calls)"
  shows "srv_inv s'"
proof (cases "peer_lock s conn")
  case (Some p)
  then obtain p1 acts where "Ok (close_and_notify p) = Ok (p1, acts)"
    "run_actions head p1 acts s = Ok (s', calls)"
    using assms(2) by (auto simp: TcpConnection_close_def Let_def split: prod.splits)
  moreover have "event_ok (p_id q) r" if "Ok (close_and_notify q) = Ok r" for q r
    using that close_and_notify_event [of q] by auto
  ultimately show ?thesis
    using conn_op_inv [OF assms(1) Some, where event = "\<lambda>p. Ok (close_and_notify p)"] by blast
qed (use assms in \<open>simp add: TcpConnection_close_def\<close>)

lemma dispatch_inv:
  assumes inv: "srv_inv s" and res: "DispatchHandler_apply head dc s = Ok (s', calls, r)"
  shows "srv_inv s'"
proof (cases "PeerSet_find (srv_peer_set s) (dc_peer dc)")
  case None
  then show ?thesis using assms by (simp add: DispatchHandler_apply_def)
next
  case (Some p)
  then have p: "peer_ok p" "p_id p = dc_peer dc" using srv_inv_find [OF inv] by auto
  have store: "srv_inv (store_peer (p_id p) q s)" if "peer_ok q" "p_id q = p_id p" for q
    using that p Some inv by (intro store_peer_inv) auto
  have upd: "peer_ok (p\<lparr>p_state := set_peer_live (p_state p) True\<rparr>)"
    "peer_ok (p\<lparr>p_state := set_peer_active (p_state p) True\<rparr>)"
    using p(1) by (auto simp: peer_ok_def flag_simps)
  show ?thesis
    using res Some store upd inv
    by (auto simp: DispatchHandler_apply_def Let_def outcome_simps split: if_splits option.splits outcome.splits prod.splits
        dest!: async_send_heartbeat_ok [rotated])
qed

lemma srv_step_inv: "srv_step head s s' \<Longrightarrow> srv_inv s \<Longrightarrow> srv_inv s'"
proof (induction rule: srv_step.induct)
  case (step_read_head fill s hdr n err c s' calls)
  then show ?case using peer_event_inv on_read_head_event by blast
next
  case (step_read_data junk s data err c s' calls)
  then show ?case using peer_event_inv on_read_data_event by blast
next
  case (step_write siz err c s s' calls)
  then show ?case using peer_event_inv [where event = "\<lambda>p. Ok (on_write siz err p)"] on_write_event by blast
next
  case (step_dispatch s dc rest s' calls c)
  then show ?case using dispatch_inv [of "s\<lparr>srv_posted := rest\<rparr>"] by (simp add: srv_inv_def)
next
  case (step_auth sess s sess' s' ok)
  then show ?case by (auto simp: TcpSession_auth_def srv_inv_def split: if_splits prod.splits option.splits)
next
  case (step_session_close sess s sess' s')
  then show ?case
    by (auto simp: TcpSession_close_def Let_def srv_inv_def split: if_splits SessionOwner.splits)
qed (auto intro: on_accept_inv on_timer_inv async_send_inv context_response_inv conn_close_inv)

lemma srv_reach_inv:
  assumes "srv_reach head s0 s" "m_peer_map (srv_peer_set s0) = []"
  shows "srv_inv s"
  using assms
proof (induction rule: srv_reach.induct)
  case (reach_start s calls)
  then show ?case
    by (auto simp: srv_inv_def TcpServer_start_def Let_def PeerSet_wf_def set_max_connection_size_def
        set_protocol_def set_protocol_head_def split: if_splits)
qed (blast intro: srv_step_inv)

text \<open>
  Claim C17. Whatever its clients send and its handlers do, in every state a server reaches each of
  its connections is filed under its own id and carries the server mark, never the mark of a
  connected client; a connection that counts as active counts as alive; and there is at most
  one connection more than the limit.
\<close>

theorem server_connections_invariant:
  assumes "srv_reach head s0 s" "m_peer_map (srv_peer_set s0) = []"
  shows "PeerSet_wf (srv_peer_set s)
    \<and> length (m_peer_map (srv_peer_set s)) \<le> unat (m_max_conn_size (srv_peer_set s)) + 1
    \<and> (PeerSet_find (srv_peer_set s) c = Some p \<longrightarrow>
         p_id p = c \<and> server (p_state p) \<and> \<not> connected (p_state p) \<and> \<not> closed (p_state p)
         \<and> (peer_active (p_state p) \<longrightarrow> peer_live (p_state p)))"
proof -
  have inv: "srv_inv s" by (rule srv_reach_inv [OF assms])
  have "\<not> closed st" if "server st" for st
    using that by (auto simp: closed_def State_no_def server_def)
  then show ?thesis
    using inv srv_inv_find [OF inv, of c p] by (auto simp: srv_inv_def peer_ok_def)
qed

text \<open>A server of the default configuration on port 80 with one accepted connection, as used below.\<close>

definition sample_server :: "u32 Server" where
  "sample_server = Server_new\<lparr>srv_option := TcpServerOption_init\<lparr>opt_port := 80, opt_max_connection_size := 1\<rparr>,
     srv_make_session := Some (\<lambda>i c. i)\<rparr>"

definition sample_running :: "u32 Server" where
  "sample_running = (case TcpServer_start sample_server of Ok (s, calls) \<Rightarrow> s | _ \<Rightarrow> sample_server)"

lemma sample_running_eq:
  "TcpServer_start sample_server = Ok (sample_running, [DispatchRun 4, Listen 80 2])"
  "srv_prot_head sample_running = Some TcpProtocolHead"
  "srv_peer_set sample_running = TcpPeerSet_new 1"
  "srv_sessions sample_running = Sessions_new"
  "srv_protocol_set sample_running = [(TcpProtocol_version, TcpProtocol_protocol)]"
  "srv_make_session sample_running = Some (\<lambda>i c. i)"
  "opt_websocket (srv_option sample_running) = 0"
  "opt_max_session_size (srv_option sample_running) = 100"
  "srv_posted sample_running = []"
  by (simp_all add: sample_running_def sample_server_def TcpServer_start_def Let_def Server_new_def
      TcpServerOption_init_def start_option_def set_protocol_def set_protocol_head_def
      set_max_connection_size_def TcpPeerSet_new_def set_tick_timer_def has_tick_timer_def
      TcpProtocol_protocol_def)

definition sample_accepted :: "u32 Server" where
  "sample_accepted = fst (on_accept TcpProtocolHead (TcpPeer_make 5) False sample_running)"

lemma sample_accepted_find:
  "PeerSet_find (srv_peer_set sample_accepted) 5 = Some \<lparr>p_id = 5, p_state = 5, p_data = None\<rparr>"
  "m_peer_map (srv_peer_set sample_accepted) = [(5, \<lparr>p_id = 5, p_state = 5, p_data = None\<rparr>)]"
proof -
  have "set_ready (set_server s) = 5" for s
    by (simp add: set_ready_def set_server_def State_add_def State_assign_def State_flag_defs)
  then show "m_peer_map (srv_peer_set sample_accepted) = [(5, \<lparr>p_id = 5, p_state = 5, p_data = None\<rparr>)]"
    by (simp add: sample_accepted_def on_accept_def Let_def PeerSet_add_def sample_running_eq
      TcpPeerSet_new_def event_defs peer_set_connected_def TcpPeer_make_def store_peer_def)
  then show "PeerSet_find (srv_peer_set sample_accepted) 5 = Some \<lparr>p_id = 5, p_state = 5, p_data = None\<rparr>"
    by (simp add: PeerSet_find_def)
qed

lemma sample_reach: "srv_reach TcpProtocolHead sample_server sample_accepted"
  unfolding sample_accepted_def
  by (rule reach_step [OF reach_start [OF sample_running_eq(1,2)] step_accept])
    (simp add: sample_running_eq TcpPeerSet_new_def PeerSet_find_def)

lemma server_connections_invariant_witness:
  "PeerSet_find (srv_peer_set sample_accepted) 5 = Some \<lparr>p_id = 5, p_state = 5, p_data = None\<rparr> \<and> server (5 :: u32)"
  using server_connections_invariant [OF sample_reach, of 5 "\<lparr>p_id = 5, p_state = 5, p_data = None\<rparr>"] sample_accepted_find(1)
  by (simp add: sample_server_def Server_new_def TcpPeerSet_new_def)


section \<open>Single events\<close>

text \<open>
  The limit on the number of connections is off by one: a server that already has as many
  connections as its limit still accepts another one.
\<close>

theorem accept_exceeds_limit:
  assumes "length (m_peer_map (srv_peer_set s)) = unat (m_max_conn_size (srv_peer_set s))"
    and "PeerSet_find (srv_peer_set s) c = None"
  shows "length (m_peer_map (srv_peer_set (fst (on_accept head (TcpPeer_make c) False s)))) =
    unat (m_max_conn_size (srv_peer_set s)) + 1"
proof -
  have len: "length (AList.update c q m) = Suc (length m)" if "map_of m c = None" for q and m :: TcpPeerMap
    using that by (induction m) auto
  have upd: "length (AList.update c q (AList.update c r m)) = length (AList.update c r m)" for q r and m :: TcpPeerMap
    by (rule length_update_present) (simp add: update_conv')
  have id: "p_id (peer_set_connected (TcpPeer_make c)) = c" "p_id (TcpPeer_make c) = c"
    by (simp_all add: peer_set_connected_def TcpPeer_make_def)
  show ?thesis
    using assms by (simp add: on_accept_def Let_def PeerSet_add_def event_defs store_peer_def id upd len
        PeerSet_find_def)
qed

lemma accept_exceeds_limit_witness:
  "length (m_peer_map (srv_peer_set (fst (on_accept TcpProtocolHead (TcpPeer_make 7) False sample_accepted)))) = 2"
proof -
  have "m_max_conn_size (srv_peer_set sample_accepted) = 1"
    by (simp add: sample_accepted_def on_accept_def Let_def PeerSet_add_def sample_running_eq
      TcpPeerSet_new_def event_defs store_peer_def)
  then show ?thesis
    using accept_exceeds_limit [of sample_accepted 7 TcpProtocolHead] sample_accepted_find
    by (simp add: PeerSet_find_def)
qed

text \<open>
  A connection that the tick closes for being inactive is forgotten without its sessions:
  it is not in the set any more, so no later event of it reaches the server, while the
  sessions it opened stay in the table under its id.
\<close>

theorem clean_inactive_leaks_sessions:
  assumes "srv_inv s" and "PeerSet_find (srv_peer_set s) c = Some p" and "\<not> peer_active (p_state p)"
    and "0 < opt_clean_inactive_peer_tick (srv_option s)"
    and "(opt_tick_count (srv_option s) + 1) mod opt_clean_inactive_peer_tick (srv_option s) = 0"
  shows "PeerSet_find (srv_peer_set (fst (on_timer False s))) c = None
    \<and> srv_sessions (fst (on_timer False s)) = srv_sessions s
    \<and> peer_event head event c (fst (on_timer False s)) = Ok (fst (on_timer False s), [])"
proof -
  have "srv_peer_set (fst (on_timer False s)) = fst (clean_inactive_peer (srv_peer_set s))"
    "srv_sessions (fst (on_timer False s)) = srv_sessions s"
    using assms(4,5) by (auto simp: on_timer_def Let_def step_tick_def split: prod.splits)
  moreover have "PeerSet_find (fst (clean_inactive_peer (srv_peer_set s))) c = None"
    using assms(1-3) by (simp add: clean_inactive_find srv_inv_def)
  ultimately show ?thesis by (simp add: peer_event_def)
qed

definition sample_timed :: "u32 Server" where
  "sample_timed = sample_accepted\<lparr>srv_option := TcpServerOption_init\<lparr>opt_clean_inactive_peer_tick := 1\<rparr>,
     srv_sessions := fst (add_session (Some (\<lambda>i c. i)) 100 5 Sessions_new)\<rparr>"

lemma clean_inactive_leaks_sessions_witness:
  "PeerSet_find (srv_peer_set (fst (on_timer False sample_timed))) 5 = None
   \<and> find_session (srv_sessions (fst (on_timer False sample_timed))) 1 = Some 1"
proof -
  have inv: "srv_inv sample_timed"
    using srv_reach_inv [OF sample_reach]
    by (simp add: srv_inv_def sample_timed_def sample_server_def Server_new_def TcpPeerSet_new_def)
  have "find_session (srv_sessions sample_timed) 1 = Some 1"
    by (simp add: sample_timed_def add_session_def Sessions_new_def next_session_id_def Atomic_pre_inc_def
      exchange_add_def Let_def Map_size_def none_session_def find_session_def Map_find_def Map_set_def add_conn_session_def)
  moreover have "\<not> peer_active 5" by (simp add: peer_active_def State_has_def State_flag_defs)
  ultimately show ?thesis
    using clean_inactive_leaks_sessions [OF inv, of 5 "\<lparr>p_id = 5, p_state = 5, p_data = None\<rparr>" TcpProtocolHead]
    by (simp add: sample_timed_def sample_accepted_find TcpServerOption_init_def)
qed

text \<open>
  A session is not tied to the connection that opened it: a message with the id of any live
  session, arriving on any connection, is handed to the handler with that session, and when
  the handler closes it the session of the other connection is gone, though it stays in the
  other connection's set.
\<close>

theorem session_of_other_connection:
  assumes "PeerSet_find (srv_peer_set s) d = Some p" and "p_id p = d" and "c \<noteq> d"
    and "Map_wf (m_session_map (srv_sessions s))" and "Map_wf (m_conn_session (srv_sessions s))"
    and "find_session (srv_sessions s) i = Some x" and "i \<in> set (owned (srv_sessions s) c)"
    and "\<not> eco_has (dc_category dc) category_heartbeat" and "dc_peer dc = d" and "dc_prot dc = Some prot"
    and "prot_decode prot (MessageMeta_new\<lparr>m_category := dc_category dc\<rparr>) (dc_data dc) = Ok (meta, data, msg)"
    and "m_session_id meta = i" and "i \<noteq> none_session" and "eco_has (m_category meta) category_message"
  shows "\<exists>s1 ctx sess s2. DispatchHandler_apply head dc s = Ok (s1, [], Some ctx)
    \<and> ses_id (c_session ctx) = i \<and> ses_wptr (c_session ctx) = Some x \<and> tc_id (ses_conn (c_session ctx)) = d
    \<and> TcpSession_close (c_session ctx) s1 = Ok (sess, s2)
    \<and> find_session (srv_sessions s2) i = None \<and> i \<in> set (owned (srv_sessions s2) c)"
proof -
  have open_s: "session_open i s q = (q\<lparr>ses_wptr := Some x, ses_id := i\<rparr>, True)" for q :: "'a TcpSession"
    using assms(6) by (simp add: session_open_def)
  have same: "srv_sessions (store_peer d q s) = srv_sessions s" for q by (simp add: store_peer_def)
  have has: "Map_has (m_session_map (srv_sessions s)) i"
    using assms(6) by (simp add: Map_has_def find_session_def Map_find_def)
  have r: "find_session (recycle (srv_sessions s) i) i = None"
    "m_conn_session (recycle (srv_sessions s) i) = m_conn_session (srv_sessions s)"
    using assms(4) by (auto simp: find_session_def recycle_def store_simps)
  have own: "owned (recycle (srv_sessions s) i) = owned (srv_sessions s)"
    by (simp add: owned_def fun_eq_iff recycle_def)
  have e: "erase_session i d (srv_sessions s) = fst (erase_conn_session d i (recycle (srv_sessions s) i))"
    using has by (simp add: erase_session_def recycle_def)
  have "find_session (erase_session i d (srv_sessions s)) i = None"
    using r(1) by (simp add: e find_session_def)
  moreover have "i \<in> set (owned (erase_session i d (srv_sessions s)) c)"
    using assms(3,5,7) r(2) by (simp add: e owned_erase own)
  ultimately show ?thesis
    using assms(1,2,8-14)
    by (auto simp: DispatchHandler_apply_def Let_def handle_server_context_def open_s TcpSession_close_def same)
qed

text \<open>
  Closing a session twice is undefined: the first call clears the owner but not the id, so the
  second takes the null owner for a client and calls it.
\<close>

theorem TcpSession_close_twice:
  assumes "ses_id sess \<noteq> none_session"
  shows "TcpSession_close sess s = UB \<or>
    (\<exists>sess' s'. TcpSession_close sess s = Ok (sess', s') \<and> TcpSession_close sess' s' = UB)"
  using assms by (cases "ses_owner sess") (auto simp: TcpSession_close_def Let_def)

lemma TcpSession_close_twice_witness:
  "\<exists>sess' s'. TcpSession_close (TcpSession_new\<lparr>ses_id := 1, ses_owner := ServerOwner\<rparr>) sample_accepted = Ok (sess', s')
     \<and> TcpSession_close sess' s' = UB"
  using TcpSession_close_twice [of "TcpSession_new\<lparr>ses_id := 1, ses_owner := ServerOwner\<rparr>" sample_accepted]
  by (simp add: TcpSession_close_def none_session_def Let_def)

text \<open>
  A handler with a positive flag gets a message only from an authorized session (for
  messages with a session) or connection; a handler with the flag 0, documented to refuse
  authorized ones, refuses nothing.
\<close>

theorem request_refused_spec:
  "(request_refused 1 category sess_authed conn_authed \<longleftrightarrow>
      \<not> (if eco_has category category_session then sess_authed else conn_authed))
   \<and> \<not> request_refused 0 category sess_authed conn_authed"
  by (auto simp: request_refused_def)


definition sample_foreign :: "u32 Server" where
  "sample_foreign = sample_accepted\<lparr>srv_sessions := fst (add_session (Some (\<lambda>i c. i)) 100 9 Sessions_new)\<rparr>"

definition sample_dc :: DataContext where
  "sample_dc = \<lparr>dc_category = 1, dc_data = [1, 1, 0, 6, 0, 0x10, 0, 0, 0, 1], dc_peer = 5, dc_prot = Some TcpProtocol_protocol\<rparr>"

lemma sample_dc_decode:
  "prot_decode TcpProtocol_protocol (MessageMeta_new\<lparr>m_category := 1\<rparr>) (dc_data sample_dc) =
     Ok (MessageMeta_new\<lparr>m_category := 1, m_option := 0x10, m_session_id := 1\<rparr>, dc_data sample_dc, 10, 0)"
  by (simp add: TcpProtocol_protocol_def TcpProtocol_decode_def TcpProtocol_new_def sample_dc_def Let_def
      TcpProtocolHead_size_def TcpProtocol_get_option_data_pos_def TcpProtocol_get_model_pos_def
      TcpProtocol_get_option_pos_def rd_def TcpProtocol_get_meta_size_def sess_size_def type_size_def req_size_def
      MessageMeta_new_def option_defs eco_has_def read_sess_def read_type_def read_req_def ntoh32_def be32_def)

lemma session_of_other_connection_witness:
  "\<exists>s1 ctx sess s2. DispatchHandler_apply TcpProtocolHead sample_dc sample_foreign = Ok (s1, [], Some ctx)
    \<and> ses_id (c_session ctx) = 1 \<and> tc_id (ses_conn (c_session ctx)) = 5
    \<and> TcpSession_close (c_session ctx) s1 = Ok (sess, s2)
    \<and> find_session (srv_sessions s2) 1 = None \<and> 1 \<in> set (owned (srv_sessions s2) 9)"
proof -
  note d = sample_foreign_def add_session_def Sessions_new_def next_session_id_def Atomic_pre_inc_def
    exchange_add_def Let_def Map_size_def none_session_def find_session_def Map_find_def Map_set_def
    add_conn_session_def Map_wf_def owned_def
  have t: "Map_wf (m_session_map (srv_sessions sample_foreign))" "Map_wf (m_conn_session (srv_sessions sample_foreign))"
    "find_session (srv_sessions sample_foreign) 1 = Some 1" "1 \<in> set (owned (srv_sessions sample_foreign) 9)"
    by (simp_all add: d)
  have p: "PeerSet_find (srv_peer_set sample_foreign) 5 = Some \<lparr>p_id = 5, p_state = 5, p_data = None\<rparr>"
    by (simp add: sample_foreign_def sample_accepted_find)
  show ?thesis
    using session_of_other_connection [OF p _ _ t, where dc = sample_dc and prot = TcpProtocol_protocol
        and head = TcpProtocolHead] sample_dc_decode
    by (simp add: sample_dc_def eco_has_def category_defs none_session_def MessageMeta_new_def) blast
qed

section \<open>From the wire to the handler\<close>

lemma scast_byte_category: "m < 128 \<Longrightarrow> scast (ucast (m :: u16) :: byte) = m"
  using low_byte_id [of m] by (simp add: low_byte_def)

lemma on_read_message:
  assumes "take 2 data = [1, ucast cat]" and "cat < 128"
    and "eco_has cat category_message" and "\<not> eco_has cat category_heartbeat"
    and "find_protocol TcpProtocol_version s = Some prot"
  shows "on_read TcpProtocolHead p data s = Ok (make_connection_data (srv_make_connection s) prot p,
     s\<lparr>srv_posted := srv_posted s @ [\<lparr>dc_category = cat, dc_data = data, dc_peer = p_id p, dc_prot = Some prot\<rparr>]\<rparr>, [])"
proof -
  obtain rest where data: "data = 1 # ucast cat # rest"
    using assms(1) by (cases data; cases "tl data") auto
  have "ph_decode TcpProtocolHead data = Ok \<lparr>head_version = TcpProtocol_version, head_category = cat\<rparr>"
    using assms(2-4) by (simp add: TcpProtocolHead_def TcpProtocolHead_decode_def data rd_def
        scast_byte_category TcpProtocol_version_def)
  moreover have "p_id (make_connection_data f pr p) = p_id p" for f pr by (simp add: make_connection_data_def)
  ultimately show ?thesis using assms(4,5) by (simp add: on_read_def Let_def)
qed

lemma server_reads_message:
  assumes "m_codec meta = Some codec" and "body_codec codec payload"
    and "TcpProtocol_get_meta_size meta + length payload \<le> 65535"
    and "m_category meta < 128" and "eco_has (m_category meta) category_message"
    and "\<not> eco_has (m_category meta) category_heartbeat"
    and "srv_inv s" and "PeerSet_find (srv_peer_set s) c = Some p" and "ready (p_state p)"
    and "find_protocol TcpProtocol_version s = Some TcpProtocol_protocol"
  shows "\<exists>bs buf s1 s2 d q. TcpProtocol_encode fill0 TcpProtocol_new meta = Ok (bs, 0)
    \<and> peer_event TcpProtocolHead (on_read_head fill (server_handler TcpProtocolHead s) (take 4 bs) 4 False) c s =
        Ok (s1, [PeerCall c (ReadData buf 4)]) \<and> length buf = length bs \<and> d = take 4 buf @ drop 4 bs
    \<and> peer_event TcpProtocolHead (on_read_data junk (server_handler TcpProtocolHead s1) d False) c s1 =
        Ok (s2, [PeerCall c (ReadHead 4)])
    \<and> srv_posted s2 = srv_posted s @ [\<lparr>dc_category = m_category meta, dc_data = d, dc_peer = c, dc_prot = Some TcpProtocol_protocol\<rparr>]
    \<and> PeerSet_find (srv_peer_set s2) c = Some q \<and> p_id q = c \<and> srv_sessions s2 = srv_sessions s
    \<and> srv_option s2 = srv_option s \<and> srv_make_session s2 = srv_make_session s
    \<and> TcpProtocol_decode TcpProtocol_new meta0 d =
        Ok (received_meta fill0 meta0 meta, d, 4 + TcpProtocol_get_meta_size meta, of_nat (length payload))
    \<and> drop (4 + TcpProtocol_get_meta_size meta) d = payload"
proof -
  let ?h = "server_handler TcpProtocolHead s"
  have id: "p_id p = c" and ok: "peer_ok p" using srv_inv_find [OF assms(7,8)] by auto
  have nz: "ucast (m_category meta) \<noteq> (0 :: byte)"
    using assms(5) scast_byte_category [OF assms(4)] by (auto simp: eco_has_def)
  have hd: "hdl_head ?h = TcpProtocolHead" by (simp add: server_handler_def)
  obtain bs p1 buf p2 where enc: "TcpProtocol_encode fill0 TcpProtocol_new meta = Ok (bs, 0)" "length buf = length bs"
    and rh: "on_read_head fill ?h (take 4 bs) 4 False p = Ok (p1, [ReadData buf 4])"
    and rd: "on_read_data junk ?h (take 4 buf @ drop 4 bs) False p1 =
        Ok (p2, [NotifyRead (take 4 buf @ drop 4 bs), ReadHead 4])"
    and two: "take 2 (take 4 buf @ drop 4 bs) = [1, ucast (m_category meta)]"
    and dec: "TcpProtocol_decode TcpProtocol_new meta0 (take 4 buf @ drop 4 bs) =
        Ok (received_meta fill0 meta0 meta, take 4 buf @ drop 4 bs, 4 + TcpProtocol_get_meta_size meta, of_nat (length payload))"
      "drop (4 + TcpProtocol_get_meta_size meta) (take 4 buf @ drop 4 bs) = payload"
    using receives_message [OF assms(1-3) nz hd assms(9), of fill0 fill junk meta0] by blast
  let ?d = "take 4 buf @ drop 4 bs"
  have id1: "p_id p1 = c" and ok1: "peer_ok p1"
    using on_read_head_event [OF ok rh] id by (auto simp: event_ok_def Cons_eq_append_conv)
  have id2: "p_id p2 = c" using on_read_data_event [OF ok1 rd] id1
    by (auto simp: event_ok_def Cons_eq_append_conv)
  define s1 where "s1 = store_peer c p1 s"
  have s1: "PeerSet_find (srv_peer_set s1) c = Some p1" "server_handler TcpProtocolHead s1 = ?h"
    "find_protocol TcpProtocol_version s1 = Some TcpProtocol_protocol" "srv_posted s1 = srv_posted s"
    using assms(10) by (simp_all add: s1_def store_peer_def PeerSet_find_def update_conv' server_handler_def find_protocol_def)
  define q where "q = make_connection_data (srv_make_connection s1) TcpProtocol_protocol p2"
  have idq: "p_id q = c" using id2 by (simp add: q_def make_connection_data_def)
  define s2 where "s2 = store_peer c q (s1\<lparr>srv_posted := srv_posted s1 @
    [\<lparr>dc_category = m_category meta, dc_data = ?d, dc_peer = c, dc_prot = Some TcpProtocol_protocol\<rparr>]\<rparr>)"
  have ev: "peer_event TcpProtocolHead (on_read_head fill ?h (take 4 bs) 4 False) c s = Ok (s1, [PeerCall c (ReadData buf 4)])"
    "peer_event TcpProtocolHead (on_read_data junk (server_handler TcpProtocolHead s1) ?d False) c s1 =
      Ok (s2, [PeerCall c (ReadHead 4)])"
    using rh rd assms(8) id1 idq s1 on_read_message [OF two assms(4-6) s1(3), of p2]
    by (simp_all add: peer_event_def s1_def s2_def id2 q_def)
  have s2: "PeerSet_find (srv_peer_set s2) c = Some q" "srv_sessions s2 = srv_sessions s"
    "srv_option s2 = srv_option s" "srv_make_session s2 = srv_make_session s"
    by (simp_all add: s2_def s1_def store_peer_def PeerSet_find_def update_conv')
  show ?thesis
    by (rule exI [of _ bs], rule exI [of _ buf], rule exI [of _ s1], rule exI [of _ s2], rule exI [of _ ?d], rule exI [of _ q])
      (use enc ev s2 idq dec in \<open>simp add: s2_def store_peer_def s1(4)\<close>)
qed

lemma dispatch_message:
  assumes "PeerSet_find (srv_peer_set s) c = Some q" and "p_id q = c"
    and "prot_decode prot (MessageMeta_new\<lparr>m_category := cat\<rparr>) d = Ok (meta, data, msg)"
    and "m_category meta = cat" and "eco_has cat category_message" and "\<not> eco_has cat category_heartbeat"
    and "m_session_id meta = none_session \<or> find_session (srv_sessions s) (m_session_id meta) \<noteq> None"
  shows "\<exists>s' ctx. DispatchHandler_apply head \<lparr>dc_category = cat, dc_data = d, dc_peer = c, dc_prot = Some prot\<rparr> s = Ok (s', [], Some ctx)
    \<and> c_meta ctx = meta \<and> tc_id (ses_conn (c_session ctx)) = c \<and> c_message ctx = Some msg \<and> c_data ctx = data"
  using assms by (auto simp: DispatchHandler_apply_def Let_def handle_server_context_def session_open_def)


definition sample_ready :: "u32 Server" where
  "sample_ready = sample_accepted\<lparr>srv_sessions := Sessions_new\<lparr>m_session_map := [(3, 3)], m_conn_session := [(5, [3])]\<rparr>\<rparr>"

lemma sample_ready_facts:
  "srv_inv sample_ready"
  "PeerSet_find (srv_peer_set sample_ready) 5 = Some \<lparr>p_id = 5, p_state = 5, p_data = None\<rparr>"
  "find_protocol TcpProtocol_version sample_ready = Some TcpProtocol_protocol" "srv_posted sample_ready = []"
  "find_session (srv_sessions sample_ready) 3 = Some 3"
  "srv_make_session sample_ready = Some (\<lambda>i c. i)" "opt_max_session_size (srv_option sample_ready) = 100"
proof -
  show "srv_inv sample_ready"
    using srv_reach_inv [OF sample_reach]
    by (simp add: srv_inv_def sample_ready_def sample_server_def Server_new_def TcpPeerSet_new_def)
  show "PeerSet_find (srv_peer_set sample_ready) 5 = Some \<lparr>p_id = 5, p_state = 5, p_data = None\<rparr>"
    by (simp add: sample_ready_def sample_accepted_find)
qed (simp_all add: sample_ready_def sample_accepted_def on_accept_def Let_def sample_running_eq store_peer_def
        find_protocol_def event_defs PeerSet_add_def TcpPeerSet_new_def find_session_def Map_find_def)


end
