(* ===== verification/Eco_MessageQueue.thy ===== *)
theory Eco_MessageQueue
  imports Eco_Flags
begin

text \<open>
  The bounded queue between the io threads and the business threads: \<open>MessageQueue\<close> of
  \<open>src/project/eco/thread/MessageQueue.h\<close> with its mutex and its two condition variables.

  A thread holds the mutex from one wait to the next, so what it does in between is one step. A
  thread that waits on a condition variable is listed there; a notification (or a spurious
  wake-up) moves it to the threads that are woken and will take the mutex again, and from there
  it goes once more around its loop. The steps of all threads interleave in any order.

  The lemmas show that the queue is a first-in first-out queue of its posted messages under every
  interleaving, and that no wake-up is lost; the last properties show where the code breaks that.
\<close>

section \<open>State\<close>

type_synonym tid = nat

text \<open>A waiting producer keeps the message it has to post.\<close>

record 'm MessageQueue =
  mq_capacity :: u32
  mq_deque :: "'m list"
  mq_state :: State
  mq_empty_cond_var :: "tid list"
  mq_full_cond_var :: "(tid \<times> 'm) list"
  mq_woken_pop :: "tid list"
  mq_woken_post :: "(tid \<times> 'm) list"

definition default_capacity :: u32 where "default_capacity = 5000"

definition MQ_set_capacity :: "u32 \<Rightarrow> 'm MessageQueue \<Rightarrow> 'm MessageQueue" where
  "MQ_set_capacity capacity q = q\<lparr>mq_capacity := (if capacity > 0 then capacity else default_capacity)\<rparr>"

definition MQ_open :: "'m MessageQueue \<Rightarrow> 'm MessageQueue" where
  "MQ_open q = q\<lparr>mq_state := State_ok (mq_state q)\<rparr>"

definition MQ_is_open :: "'m MessageQueue \<Rightarrow> bool" where
  "MQ_is_open q = State_is_ok (mq_state q)"

definition MQ_is_close :: "'m MessageQueue \<Rightarrow> bool" where
  "MQ_is_close q = State_is_none (mq_state q)"

definition MQ_new :: "u32 \<Rightarrow> 'm MessageQueue" where
  "MQ_new capacity = MQ_open (MQ_set_capacity capacity
     \<lparr>mq_capacity = 0, mq_deque = [], mq_state = State_no, mq_empty_cond_var = [], mq_full_cond_var = [],
      mq_woken_pop = [], mq_woken_post = []\<rparr>)"

definition MQ_is_empty :: "'m MessageQueue \<Rightarrow> bool" where
  "MQ_is_empty q = (mq_deque q = [])"

definition MQ_is_full :: "'m MessageQueue \<Rightarrow> bool" where
  "MQ_is_full q = (length (mq_deque q) = unat (mq_capacity q))"

section \<open>Condition variables\<close>

text \<open>
  \<open>notify_one\<close> wakes some waiter, the one at place \<open>i\<close>; with nobody waiting it does nothing.
\<close>

definition notify_one :: "nat \<Rightarrow> 'a list \<Rightarrow> 'a list \<Rightarrow> 'a list \<times> 'a list" where
  "notify_one i waiting woken =
     (if i < length waiting then (take i waiting @ drop (Suc i) waiting, woken @ [waiting ! i])
      else (waiting, woken))"

definition notify_choice :: "nat \<Rightarrow> 'a list \<Rightarrow> bool" where
  "notify_choice i waiting \<longleftrightarrow> i < length waiting \<or> waiting = []"

definition notify_empty :: "nat \<Rightarrow> 'm MessageQueue \<Rightarrow> 'm MessageQueue" where
  "notify_empty i q =
     (let (waiting, woken) = notify_one i (mq_empty_cond_var q) (mq_woken_pop q)
      in q\<lparr>mq_empty_cond_var := waiting, mq_woken_pop := woken\<rparr>)"

definition notify_full :: "nat \<Rightarrow> 'm MessageQueue \<Rightarrow> 'm MessageQueue" where
  "notify_full i q =
     (let (waiting, woken) = notify_one i (mq_full_cond_var q) (mq_woken_post q)
      in q\<lparr>mq_full_cond_var := waiting, mq_woken_post := woken\<rparr>)"

section \<open>Operations\<close>

text \<open>What a thread does with the mutex held, and what comes of it.\<close>

datatype 'm mq_event =
    EvPost 'm
  | EvReplace nat 'm
  | EvPop tid 'm
  | EvPopEnd tid
  | EvRelease
  | EvCapacity
  | EvNone

text \<open>One round of the loop of \<open>raw_post\<close>: wait while the queue is full, else append.\<close>

definition MQ_raw_post :: "tid \<Rightarrow> 'm \<Rightarrow> nat \<Rightarrow> 'm MessageQueue \<Rightarrow> 'm MessageQueue \<times> 'm mq_event" where
  "MQ_raw_post t msg i q =
     (if MQ_is_full q then (q\<lparr>mq_full_cond_var := mq_full_cond_var q @ [(t, msg)]\<rparr>, EvNone)
      else (notify_empty i (q\<lparr>mq_deque := mq_deque q @ [msg]\<rparr>), EvPost msg))"

definition MQ_post :: "tid \<Rightarrow> 'm \<Rightarrow> nat \<Rightarrow> 'm MessageQueue \<Rightarrow> 'm MessageQueue \<times> 'm mq_event" where
  "MQ_post t msg i q = MQ_raw_post t msg i q"

fun find_if :: "('m \<Rightarrow> bool) \<Rightarrow> 'm list \<Rightarrow> nat option" where
  "find_if check [] = None"
| "find_if check (x # xs) = (if check x then Some 0 else map_option Suc (find_if check xs))"

definition MQ_post_unique ::
  "('m \<Rightarrow> bool) \<Rightarrow> tid \<Rightarrow> 'm \<Rightarrow> nat \<Rightarrow> 'm MessageQueue \<Rightarrow> 'm MessageQueue \<times> 'm mq_event" where
  "MQ_post_unique unique_check t msg i q =
     (case find_if unique_check (mq_deque q) of
        Some n \<Rightarrow> (q\<lparr>mq_deque := (mq_deque q)[n := msg]\<rparr>, EvReplace n msg)
      | None \<Rightarrow> MQ_raw_post t msg i q)"

text \<open>One round of the loop of \<open>pop\<close>.\<close>

definition MQ_pop :: "tid \<Rightarrow> nat \<Rightarrow> 'm MessageQueue \<Rightarrow> 'm MessageQueue \<times> 'm mq_event" where
  "MQ_pop t i q =
     (case mq_deque q of
        [] \<Rightarrow> if MQ_is_close q then (q, EvPopEnd t)
              else (q\<lparr>mq_empty_cond_var := mq_empty_cond_var q @ [t]\<rparr>, EvNone)
      | msg # rest \<Rightarrow> (notify_full i (q\<lparr>mq_deque := rest\<rparr>), EvPop t msg))"

definition MQ_raw_close :: "'m MessageQueue \<Rightarrow> 'm MessageQueue" where
  "MQ_raw_close q =
     (if State_is_none (mq_state q) then q
      else q\<lparr>mq_state := State_none (mq_state q),
             mq_empty_cond_var := [], mq_woken_pop := mq_woken_pop q @ mq_empty_cond_var q,
             mq_full_cond_var := [], mq_woken_post := mq_woken_post q @ mq_full_cond_var q\<rparr>)"

definition MQ_close :: "'m MessageQueue \<Rightarrow> 'm MessageQueue" where
  "MQ_close q = MQ_raw_close q"

definition MQ_release :: "'m MessageQueue \<Rightarrow> 'm MessageQueue" where
  "MQ_release q = MQ_raw_close (q\<lparr>mq_deque := []\<rparr>)"

section \<open>Interleaving\<close>

inductive mq_step :: "'m MessageQueue \<Rightarrow> 'm mq_event \<Rightarrow> 'm MessageQueue \<Rightarrow> bool" where
  mq_post: "MQ_post t msg i q = (q', ev) \<Longrightarrow> notify_choice i (mq_empty_cond_var q) \<Longrightarrow> mq_step q ev q'"
| mq_post_unique: "MQ_post_unique chk t msg i q = (q', ev) \<Longrightarrow> notify_choice i (mq_empty_cond_var q) \<Longrightarrow>
     mq_step q ev q'"
| mq_post_again: "(t, msg) \<in> set (mq_woken_post q) \<Longrightarrow>
     MQ_raw_post t msg i (q\<lparr>mq_woken_post := remove1 (t, msg) (mq_woken_post q)\<rparr>) = (q', ev) \<Longrightarrow>
     notify_choice i (mq_empty_cond_var q) \<Longrightarrow> mq_step q ev q'"
| mq_pop: "MQ_pop t i q = (q', ev) \<Longrightarrow> notify_choice i (mq_full_cond_var q) \<Longrightarrow> mq_step q ev q'"
| mq_pop_again: "t \<in> set (mq_woken_pop q) \<Longrightarrow>
     MQ_pop t i (q\<lparr>mq_woken_pop := remove1 t (mq_woken_pop q)\<rparr>) = (q', ev) \<Longrightarrow>
     notify_choice i (mq_full_cond_var q) \<Longrightarrow> mq_step q ev q'"
| mq_close: "mq_step q EvNone (MQ_close q)"
| mq_release: "mq_step q EvRelease (MQ_release q)"
| mq_open: "mq_step q EvNone (MQ_open q)"
| mq_set_capacity: "mq_step q EvCapacity (MQ_set_capacity c q)"
| mq_spurious_pop: "i < length (mq_empty_cond_var q) \<Longrightarrow> mq_step q EvNone (notify_empty i q)"
| mq_spurious_post: "i < length (mq_full_cond_var q) \<Longrightarrow> mq_step q EvNone (notify_full i q)"

inductive mq_run :: "'m MessageQueue \<Rightarrow> 'm mq_event list \<Rightarrow> 'm MessageQueue \<Rightarrow> bool" for q0 where
  mq_run_start: "mq_run q0 [] q0"
| mq_run_step: "mq_run q0 evs q \<Longrightarrow> mq_step q ev q' \<Longrightarrow> mq_run q0 (evs @ [ev]) q'"

inductive_cases mq_stepE: "mq_step q ev q'"

section \<open>The abstract queue\<close>

text \<open>
  The specification: the events, in the order they happen, applied to a list of messages. A pop
  of anything but the oldest message, or from an empty queue, is not allowed.
\<close>

fun fifo_step :: "'m mq_event \<Rightarrow> 'm list \<Rightarrow> 'm list option" where
  "fifo_step (EvPost m) xs = Some (xs @ [m])"
| "fifo_step (EvReplace n m) xs = (if n < length xs then Some (xs[n := m]) else None)"
| "fifo_step (EvPop t m) xs = (case xs of [] \<Rightarrow> None | y # ys \<Rightarrow> if y = m then Some ys else None)"
| "fifo_step (EvPopEnd t) xs = (if xs = [] then Some [] else None)"
| "fifo_step EvRelease xs = Some []"
| "fifo_step EvCapacity xs = Some xs"
| "fifo_step EvNone xs = Some xs"

fun fifo :: "'m mq_event list \<Rightarrow> 'm list \<Rightarrow> 'm list option" where
  "fifo [] xs = Some xs"
| "fifo (ev # evs) xs = Option.bind (fifo_step ev xs) (fifo evs)"

lemma fifo_append: "fifo (evs @ evs') xs = Option.bind (fifo evs xs) (fifo evs')"
  by (induction evs arbitrary: xs) (auto simp: bind_eq_None_conv split: Option.bind_split)

lemma notify_sel [simp]:
  "mq_deque (notify_empty i q) = mq_deque q" "mq_deque (notify_full i q) = mq_deque q"
  "mq_capacity (notify_empty i q) = mq_capacity q" "mq_capacity (notify_full i q) = mq_capacity q"
  "mq_state (notify_empty i q) = mq_state q" "mq_state (notify_full i q) = mq_state q"
  "mq_full_cond_var (notify_empty i q) = mq_full_cond_var q" "mq_woken_post (notify_empty i q) = mq_woken_post q"
  "mq_empty_cond_var (notify_full i q) = mq_empty_cond_var q" "mq_woken_pop (notify_full i q) = mq_woken_pop q"
  by (simp_all add: notify_empty_def notify_full_def notify_one_def)

lemma find_if_bound: "find_if chk xs = Some n \<Longrightarrow> n < length xs"
  by (induction xs arbitrary: n) (auto split: if_splits)

lemma MQ_raw_post_fifo: "MQ_raw_post t m i q = (q', ev) \<Longrightarrow> fifo_step ev (mq_deque q) = Some (mq_deque q')"
  by (auto simp: MQ_raw_post_def split: if_splits)

lemma MQ_pop_fifo: "MQ_pop t i q = (q', ev) \<Longrightarrow> fifo_step ev (mq_deque q) = Some (mq_deque q')"
  by (auto simp: MQ_pop_def split: list.splits if_splits)

lemma mq_step_fifo: "mq_step q ev q' \<Longrightarrow> fifo_step ev (mq_deque q) = Some (mq_deque q')"
proof (induction rule: mq_step.induct)
  case (mq_post_unique chk t msg i q q' ev)
  then show ?case
    by (auto simp: MQ_post_unique_def split: option.splits dest: find_if_bound MQ_raw_post_fifo)
next
  case (mq_post_again t msg q i q' ev)
  then show ?case using MQ_raw_post_fifo [of t msg i "q\<lparr>mq_woken_post := remove1 (t, msg) (mq_woken_post q)\<rparr>"] by simp
next
  case (mq_pop_again t q i q' ev)
  then show ?case using MQ_pop_fifo [of t i "q\<lparr>mq_woken_pop := remove1 t (mq_woken_pop q)\<rparr>"] by simp
qed (auto simp: MQ_post_def MQ_close_def MQ_raw_close_def MQ_release_def MQ_open_def MQ_set_capacity_def
    dest: MQ_raw_post_fifo MQ_pop_fifo)

section \<open>Wake-ups\<close>

text \<open>
  Nobody sleeps who could go on: while a consumer waits, there are at most as many messages as
  consumers already woken, and while a producer waits, the free places are spoken for by woken
  producers.
\<close>

definition mq_inv :: "'m MessageQueue \<Rightarrow> bool" where
  "mq_inv q \<longleftrightarrow> length (mq_deque q) \<le> unat (mq_capacity q)
     \<and> (mq_empty_cond_var q = [] \<or> length (mq_deque q) \<le> length (mq_woken_pop q))
     \<and> (mq_full_cond_var q = [] \<or> unat (mq_capacity q) \<le> length (mq_deque q) + length (mq_woken_post q))"

lemma notify_one_length:
  "notify_choice i waiting \<Longrightarrow> notify_one i waiting woken = (waiting', woken') \<Longrightarrow>
     waiting' = [] \<or> length woken' = Suc (length woken)"
  by (auto simp: notify_one_def notify_choice_def split: if_splits)

lemma notify_empty_woken:
  "notify_choice i (mq_empty_cond_var q) \<Longrightarrow>
     mq_empty_cond_var (notify_empty i q) = [] \<or> length (mq_woken_pop (notify_empty i q)) = Suc (length (mq_woken_pop q))"
  by (auto simp: notify_empty_def split: prod.splits dest: notify_one_length)

lemma notify_full_woken:
  "notify_choice i (mq_full_cond_var q) \<Longrightarrow>
     mq_full_cond_var (notify_full i q) = [] \<or> length (mq_woken_post (notify_full i q)) = Suc (length (mq_woken_post q))"
  by (auto simp: notify_full_def split: prod.splits dest: notify_one_length)

lemma notify_nobody [simp]:
  "mq_empty_cond_var q = [] \<Longrightarrow> mq_empty_cond_var (notify_empty i q) = []"
  "mq_full_cond_var q = [] \<Longrightarrow> mq_full_cond_var (notify_full i q) = []"
  by (simp_all add: notify_empty_def notify_full_def notify_one_def)

text \<open>A step of a producer that was woken starts with one woken producer less.\<close>

lemma MQ_raw_post_inv:
  assumes "mq_inv q \<or> (\<exists>q0. mq_inv q0 \<and> q = q0\<lparr>mq_woken_post := w\<rparr> \<and> length (mq_woken_post q0) = Suc (length w))"
    and "notify_choice i (mq_empty_cond_var q)" and "MQ_raw_post t m i q = (q', ev)"
  shows "mq_inv q'"
  using assms notify_empty_woken [of i "q\<lparr>mq_deque := mq_deque q @ [m]\<rparr>"]
  by (auto simp: MQ_raw_post_def mq_inv_def MQ_is_full_def split: if_splits)

lemma MQ_pop_inv:
  assumes "mq_inv q \<or> (\<exists>q0. mq_inv q0 \<and> q = q0\<lparr>mq_woken_pop := w\<rparr> \<and> length (mq_woken_pop q0) = Suc (length w))"
    and "notify_choice i (mq_full_cond_var q)" and "MQ_pop t i q = (q', ev)"
  shows "mq_inv q'"
  using assms notify_full_woken [of i "q\<lparr>mq_deque := tl (mq_deque q)\<rparr>"]
  by (auto simp: MQ_pop_def mq_inv_def split: if_splits list.splits)

lemmas MQ_raw_post_inv1 = MQ_raw_post_inv [OF disjI1]
lemmas MQ_pop_inv1 = MQ_pop_inv [OF disjI1]

lemma MQ_raw_post_again_inv:
  assumes "mq_inv q" "(t, msg) \<in> set (mq_woken_post q)" "notify_choice i (mq_empty_cond_var q)"
    and "MQ_raw_post t msg i (q\<lparr>mq_woken_post := remove1 (t, msg) (mq_woken_post q)\<rparr>) = (q', ev)"
  shows "mq_inv q'"
proof (rule MQ_raw_post_inv [OF disjI2])
  show "\<exists>q0. mq_inv q0 \<and> q\<lparr>mq_woken_post := remove1 (t, msg) (mq_woken_post q)\<rparr> =
      q0\<lparr>mq_woken_post := remove1 (t, msg) (mq_woken_post q)\<rparr> \<and>
      length (mq_woken_post q0) = Suc (length (remove1 (t, msg) (mq_woken_post q)))"
    using assms(1,2) length_pos_if_in_set [OF assms(2)] by (intro exI [of _ q]) (simp add: length_remove1)
qed (use assms(3,4) in simp_all)

lemma MQ_pop_again_inv:
  assumes "mq_inv q" "t \<in> set (mq_woken_pop q)" "notify_choice i (mq_full_cond_var q)"
    and "MQ_pop t i (q\<lparr>mq_woken_pop := remove1 t (mq_woken_pop q)\<rparr>) = (q', ev)"
  shows "mq_inv q'"
proof (rule MQ_pop_inv [OF disjI2])
  show "\<exists>q0. mq_inv q0 \<and> q\<lparr>mq_woken_pop := remove1 t (mq_woken_pop q)\<rparr> =
      q0\<lparr>mq_woken_pop := remove1 t (mq_woken_pop q)\<rparr> \<and>
      length (mq_woken_pop q0) = Suc (length (remove1 t (mq_woken_pop q)))"
    using assms(1,2) length_pos_if_in_set [OF assms(2)] by (intro exI [of _ q]) (simp add: length_remove1)
qed (use assms(3,4) in simp_all)

lemma MQ_post_unique_inv:
  assumes "mq_inv q" "notify_choice i (mq_empty_cond_var q)" "MQ_post_unique chk t msg i q = (q', ev)"
  shows "mq_inv q'"
proof (cases "find_if chk (mq_deque q)")
  case None
  then show ?thesis using MQ_raw_post_inv1 [OF assms(1,2)] assms(3) by (simp add: MQ_post_unique_def)
next
  case (Some n)
  then show ?thesis using assms(1,3) by (auto simp: MQ_post_unique_def mq_inv_def)
qed

lemma mq_step_inv:
  assumes "mq_step q ev q'" "mq_inv q" "ev \<noteq> EvCapacity" "ev \<noteq> EvRelease"
  shows "mq_inv q'"
  using assms
proof (induction rule: mq_step.induct)
  case (mq_post t msg i q q' ev)
  then show ?case unfolding MQ_post_def by (blast intro: MQ_raw_post_inv1)
next
  case (mq_spurious_pop i q)
  then show ?case using notify_empty_woken [of i q] by (auto simp: mq_inv_def notify_choice_def)
next
  case (mq_spurious_post i q)
  then show ?case using notify_full_woken [of i q] by (auto simp: mq_inv_def notify_choice_def)
next
  case (mq_post_unique chk t msg i q q' ev)
  then show ?case by (blast intro: MQ_post_unique_inv)
next
  case (mq_post_again t msg q i q' ev)
  then show ?case by (blast intro: MQ_raw_post_again_inv)
next
  case (mq_pop t i q q' ev)
  then show ?case by (blast intro: MQ_pop_inv1)
next
  case (mq_pop_again t q i q' ev)
  then show ?case by (blast intro: MQ_pop_again_inv)
qed (simp_all add: mq_inv_def MQ_close_def MQ_raw_close_def MQ_open_def)

lemma MQ_new_inv: "mq_inv (MQ_new c)"
  by (simp add: mq_inv_def MQ_new_def MQ_open_def MQ_set_capacity_def)

lemma mq_run_inv: "mq_run (MQ_new c) evs q \<Longrightarrow> EvCapacity \<notin> set evs \<Longrightarrow> EvRelease \<notin> set evs \<Longrightarrow> mq_inv q"
proof (induction rule: mq_run.induct)
  case mq_run_start
  show ?case by (rule MQ_new_inv)
next
  case (mq_run_step evs q ev q')
  then show ?case using mq_step_inv by auto
qed

section \<open>Properties\<close>

text \<open>
  Claim C19. The message queue is a first-in first-out queue under every interleaving of producers and
  consumers: its events are those of the abstract queue, and its contents are what the abstract
  queue holds.
\<close>

theorem MessageQueue_refines_fifo:
  assumes "mq_run (MQ_new c) evs q"
  shows "fifo evs [] = Some (mq_deque q)"
  using assms
proof (induction rule: mq_run.induct)
  case mq_run_start
  show ?case by (simp add: MQ_new_def MQ_open_def MQ_set_capacity_def)
next
  case (mq_run_step evs q ev q')
  then show ?case using mq_step_fifo [OF mq_run_step.hyps(2)] by (simp add: fifo_append)
qed

lemma woken_pop_pops:
  "mq_deque q \<noteq> [] \<Longrightarrow> mq_woken_pop q \<noteq> [] \<Longrightarrow> \<exists>t q'. t \<in> set (mq_woken_pop q) \<and>
     MQ_pop t i (q\<lparr>mq_woken_pop := remove1 t (mq_woken_pop q)\<rparr>) = (q', EvPop t (hd (mq_deque q)))"
  by (cases "mq_woken_pop q"; cases "mq_deque q") (auto simp: MQ_pop_def)

lemma woken_post_posts:
  "\<not> MQ_is_full q \<Longrightarrow> mq_woken_post q \<noteq> [] \<Longrightarrow> \<exists>t msg q'. (t, msg) \<in> set (mq_woken_post q) \<and>
     MQ_raw_post t msg i (q\<lparr>mq_woken_post := remove1 (t, msg) (mq_woken_post q)\<rparr>) = (q', EvPost msg)"
  by (cases "mq_woken_post q") (auto simp: MQ_raw_post_def MQ_is_full_def)


text \<open>A run with capacity one: a consumer sleeps, a message arrives and wakes it, a second producer waits.\<close>

definition mq_sample :: "u32 MessageQueue" where
  "mq_sample = fst (MQ_post 3 8 0 (fst (MQ_post 2 7 0 (fst (MQ_pop 4 0 (MQ_new 1))))))"

lemma mq_sample_eq:
  "mq_sample = \<lparr>mq_capacity = 1, mq_deque = [7], mq_state = State_ok State_no, mq_empty_cond_var = [],
     mq_full_cond_var = [(3, 8)], mq_woken_pop = [4], mq_woken_post = []\<rparr>"
  "snd (MQ_pop 4 0 (MQ_new 1 :: u32 MessageQueue)) = EvNone"
  "snd (MQ_post 2 7 0 (fst (MQ_pop 4 0 (MQ_new 1 :: u32 MessageQueue)))) = EvPost 7"
  "snd (MQ_post 3 8 0 (fst (MQ_post 2 7 0 (fst (MQ_pop 4 0 (MQ_new 1 :: u32 MessageQueue)))))) = EvNone"
  by (simp_all add: mq_sample_def MQ_post_def MQ_raw_post_def MQ_pop_def MQ_new_def MQ_open_def MQ_set_capacity_def
      MQ_is_full_def notify_empty_def notify_one_def MQ_is_close_def State_op_defs State_flag_defs)

lemma mq_sample_run: "mq_run (MQ_new 1) [EvNone, EvPost 7, EvNone] mq_sample"
proof -
  let ?q0 = "MQ_new 1 :: u32 MessageQueue"
  let ?q1 = "fst (MQ_pop 4 0 ?q0)"
  let ?q2 = "fst (MQ_post 2 7 0 ?q1)"
  note unf = MQ_new_def MQ_open_def MQ_set_capacity_def MQ_pop_def MQ_is_close_def State_op_defs State_flag_defs
    MQ_post_def MQ_raw_post_def MQ_is_full_def notify_empty_def notify_one_def
  have res: "MQ_pop 4 0 ?q0 = (?q1, EvNone)" "MQ_post 2 7 0 ?q1 = (?q2, EvPost 7)" "MQ_post 3 8 0 ?q2 = (mq_sample, EvNone)"
    by (simp_all add: prod_eq_iff mq_sample_eq(2-4) mq_sample_def)
  have choice: "notify_choice 0 (mq_full_cond_var ?q0)" "notify_choice 0 (mq_empty_cond_var ?q1)"
    "notify_choice 0 (mq_empty_cond_var ?q2)"
    by (simp_all add: notify_choice_def unf)
  from mq_run_step [OF mq_run_start mq_step.mq_pop [OF res(1) choice(1)]]
  have r1: "mq_run ?q0 [EvNone] ?q1" by simp
  from mq_run_step [OF r1 mq_step.mq_post [OF res(2) choice(2)]] have r2: "mq_run ?q0 [EvNone, EvPost 7] ?q2" by simp
  from mq_run_step [OF r2 mq_step.mq_post [OF res(3) choice(3)]] show ?thesis by simp
qed

lemma MessageQueue_refines_fifo_witness: "fifo [EvNone, EvPost 7, EvNone] [] = Some (mq_deque mq_sample)"
  by (rule MessageQueue_refines_fifo [OF mq_sample_run])


text \<open>
  A closed queue does not stop receiving: a message posted to it is stored like before, and
  no consumer is told that the queue has ended while it holds one; a consumer is told so
  exactly when the queue is closed and empty.
\<close>

theorem MessageQueue_post_after_close:
  assumes "\<not> MQ_is_full q"
  shows "mq_deque (fst (MQ_post t m i (MQ_close q))) = mq_deque q @ [m]
    \<and> (snd (MQ_pop t i q) = EvPopEnd t \<longleftrightarrow> MQ_is_close q \<and> MQ_is_empty q)"
  using assms
  by (auto simp: MQ_post_def MQ_raw_post_def MQ_close_def MQ_raw_close_def MQ_is_full_def MQ_pop_def MQ_is_empty_def
      split: list.splits)

lemma MessageQueue_post_after_close_witness:
  "mq_deque (fst (MQ_post 2 (7 :: u32) 0 (MQ_close (MQ_new 1)))) = [7]"
  using MessageQueue_post_after_close [of "MQ_new 1 :: u32 MessageQueue" 2 7 0]
  by (simp add: MQ_new_def MQ_open_def MQ_set_capacity_def MQ_is_full_def)

text \<open>
  Releasing a queue that is already closed strands its waiting producers: the messages are
  gone, so there is room, but nobody is notified, and every consumer that comes now ends
  without notifying anybody either.
\<close>

theorem MessageQueue_release_strands:
  assumes "MQ_is_close q"
  shows "mq_full_cond_var (MQ_release q) = mq_full_cond_var q \<and> mq_woken_post (MQ_release q) = mq_woken_post q
    \<and> mq_deque (MQ_release q) = [] \<and> MQ_pop t i (MQ_release q) = (MQ_release q, EvPopEnd t)"
  using assms by (simp add: MQ_release_def MQ_raw_close_def MQ_is_close_def MQ_pop_def)

lemma MessageQueue_release_strands_witness:
  "mq_full_cond_var (MQ_release (fst (MQ_post 3 8 0 (MQ_close mq_sample)))) = [(3, 8)]
   \<and> mq_deque (MQ_release (fst (MQ_post 3 8 0 (MQ_close mq_sample)))) = []"
proof -
  have q: "fst (MQ_post 3 8 0 (MQ_close mq_sample)) = \<lparr>mq_capacity = 1, mq_deque = [7], mq_state = State_no,
      mq_empty_cond_var = [], mq_full_cond_var = [(3, 8)], mq_woken_pop = [4], mq_woken_post = [(3, 8)]\<rparr>"
    by (simp add: MQ_post_def MQ_raw_post_def MQ_close_def MQ_raw_close_def mq_sample_eq MQ_is_full_def
        State_op_defs State_flag_defs)
  show ?thesis
    using MessageQueue_release_strands [of "fst (MQ_post 3 8 0 (MQ_close mq_sample))" 0 0]
    unfolding q by (simp add: MQ_is_close_def State_op_defs State_flag_defs)
qed

end
