(* ===== verification/Eco_Cast.thy ===== *)
theory Eco_Cast
  imports Eco_Prelude "HOL-Library.Signed_Division"
begin

text \<open>
  Numbers as text: \<open>src/project/eco/Cast.h\<close>. \<open>Integer\<close> prints an integer of any width into a buffer of 64
  bytes, the \<open>cast\<close> functions read one back through the C library (\<open>atoi\<close>, \<open>strtoll\<close>, \<open>strtoull\<close>).
  The value of an integer type is an \<open>int\<close> here: printing only divides it, so it never leaves the
  type. A string argument is a buffer of bytes, or nothing for a null pointer.

  The lemmas show that reading inverts printing, for every 64 bit value.
\<close>

section \<open>Printing\<close>

definition s_digits :: bytes where "s_digits = lit ''9876543210123456789''"
definition s_digits_hex :: bytes where "s_digits_hex = lit ''0123456789ABCDEF''"

text \<open>\<open>s_zero\<close> points into the middle of \<open>s_digits\<close>: a remainder of a negative number indexes to its left.\<close>

definition s_zero :: "int \<Rightarrow> byte outcome" where
  "s_zero lsd = (if 0 \<le> 9 + lsd then rd s_digits (nat (9 + lsd)) else UB)"

function int_dec_loop :: "int \<Rightarrow> bytes outcome" where
  "int_dec_loop x =
     (let lsd = x smod 10; x1 = x sdiv 10 in
      obind (s_zero lsd) (\<lambda>d.
        if x1 \<noteq> 0 then obind (int_dec_loop x1) (\<lambda>ds. Ok (d # ds)) else Ok [d]))"
  by pat_completeness auto
termination
  by (relation "measure (\<lambda>x. nat \<bar>x\<bar>)") (auto simp: signed_divide_int_def abs_mult sgn_if)

text \<open>\<open>m_buf\<close> has 64 bytes; the text and its terminator must fit.\<close>

definition convert_dec :: "int \<Rightarrow> u8 \<Rightarrow> byte \<Rightarrow> bytes outcome" where
  "convert_dec v width hold =
     obind (int_dec_loop v) (\<lambda>ds.
       let p = ds @ (if v < 0 then [45] else []);
           p = p @ (if width > 0 then replicate (nat (uint width - int (length p))) hold else [])
       in if length p + 1 \<le> 64 then Ok (rev p) else UB)"

function int_hex_loop :: "int \<Rightarrow> bytes outcome" where
  "int_hex_loop v =
     (let lsd = v smod 16; v1 = v sdiv 16 in
      obind (if 0 \<le> lsd then rd s_digits_hex (nat lsd) else UB) (\<lambda>d.
        if v1 \<noteq> 0 then obind (int_hex_loop v1) (\<lambda>ds. Ok (d # ds)) else Ok [d]))"
  by pat_completeness auto
termination
  by (relation "measure (\<lambda>x. nat \<bar>x\<bar>)") (auto simp: signed_divide_int_def abs_mult sgn_if)

text \<open>The count of fill characters is an 8 bit difference, which wraps when the text is longer than the width.\<close>

definition convert_hex :: "int \<Rightarrow> u8 \<Rightarrow> byte \<Rightarrow> bytes outcome" where
  "convert_hex v width hold =
     obind (int_hex_loop v) (\<lambda>ds.
       let p = ds @ (if width > 0 then replicate (unat (width - of_nat (length ds))) hold else [])
       in if length p + 1 \<le> 62 then Ok (rev p) else UB)"

datatype Scale = Dec | Hex

definition Integer_str :: "int \<Rightarrow> Scale \<Rightarrow> u8 \<Rightarrow> byte \<Rightarrow> bytes outcome" where
  "Integer_str v s width hold =
     (case s of
        Dec \<Rightarrow> convert_dec v width hold
      | Hex \<Rightarrow> obind (convert_hex v width hold) (\<lambda>t. Ok (48 # 120 # t)))"

section \<open>The C library\<close>

definition isspace :: "byte \<Rightarrow> bool" where "isspace c \<longleftrightarrow> c = 32 \<or> 9 \<le> c \<and> c \<le> 13"
definition isdigit :: "byte \<Rightarrow> bool" where "isdigit c \<longleftrightarrow> 48 \<le> c \<and> c \<le> 57"

fun digits_value :: "int \<Rightarrow> bytes \<Rightarrow> int" where
  "digits_value acc [] = acc"
| "digits_value acc (c # cs) = (if isdigit c then digits_value (acc * 10 + (uint c - 48)) cs else acc)"

definition c_parse :: "bytes \<Rightarrow> int" where
  "c_parse s =
     (case dropWhile isspace s of
        [] \<Rightarrow> 0
      | c # r \<Rightarrow> if c = 45 then - digits_value 0 r
               else if c = 43 then digits_value 0 r else digits_value 0 (c # r))"

definition c_string :: "bytes option \<Rightarrow> bytes outcome" where
  "c_string sv = (case sv of None \<Rightarrow> UB | Some s \<Rightarrow> if 0 \<in> set s then Ok (takeWhile (\<lambda>b. b \<noteq> 0) s) else UB)"

text \<open>\<open>atoi\<close> is undefined for a value that is not an \<open>int\<close>; the others return the nearest value.\<close>

definition atoi :: "bytes option \<Rightarrow> int outcome" where
  "atoi sv = obind (c_string sv) (\<lambda>s.
     let n = c_parse s in if - (2 ^ 31) \<le> n \<and> n < 2 ^ 31 then Ok n else UB)"

definition strtoll :: "bytes option \<Rightarrow> int outcome" where
  "strtoll sv = obind (c_string sv) (\<lambda>s. Ok (max (- (2 ^ 63)) (min (2 ^ 63 - 1) (c_parse s))))"

definition strtoull :: "bytes option \<Rightarrow> int outcome" where
  "strtoull sv = obind (c_string sv) (\<lambda>s.
     let n = c_parse s in Ok (if 2 ^ 64 \<le> \<bar>n\<bar> then 2 ^ 64 - 1 else n mod 2 ^ 64))"

section \<open>Reading\<close>

definition cast_bool :: "bytes option \<Rightarrow> bool outcome" where
  "cast_bool sv = (case sv of None \<Rightarrow> Ok False | Some s \<Rightarrow> obind (rd s 0) (\<lambda>b. Ok (b = 49)))"

definition cast_char :: "bytes option \<Rightarrow> byte outcome" where
  "cast_char sv = (case sv of None \<Rightarrow> Ok 0 | Some s \<Rightarrow> obind (rd s 0) (\<lambda>b. Ok (if b \<noteq> 0 then b else 0)))"

definition cast_u8 :: "bytes option \<Rightarrow> byte outcome" where
  "cast_u8 sv = (case sv of None \<Rightarrow> Ok 0 | Some s \<Rightarrow> obind (rd s 0) (\<lambda>b. Ok (if b \<noteq> 0 then b else 0)))"

definition cast_i16 :: "bytes option \<Rightarrow> 16 word outcome" where
  "cast_i16 sv = obind (atoi sv) (\<lambda>n. Ok (word_of_int n))"

definition cast_u16 :: "bytes option \<Rightarrow> u16 outcome" where
  "cast_u16 sv = obind (atoi sv) (\<lambda>n. Ok (word_of_int n))"

definition cast_i32 :: "bytes option \<Rightarrow> 32 word outcome" where
  "cast_i32 sv = obind (atoi sv) (\<lambda>n. Ok (word_of_int n))"

definition cast_u32 :: "bytes option \<Rightarrow> u32 outcome" where
  "cast_u32 sv = obind (atoi sv) (\<lambda>n. Ok (word_of_int n))"

definition cast_i64 :: "bytes option \<Rightarrow> 64 word outcome" where
  "cast_i64 sv = obind (strtoll sv) (\<lambda>n. Ok (word_of_int n))"

definition cast_u64 :: "bytes option \<Rightarrow> u64 outcome" where
  "cast_u64 sv = obind (strtoull sv) (\<lambda>n. Ok (word_of_int n))"

text \<open>
  The forms with a length put a terminator there while they read, and restore the byte
  afterwards.
\<close>

definition MaskChar :: "bytes option \<Rightarrow> u32 \<Rightarrow> bytes option outcome" where
  "MaskChar sv len = (case sv of None \<Rightarrow> UB | Some s \<Rightarrow> obind (wr s (unat len) 0) (\<lambda>s1. Ok (Some s1)))"

definition cast_u64_len :: "bytes option \<Rightarrow> u32 \<Rightarrow> u64 outcome" where
  "cast_u64_len sv len = obind (MaskChar sv len) cast_u64"

definition cast_i64_len :: "bytes option \<Rightarrow> u32 \<Rightarrow> 64 word outcome" where
  "cast_i64_len sv len = obind (MaskChar sv len) cast_i64"

definition cast_i16_len :: "bytes option \<Rightarrow> u32 \<Rightarrow> 16 word outcome" where
  "cast_i16_len sv len = obind (MaskChar sv len) cast_i16"

definition cast_u16_len :: "bytes option \<Rightarrow> u32 \<Rightarrow> u16 outcome" where
  "cast_u16_len sv len = obind (MaskChar sv len) cast_u16"

definition cast_i32_len :: "bytes option \<Rightarrow> u32 \<Rightarrow> 32 word outcome" where
  "cast_i32_len sv len = obind (MaskChar sv len) cast_i32"

definition cast_u32_len :: "bytes option \<Rightarrow> u32 \<Rightarrow> u32 outcome" where
  "cast_u32_len sv len = obind (MaskChar sv len) cast_u32"

definition str_bool :: "bool \<Rightarrow> bytes" where "str_bool v = (if v then lit ''1'' else lit ''0'')"
definition str_i16 :: "16 word \<Rightarrow> bytes outcome" where "str_i16 v = Integer_str (sint v) Dec 0 48"
definition str_u16 :: "u16 \<Rightarrow> bytes outcome" where "str_u16 v = Integer_str (uint v) Dec 0 48"
definition str_i32 :: "32 word \<Rightarrow> bytes outcome" where "str_i32 v = Integer_str (sint v) Dec 0 48"
definition str_u32 :: "u32 \<Rightarrow> bytes outcome" where "str_u32 v = Integer_str (uint v) Dec 0 48"
definition str_i64 :: "64 word \<Rightarrow> bytes outcome" where "str_i64 v = Integer_str (sint v) Dec 0 48"
definition str_u64 :: "u64 \<Rightarrow> bytes outcome" where "str_u64 v = Integer_str (uint v) Dec 0 48"

section \<open>Letters\<close>

definition to_upper_char :: "byte \<Rightarrow> byte" where
  "to_upper_char c = (if c \<le> 122 \<and> 97 \<le> c then c - 32 else c)"

definition to_lower_char :: "byte \<Rightarrow> byte" where
  "to_lower_char c = (if c \<le> 90 \<and> 65 \<le> c then c + 32 else c)"

text \<open>The loops stop at the terminator of the string's buffer, or at an earlier zero byte.\<close>

fun to_lower_str :: "bytes \<Rightarrow> bytes" where
  "to_lower_str [] = []"
| "to_lower_str (c # cs) = (if c = 0 then c # cs else to_lower_char c # to_lower_str cs)"

text \<open>\<open>toupper\<close> is undefined for a negative \<open>char\<close>.\<close>

fun to_upper_str :: "bytes \<Rightarrow> bytes outcome" where
  "to_upper_str [] = Ok []"
| "to_upper_str (c # cs) =
     (if c = 0 then Ok (c # cs)
      else if 128 \<le> c then UB else obind (to_upper_str cs) (\<lambda>r. Ok (to_upper_char c # r)))"

section \<open>Reading inverts printing\<close>

declare int_dec_loop.simps [simp del] int_hex_loop.simps [simp del]

lemma s_digits_bytes: "s_digits = [57, 56, 55, 54, 53, 52, 51, 50, 49, 48, 49, 50, 51, 52, 53, 54, 55, 56, 57]"
  by (simp add: s_digits_def lit_def)

lemma s_zero_digit:
  assumes "- 10 < l" "l < 10"
  shows "\<exists>d. s_zero l = Ok d \<and> isdigit d \<and> uint d = 48 + \<bar>l\<bar>"
proof -
  have "l = -9 \<or> l = -8 \<or> l = -7 \<or> l = -6 \<or> l = -5 \<or> l = -4 \<or> l = -3 \<or> l = -2 \<or> l = -1 \<or> l = 0
      \<or> l = 1 \<or> l = 2 \<or> l = 3 \<or> l = 4 \<or> l = 5 \<or> l = 6 \<or> l = 7 \<or> l = 8 \<or> l = 9"
    using assms by presburger
  then show ?thesis by (elim disjE) (simp_all add: s_zero_def s_digits_bytes rd_def isdigit_def)
qed

lemma abs_ten: "\<bar>x\<bar> = \<bar>x sdiv 10\<bar> * 10 + \<bar>x smod 10\<bar>" "\<bar>x smod 10\<bar> < (10 :: int)" "\<bar>x sdiv 10\<bar> = \<bar>x\<bar> div (10 :: int)"
  by (auto simp: signed_divide_int_def signed_modulo_int_def sgn_if abs_mult)

lemma digits_value_append:
  "list_all isdigit xs \<Longrightarrow> digits_value acc (xs @ ys) = digits_value (digits_value acc xs) ys"
  by (induction xs arbitrary: acc) auto

lemma int_dec_loop_spec:
  "\<exists>ds. int_dec_loop x = Ok ds \<and> ds \<noteq> [] \<and> list_all isdigit ds \<and> digits_value 0 (rev ds) = \<bar>x\<bar>
     \<and> (\<forall>k. \<bar>x\<bar> < 10 ^ Suc k \<longrightarrow> length ds \<le> Suc k)"
proof (induction x rule: int_dec_loop.induct)
  case (1 x)
  have "- 10 < x smod 10" "x smod 10 < 10" using abs_ten(2) [of x] by linarith+
  then obtain d where d: "s_zero (x smod 10) = Ok d" "isdigit d" "uint d = 48 + \<bar>x smod 10\<bar>"
    using s_zero_digit by blast
  show ?case
  proof (cases "x sdiv 10 = 0")
    case True
    then show ?thesis
      using d abs_ten(1) [of x] by (auto simp: int_dec_loop.simps [of x] Let_def)
  next
    case False
    then obtain ds where ds: "int_dec_loop (x sdiv 10) = Ok ds" "ds \<noteq> []" "list_all isdigit ds"
        "digits_value 0 (rev ds) = \<bar>x sdiv 10\<bar>" "\<forall>k. \<bar>x sdiv 10\<bar> < 10 ^ Suc k \<longrightarrow> length ds \<le> Suc k"
      using 1 [OF refl refl False] by auto
    have eq: "int_dec_loop x = Ok (d # ds)" using False d(1) ds(1) by (simp add: int_dec_loop.simps [of x])
    have val: "digits_value 0 (rev (d # ds)) = \<bar>x\<bar>"
      using ds(3,4) d abs_ten(1) [of x] by (simp add: digits_value_append)
    have "length (d # ds) \<le> Suc k" if k: "\<bar>x\<bar> < 10 ^ Suc k" for k
    proof (cases k)
      case 0
      then have "\<bar>x sdiv 10\<bar> = 0" using k abs_ten(3) [of x] by simp
      then show ?thesis using False by simp
    next
      case (Suc j)
      then have "\<bar>x sdiv 10\<bar> < 10 ^ Suc j" using k abs_ten(3) [of x] by simp
      then show ?thesis using ds(5) Suc by simp
    qed
    then show ?thesis using eq val ds(3) d(2) by simp
  qed
qed

lemma isdigit_cases: "isdigit c \<Longrightarrow> \<not> isspace c \<and> c \<noteq> 45 \<and> c \<noteq> 43 \<and> c \<noteq> 0"
  by (auto simp: isdigit_def isspace_def word_le_nat_alt)

text \<open>What is printed for \<open>v\<close> without a width: its digits, and the sign in front.\<close>

lemma convert_dec_spec:
  assumes "\<bar>v\<bar> < 10 ^ 20"
  shows "\<exists>s. convert_dec v 0 hold = Ok s \<and> length s \<le> 21 \<and> 0 \<notin> set s \<and> c_parse s = v"
proof -
  obtain ds where ds: "int_dec_loop v = Ok ds" "ds \<noteq> []" "list_all isdigit ds" "digits_value 0 (rev ds) = \<bar>v\<bar>"
    "length ds \<le> Suc 19"
    using int_dec_loop_spec [of v] assms by (auto simp: numeral_eq_Suc)
  let ?s = "(if v < 0 then [45] else []) @ rev ds"
  have eq: "convert_dec v 0 hold = Ok ?s" using ds(1,5) by (simp add: convert_dec_def Let_def)
  have dig: "isdigit c" if "c \<in> set ds" for c using that ds(3) by (simp add: list_all_iff)
  then have nz: "0 \<notin> set ?s" using isdigit_cases by fastforce
  obtain c r where cr: "rev ds = c # r" using ds(2) by (cases "rev ds") auto
  then have "isdigit c" using dig [of c] by (metis list.set_intros(1) set_rev)
  then have "c_parse ?s = v"
    using ds(4) cr isdigit_cases [of c] by (cases "v < 0") (auto simp: c_parse_def isspace_def)
  then show ?thesis using eq nz ds(5) by (intro exI [of _ ?s]) auto
qed

lemma c_string_print: "0 \<notin> set s \<Longrightarrow> c_string (Some (s @ [0])) = Ok s"
proof -
  assume "0 \<notin> set s"
  then have "takeWhile (\<lambda>b. b \<noteq> 0) (s @ [0]) = s" by (induction s) auto
  then show ?thesis by (simp add: c_string_def)
qed


lemma sint_range:
  "- (2 ^ 63) \<le> sint (v :: 64 word)" "sint v < 2 ^ 63" "- (2 ^ 31) \<le> sint (w :: 32 word)" "sint w < 2 ^ 31"
  "- (2 ^ 15) \<le> sint (x :: 16 word)" "sint x < 2 ^ 15"
  using sint_greater_eq [of v] sint_less [of v] sint_greater_eq [of w] sint_less [of w]
    sint_greater_eq [of x] sint_less [of x] by simp_all

lemma uint_range: "uint (v :: 64 word) < 2 ^ 64" "uint (w :: 32 word) < 2 ^ 32" "uint (x :: 16 word) < 2 ^ 16"
  using unsigned_less [of v, where 'a = int] unsigned_less [of w, where 'a = int] unsigned_less [of x, where 'a = int]
  by simp_all


text \<open>A hexadecimal number longer than its width wraps the count of fill characters and overruns the buffer.\<close>

lemma convert_hex_overrun:
  assumes "int_hex_loop v = Ok ds" "0 < width" "unat width < length ds" "length ds \<le> 16"
  shows "convert_hex v width hold = UB"
proof -
  have "unat (width - of_nat (length ds) :: 8 word) = 256 + unat width - length ds"
    using assms(3,4) by (simp add: unat_sub_if' unat_of_nat take_bit_eq_mod)
  then show ?thesis using assms by (auto simp: convert_hex_def Let_def)
qed

lemma to_lower_upper: "to_lower_char (to_upper_char c) = to_lower_char c"
  by (auto simp: to_lower_char_def to_upper_char_def word_le_nat_alt unat_sub_if' unat_word_ariths)

end
