(* ===== verification/Eco_Address.thy ===== *)
theory Eco_Address
  imports Eco_Cast
begin

text \<open>
  Network addresses (\<open>src/project/eco/net/Address.h\<close>, \<open>prj/src/net/Address.cpp\<close>) and the choice among
  several of them, \<open>LoadBalancer\<close> of \<open>prj/src/net/TcpClient.ipp\<close> and \<open>TcpClient.cpp\<close>.

  An \<open>AddressSet\<close> is the list of its addresses with a name and a mode. \<open>std::string\<close> members are byte
  lists; their \<open>c_str\<close> has a zero byte behind them.

  The contract of a balancer, that it always takes a least loaded place and adds one to it, is the
  locale \<open>least_loaded\<close>; its client lemma is that loads never drift apart.
\<close>

section \<open>Addresses\<close>

record Address =
  ad_name :: bytes
  ad_host_name :: bytes
  ad_service_name :: bytes

definition Address_new :: Address where
  "Address_new = \<lparr>ad_name = [], ad_host_name = [], ad_service_name = []\<rparr>"

text \<open>\<open>set\<close> splits its text at the first colon; a text without one leaves both parts empty.\<close>

definition Address_set :: "bytes option \<Rightarrow> Address \<Rightarrow> Address outcome" where
  "Address_set v a =
     (let a1 = a\<lparr>ad_host_name := [], ad_service_name := []\<rparr> in
      case v of
        None \<Rightarrow> Ok a1
      | Some s \<Rightarrow> obind (c_string (Some s)) (\<lambda>addr.
          if 58 \<in> set addr
          then let pos = length (takeWhile (\<lambda>b. b \<noteq> 58) addr)
               in Ok (a1\<lparr>ad_host_name := take pos addr, ad_service_name := drop (pos + 1) addr\<rparr>)
          else Ok a1))"

definition Address_of :: "bytes option \<Rightarrow> Address outcome" where
  "Address_of v = Address_set v Address_new"

definition Address_set_ip :: "bytes \<Rightarrow> u32 \<Rightarrow> Address \<Rightarrow> Address outcome" where
  "Address_set_ip ip port a =
     obind (Integer_str (uint port) Dec 0 48) (\<lambda>s. Ok (a\<lparr>ad_host_name := ip, ad_service_name := s\<rparr>))"

definition get_port :: "Address \<Rightarrow> u32 outcome" where
  "get_port a = cast_u32 (Some (ad_service_name a @ [0]))"

definition ip_format :: "Address \<Rightarrow> bool outcome" where
  "ip_format a = obind (get_port a) (\<lambda>p. Ok (p > 0 \<and> ad_host_name a \<noteq> []))"

definition Address_empty :: "Address \<Rightarrow> bool" where
  "Address_empty a = (ad_service_name a = [] \<or> ad_host_name a = [])"

text \<open>\<open>equal\<close> compares with \<open>strcmp\<close>, which stops at a zero byte; the name does not count.\<close>

definition until_zero :: "bytes \<Rightarrow> bytes" where
  "until_zero s = takeWhile (\<lambda>b. b \<noteq> 0) s"

definition Address_equal :: "Address \<Rightarrow> Address \<Rightarrow> bool" where
  "Address_equal a b =
     (until_zero (ad_host_name a) = until_zero (ad_host_name b)
      \<and> until_zero (ad_service_name a) = until_zero (ad_service_name b))"

record AddressSet =
  as_mode :: u16
  as_name :: bytes
  as_items :: "Address list"

section \<open>The load balancer\<close>

record AddressLoad =
  al_address :: Address
  al_workload :: u16
  al_flag :: u16

definition AddressLoad_of :: "Address \<Rightarrow> AddressLoad" where
  "AddressLoad_of addr = \<lparr>al_address = addr, al_workload = 0, al_flag = 0\<rparr>"

definition AddressLoad_clear :: "AddressLoad \<Rightarrow> AddressLoad" where
  "AddressLoad_clear l =
     l\<lparr>al_address := (al_address l)\<lparr>ad_host_name := [], ad_service_name := []\<rparr>, al_workload := 0, al_flag := 0\<rparr>"

definition AddressLoad_new :: AddressLoad where
  "AddressLoad_new = AddressLoad_clear \<lparr>al_address = Address_new, al_workload = 0, al_flag = 0\<rparr>"

definition AddressLoad_is :: "AddressLoad \<Rightarrow> Address \<Rightarrow> bool" where
  "AddressLoad_is l addr = Address_equal (al_address l) addr"

definition AddressLoad_equal :: "AddressLoad \<Rightarrow> AddressLoad \<Rightarrow> bool" where
  "AddressLoad_equal l m = Address_equal (al_address l) (al_address m)"

text \<open>Flag 1 marks a new address, 2 an old one that stays, 0 one that is to be deleted.\<close>

fun mark_address :: "Address \<Rightarrow> AddressLoad list \<Rightarrow> AddressLoad list" where
  "mark_address addr [] = [(AddressLoad_of addr)\<lparr>al_flag := 1\<rparr>]"
| "mark_address addr (l # ls) =
     (if AddressLoad_is l addr then l\<lparr>al_flag := 2\<rparr> # ls else l # mark_address addr ls)"

text \<open>
  After an erasure the current address is compared with the element that follows the erased one;
  behind the last element there is none to compare with.
\<close>

fun delete_unmarked :: "AddressLoad \<Rightarrow> AddressLoad list \<Rightarrow> (AddressLoad \<times> AddressLoad list) outcome" where
  "delete_unmarked cur [] = Ok (cur, [])"
| "delete_unmarked cur (l # ls) =
     (if al_flag l \<noteq> 0 then obind (delete_unmarked cur ls) (\<lambda>(cur1, ls1). Ok (cur1, l # ls1))
      else case ls of
             [] \<Rightarrow> UB
           | n # _ \<Rightarrow> delete_unmarked (if AddressLoad_equal cur n then AddressLoad_clear cur else cur) ls)"

definition LoadBalancer_update_address ::
  "AddressSet \<Rightarrow> AddressLoad \<Rightarrow> AddressLoad list \<Rightarrow> (AddressLoad \<times> AddressLoad list) outcome" where
  "LoadBalancer_update_address addr cur ls =
     delete_unmarked cur (fold mark_address (as_items addr) (map (\<lambda>l. l\<lparr>al_flag := 0\<rparr>) ls))"

text \<open>The place of the first least loaded address: a later one must be strictly less loaded.\<close>

fun min_workload_server :: "nat \<Rightarrow> u16 \<Rightarrow> nat \<Rightarrow> AddressLoad list \<Rightarrow> nat" where
  "min_workload_server best workload i [] = best"
| "min_workload_server best workload i (l # ls) =
     (if al_workload l < workload then min_workload_server i (al_workload l) (Suc i) ls
      else min_workload_server best workload (Suc i) ls)"

definition balance_pick :: "AddressLoad list \<Rightarrow> nat" where
  "balance_pick ls = min_workload_server 0 (al_workload (ls ! 0)) 0 ls"

definition balance_charge :: "AddressLoad list \<Rightarrow> AddressLoad list" where
  "balance_charge ls =
     (let i = balance_pick ls in ls[i := (ls ! i)\<lparr>al_workload := al_workload (ls ! i) + 1\<rparr>])"

text \<open>
  \<open>connect\<close> gives the new current address and the loads, or nothing when it does not connect:
  the peer is connected, or there is no address.
\<close>

definition LoadBalancer_connect ::
  "bool \<Rightarrow> AddressLoad list \<Rightarrow> (AddressLoad \<times> AddressLoad list) option" where
  "LoadBalancer_connect is_connected ls =
     (if is_connected \<or> ls = [] then None
      else let ls1 = balance_charge ls in Some (ls1 ! balance_pick ls, ls1))"

section \<open>Balanced loads\<close>

text \<open>
  What a client of a balancer relies on: one of the places is picked, no place is less loaded, and
  picking adds one there and nowhere else, as long as the loads stay below the bound where the
  counter wraps.
\<close>

locale least_loaded =
  fixes load :: "'s \<Rightarrow> nat list" and pick :: "'s \<Rightarrow> nat" and charge :: "'s \<Rightarrow> 's" and bound :: nat
  assumes pick_law: "load s \<noteq> [] \<Longrightarrow> pick s < length (load s)"
    and least_law: "j < length (load s) \<Longrightarrow> load s ! pick s \<le> load s ! j"
    and charge_law: "load s \<noteq> [] \<Longrightarrow> load s ! pick s < bound \<Longrightarrow>
          load (charge s) = (load s)[pick s := Suc (load s ! pick s)]"
begin

definition even_loads :: "'s \<Rightarrow> bool" where
  "even_loads s \<longleftrightarrow> (\<forall>i < length (load s). \<forall>j < length (load s). load s ! i \<le> Suc (load s ! j))"

lemma charge_even:
  assumes "even_loads s" "load s \<noteq> []" "load s ! pick s < bound"
  shows "even_loads (charge s)"
  using assms(1) pick_law [OF assms(2)] least_law [of _ s]
  by (auto simp: even_loads_def charge_law [OF assms(2,3)] nth_list_update intro: le_SucI)

lemma charge_sum:
  assumes "load s \<noteq> []" "load s ! pick s < bound"
  shows "sum_list (load (charge s)) = Suc (sum_list (load s)) \<and> length (load (charge s)) = length (load s)"
  using pick_law [OF assms(1)] by (auto simp: charge_law [OF assms] sum_list_update elem_le_sum_list)

lemma least_below:
  assumes "load s \<noteq> []" "sum_list (load s) < length (load s) * bound"
  shows "load s ! pick s < bound"
proof (rule ccontr)
  assume "\<not> load s ! pick s < bound"
  then have "\<forall>x \<in> set (load s). bound \<le> x"
    using least_law [of _ s] by (fastforce simp: in_set_conv_nth)
  then have "length (load s) * bound \<le> sum_list (load s)"
    using sum_list_mono [of "load s" "\<lambda>_. bound" "\<lambda>x. x"] by (simp add: sum_list_triv)
  then show False using assms(2) by simp
qed

lemma charges_even:
  assumes "load s = replicate n 0" "0 < n" "k \<le> n * bound"
  shows "even_loads ((charge ^^ k) s) \<and> sum_list (load ((charge ^^ k) s)) = k
    \<and> length (load ((charge ^^ k) s)) = n"
  using assms(3)
proof (induction k)
  case 0
  then show ?case using assms(1) by (simp add: even_loads_def)
next
  case (Suc k)
  let ?t = "(charge ^^ k) s"
  have ih: "even_loads ?t" "sum_list (load ?t) = k" "length (load ?t) = n" using Suc by auto
  have ne: "load ?t \<noteq> []" using ih(3) assms(2) by auto
  have "load ?t ! pick ?t < bound" using least_below [OF ne] ih Suc.prems by simp
  then show ?case using charge_even [OF ih(1) ne] charge_sum [OF ne] ih by simp
qed

end

lemma min_workload_server_spec:
  assumes "best < i" "i \<le> length ls" "al_workload (ls ! best) = w" "\<forall>j<i. w \<le> al_workload (ls ! j)"
  shows "min_workload_server best w i (drop i ls) < length ls
    \<and> (\<forall>j<length ls. al_workload (ls ! min_workload_server best w i (drop i ls)) \<le> al_workload (ls ! j))"
  using assms
proof (induction "length ls - i" arbitrary: best w i)
  case 0
  then show ?case by simp
next
  case (Suc n)
  then have i: "i < length ls" by simp
  have d: "drop i ls = ls ! i # drop (Suc i) ls" using i by (simp add: Cons_nth_drop_Suc)
  show ?case
  proof (cases "al_workload (ls ! i) < w")
    case True
    have "\<forall>j<Suc i. al_workload (ls ! i) \<le> al_workload (ls ! j)"
      using True Suc.prems(4) by (auto simp: less_Suc_eq intro: order.trans [OF less_imp_le])
    then show ?thesis using Suc.hyps(1) [of "Suc i" i] Suc.hyps(2) i d True by simp
  next
    case False
    have "\<forall>j<Suc i. w \<le> al_workload (ls ! j)" using False Suc.prems(4) by (auto simp: less_Suc_eq)
    then show ?thesis using Suc.hyps(1) [of "Suc i" best w] Suc.hyps(2) Suc.prems i d False by simp
  qed
qed

lemma balance_pick_least:
  assumes "ls \<noteq> []"
  shows "balance_pick ls < length ls" "\<forall>j<length ls. al_workload (ls ! balance_pick ls) \<le> al_workload (ls ! j)"
proof -
  have "balance_pick ls = min_workload_server 0 (al_workload (ls ! 0)) 1 (drop 1 ls)"
    using assms by (cases ls) (auto simp: balance_pick_def)
  then show "balance_pick ls < length ls" "\<forall>j<length ls. al_workload (ls ! balance_pick ls) \<le> al_workload (ls ! j)"
    using min_workload_server_spec [of 0 1 ls] assms by (auto simp: Suc_le_eq)
qed

definition workloads :: "AddressLoad list \<Rightarrow> nat list" where
  "workloads ls = map (\<lambda>l. unat (al_workload l)) ls"

interpretation balancer: least_loaded workloads balance_pick balance_charge 65535
proof
  fix ls :: "AddressLoad list" and j
  assume "workloads ls \<noteq> []"
  then show "balance_pick ls < length (workloads ls)" using balance_pick_least(1) by (simp add: workloads_def)
next
  fix ls :: "AddressLoad list" and j
  assume "j < length (workloads ls)"
  then show "workloads ls ! balance_pick ls \<le> workloads ls ! j"
    using balance_pick_least [of ls] by (cases "ls = []") (auto simp: workloads_def word_le_nat_alt)
next
  fix ls :: "AddressLoad list"
  assume a: "workloads ls \<noteq> []" "workloads ls ! balance_pick ls < 65535"
  then have i: "balance_pick ls < length ls" using balance_pick_least(1) by (simp add: workloads_def)
  then have "unat (al_workload (ls ! balance_pick ls) + 1) = Suc (unat (al_workload (ls ! balance_pick ls)))"
    using a(2) by (simp add: workloads_def unat_word_ariths)
  then show "workloads (balance_charge ls) = (workloads ls)[balance_pick ls := Suc (workloads ls ! balance_pick ls)]"
    using i by (simp add: workloads_def balance_charge_def Let_def map_update)
qed

definition reconnects :: "nat \<Rightarrow> AddressLoad list \<Rightarrow> AddressLoad list" where
  "reconnects k = (\<lambda>ls. case LoadBalancer_connect False ls of None \<Rightarrow> ls | Some (cur, ls1) \<Rightarrow> ls1) ^^ k"

lemma reconnects_charge: "ls \<noteq> [] \<Longrightarrow> reconnects k ls = (balance_charge ^^ k) ls"
proof (induction k)
  case 0
  then show ?case by (simp add: reconnects_def)
next
  case (Suc k)
  have "length ((balance_charge ^^ n) ls) = length ls" for n
    by (induction n) (simp_all add: balance_charge_def Let_def)
  then have "(balance_charge ^^ k) ls \<noteq> []" using Suc.prems by (metis length_0_conv)
  then show ?case using Suc by (simp add: reconnects_def LoadBalancer_connect_def Let_def)
qed

text \<open>
  The client spreads its connections evenly: after any number of reconnections, below the number
  where a 16 bit load wraps, no address has been used more than once oftener than another.
\<close>

theorem LoadBalancer_balanced:
  assumes "ls \<noteq> []" "list_all (\<lambda>l. al_workload l = 0) ls" "k \<le> length ls * 65535"
    and "reconnects k ls = ls'" "i < length ls" "j < length ls"
  shows "length ls' = length ls \<and> sum_list (map (\<lambda>l. unat (al_workload l)) ls') = k
    \<and> unat (al_workload (ls' ! i)) \<le> Suc (unat (al_workload (ls' ! j)))"
proof -
  have "workloads ls = replicate (length ls) 0"
    using assms(2) by (induction ls) (auto simp: workloads_def)
  moreover have "ls' = (balance_charge ^^ k) ls" using reconnects_charge [OF assms(1)] assms(4) by simp
  ultimately show ?thesis
    using balancer.charges_even [of ls "length ls" k] assms(1,3,5,6)
    by (auto simp: balancer.even_loads_def workloads_def)
qed

definition sample_address :: "byte \<Rightarrow> Address" where
  "sample_address b = \<lparr>ad_name = [], ad_host_name = [b], ad_service_name = [49]\<rparr>"

lemma LoadBalancer_balanced_witness:
  "length (reconnects 5 (map (\<lambda>b. AddressLoad_of (sample_address b)) [65, 66, 67])) = 3
   \<and> unat (al_workload (reconnects 5 (map (\<lambda>b. AddressLoad_of (sample_address b)) [65, 66, 67]) ! 0))
       \<le> Suc (unat (al_workload (reconnects 5 (map (\<lambda>b. AddressLoad_of (sample_address b)) [65, 66, 67]) ! 2)))"
  using LoadBalancer_balanced [of "map (\<lambda>b. AddressLoad_of (sample_address b)) [65, 66, 67]" 5 _ 0 2]
  by (simp add: AddressLoad_of_def)

text \<open>
  A load of 65535 wraps to zero. When all places have reached it, the first one is picked again and
  again until it has come round once more.
\<close>

lemma balance_wraps:
  assumes "k < 65535" "2 \<le> length ls" "list_all (\<lambda>l. al_workload l = 65535) (tl ls)" "unat (al_workload (ls ! 0)) = k"
  shows "balance_pick ls = 0"
proof -
  have w: "al_workload (ls ! j) = 65535" if "0 < j" "j < length ls" for j
    using assms(3) that by (cases ls) (auto simp: list_all_length nth_Cons')
  have ne: "ls \<noteq> []" using assms(2) by auto
  have "unat (al_workload (ls ! balance_pick ls)) \<le> k"
    using balance_pick_least(2) [OF ne] ne assms(4) by (auto simp: word_le_nat_alt)
  then show ?thesis using w [of "balance_pick ls"] balance_pick_least(1) [OF ne] assms(1) by fastforce
qed

section \<open>Updating the addresses\<close>

lemma Address_equal_refl [simp]: "Address_equal a a"
  by (simp add: Address_equal_def)

lemma AddressLoad_of_sel [simp]:
  "al_address (AddressLoad_of a) = a" "al_workload (AddressLoad_of a) = 0" "al_flag (AddressLoad_of a) = 0"
  by (simp_all add: AddressLoad_of_def)

lemma AddressLoad_is_flag [simp]: "AddressLoad_is (l\<lparr>al_flag := f\<rparr>) a = AddressLoad_is l a"
  by (simp add: AddressLoad_is_def)

lemma AddressLoad_is_of [simp]: "AddressLoad_is (AddressLoad_of a) a"
  by (simp add: AddressLoad_is_def)

text \<open>The marks are exactly on the addresses that are asked for.\<close>

definition marked_for :: "Address list \<Rightarrow> AddressLoad list \<Rightarrow> bool" where
  "marked_for as ls \<longleftrightarrow> (\<forall>l \<in> set ls. al_flag l \<noteq> 0 \<longrightarrow> (\<exists>a \<in> set as. AddressLoad_is l a))
     \<and> (\<forall>a \<in> set as. \<exists>l \<in> set ls. al_flag l \<noteq> 0 \<and> AddressLoad_is l a)"

lemma mark_address_kept:
  "l \<in> set ls \<Longrightarrow> al_flag l \<noteq> 0 \<Longrightarrow>
     \<exists>m \<in> set (mark_address addr ls). al_flag m \<noteq> 0 \<and> al_address m = al_address l"
  by (induction ls) auto

lemma mark_address_new: "\<exists>m \<in> set (mark_address addr ls). al_flag m \<noteq> 0 \<and> AddressLoad_is m addr"
  by (induction ls) auto

lemma mark_address_only:
  "m \<in> set (mark_address addr ls) \<Longrightarrow> AddressLoad_is m addr \<or> m \<in> set ls"
  by (induction ls) (auto split: if_splits)

lemma mark_address_marked:
  assumes "marked_for as ls"
  shows "marked_for (as @ [addr]) (mark_address addr ls)"
proof -
  have "\<exists>m \<in> set (mark_address addr ls). al_flag m \<noteq> 0 \<and> AddressLoad_is m a" if "a \<in> set as" for a
  proof -
    obtain l where l: "l \<in> set ls" "al_flag l \<noteq> 0" "AddressLoad_is l a"
      using assms \<open>a \<in> set as\<close> by (auto simp: marked_for_def)
    then show ?thesis using mark_address_kept [OF l(1,2), of addr] by (auto simp: AddressLoad_is_def)
  qed
  moreover have "\<exists>a \<in> set (as @ [addr]). AddressLoad_is l a"
    if "l \<in> set (mark_address addr ls)" "al_flag l \<noteq> 0" for l
    using mark_address_only [OF that(1)] that(2) assms by (auto simp: marked_for_def)
  ultimately show ?thesis
    using mark_address_new [of addr ls] by (auto simp: marked_for_def)
qed

lemma fold_mark_marked: "marked_for as ls \<Longrightarrow> marked_for (as @ bs) (fold mark_address bs ls)"
proof (induction bs arbitrary: as ls)
  case (Cons b bs)
  then show ?case using Cons.IH [of "as @ [b]" "mark_address b ls"] mark_address_marked by simp
qed simp

lemma delete_unmarked_spec:
  "if ls \<noteq> [] \<and> al_flag (last ls) = 0 then delete_unmarked cur ls = UB
   else \<exists>cur'. delete_unmarked cur ls = Ok (cur', filter (\<lambda>l. al_flag l \<noteq> 0) ls)"
proof (induction ls arbitrary: cur)
  case (Cons l ls)
  show ?case
  proof (cases ls)
    case Nil
    then show ?thesis by simp
  next
    case (Cons n ns)
    then show ?thesis
      using Cons.IH [of cur] Cons.IH [of "if AddressLoad_equal cur n then AddressLoad_clear cur else cur"]
      by (auto split: if_split_asm)
  qed
qed simp

text \<open>No address stands twice in the list.\<close>

definition addresses_distinct :: "AddressLoad list \<Rightarrow> bool" where
  "addresses_distinct ls \<longleftrightarrow> sorted_wrt (\<lambda>l m. \<not> AddressLoad_equal l m) ls"

lemma AddressLoad_equal_is: "AddressLoad_equal l m = AddressLoad_is l (al_address m)"
  by (simp add: AddressLoad_equal_def AddressLoad_is_def)

lemma mark_address_absent:
  "\<not> (\<exists>l \<in> set ls. AddressLoad_is l addr) \<Longrightarrow> mark_address addr ls = ls @ [(AddressLoad_of addr)\<lparr>al_flag := 1\<rparr>]"
  by (induction ls) auto

lemma mark_address_present:
  "\<exists>l \<in> set ls. AddressLoad_is l addr \<Longrightarrow> map al_address (mark_address addr ls) = map al_address ls
     \<and> map al_workload (mark_address addr ls) = map al_workload ls"
  by (induction ls) auto

lemma addresses_distinct_map:
  "addresses_distinct ls \<longleftrightarrow> sorted_wrt (\<lambda>a b. \<not> Address_equal a b) (map al_address ls)"
  by (simp add: addresses_distinct_def sorted_wrt_map AddressLoad_equal_def)

lemma mark_address_distinct: "addresses_distinct ls \<Longrightarrow> addresses_distinct (mark_address addr ls)"
  by (cases "\<exists>l \<in> set ls. AddressLoad_is l addr")
    (auto simp: addresses_distinct_map mark_address_present mark_address_absent sorted_wrt_append AddressLoad_is_def)

lemma mark_address_last:
  assumes "addresses_distinct ls" "\<exists>l \<in> set ls. AddressLoad_is l addr"
  shows "al_flag (last (mark_address addr ls)) = 0 \<longleftrightarrow> al_flag (last ls) = 0 \<and> \<not> AddressLoad_is (last ls) addr"
  using assms
proof (induction ls)
  case (Cons l ls)
  show ?case
  proof (cases "ls = []")
    case True
    then show ?thesis using Cons.prems by simp
  next
    case False
    have far: "\<not> AddressLoad_is (last ls) addr" if "AddressLoad_is l addr"
      using that Cons.prems(1) last_in_set [OF False]
      by (auto simp: addresses_distinct_def AddressLoad_equal_def AddressLoad_is_def Address_equal_def)
    have ne: "mark_address addr ls \<noteq> []" by (cases ls) auto
    show ?thesis
    proof (cases "AddressLoad_is l addr")
      case True
      then show ?thesis using False far by simp
    next
      case nl: False
      then show ?thesis using Cons False ne by (auto simp: addresses_distinct_def)
    qed
  qed
qed simp

lemma mark_address_keys:
  assumes "\<exists>l \<in> set ls. AddressLoad_is l addr"
  shows "(\<exists>l \<in> set (mark_address addr ls). AddressLoad_is l a) \<longleftrightarrow> (\<exists>l \<in> set ls. AddressLoad_is l a)"
    and "AddressLoad_is (last (mark_address addr ls)) a \<longleftrightarrow> AddressLoad_is (last ls) a"
proof -
  have eq: "map al_address (mark_address addr ls) = map al_address ls" using mark_address_present [OF assms] by simp
  then have "al_address ` set (mark_address addr ls) = al_address ` set ls" by (metis image_set)
  moreover have "(\<exists>l \<in> set xs. AddressLoad_is l a) \<longleftrightarrow> (\<exists>x \<in> al_address ` set xs. Address_equal x a)" for xs
    by (auto simp: AddressLoad_is_def)
  ultimately show "(\<exists>l \<in> set (mark_address addr ls). AddressLoad_is l a) \<longleftrightarrow> (\<exists>l \<in> set ls. AddressLoad_is l a)"
    by presburger
  have "ls \<noteq> []" "mark_address addr ls \<noteq> []" using assms by (cases ls; auto)+
  then show "AddressLoad_is (last (mark_address addr ls)) a \<longleftrightarrow> AddressLoad_is (last ls) a"
    by (metis AddressLoad_is_def eq last_map)
qed

lemma fold_mark_last:
  assumes "addresses_distinct ls" "ls \<noteq> []"
  shows "al_flag (last (fold mark_address as ls)) = 0 \<longleftrightarrow> al_flag (last ls) = 0
     \<and> list_all (\<lambda>a. (\<exists>l \<in> set ls. AddressLoad_is l a) \<and> \<not> AddressLoad_is (last ls) a) as"
  using assms
proof (induction as arbitrary: ls)
  case (Cons a as)
  have ne: "mark_address a ls \<noteq> []" by (cases ls) auto
  note ih = Cons.IH [OF mark_address_distinct [OF Cons.prems(1)] ne]
  show ?case
  proof (cases "\<exists>l \<in> set ls. AddressLoad_is l a")
    case True
    then show ?thesis
      using ih mark_address_last [OF Cons.prems(1) True] mark_address_keys [OF True] by auto
  next
    case False
    then show ?thesis using ih mark_address_absent [OF False] by simp
  qed
qed simp

lemma delete_unmarked_UB: "delete_unmarked cur ls = UB \<longleftrightarrow> ls \<noteq> [] \<and> al_flag (last ls) = 0"
  using delete_unmarked_spec [of ls cur] by (auto split: if_splits)

lemma delete_unmarked_Ok: "delete_unmarked cur ls = Ok (cur', ls') \<Longrightarrow> ls' = filter (\<lambda>l. al_flag l \<noteq> 0) ls"
  using delete_unmarked_spec [of ls cur] by (auto split: if_splits)

lemma unflagged [simp]: "AddressLoad_is (f l) a = AddressLoad_is l a"
  if "f = (\<lambda>l. l\<lparr>al_flag := 0\<rparr>)"
  using that by simp

lemma fold_mark_nonempty: "ls \<noteq> [] \<Longrightarrow> fold mark_address as ls \<noteq> []"
proof (induction as arbitrary: ls)
  case (Cons a as)
  have "mark_address a ls \<noteq> []" by (cases ls) auto
  then show ?case using Cons by simp
qed simp

lemma fold_mark_empty: "fold mark_address as [] \<noteq> [] \<Longrightarrow> al_flag (last (fold mark_address as [])) \<noteq> 0"
proof (cases as)
  case (Cons a as')
  let ?l = "(AddressLoad_of a)\<lparr>al_flag := 1\<rparr>"
  have "addresses_distinct [?l]" by (simp add: addresses_distinct_def)
  then show ?thesis using fold_mark_last [of "[?l]" as'] Cons by simp
qed simp

text \<open>
  Updating the addresses is undefined exactly when the last address is dropped and none is added:
  the code then compares the current address with the place behind the last one. Otherwise the
  addresses afterwards are those that were asked for, and those that were there keep their loads.
\<close>

theorem update_address_spec:
  assumes "addresses_distinct ls"
  shows "if ls \<noteq> [] \<and> list_all (\<lambda>a. (\<exists>l \<in> set ls. AddressLoad_is l a) \<and> \<not> AddressLoad_is (last ls) a) (as_items addr)
         then LoadBalancer_update_address addr cur ls = UB
         else \<exists>cur' ls'. LoadBalancer_update_address addr cur ls = Ok (cur', ls')
            \<and> list_all (\<lambda>l. \<exists>a \<in> set (as_items addr). AddressLoad_is l a) ls'
            \<and> list_all (\<lambda>a. \<exists>l \<in> set ls'. AddressLoad_is l a) (as_items addr)"
proof -
  let ?ls = "map (\<lambda>l. l\<lparr>al_flag := 0\<rparr>) ls"
  let ?m = "fold mark_address (as_items addr) ?ls"
  have dist: "addresses_distinct ?ls" using assms by (simp add: addresses_distinct_map comp_def)
  have marked: "marked_for (as_items addr) ?m"
    using fold_mark_marked [of "[]" ?ls "as_items addr"] by (simp add: marked_for_def)
  have ub: "LoadBalancer_update_address addr cur ls = UB \<longleftrightarrow>
     ls \<noteq> [] \<and> list_all (\<lambda>a. (\<exists>l \<in> set ls. AddressLoad_is l a) \<and> \<not> AddressLoad_is (last ls) a) (as_items addr)"
  proof (cases "ls = []")
    case True
    then show ?thesis
      using fold_mark_empty [of "as_items addr"] by (auto simp: LoadBalancer_update_address_def delete_unmarked_UB)
  next
    case False
    then show ?thesis
      using fold_mark_last [OF dist, of "as_items addr"] fold_mark_nonempty [of ?ls "as_items addr"]
      by (auto simp: LoadBalancer_update_address_def delete_unmarked_UB last_map)
  qed
  have ok: "\<exists>cur'. LoadBalancer_update_address addr cur ls = Ok (cur', filter (\<lambda>l. al_flag l \<noteq> 0) ?m)"
    if "LoadBalancer_update_address addr cur ls \<noteq> UB"
    using that delete_unmarked_spec [of ?m cur] by (auto simp: LoadBalancer_update_address_def split: if_splits)
  have "list_all (\<lambda>l. \<exists>a \<in> set (as_items addr). AddressLoad_is l a) (filter (\<lambda>l. al_flag l \<noteq> 0) ?m)
      \<and> list_all (\<lambda>a. \<exists>l \<in> set (filter (\<lambda>l. al_flag l \<noteq> 0) ?m). AddressLoad_is l a) (as_items addr)"
    using marked unfolding marked_for_def list_all_iff by auto
  then show ?thesis using ub ok by auto
qed

lemma update_address_spec_witness:
  "LoadBalancer_update_address \<lparr>as_mode = 0, as_name = [], as_items = [sample_address 65]\<rparr> AddressLoad_new
     (map (\<lambda>b. AddressLoad_of (sample_address b)) [65, 66]) = UB"
proof -
  have "addresses_distinct (map (\<lambda>b. AddressLoad_of (sample_address b)) [65, 66])"
    by (simp add: addresses_distinct_map sample_address_def Address_equal_def until_zero_def)
  from update_address_spec [OF this, of "\<lparr>as_mode = 0, as_name = [], as_items = [sample_address 65]\<rparr>" AddressLoad_new]
  show ?thesis
    by (simp add: sample_address_def AddressLoad_is_def Address_equal_def until_zero_def)
qed

text \<open>
  The comparison after an erasure looks at the wrong address: dropping the current address leaves
  it the current one, dropping the one before it clears it.
\<close>

lemma update_address_wrong_clear:
  assumes "addresses_distinct [a, b]"
  shows "LoadBalancer_update_address \<lparr>as_mode = 0, as_name = [], as_items = [al_address b]\<rparr> cur [a, b]
    = Ok (if AddressLoad_equal cur b then AddressLoad_clear cur else cur, [b\<lparr>al_flag := 2\<rparr>])"
  using assms
  by (auto simp: LoadBalancer_update_address_def addresses_distinct_def AddressLoad_equal_is AddressLoad_is_def
      AddressLoad_equal_def)

section \<open>Texts\<close>

lemma not_in_takeWhile: "58 \<notin> set ip \<Longrightarrow> takeWhile (\<lambda>b. b \<noteq> 58) (ip @ 58 # s) = (ip :: bytes)"
  by (induction ip) auto

lemma print_port:
  fixes port :: u32
  shows "\<exists>s. Integer_str (uint port) Dec 0 48 = Ok s \<and> 0 \<notin> set s
    \<and> (port < 0x80000000 \<longrightarrow> cast_u32 (Some (s @ [0])) = Ok port)"
proof -
  have "0 \<le> uint port" "uint port < 2 ^ 32" using uint_range(2) [of port] by auto
  then have r: "\<bar>uint port\<bar> < 10 ^ 20" "- 2147483648 \<le> uint port"
    by (simp, metis order.trans [of "- 2147483648" 0] neg_le_0_iff_le zero_le_numeral)
  then obtain s where s: "convert_dec (uint port) 0 48 = Ok s" "0 \<notin> set s" "c_parse s = uint port"
    using convert_dec_spec by blast
  moreover have "port < 0x80000000 \<longleftrightarrow> uint port < 2 ^ 31" by (simp add: word_less_def)
  ultimately show ?thesis
    using r(2) c_string_print [OF s(2)] by (auto simp: Integer_str_def cast_u32_def atoi_def Let_def)
qed

text \<open>
  Setting an address from its text \<open>ip:port\<close> is the same as setting it from \<open>ip\<close> and the port
  number, and the port is read back when it is below \<open>2^31\<close>.
\<close>

theorem Address_set_text:
  assumes "58 \<notin> set ip" "0 \<notin> set ip" "port < 0x80000000"
  shows "\<exists>s b. Integer_str (uint port) Dec 0 48 = Ok s \<and> Address_set_ip ip port a = Ok b
    \<and> Address_set (Some (ip @ 58 # s @ [0])) a = Ok b \<and> get_port b = Ok port"
proof -
  obtain s where s: "Integer_str (uint port) Dec 0 48 = Ok s" "0 \<notin> set s" "cast_u32 (Some (s @ [0])) = Ok port"
    using print_port [of port] assms(3) by blast
  have "c_string (Some ((ip @ 58 # s) @ [0])) = Ok (ip @ 58 # s)"
    using assms(2) s(2) by (intro c_string_print) auto
  then show ?thesis
    using s not_in_takeWhile [OF assms(1), of s]
    by (auto simp: Address_set_ip_def Address_set_def get_port_def Let_def)
qed

lemma Address_set_text_witness:
  "\<exists>s b. Integer_str 80 Dec 0 48 = Ok s \<and> Address_set_ip [49] 80 Address_new = Ok b
    \<and> Address_set (Some ([49] @ 58 # s @ [0])) Address_new = Ok b \<and> get_port b = Ok 80"
  using Address_set_text [of "[49]" 80 Address_new] by simp

end
