(* ===== verification/Eco_Monitor.thy ===== *)
theory Eco_Monitor
  imports Eco_MessageQueue
begin

text \<open>
  \<open>Monitor\<close> of \<open>src/project/eco/thread/Monitor.h\<close>: threads wait until a number of tasks is finished, or
  one of them has failed. The count is an \<open>int32_t\<close>; waiting threads are listed as in
  \<open>Eco_MessageQueue\<close>, each with whether it waits for a limited time. What a thread does with the
  mutex held is one step.
\<close>

record Monitor =
  mon_task_count :: "32 word"
  mon_waiting :: "(tid \<times> bool) list"
  mon_woken :: "(tid \<times> bool) list"

definition eco_ok :: int where "eco_ok = 0"
definition eco_fail :: int where "eco_fail = - 1"
definition eco_timeout :: int where "eco_timeout = - 3"

datatype mon_event = MonReturn tid int | MonNone

definition Monitor_new :: "32 word \<Rightarrow> Monitor" where
  "Monitor_new task_count = \<lparr>mon_task_count = task_count, mon_waiting = [], mon_woken = []\<rparr>"

definition Monitor_reset :: "32 word \<Rightarrow> Monitor \<Rightarrow> Monitor" where
  "Monitor_reset task_count m = m\<lparr>mon_task_count := task_count\<rparr>"

definition notify_all :: "Monitor \<Rightarrow> Monitor" where
  "notify_all m = m\<lparr>mon_waiting := [], mon_woken := mon_woken m @ mon_waiting m\<rparr>"

text \<open>\<open>wait\<close> returns whether the count is zero; \<open>eco_ok\<close> stands for true and \<open>eco_fail\<close> for false.\<close>

definition wait_result :: "Monitor \<Rightarrow> int" where
  "wait_result m = (if mon_task_count m = 0 then eco_ok else eco_fail)"

definition Monitor_wait :: "tid \<Rightarrow> Monitor \<Rightarrow> Monitor \<times> mon_event" where
  "Monitor_wait t m =
     (if 0 <s mon_task_count m then (m\<lparr>mon_waiting := mon_waiting m @ [(t, False)]\<rparr>, MonNone)
      else (m, MonReturn t (wait_result m)))"

definition Monitor_timed_wait :: "tid \<Rightarrow> Monitor \<Rightarrow> Monitor \<times> mon_event" where
  "Monitor_timed_wait t m =
     (if 0 <s mon_task_count m then (m\<lparr>mon_waiting := mon_waiting m @ [(t, True)]\<rparr>, MonNone)
      else (m, MonReturn t (wait_result m)))"

definition Monitor_finish :: "Monitor \<Rightarrow> Monitor" where
  "Monitor_finish m = notify_all (m\<lparr>mon_task_count := 0\<rparr>)"

definition Monitor_finish_one :: "Monitor \<Rightarrow> Monitor" where
  "Monitor_finish_one m =
     (let m1 = m\<lparr>mon_task_count := mon_task_count m - 1\<rparr>
      in if mon_task_count m1 = 0 then notify_all m1 else m1)"

definition Monitor_fail :: "Monitor \<Rightarrow> Monitor" where
  "Monitor_fail m = notify_all (m\<lparr>mon_task_count := - 1\<rparr>)"

section \<open>Interleaving\<close>

text \<open>
  A woken thread returns without looking at the count again; a wait that is limited in time may
  end by itself, and any wait may end spuriously. A monitor is only reset to wait for tasks.
\<close>

inductive mon_step :: "Monitor \<Rightarrow> mon_event \<Rightarrow> Monitor \<Rightarrow> bool" where
  mon_wait: "Monitor_wait t m = (m', ev) \<Longrightarrow> mon_step m ev m'"
| mon_timed_wait: "Monitor_timed_wait t m = (m', ev) \<Longrightarrow> mon_step m ev m'"
| mon_return: "(t, timed) \<in> set (mon_woken m) \<Longrightarrow>
     mon_step m (MonReturn t (wait_result m)) (m\<lparr>mon_woken := remove1 (t, timed) (mon_woken m)\<rparr>)"
| mon_timeout: "(t, True) \<in> set (mon_waiting m) \<Longrightarrow>
     mon_step m (MonReturn t eco_timeout) (m\<lparr>mon_waiting := remove1 (t, True) (mon_waiting m)\<rparr>)"
| mon_spurious: "w \<in> set (mon_waiting m) \<Longrightarrow>
     mon_step m MonNone (m\<lparr>mon_waiting := remove1 w (mon_waiting m), mon_woken := mon_woken m @ [w]\<rparr>)"
| mon_finish: "mon_step m MonNone (Monitor_finish m)"
| mon_finish_one: "mon_step m MonNone (Monitor_finish_one m)"
| mon_fail: "mon_step m MonNone (Monitor_fail m)"
| mon_reset: "0 <s c \<Longrightarrow> mon_step m MonNone (Monitor_reset c m)"

inductive mon_run :: "Monitor \<Rightarrow> mon_event list \<Rightarrow> Monitor \<Rightarrow> bool" for m0 where
  mon_run_start: "mon_run m0 [] m0"
| mon_run_step: "mon_run m0 evs m \<Longrightarrow> mon_step m ev m' \<Longrightarrow> mon_run m0 (evs @ [ev]) m'"

inductive_cases mon_stepE: "mon_step m ev m'"

section \<open>No waiter is left behind\<close>

definition mon_inv :: "Monitor \<Rightarrow> bool" where
  "mon_inv m \<longleftrightarrow> mon_waiting m = [] \<or> 0 <s mon_task_count m"

lemma sless_pred: "0 <s (c :: 32 word) \<Longrightarrow> c - 1 \<noteq> 0 \<Longrightarrow> 0 <s c - 1"
proof -
  assume a: "0 <s c" "c - 1 \<noteq> 0"
  have s: "0 < sint c" "sint c < 2 ^ 31" using a(1) sint_less [of c] by (simp_all add: word_sless_alt)
  have "sint c \<noteq> 1" using a(2) by (metis diff_self of_int_1 of_int_sint scast_id)
  then have "sint (c - 1) = sint c - 1"
    using s by (simp add: sint_word_ariths signed_take_bit_int_eq_self)
  then show ?thesis using s \<open>sint c \<noteq> 1\<close> by (simp add: word_sless_alt)
qed

lemma mon_step_inv: "mon_step m ev m' \<Longrightarrow> mon_inv m \<Longrightarrow> mon_inv m'"
  by (elim mon_stepE)
    (auto simp: mon_inv_def Monitor_wait_def Monitor_timed_wait_def Monitor_finish_def notify_all_def
      Monitor_finish_one_def Monitor_fail_def Monitor_reset_def Let_def sless_pred split: if_splits)

lemma mon_run_inv: "mon_run (Monitor_new c) evs m \<Longrightarrow> mon_inv m"
  by (induction rule: mon_run.induct) (auto simp: mon_step_inv, simp add: mon_inv_def Monitor_new_def)

text \<open>
  Claim C40. No waiter is left behind: once the tasks are finished, or one has failed, nobody is asleep on
  the monitor, under every interleaving; and a thread that finds the tasks finished is told so.
\<close>

theorem Monitor_no_lost_wakeup:
  assumes "mon_run (Monitor_new c) evs m" "mon_task_count m = 0 \<or> mon_task_count m = - 1"
  shows "mon_waiting m = [] \<and> snd (Monitor_timed_wait t m)
     = MonReturn t (if mon_task_count m = 0 then eco_ok else eco_fail)"
proof -
  have "\<not> 0 <s mon_task_count m" using assms(2) by (auto simp: word_sless_alt)
  then show ?thesis
    using mon_run_inv [OF assms(1)] by (auto simp: mon_inv_def Monitor_timed_wait_def wait_result_def)
qed

lemma Monitor_no_lost_wakeup_witness:
  "\<exists>m. mon_run (Monitor_new 1) [MonNone, MonNone] m \<and> mon_woken m = [(7, True)] \<and> mon_waiting m = []"
proof -
  let ?m1 = "(Monitor_new 1)\<lparr>mon_waiting := [(7, True)]\<rparr>"
  have s1: "mon_step (Monitor_new 1) MonNone ?m1"
    by (rule mon_timed_wait [of 7]) (simp add: Monitor_timed_wait_def Monitor_new_def word_sless_alt)
  have "mon_run (Monitor_new 1) ([] @ [MonNone]) ?m1" by (rule mon_run_step [OF mon_run_start s1])
  from mon_run_step [OF this mon_finish_one] have
    r: "mon_run (Monitor_new 1) [MonNone, MonNone] (Monitor_finish_one ?m1)" by simp
  have "mon_woken (Monitor_finish_one ?m1) = [(7, True)]" "mon_task_count (Monitor_finish_one ?m1) = 0"
    by (simp_all add: Monitor_finish_one_def Let_def notify_all_def Monitor_new_def)
  then show ?thesis using r Monitor_no_lost_wakeup [OF r, of 7] by auto
qed

text \<open>
  A wait is not repeated: a thread whose sleep ends spuriously returns a failure although the
  tasks are still running, and one more \<open>finish_one\<close> than tasks turns success into failure.
\<close>

lemma Monitor_spurious_failure:
  "\<exists>m. mon_run (Monitor_new 1) [MonNone, MonNone, MonReturn 7 eco_fail] m \<and> mon_task_count m = 1"
proof -
  let ?m1 = "(Monitor_new 1)\<lparr>mon_waiting := [(7, False)]\<rparr>" and ?m2 = "(Monitor_new 1)\<lparr>mon_woken := [(7, False)]\<rparr>"
  have s: "mon_step (Monitor_new 1) MonNone ?m1"
    by (rule mon_wait [of 7]) (simp add: Monitor_wait_def Monitor_new_def word_sless_alt)
  have s1: "mon_step ?m1 MonNone ?m2"
    using mon_spurious [of "(7, False)" ?m1] by (simp add: Monitor_new_def)
  have s2: "mon_step ?m2 (MonReturn 7 eco_fail) (Monitor_new 1)"
    using mon_return [of 7 False ?m2] by (simp add: Monitor_new_def wait_result_def)
  from mon_run_step [OF mon_run_step [OF mon_run_step [OF mon_run_start s] s1] s2]
  show ?thesis by (auto simp: Monitor_new_def)
qed

lemma Monitor_finish_twice:
  "wait_result (Monitor_finish_one (Monitor_finish_one (Monitor_new 1))) = eco_fail"
  by (simp add: Monitor_finish_one_def Monitor_new_def Let_def notify_all_def wait_result_def)

end
