(* ===== verification/Eco_TcpClient.thy ===== *)
theory Eco_TcpClient
  imports Eco_Dispatch Eco_Address Eco_Monitor
begin

text \<open>
  The TCP client: \<open>src/project/eco/prj/src/net/TcpClient.cpp\<close>, \<open>TcpClient.ipp\<close>, \<open>TcpClientOption.cpp\<close>, the
  client's side of the dispatching in \<open>DispatchServer.cpp\<close> and of the sessions in \<open>TcpSession.cpp\<close> and
  \<open>TcpOuter.h\<close>.

  The state is the option record, the protocols, the peer, the addresses, the two session tables
  and the table of waiting requests. The tables hold shared pointers: a session pack is reachable
  from both session tables, a request from the table and from the thread that waits for it.
  Packs and requests are therefore kept in stores, in the order of their creation, and the tables
  hold places in these. What the client asks of its io worker, its timer, its dispatcher, its peer
  and its user is listed as calls. A user handle of a session is gone when its last copy is; which
  ones are left is the parameter \<open>alive\<close>.
\<close>

section \<open>Options\<close>

record TcpClientOption =
  co_service_name :: bytes
  co_no_delay :: u16
  co_websocket :: u16
  co_tick_time :: u32
  co_tick_count :: u32
  co_heartbeat_send_tick :: u32
  co_heartbeat_recv_tick :: u32
  co_auto_reconnect_tick :: u32

definition co_reset_tick :: "TcpClientOption \<Rightarrow> TcpClientOption" where
  "co_reset_tick opt = opt\<lparr>co_tick_count := 0\<rparr>"

definition TcpClientOption_init :: TcpClientOption where
  "TcpClientOption_init = co_reset_tick \<lparr>co_service_name = [], co_no_delay = 1, co_websocket = 0, co_tick_time = 5,
     co_tick_count = 0, co_heartbeat_send_tick = 0, co_heartbeat_recv_tick = 0, co_auto_reconnect_tick = 1\<rparr>"

definition co_step_tick :: "u32 \<Rightarrow> TcpClientOption \<Rightarrow> TcpClientOption" where
  "co_step_tick step opt = opt\<lparr>co_tick_count := co_tick_count opt + step\<rparr>"

definition co_has_tick_timer :: "TcpClientOption \<Rightarrow> bool" where
  "co_has_tick_timer opt = (co_tick_time opt > 0)"

section \<open>Sessions and requests\<close>

text \<open>The session data is its id and what the user's factory made.\<close>

record 'd SessionDataPack =
  pk_request :: bytes
  pk_request_start :: nat
  pk_session :: "SessionId \<times> 'd"
  pk_user :: u64
  pk_request_data :: u64
  pk_auto_login :: u32

record AsyncRequest =
  ar_decode :: "bytes \<Rightarrow> bool"
  ar_response :: "bytes option"
  ar_monitor :: Monitor

definition AsyncRequest_new :: "(bytes \<Rightarrow> bool) \<Rightarrow> AsyncRequest" where
  "AsyncRequest_new rsp_codec = \<lparr>ar_decode = rsp_codec, ar_response = None, ar_monitor = Monitor_new 1\<rparr>"

record ClientSession =
  cs_conn :: TcpConnection
  cs_id :: SessionId
  cs_pack :: "nat option"
  cs_owner :: SessionOwner
  cs_user :: "u64 option"

section \<open>The client\<close>

datatype client_call =
    WorkerRun
  | DispatcherRun
  | RegisterTimer
  | CSetTimer u32
  | TimerCancel
  | WorkerStop
  | DispatcherStop
  | AsyncConnect Address
  | SetNoDelay bool
  | CPeer action
  | CallOnConnect
  | CallOnClose

record 'd Client =
  cl_option :: TcpClientOption
  cl_prot_head :: "ProtocolHead option"
  cl_protocol :: "Protocol option"
  cl_peer :: "Peer option"
  cl_address_cur :: AddressLoad
  cl_address_set :: "AddressLoad list"
  cl_init :: State
  cl_make_session :: "(SessionId \<Rightarrow> TcpConnection \<Rightarrow> 'd) option"
  cl_on_connect :: bool
  cl_on_close :: bool
  cl_packs :: "'d SessionDataPack list"
  cl_authority_map :: "(u64, nat) MapT"
  cl_session_map :: "(SessionId, nat) MapT"
  cl_request_id :: u32
  cl_timeout_millsec :: u32
  cl_asyncs :: "AsyncRequest list"
  cl_async_manager :: "(u32, nat) MapT"
  cl_posted :: "DataContext list"

definition e_client_no_protocol_head :: int where "e_client_no_protocol_head = - 2003"
definition e_client_no_address :: int where "e_client_no_address = - 2008"
definition e_client_session_not_opened :: int where "e_client_session_not_opened = - 2010"

definition Client_new :: "'d Client" where
  "Client_new = \<lparr>cl_option = TcpClientOption_init, cl_prot_head = None, cl_protocol = None, cl_peer = None,
     cl_address_cur = AddressLoad_new, cl_address_set = [], cl_init = State_no, cl_make_session = None,
     cl_on_connect = False, cl_on_close = False, cl_packs = [], cl_authority_map = [], cl_session_map = [],
     cl_request_id = 0, cl_timeout_millsec = 5000, cl_asyncs = [], cl_async_manager = [], cl_posted = []\<rparr>"

definition client_set_protocol_head :: "ProtocolHead \<Rightarrow> 'd Client \<Rightarrow> 'd Client" where
  "client_set_protocol_head v cl = cl\<lparr>cl_prot_head := Some v\<rparr>"

definition client_set_protocol :: "Protocol \<Rightarrow> 'd Client \<Rightarrow> 'd Client" where
  "client_set_protocol v cl = cl\<lparr>cl_protocol := Some v\<rparr>"

definition set_authority :: "u64 \<Rightarrow> nat \<Rightarrow> 'd Client \<Rightarrow> 'd Client" where
  "set_authority k pack cl = cl\<lparr>cl_authority_map := AList.update k pack (cl_authority_map cl)\<rparr>"

definition find_authority :: "'d Client \<Rightarrow> u64 \<Rightarrow> nat option" where
  "find_authority cl k = map_of (cl_authority_map cl) k"

definition client_find_session :: "'d Client \<Rightarrow> SessionId \<Rightarrow> nat option" where
  "client_find_session cl i = Map_find (cl_session_map cl) i"

text \<open>\<open>pop\<close> throws when there is no such session.\<close>

definition client_erase_session :: "SessionId \<Rightarrow> 'd Client \<Rightarrow> 'd Client outcome" where
  "client_erase_session i cl =
     obind (Map_pop 0 (cl_session_map cl) i) (\<lambda>(m, v). Ok (cl\<lparr>cl_session_map := m\<rparr>))"

text \<open>\<open>post_async\<close> reuses an entry that is still there, with the codec of the earlier request.\<close>

definition post_async :: "u32 \<Rightarrow> (bytes \<Rightarrow> bool) \<Rightarrow> 'd Client \<Rightarrow> 'd Client \<times> nat" where
  "post_async req_id rsp_codec cl =
     (case map_of (cl_async_manager cl) req_id of
        Some a \<Rightarrow> (cl, a)
      | None \<Rightarrow> (cl\<lparr>cl_asyncs := cl_asyncs cl @ [AsyncRequest_new rsp_codec],
                   cl_async_manager := AList.update req_id (length (cl_asyncs cl)) (cl_async_manager cl)\<rparr>,
                 length (cl_asyncs cl)))"

definition pop_async :: "u32 \<Rightarrow> 'd Client \<Rightarrow> 'd Client \<times> nat option" where
  "pop_async req_id cl =
     (case map_of (cl_async_manager cl) req_id of
        Some a \<Rightarrow> (cl\<lparr>cl_async_manager := AList.delete req_id (cl_async_manager cl)\<rparr>, Some a)
      | None \<Rightarrow> (cl, None))"

section \<open>Sending\<close>

definition client_async_send :: "bytes \<Rightarrow> nat \<Rightarrow> 'd Client \<Rightarrow> ('d Client \<times> client_call list) outcome" where
  "client_async_send data start cl =
     (case cl_peer cl of
        None \<Rightarrow> UB
      | Some p \<Rightarrow> let (p1, acts) = async_send data start p in Ok (cl\<lparr>cl_peer := Some p1\<rparr>, map CPeer acts))"

definition client_send_heartbeat :: "'d Client \<Rightarrow> ('d Client \<times> client_call list) outcome" where
  "client_send_heartbeat cl =
     (case (cl_peer cl, cl_prot_head cl) of
        (Some p, Some head) \<Rightarrow>
          obind (async_send_heartbeat head p) (\<lambda>(p1, acts). Ok (cl\<lparr>cl_peer := Some p1\<rparr>, map CPeer acts))
      | _ \<Rightarrow> UB)"

definition client_send_meta ::
  "(nat \<Rightarrow> byte) \<Rightarrow> MessageMeta \<Rightarrow> 'd Client \<Rightarrow> ('d Client \<times> client_call list) outcome" where
  "client_send_meta fill meta cl =
     (case cl_protocol cl of
        None \<Rightarrow> UB
      | Some prot \<Rightarrow> (case prot_encode prot fill meta of
            UB \<Rightarrow> UB | Err n \<Rightarrow> Ok (cl, []) | Ok (data, start) \<Rightarrow> client_async_send data start cl))"

text \<open>The stored request of a session is sent only when the peer is connected.\<close>

definition client_send_pack :: "nat \<Rightarrow> 'd Client \<Rightarrow> ('d Client \<times> client_call list) outcome" where
  "client_send_pack k cl =
     (case cl_peer cl of
        None \<Rightarrow> UB
      | Some p \<Rightarrow> if connected (p_state p)
                  then client_async_send (pk_request (cl_packs cl ! k)) (pk_request_start (cl_packs cl ! k)) cl
                  else Ok (cl, []))"

section \<open>Connecting\<close>

definition client_update_address :: "AddressSet \<Rightarrow> 'd Client \<Rightarrow> 'd Client outcome" where
  "client_update_address addr cl =
     obind (LoadBalancer_update_address addr (cl_address_cur cl) (cl_address_set cl)) (\<lambda>(cur, ls).
       Ok (cl\<lparr>cl_address_cur := cur, cl_address_set := ls\<rparr>))"

definition client_set_address :: "AddressSet \<Rightarrow> 'd Client \<Rightarrow> 'd Client outcome" where
  "client_set_address addr cl =
     obind (client_update_address addr cl) (\<lambda>cl1.
       Ok (cl1\<lparr>cl_option := (cl_option cl1)\<lparr>co_service_name := as_name addr\<rparr>\<rparr>))"

text \<open>A head that was set without a protocol is replaced.\<close>

definition client_init :: "'d Client \<Rightarrow> 'd Client" where
  "client_init cl =
     (if co_websocket (cl_option cl) > 0
      then client_set_protocol (WebSocketProtocol_protocol True) (client_set_protocol_head WebSocketProtocolHeadEx cl)
      else if cl_protocol cl = None
      then client_set_protocol TcpProtocol_protocol (client_set_protocol_head TcpProtocolHead cl)
      else cl)"

definition client_set_tick_timer :: "TcpClientOption \<Rightarrow> client_call list" where
  "client_set_tick_timer opt = (if co_has_tick_timer opt then [CSetTimer (co_tick_time opt)] else [])"

text \<open>
  What \<open>async_connect\<close> finds wrong before it starts: it logs the error and returns.
\<close>

definition connect_error :: "'d Client \<Rightarrow> int" where
  "connect_error cl =
     (if cl_prot_head cl = None then e_client_no_protocol_head
      else if cl_protocol cl = None then e_client_no_protocol_head
      else if cl_address_set cl = [] then e_client_no_address else 0)"

text \<open>The first call starts the worker, the dispatcher and the timer, and makes the peer.\<close>

definition client_start :: "ConnectionId \<Rightarrow> 'd Client \<Rightarrow> 'd Client \<times> client_call list" where
  "client_start i cl =
     (if \<not> State_is_ok (cl_init cl)
      then (cl\<lparr>cl_peer := Some (TcpPeer_make i), cl_init := State_ok (cl_init cl)\<rparr>,
            [WorkerRun, DispatcherRun, RegisterTimer] @ client_set_tick_timer (cl_option cl))
      else (cl, []))"

text \<open>
  The peer resolves the host of the address before it connects and throws when it cannot; \<open>resolve\<close>
  gives the error, or zero. The last component of the result is the exception that is thrown, or
  zero; the state is the one at that point.
\<close>

definition client_connect :: "(Address \<Rightarrow> int) \<Rightarrow> 'd Client \<Rightarrow> ('d Client \<times> client_call list \<times> int) outcome" where
  "client_connect resolve cl =
     (case cl_peer cl of
        None \<Rightarrow> UB
      | Some p \<Rightarrow> (case LoadBalancer_connect (connected (p_state p)) (cl_address_set cl) of
            None \<Rightarrow> Ok (cl, [], 0)
          | Some (cur, ls) \<Rightarrow>
              let cl1 = cl\<lparr>cl_address_cur := cur, cl_address_set := ls\<rparr>
              in if resolve (al_address cur) \<noteq> 0 then Ok (cl1, [CPeer CloseSocket], resolve (al_address cur))
                 else Ok (cl1, [CPeer CloseSocket, AsyncConnect (al_address cur)], 0)))"

definition client_async_connect ::
  "(Address \<Rightarrow> int) \<Rightarrow> ConnectionId \<Rightarrow> 'd Client \<Rightarrow> ('d Client \<times> client_call list \<times> int) outcome" where
  "client_async_connect resolve i cl =
     (if connect_error cl \<noteq> 0 then Ok (cl, [], 0)
      else let (cl1, calls) = client_start i cl
           in obind (client_connect resolve cl1) (\<lambda>(cl2, calls2, ex). Ok (cl2, calls @ calls2, ex)))"

definition TcpClient_async_connect ::
  "(Address \<Rightarrow> int) \<Rightarrow> ConnectionId \<Rightarrow> 'd Client \<Rightarrow> ('d Client \<times> client_call list \<times> int) outcome" where
  "TcpClient_async_connect resolve i cl = client_async_connect resolve i (client_init cl)"

definition TcpClient_async_connect_addr ::
  "(Address \<Rightarrow> int) \<Rightarrow> ConnectionId \<Rightarrow> AddressSet \<Rightarrow> 'd Client \<Rightarrow> ('d Client \<times> client_call list \<times> int) outcome" where
  "TcpClient_async_connect_addr resolve i addr cl =
     obind (client_update_address addr (client_init cl)) (client_async_connect resolve i)"

definition client_close :: "'d Client \<Rightarrow> ('d Client \<times> client_call list) outcome" where
  "client_close cl =
     (if State_is_ok (cl_init cl) then
        (case cl_peer cl of
           None \<Rightarrow> UB
         | Some p \<Rightarrow> Ok (cl\<lparr>cl_peer := None, cl_init := State_none (cl_init cl)\<rparr>,
             [TimerCancel] @ map CPeer (snd (peer_close p)) @ [WorkerStop, DispatcherStop]))
      else Ok (cl, []))"

section \<open>Sessions of a client\<close>

text \<open>
  \<open>open_session\<close> makes the session data and the user handle, whose address \<open>user\<close> is the key of the
  session; without a factory or a peer it calls through a null pointer.
\<close>

definition client_open_session :: "u64 \<Rightarrow> 'd Client \<Rightarrow> (ClientSession \<times> 'd Client) outcome" where
  "client_open_session user cl =
     (case (cl_peer cl, cl_protocol cl, cl_make_session cl) of
        (Some p, Some prot, Some make_func) \<Rightarrow>
          let conn = TcpConnection_new\<lparr>tc_peer := Some (p_id p), tc_prot := Some prot\<rparr>;
              k = length (cl_packs cl);
              pack = \<lparr>pk_request = [], pk_request_start = 0, pk_session = (none_session, make_func none_session conn),
                      pk_user = user, pk_request_data = 0, pk_auto_login = 0\<rparr>;
              sess = \<lparr>cs_conn = conn, cs_id = none_session, cs_pack = Some k, cs_owner = ClientOwner, cs_user = Some user\<rparr>
          in Ok (sess, set_authority user k (cl\<lparr>cl_packs := cl_packs cl @ [pack]\<rparr>))
      | _ \<Rightarrow> UB)"

text \<open>\<open>ptr\<close> is the size of a pointer of the platform. A session without a user handle has the null key.\<close>

definition session_key :: "ClientSession \<Rightarrow> u64" where
  "session_key sess = (case cs_user sess of None \<Rightarrow> 0 | Some u \<Rightarrow> u)"

definition auth_meta :: "nat \<Rightarrow> u64 \<Rightarrow> MessageMeta \<Rightarrow> MessageMeta" where
  "auth_meta ptr sess_key meta =
     set_request_data_ptr ptr sess_key
       (meta\<lparr>m_session_id := 0, m_category := eco_add (m_category meta) (category_authority OR category_session)\<rparr>)"

definition client_async_auth ::
  "nat \<Rightarrow> (nat \<Rightarrow> byte) \<Rightarrow> ClientSession \<Rightarrow> MessageMeta \<Rightarrow> 'd Client \<Rightarrow> ('d Client \<times> client_call list) outcome" where
  "client_async_auth ptr fill sess meta cl =
     (case find_authority cl (session_key sess) of
        None \<Rightarrow> Err e_client_session_not_opened
      | Some k \<Rightarrow>
          let cl1 = cl\<lparr>cl_packs := (cl_packs cl)[k := (cl_packs cl ! k)\<lparr>pk_request_data := m_request_data meta\<rparr>]\<rparr>
          in (case cl_protocol cl of
                None \<Rightarrow> UB
              | Some prot \<Rightarrow> (case prot_encode prot fill (auth_meta ptr (session_key sess) meta) of
                    UB \<Rightarrow> UB
                  | Err n \<Rightarrow> Ok (cl1, [])
                  | Ok (data, start) \<Rightarrow>
                      client_send_pack k
                        (cl1\<lparr>cl_packs := (cl_packs cl1)[k :=
                           (cl_packs cl1 ! k)\<lparr>pk_request := data, pk_request_start := start\<rparr>]\<rparr>))))"

text \<open>\<open>TcpSessionInner::async_auth\<close>; \<open>alive\<close> says whether the session data can be locked.\<close>

definition ClientSession_async_auth ::
  "nat \<Rightarrow> (nat \<Rightarrow> byte) \<Rightarrow> bool \<Rightarrow> ClientSession \<Rightarrow> MessageMeta \<Rightarrow> 'd Client \<Rightarrow> ('d Client \<times> client_call list) outcome" where
  "ClientSession_async_auth ptr fill alive sess meta cl =
     (if cs_pack sess \<noteq> None \<and> alive \<and> cs_owner sess \<noteq> ServerOwner
      then (if cs_owner sess = NoOwner then UB else client_async_auth ptr fill sess meta cl)
      else Ok (cl, []))"

text \<open>\<open>close\<close> of a client session throws when the client has no session of its id any more.\<close>

definition ClientSession_close :: "ClientSession \<Rightarrow> 'd Client \<Rightarrow> (ClientSession \<times> 'd Client) outcome" where
  "ClientSession_close sess cl =
     (let closed_sess = sess\<lparr>cs_pack := None, cs_owner := NoOwner\<rparr> in
      if cs_id sess \<noteq> none_session then
        (if cs_owner sess = NoOwner then UB
         else obind (client_erase_session (cs_id sess) cl) (\<lambda>cl1. Ok (closed_sess, cl1)))
      else Ok (closed_sess, cl))"

definition client_session_open ::
  "(nat \<Rightarrow> bool) \<Rightarrow> SessionId \<Rightarrow> 'd Client \<Rightarrow> ClientSession \<Rightarrow> ClientSession \<times> bool" where
  "client_session_open alive i cl sess =
     (case client_find_session cl i of
        None \<Rightarrow> (sess, False)
      | Some k \<Rightarrow> if alive k
                  then (sess\<lparr>cs_user := Some (pk_user (cl_packs cl ! k)), cs_pack := Some k, cs_id := i\<rparr>, True)
                  else (sess\<lparr>cs_user := None\<rparr>, False))"

section \<open>Requests\<close>

text \<open>
  A request waits for its response: \<open>request_send\<close> is what the calling thread does before it
  waits on the monitor of the request, and \<open>request_return\<close> what it does with the result.
\<close>

definition request_send ::
  "(nat \<Rightarrow> byte) \<Rightarrow> MessageMeta \<Rightarrow> (bytes \<Rightarrow> bool) \<Rightarrow> 'd Client \<Rightarrow> (u32 \<times> nat \<times> 'd Client \<times> client_call list) outcome" where
  "request_send fill req rsp cl =
     (let req_id = cl_request_id cl + 1;
          req1 = set_request_data4 req_id req;
          req2 = req1\<lparr>m_category := eco_add (m_category req1) category_sync\<rparr>;
          (cl1, a) = post_async req_id rsp (cl\<lparr>cl_request_id := req_id\<rparr>)
      in obind (client_send_meta fill req2 cl1) (\<lambda>(cl2, calls). Ok (req_id, a, cl2, calls)))"

definition async_update :: "nat \<Rightarrow> (AsyncRequest \<Rightarrow> AsyncRequest) \<Rightarrow> 'd Client \<Rightarrow> 'd Client" where
  "async_update a f cl = cl\<lparr>cl_asyncs := (cl_asyncs cl)[a := f (cl_asyncs cl ! a)]\<rparr>"

definition request_wait :: "tid \<Rightarrow> nat \<Rightarrow> 'd Client \<Rightarrow> 'd Client \<times> mon_event" where
  "request_wait t a cl =
     (let (m, ev) = Monitor_timed_wait t (ar_monitor (cl_asyncs cl ! a))
      in (async_update a (\<lambda>r. r\<lparr>ar_monitor := m\<rparr>) cl, ev))"

definition request_return :: "u32 \<Rightarrow> int \<Rightarrow> 'd Client \<Rightarrow> 'd Client \<times> int" where
  "request_return req_id result cl = (if result \<noteq> eco_ok then (fst (pop_async req_id cl), result) else (cl, result))"

section \<open>Events of the peer\<close>

definition client_handler :: "ProtocolHead \<Rightarrow> 'd Client \<Rightarrow> Handler" where
  "client_handler head cl =
     \<lparr>hdl_head = head, hdl_websocket = (co_websocket (cl_option cl) > 0), hdl_key = lit ''bysCZJDozDYNAXgr7lCo32QsjgE=''\<rparr>"

text \<open>After a connection all stored requests for authority are sent, in the order of the table.\<close>

fun send_authorities :: "nat list \<Rightarrow> 'd Client \<Rightarrow> ('d Client \<times> client_call list) outcome" where
  "send_authorities [] cl = Ok (cl, [])"
| "send_authorities (k # ks) cl =
     obind (client_async_send (pk_request (cl_packs cl ! k)) (pk_request_start (cl_packs cl ! k)) cl) (\<lambda>(cl1, calls).
     obind (send_authorities ks cl1) (\<lambda>(cl2, calls2). Ok (cl2, calls @ calls2)))"

definition client_on_connect :: "'d Client \<Rightarrow> ('d Client \<times> client_call list) outcome" where
  "client_on_connect cl =
     obind (send_authorities (map snd (cl_authority_map cl)) cl) (\<lambda>(cl1, calls).
       Ok (cl1, SetNoDelay (co_no_delay (cl_option cl) > 0) # calls @ (if cl_on_connect cl1 then [CallOnConnect] else [])))"

definition client_on_close :: "'d Client \<Rightarrow> 'd Client \<times> client_call list" where
  "client_on_close cl = (cl\<lparr>cl_session_map := Map_clear (cl_session_map cl)\<rparr>, if cl_on_close cl then [CallOnClose] else [])"

definition client_on_read :: "bytes \<Rightarrow> 'd Client \<Rightarrow> 'd Client outcome" where
  "client_on_read data cl =
     (case (cl_prot_head cl, cl_peer cl) of
        (Some prot_head, Some p) \<Rightarrow>
          (case ph_decode prot_head data of
             UB \<Rightarrow> UB
           | Err n \<Rightarrow> Ok cl
           | Ok head \<Rightarrow> Ok (cl\<lparr>cl_posted := cl_posted cl @
               [\<lparr>dc_category = head_category head, dc_data = data, dc_peer = p_id p, dc_prot = cl_protocol cl\<rparr>]\<rparr>))
      | _ \<Rightarrow> UB)"

fun run_client_actions :: "action list \<Rightarrow> 'd Client \<Rightarrow> ('d Client \<times> client_call list) outcome" where
  "run_client_actions [] cl = Ok (cl, [])"
| "run_client_actions (NotifyConnect # acts) cl =
     obind (client_on_connect cl) (\<lambda>(cl1, calls).
     obind (run_client_actions acts cl1) (\<lambda>(cl2, calls2). Ok (cl2, calls @ calls2)))"
| "run_client_actions (NotifyRead data # acts) cl = obind (client_on_read data cl) (run_client_actions acts)"
| "run_client_actions (NotifyClose c # acts) cl =
     (let (cl1, calls) = client_on_close cl
      in obind (run_client_actions acts cl1) (\<lambda>(cl2, calls2). Ok (cl2, calls @ calls2)))"
| "run_client_actions (a # acts) cl = obind (run_client_actions acts cl) (\<lambda>(cl2, calls). Ok (cl2, CPeer a # calls))"

definition client_event ::
  "(Peer \<Rightarrow> (Peer \<times> action list) outcome) \<Rightarrow> 'd Client \<Rightarrow> ('d Client \<times> client_call list) outcome" where
  "client_event event cl =
     (case cl_peer cl of
        None \<Rightarrow> Ok (cl, [])
      | Some p \<Rightarrow> obind (event p) (\<lambda>(p1, acts). run_client_actions acts (cl\<lparr>cl_peer := Some p1\<rparr>)))"

text \<open>
  A tick: the heartbeat, then the reconnection, then the next tick. An exception of the
  reconnection leaves the handler before the timer is set again.
\<close>

definition client_on_timer ::
  "(Address \<Rightarrow> int) \<Rightarrow> ConnectionId \<Rightarrow> bool \<Rightarrow> 'd Client \<Rightarrow> ('d Client \<times> client_call list \<times> int) outcome" where
  "client_on_timer resolve i err cl =
     (if err then Ok (cl, [], 0)
      else let opt = co_step_tick 1 (cl_option cl);
               cl1 = cl\<lparr>cl_option := opt\<rparr>
           in obind (if co_heartbeat_send_tick opt > 0 \<and> co_tick_count opt mod co_heartbeat_send_tick opt = 0
                     then client_send_heartbeat cl1 else Ok (cl1, [])) (\<lambda>(cl2, calls).
              obind (if co_auto_reconnect_tick opt > 0 \<and> co_tick_count opt mod co_auto_reconnect_tick opt = 0
                     then client_async_connect resolve i cl2 else Ok (cl2, [], 0)) (\<lambda>(cl3, calls3, ex).
                Ok (cl3, calls @ calls3 @ (if ex = 0 then client_set_tick_timer opt else []), ex))))"

section \<open>Dispatching a message to the client\<close>

record ClientContext =
  cc_data :: bytes
  cc_message :: "nat \<times> u32"
  cc_meta :: MessageMeta
  cc_session :: ClientSession

text \<open>
  An answer to a request for authority: the request data is the key the request was sent with. The
  session gets the id the server chose, and the context the request data of the user.
\<close>

definition handle_authority ::
  "(nat \<Rightarrow> bool) \<Rightarrow> ClientContext \<Rightarrow> 'd Client \<Rightarrow> ClientContext \<times> 'd Client \<times> bool" where
  "handle_authority alive c cl =
     (let key = m_request_data (cc_meta c); i = m_session_id (cc_meta c) in
      if key = 0 then (c, cl, False)
      else case find_authority cl key of
        None \<Rightarrow> (c, cl, False)
      | Some k \<Rightarrow>
          let pack = cl_packs cl ! k in
          if \<not> alive k then (c\<lparr>cc_session := (cc_session c)\<lparr>cs_user := None\<rparr>\<rparr>, cl, False)
          else let sess = (cc_session c)\<lparr>cs_user := Some (pk_user pack), cs_pack := Some k, cs_id := i\<rparr>;
                   cl1 = (if i \<noteq> none_session
                          then cl\<lparr>cl_packs := (cl_packs cl)[k := pack\<lparr>pk_session := (i, snd (pk_session pack))\<rparr>],
                                 cl_session_map := Map_set (cl_session_map cl) i k\<rparr>
                          else cl)
               in (c\<lparr>cc_session := sess, cc_meta := (cc_meta c)\<lparr>m_request_data := pk_request_data pack\<rparr>\<rparr>, cl1, True))"

text \<open>The response to a waiting request is decoded in the dispatching thread.\<close>

definition handle_sync :: "ClientContext \<Rightarrow> 'd Client \<Rightarrow> 'd Client" where
  "handle_sync c cl =
     (let (cl1, async) = pop_async (get_req4 (cc_meta c)) cl;
          body = take (unat (snd (cc_message c))) (drop (fst (cc_message c)) (cc_data c))
      in case async of
           None \<Rightarrow> cl1
         | Some a \<Rightarrow> async_update a
             (\<lambda>r. r\<lparr>ar_response := (if ar_decode r body then Some body else ar_response r),
                    ar_monitor := Monitor_finish_one (ar_monitor r)\<rparr>) cl1)"

definition handle_client_context ::
  "(nat \<Rightarrow> bool) \<Rightarrow> ClientContext \<Rightarrow> 'd Client \<Rightarrow> ClientContext \<times> 'd Client \<times> bool" where
  "handle_client_context alive c cl =
     (let category = m_category (cc_meta c);
          (c1, cl1, ok) =
            (if eco_has category category_authority \<and> eco_has category category_session
             then handle_authority alive c cl
             else if m_session_id (cc_meta c) \<noteq> none_session
             then let (sess, ok) = client_session_open alive (m_session_id (cc_meta c)) cl (cc_session c)
                  in (c\<lparr>cc_session := sess\<rparr>, cl, ok)
             else (c, cl, True))
      in if \<not> ok then (c1, cl1, False)
         else if eco_has category category_sync then (c1, handle_sync c1 cl1, False)
         else (c1, cl1, eco_has category category_message))"

text \<open>The result has the context that goes to the user's handler, if one does. A client sends no heartbeat back.\<close>

definition client_dispatch ::
  "(nat \<Rightarrow> bool) \<Rightarrow> DataContext \<Rightarrow> 'd Client \<Rightarrow> ('d Client \<times> ClientContext option) outcome" where
  "client_dispatch alive dc cl =
     (case cl_peer cl of
        None \<Rightarrow> Ok (cl, None)
      | Some p \<Rightarrow>
          if p_id p \<noteq> dc_peer dc then Ok (cl, None)
          else if eco_has (dc_category dc) category_heartbeat
          then Ok (cl\<lparr>cl_peer := Some (p\<lparr>p_state := set_peer_live (p_state p) True\<rparr>)\<rparr>, None)
          else case dc_prot dc of
            None \<Rightarrow> UB
          | Some prot \<Rightarrow>
              (case prot_decode prot (MessageMeta_new\<lparr>m_category := dc_category dc\<rparr>) (dc_data dc) of
                 UB \<Rightarrow> UB
               | Err n \<Rightarrow> Ok (cl, None)
               | Ok (meta, data, msg) \<Rightarrow>
                   let sess = \<lparr>cs_conn = \<lparr>tc_peer = Some (dc_peer dc), tc_prot = Some prot, tc_id = p_id p\<rparr>,
                               cs_id = none_session, cs_pack = None, cs_owner = ClientOwner, cs_user = None\<rparr>;
                       (c1, cl1, handle) = handle_client_context alive
                         \<lparr>cc_data = data, cc_message = msg, cc_meta = meta, cc_session = sess\<rparr> cl
                   in if handle
                      then Ok (cl1\<lparr>cl_peer := Some (p\<lparr>p_state := set_peer_active (p_state p) True\<rparr>)\<rparr>, Some c1)
                      else Ok (cl1, None)))"

end
