(* ===== verification/Eco_ClientInv.thy ===== *)
theory Eco_ClientInv
  imports Eco_TcpClient
begin

text \<open>
  The client as a whole: its steps, in any order, the states they reach, and what holds in all of
  them: the tables only hold places that exist, and once the client is started it has a peer and
  protocols, so none of its operations goes through a null pointer. Then the correlation of
  responses with requests, and what a lost connection does to sessions and to the tick timer.
\<close>

section \<open>Steps\<close>

inductive client_step :: "'d Client \<Rightarrow> 'd Client \<Rightarrow> bool" where
  cs_option: "client_step cl (cl\<lparr>cl_option := opt\<rparr>)"
| cs_protocol_head: "client_step cl (client_set_protocol_head v cl)"
| cs_protocol: "client_step cl (client_set_protocol v' cl)"
| cs_event: "client_step cl (cl\<lparr>cl_on_connect := oc, cl_on_close := od\<rparr>)"
| cs_session_data: "client_step cl (cl\<lparr>cl_make_session := Some mk\<rparr>)"
| cs_address: "client_set_address addr cl = Ok cl' \<Longrightarrow> client_step cl cl'"
| cs_connect: "TcpClient_async_connect resolve i cl = Ok (cl', calls, ex) \<Longrightarrow> client_step cl cl'"
| cs_connect_addr: "TcpClient_async_connect_addr resolve i addr cl = Ok (cl', calls, ex) \<Longrightarrow> client_step cl cl'"
| cs_close: "client_close cl = Ok (cl', calls) \<Longrightarrow> client_step cl cl'"
| cs_send: "client_async_send data start cl = Ok (cl', calls) \<Longrightarrow> client_step cl cl'"
| cs_send_meta: "client_send_meta fill meta cl = Ok (cl', calls) \<Longrightarrow> client_step cl cl'"
| cs_open_session: "user \<noteq> 0 \<Longrightarrow> client_open_session user cl = Ok (sess, cl') \<Longrightarrow> client_step cl cl'"
| cs_auth: "ClientSession_async_auth ptr fill alive1 sess meta cl = Ok (cl', calls) \<Longrightarrow> client_step cl cl'"
| cs_close_session: "ClientSession_close sess cl = Ok (sess', cl') \<Longrightarrow> client_step cl cl'"
| cs_request_send: "request_send fill req rsp cl = Ok (req_id, a, cl', calls) \<Longrightarrow> client_step cl cl'"
| cs_request_wait: "request_wait t a cl = (cl', ev) \<Longrightarrow> client_step cl cl'"
| cs_request_wake: "mon_step (ar_monitor (cl_asyncs cl ! a)) ev m \<Longrightarrow>
     client_step cl (async_update a (\<lambda>r. r\<lparr>ar_monitor := m\<rparr>) cl)"
| cs_request_return: "request_return req_id result cl = (cl', r) \<Longrightarrow> client_step cl cl'"
| cs_peer_event: "client_event event cl = Ok (cl', calls) \<Longrightarrow> client_step cl cl'"
| cs_timer: "client_on_timer resolve i err cl = Ok (cl', calls, ex) \<Longrightarrow> client_step cl cl'"
| cs_dispatch: "client_dispatch alive dc cl = Ok (cl', ctx) \<Longrightarrow> client_step cl cl'"

inductive client_reach :: "'d Client \<Rightarrow> bool" where
  client_start: "client_reach Client_new"
| client_more: "client_reach cl \<Longrightarrow> client_step cl cl' \<Longrightarrow> client_reach cl'"

inductive_cases client_stepE: "client_step cl cl'"

section \<open>The invariant\<close>

definition started_ok :: "'d Client \<Rightarrow> bool" where
  "started_ok cl \<longleftrightarrow> (State_is_ok (cl_init cl) \<longleftrightarrow> cl_peer cl \<noteq> None)
     \<and> (cl_peer cl \<noteq> None \<longrightarrow> cl_prot_head cl \<noteq> None \<and> cl_protocol cl \<noteq> None)"

definition sessions_ok :: "'d Client \<Rightarrow> bool" where
  "sessions_ok cl \<longleftrightarrow> Map_wf (cl_authority_map cl) \<and> Map_wf (cl_session_map cl)
     \<and> (\<forall>u k. map_of (cl_authority_map cl) u = Some k \<longrightarrow> k < length (cl_packs cl) \<and> pk_user (cl_packs cl ! k) = u \<and> u \<noteq> 0)
     \<and> (\<forall>i k. map_of (cl_session_map cl) i = Some k \<longrightarrow> k < length (cl_packs cl) \<and> i \<noteq> none_session)"

definition requests_ok :: "'d Client \<Rightarrow> bool" where
  "requests_ok cl \<longleftrightarrow> Map_wf (cl_async_manager cl)
     \<and> (\<forall>i a. map_of (cl_async_manager cl) i = Some a \<longrightarrow> a < length (cl_asyncs cl))
     \<and> (\<forall>i j a. map_of (cl_async_manager cl) i = Some a \<longrightarrow> map_of (cl_async_manager cl) j = Some a \<longrightarrow> i = j)"

definition client_inv :: "'d Client \<Rightarrow> bool" where
  "client_inv cl \<longleftrightarrow> started_ok cl \<and> sessions_ok cl \<and> requests_ok cl"

text \<open>Most operations touch the tables of one group only.\<close>

lemma inv_cong:
  "started_ok cl \<Longrightarrow> cl_init cl' = cl_init cl \<Longrightarrow> (cl_peer cl' = None \<longleftrightarrow> cl_peer cl = None) \<Longrightarrow>
     cl_prot_head cl' = cl_prot_head cl \<Longrightarrow> cl_protocol cl' = cl_protocol cl \<Longrightarrow> started_ok cl'"
  "sessions_ok cl \<Longrightarrow> cl_authority_map cl' = cl_authority_map cl \<Longrightarrow> cl_session_map cl' = cl_session_map cl \<Longrightarrow>
     map pk_user (cl_packs cl') = map pk_user (cl_packs cl) \<Longrightarrow> sessions_ok cl'"
  "requests_ok cl \<Longrightarrow> cl_async_manager cl' = cl_async_manager cl \<Longrightarrow> length (cl_asyncs cl') = length (cl_asyncs cl) \<Longrightarrow>
     requests_ok cl'"
proof -
  assume s: "sessions_ok cl" "cl_authority_map cl' = cl_authority_map cl" "cl_session_map cl' = cl_session_map cl"
    "map pk_user (cl_packs cl') = map pk_user (cl_packs cl)"
  have len: "length (cl_packs cl') = length (cl_packs cl)" using s(4) by (metis length_map)
  moreover have "k < length (cl_packs cl) \<Longrightarrow> pk_user (cl_packs cl' ! k) = pk_user (cl_packs cl ! k)" for k
    using s(4) len by (metis nth_map)
  ultimately show "sessions_ok cl'" using s(1) unfolding sessions_ok_def s(2,3) by auto
qed (simp_all add: started_ok_def requests_ok_def)

text \<open>The parts of the state that an operation on the connection leaves alone.\<close>

definition same_tables :: "'d Client \<Rightarrow> 'd Client \<Rightarrow> bool" where
  "same_tables cl cl' \<longleftrightarrow> cl_init cl' = cl_init cl \<and> (cl_peer cl' = None \<longleftrightarrow> cl_peer cl = None)
     \<and> cl_prot_head cl' = cl_prot_head cl \<and> cl_protocol cl' = cl_protocol cl
     \<and> cl_authority_map cl' = cl_authority_map cl \<and> cl_session_map cl' = cl_session_map cl
     \<and> map pk_user (cl_packs cl') = map pk_user (cl_packs cl)
     \<and> cl_async_manager cl' = cl_async_manager cl \<and> length (cl_asyncs cl') = length (cl_asyncs cl)"

lemma same_tables_inv: "same_tables cl cl' \<Longrightarrow> client_inv cl \<Longrightarrow> client_inv cl'"
  using inv_cong(1) [of cl cl'] inv_cong(2) [of cl cl'] inv_cong(3) [of cl cl']
  by (simp add: client_inv_def same_tables_def)

lemma same_tables_refl [simp]: "same_tables cl cl"
  by (simp add: same_tables_def)

lemma same_tables_trans: "same_tables cl cl1 \<Longrightarrow> same_tables cl1 cl2 \<Longrightarrow> same_tables cl cl2"
  by (simp add: same_tables_def)

lemma client_async_send_same: "client_async_send data start cl = Ok (cl', calls) \<Longrightarrow> same_tables cl cl'"
  by (auto simp: client_async_send_def same_tables_def async_send_def split: option.splits)

lemma client_send_heartbeat_same: "client_send_heartbeat cl = Ok (cl', calls) \<Longrightarrow> same_tables cl cl'"
  by (auto simp: client_send_heartbeat_def same_tables_def obind_eq_Ok split: option.splits prod.splits)

lemma client_send_meta_same: "client_send_meta fill meta cl = Ok (cl', calls) \<Longrightarrow> same_tables cl cl'"
  by (auto simp: client_send_meta_def client_async_send_same split: option.splits outcome.splits)

lemma client_send_pack_same: "client_send_pack k cl = Ok (cl', calls) \<Longrightarrow> same_tables cl cl'"
  by (auto simp: client_send_pack_def client_async_send_same split: option.splits if_splits)

lemma client_update_address_same: "client_update_address addr cl = Ok cl' \<Longrightarrow> same_tables cl cl'"
  by (auto simp: client_update_address_def same_tables_def obind_eq_Ok)

lemma client_connect_same: "client_connect resolve cl = Ok (cl', calls, ex) \<Longrightarrow> same_tables cl cl'"
  by (auto simp: client_connect_def same_tables_def Let_def split: option.splits if_splits)

lemma State_ok_is_ok: "State_is_ok (State_ok s)" "\<not> State_is_ok (State_none s)"
  by (simp_all add: State_op_defs State_flag_defs and_pos_iff bit_eq_iff bit_simps) (rule exI [of _ 12], simp)

lemma client_async_connect_inv:
  assumes "client_async_connect resolve i cl = Ok (cl', calls, ex)" "client_inv cl"
  shows "client_inv cl'"
proof (cases "connect_error cl = 0")
  case True
  then have p: "cl_prot_head cl \<noteq> None" "cl_protocol cl \<noteq> None"
    by (auto simp: connect_error_def e_client_no_protocol_head_def split: if_splits)
  obtain cl1 c1 where st: "client_start i cl = (cl1, c1)" by fastforce
  then have "client_inv cl1"
    using assms(2) p inv_cong(2) [of cl cl1] inv_cong(3) [of cl cl1]
    by (auto simp: client_start_def client_inv_def started_ok_def State_ok_is_ok split: if_splits)
  then show ?thesis
    using assms(1) True st
    by (auto simp: client_async_connect_def obind_eq_Ok intro: same_tables_inv [OF client_connect_same])
qed (use assms in \<open>auto simp: client_async_connect_def\<close>)

lemma client_init_inv: "client_inv cl \<Longrightarrow> client_inv (client_init cl)"
  using inv_cong(2) [of cl "client_init cl"] inv_cong(3) [of cl "client_init cl"]
  by (auto simp: client_init_def client_inv_def started_ok_def client_set_protocol_def client_set_protocol_head_def)

lemma client_close_inv: "client_close cl = Ok (cl', calls) \<Longrightarrow> client_inv cl \<Longrightarrow> client_inv cl'"
  using inv_cong(2) [of cl cl'] inv_cong(3) [of cl cl']
  by (auto simp: client_close_def client_inv_def started_ok_def State_ok_is_ok split: option.splits if_splits)

lemma sessions_ok_open:
  assumes "sessions_ok cl" "user \<noteq> 0" "pk_user pack = user"
  shows "sessions_ok (set_authority user (length (cl_packs cl)) (cl\<lparr>cl_packs := cl_packs cl @ [pack]\<rparr>))"
proof -
  have "k < length (cl_packs cl @ [pack]) \<and> pk_user ((cl_packs cl @ [pack]) ! k) = u \<and> u \<noteq> 0"
    if "map_of (AList.update user (length (cl_packs cl)) (cl_authority_map cl)) u = Some k" for u k
    using that assms by (cases "u = user") (auto simp: sessions_ok_def update_conv' nth_append less_SucI)
  moreover have "k < length (cl_packs cl @ [pack]) \<and> i \<noteq> none_session"
    if "map_of (cl_session_map cl) i = Some k" for i k
    using that assms(1) by (auto simp: sessions_ok_def less_SucI)
  ultimately show ?thesis
    using assms(1) unfolding sessions_ok_def by (simp add: set_authority_def Map_wf_def distinct_update)
qed

lemma client_open_session_inv:
  assumes "user \<noteq> 0" "client_open_session user cl = Ok (sess, cl')" "client_inv cl"
  shows "client_inv cl'"
proof -
  obtain p prot mk where "cl_peer cl = Some p" "cl_protocol cl = Some prot" "cl_make_session cl = Some mk"
    using assms(2) by (auto simp: client_open_session_def split: option.splits)
  then obtain pack where pack: "pk_user pack = user"
    "cl' = set_authority user (length (cl_packs cl)) (cl\<lparr>cl_packs := cl_packs cl @ [pack]\<rparr>)"
    using assms(2) that [of "SessionDataPack.make [] 0 (none_session,
        mk none_session (TcpConnection_new\<lparr>tc_peer := Some (p_id p), tc_prot := Some prot\<rparr>)) user 0 0"]
    by (simp add: client_open_session_def Let_def SessionDataPack.defs)
  have "sessions_ok cl'" using sessions_ok_open [OF _ assms(1) pack(1), of cl] assms(3) pack(2) by (simp add: client_inv_def)
  moreover have "started_ok cl'" "requests_ok cl'"
    using assms(3) pack(2) inv_cong(1) [of cl cl'] inv_cong(3) [of cl cl'] by (auto simp: set_authority_def client_inv_def)
  ultimately show ?thesis by (simp add: client_inv_def)
qed

lemma map_list_update_same: "f y = f (xs ! k) \<Longrightarrow> map f (xs[k := y]) = map f xs"
  by (metis linorder_not_less list_update_beyond list_update_id map_update)

lemma client_async_auth_same:
  assumes "client_async_auth ptr fill sess meta cl = Ok (cl', calls)"
  shows "same_tables cl cl'"
proof -
  obtain k where k: "find_authority cl (session_key sess) = Some k"
    using assms by (auto simp: client_async_auth_def split: option.splits)
  let ?cl1 = "cl\<lparr>cl_packs := (cl_packs cl)[k := (cl_packs cl ! k)\<lparr>pk_request_data := m_request_data meta\<rparr>]\<rparr>"
  have s1: "same_tables cl ?cl1" by (simp add: same_tables_def map_list_update_same)
  have s2: "same_tables ?cl1 (?cl1\<lparr>cl_packs := (cl_packs ?cl1)[k := (cl_packs ?cl1 ! k)\<lparr>pk_request := d, pk_request_start := n\<rparr>]\<rparr>)" for d n
    by (cases "k < length (cl_packs cl)") (simp_all add: same_tables_def map_list_update_same linorder_not_less list_update_beyond)
  show ?thesis
    using assms k s1 same_tables_trans [OF s1 same_tables_trans [OF s2 client_send_pack_same]]
    by (auto simp: client_async_auth_def Let_def split: option.splits outcome.splits)
qed


text \<open>Removing entries, and changing a waiting request.\<close>

lemma delete_map_of: "map_of (AList.delete i m) j = Some k \<longleftrightarrow> j \<noteq> i \<and> map_of m j = Some k"
  by (simp add: delete_conv')

lemma requests_ok_delete:
  "requests_ok cl \<Longrightarrow> requests_ok (cl\<lparr>cl_async_manager := AList.delete i (cl_async_manager cl)\<rparr>)"
  by (simp add: requests_ok_def Map_wf_def distinct_delete delete_map_of del: map_of_eq_Some_iff) blast

lemma pop_async_inv: "client_inv cl \<Longrightarrow> client_inv (fst (pop_async i cl))"
  using requests_ok_delete [of cl i] inv_cong(1) [of cl "fst (pop_async i cl)"] inv_cong(2) [of cl "fst (pop_async i cl)"]
  by (auto simp: pop_async_def client_inv_def split: option.splits)

lemma async_update_same: "same_tables cl (async_update a f cl)"
  by (simp add: same_tables_def async_update_def)

lemma requests_ok_post:
  assumes "requests_ok cl" "map_of (cl_async_manager cl) i = None"
  shows "requests_ok (cl\<lparr>cl_asyncs := cl_asyncs cl @ [r],
    cl_async_manager := AList.update i (length (cl_asyncs cl)) (cl_async_manager cl)\<rparr>)"
proof -
  let ?m = "AList.update i (length (cl_asyncs cl)) (cl_async_manager cl)"
  have old: "map_of (cl_async_manager cl) j = Some a \<Longrightarrow> a < length (cl_asyncs cl)" for j a
    using assms(1) by (auto simp: requests_ok_def)
  have upd: "map_of ?m j = (if j = i then Some (length (cl_asyncs cl)) else map_of (cl_async_manager cl) j)" for j
    by (simp add: update_conv')
  have "a < Suc (length (cl_asyncs cl))" if "map_of ?m j = Some a" for j a
    using that old [of j a] by (auto simp: upd split: if_splits)
  moreover have "j = k" if "map_of ?m j = Some a" "map_of ?m k = Some a" for j k a
    using that assms(1) old [of j a] old [of k a] unfolding upd requests_ok_def by (auto split: if_splits)
  ultimately show ?thesis using assms(1) by (simp add: requests_ok_def Map_wf_def distinct_update)
qed

lemma post_async_inv: "client_inv cl \<Longrightarrow> post_async i rsp cl = (cl', a) \<Longrightarrow> client_inv cl'"
  using requests_ok_post [of cl i "AsyncRequest_new rsp"] inv_cong(1) [of cl cl'] inv_cong(2) [of cl cl']
  by (auto simp: post_async_def client_inv_def split: option.splits)

lemma request_send_inv:
  assumes "request_send fill req rsp cl = Ok (req_id, a, cl', calls)" "client_inv cl"
  shows "client_inv cl'"
proof -
  let ?cl0 = "cl\<lparr>cl_request_id := cl_request_id cl + 1\<rparr>"
  obtain cl1 b where post: "post_async (cl_request_id cl + 1) rsp ?cl0 = (cl1, b)" by fastforce
  have "client_inv ?cl0" by (rule same_tables_inv [OF _ assms(2)]) (simp add: same_tables_def)
  then have "client_inv cl1" using post_async_inv post by blast
  moreover have "same_tables cl1 cl'"
    using assms(1) post by (auto simp: request_send_def Let_def obind_eq_Ok dest: client_send_meta_same)
  ultimately show ?thesis using same_tables_inv by blast
qed

lemma sessions_ok_delete:
  "sessions_ok cl \<Longrightarrow> sessions_ok (cl\<lparr>cl_session_map := AList.delete i (cl_session_map cl)\<rparr>)"
  by (simp add: sessions_ok_def Map_wf_def distinct_delete delete_map_of del: map_of_eq_Some_iff) blast

lemma client_erase_session_inv:
  assumes "client_erase_session i cl = Ok cl'" "client_inv cl"
  shows "client_inv cl'"
proof -
  have eq: "cl' = cl\<lparr>cl_session_map := AList.delete i (cl_session_map cl)\<rparr>"
    using assms(1) by (auto simp: client_erase_session_def obind_eq_Ok Map_pop_def Map_pop_eid_def eco_error_def split: option.splits if_splits)
  show ?thesis
    using assms(2) sessions_ok_delete [of cl i] inv_cong(1) [of cl cl'] inv_cong(3) [of cl cl'] eq by (auto simp: client_inv_def)
qed

lemma client_on_close_inv: "client_inv cl \<Longrightarrow> client_inv (fst (client_on_close cl))"
  using inv_cong(1) [of cl "fst (client_on_close cl)"] inv_cong(3) [of cl "fst (client_on_close cl)"]
  by (auto simp: client_on_close_def client_inv_def sessions_ok_def Map_clear_def Map_wf_def)

lemma send_authorities_same: "send_authorities ks cl = Ok (cl', calls) \<Longrightarrow> same_tables cl cl'"
proof (induction ks arbitrary: cl cl' calls)
  case (Cons k ks)
  then show ?case by (auto simp: obind_eq_Ok intro: same_tables_trans dest!: client_async_send_same)
qed simp

lemma client_on_connect_same: "client_on_connect cl = Ok (cl', calls) \<Longrightarrow> same_tables cl cl'"
  by (auto simp: client_on_connect_def obind_eq_Ok send_authorities_same)

lemma client_on_read_same: "client_on_read data cl = Ok cl' \<Longrightarrow> same_tables cl cl'"
  by (auto simp: client_on_read_def same_tables_def split: option.splits outcome.splits)

lemma run_client_actions_inv: "run_client_actions acts cl = Ok (cl', calls) \<Longrightarrow> client_inv cl \<Longrightarrow> client_inv cl'"
proof (induction acts cl arbitrary: cl' calls rule: run_client_actions.induct)
  case (2 acts cl)
  then show ?case using same_tables_inv [OF client_on_connect_same, of cl] by (fastforce simp: obind_eq_Ok)
next
  case (3 data acts cl)
  then show ?case using same_tables_inv [OF client_on_read_same, of data cl] by (fastforce simp: obind_eq_Ok)
next
  case (4 c acts cl)
  then show ?case using client_on_close_inv [of cl] by (auto simp: obind_eq_Ok Let_def split: prod.splits)
qed (auto simp: obind_eq_Ok)

lemma client_event_inv:
  assumes "client_event event cl = Ok (cl', calls)" "client_inv cl"
  shows "client_inv cl'"
proof (cases "cl_peer cl")
  case (Some p)
  have "same_tables cl (cl\<lparr>cl_peer := Some q\<rparr>)" for q using Some by (simp add: same_tables_def)
  then have "client_inv (cl\<lparr>cl_peer := Some q\<rparr>)" for q using same_tables_inv assms(2) by blast
  then show ?thesis using assms(1) Some by (auto simp: client_event_def obind_eq_Ok dest: run_client_actions_inv)
qed (use assms in \<open>auto simp: client_event_def\<close>)

lemma client_on_timer_inv:
  assumes "client_on_timer resolve i err cl = Ok (cl', calls, ex)" "client_inv cl"
  shows "client_inv cl'"
proof -
  have "same_tables cl (cl\<lparr>cl_option := opt\<rparr>)" for opt by (simp add: same_tables_def)
  then have o: "client_inv (cl\<lparr>cl_option := opt\<rparr>)" for opt using same_tables_inv assms(2) by blast
  show ?thesis
    using assms o client_async_connect_inv same_tables_inv [OF client_send_heartbeat_same]
    by (fastforce simp: client_on_timer_def Let_def obind_eq_Ok split: if_splits)
qed


lemma sessions_ok_authority:
  assumes "sessions_ok cl" "find_authority cl key = Some k" "i \<noteq> none_session"
  shows "sessions_ok (cl\<lparr>cl_packs := (cl_packs cl)[k := (cl_packs cl ! k)\<lparr>pk_session := s\<rparr>],
     cl_session_map := Map_set (cl_session_map cl) i k\<rparr>)"
proof -
  have k: "k < length (cl_packs cl)" using assms(1,2) by (auto simp: sessions_ok_def find_authority_def)
  have users: "map pk_user ((cl_packs cl)[k := (cl_packs cl ! k)\<lparr>pk_session := s\<rparr>]) = map pk_user (cl_packs cl)"
    by (simp add: map_list_update_same)
  have upd: "map_of (AList.update i k (cl_session_map cl)) j = (if j = i then Some k else map_of (cl_session_map cl) j)" for j
    by (simp add: update_conv')
  have "sessions_ok (cl\<lparr>cl_session_map := Map_set (cl_session_map cl) i k\<rparr>)"
    using assms(1,3) k unfolding sessions_ok_def by (simp add: Map_set_def upd Map_wf_def distinct_update)
  then show ?thesis by (rule inv_cong(2)) (simp_all add: users)
qed

lemma handle_authority_inv:
  assumes "handle_authority alive c cl = (c', cl', ok)" "client_inv cl"
  shows "client_inv cl'"
proof (cases "cl' = cl")
  case False
  then obtain k where k: "find_authority cl (m_request_data (cc_meta c)) = Some k"
    "m_session_id (cc_meta c) \<noteq> none_session"
    "cl' = cl\<lparr>cl_packs := (cl_packs cl)[k := (cl_packs cl ! k)\<lparr>pk_session :=
         (m_session_id (cc_meta c), snd (pk_session (cl_packs cl ! k)))\<rparr>],
       cl_session_map := Map_set (cl_session_map cl) (m_session_id (cc_meta c)) k\<rparr>"
    using assms(1) by (auto simp: handle_authority_def Let_def split: if_splits option.splits)
  show ?thesis
    using assms(2) sessions_ok_authority [OF _ k(1,2), of "(m_session_id (cc_meta c), snd (pk_session (cl_packs cl ! k)))"]
      inv_cong(1) [of cl cl'] inv_cong(3) [of cl cl'] k(3) by (auto simp: client_inv_def)
qed (use assms in simp)

lemma handle_sync_inv: "client_inv cl \<Longrightarrow> client_inv (handle_sync c cl)"
  using pop_async_inv [of cl "get_req4 (cc_meta c)"]
  by (auto simp: handle_sync_def Let_def intro: same_tables_inv [OF async_update_same] split: prod.splits option.splits)

lemma handle_client_context_inv:
  "handle_client_context alive c cl = (c', cl', ok) \<Longrightarrow> client_inv cl \<Longrightarrow> client_inv cl'"
  by (auto simp: handle_client_context_def Let_def intro: handle_sync_inv
      dest: handle_authority_inv split: if_splits prod.splits)

lemma handle_client_context_peer: "handle_client_context alive c cl = (c', cl', ok) \<Longrightarrow> cl_peer cl' = cl_peer cl"
  by (auto simp: handle_client_context_def handle_authority_def handle_sync_def pop_async_def async_update_def Let_def
      split: if_splits prod.splits option.splits)

lemma set_peer_same: "cl_peer cl \<noteq> None \<Longrightarrow> same_tables cl (cl\<lparr>cl_peer := Some q\<rparr>)"
  by (auto simp: same_tables_def)

lemma client_dispatch_inv:
  assumes "client_dispatch alive dc cl = Ok (cl', ctx)" "client_inv cl"
  shows "client_inv cl'"
proof (cases "cl_peer cl")
  case (Some p)
  have set: "client_inv cl1 \<Longrightarrow> cl_peer cl1 = Some p \<Longrightarrow> client_inv (cl1\<lparr>cl_peer := Some q\<rparr>)" for cl1 :: "'a Client" and q
    using same_tables_inv [OF set_peer_same] by auto
  have h: "client_inv cl1 \<and> cl_peer cl1 = Some p" if "handle_client_context alive c cl = (c1, cl1, ok)" for c c1 cl1 ok
    using handle_client_context_inv [OF that assms(2)] handle_client_context_peer [OF that] Some by simp
  show ?thesis
    using assms Some by (auto simp: client_dispatch_def Let_def intro: set dest!: h
        split: if_splits option.splits outcome.splits prod.splits)
qed (use assms in \<open>auto simp: client_dispatch_def\<close>)

lemma client_step_inv: "client_step cl cl' \<Longrightarrow> client_inv cl \<Longrightarrow> client_inv cl'"
proof (induction rule: client_step.induct)
  case (cs_address addr cl cl')
  then obtain cl1 where cl1: "client_update_address addr cl = Ok cl1"
    "cl' = cl1\<lparr>cl_option := (cl_option cl1)\<lparr>co_service_name := as_name addr\<rparr>\<rparr>"
    by (auto simp: client_set_address_def obind_eq_Ok)
  have "same_tables cl1 cl'" unfolding cl1(2) by (simp add: same_tables_def)
  then show ?case
    using same_tables_inv [OF same_tables_trans [OF client_update_address_same [OF cl1(1)]]] cs_address.prems by blast
next
  case (cs_connect resolve i cl cl' calls ex)
  then show ?case
    using client_async_connect_inv [of resolve i "client_init cl"] client_init_inv [of cl]
    by (auto simp: TcpClient_async_connect_def)
next
  case (cs_connect_addr resolve i addr cl cl' calls ex)
  then show ?case
    using client_async_connect_inv [of resolve i] same_tables_inv [OF client_update_address_same client_init_inv]
    by (fastforce simp: TcpClient_async_connect_addr_def obind_eq_Ok)
next
  case (cs_auth ptr fill alive1 sess meta cl cl' calls)
  then show ?case
    by (auto simp: ClientSession_async_auth_def intro: same_tables_inv [OF client_async_auth_same] split: if_splits)
next
  case (cs_close_session sess cl sess' cl')
  then show ?case
    by (auto simp: ClientSession_close_def Let_def obind_eq_Ok intro: client_erase_session_inv split: if_splits)
next
  case (cs_request_wait t a cl cl' ev)
  then show ?case
    by (auto simp: request_wait_def intro: same_tables_inv [OF async_update_same] split: prod.splits)
next
  case (cs_request_return req_id result cl cl' r)
  then show ?case using pop_async_inv [of cl req_id] by (auto simp: request_return_def split: if_splits)
next
  case (cs_option cl opt)
  show ?case by (rule same_tables_inv [OF _ cs_option]) (simp add: same_tables_def)
next
  case (cs_event cl oc od)
  show ?case by (rule same_tables_inv [OF _ cs_event]) (simp add: same_tables_def)
next
  case (cs_session_data cl mk)
  show ?case by (rule same_tables_inv [OF _ cs_session_data]) (simp add: same_tables_def)
next
  case (cs_protocol_head cl v)
  then show ?case
    using inv_cong(2) [of cl "client_set_protocol_head v cl"] inv_cong(3) [of cl "client_set_protocol_head v cl"]
    by (simp add: client_set_protocol_head_def client_inv_def started_ok_def)
next
  case (cs_protocol cl v)
  then show ?case
    using inv_cong(2) [of cl "client_set_protocol v cl"] inv_cong(3) [of cl "client_set_protocol v cl"]
    by (simp add: client_set_protocol_def client_inv_def started_ok_def)
next
  case (cs_request_wake cl a ev m)
  then show ?case using same_tables_inv [OF async_update_same] by blast
qed (auto intro: same_tables_inv [OF client_async_send_same] same_tables_inv [OF client_send_meta_same]
      client_close_inv client_open_session_inv request_send_inv client_event_inv client_on_timer_inv client_dispatch_inv)

lemma client_reach_inv: "client_reach cl \<Longrightarrow> client_inv cl"
proof (induction rule: client_reach.induct)
  case client_start
  show ?case
    by (simp add: client_inv_def started_ok_def sessions_ok_def requests_ok_def Client_new_def Map_wf_def
        State_is_ok_def State_has_def State_no_def)
qed (rule client_step_inv)

section \<open>Properties\<close>

lemma list_all_map_of:
  "distinct (map fst m) \<Longrightarrow> list_all (\<lambda>(k, v). P k v) m \<longleftrightarrow> (\<forall>k v. map_of m k = Some v \<longrightarrow> P k v)"
  by (auto simp: list_all_iff)

text \<open>
  Claim C12. The state of a client is well formed after any sequence of operations: a started client has a
  peer and both protocols, every entry of a table names an object that exists, a session is filed
  under the key of its own user handle, and no two waiting requests share an object.
\<close>

theorem client_well_formed:
  assumes "client_reach cl"
  shows "(State_is_ok (cl_init cl) \<longleftrightarrow> cl_peer cl \<noteq> None)
    \<and> (cl_peer cl = None \<or> cl_prot_head cl \<noteq> None \<and> cl_protocol cl \<noteq> None)
    \<and> list_all (\<lambda>(u, k). k < length (cl_packs cl) \<and> pk_user (cl_packs cl ! k) = u \<and> u \<noteq> 0) (cl_authority_map cl)
    \<and> list_all (\<lambda>(i, k). k < length (cl_packs cl) \<and> i \<noteq> none_session) (cl_session_map cl)
    \<and> list_all (\<lambda>(i, a). a < length (cl_asyncs cl)) (cl_async_manager cl)
    \<and> distinct (map snd (cl_async_manager cl))"
proof -
  have inv: "started_ok cl" "sessions_ok cl" "requests_ok cl"
    using client_reach_inv [OF assms] by (simp_all add: client_inv_def)
  have wf: "distinct (map fst (cl_authority_map cl))" "distinct (map fst (cl_session_map cl))"
    "distinct (map fst (cl_async_manager cl))"
    using inv by (simp_all add: sessions_ok_def requests_ok_def Map_wf_def)
  have "inj_on snd (set (cl_async_manager cl))"
  proof (rule inj_onI)
    fix x y assume xy: "x \<in> set (cl_async_manager cl)" "y \<in> set (cl_async_manager cl)" "snd x = snd y"
    then have "map_of (cl_async_manager cl) (fst x) = Some (snd x)" "map_of (cl_async_manager cl) (fst y) = Some (snd x)"
      using wf(3) by (metis map_of_is_SomeI prod.collapse)+
    then show "x = y" using inv(3) xy(3) unfolding requests_ok_def by (metis prod.collapse)
  qed
  then have d: "distinct (map snd (cl_async_manager cl))" using wf(3) by (simp add: distinct_map)
  show ?thesis
    using inv d unfolding started_ok_def sessions_ok_def requests_ok_def list_all_map_of [OF wf(1)]
      list_all_map_of [OF wf(2)] list_all_map_of [OF wf(3)] by blast
qed

text \<open>
  Claim C13. A response reaches exactly the request it answers: the waiting threads of that request are woken
  and find success and the decoded body, the request is no longer waiting, every other request is
  untouched, and the message does not go to the user's handler.
\<close>

theorem response_reaches_request:
  assumes "client_reach cl" "map_of (cl_async_manager cl) i = Some a"
    and "mon_task_count (ar_monitor (cl_asyncs cl ! a)) = 1"
    and "get_req4 (cc_meta c) = i" "m_session_id (cc_meta c) = none_session"
    and "eco_has (m_category (cc_meta c)) category_sync" "\<not> eco_has (m_category (cc_meta c)) category_authority"
    and "cc_message c = (pos, n)" "take (unat n) (drop pos (cc_data c)) = body" "ar_decode (cl_asyncs cl ! a) body"
  shows "\<exists>cl'. handle_client_context alive c cl = (c, cl', False)
    \<and> ar_response (cl_asyncs cl' ! a) = Some body
    \<and> mon_waiting (ar_monitor (cl_asyncs cl' ! a)) = []
    \<and> mon_woken (ar_monitor (cl_asyncs cl' ! a)) =
        mon_woken (ar_monitor (cl_asyncs cl ! a)) @ mon_waiting (ar_monitor (cl_asyncs cl ! a))
    \<and> wait_result (ar_monitor (cl_asyncs cl' ! a)) = eco_ok
    \<and> map_of (cl_async_manager cl') = (map_of (cl_async_manager cl))(i := None)
    \<and> (\<forall>b. b = a \<or> cl_asyncs cl' ! b = cl_asyncs cl ! b)
    \<and> handle_client_context alive c cl' = (c, cl', False)"
proof -
  have a: "a < length (cl_asyncs cl)"
    using client_reach_inv [OF assms(1)] assms(2) by (auto simp: client_inv_def requests_ok_def)
  let ?r = "cl_asyncs cl ! a"
  let ?r' = "?r\<lparr>ar_response := Some body, ar_monitor := Monitor_finish_one (ar_monitor ?r)\<rparr>"
  let ?cl' = "cl\<lparr>cl_async_manager := AList.delete i (cl_async_manager cl), cl_asyncs := (cl_asyncs cl)[a := ?r']\<rparr>"
  have step: "handle_client_context alive c cl = (c, ?cl', False)"
    using assms(2,4-10)
    by (simp add: handle_client_context_def handle_sync_def pop_async_def async_update_def Let_def)
  have gone: "map_of (AList.delete i (cl_async_manager cl)) = (map_of (cl_async_manager cl))(i := None)"
    by (simp add: delete_conv')
  have again: "handle_client_context alive c ?cl' = (c, ?cl', False)"
    using assms(4-7) by (simp add: handle_client_context_def handle_sync_def pop_async_def Let_def gone)
  have fin: "Monitor_finish_one (ar_monitor ?r) = notify_all ((ar_monitor ?r)\<lparr>mon_task_count := 0\<rparr>)"
    using assms(3) by (simp add: Monitor_finish_one_def Let_def)
  show ?thesis
    using step again gone a by (intro exI [of _ ?cl']) (simp add: fin notify_all_def wait_result_def nth_list_update)
qed

text \<open>Sending a request puts a fresh object into the table, unless one still waits under its number.\<close>

lemma request_send_posts:
  assumes "request_send fill req rsp cl = Ok (i, a, cl', calls)" "map_of (cl_async_manager cl) (cl_request_id cl + 1) = None"
  shows "i = cl_request_id cl + 1" "map_of (cl_async_manager cl') i = Some a" "a = length (cl_asyncs cl)"
proof -
  obtain cl1 b where post: "post_async (cl_request_id cl + 1) rsp (cl\<lparr>cl_request_id := cl_request_id cl + 1\<rparr>) = (cl1, b)"
    by fastforce
  have "i = cl_request_id cl + 1" "a = b" "same_tables cl1 cl'"
    using assms(1) post by (auto simp: request_send_def Let_def obind_eq_Ok dest: client_send_meta_same)
  then show "i = cl_request_id cl + 1" "map_of (cl_async_manager cl') i = Some a" "a = length (cl_asyncs cl)"
    using post assms(2) by (auto simp: post_async_def same_tables_def update_conv')
qed


text \<open>
  Losing the connection drops all sessions of the client; closing one of them then throws, before
  the handle of the session is cleared.
\<close>

lemma close_after_disconnect:
  assumes "cs_id sess \<noteq> none_session" "cs_owner sess = ClientOwner"
  shows "ClientSession_close sess (fst (client_on_close cl)) = Err eco_error"
  using assms by (simp add: ClientSession_close_def client_on_close_def client_erase_session_def Map_clear_def
      Map_pop_def Map_pop_eid_def eco_error_def Let_def)

text \<open>
  Closing a session leaves its stored request for authority: the next connection sends it again.
\<close>

lemma closed_session_reauthorized:
  "ClientSession_close sess cl = Ok (sess', cl') \<Longrightarrow> cl_authority_map cl' = cl_authority_map cl \<and> cl_packs cl' = cl_packs cl"
  by (auto simp: ClientSession_close_def client_erase_session_def Let_def obind_eq_Ok split: if_splits)

section \<open>A sample client\<close>

definition sample_client :: "u32 Client" where
  "sample_client = Client_new\<lparr>cl_make_session := Some (\<lambda>i c. i),
     cl_address_set := [(AddressLoad_of (sample_address 65))\<lparr>al_flag := 1\<rparr>]\<rparr>"

definition sample_started :: "u32 Client" where
  "sample_started = (client_init sample_client)\<lparr>cl_peer := Some (TcpPeer_make 9), cl_init := State_ok State_no,
     cl_address_cur := (AddressLoad_of (sample_address 65))\<lparr>al_flag := 1, al_workload := 1\<rparr>,
     cl_address_set := [(AddressLoad_of (sample_address 65))\<lparr>al_flag := 1, al_workload := 1\<rparr>]\<rparr>"

lemma TcpPeer_make_state: "\<not> connected (p_state (TcpPeer_make i))"
  by (simp add: TcpPeer_make_def connected_def set_self_live_def State_set_def State_del_def TcpState_init_def
      State_no_def)

lemma sample_client_reach: "client_reach sample_client"
proof -
  let ?cl = "Client_new\<lparr>cl_make_session := Some (\<lambda>i c. i)\<rparr> :: u32 Client"
  have "client_reach ?cl" by (rule client_more [OF client_reach.client_start cs_session_data])
  moreover have "client_set_address \<lparr>as_mode = 0, as_name = [], as_items = [sample_address 65]\<rparr> ?cl = Ok sample_client"
    by (simp add: client_set_address_def client_update_address_def LoadBalancer_update_address_def Client_new_def
        sample_client_def TcpClientOption_init_def co_reset_tick_def)
  ultimately show ?thesis using client_more cs_address by blast
qed

lemma sample_started_reach: "client_reach sample_started"
proof -
  have "TcpClient_async_connect (\<lambda>_. 0) 9 sample_client = Ok (sample_started,
     [WorkerRun, DispatcherRun, RegisterTimer, CSetTimer 5, CPeer CloseSocket, AsyncConnect (sample_address 65)], 0)"
    by (simp add: TcpClient_async_connect_def client_async_connect_def connect_error_def client_start_def client_connect_def
        LoadBalancer_connect_def balance_charge_def balance_pick_def Let_def TcpPeer_make_state
        sample_started_def sample_client_def Client_new_def client_init_def TcpClientOption_init_def co_reset_tick_def
        client_set_tick_timer_def co_has_tick_timer_def client_set_protocol_def client_set_protocol_head_def
        State_is_ok_def State_has_def State_no_def)
  then show ?thesis using client_more [OF sample_client_reach cs_connect] by blast
qed

definition sample_session :: "u32 Client" where
  "sample_session = set_authority 77 0 (sample_started\<lparr>cl_packs := [\<lparr>pk_request = [], pk_request_start = 0,
     pk_session = (0, 0), pk_user = 77, pk_request_data = 0, pk_auto_login = 0\<rparr>]\<rparr>)"

lemma sample_session_reach: "client_reach sample_session"
proof -
  have "client_open_session 77 sample_started = Ok (\<lparr>cs_conn = TcpConnection_new\<lparr>tc_peer := Some 9,
     tc_prot := Some TcpProtocol_protocol\<rparr>, cs_id = none_session, cs_pack = Some 0, cs_owner = ClientOwner,
     cs_user = Some 77\<rparr>, sample_session)"
    by (simp add: client_open_session_def sample_session_def sample_started_def sample_client_def Client_new_def
        client_init_def TcpClientOption_init_def co_reset_tick_def client_set_protocol_def client_set_protocol_head_def
        TcpPeer_make_def none_session_def Let_def)
  then show ?thesis using client_more [OF sample_started_reach cs_open_session, of 77] by simp
qed

lemma client_well_formed_witness:
  "list_all (\<lambda>(u, k). k < length (cl_packs sample_session) \<and> pk_user (cl_packs sample_session ! k) = u \<and> u \<noteq> 0)
     (cl_authority_map sample_session) \<and> cl_authority_map sample_session = [(77, 0)]"
  using client_well_formed [OF sample_session_reach]
  by (simp add: sample_session_def set_authority_def sample_started_def sample_client_def Client_new_def client_init_def
      TcpClientOption_init_def co_reset_tick_def client_set_protocol_def client_set_protocol_head_def)


text \<open>A client with a request that a thread waits for, and its response.\<close>

definition sample_response :: ClientContext where
  "sample_response = \<lparr>cc_data = [7], cc_message = (0, 1),
     cc_meta = MessageMeta_new\<lparr>m_category := ucast (category_message OR category_sync), m_request_data := 1\<rparr>,
     cc_session = \<lparr>cs_conn = TcpConnection_new, cs_id = none_session, cs_pack = None, cs_owner = ClientOwner, cs_user = None\<rparr>\<rparr>"

lemma sample_request_sent:
  "\<exists>cl' calls. request_send (\<lambda>_. 0) sample_meta (\<lambda>b. b = [7]) sample_started = Ok (1, 0, cl', calls)
     \<and> cl_asyncs cl' = [AsyncRequest_new (\<lambda>b. b = [7])] \<and> cl_async_manager cl' = [(1, 0)]"
proof -
  have bc: "body_codec (StringCodec [104, 105]) [104, 105]" by (rule StringCodec_body) simp
  let ?m = "set_request_data4 1 sample_meta"
  have "m_codec (?m\<lparr>m_category := eco_add (m_category ?m) category_sync\<rparr>) = Some (StringCodec [104, 105])"
    using sample_meta_fields(1) by (simp add: set_request_data4_def)
  from TcpProtocol_encode_wire [OF this bc, of "\<lambda>_. 0"]
  show ?thesis
    by (simp add: request_send_def Let_def post_async_def client_send_meta_def client_async_send_def async_send_def
        sample_started_def sample_client_def Client_new_def client_init_def TcpClientOption_init_def co_reset_tick_def
        client_set_protocol_def client_set_protocol_head_def TcpProtocol_protocol_def)
qed

lemma response_reaches_request_witness:
  "\<exists>(cl :: u32 Client) cl'. client_reach cl \<and> mon_waiting (ar_monitor (cl_asyncs cl ! 0)) = [(8, True)]
    \<and> handle_client_context (\<lambda>_. True) sample_response cl = (sample_response, cl', False)
    \<and> ar_response (cl_asyncs cl' ! 0) = Some [7] \<and> mon_woken (ar_monitor (cl_asyncs cl' ! 0)) = [(8, True)]"
proof -
  obtain cl1 calls where send: "request_send (\<lambda>_. 0) sample_meta (\<lambda>b. b = [7]) sample_started = Ok (1, 0, cl1, calls)"
    "cl_asyncs cl1 = [AsyncRequest_new (\<lambda>b. b = [7])]" "cl_async_manager cl1 = [(1, 0)]"
    using sample_request_sent by blast
  define cl where "cl = fst (request_wait 8 0 cl1)"
  have "client_reach cl1" using client_more [OF sample_started_reach cs_request_send [OF send(1)]] .
  then have reach: "client_reach cl"
    using client_more cs_request_wait unfolding cl_def by (metis prod.collapse)
  have r: "cl_asyncs cl = [(AsyncRequest_new (\<lambda>b. b = [7]))\<lparr>ar_monitor := (Monitor_new 1)\<lparr>mon_waiting := [(8, True)]\<rparr>\<rparr>]"
    "cl_async_manager cl = [(1, 0)]"
    using send(2,3) by (simp_all add: cl_def request_wait_def async_update_def AsyncRequest_new_def Monitor_timed_wait_def
        Monitor_new_def word_sless_alt)
  have "\<exists>cl'. handle_client_context (\<lambda>_. True) sample_response cl = (sample_response, cl', False)
    \<and> ar_response (cl_asyncs cl' ! 0) = Some [7] \<and> mon_woken (ar_monitor (cl_asyncs cl' ! 0)) = [(8, True)]"
    using response_reaches_request [OF reach, of 1 0 sample_response 0 1 "[7]" "\<lambda>_. True"] r
    by (simp add: sample_response_def get_req4_def eco_has_def category_defs MessageMeta_new_def none_session_def
        AsyncRequest_new_def Monitor_new_def) blast
  moreover have "mon_waiting (ar_monitor (cl_asyncs cl ! 0)) = [(8, True)]" using r(1) by simp
  ultimately show ?thesis using reach by blast
qed

end
