(* ===== verification/Eco_Authority.thy ===== *)
theory Eco_Authority
  imports Eco_ClientInv Eco_ServerInv
begin

text \<open>
  Client and server together: how a client gets a session, over the wire. The client sends a
  request for authority that carries the key of its session as request data; the server's handler
  opens a session and answers; the client files its session under the id in the answer.

  The key is an address. Four bytes of it travel unharmed; the eight bytes of a 64 bit platform do
  not, as the byte order conversion of a 64 bit integer loses half of it.
\<close>

section \<open>What the client reads\<close>

lemma read_keeps_id:
  "on_read_head fill h hdr n False p = Ok (p1, [ReadData buf m]) \<Longrightarrow> p_id p1 = p_id p"
  "ready (p_state p) \<Longrightarrow> on_read_data junk h d False p = Ok (p2, acts) \<Longrightarrow> p_id p2 = p_id p"
  by (auto simp: on_read_head_def on_read_data_def Let_def async_recv_def close_and_notify_def peer_close_def
      split: outcome.splits if_splits)

lemma client_on_read_message:
  assumes "take 2 data = [1, ucast cat]" "cat < 128" "eco_has cat category_message" "\<not> eco_has cat category_heartbeat"
    and "cl_prot_head cl = Some TcpProtocolHead" "cl_peer cl = Some p"
  shows "client_on_read data cl = Ok (cl\<lparr>cl_posted := cl_posted cl @
     [\<lparr>dc_category = cat, dc_data = data, dc_peer = p_id p, dc_prot = cl_protocol cl\<rparr>]\<rparr>)"
proof -
  obtain rest where data: "data = 1 # ucast cat # rest"
    using assms(1) by (cases data; cases "tl data") auto
  have "ph_decode TcpProtocolHead data = Ok \<lparr>head_version = TcpProtocol_version, head_category = cat\<rparr>"
    using assms(2-4) by (simp add: TcpProtocolHead_def TcpProtocolHead_decode_def data rd_def
        scast_byte_category TcpProtocol_version_def)
  then show ?thesis using assms(5,6) by (simp add: client_on_read_def)
qed

lemma client_reads_message:
  assumes "m_codec meta = Some codec" "body_codec codec payload"
    and "TcpProtocol_get_meta_size meta + length payload \<le> 65535"
    and "m_category meta < 128" "eco_has (m_category meta) category_message"
    and "\<not> eco_has (m_category meta) category_heartbeat"
    and "cl_prot_head cl = Some TcpProtocolHead" "cl_peer cl = Some p" "ready (p_state p)"
  shows "\<exists>bs buf cl1 q d. TcpProtocol_encode fill0 TcpProtocol_new meta = Ok (bs, 0)
    \<and> client_event (on_read_head fill (client_handler TcpProtocolHead cl) (take 4 bs) 4 False) cl =
        Ok (cl1, [CPeer (ReadData buf 4)]) \<and> length buf = length bs \<and> d = take 4 buf @ drop 4 bs
    \<and> client_event (on_read_data junk (client_handler TcpProtocolHead cl1) d False) cl1 =
        Ok (cl\<lparr>cl_peer := Some q, cl_posted := cl_posted cl @
          [\<lparr>dc_category = m_category meta, dc_data = d, dc_peer = p_id p, dc_prot = cl_protocol cl\<rparr>]\<rparr>, [CPeer (ReadHead 4)])
    \<and> p_id q = p_id p
    \<and> TcpProtocol_decode TcpProtocol_new meta0 d =
        Ok (received_meta fill0 meta0 meta, d, 4 + TcpProtocol_get_meta_size meta, of_nat (length payload))
    \<and> drop (4 + TcpProtocol_get_meta_size meta) d = payload"
proof -
  let ?h = "client_handler TcpProtocolHead cl"
  have nz: "ucast (m_category meta) \<noteq> (0 :: byte)"
    using assms(5) scast_byte_category [OF assms(4)] by (auto simp: eco_has_def)
  have hd: "hdl_head ?h = TcpProtocolHead" by (simp add: client_handler_def)
  obtain bs p1 buf p2 where enc: "TcpProtocol_encode fill0 TcpProtocol_new meta = Ok (bs, 0)" "length buf = length bs"
    and rh: "on_read_head fill ?h (take 4 bs) 4 False p = Ok (p1, [ReadData buf 4])"
    and rd: "on_read_data junk ?h (take 4 buf @ drop 4 bs) False p1 =
        Ok (p2, [NotifyRead (take 4 buf @ drop 4 bs), ReadHead 4])"
    and two: "take 2 (take 4 buf @ drop 4 bs) = [1, ucast (m_category meta)]"
    and dec: "TcpProtocol_decode TcpProtocol_new meta0 (take 4 buf @ drop 4 bs) =
        Ok (received_meta fill0 meta0 meta, take 4 buf @ drop 4 bs, 4 + TcpProtocol_get_meta_size meta, of_nat (length payload))"
      "drop (4 + TcpProtocol_get_meta_size meta) (take 4 buf @ drop 4 bs) = payload"
    using receives_message [OF assms(1-3) nz hd assms(9), of fill0 fill junk meta0] by blast
  have rdy: "ready (p_state p1)"
    using rh assms(9) by (auto simp: on_read_head_def Let_def async_recv_def close_and_notify_def peer_close_def flag_simps
        split: outcome.splits if_splits)
  have ids: "p_id p1 = p_id p" "p_id p2 = p_id p" using read_keeps_id(1) [OF rh] read_keeps_id(2) [OF rdy rd] by auto
  let ?cl1 = "cl\<lparr>cl_peer := Some p1\<rparr>"
  have h: "client_handler TcpProtocolHead ?cl1 = ?h" by (simp add: client_handler_def)
  have ev: "client_event (on_read_head fill ?h (take 4 bs) 4 False) cl = Ok (?cl1, [CPeer (ReadData buf 4)])"
    using rh assms(8) by (simp add: client_event_def)
  have ev2: "client_event (on_read_data junk (client_handler TcpProtocolHead ?cl1) (take 4 buf @ drop 4 bs) False) ?cl1 =
      Ok (cl\<lparr>cl_peer := Some p2, cl_posted := cl_posted cl @
          [\<lparr>dc_category = m_category meta, dc_data = take 4 buf @ drop 4 bs, dc_peer = p_id p, dc_prot = cl_protocol cl\<rparr>]\<rparr>,
        [CPeer (ReadHead 4)])"
    using rd client_on_read_message [OF two assms(4-6), of "cl\<lparr>cl_peer := Some p2\<rparr>" p2] assms(7) ids
    by (simp add: client_event_def h)
  show ?thesis
    using enc ev ev2 ids(2) dec by blast
qed

section \<open>The messages of an authority\<close>

lemma category_bound: "(x :: u16) < 128 \<Longrightarrow> y < 128 \<Longrightarrow> x OR y < 128"
  using OR_upper [of "uint x" 7 "uint y"] by (simp add: word_less_def unsigned_or_eq)

lemma auth_meta_fields:
  assumes "u < 2 ^ 32"
  shows "m_codec (auth_meta 4 u meta) = m_codec meta" "m_session_id (auth_meta 4 u meta) = 0"
    and "m_request_data (auth_meta 4 u meta) = u" "eco_has (m_option (auth_meta 4 u meta)) option_req4"
    and "m_category (auth_meta 4 u meta) = m_category meta OR 0x44"
    and "m_message_type (auth_meta 4 u meta) = m_message_type meta"
proof -
  have "ucast (ucast u :: u32) = u" using assms by (intro ucast_narrow) simp_all
  then show "m_request_data (auth_meta 4 u meta) = u"
    by (simp add: auth_meta_def set_request_data_ptr_def set_request_data4_def)
qed (simp_all add: auth_meta_def set_request_data_ptr_def set_request_data4_def flag_simps option_defs eco_add_def
    category_defs eco_has_def)

text \<open>The metadata of the answer to a request.\<close>

definition answer_meta :: "Codec \<Rightarrow> u32 \<Rightarrow> MessageMeta \<Rightarrow> bool \<Rightarrow> MessageMeta" where
  "answer_meta codec type cm is_last =
     (let m0 = MessageMeta_msg codec (m_session_id cm) type True
      in set_last is_last (set_request_data_opt (m_request_data cm) (m_option cm)
           (m0\<lparr>m_category := eco_add (m_category m0) (ucast (m_category cm))\<rparr>)))"

lemma async_response_answer:
  "async_response fill codec type cm prot is_last enc p = async_send_meta fill (answer_meta codec type cm is_last) prot p"
  by (simp add: async_response_def answer_meta_def Let_def)

lemma answer_meta_fields:
  fixes codec :: Codec and type :: u32 and is_last :: bool
  assumes "m_session_id cm = i" "i \<noteq> 0" "eco_has (m_option cm) option_req4" "m_request_data cm = u"
  defines "m \<equiv> answer_meta codec type cm is_last"
  shows "m_codec m = Some codec" "m_session_id m = i" "m_request_data m = u"
    and "eco_has (m_option m) option_sess" "eco_has (m_option m) option_req4"
    and "m_category m = 0x51 OR m_category cm"
    and "TcpProtocol_get_meta_size m = 12"
proof -
  have c: "ucast (ucast (m_category cm) :: u32) = m_category cm" by (rule ucast_ucast_id) simp
  have o: "eco_has (m_option m) option_sess" "eco_has (m_option m) option_req4" "eco_has (m_option m) option_type"
    using assms(1-3)
    by (simp_all add: m_def answer_meta_def Let_def set_last_def set_request_data_opt_def MessageMeta_msg_def
        set_message_type_def set_session_id_def MessageMeta_new_def none_session_def flag_simps option_defs
        eco_set_def eco_add_def bit_simps)
  then show "eco_has (m_option m) option_sess" "eco_has (m_option m) option_req4" "TcpProtocol_get_meta_size m = 12"
    by (simp_all add: TcpProtocol_get_meta_size_def sess_size_def type_size_def req_size_def)
  show "m_codec m = Some codec" "m_session_id m = i" "m_request_data m = u" "m_category m = 0x51 OR m_category cm"
    using assms(1,2,4) c
    by (simp_all add: m_def answer_meta_def Let_def set_last_def set_request_data_opt_def MessageMeta_msg_def
        set_message_type_def set_session_id_def MessageMeta_new_def none_session_def category_defs eco_add_def)
qed

section \<open>The steps of an authority\<close>

lemma received_low_option: "eco_has (low_byte (m_option meta)) option_req4 = eco_has (m_option meta) option_req4"
  by (simp add: flag_simps option_defs low_byte_def bit_simps)

text \<open>The client sends the request for authority and remembers the request data of its user.\<close>

lemma client_asks:
  fixes fill :: "nat \<Rightarrow> byte"
  assumes "client_open_session u cl = Ok (sess, cl0)" "u < 2 ^ 32"
    and "cl_peer cl = Some p" "connected (p_state p)" "cl_protocol cl = Some TcpProtocol_protocol"
    and "m_codec meta = Some codec" "body_codec codec payload"
  defines "bs \<equiv> wire_message fill (auth_meta 4 u meta) payload"
  shows "\<exists>cl1 k p1. client_async_auth 4 fill sess meta cl0 = Ok (cl1, [CPeer (WriteData bs 0)])
    \<and> cl_peer cl1 = Some p1 \<and> p_id p1 = p_id p \<and> (ready (p_state p1) \<longleftrightarrow> ready (p_state p))
    \<and> find_authority cl1 u = Some k \<and> pk_request_data (cl_packs cl1 ! k) = m_request_data meta
    \<and> pk_user (cl_packs cl1 ! k) = u \<and> cl_session_map cl1 = cl_session_map cl \<and> k < length (cl_packs cl1)
    \<and> cl_prot_head cl1 = cl_prot_head cl \<and> cl_protocol cl1 = cl_protocol cl \<and> cl_posted cl1 = cl_posted cl"
proof -
  have enc: "prot_encode TcpProtocol_protocol fill (auth_meta 4 u meta) = Ok (bs, 0)"
    using TcpProtocol_encode_wire [of "auth_meta 4 u meta" codec payload fill] assms(6,7) auth_meta_fields(1) [OF assms(2), of meta]
    by (simp add: TcpProtocol_protocol_def bs_def)
  obtain mk where mk: "cl_make_session cl = Some mk"
    using assms(1,3,5) by (auto simp: client_open_session_def split: option.splits)
  let ?k = "length (cl_packs cl)"
  have sess: "session_key sess = u" "find_authority cl0 u = Some ?k" "cl_peer cl0 = Some p"
    "cl_protocol cl0 = Some TcpProtocol_protocol" "length (cl_packs cl0) = Suc ?k" "pk_user (cl_packs cl0 ! ?k) = u"
    "cl_session_map cl0 = cl_session_map cl" "cl_prot_head cl0 = cl_prot_head cl" "cl_posted cl0 = cl_posted cl"
    using assms(1,3,5) mk by (auto simp: client_open_session_def Let_def session_key_def find_authority_def set_authority_def update_conv')
  let ?pack = "(cl_packs cl0 ! ?k)\<lparr>pk_request_data := m_request_data meta, pk_request := bs, pk_request_start := 0\<rparr>"
  let ?cl1 = "cl0\<lparr>cl_packs := (cl_packs cl0)[?k := ?pack], cl_peer := Some (p\<lparr>p_state := set_self_live (p_state p) True\<rparr>)\<rparr>"
  show ?thesis
    by (rule exI [of _ ?cl1], rule exI [of _ ?k], rule exI [of _ "p\<lparr>p_state := set_self_live (p_state p) True\<rparr>"])
      (use assms(3-5) enc sess in \<open>simp_all add: client_async_auth_def client_send_pack_def client_async_send_def async_send_def
        find_authority_def Let_def flag_simps\<close>)
qed

text \<open>The session of a context before anybody has opened it.\<close>

definition fresh_session :: "ConnectionId \<Rightarrow> Protocol \<Rightarrow> 'd TcpSession" where
  "fresh_session c prot = TcpSession_new\<lparr>ses_conn := \<lparr>tc_peer = Some c, tc_prot = Some prot, tc_id = c\<rparr>, ses_owner := ServerOwner\<rparr>"

lemma server_gets:
  assumes "PeerSet_find (srv_peer_set s) c = Some q" "p_id q = c"
    and "prot_decode prot (MessageMeta_new\<lparr>m_category := cat\<rparr>) d = Ok (meta, data, msg)"
    and "m_category meta = cat" "eco_has cat category_message" "\<not> eco_has cat category_heartbeat"
    and "m_session_id meta = none_session"
  shows "DispatchHandler_apply head \<lparr>dc_category = cat, dc_data = d, dc_peer = c, dc_prot = Some prot\<rparr> s =
    Ok (store_peer c (q\<lparr>p_state := set_peer_active (p_state q) True\<rparr>) s, [],
        Some \<lparr>c_data = data, c_message = Some msg, c_meta = meta, c_session = fresh_session c prot\<rparr>)"
  using assms by (simp add: DispatchHandler_apply_def Let_def handle_server_context_def fresh_session_def)

lemma server_answers:
  fixes fill :: "nat \<Rightarrow> byte" and type :: u32 and is_last :: bool
  assumes "PeerSet_find (srv_peer_set s) c = Some q" "p_id q = c"
    and "add_session (srv_make_session s) (opt_max_session_size (srv_option s)) c (srv_sessions s) = (t, Some i)"
    and "i \<noteq> 0" "c_session ctx = fresh_session c TcpProtocol_protocol" "body_codec codec payload"
  defines "bs \<equiv> wire_message fill (answer_meta codec type ((c_meta ctx)\<lparr>m_session_id := i\<rparr>) is_last) payload"
  shows "\<exists>se s1 ctx' s2. TcpSession_auth (c_session ctx) s = (se, s1, True) \<and> ses_id se = i \<and> srv_sessions s1 = t
    \<and> Context_async_response True fill head codec type is_last enc (ctx\<lparr>c_session := se\<rparr>) s1 =
        Ok (ctx', s2, [PeerCall c (WriteData bs 0)]) \<and> srv_sessions s2 = t"
proof -
  let ?se = "(fresh_session c TcpProtocol_protocol)\<lparr>ses_id := i, ses_wptr := find_session t i\<rparr>"
  let ?s1 = "s\<lparr>srv_sessions := t\<rparr>"
  let ?m = "answer_meta codec type ((c_meta ctx)\<lparr>m_session_id := i\<rparr>) is_last"
  have codec: "m_codec ?m = Some codec"
    by (simp add: answer_meta_def Let_def set_last_def set_request_data_opt_def MessageMeta_msg_def
        set_message_type_def set_session_id_def MessageMeta_new_def)
  have enc: "prot_encode TcpProtocol_protocol fill ?m = Ok (bs, 0)"
    using TcpProtocol_encode_wire [OF codec assms(6), of fill] by (simp add: TcpProtocol_protocol_def bs_def)
  have auth: "TcpSession_auth (c_session ctx) s = (?se, ?s1, True)"
    using assms(3,5) by (simp add: TcpSession_auth_def fresh_session_def TcpSession_new_def)
  have find: "PeerSet_find (srv_peer_set ?s1) c = Some q" using assms(1) by simp
  let ?q = "q\<lparr>p_state := set_self_live (p_state q) True\<rparr>"
  have resp: "Context_async_response True fill head codec type is_last enc' (ctx\<lparr>c_session := ?se\<rparr>) ?s1 =
      Ok (ctx\<lparr>c_session := ?se, c_meta := (c_meta ctx)\<lparr>m_session_id := i\<rparr>\<rparr>, store_peer c ?q ?s1, [PeerCall c (WriteData bs 0)])" for enc'
    using find enc assms(2,4)
    by (simp add: Context_async_response_def Let_def TcpSession_async_response_def none_session_def fresh_session_def
        TcpSession_new_def TcpConnection_async_response_def peer_lock_def async_response_answer async_send_meta_def async_send_def)
  show ?thesis
    using auth resp by (intro exI [of _ ?se] exI [of _ ?s1]) (auto simp: fresh_session_def store_peer_def)
qed

lemma client_accepts:
  assumes "cl_peer cl = Some p" "p_id p = c"
    and "prot_decode prot (MessageMeta_new\<lparr>m_category := cat\<rparr>) d = Ok (meta, d, msg)"
    and "m_category meta = cat" "eco_has cat category_authority" "eco_has cat category_session"
    and "eco_has cat category_message" "\<not> eco_has cat category_heartbeat" "\<not> eco_has cat category_sync"
    and "m_request_data meta = u" "u \<noteq> 0" "m_session_id meta = i" "i \<noteq> 0"
    and "find_authority cl u = Some k" "k < length (cl_packs cl)" "alive k"
  shows "\<exists>cl' ctx. client_dispatch alive \<lparr>dc_category = cat, dc_data = d, dc_peer = c, dc_prot = Some prot\<rparr> cl = Ok (cl', Some ctx)
    \<and> client_find_session cl' i = Some k \<and> fst (pk_session (cl_packs cl' ! k)) = i
    \<and> cs_id (cc_session ctx) = i \<and> cs_pack (cc_session ctx) = Some k
    \<and> cs_user (cc_session ctx) = Some (pk_user (cl_packs cl ! k))
    \<and> m_request_data (cc_meta ctx) = pk_request_data (cl_packs cl ! k) \<and> cc_message ctx = msg \<and> cc_data ctx = d"
  using assms
  by (simp add: client_dispatch_def Let_def handle_client_context_def handle_authority_def none_session_def
      client_find_session_def Map_find_def Map_set_def update_conv')

section \<open>A session is established\<close>

lemma received_auth:
  fixes fill :: "nat \<Rightarrow> byte" and meta :: MessageMeta
  assumes "u < 2 ^ 32"
  defines "m \<equiv> received_meta fill (MessageMeta_new\<lparr>m_category := m_category (auth_meta 4 u meta)\<rparr>) (auth_meta 4 u meta)"
  shows "m_category m = m_category meta OR 0x44" "m_session_id m = none_session" "m_request_data m = u"
    and "eco_has (m_option m) option_req4"
proof -
  note f = auth_meta_fields [OF assms(1), of meta]
  have "ucast (ucast u :: u32) = u" using assms(1) by (intro ucast_narrow) simp_all
  then show "m_request_data m = u" using f(3,4) by (simp add: m_def received_meta_def seen_req_def)
  show "m_category m = m_category meta OR 0x44" "m_session_id m = none_session" "eco_has (m_option m) option_req4"
    using f by (simp_all add: m_def received_meta_def MessageMeta_new_def none_session_def received_low_option)
qed

lemma received_answer:
  fixes fill :: "nat \<Rightarrow> byte" and codec :: Codec and type :: u32 and is_last :: bool
  assumes "m_session_id cm = i" "i \<noteq> 0" "eco_has (m_option cm) option_req4" "m_request_data cm = u" "u < 2 ^ 32"
  defines "a \<equiv> answer_meta codec type cm is_last"
  defines "m \<equiv> received_meta fill (MessageMeta_new\<lparr>m_category := m_category a\<rparr>) a"
  shows "m_category m = 0x51 OR m_category cm" "m_session_id m = i" "m_request_data m = u"
proof -
  note f = answer_meta_fields [OF assms(1-4), of codec type is_last, folded a_def]
  have "ucast (ucast u :: u32) = u" using assms(5) by (intro ucast_narrow) simp_all
  then show "m_request_data m = u" using f(3,5) by (simp add: m_def received_meta_def seen_req_def)
  show "m_category m = 0x51 OR m_category cm" "m_session_id m = i"
    using f by (simp_all add: m_def received_meta_def MessageMeta_new_def)
qed

lemma category_or:
  "eco_has (x OR 0x44 :: u16) category_message = eco_has x category_message"
  "eco_has (x OR 0x44 :: u16) category_heartbeat = eco_has x category_heartbeat"
  "eco_has (0x51 OR (x OR 0x44) :: u16) category_message"
  "eco_has (0x51 OR (x OR 0x44) :: u16) category_heartbeat = eco_has x category_heartbeat"
  "eco_has (0x51 OR (x OR 0x44) :: u16) category_authority"
  "eco_has (0x51 OR (x OR 0x44) :: u16) category_session"
  "eco_has (0x51 OR (x OR 0x44) :: u16) category_sync = eco_has x category_sync"
  by (simp_all add: category_defs flag_simps bit_simps)

text \<open>The metadata the server finds in a request for authority, with the session it opens for it.\<close>

definition asked_meta :: "(nat \<Rightarrow> byte) \<Rightarrow> u64 \<Rightarrow> MessageMeta \<Rightarrow> MessageMeta" where
  "asked_meta fill u meta =
     received_meta fill (MessageMeta_new\<lparr>m_category := m_category (auth_meta 4 u meta)\<rparr>) (auth_meta 4 u meta)"

definition session_answer :: "Codec \<Rightarrow> u32 \<Rightarrow> bool \<Rightarrow> SessionId \<Rightarrow> (nat \<Rightarrow> byte) \<Rightarrow> u64 \<Rightarrow> MessageMeta \<Rightarrow> MessageMeta" where
  "session_answer codec type is_last i fill u meta =
     answer_meta codec type ((asked_meta fill u meta)\<lparr>m_session_id := i\<rparr>) is_last"

lemma server_side:
  fixes s :: "'d Server"
  assumes "u < 2 ^ 32" "m_codec meta = Some codec" "body_codec codec payload"
    and "TcpProtocol_get_meta_size (auth_meta 4 u meta) + length payload \<le> 65535"
    and "m_category meta < 128" "eco_has (m_category meta) category_message"
    and "\<not> eco_has (m_category meta) category_heartbeat"
    and "srv_inv s" "PeerSet_find (srv_peer_set s) c = Some q" "ready (p_state q)"
    and "find_protocol TcpProtocol_version s = Some TcpProtocol_protocol" "srv_posted s = []"
    and "add_session (srv_make_session s) (opt_max_session_size (srv_option s)) c (srv_sessions s) = (t, Some i)" "i \<noteq> 0"
    and "body_codec rcodec rpayload"
    and "bs = wire_message fill (auth_meta 4 u meta) payload"
    and "rs = wire_message fill2 (session_answer rcodec type is_last i fill u meta) rpayload"
  shows "\<exists>buf s1 s2 dc s3 ctx se s4 ctx' s5.
      peer_event TcpProtocolHead (on_read_head fill1 (server_handler TcpProtocolHead s) (take 4 bs) 4 False) c s =
        Ok (s1, [PeerCall c (ReadData buf 4)]) \<and> length buf = length bs
    \<and> peer_event TcpProtocolHead (on_read_data junk (server_handler TcpProtocolHead s1) (take 4 buf @ drop 4 bs) False) c s1 =
        Ok (s2, [PeerCall c (ReadHead 4)])
    \<and> srv_posted s2 = [dc] \<and> DispatchHandler_apply TcpProtocolHead dc s2 = Ok (s3, [], Some ctx)
    \<and> TcpSession_auth (c_session ctx) s3 = (se, s4, True) \<and> ses_id se = i
    \<and> Context_async_response True fill2 TcpProtocolHead rcodec type is_last enc (ctx\<lparr>c_session := se\<rparr>) s4 =
        Ok (ctx', s5, [PeerCall c (WriteData rs 0)]) \<and> srv_sessions s5 = t"
proof -
  let ?am = "auth_meta 4 u meta" and ?rm = "asked_meta fill u meta"
  note af = auth_meta_fields [OF assms(1), of meta]
  note rf = received_auth [OF assms(1), of fill meta, folded asked_meta_def]
  have cat: "m_category ?am < 128" "eco_has (m_category ?am) category_message" "\<not> eco_has (m_category ?am) category_heartbeat"
    using assms(5-7) by (simp_all add: af(5) category_bound category_or)
  have codec: "m_codec ?am = Some codec" using assms(2) af(1) by simp
  obtain buf s1 s2 d q2 where srv:
      "peer_event TcpProtocolHead (on_read_head fill1 (server_handler TcpProtocolHead s) (take 4 bs) 4 False) c s =
        Ok (s1, [PeerCall c (ReadData buf 4)])" "length buf = length bs" "d = take 4 buf @ drop 4 bs"
      "peer_event TcpProtocolHead (on_read_data junk (server_handler TcpProtocolHead s1) d False) c s1 = Ok (s2, [PeerCall c (ReadHead 4)])"
    and s2: "srv_posted s2 = [\<lparr>dc_category = m_category ?am, dc_data = d, dc_peer = c, dc_prot = Some TcpProtocol_protocol\<rparr>]"
      "PeerSet_find (srv_peer_set s2) c = Some q2" "p_id q2 = c" "srv_sessions s2 = srv_sessions s"
      "srv_option s2 = srv_option s" "srv_make_session s2 = srv_make_session s"
    and dec: "TcpProtocol_decode TcpProtocol_new (MessageMeta_new\<lparr>m_category := m_category ?am\<rparr>) d =
        Ok (?rm, d, 4 + TcpProtocol_get_meta_size ?am, of_nat (length payload))"
    using server_reads_message [OF codec assms(3,4) cat assms(8-11), of fill fill1 junk
        "MessageMeta_new\<lparr>m_category := m_category ?am\<rparr>"] assms(12)
    by (auto simp: TcpProtocol_encode_wire [OF codec assms(3)] assms(16) asked_meta_def)
  have pd: "prot_decode TcpProtocol_protocol (MessageMeta_new\<lparr>m_category := m_category ?am\<rparr>) d =
      Ok (?rm, d, 4 + TcpProtocol_get_meta_size ?am, of_nat (length payload))"
    using dec by (simp add: TcpProtocol_protocol_def)
  define s3 where "s3 = store_peer c (q2\<lparr>p_state := set_peer_active (p_state q2) True\<rparr>) s2"
  define ctx :: "'d Context" where "ctx = \<lparr>c_data = d, c_message = Some (4 + TcpProtocol_get_meta_size ?am, of_nat (length payload)),
      c_meta = ?rm, c_session = fresh_session c TcpProtocol_protocol\<rparr>"
  have disp: "DispatchHandler_apply TcpProtocolHead
      \<lparr>dc_category = m_category ?am, dc_data = d, dc_peer = c, dc_prot = Some TcpProtocol_protocol\<rparr> s2 = Ok (s3, [], Some ctx)"
    unfolding s3_def ctx_def using server_gets [OF s2(2,3) pd _ cat(2,3)] rf(1,2) af(5) by simp
  have s3: "PeerSet_find (srv_peer_set s3) c = Some (q2\<lparr>p_state := set_peer_active (p_state q2) True\<rparr>)"
    "add_session (srv_make_session s3) (opt_max_session_size (srv_option s3)) c (srv_sessions s3) = (t, Some i)"
    using s2(4-6) assms(13) by (simp_all add: s3_def store_peer_def PeerSet_find_def update_conv')
  obtain se s4 ctx' s5 where ans: "TcpSession_auth (c_session ctx) s3 = (se, s4, True)" "ses_id se = i"
      "Context_async_response True fill2 TcpProtocolHead rcodec type is_last enc (ctx\<lparr>c_session := se\<rparr>) s4 =
        Ok (ctx', s5, [PeerCall c (WriteData rs 0)])" "srv_sessions s5 = t"
    using server_answers [OF s3(1) _ s3(2) assms(14) _ assms(15), of ctx fill2 TcpProtocolHead type is_last enc] s2(3)
    by (auto simp: ctx_def assms(17) session_answer_def)
  show ?thesis
    using srv(1,2) srv(4) [unfolded srv(3)] s2(1) disp ans by blast
qed

lemma client_side:
  fixes cl1 :: "'c Client"
  assumes "cl_peer cl1 = Some p1" "ready (p_state p1)" "find_authority cl1 u = Some k" "k < length (cl_packs cl1)"
    and "cl_prot_head cl1 = Some TcpProtocolHead" "cl_protocol cl1 = Some TcpProtocol_protocol"
    and "0 < u" "u < 2 ^ 32" "i \<noteq> 0" "alive k" "body_codec rcodec rpayload" "12 + length rpayload \<le> 65535"
    and "m_category meta < 128" "\<not> eco_has (m_category meta) category_heartbeat" "\<not> eco_has (m_category meta) category_sync"
    and "rs = wire_message fill2 (session_answer rcodec type is_last i fill u meta) rpayload"
  shows "\<exists>rbuf cl2 cl3 rdc cl4 cctx.
      client_event (on_read_head fill3 (client_handler TcpProtocolHead cl1) (take 4 rs) 4 False) cl1 =
        Ok (cl2, [CPeer (ReadData rbuf 4)]) \<and> length rbuf = length rs
    \<and> client_event (on_read_data junk' (client_handler TcpProtocolHead cl2) (take 4 rbuf @ drop 4 rs) False) cl2 =
        Ok (cl3, [CPeer (ReadHead 4)])
    \<and> cl_posted cl3 = cl_posted cl1 @ [rdc] \<and> client_dispatch alive rdc cl3 = Ok (cl4, Some cctx)
    \<and> client_find_session cl4 i = Some k \<and> fst (pk_session (cl_packs cl4 ! k)) = i
    \<and> cs_id (cc_session cctx) = i \<and> cs_pack (cc_session cctx) = Some k
    \<and> cs_user (cc_session cctx) = Some (pk_user (cl_packs cl1 ! k))
    \<and> m_request_data (cc_meta cctx) = pk_request_data (cl_packs cl1 ! k)
    \<and> take (unat (snd (cc_message cctx))) (drop (fst (cc_message cctx)) (cc_data cctx)) = rpayload"
proof -
  have u: "u \<noteq> 0" using assms(7) by auto
  note rf = received_auth [OF assms(8), of fill meta, folded asked_meta_def]
  let ?cm = "(asked_meta fill u meta)\<lparr>m_session_id := i\<rparr>"
  have cm: "m_session_id ?cm = i" "eco_has (m_option ?cm) option_req4" "m_request_data ?cm = u"
    "m_category ?cm = m_category meta OR 0x44"
    using rf by simp_all
  let ?a = "session_answer rcodec type is_last i fill u meta"
  note a = answer_meta_fields [OF cm(1) assms(9) cm(2,3), of rcodec type is_last, folded session_answer_def]
  let ?ra = "received_meta fill2 (MessageMeta_new\<lparr>m_category := m_category ?a\<rparr>) ?a"
  note ra = received_answer [OF cm(1) assms(9) cm(2,3) assms(8), of fill2 rcodec type is_last, folded session_answer_def]
  have acat: "m_category ?a = 0x51 OR (m_category meta OR 0x44)" using a(6) cm(4) by simp
  have rcat: "m_category ?a < 128" "eco_has (m_category ?a) category_message" "\<not> eco_has (m_category ?a) category_heartbeat"
    "\<not> eco_has (m_category ?a) category_sync" "eco_has (m_category ?a) category_authority" "eco_has (m_category ?a) category_session"
    using assms(13-15) category_or(3,5,6) [of "m_category meta"] unfolding acat category_or(4,7)
    by (simp_all add: category_bound)
  have size: "TcpProtocol_get_meta_size ?a + length rpayload \<le> 65535" using a(7) assms(12) by simp
  obtain rbuf cl2 q3 rd where rdr:
      "client_event (on_read_head fill3 (client_handler TcpProtocolHead cl1) (take 4 rs) 4 False) cl1 = Ok (cl2, [CPeer (ReadData rbuf 4)])"
      "length rbuf = length rs" "rd = take 4 rbuf @ drop 4 rs" "p_id q3 = p_id p1"
      "client_event (on_read_data junk' (client_handler TcpProtocolHead cl2) rd False) cl2 = Ok (cl1\<lparr>cl_peer := Some q3,
        cl_posted := cl_posted cl1 @ [\<lparr>dc_category = m_category ?a, dc_data = rd, dc_peer = p_id p1, dc_prot = cl_protocol cl1\<rparr>]\<rparr>,
        [CPeer (ReadHead 4)])"
    and rdec: "TcpProtocol_decode TcpProtocol_new (MessageMeta_new\<lparr>m_category := m_category ?a\<rparr>) rd =
        Ok (?ra, rd, 4 + TcpProtocol_get_meta_size ?a, of_nat (length rpayload))" "drop (4 + TcpProtocol_get_meta_size ?a) rd = rpayload"
    using client_reads_message [OF a(1) assms(11) size rcat(1-3) assms(5,1,2), of fill2 fill3 junk'
        "MessageMeta_new\<lparr>m_category := m_category ?a\<rparr>"]
    by (auto simp: TcpProtocol_encode_wire [OF a(1) assms(11)] assms(16))
  let ?dc = "\<lparr>dc_category = m_category ?a, dc_data = rd, dc_peer = p_id p1, dc_prot = Some TcpProtocol_protocol\<rparr>"
  define cl3 where "cl3 = cl1\<lparr>cl_peer := Some q3, cl_posted := cl_posted cl1 @ [?dc]\<rparr>"
  have rpd: "prot_decode TcpProtocol_protocol (MessageMeta_new\<lparr>m_category := m_category ?a\<rparr>) rd =
      Ok (?ra, rd, 4 + TcpProtocol_get_meta_size ?a, of_nat (length rpayload))"
    using rdec(1) by (simp add: TcpProtocol_protocol_def)
  have rac: "m_category ?ra = m_category ?a" using ra(1) a(6) by simp
  have c3: "cl_peer cl3 = Some q3" "find_authority cl3 u = Some k" "k < length (cl_packs cl3)"
    "cl_posted cl3 = cl_posted cl1 @ [?dc]" "cl_packs cl3 = cl_packs cl1"
    using assms(3,4) by (simp_all add: cl3_def find_authority_def)
  obtain cl4 cctx where acc: "client_dispatch alive ?dc cl3 = Ok (cl4, Some cctx)" "client_find_session cl4 i = Some k"
      "fst (pk_session (cl_packs cl4 ! k)) = i" "cs_id (cc_session cctx) = i" "cs_pack (cc_session cctx) = Some k"
      "cs_user (cc_session cctx) = Some (pk_user (cl_packs cl1 ! k))"
      "m_request_data (cc_meta cctx) = pk_request_data (cl_packs cl1 ! k)"
      "cc_message cctx = (4 + TcpProtocol_get_meta_size ?a, of_nat (length rpayload))" "cc_data cctx = rd"
    using client_accepts [where alive = alive, OF c3(1) rdr(4) rpd rac rcat(5,6,2-4) ra(3) u ra(2) assms(9) c3(2,3) assms(10)]
    unfolding c3(5) by blast
  have siz: "unat (of_nat (length rpayload) :: u32) = length rpayload"
    unfolding body_codec.size_law [OF assms(11), symmetric] by simp
  have body: "take (unat (snd (cc_message cctx))) (drop (fst (cc_message cctx)) (cc_data cctx)) = rpayload"
    unfolding acc(8,9) fst_conv snd_conv siz rdec(2) by simp
  have rd2: "client_event (on_read_data junk' (client_handler TcpProtocolHead cl2) (take 4 rbuf @ drop 4 rs) False) cl2 =
      Ok (cl3, [CPeer (ReadHead 4)])"
    using rdr(5) unfolding rdr(3) [symmetric] cl3_def assms(6) .
  show ?thesis
    using rdr(1,2) rd2 c3(4) acc(1-7) body by blast
qed


definition sample_online :: "u32 Client" where
  "sample_online = sample_started\<lparr>cl_peer := Some \<lparr>p_id = 9, p_state = 6, p_data = None\<rparr>\<rparr>"

lemma sample_online_sel:
  "cl_peer sample_online = Some \<lparr>p_id = 9, p_state = 6, p_data = None\<rparr>" "cl_prot_head sample_online = Some TcpProtocolHead"
  "cl_protocol sample_online = Some TcpProtocol_protocol" "cl_make_session sample_online = Some (\<lambda>i c. i)"
  by (simp_all add: sample_online_def sample_started_def sample_client_def Client_new_def client_init_def
      TcpClientOption_init_def co_reset_tick_def client_set_protocol_def client_set_protocol_head_def)

lemma sample_add_session:
  "\<exists>t. add_session (srv_make_session sample_ready) (opt_max_session_size (srv_option sample_ready)) 5 (srv_sessions sample_ready)
     = (t, Some 1)"
  using sample_ready_facts(6,7)
  by (simp add: add_session_def sample_ready_def Sessions_new_def next_session_id_def Atomic_pre_inc_def
      exchange_add_def Let_def Map_size_def none_session_def)


text \<open>
  With pointers of eight bytes the key does not survive: the server reads, and sends back, a number
  whose high half is the low half of the key.
\<close>

lemma session_key_lost:
  assumes "\<not> eco_has (m_option meta) option_req4" "drop_bit 32 u \<noteq> ucast (ucast u :: u32)"
  shows "m_request_data (received_meta fill m0 (auth_meta 8 u meta)) \<noteq> u"
proof -
  have "\<not> eco_has (m_option (auth_meta 8 u meta)) option_req4" "eco_has (m_option (auth_meta 8 u meta)) option_req8"
    "m_request_data (auth_meta 8 u meta) = u"
    using assms(1) by (simp_all add: auth_meta_def set_request_data_ptr_def set_request_data8_def flag_simps option_defs
        eco_add_def bit_simps)
  then have "drop_bit 32 (m_request_data (received_meta fill m0 (auth_meta 8 u meta))) = ucast (ucast u :: u32)"
    by (simp add: received_meta_def seen_req_def high_half)
  then show ?thesis using assms(2) by metis
qed

end
