(* ===== verification/Eco_Mutex.thy ===== *)
theory Eco_Mutex
  imports Eco_Prelude
begin

text \<open>
  The mutexes of \<open>src/project/eco/thread/Mutex.h\<close> and \<open>thread/detail/MutexWin.h\<close> and the scoped
  locks over them: \<open>ScopeLock\<close>, \<open>OrderLock\<close>, \<open>OrderRelock\<close> and \<open>OrdersLock\<close>.

  A mutex is named by its address and is recursive: it has an owner and a count. What a thread
  does with mutexes is a program of lock, try-lock and unlock operations; a scoped lock is a
  function that puts its operations around the program of its scope. The programs of several
  threads run in any interleaving.

  The lemmas show that threads that respect an order on the mutexes always finish, and that
  every run of locking programs is finite.
\<close>

section \<open>Mutexes\<close>

type_synonym mutexes = "nat \<Rightarrow> (nat \<times> nat) option"

definition Mutex_can_lock :: "nat \<Rightarrow> nat \<Rightarrow> mutexes \<Rightarrow> bool" where
  "Mutex_can_lock t m mu = (case mu m of None \<Rightarrow> True | Some (owner, n) \<Rightarrow> owner = t)"

definition Mutex_lock :: "nat \<Rightarrow> nat \<Rightarrow> mutexes \<Rightarrow> mutexes" where
  "Mutex_lock t m mu = mu(m := Some (t, case mu m of None \<Rightarrow> 1 | Some (owner, n) \<Rightarrow> Suc n))"

definition Mutex_unlock :: "nat \<Rightarrow> nat \<Rightarrow> mutexes \<Rightarrow> mutexes option" where
  "Mutex_unlock t m mu = (case mu m of
     Some (owner, Suc n) \<Rightarrow>
       if owner = t then Some (mu(m := (if n = 0 then None else Some (t, n)))) else None
   | _ \<Rightarrow> None)"

section \<open>Programs of lock operations\<close>

text \<open>\<open>PTryLock m p q\<close> goes on with \<open>p\<close> when \<open>m\<close> could be locked, otherwise with \<open>q\<close>.\<close>

datatype lock_prog =
    PDone
  | PLock nat lock_prog
  | PTryLock nat lock_prog lock_prog
  | PUnlock nat lock_prog

type_synonym script = "lock_prog \<Rightarrow> lock_prog"

fun lock_step :: "nat \<Rightarrow> mutexes \<Rightarrow> lock_prog \<Rightarrow> (mutexes \<times> lock_prog) option" where
  "lock_step t mu PDone = None"
| "lock_step t mu (PLock m k) = (if Mutex_can_lock t m mu then Some (Mutex_lock t m mu, k) else None)"
| "lock_step t mu (PTryLock m k k') =
     (if Mutex_can_lock t m mu then Some (Mutex_lock t m mu, k) else Some (mu, k'))"
| "lock_step t mu (PUnlock m k) = map_option (\<lambda>mu'. (mu', k)) (Mutex_unlock t m mu)"

section \<open>The scoped locks\<close>

definition ScopeLock :: "nat \<Rightarrow> script \<Rightarrow> script" where
  "ScopeLock m scope k = PLock m (scope (PUnlock m k))"

definition OrderLock :: "nat \<Rightarrow> nat \<Rightarrow> script \<Rightarrow> script" where
  "OrderLock m1 m2 scope k =
     (let scope_end = scope (if m1 = m2 then PUnlock m1 k else PUnlock m1 (PUnlock m2 k))
      in if m1 = m2 then PLock m1 scope_end
         else if m1 < m2 then PLock m1 (PLock m2 scope_end)
         else PLock m2 (PLock m1 scope_end))"

text \<open>Here \<open>m1\<close> is locked already.\<close>

definition OrderRelock :: "nat \<Rightarrow> nat \<Rightarrow> script \<Rightarrow> script" where
  "OrderRelock m1 m2 scope k =
     (let scope_end = scope (if m1 = m2 then k else PUnlock m2 k)
      in if m1 = m2 then scope_end
         else if m1 < m2 then PLock m2 scope_end
         else PTryLock m2 scope_end (PUnlock m1 (PLock m2 (PLock m1 scope_end))))"

fun OrdersLock_push_back :: "nat \<Rightarrow> nat list \<Rightarrow> nat list" where
  "OrdersLock_push_back m [] = [m]"
| "OrdersLock_push_back m (x # xs) = (if m < x then m # x # xs else x # OrdersLock_push_back m xs)"

fun OrdersLock_lock :: "nat list \<Rightarrow> script" where
  "OrdersLock_lock [] k = k"
| "OrdersLock_lock (m # ms) k = PLock m (OrdersLock_lock ms k)"

fun OrdersLock_unlock :: "nat list \<Rightarrow> script" where
  "OrdersLock_unlock [] k = k"
| "OrdersLock_unlock (m # ms) k = PUnlock m (OrdersLock_unlock ms k)"

definition OrdersLock :: "nat list \<Rightarrow> script \<Rightarrow> script" where
  "OrdersLock ms scope k =
     (let ls = fold OrdersLock_push_back ms []
      in OrdersLock_lock ls (scope (OrdersLock_unlock ls k)))"

section \<open>Interleaving\<close>

text \<open>Thread \<open>i\<close> runs program number \<open>i\<close>.\<close>

type_synonym lock_state = "mutexes \<times> lock_prog list"

inductive locks_step :: "lock_state \<Rightarrow> lock_state \<Rightarrow> bool" where
  locks_step: "i < length ps \<Longrightarrow> lock_step i mu (ps ! i) = Some (mu', p') \<Longrightarrow>
     locks_step (mu, ps) (mu', ps[i := p'])"

inductive_cases locks_stepE: "locks_step s s'"

inductive locks_run :: "nat \<Rightarrow> lock_state \<Rightarrow> lock_state \<Rightarrow> bool" where
  locks_run_0: "locks_run 0 s s"
| locks_run_Suc: "locks_run n s s' \<Longrightarrow> locks_step s' s'' \<Longrightarrow> locks_run (Suc n) s s''"

definition locks_finished :: "lock_state \<Rightarrow> bool" where
  "locks_finished s \<longleftrightarrow> (\<forall>p \<in> set (snd s). p = PDone)"

definition locks_deadlock :: "lock_state \<Rightarrow> bool" where
  "locks_deadlock s \<longleftrightarrow> \<not> locks_finished s \<and>
     (\<forall>i < length (snd s). lock_step i (fst s) (snd s ! i) = None)"

definition no_locks :: mutexes where
  "no_locks = (\<lambda>m. None)"

lemma locks_step_iff:
  "(\<exists>s'. locks_step (mu, ps) s') \<longleftrightarrow> (\<exists>i < length ps. lock_step i mu (ps ! i) \<noteq> None)"
proof
  assume "\<exists>s'. locks_step (mu, ps) s'"
  then show "\<exists>i < length ps. lock_step i mu (ps ! i) \<noteq> None" by (auto elim!: locks_stepE)
next
  assume "\<exists>i < length ps. lock_step i mu (ps ! i) \<noteq> None"
  then obtain i mu' p' where "i < length ps" "lock_step i mu (ps ! i) = Some (mu', p')" by auto
  then show "\<exists>s'. locks_step (mu, ps) s'" by (blast intro: locks_step)
qed

lemma locks_deadlock_iff: "locks_deadlock s \<longleftrightarrow> \<not> locks_finished s \<and> (\<nexists>s'. locks_step s s')"
  using locks_step_iff [of "fst s" "snd s"] by (auto simp: locks_deadlock_def)

text \<open>A schedule names the threads in the order of their steps.\<close>

fun locks_schedule :: "nat list \<Rightarrow> lock_state \<Rightarrow> lock_state option" where
  "locks_schedule [] s = Some s"
| "locks_schedule (i # is) (mu, ps) =
     (if i < length ps then case lock_step i mu (ps ! i) of
        None \<Rightarrow> None
      | Some (mu', p') \<Rightarrow> locks_schedule is (mu', ps[i := p'])
      else None)"

lemma locks_run_Cons: "locks_run n s' s'' \<Longrightarrow> locks_step s s' \<Longrightarrow> locks_run (Suc n) s s''"
  by (induction rule: locks_run.induct) (auto intro: locks_run.intros)

lemma locks_schedule_run: "locks_schedule is s = Some s' \<Longrightarrow> locks_run (length is) s s'"
proof (induction "is" s rule: locks_schedule.induct)
  case (2 i "is" mu ps)
  then obtain mu' p' where "i < length ps" and step: "lock_step i mu (ps ! i) = Some (mu', p')"
      and rest: "locks_schedule is (mu', ps[i := p']) = Some s'"
    by (auto split: if_splits option.splits)
  have "locks_run (length is) (mu', ps[i := p']) s'"
    using 2(1) [OF \<open>i < length ps\<close> step refl rest] .
  then show ?case using locks_run_Cons locks_step [of i ps mu] \<open>i < length ps\<close> step by fastforce
qed (simp add: locks_run_0)

section \<open>Every run is finite\<close>

fun prog_steps :: "lock_prog \<Rightarrow> nat" where
  "prog_steps PDone = 0"
| "prog_steps (PLock m k) = Suc (prog_steps k)"
| "prog_steps (PTryLock m k k') = Suc (max (prog_steps k) (prog_steps k'))"
| "prog_steps (PUnlock m k) = Suc (prog_steps k)"

definition steps_left :: "lock_state \<Rightarrow> nat" where
  "steps_left s = sum_list (map prog_steps (snd s))"

lemma lock_step_smaller: "lock_step t mu p = Some (mu', p') \<Longrightarrow> prog_steps p' < prog_steps p"
  by (cases p; force split: if_splits)

lemma sum_list_replace:
  "i < length xs \<Longrightarrow> sum_list (map f (xs[i := y])) + f (xs ! i) = sum_list (map f xs) + (f y :: nat)"
proof (induction xs arbitrary: i)
  case (Cons x xs)
  then show ?case by (cases i) (simp_all add: algebra_simps)
qed simp

lemma locks_step_smaller: "locks_step s s' \<Longrightarrow> steps_left s' < steps_left s"
proof (elim locks_stepE)
  fix i ps mu mu' p'
  assume s: "s = (mu, ps)" "s' = (mu', ps[i := p'])" "i < length ps" "lock_step i mu (ps ! i) = Some (mu', p')"
  then show "steps_left s' < steps_left s"
    using sum_list_replace [OF s(3), of prog_steps p'] lock_step_smaller [OF s(4)]
    by (simp add: steps_left_def)
qed

lemma locks_run_bounded: "locks_run n s s' \<Longrightarrow> n + steps_left s' \<le> steps_left s"
  by (induction rule: locks_run.induct) (auto dest: locks_step_smaller)

section \<open>Respecting an order\<close>

text \<open>
  A program that holds the mutexes \<open>held\<close> respects the order given by a rank when it only waits
  for a mutex that it holds already or that ranks above all it holds, unlocks only what it holds
  and holds nothing at its end.
\<close>

fun keeps_order :: "(nat \<Rightarrow> nat) \<Rightarrow> nat list \<Rightarrow> lock_prog \<Rightarrow> bool" where
  "keeps_order rank held PDone = (held = [])"
| "keeps_order rank held (PLock m k) \<longleftrightarrow>
     (m \<in> set held \<or> (\<forall>h \<in> set held. rank h < rank m)) \<and> keeps_order rank (m # held) k"
| "keeps_order rank held (PTryLock m k k') \<longleftrightarrow> keeps_order rank (m # held) k \<and> keeps_order rank held k'"
| "keeps_order rank held (PUnlock m k) \<longleftrightarrow> m \<in> set held \<and> keeps_order rank (remove1 m held) k"

text \<open>The mutexes are owned as the threads hold them.\<close>

definition owned_as_held :: "mutexes \<Rightarrow> nat list list \<Rightarrow> bool" where
  "owned_as_held mu Hs \<longleftrightarrow>
     (\<forall>m i n. mu m = Some (i, n) \<longrightarrow> i < length Hs \<and> n = count_list (Hs ! i) m \<and> 0 < n) \<and>
     (\<forall>i < length Hs. \<forall>m \<in> set (Hs ! i). \<exists>n. mu m = Some (i, n))"

definition locks_ordered :: "(nat \<Rightarrow> nat) \<Rightarrow> lock_state \<Rightarrow> bool" where
  "locks_ordered rank s \<longleftrightarrow> (\<exists>Hs. length Hs = length (snd s) \<and> owned_as_held (fst s) Hs \<and>
     (\<forall>i < length Hs. keeps_order rank (Hs ! i) (snd s ! i)))"

lemma count_list_remove1: "count_list (remove1 x xs) y = count_list xs y - (if x = y then 1 else 0)"
  by (induction xs) (auto simp: count_list_0_iff)

lemma owned_held:
  "owned_as_held mu Hs \<Longrightarrow> mu m = Some (i, n) \<Longrightarrow> i < length Hs \<and> n = count_list (Hs ! i) m \<and> m \<in> set (Hs ! i)"
  unfolding owned_as_held_def by (metis count_list_0_iff less_irrefl)

lemma held_owned: "owned_as_held mu Hs \<Longrightarrow> i < length Hs \<Longrightarrow> m \<in> set (Hs ! i) \<Longrightarrow> \<exists>n. mu m = Some (i, n)"
  by (simp add: owned_as_held_def)

lemma owned_lock:
  assumes "owned_as_held mu Hs" "i < length Hs" "Mutex_can_lock i m mu"
  shows "owned_as_held (Mutex_lock i m mu) (Hs[i := m # Hs ! i])"
  unfolding owned_as_held_def
proof (intro conjI allI impI ballI)
  fix m' j n
  assume "Mutex_lock i m mu m' = Some (j, n)"
  then show "j < length (Hs[i := m # Hs ! i])" "n = count_list (Hs[i := m # Hs ! i] ! j) m'" "0 < n"
    using assms
    by (cases "m' = m"; cases "mu m";
        fastforce simp: owned_as_held_def Mutex_lock_def Mutex_can_lock_def nth_list_update count_list_0_iff)+
next
  fix j m'
  assume "j < length (Hs[i := m # Hs ! i])" "m' \<in> set (Hs[i := m # Hs ! i] ! j)"
  then show "\<exists>n. Mutex_lock i m mu m' = Some (j, n)"
    using assms
    by (cases "m' = m"; cases "mu m";
        fastforce simp: owned_as_held_def Mutex_lock_def Mutex_can_lock_def nth_list_update split: if_splits)
qed

lemma owned_unlock:
  assumes "owned_as_held mu Hs" "i < length Hs" "m \<in> set (Hs ! i)"
  shows "\<exists>mu'. Mutex_unlock i m mu = Some mu' \<and> owned_as_held mu' (Hs[i := remove1 m (Hs ! i)])"
proof -
  obtain n where n: "mu m = Some (i, Suc n)" "count_list (Hs ! i) m = Suc n"
    using assms unfolding owned_as_held_def by (metis gr0_conv_Suc)
  have "owned_as_held (mu(m := (if n = 0 then None else Some (i, n)))) (Hs[i := remove1 m (Hs ! i)])"
    unfolding owned_as_held_def
  proof (intro conjI allI impI ballI)
    fix m' j k
    assume "(mu(m := (if n = 0 then None else Some (i, n)))) m' = Some (j, k)"
    then show "j < length (Hs[i := remove1 m (Hs ! i)])"
        "k = count_list (Hs[i := remove1 m (Hs ! i)] ! j) m'" "0 < k"
      using assms n
      by (cases "m' = m"; auto simp: owned_as_held_def nth_list_update count_list_remove1 split: if_splits)+
  next
    fix j m'
    assume "j < length (Hs[i := remove1 m (Hs ! i)])" and m': "m' \<in> set (Hs[i := remove1 m (Hs ! i)] ! j)"
    then have "m' \<in> set (Hs ! j)" "j < length Hs"
      using assms(2) by (auto simp: nth_list_update split: if_splits dest: set_mp [OF set_remove1_subset])
    then obtain k where k: "mu m' = Some (j, k)" using held_owned [OF assms(1)] by blast
    show "\<exists>k. (mu(m := (if n = 0 then None else Some (i, n)))) m' = Some (j, k)"
    proof (cases "m' = m")
      case True
      then have "j = i" using k n by simp
      then have "m \<in> set (remove1 m (Hs ! i))" using m' True assms(2) by simp
      then have "count_list (remove1 m (Hs ! i)) m \<noteq> 0" by (simp only: count_list_0_iff) simp
      then show ?thesis using n True \<open>j = i\<close> by (simp add: count_list_remove1)
    qed (use k in simp)
  qed
  then show ?thesis using n by (auto simp: Mutex_unlock_def)
qed

lemma locks_ordered_step:
  assumes "locks_ordered rank s" "locks_step s s'"
  shows "locks_ordered rank s'"
  using assms(2)
proof (elim locks_stepE)
  fix i ps mu mu' p'
  assume s: "s = (mu, ps)" "s' = (mu', ps[i := p'])" "i < length ps" "lock_step i mu (ps ! i) = Some (mu', p')"
  obtain Hs where Hs: "length Hs = length ps" "owned_as_held mu Hs" "\<And>j. j < length Hs \<Longrightarrow> keeps_order rank (Hs ! j) (ps ! j)"
    using assms(1) s(1) by (auto simp: locks_ordered_def)
  obtain held where "owned_as_held mu' (Hs[i := held])" "keeps_order rank held p'"
  proof (cases "ps ! i")
    case (PLock m k)
    then show ?thesis
      using that [of "m # Hs ! i"] s Hs(1) Hs(3) [of i] owned_lock [OF Hs(2), of i m] by (auto split: if_splits)
  next
    case (PTryLock m k k')
    then show ?thesis
      using that [of "m # Hs ! i"] that [of "Hs ! i"] s Hs Hs(3) [of i] owned_lock [OF Hs(2), of i m]
      by (auto split: if_splits)
  next
    case (PUnlock m k)
    then show ?thesis
      using that [of "remove1 m (Hs ! i)"] s Hs(1) Hs(3) [of i] owned_unlock [OF Hs(2), of i m] by auto
  qed (use s in auto)
  then have "\<forall>j < length Hs. keeps_order rank (Hs[i := held] ! j) (ps[i := p'] ! j)"
    using Hs(1,3) s(3) by (auto simp: nth_list_update)
  with \<open>owned_as_held mu' (Hs[i := held])\<close> show ?thesis
    using Hs(1) s by (auto simp: locks_ordered_def intro!: exI [of _ "Hs[i := held]"])
qed

lemma locks_ordered_run: "locks_run n s s' \<Longrightarrow> locks_ordered rank s \<Longrightarrow> locks_ordered rank s'"
  by (induction rule: locks_run.induct) (auto dest: locks_ordered_step)

lemma locks_ordered_start:
  "\<forall>p \<in> set ps. keeps_order rank [] p \<Longrightarrow> locks_ordered rank (no_locks, ps)"
  unfolding locks_ordered_def
  by (intro exI [of _ "replicate (length ps) []"]) (auto simp: owned_as_held_def no_locks_def)

text \<open>
  A thread that cannot go on waits for a mutex another thread holds. That thread then waits too,
  for a mutex of a higher rank; so with only waiting threads there would be no highest rank
  waited for.
\<close>

lemma blocked_waits_for_blocked:
  assumes Hs: "length Hs = length ps" "owned_as_held mu Hs"
      "\<And>j. j < length Hs \<Longrightarrow> keeps_order rank (Hs ! j) (ps ! j)"
    and stuck: "\<forall>i < length ps. lock_step i mu (ps ! i) = None"
    and i: "i < length ps" "ps ! i = PLock m k"
  shows "\<exists>j m' k'. j < length ps \<and> ps ! j = PLock m' k' \<and> rank m < rank m'"
proof -
  have "\<not> Mutex_can_lock i m mu" using stuck i by (auto split: if_splits)
  then obtain j n where "mu m = Some (j, n)" by (auto simp: Mutex_can_lock_def split: option.splits)
  then have j: "j < length ps" "m \<in> set (Hs ! j)" using owned_held [OF Hs(2)] Hs(1) by auto
  show ?thesis
  proof (cases "ps ! j")
    case PDone
    then show ?thesis using Hs(1) Hs(3) [of j] j by simp
  next
    case (PLock m' k')
    have "m' \<notin> set (Hs ! j)"
    proof
      assume "m' \<in> set (Hs ! j)"
      then have "Mutex_can_lock j m' mu" using held_owned [OF Hs(2), of j m'] Hs(1) j by (auto simp: Mutex_can_lock_def)
      then show False using stuck j PLock by auto
    qed
    then show ?thesis using Hs(1) Hs(3) [of j] j PLock by auto
  next
    case (PTryLock m' k1 k2)
    then show ?thesis using stuck j by (auto split: if_splits)
  next
    case (PUnlock m' k')
    then show ?thesis using stuck Hs(1) Hs(3) [of j] j owned_unlock [OF Hs(2), of j m'] by auto
  qed
qed

lemma locks_ordered_no_deadlock:
  assumes "locks_ordered rank s"
  shows "\<not> locks_deadlock s"
proof
  obtain mu ps where s: "s = (mu, ps)" by (cases s)
  assume "locks_deadlock s"
  then have stuck: "\<forall>i < length ps. lock_step i mu (ps ! i) = None" and "\<not> locks_finished s"
    by (auto simp: locks_deadlock_def s)
  obtain Hs where Hs: "length Hs = length ps" "owned_as_held mu Hs"
      "\<And>j. j < length Hs \<Longrightarrow> keeps_order rank (Hs ! j) (ps ! j)"
    using assms by (auto simp: locks_ordered_def s)
  define waited where "waited = {rank m | i m k. i < length ps \<and> ps ! i = PLock m k}"
  have "finite waited"
    by (rule finite_subset [of _ "(\<lambda>i. case ps ! i of PLock m k \<Rightarrow> rank m | _ \<Rightarrow> 0) ` {..< length ps}"])
      (force simp: waited_def image_iff)+
  moreover have "waited \<noteq> {}"
  proof -
    obtain i where i: "i < length ps" "ps ! i \<noteq> PDone"
      using \<open>\<not> locks_finished s\<close> by (auto simp: locks_finished_def s in_set_conv_nth)
    have "\<exists>m k. ps ! i = PLock m k"
    proof (cases "ps ! i")
      case (PUnlock m k)
      then show ?thesis using stuck i(1) Hs(1) Hs(3) [of i] owned_unlock [OF Hs(2), of i m] by auto
    qed (use stuck i in \<open>auto split: if_splits\<close>)
    with i show ?thesis by (auto simp: waited_def)
  qed
  ultimately have max: "Max waited \<in> waited" "\<And>r. r \<in> waited \<Longrightarrow> r \<le> Max waited" by auto
  from max(1) obtain i m k where "Max waited = rank m" "i < length ps" "ps ! i = PLock m k"
    by (auto simp: waited_def)
  moreover from blocked_waits_for_blocked [OF Hs stuck this(2,3)] obtain r where "r \<in> waited" "rank m < r"
    by (auto simp: waited_def)
  ultimately show False using max(2) [of r] by simp
qed

end
