(* ===== verification/Eco_TopicLocks.thy ===== *)
theory Eco_TopicLocks
  imports Eco_Mutex "HOL-Library.Multiset"
begin

text \<open>
  What the operations on topics and subscribers do with mutexes: the lock operations of
  \<open>src/project/eco/thread/topic/Subscription.h\<close>, \<open>Role.h\<close>, \<open>Topic.h\<close> and \<open>TopicServer.h\<close>, in their
  order, without the data they protect (\<open>Eco_Subscription\<close> models that).

  A topic \<open>t\<close>, a subscriber \<open>s\<close>, the contents \<open>c\<close> of a topic and the topic map \<open>g\<close> of the server
  are named by the addresses of their mutexes. Loops over the subscriptions take the list of
  the mutexes they meet, which is arbitrary in the theorems, since the subscriptions may change
  whenever a mutex is released.
\<close>

section \<open>Operations\<close>

definition nothing :: script where "nothing k = k"

definition has_topic_locks :: "nat \<Rightarrow> script" where
  "has_topic_locks s = ScopeLock s nothing"

definition has_subscriber_locks :: "nat \<Rightarrow> script" where
  "has_subscriber_locks t = ScopeLock t nothing"

definition reserve_subscribe_locks :: "nat \<Rightarrow> nat \<Rightarrow> bool \<Rightarrow> script" where
  "reserve_subscribe_locks t s subscribed k =
     has_topic_locks s (if subscribed then k else OrderLock t s nothing k)"

text \<open>\<open>topic\<close> is the topic of the node found, if the walk finds one.\<close>

definition unsubscribe_locks :: "nat \<Rightarrow> nat option \<Rightarrow> script" where
  "unsubscribe_locks s topic =
     ScopeLock s (case topic of None \<Rightarrow> nothing | Some t \<Rightarrow> OrderRelock s t nothing)"

fun relock_each :: "nat \<Rightarrow> nat list \<Rightarrow> script" where
  "relock_each m [] k = k"
| "relock_each m (x # xs) k = OrderRelock m x nothing (relock_each m xs k)"

definition unsubscribe_all_locks :: "nat \<Rightarrow> nat list \<Rightarrow> script" where
  "unsubscribe_all_locks s ts = ScopeLock s (relock_each s ts)"

definition clear_locks :: "nat \<Rightarrow> nat list \<Rightarrow> script" where
  "clear_locks t ss = ScopeLock t (relock_each t ss)"

definition append_locks :: "nat \<Rightarrow> script" where
  "append_locks c = ScopeLock c nothing"

definition publish_snap_locks :: "nat \<Rightarrow> script" where
  "publish_snap_locks t = ScopeLock t nothing"

definition publish_new_locks :: "nat \<Rightarrow> nat \<Rightarrow> bool \<Rightarrow> script" where
  "publish_new_locks c t moved k = ScopeLock c nothing (if moved then ScopeLock t nothing k else k)"

definition publish_clear_content_locks :: "nat \<Rightarrow> nat \<Rightarrow> script" where
  "publish_clear_content_locks c t k = ScopeLock c nothing (ScopeLock t nothing k)"

definition publish_erase_topic_locks :: "nat \<Rightarrow> nat list \<Rightarrow> script" where
  "publish_erase_topic_locks t ss = ScopeLock t (clear_locks t ss)"

definition find_topic_locks :: "nat \<Rightarrow> script" where
  "find_topic_locks g = ScopeLock g nothing"

definition server_unsubscribe_locks :: "nat \<Rightarrow> nat \<Rightarrow> nat \<Rightarrow> nat option \<Rightarrow> bool \<Rightarrow> script" where
  "server_unsubscribe_locks g t s topic one_topic =
     ScopeLock g (\<lambda>k. unsubscribe_locks s topic
       (if topic \<noteq> None \<and> one_topic then has_subscriber_locks t k else k))"

section \<open>Threads\<close>

datatype topic_op =
    OpSubscribe nat nat nat bool
  | OpUnsubscribe nat nat nat "nat option" bool
  | OpHasSubscriber nat nat
  | OpPublish nat nat
  | OpSubscriberGone nat "nat list"
  | OpTopicGone nat "nat list"
  | WorkSnap nat
  | WorkNew nat nat bool
  | WorkClearContent nat nat
  | WorkEraseTopic nat "nat list"

fun topic_op_locks :: "topic_op \<Rightarrow> script" where
  "topic_op_locks (OpSubscribe g t s b) k = find_topic_locks g (reserve_subscribe_locks t s b k)"
| "topic_op_locks (OpUnsubscribe g t s topic b) k = server_unsubscribe_locks g t s topic b k"
| "topic_op_locks (OpHasSubscriber g s) k = find_topic_locks g (has_topic_locks s k)"
| "topic_op_locks (OpPublish g c) k = find_topic_locks g (append_locks c k)"
| "topic_op_locks (OpSubscriberGone s ts) k = unsubscribe_all_locks s ts k"
| "topic_op_locks (OpTopicGone t ss) k = clear_locks t ss k"
| "topic_op_locks (WorkSnap t) k = publish_snap_locks t k"
| "topic_op_locks (WorkNew c t b) k = publish_new_locks c t b k"
| "topic_op_locks (WorkClearContent c t) k = publish_clear_content_locks c t k"
| "topic_op_locks (WorkEraseTopic t ss) k = publish_erase_topic_locks t ss k"

definition topic_thread :: "topic_op list \<Rightarrow> lock_prog" where
  "topic_thread ops = foldr topic_op_locks ops PDone"

text \<open>
  The mutexes of topics, subscribers and contents are other objects than the mutex \<open>g\<close> of the
  server, and \<open>erase_topic\<close> meets only subscribers whose mutex lies behind that of the topic.
\<close>

fun topic_op_ok :: "nat \<Rightarrow> topic_op \<Rightarrow> bool" where
  "topic_op_ok g (OpSubscribe g' t s b) \<longleftrightarrow> g' = g \<and> t \<noteq> g \<and> s \<noteq> g"
| "topic_op_ok g (OpUnsubscribe g' t s topic b) \<longleftrightarrow> g' = g \<and> t \<noteq> g \<and> s \<noteq> g \<and> topic \<noteq> Some g"
| "topic_op_ok g (OpHasSubscriber g' s) \<longleftrightarrow> g' = g \<and> s \<noteq> g"
| "topic_op_ok g (OpPublish g' c) \<longleftrightarrow> g' = g \<and> c \<noteq> g"
| "topic_op_ok g (OpSubscriberGone s ts) \<longleftrightarrow> s \<noteq> g \<and> g \<notin> set ts"
| "topic_op_ok g (OpTopicGone t ss) \<longleftrightarrow> t \<noteq> g \<and> g \<notin> set ss"
| "topic_op_ok g (WorkSnap t) \<longleftrightarrow> t \<noteq> g"
| "topic_op_ok g (WorkNew c t b) \<longleftrightarrow> c \<noteq> g \<and> t \<noteq> g"
| "topic_op_ok g (WorkClearContent c t) \<longleftrightarrow> c \<noteq> g \<and> t \<noteq> g"
| "topic_op_ok g (WorkEraseTopic t ss) \<longleftrightarrow> t \<noteq> g \<and> g \<notin> set ss \<and> (\<forall>s \<in> set ss. t < s)"

section \<open>The operations keep the order\<close>

text \<open>The mutex of the server comes first, all others by their address.\<close>

definition topic_rank :: "nat \<Rightarrow> nat \<Rightarrow> nat" where
  "topic_rank g m = (if m = g then 0 else Suc m)"

lemma keeps_order_mset: "keeps_order rank held p \<Longrightarrow> mset held = mset held' \<Longrightarrow> keeps_order rank held' p"
proof (induction p arbitrary: held held')
  case PDone
  then show ?case by simp
next
  case (PLock m k)
  then show ?case using mset_eq_setD [of held held'] PLock.IH [of "m # held" "m # held'"] by auto
next
  case (PTryLock m k k')
  then show ?case using PTryLock.IH(1) [of "m # held" "m # held'"] PTryLock.IH(2) [of held held'] by auto
next
  case (PUnlock m k)
  then show ?case
    using mset_eq_setD [of held held'] PUnlock.IH [of "remove1 m held" "remove1 m held'"] by auto
qed

lemma ScopeLock_keeps:
  assumes "m \<in> set held \<or> (\<forall>h \<in> set held. rank h < rank m)"
    and "keeps_order rank (m # held) (PUnlock m k) \<Longrightarrow> keeps_order rank (m # held) (scope (PUnlock m k))"
    and "keeps_order rank held k"
  shows "keeps_order rank held (ScopeLock m scope k)"
  using assms by (simp add: ScopeLock_def)

lemma OrderLock_keeps:
  assumes "\<forall>h \<in> set held. rank h < rank m1 \<and> rank h < rank m2"
    and "m1 < m2 \<Longrightarrow> rank m1 < rank m2" "m2 < m1 \<Longrightarrow> rank m2 < rank m1"
    and "keeps_order rank held k"
  shows "keeps_order rank held (OrderLock m1 m2 nothing k)"
  using assms by (cases m1 m2 rule: linorder_cases) (auto simp: OrderLock_def nothing_def Let_def)

lemma OrderRelock_keeps:
  assumes "\<forall>h \<in> set held. rank h < rank m1 \<and> rank h < rank m2"
    and "m1 < m2 \<Longrightarrow> rank m1 < rank m2" "m2 < m1 \<Longrightarrow> rank m2 < rank m1"
    and k: "keeps_order rank (m1 # held) k"
  shows "keeps_order rank (m1 # held) (OrderRelock m1 m2 nothing k)"
proof -
  have "keeps_order rank (m1 # m2 # held) (PUnlock m2 k)" if "m2 < m1"
    using that k keeps_order_mset [OF k, of "m1 # held"] by simp
  then show ?thesis
    using assms by (cases m1 m2 rule: linorder_cases) (auto simp: OrderRelock_def nothing_def Let_def)
qed

lemma relock_each_keeps:
  assumes "\<forall>h \<in> set held. rank h < rank m \<and> (\<forall>x \<in> set xs. rank h < rank x)"
    and "\<forall>x \<in> set xs. (m < x \<longrightarrow> rank m < rank x) \<and> (x < m \<longrightarrow> rank x < rank m)"
    and "keeps_order rank (m # held) k"
  shows "keeps_order rank (m # held) (relock_each m xs k)"
  using assms by (induction xs) (auto intro!: OrderRelock_keeps)

text \<open>Behind a second lock of the same mutex, relocking only takes mutexes in order.\<close>

lemma relock_each_nested_keeps:
  assumes "\<forall>h \<in> set held. rank h < rank m" "\<forall>x \<in> set xs. m < x \<and> rank m < rank x"
    and "keeps_order rank (m # m # held) k"
  shows "keeps_order rank (m # m # held) (relock_each m xs k)"
  using assms
proof (induction xs)
  case (Cons x xs)
  then show ?case by (auto simp: OrderRelock_def nothing_def Let_def dest: order.strict_trans)
qed simp

lemmas topic_locks_defs = has_topic_locks_def has_subscriber_locks_def reserve_subscribe_locks_def
  unsubscribe_locks_def unsubscribe_all_locks_def clear_locks_def append_locks_def
  publish_snap_locks_def publish_new_locks_def publish_clear_content_locks_def
  publish_erase_topic_locks_def find_topic_locks_def server_unsubscribe_locks_def

lemma topic_op_keeps:
  assumes "topic_op_ok g ob" "keeps_order (topic_rank g) [] k"
  shows "keeps_order (topic_rank g) [] (topic_op_locks ob k)"
  using assms
  by (cases ob)
    (auto simp: topic_locks_defs topic_rank_def nothing_def
      intro!: ScopeLock_keeps OrderLock_keeps OrderRelock_keeps relock_each_keeps relock_each_nested_keeps
      split: option.splits)

lemma topic_thread_keeps:
  "\<forall>ob \<in> set ops. topic_op_ok g ob \<Longrightarrow> keeps_order (topic_rank g) [] (topic_thread ops)"
  by (induction ops) (auto simp: topic_thread_def intro: topic_op_keeps)

section \<open>Properties\<close>



text \<open>
  Erasing a topic while one of its subscribers unsubscribes can deadlock when the mutex
  of the subscriber lies before that of the topic: \<open>publish_erase_topic\<close> calls \<open>clear\<close> with the
  mutex of the topic locked, so the relock in \<open>clear\<close> does not release it.
\<close>

theorem erase_topic_deadlocks:
  assumes "s < t"
  shows "\<exists>n st. locks_run n (no_locks, [topic_thread [WorkEraseTopic t [s]], topic_thread [OpSubscriberGone s [t]]]) st
    \<and> locks_deadlock st"
proof -
  let ?b = "PUnlock s (PUnlock t (PUnlock t PDone))" and ?c = "PLock t (PUnlock t (PUnlock s PDone))"
  let ?p0 = "PLock t (PLock t (PTryLock s ?b (PUnlock t (PLock s (PLock t ?b)))))"
  have start: "[topic_thread [WorkEraseTopic t [s]], topic_thread [OpSubscriberGone s [t]]] = [?p0, PLock s ?c]"
    using assms by (auto simp: topic_thread_def topic_locks_defs ScopeLock_def OrderRelock_def nothing_def Let_def)
  have ne: "s \<noteq> t" "t \<noteq> s" using assms by auto
  note simps = Mutex_can_lock_def Mutex_lock_def Mutex_unlock_def no_locks_def ne
  have "locks_schedule [0, 0, 1, 0, 0] (no_locks, [?p0, PLock s ?c]) =
      Some (no_locks(t := Some (0, 1), s := Some (1, 1)), [PLock s (PLock t ?b), ?c])"
    by (simp add: simps fun_upd_twist)
  note run = locks_schedule_run [OF this]
  have "locks_deadlock (no_locks(t := Some (0, 1), s := Some (1, 1)), [PLock s (PLock t ?b), ?c])"
    by (auto simp: locks_deadlock_def locks_finished_def simps less_Suc_eq)
  with run start show ?thesis by auto
qed

theorem erase_topic_deadlocks_witness:
  "\<exists>n st. locks_run n (no_locks, [topic_thread [WorkEraseTopic 2 [1]], topic_thread [OpSubscriberGone 1 [2]]]) st
    \<and> locks_deadlock st"
  by (rule erase_topic_deadlocks) simp

end
