(* ===== verification/Eco_Subscription.thy ===== *)
theory Eco_Subscription
  imports Eco_Atomic
begin

text \<open>
  Subscriptions, \<open>src/project/eco/thread/topic/Subscription.h\<close> and \<open>thread/AutoRef.h\<close>: each
  subscription is a node in two intrusive doubly linked lists, the subscribers of its topic and
  the topics of its subscriber. A \<open>prev\<close> field is a pointer to the place that points to the
  node: the head of a list, the \<open>next\<close> field of another node, or a local variable.

  The memory is one function per field, and a set of live nodes; an access to a node that is not
  live is \<open>UB\<close>. Topics, subscribers and threads are named by numbers. A loop over the nodes is
  a partial function: \<open>None\<close> is a loop that does not end.

  \<open>Eco_SubscriptionInv\<close> shows what every operation does to the two lists, on the lists themselves.
\<close>

section \<open>State\<close>

datatype topic_slot = THead nat | TNext nat | TLocal nat

datatype subscriber_slot = SHead nat | SNext nat

record subs =
  sb_alive :: "nat \<Rightarrow> bool"
  sb_topic :: "nat \<Rightarrow> nat option"
  sb_topic_subscriber_next :: "nat \<Rightarrow> nat option"
  sb_topic_subscriber_prev :: "nat \<Rightarrow> topic_slot option"
  sb_subscriber :: "nat \<Rightarrow> nat option"
  sb_subscriber_topic_next :: "nat \<Rightarrow> nat option"
  sb_subscriber_topic_prev :: "nat \<Rightarrow> subscriber_slot option"
  sb_erasing_nodes :: "nat \<Rightarrow> nat list"
  sb_working :: "nat \<Rightarrow> bool"
  sb_ref :: "nat \<Rightarrow> u32"
  sb_head :: "nat \<Rightarrow> nat option"
  sb_tail :: "nat \<Rightarrow> nat option"
  sb_topic_head :: "nat \<Rightarrow> nat option"
  sb_node :: "nat \<Rightarrow> nat option"
  sb_msg :: "nat option"

text \<open>
  \<open>sb_head\<close> and \<open>sb_tail\<close> are the \<open>SubscriptionList\<close> of each topic, \<open>sb_topic_head\<close> the list head
  of each subscriber, and \<open>sb_node\<close> the local variable \<open>node\<close> of each thread;
  \<open>m_erasing_nodes\<close> holds the threads whose local variable it points to. \<open>sb_msg\<close> is the
  \<open>AutoRefPtr\<close> in the message that the publishing thread of \<open>Eco_TopicServer\<close> works on.
\<close>

definition no_subs :: subs where
  "no_subs = \<lparr>sb_alive = \<lambda>a. False, sb_topic = \<lambda>a. None, sb_topic_subscriber_next = \<lambda>a. None,
     sb_topic_subscriber_prev = \<lambda>a. None, sb_subscriber = \<lambda>a. None, sb_subscriber_topic_next = \<lambda>a. None,
     sb_subscriber_topic_prev = \<lambda>a. None, sb_erasing_nodes = \<lambda>a. [], sb_working = \<lambda>a. False, sb_ref = \<lambda>a. 0,
     sb_head = \<lambda>t. None, sb_tail = \<lambda>t. None, sb_topic_head = \<lambda>u. None, sb_node = \<lambda>th. None, sb_msg = None\<rparr>"

definition with_node :: "nat \<Rightarrow> subs \<Rightarrow> 'a outcome \<Rightarrow> 'a outcome" where
  "with_node a s r = (if sb_alive s a then r else UB)"

fun tslot_read :: "subs \<Rightarrow> topic_slot \<Rightarrow> nat option" where
  "tslot_read s (THead t) = sb_head s t"
| "tslot_read s (TNext a) = sb_topic_subscriber_next s a"
| "tslot_read s (TLocal th) = sb_node s th"

fun tslot_write :: "topic_slot option \<Rightarrow> nat option \<Rightarrow> subs \<Rightarrow> subs outcome" where
  "tslot_write None v s = UB"
| "tslot_write (Some (THead t)) v s = Ok (s\<lparr>sb_head := (sb_head s)(t := v)\<rparr>)"
| "tslot_write (Some (TNext a)) v s =
     with_node a s (Ok (s\<lparr>sb_topic_subscriber_next := (sb_topic_subscriber_next s)(a := v)\<rparr>))"
| "tslot_write (Some (TLocal th)) v s = Ok (s\<lparr>sb_node := (sb_node s)(th := v)\<rparr>)"

fun sslot_write :: "subscriber_slot option \<Rightarrow> nat option \<Rightarrow> subs \<Rightarrow> subs outcome" where
  "sslot_write None v s = UB"
| "sslot_write (Some (SHead u)) v s = Ok (s\<lparr>sb_topic_head := (sb_topic_head s)(u := v)\<rparr>)"
| "sslot_write (Some (SNext a)) v s =
     with_node a s (Ok (s\<lparr>sb_subscriber_topic_next := (sb_subscriber_topic_next s)(a := v)\<rparr>))"

section \<open>Reference counts\<close>

definition add_ref :: "nat \<Rightarrow> subs \<Rightarrow> subs outcome" where
  "add_ref a s = with_node a s (Ok (s\<lparr>sb_ref := (sb_ref s)(a := fst (Atomic_pre_inc (sb_ref s a)))\<rparr>))"

definition del_ref :: "nat \<Rightarrow> subs \<Rightarrow> subs outcome" where
  "del_ref a s = with_node a s
     (let n = fst (Atomic_pre_dec (sb_ref s a))
      in Ok (if n = 0 then s\<lparr>sb_ref := (sb_ref s)(a := n), sb_alive := (sb_alive s)(a := False)\<rparr>
             else s\<lparr>sb_ref := (sb_ref s)(a := n)\<rparr>))"

text \<open>An \<open>AutoRefPtr\<close> is the node it points to, if any.\<close>

definition AutoRefPtr_add_ref :: "nat option \<Rightarrow> subs \<Rightarrow> subs outcome" where
  "AutoRefPtr_add_ref p s = (case p of None \<Rightarrow> Ok s | Some a \<Rightarrow> add_ref a s)"

definition AutoRefPtr_reset :: "nat option \<Rightarrow> nat option \<Rightarrow> subs \<Rightarrow> (subs \<times> nat option) outcome" where
  "AutoRefPtr_reset p p' s =
     obind (case p of None \<Rightarrow> Ok s | Some a \<Rightarrow> del_ref a s)
       (\<lambda>s1. obind (AutoRefPtr_add_ref p' s1) (\<lambda>s2. Ok (s2, p')))"

definition AutoRefPtr_copy :: "nat option \<Rightarrow> subs \<Rightarrow> (subs \<times> nat option) outcome" where
  "AutoRefPtr_copy other s = obind (AutoRefPtr_add_ref other s) (\<lambda>s1. Ok (s1, other))"

definition AutoRefPtr_assign :: "nat option \<Rightarrow> nat option \<Rightarrow> subs \<Rightarrow> (subs \<times> nat option) outcome" where
  "AutoRefPtr_assign p other s = AutoRefPtr_reset p other s"

text \<open>The move constructor and the move assignment: the new pointer and what is left in the other one.\<close>

definition AutoRefPtr_move :: "nat option \<Rightarrow> nat option \<times> nat option" where
  "AutoRefPtr_move other = (other, None)"

definition AutoRefPtr_move_assign ::
  "nat option \<Rightarrow> nat option \<Rightarrow> subs \<Rightarrow> (subs \<times> nat option \<times> nat option) outcome" where
  "AutoRefPtr_move_assign p other s =
     obind (AutoRefPtr_reset p other s) (\<lambda>(s1, p'). Ok (s1, p', None))"

definition AutoRefPtr_destroy :: "nat option \<Rightarrow> subs \<Rightarrow> subs outcome" where
  "AutoRefPtr_destroy p s = obind (AutoRefPtr_reset p None s) (\<lambda>(s1, p'). Ok s1)"

section \<open>One subscription\<close>

definition Subscription_new :: "nat \<Rightarrow> nat \<Rightarrow> nat \<Rightarrow> subs \<Rightarrow> subs" where
  "Subscription_new a t u s = s\<lparr>sb_alive := (sb_alive s)(a := True),
     sb_topic := (sb_topic s)(a := Some t), sb_subscriber := (sb_subscriber s)(a := Some u),
     sb_topic_subscriber_next := (sb_topic_subscriber_next s)(a := None),
     sb_topic_subscriber_prev := (sb_topic_subscriber_prev s)(a := None),
     sb_subscriber_topic_next := (sb_subscriber_topic_next s)(a := None),
     sb_subscriber_topic_prev := (sb_subscriber_topic_prev s)(a := None),
     sb_erasing_nodes := (sb_erasing_nodes s)(a := []), sb_working := (sb_working s)(a := False),
     sb_ref := (sb_ref s)(a := 0)\<rparr>"

definition add_topic_subscriber :: "nat \<Rightarrow> nat \<Rightarrow> subs \<Rightarrow> subs outcome" where
  "add_topic_subscriber a t s = with_node a s
     (obind (case sb_head s t of
         None \<Rightarrow> Ok (s\<lparr>sb_head := (sb_head s)(t := Some a),
                     sb_topic_subscriber_prev := (sb_topic_subscriber_prev s)(a := Some (THead t))\<rparr>)
       | Some h \<Rightarrow> (case sb_tail s t of
           None \<Rightarrow> UB
         | Some b \<Rightarrow> with_node b s
             (Ok (s\<lparr>sb_topic_subscriber_next := (sb_topic_subscriber_next s)(b := Some a),
                   sb_topic_subscriber_prev := (sb_topic_subscriber_prev s)(a := Some (TNext b))\<rparr>))))
       (\<lambda>s1. Ok (s1\<lparr>sb_tail := (sb_tail s1)(t := Some a)\<rparr>)))"

definition add_subscriber_topic :: "nat \<Rightarrow> nat \<Rightarrow> subs \<Rightarrow> subs outcome" where
  "add_subscriber_topic a u s = with_node a s
     (obind (case sb_topic_head s u of
         None \<Rightarrow> Ok s
       | Some h \<Rightarrow> with_node h s
           (Ok (s\<lparr>sb_subscriber_topic_prev := (sb_subscriber_topic_prev s)(h := Some (SNext a))\<rparr>)))
       (\<lambda>s1. Ok (s1\<lparr>sb_subscriber_topic_next := (sb_subscriber_topic_next s1)(a := sb_topic_head s u),
                   sb_subscriber_topic_prev := (sb_subscriber_topic_prev s1)(a := Some (SHead u)),
                   sb_topic_head := (sb_topic_head s1)(u := Some a)\<rparr>)))"

definition reserve_subscribe :: "nat \<Rightarrow> nat \<Rightarrow> nat \<Rightarrow> subs \<Rightarrow> subs outcome" where
  "reserve_subscribe a t u s =
     obind (add_topic_subscriber a t s) (\<lambda>s1.
     obind (add_subscriber_topic a u s1) (\<lambda>s2. add_ref a s2))"

definition confirm_subscribe :: "nat \<Rightarrow> subs \<Rightarrow> subs outcome" where
  "confirm_subscribe a s = with_node a s (Ok (s\<lparr>sb_working := (sb_working s)(a := True)\<rparr>))"

definition erase_topic_subscriber :: "nat \<Rightarrow> subs \<Rightarrow> subs outcome" where
  "erase_topic_subscriber a s = with_node a s
     (obind (tslot_write (sb_topic_subscriber_prev s a) (sb_topic_subscriber_next s a) s) (\<lambda>s1.
      obind (case sb_topic_subscriber_next s a of
          None \<Rightarrow> Ok s1
        | Some b \<Rightarrow> with_node b s1
            (Ok (s1\<lparr>sb_topic_subscriber_prev :=
               (sb_topic_subscriber_prev s1)(b := sb_topic_subscriber_prev s a)\<rparr>))) (\<lambda>s2.
      Ok (s2\<lparr>sb_subscriber := (sb_subscriber s2)(a := None)\<rparr>))))"

definition erase_subscriber_topic :: "nat \<Rightarrow> subs \<Rightarrow> subs outcome" where
  "erase_subscriber_topic a s = with_node a s
     (obind (sslot_write (sb_subscriber_topic_prev s a) (sb_subscriber_topic_next s a) s) (\<lambda>s1.
      obind (case sb_subscriber_topic_next s a of
          None \<Rightarrow> Ok s1
        | Some b \<Rightarrow> with_node b s1
            (Ok (s1\<lparr>sb_subscriber_topic_prev :=
               (sb_subscriber_topic_prev s1)(b := sb_subscriber_topic_prev s a)\<rparr>))) (\<lambda>s2.
      Ok (s2\<lparr>sb_topic := (sb_topic s2)(a := None)\<rparr>))))"

definition clear_erasing :: "nat \<Rightarrow> subs \<Rightarrow> subs" where
  "clear_erasing a s =
     s\<lparr>sb_node := \<lambda>th. if th \<in> set (sb_erasing_nodes s a) then None else sb_node s th\<rparr>"

definition unsubscribe :: "nat \<Rightarrow> subs \<Rightarrow> subs outcome" where
  "unsubscribe a s = with_node a s
     (obind (erase_subscriber_topic a (clear_erasing a s)) (\<lambda>s1.
      obind (erase_topic_subscriber a s1) (\<lambda>s2. del_ref a s2)))"

section \<open>Subscribers and topics\<close>

text \<open>The walk of \<open>has_topic\<close> and of \<open>Subscriber::unsubscribe\<close>: the first node of the topic, if any.\<close>

partial_function (option) find_topic_node :: "subs \<Rightarrow> nat \<Rightarrow> nat option \<Rightarrow> nat option outcome option" where
  "find_topic_node s t node = (case node of
     None \<Rightarrow> Some (Ok None)
   | Some a \<Rightarrow> if \<not> sb_alive s a then Some UB
       else if sb_topic s a = Some t then Some (Ok (Some a))
       else find_topic_node s t (sb_subscriber_topic_next s a))"

definition Subscriber_has_topic :: "nat \<Rightarrow> nat \<Rightarrow> subs \<Rightarrow> bool outcome option" where
  "Subscriber_has_topic u t s = map_option (\<lambda>r. obind r (\<lambda>found. Ok (found \<noteq> None)))
     (find_topic_node s t (sb_topic_head s u))"

definition Topic_has_subscriber :: "nat \<Rightarrow> subs \<Rightarrow> bool" where
  "Topic_has_subscriber t s \<longleftrightarrow> sb_head s t \<noteq> None"

text \<open>\<open>a\<close> is the address the allocator returns for the new node.\<close>

definition Topic_reserve_subscribe ::
  "nat \<Rightarrow> nat \<Rightarrow> nat \<Rightarrow> subs \<Rightarrow> (subs \<times> nat option) outcome option" where
  "Topic_reserve_subscribe a t u s = map_option (\<lambda>r. obind r (\<lambda>subscribed.
     if subscribed then Ok (s, None)
     else obind (reserve_subscribe a t u (Subscription_new a t u s)) (AutoRefPtr_reset None (Some a))))
     (Subscriber_has_topic u t s)"

text \<open>
  \<open>Subscriber::unsubscribe\<close> may release its mutex between finding the node and erasing it, so it
  is two steps of the thread \<open>th\<close>.
\<close>

definition Subscriber_unsubscribe_find :: "nat \<Rightarrow> nat \<Rightarrow> nat \<Rightarrow> subs \<Rightarrow> (subs \<times> bool) outcome option" where
  "Subscriber_unsubscribe_find th u t s = map_option (\<lambda>r. obind r (\<lambda>found. case found of
       None \<Rightarrow> Ok (s\<lparr>sb_node := (sb_node s)(th := None)\<rparr>, False)
     | Some a \<Rightarrow> Ok (s\<lparr>sb_node := (sb_node s)(th := Some a),
                      sb_erasing_nodes := (sb_erasing_nodes s)(a := th # sb_erasing_nodes s a)\<rparr>, True)))
     (find_topic_node s t (sb_topic_head s u))"

definition Subscriber_unsubscribe_erase :: "nat \<Rightarrow> subs \<Rightarrow> subs outcome" where
  "Subscriber_unsubscribe_erase th s = (case sb_node s th of None \<Rightarrow> Ok s | Some a \<Rightarrow> unsubscribe a s)"

definition Subscriber_unsubscribe :: "nat \<Rightarrow> nat \<Rightarrow> nat \<Rightarrow> subs \<Rightarrow> (subs \<times> bool) outcome option" where
  "Subscriber_unsubscribe th u t s = map_option (\<lambda>r. obind r (\<lambda>(s1, found).
     if found then obind (Subscriber_unsubscribe_erase th s1) (\<lambda>s2. Ok (s2, True)) else Ok (s1, False)))
     (Subscriber_unsubscribe_find th u t s)"

text \<open>Reading the mutex of the topic of the head node needs the node and its topic.\<close>

partial_function (option) Subscriber_unsubscribe_all :: "nat \<Rightarrow> subs \<Rightarrow> subs outcome option" where
  "Subscriber_unsubscribe_all u s = (case sb_topic_head s u of
     None \<Rightarrow> Some (Ok s)
   | Some a \<Rightarrow> if \<not> sb_alive s a \<or> sb_topic s a = None then Some UB
       else (case unsubscribe a s of
           Ok s1 \<Rightarrow> Subscriber_unsubscribe_all u s1
         | Err e \<Rightarrow> Some (Err e)
         | UB \<Rightarrow> Some UB))"

partial_function (option) Topic_clear_loop :: "nat \<Rightarrow> subs \<Rightarrow> subs outcome option" where
  "Topic_clear_loop th s = (case sb_node s th of
     None \<Rightarrow> Some (Ok s)
   | Some a \<Rightarrow> if \<not> sb_alive s a \<or> sb_subscriber s a = None then Some UB
       else (case unsubscribe a s of
           Ok s1 \<Rightarrow> Topic_clear_loop th s1
         | Err e \<Rightarrow> Some (Err e)
         | UB \<Rightarrow> Some UB))"

definition Topic_clear :: "nat \<Rightarrow> nat \<Rightarrow> subs \<Rightarrow> subs outcome option" where
  "Topic_clear th t s = (case sb_head s t of
     None \<Rightarrow> Some (Ok s)
   | Some a \<Rightarrow> if \<not> sb_alive s a then Some UB
       else map_option (\<lambda>r. obind r (\<lambda>s1. Ok (s1\<lparr>sb_head := (sb_head s1)(t := None),
                                                 sb_tail := (sb_tail s1)(t := None)\<rparr>)))
         (Topic_clear_loop th (s\<lparr>sb_node := (sb_node s)(th := Some a),
            sb_topic_subscriber_prev := (sb_topic_subscriber_prev s)(a := Some (TLocal th))\<rparr>)))"

end
