(* ===== verification/Eco_SubscriptionInv.thy ===== *)
theory Eco_SubscriptionInv
  imports Eco_Subscription
begin

text \<open>
  Correctness of the subscription lists of \<open>Eco_Subscription\<close>. The memory is described by two
  families of ghost lists, the subscriptions each topic can reach and the subscriptions of each
  subscriber; every operation is shown to succeed, to keep the memory well formed and to change
  the ghost lists as stated.
\<close>

section \<open>Doubly linked lists\<close>

text \<open>
  \<open>dpath nxt prv mk p x as\<close>: the place \<open>p\<close> contains \<open>x\<close>, from where the \<open>next\<close> fields lead through
  the nodes \<open>as\<close> to the end, and every \<open>prev\<close> field is the place that points to its node; \<open>mk a\<close>
  is the \<open>next\<close> field of \<open>a\<close> as a place.
\<close>

fun dpath :: "(nat \<Rightarrow> nat option) \<Rightarrow> (nat \<Rightarrow> 'p option) \<Rightarrow> (nat \<Rightarrow> 'p) \<Rightarrow> 'p \<Rightarrow> nat option \<Rightarrow> nat list \<Rightarrow> bool" where
  "dpath nxt prv mk p x [] = (x = None)"
| "dpath nxt prv mk p x (a # as) = (x = Some a \<and> prv a = Some p \<and> dpath nxt prv mk (mk a) (nxt a) as)"

lemma dpath_None [simp]: "dpath nxt prv mk p None as = (as = [])"
  by (cases as) auto

lemma dpath_frame:
  "dpath nxt prv mk p x as \<Longrightarrow> \<forall>a \<in> set as. nxt' a = nxt a \<and> prv' a = prv a \<Longrightarrow> dpath nxt' prv' mk p x as"
  by (induction as arbitrary: p x) auto

lemma dpath_unique: "dpath nxt prv mk p x as \<Longrightarrow> dpath nxt prv' mk p' x bs \<Longrightarrow> as = bs"
proof (induction as arbitrary: p p' x bs)
  case (Cons a as)
  then show ?case by (cases bs) auto
qed auto

lemma dpath_suffix: "dpath nxt prv mk p x (as @ a # bs) \<Longrightarrow> dpath nxt prv mk (mk a) (nxt a) bs"
  by (induction as arbitrary: p x) auto

lemma dpath_distinct: "dpath nxt prv mk p x as \<Longrightarrow> distinct as"
proof (induction as arbitrary: p x)
  case (Cons a as)
  have "a \<notin> set as"
  proof
    assume "a \<in> set as"
    then obtain us vs where as: "as = us @ a # vs" by (auto simp: in_set_conv_decomp)
    have "dpath nxt prv mk (mk a) (nxt a) as" "dpath nxt prv mk (mk a) (nxt a) vs"
      using Cons.prems dpath_suffix [of nxt prv mk p x "a # us" a vs] by (auto simp: as)
    then have "as = vs" by (rule dpath_unique)
    then show False using as by simp
  qed
  with Cons show ?case by auto
qed simp

lemma dpath_prev:
  "dpath nxt prv mk p x as \<Longrightarrow> a \<in> set as \<Longrightarrow> prv a = Some p \<or> (\<exists>b \<in> set as. prv a = Some (mk b))"
  by (induction as arbitrary: p x) auto

lemma dpath_next: "dpath nxt prv mk p x as \<Longrightarrow> a \<in> set as \<Longrightarrow> nxt a = Some b \<Longrightarrow> b \<in> set as \<and> prv b = Some (mk a)"
  by (induction as arbitrary: p x) (case_tac as; auto)+

lemma dpath_end: "dpath nxt prv mk p x as \<Longrightarrow> a \<in> set as \<Longrightarrow> nxt a = None \<Longrightarrow> a = last as"
  by (induction as arbitrary: p x) (case_tac as; auto)+

lemma dpath_last: "dpath nxt prv mk p x as \<Longrightarrow> as \<noteq> [] \<Longrightarrow> nxt (last as) = None"
  by (induction as arbitrary: p x) (case_tac as; auto)+

text \<open>Appending behind the last node, and in front of the first one.\<close>

lemma dpath_append:
  assumes "dpath nxt prv mk p x as" "a \<notin> set as" "nxt a = None"
  shows "dpath (if as = [] then nxt else nxt(last as := Some a))
           (prv(a := Some (if as = [] then p else mk (last as)))) mk p (if as = [] then Some a else x) (as @ [a])"
  using assms
proof (induction as arbitrary: p x)
  case (Cons c cs)
  show ?case
  proof (cases "cs = []")
    case True
    then show ?thesis using Cons.prems by auto
  next
    case False
    have c: "dpath nxt prv mk (mk c) (nxt c) cs" "a \<notin> set cs" using Cons.prems by auto
    have tail: "dpath (nxt(last cs := Some a)) (prv(a := Some (mk (last cs)))) mk (mk c) (nxt c) (cs @ [a])"
      using Cons.IH [OF c Cons.prems(3)] False by (simp only: if_False)
    have "c \<noteq> last cs" using dpath_distinct [OF Cons.prems(1)] False by auto
    then show ?thesis using False Cons.prems using tail by (simp add: fun_upd_def)
  qed
qed auto

lemma dpath_push:
  assumes "dpath nxt prv mk p x as" "a \<notin> set as"
  shows "dpath (nxt(a := x)) ((case x of None \<Rightarrow> prv | Some h \<Rightarrow> prv(h := Some (mk a)))(a := Some p)) mk p (Some a) (a # as)"
proof (cases as)
  case (Cons h t)
  then have "h \<notin> set t" using dpath_distinct [OF assms(1)] by auto
  with Cons assms show ?thesis by (auto elim!: dpath_frame)
qed (use assms in auto)

text \<open>Taking a node out: what its \<open>prev\<close> field points to becomes its \<open>next\<close> field.\<close>

lemma dpath_remove:
  assumes "dpath nxt prv mk p x as" "a \<in> set as" "inj mk" "p \<notin> mk ` set as"
    and nxt': "\<And>c. nxt' c = (if prv a = Some (mk c) then nxt a else nxt c)"
    and prv': "prv' = (case nxt a of None \<Rightarrow> prv | Some b \<Rightarrow> prv(b := prv a))"
  shows "dpath nxt' prv' mk p (if prv a = Some p then nxt a else x) (remove1 a as)"
  using assms(1,2,4)
proof (induction as arbitrary: p x)
  case (Cons c cs)
  have dist: "distinct (c # cs)" by (rule dpath_distinct [OF Cons.prems(1)])
  have c: "x = Some c" "prv c = Some p" "dpath nxt prv mk (mk c) (nxt c) cs" using Cons.prems(1) by auto
  show ?case
  proof (cases "a = c")
    case True
    have keep: "\<forall>d \<in> set cs. nxt' d = nxt d" using c(2) Cons.prems(3) True by (auto simp: nxt')
    show ?thesis
    proof (cases cs)
      case (Cons b bs)
      then have "b \<noteq> a" "nxt a = Some b" "dpath nxt prv mk (mk b) (nxt b) bs" "b \<notin> set bs"
        using c(3) dist True by auto
      then show ?thesis using True c(2) Cons keep by (auto simp: prv' elim!: dpath_frame)
    qed (use True c in auto)
  next
    case False
    have a: "a \<in> set cs" using Cons.prems(2) False by simp
    have "prv a \<noteq> Some p" using dpath_prev [OF c(3) a] Cons.prems(3) by auto
    moreover have "prv' c = Some p"
      using c(2) dpath_next [OF c(3) a] dist by (auto simp: prv' split: option.splits)
    moreover have "mk c \<notin> mk ` set cs" using dist assms(3) by (auto dest: injD)
    then have "dpath nxt' prv' mk (mk c) (nxt' c) (remove1 a cs)"
      using Cons.IH [OF c(3) a] unfolding nxt' [of c] by blast
    ultimately show ?thesis using False c(1) by simp
  qed
qed simp

section \<open>Well-formed memory\<close>

text \<open>
  \<open>T t\<close> are the subscriptions that can be reached from the topic \<open>t\<close>, \<open>S u\<close> those of the
  subscriber \<open>u\<close>. \<open>R t\<close> is the place where the list of \<open>t\<close> starts: its head, or the local
  variable of a thread that is clearing it.
\<close>

definition lists_ok :: "(nat \<Rightarrow> topic_slot) \<Rightarrow> (nat \<Rightarrow> nat list) \<Rightarrow> (nat \<Rightarrow> nat list) \<Rightarrow> subs \<Rightarrow> bool" where
  "lists_ok R T S s \<longleftrightarrow>
     (\<forall>t. dpath (sb_topic_subscriber_next s) (sb_topic_subscriber_prev s) TNext (R t) (tslot_read s (R t)) (T t)) \<and>
     (\<forall>u. dpath (sb_subscriber_topic_next s) (sb_subscriber_topic_prev s) SNext (SHead u) (sb_topic_head s u) (S u))"

definition nodes_ok :: "(nat \<Rightarrow> nat list) \<Rightarrow> (nat \<Rightarrow> nat list) \<Rightarrow> subs \<Rightarrow> bool" where
  "nodes_ok T S s \<longleftrightarrow>
     (\<forall>u a. a \<in> set (S u) \<longleftrightarrow> sb_alive s a \<and> sb_subscriber s a = Some u) \<and>
     (\<forall>a. sb_alive s a \<longrightarrow> (sb_subscriber s a = None \<longleftrightarrow> sb_topic s a = None)) \<and>
     (\<forall>t. \<forall>a \<in> set (T t). sb_alive s a \<and> sb_topic s a = Some t)"

text \<open>A node in use is where its \<open>prev\<close> field says, even one its topic cannot reach any more.\<close>

definition links_ok :: "(nat \<Rightarrow> topic_slot) \<Rightarrow> subs \<Rightarrow> bool" where
  "links_ok R s \<longleftrightarrow>
     (\<forall>a t. sb_alive s a \<and> sb_topic s a = Some t \<longrightarrow>
        (\<exists>q. sb_topic_subscriber_prev s a = Some q \<and> tslot_read s q = Some a \<and>
           (q = R t \<or> (\<exists>c. q = TNext c \<and> sb_alive s c)))) \<and>
     (\<forall>a b. sb_alive s a \<and> sb_topic s a \<noteq> None \<and> sb_topic_subscriber_next s a = Some b \<longrightarrow>
        sb_alive s b \<and> sb_topic s b = sb_topic s a \<and> sb_topic_subscriber_prev s b = Some (TNext a))"

definition tails_ok :: "(nat \<Rightarrow> nat list) \<Rightarrow> subs \<Rightarrow> bool" where
  "tails_ok T s \<longleftrightarrow>
     (\<forall>t x. sb_tail s t = Some x \<longrightarrow> sb_alive s x \<and> (\<forall>t'. sb_tail s t' = Some x \<longrightarrow> t' = t)) \<and>
     (\<forall>t. T t \<noteq> [] \<longrightarrow> (\<exists>x. sb_tail s t = Some x \<and>
        sb_topic_subscriber_next s x = None \<and> (sb_topic s x = None \<or> sb_topic s x = Some t)))"

lemma tails_okD:
  assumes "tails_ok T s"
  shows "sb_tail s t = Some x \<Longrightarrow> sb_alive s x" "sb_tail s t = Some x \<Longrightarrow> sb_tail s t' = Some x \<Longrightarrow> t' = t"
    and "T t \<noteq> [] \<Longrightarrow> \<exists>x. sb_tail s t = Some x \<and> sb_topic_subscriber_next s x = None \<and>
        (sb_topic s x = None \<or> sb_topic s x = Some t)"
  using assms by (simp_all add: tails_ok_def)

text \<open>
  A subscription in use counts two references, the one it starts with and one that no code path
  gives back; the message the publishing thread works on adds one.
\<close>

definition refs_ok :: "subs \<Rightarrow> bool" where
  "refs_ok s \<longleftrightarrow> (\<forall>a. sb_alive s a \<longrightarrow> sb_ref s a =
       (if sb_topic s a = None then 1 else 2) + (if sb_msg s = Some a then 1 else 0)) \<and>
     (\<forall>a. sb_msg s = Some a \<longrightarrow> sb_alive s a)"

lemma refs_okD:
  assumes "refs_ok s"
  shows "sb_alive s a \<Longrightarrow> sb_ref s a = (if sb_topic s a = None then 1 else 2) + (if sb_msg s = Some a then 1 else 0)"
    and "sb_alive s a \<Longrightarrow> sb_topic s a \<noteq> None \<Longrightarrow> 2 \<le> sb_ref s a"
    and "sb_msg s = Some a \<Longrightarrow> sb_alive s a"
  using assms by (auto simp: refs_ok_def word_le_nat_alt)

text \<open>A thread that has found a node is registered with it, and only there.\<close>

definition erasing_ok :: "(nat \<Rightarrow> topic_slot) \<Rightarrow> subs \<Rightarrow> bool" where
  "erasing_ok R s \<longleftrightarrow>
     (\<forall>a th. sb_alive s a \<and> sb_topic s a \<noteq> None \<and> th \<in> set (sb_erasing_nodes s a) \<longrightarrow>
        sb_node s th = Some a \<and> (\<forall>t. R t \<noteq> TLocal th)) \<and>
     (\<forall>th a. sb_node s th = Some a \<and> (\<forall>t. R t \<noteq> TLocal th) \<longrightarrow>
        sb_alive s a \<and> sb_topic s a \<noteq> None \<and> th \<in> set (sb_erasing_nodes s a))"

definition roots_ok :: "(nat \<Rightarrow> topic_slot) \<Rightarrow> bool" where
  "roots_ok R \<longleftrightarrow> inj R \<and> (\<forall>t a. R t \<noteq> TNext a) \<and> (\<forall>t t'. R t = THead t' \<longrightarrow> t' = t)"

definition subs_inv :: "(nat \<Rightarrow> topic_slot) \<Rightarrow> (nat \<Rightarrow> nat list) \<Rightarrow> (nat \<Rightarrow> nat list) \<Rightarrow> subs \<Rightarrow> bool" where
  "subs_inv R T S s \<longleftrightarrow> roots_ok R \<and> lists_ok R T S s \<and> nodes_ok T S s \<and> links_ok R s \<and> tails_ok T s \<and>
     refs_ok s \<and> erasing_ok R s"

abbreviation subs_ok :: "(nat \<Rightarrow> nat list) \<Rightarrow> (nat \<Rightarrow> nat list) \<Rightarrow> subs \<Rightarrow> bool" where
  "subs_ok \<equiv> subs_inv THead"

lemma roots_THead [simp]: "roots_ok THead"
  by (simp add: roots_ok_def inj_def)

lemma no_subs_ok: "subs_ok (\<lambda>t. []) (\<lambda>u. []) no_subs"
  by (simp add: subs_inv_def lists_ok_def nodes_ok_def links_ok_def tails_ok_def refs_ok_def erasing_ok_def no_subs_def)

section \<open>Erasing a subscription\<close>

text \<open>The memory after a subscription is erased, all fields at once.\<close>

definition unsubscribed :: "nat \<Rightarrow> subs \<Rightarrow> subs" where
  "unsubscribed a s =
     (let q = sb_topic_subscriber_prev s a; y = sb_topic_subscriber_next s a;
          sq = sb_subscriber_topic_prev s a; sy = sb_subscriber_topic_next s a
      in s\<lparr>sb_topic := (sb_topic s)(a := None), sb_subscriber := (sb_subscriber s)(a := None),
           sb_topic_subscriber_next := (\<lambda>c. if q = Some (TNext c) then y else sb_topic_subscriber_next s c),
           sb_topic_subscriber_prev := (case y of None \<Rightarrow> sb_topic_subscriber_prev s
              | Some b \<Rightarrow> (sb_topic_subscriber_prev s)(b := q)),
           sb_subscriber_topic_next := (\<lambda>c. if sq = Some (SNext c) then sy else sb_subscriber_topic_next s c),
           sb_subscriber_topic_prev := (case sy of None \<Rightarrow> sb_subscriber_topic_prev s
              | Some b \<Rightarrow> (sb_subscriber_topic_prev s)(b := sq)),
           sb_head := (\<lambda>t. if q = Some (THead t) then y else sb_head s t),
           sb_topic_head := (\<lambda>u. if sq = Some (SHead u) then sy else sb_topic_head s u),
           sb_node := (\<lambda>th. if q = Some (TLocal th) then y
              else if th \<in> set (sb_erasing_nodes s a) then None else sb_node s th),
           sb_ref := (sb_ref s)(a := sb_ref s a - 1)\<rparr>)"

lemma tslot_write_eq:
  assumes "\<And>c. q = TNext c \<Longrightarrow> sb_alive s c"
  shows "tslot_write (Some q) y s =
    Ok (s\<lparr>sb_topic_subscriber_next := (\<lambda>c. if q = TNext c then y else sb_topic_subscriber_next s c),
          sb_head := (\<lambda>t. if q = THead t then y else sb_head s t),
          sb_node := (\<lambda>th. if q = TLocal th then y else sb_node s th)\<rparr>)"
  using assms by (cases q; cases s) (auto simp: with_node_def fun_eq_iff)

lemma sslot_write_eq:
  assumes "\<And>c. q = SNext c \<Longrightarrow> sb_alive s c"
  shows "sslot_write (Some q) y s =
    Ok (s\<lparr>sb_subscriber_topic_next := (\<lambda>c. if q = SNext c then y else sb_subscriber_topic_next s c),
          sb_topic_head := (\<lambda>u. if q = SHead u then y else sb_topic_head s u)\<rparr>)"
  using assms by (cases q; cases s) (auto simp: with_node_def fun_eq_iff)

text \<open>Each half of erasing a node, as one update.\<close>

lemma erase_subscriber_topic_eq:
  assumes "sb_alive s a" "sb_subscriber_topic_prev s a \<noteq> None"
    and "\<And>c. sb_subscriber_topic_prev s a = Some (SNext c) \<Longrightarrow> sb_alive s c"
    and "\<And>b. sb_subscriber_topic_next s a = Some b \<Longrightarrow> sb_alive s b"
  shows "erase_subscriber_topic a s = Ok (s\<lparr>sb_topic := (sb_topic s)(a := None),
     sb_subscriber_topic_next := (\<lambda>c. if sb_subscriber_topic_prev s a = Some (SNext c)
        then sb_subscriber_topic_next s a else sb_subscriber_topic_next s c),
     sb_subscriber_topic_prev := (case sb_subscriber_topic_next s a of None \<Rightarrow> sb_subscriber_topic_prev s
        | Some b \<Rightarrow> (sb_subscriber_topic_prev s)(b := sb_subscriber_topic_prev s a)),
     sb_topic_head := (\<lambda>u. if sb_subscriber_topic_prev s a = Some (SHead u)
        then sb_subscriber_topic_next s a else sb_topic_head s u)\<rparr>)"
  using assms
  by (cases "sb_subscriber_topic_next s a"; cases "sb_subscriber_topic_prev s a")
    (simp_all add: erase_subscriber_topic_def with_node_def sslot_write_eq cong del: if_weak_cong)

lemma erase_topic_subscriber_eq:
  assumes "sb_alive s a" "sb_topic_subscriber_prev s a \<noteq> None"
    and "\<And>c. sb_topic_subscriber_prev s a = Some (TNext c) \<Longrightarrow> sb_alive s c"
    and "\<And>b. sb_topic_subscriber_next s a = Some b \<Longrightarrow> sb_alive s b"
  shows "erase_topic_subscriber a s = Ok (s\<lparr>sb_subscriber := (sb_subscriber s)(a := None),
     sb_topic_subscriber_next := (\<lambda>c. if sb_topic_subscriber_prev s a = Some (TNext c)
        then sb_topic_subscriber_next s a else sb_topic_subscriber_next s c),
     sb_topic_subscriber_prev := (case sb_topic_subscriber_next s a of None \<Rightarrow> sb_topic_subscriber_prev s
        | Some b \<Rightarrow> (sb_topic_subscriber_prev s)(b := sb_topic_subscriber_prev s a)),
     sb_head := (\<lambda>t. if sb_topic_subscriber_prev s a = Some (THead t)
        then sb_topic_subscriber_next s a else sb_head s t),
     sb_node := (\<lambda>th. if sb_topic_subscriber_prev s a = Some (TLocal th)
        then sb_topic_subscriber_next s a else sb_node s th)\<rparr>)"
  using assms
  by (cases "sb_topic_subscriber_next s a"; cases "sb_topic_subscriber_prev s a")
    (simp_all add: erase_topic_subscriber_def with_node_def tslot_write_eq cong del: if_weak_cong)

lemma del_ref_eq: "sb_alive s a \<Longrightarrow> 2 \<le> sb_ref s a \<Longrightarrow> del_ref a s = Ok (s\<lparr>sb_ref := (sb_ref s)(a := sb_ref s a - 1)\<rparr>)"
  by (auto simp: del_ref_def with_node_def Atomic_pre_dec_def exchange_add_def word_le_nat_alt Let_def)

lemma unsubscribe_eq:
  assumes "sb_alive s a" "sb_topic_subscriber_prev s a \<noteq> None"
    and "\<And>c. sb_topic_subscriber_prev s a = Some (TNext c) \<Longrightarrow> sb_alive s c"
    and "\<And>b. sb_topic_subscriber_next s a = Some b \<Longrightarrow> sb_alive s b"
    and "sb_subscriber_topic_prev s a \<noteq> None"
    and "\<And>c. sb_subscriber_topic_prev s a = Some (SNext c) \<Longrightarrow> sb_alive s c"
    and "\<And>b. sb_subscriber_topic_next s a = Some b \<Longrightarrow> sb_alive s b"
    and "2 \<le> sb_ref s a"
  shows "unsubscribe a s = Ok (unsubscribed a s)"
proof -
  define s0 where "s0 = clear_erasing a s"
  have s0: "sb_alive s0 = sb_alive s" "sb_subscriber_topic_prev s0 = sb_subscriber_topic_prev s"
      "sb_subscriber_topic_next s0 = sb_subscriber_topic_next s" "sb_topic_subscriber_prev s0 = sb_topic_subscriber_prev s"
      "sb_topic_subscriber_next s0 = sb_topic_subscriber_next s" "sb_ref s0 = sb_ref s"
    by (simp_all add: s0_def clear_erasing_def)
  obtain s1 where s1: "erase_subscriber_topic a s0 = Ok s1" and s1_def: "s1 = s0\<lparr>sb_topic := (sb_topic s0)(a := None),
     sb_subscriber_topic_next := (\<lambda>c. if sb_subscriber_topic_prev s0 a = Some (SNext c)
        then sb_subscriber_topic_next s0 a else sb_subscriber_topic_next s0 c),
     sb_subscriber_topic_prev := (case sb_subscriber_topic_next s0 a of None \<Rightarrow> sb_subscriber_topic_prev s0
        | Some b \<Rightarrow> (sb_subscriber_topic_prev s0)(b := sb_subscriber_topic_prev s0 a)),
     sb_topic_head := (\<lambda>u. if sb_subscriber_topic_prev s0 a = Some (SHead u)
        then sb_subscriber_topic_next s0 a else sb_topic_head s0 u)\<rparr>"
    using erase_subscriber_topic_eq [of s0 a] assms(1,5,6,7) unfolding s0 by blast
  have s1': "sb_alive s1 = sb_alive s" "sb_topic_subscriber_prev s1 = sb_topic_subscriber_prev s"
      "sb_topic_subscriber_next s1 = sb_topic_subscriber_next s" "sb_ref s1 = sb_ref s"
    by (simp_all add: s1_def s0)
  obtain s2 where s2: "erase_topic_subscriber a s1 = Ok s2" and s2_def: "s2 = s1\<lparr>sb_subscriber := (sb_subscriber s1)(a := None),
     sb_topic_subscriber_next := (\<lambda>c. if sb_topic_subscriber_prev s1 a = Some (TNext c)
        then sb_topic_subscriber_next s1 a else sb_topic_subscriber_next s1 c),
     sb_topic_subscriber_prev := (case sb_topic_subscriber_next s1 a of None \<Rightarrow> sb_topic_subscriber_prev s1
        | Some b \<Rightarrow> (sb_topic_subscriber_prev s1)(b := sb_topic_subscriber_prev s1 a)),
     sb_head := (\<lambda>t. if sb_topic_subscriber_prev s1 a = Some (THead t)
        then sb_topic_subscriber_next s1 a else sb_head s1 t),
     sb_node := (\<lambda>th. if sb_topic_subscriber_prev s1 a = Some (TLocal th)
        then sb_topic_subscriber_next s1 a else sb_node s1 th)\<rparr>"
    using erase_topic_subscriber_eq [of s1 a] assms(1,2,3,4) unfolding s1' by blast
  have "del_ref a s2 = Ok (s2\<lparr>sb_ref := (sb_ref s2)(a := sb_ref s2 a - 1)\<rparr>)"
    using assms(1,8) by (intro del_ref_eq) (simp_all add: s2_def s1')
  then have "unsubscribe a s = Ok (s2\<lparr>sb_ref := (sb_ref s2)(a := sb_ref s2 a - 1)\<rparr>)"
    using assms(1) s1 s2 by (simp add: unsubscribe_def with_node_def s0_def)
  then show ?thesis
    by (simp add: unsubscribed_def Let_def s2_def s1_def s0_def clear_erasing_def cong del: if_weak_cong option.case_cong_weak)
qed

lemma unsubscribed_sel [simp]:
  "sb_alive (unsubscribed a s) = sb_alive s"
  "sb_topic (unsubscribed a s) = (sb_topic s)(a := None)"
  "sb_subscriber (unsubscribed a s) = (sb_subscriber s)(a := None)"
  "sb_topic_subscriber_next (unsubscribed a s) = (\<lambda>c. if sb_topic_subscriber_prev s a = Some (TNext c)
     then sb_topic_subscriber_next s a else sb_topic_subscriber_next s c)"
  "sb_topic_subscriber_prev (unsubscribed a s) = (case sb_topic_subscriber_next s a of
     None \<Rightarrow> sb_topic_subscriber_prev s
   | Some b \<Rightarrow> (sb_topic_subscriber_prev s)(b := sb_topic_subscriber_prev s a))"
  "sb_subscriber_topic_next (unsubscribed a s) = (\<lambda>c. if sb_subscriber_topic_prev s a = Some (SNext c)
     then sb_subscriber_topic_next s a else sb_subscriber_topic_next s c)"
  "sb_subscriber_topic_prev (unsubscribed a s) = (case sb_subscriber_topic_next s a of
     None \<Rightarrow> sb_subscriber_topic_prev s
   | Some b \<Rightarrow> (sb_subscriber_topic_prev s)(b := sb_subscriber_topic_prev s a))"
  "sb_head (unsubscribed a s) = (\<lambda>t. if sb_topic_subscriber_prev s a = Some (THead t)
     then sb_topic_subscriber_next s a else sb_head s t)"
  "sb_tail (unsubscribed a s) = sb_tail s"
  "sb_topic_head (unsubscribed a s) = (\<lambda>u. if sb_subscriber_topic_prev s a = Some (SHead u)
     then sb_subscriber_topic_next s a else sb_topic_head s u)"
  "sb_node (unsubscribed a s) = (\<lambda>th. if sb_topic_subscriber_prev s a = Some (TLocal th) then sb_topic_subscriber_next s a
     else if th \<in> set (sb_erasing_nodes s a) then None else sb_node s th)"
  "sb_erasing_nodes (unsubscribed a s) = sb_erasing_nodes s"
  "sb_working (unsubscribed a s) = sb_working s"
  "sb_msg (unsubscribed a s) = sb_msg s"
  "sb_ref (unsubscribed a s) = (sb_ref s)(a := sb_ref s a - 1)"
  by (simp_all add: unsubscribed_def Let_def)

text \<open>What the invariant says of one node in use.\<close>

lemma subs_invD:
  assumes "subs_inv R T S s"
  shows "roots_ok R" "lists_ok R T S s" "nodes_ok T S s" "links_ok R s" "tails_ok T s" "refs_ok s" "erasing_ok R s"
  using assms by (simp_all add: subs_inv_def)

lemma roots_okD:
  assumes "roots_ok R"
  shows "R t = R t' \<Longrightarrow> t = t'" "R t \<noteq> TNext a" "TNext a \<noteq> R t" "R t = THead t' \<Longrightarrow> t' = t"
  using assms unfolding roots_ok_def inj_def by metis+

lemma nodes_okD:
  assumes "nodes_ok T S s"
  shows "a \<in> set (S u) \<longleftrightarrow> sb_alive s a \<and> sb_subscriber s a = Some u"
    and "sb_alive s a \<Longrightarrow> sb_subscriber s a = None \<longleftrightarrow> sb_topic s a = None"
    and "a \<in> set (T t) \<Longrightarrow> sb_alive s a \<and> sb_topic s a = Some t"
  using assms by (simp_all add: nodes_ok_def)

lemma links_okD:
  assumes "links_ok R s" "sb_alive s a"
  shows "sb_topic s a = Some t \<Longrightarrow> \<exists>q. sb_topic_subscriber_prev s a = Some q \<and> tslot_read s q = Some a \<and>
       (q = R t \<or> (\<exists>c. q = TNext c \<and> sb_alive s c))"
    and "sb_topic s a = Some t \<Longrightarrow> sb_topic_subscriber_next s a = Some b \<Longrightarrow>
       sb_alive s b \<and> sb_topic s b = Some t \<and> sb_topic_subscriber_prev s b = Some (TNext a)"
proof -
  note links = assms(1) [unfolded links_ok_def]
  show "sb_topic s a = Some t \<Longrightarrow> \<exists>q. sb_topic_subscriber_prev s a = Some q \<and> tslot_read s q = Some a \<and>
       (q = R t \<or> (\<exists>c. q = TNext c \<and> sb_alive s c))"
    using conjunct1 [OF links, rule_format, of a t] assms(2) by simp
  show "sb_topic s a = Some t \<Longrightarrow> sb_topic_subscriber_next s a = Some b \<Longrightarrow>
       sb_alive s b \<and> sb_topic s b = Some t \<and> sb_topic_subscriber_prev s b = Some (TNext a)"
    using conjunct2 [OF links, rule_format, of a b] assms(2) by simp
qed

lemma subs_inv_node:
  assumes inv: "subs_inv R T S s" and a: "sb_alive s a" "sb_topic s a = Some t"
  obtains u q where "sb_subscriber s a = Some u" "a \<in> set (S u)" "sb_topic_subscriber_prev s a = Some q"
    "tslot_read s q = Some a" "q = R t \<or> (\<exists>c. q = TNext c \<and> sb_alive s c)"
proof -
  note nodes = nodes_okD [OF subs_invD(3) [OF inv]]
  obtain u where "sb_subscriber s a = Some u" using nodes(2) a by fastforce
  moreover from this have "a \<in> set (S u)" using nodes(1) a by simp
  moreover note links_okD(1) [OF subs_invD(4) [OF inv] a]
  ultimately show ?thesis using that by blast
qed

lemma subs_inv_next:
  assumes "subs_inv R T S s" "sb_alive s a" "sb_topic s a = Some t" "sb_topic_subscriber_next s a = Some b"
  shows "sb_alive s b" "sb_topic s b = Some t" "sb_topic_subscriber_prev s b = Some (TNext a)"
  using links_okD(2) [OF subs_invD(4) [OF assms(1)] assms(2,3,4)] by auto

lemma subs_inv_subscriber_list:
  assumes "subs_inv R T S s" "sb_alive s a" "sb_subscriber s a = Some u"
  shows "sb_subscriber_topic_prev s a = Some (SHead u) \<or>
      (\<exists>c. sb_alive s c \<and> sb_subscriber s c = Some u \<and> sb_subscriber_topic_prev s a = Some (SNext c))"
    and "sb_subscriber_topic_next s a = Some b \<Longrightarrow> sb_alive s b \<and> sb_subscriber s b = Some u"
proof -
  have path: "dpath (sb_subscriber_topic_next s) (sb_subscriber_topic_prev s) SNext (SHead u) (sb_topic_head s u) (S u)"
    and mem: "\<And>c. c \<in> set (S u) \<longleftrightarrow> sb_alive s c \<and> sb_subscriber s c = Some u"
    using assms(1) by (auto simp: subs_inv_def lists_ok_def nodes_ok_def)
  have a: "a \<in> set (S u)" using mem assms by simp
  show "sb_subscriber_topic_prev s a = Some (SHead u) \<or>
      (\<exists>c. sb_alive s c \<and> sb_subscriber s c = Some u \<and> sb_subscriber_topic_prev s a = Some (SNext c))"
    using dpath_prev [OF path a] mem by auto
  show "sb_subscriber_topic_next s a = Some b \<Longrightarrow> sb_alive s b \<and> sb_subscriber s b = Some u"
    using dpath_next [OF path a] mem by auto
qed

lemma unsubscribe_inv_eq:
  assumes inv: "subs_inv R T S s" and a: "sb_alive s a" "sb_topic s a = Some t"
  shows "unsubscribe a s = Ok (unsubscribed a s)"
proof -
  obtain u q where u: "sb_subscriber s a = Some u" and q: "sb_topic_subscriber_prev s a = Some q"
      "q = R t \<or> (\<exists>c. q = TNext c \<and> sb_alive s c)"
    using subs_inv_node [OF inv a] by blast
  note roots = roots_okD [OF subs_invD(1) [OF inv]]
  have ref: "2 \<le> sb_ref s a" using refs_okD(2) [OF subs_invD(6) [OF inv] a(1)] a(2) by simp
  show ?thesis
  proof (rule unsubscribe_eq [OF a(1)])
    show "sb_topic_subscriber_prev s a \<noteq> None" using q by simp
    show "\<And>c. sb_topic_subscriber_prev s a = Some (TNext c) \<Longrightarrow> sb_alive s c" using q roots by auto
    show "\<And>b. sb_topic_subscriber_next s a = Some b \<Longrightarrow> sb_alive s b" using subs_inv_next [OF inv a] by blast
    show "sb_subscriber_topic_prev s a \<noteq> None" using subs_inv_subscriber_list(1) [OF inv a(1) u] by auto
    show "\<And>c. sb_subscriber_topic_prev s a = Some (SNext c) \<Longrightarrow> sb_alive s c"
      using subs_inv_subscriber_list(1) [OF inv a(1) u] by auto
    show "\<And>b. sb_subscriber_topic_next s a = Some b \<Longrightarrow> sb_alive s b"
      using subs_inv_subscriber_list(2) [OF inv a(1) u] by blast
  qed (rule ref)
qed

text \<open>A node the topic cannot reach has no neighbour the topic can reach.\<close>

lemma unreachable_next:
  assumes "dpath nxt prv TNext p x as" "a \<notin> set as" "prv b = Some (TNext a)" "\<And>d. p \<noteq> TNext d"
  shows "b \<notin> set as"
  using dpath_prev [OF assms(1), of b] assms(2-4) by auto

lemma unreachable_prev:
  assumes "dpath nxt prv mk p x as" "a \<notin> set as" "nxt c = Some a"
  shows "c \<notin> set as"
  using dpath_next [OF assms(1), of c] assms(2,3) by auto

lemma unsubscribed_lists:
  assumes inv: "subs_inv R T S s" and a: "sb_alive s a" "sb_topic s a = Some t" and u: "sb_subscriber s a = Some u"
  shows "lists_ok R (T(t := remove1 a (T t))) (S(u := remove1 a (S u))) (unsubscribed a s)"
  unfolding lists_ok_def
proof (intro conjI allI)
  obtain q where q: "sb_topic_subscriber_prev s a = Some q" "tslot_read s q = Some a"
      "q = R t \<or> (\<exists>c. q = TNext c \<and> sb_alive s c)"
    using subs_inv_node [OF inv a] by blast
  note roots = roots_okD [OF subs_invD(1) [OF inv]]
  have paths: "\<And>t. dpath (sb_topic_subscriber_next s) (sb_topic_subscriber_prev s) TNext (R t) (tslot_read s (R t)) (T t)"
      "\<And>u. dpath (sb_subscriber_topic_next s) (sb_subscriber_topic_prev s) SNext (SHead u) (sb_topic_head s u) (S u)"
    using inv by (auto simp: subs_inv_def lists_ok_def)
  have erasing: "th \<notin> set (sb_erasing_nodes s a)" if "R t = TLocal th" for t th
    using inv a that unfolding subs_inv_def erasing_ok_def by blast
  have read: "tslot_read (unsubscribed a s) (R t') =
      (if sb_topic_subscriber_prev s a = Some (R t') then sb_topic_subscriber_next s a else tslot_read s (R t'))" for t'
    using roots(2) erasing by (cases "R t'") auto
  fix t'
  show "dpath (sb_topic_subscriber_next (unsubscribed a s)) (sb_topic_subscriber_prev (unsubscribed a s)) TNext (R t')
      (tslot_read (unsubscribed a s) (R t')) ((T(t := remove1 a (T t))) t')"
  proof (cases "a \<in> set (T t')")
    case True
    then have "t' = t" using inv a by (auto simp: subs_inv_def nodes_ok_def)
    then show ?thesis
      using dpath_remove [OF paths(1) True, of "sb_topic_subscriber_next (unsubscribed a s)"
          "sb_topic_subscriber_prev (unsubscribed a s)"] roots
      by (auto simp: read inj_def image_iff)
  next
    case False
    have keep: "(T(t := remove1 a (T t))) t' = T t'" using False by (auto simp: remove1_idem)
    have nb: "sb_topic_subscriber_next s a = Some b \<Longrightarrow> b \<notin> set (T t')" for b
      using unreachable_next [OF paths(1) False _ roots(2)] subs_inv_next [OF inv a] by blast
    have pb: "sb_topic_subscriber_prev s a = Some (TNext c) \<Longrightarrow> c \<notin> set (T t')" for c
      using unreachable_prev [OF paths(1) False] q by auto
    have "sb_topic_subscriber_prev s a \<noteq> Some (R t')"
    proof
      assume "sb_topic_subscriber_prev s a = Some (R t')"
      then have "tslot_read s (R t') = Some a" using q by simp
      then show False using paths(1) [of t'] False by (cases "T t'") auto
    qed
    moreover have "\<forall>c \<in> set (T t').
        sb_topic_subscriber_next (unsubscribed a s) c = sb_topic_subscriber_next s c \<and>
        sb_topic_subscriber_prev (unsubscribed a s) c = sb_topic_subscriber_prev s c"
      using nb pb by (auto split: option.splits)
    ultimately show ?thesis
      unfolding keep read using dpath_frame [OF paths(1) [of t']] by (simp only: if_False)
  qed
next
  fix u'
  have path: "dpath (sb_subscriber_topic_next s) (sb_subscriber_topic_prev s) SNext (SHead u') (sb_topic_head s u') (S u')"
    and mem: "\<And>c. c \<in> set (S u') \<longleftrightarrow> sb_alive s c \<and> sb_subscriber s c = Some u'"
    using inv by (auto simp: subs_inv_def lists_ok_def nodes_ok_def)
  show "dpath (sb_subscriber_topic_next (unsubscribed a s)) (sb_subscriber_topic_prev (unsubscribed a s)) SNext (SHead u')
      (sb_topic_head (unsubscribed a s) u') ((S(u := remove1 a (S u))) u')"
  proof (cases "u' = u")
    case True
    then have "a \<in> set (S u)" using mem a u by simp
    then show ?thesis
      using True dpath_remove [OF path, of a "sb_subscriber_topic_next (unsubscribed a s)"
          "sb_subscriber_topic_prev (unsubscribed a s)"]
      by (auto simp: inj_def image_iff)
  next
    case False
    then have nb: "sb_subscriber_topic_next s a = Some b \<Longrightarrow> b \<notin> set (S u')"
        "sb_subscriber_topic_prev s a = Some (SNext c) \<Longrightarrow> c \<notin> set (S u')"
        "sb_subscriber_topic_prev s a \<noteq> Some (SHead u')" for b c
      using subs_inv_subscriber_list [OF inv a(1) u] mem by auto
    from nb(1,2) have "\<forall>c \<in> set (S u').
        sb_subscriber_topic_next (unsubscribed a s) c = sb_subscriber_topic_next s c \<and>
        sb_subscriber_topic_prev (unsubscribed a s) c = sb_subscriber_topic_prev s c"
      by (auto split: option.splits)
    from dpath_frame [OF path this] show ?thesis using False nb(3) by (simp del: unsubscribed_sel(6,7))
  qed
qed

lemma unsubscribed_nodes:
  assumes inv: "subs_inv R T S s" and a: "sb_alive s a" "sb_topic s a = Some t" and u: "sb_subscriber s a = Some u"
  shows "nodes_ok (T(t := remove1 a (T t))) (S(u := remove1 a (S u))) (unsubscribed a s)"
proof -
  note nodes = nodes_okD [OF subs_invD(3) [OF inv]]
  have "distinct (S u)" "distinct (T t)"
    using subs_invD(2) [OF inv] unfolding lists_ok_def by (blast intro: dpath_distinct)+
  then have "set (remove1 a (S u)) = set (S u) - {a}" "set (remove1 a (T t)) = set (T t) - {a}"
    by (simp_all add: set_remove1_eq)
  moreover have "a \<in> set (T t') \<Longrightarrow> t' = t" for t' using nodes(3) [of a t'] a by simp
  ultimately show ?thesis unfolding nodes_ok_def using nodes a u by auto
qed

lemma unsubscribed_links:
  assumes inv: "subs_inv R T S s" and a: "sb_alive s a" "sb_topic s a = Some t"
  shows "links_ok R (unsubscribed a s)"
proof -
  let ?s' = "unsubscribed a s"
  note roots = roots_okD [OF subs_invD(1) [OF inv]]
  note links = links_okD [OF subs_invD(4) [OF inv]]
  obtain q where q: "sb_topic_subscriber_prev s a = Some q" "tslot_read s q = Some a"
      "q = R t \<or> (\<exists>c. q = TNext c \<and> sb_alive s c)"
    using links(1) [OF a] by blast
  have erasing: "th \<notin> set (sb_erasing_nodes s a)" if "R t = TLocal th" for t th
    using subs_invD(7) [OF inv] a that unfolding erasing_ok_def by blast
  have read: "tslot_read ?s' r = (if sb_topic_subscriber_prev s a = Some r then sb_topic_subscriber_next s a else tslot_read s r)"
    if "(\<exists>t. r = R t) \<or> (\<exists>c. r = TNext c)" for r
    using that erasing by (cases r) auto
  show ?thesis unfolding links_ok_def
  proof (intro conjI allI impI)
    fix b t'
    assume b: "sb_alive ?s' b \<and> sb_topic ?s' b = Some t'"
    then have ba: "b \<noteq> a" and b': "sb_alive s b" "sb_topic s b = Some t'" by (auto split: if_splits)
    obtain r where r: "sb_topic_subscriber_prev s b = Some r" "tslot_read s r = Some b"
        "r = R t' \<or> (\<exists>c. r = TNext c \<and> sb_alive s c)"
      using links(1) [OF b'] by blast
    show "\<exists>r. sb_topic_subscriber_prev ?s' b = Some r \<and> tslot_read ?s' r = Some b \<and>
        (r = R t' \<or> (\<exists>c. r = TNext c \<and> sb_alive ?s' c))"
    proof (cases "sb_topic_subscriber_next s a = Some b")
      case True
      then have "t' = t" using links(2) [OF a] b' by auto
      then show ?thesis using True q read [of q] by auto
    next
      case False
      then have "q \<noteq> r" using q r ba by auto
      then show ?thesis using False r q read [of r] by (auto split: option.splits)
    qed
  next
    fix b c
    assume bc: "sb_alive ?s' b \<and> sb_topic ?s' b \<noteq> None \<and> sb_topic_subscriber_next ?s' b = Some c"
    then have ba: "b \<noteq> a" and b: "sb_alive s b" by (auto split: if_splits)
    obtain t' where t': "sb_topic s b = Some t'" using bc ba by auto
    have "sb_alive ?s' c \<and> sb_topic ?s' c = sb_topic ?s' b \<and> sb_topic_subscriber_prev ?s' c = Some (TNext b)"
    proof (cases "q = TNext b")
      case True
      then have n: "sb_topic_subscriber_next s a = Some c" using bc q by simp
      then have "sb_alive s c" "sb_topic s c = Some t" "sb_topic_subscriber_prev s c = Some (TNext a)"
        using links(2) [OF a n] by auto
      moreover have "sb_topic s a = Some t'" using links(2) [OF b t', of a] True q by simp
      moreover have "c \<noteq> a" using q(1) True ba \<open>sb_topic_subscriber_prev s c = Some (TNext a)\<close> by auto
      ultimately show ?thesis using n True q ba t' a by simp
    next
      case False
      then have n: "sb_topic_subscriber_next s b = Some c" using bc q by (simp split: if_splits)
      then have "sb_alive s c" "sb_topic s c = Some t'" "sb_topic_subscriber_prev s c = Some (TNext b)"
        using links(2) [OF b t' n] by auto
      moreover have "c \<noteq> a" using q(1) False \<open>sb_topic_subscriber_prev s c = Some (TNext b)\<close> by auto
      moreover have "sb_topic_subscriber_next s a \<noteq> Some c"
        using links(2) [OF a, of c] \<open>sb_topic_subscriber_prev s c = Some (TNext b)\<close> ba by auto
      ultimately show ?thesis using ba t' by (auto split: option.splits)
    qed
    then show "sb_alive ?s' c" "sb_topic ?s' c = sb_topic ?s' b" "sb_topic_subscriber_prev ?s' c = Some (TNext b)"
      by blast+
  qed
qed

lemma unsubscribed_rest:
  assumes inv: "subs_inv R T S s" and a: "sb_alive s a" "sb_topic s a = Some t"
  shows "tails_ok (T(t := remove1 a (T t))) (unsubscribed a s)" and "refs_ok (unsubscribed a s)"
    and "erasing_ok R (unsubscribed a s)"
proof -
  obtain q where q: "sb_topic_subscriber_prev s a = Some q" "tslot_read s q = Some a"
      "q = R t \<or> (\<exists>c. q = TNext c \<and> sb_alive s c)"
    using links_okD(1) [OF subs_invD(4) [OF inv] a] by blast
  show "tails_ok (T(t := remove1 a (T t))) (unsubscribed a s)"
    unfolding tails_ok_def
  proof (intro conjI allI impI)
    fix t'
    assume "(T(t := remove1 a (T t))) t' \<noteq> []"
    then have "T t' \<noteq> []" by (auto split: if_splits)
    then obtain x where x: "sb_tail s t' = Some x" "sb_topic_subscriber_next s x = None"
        "sb_topic s x = None \<or> sb_topic s x = Some t'"
      using tails_okD(3) [OF subs_invD(5) [OF inv]] by blast
    then have "q \<noteq> TNext x" using q(2) by auto
    then show "\<exists>x. sb_tail (unsubscribed a s) t' = Some x \<and>
        sb_topic_subscriber_next (unsubscribed a s) x = None \<and>
        (sb_topic (unsubscribed a s) x = None \<or> sb_topic (unsubscribed a s) x = Some t')"
      using x q(1) by auto
  qed (use tails_okD(1,2) [OF subs_invD(5) [OF inv]] in auto)
  show "refs_ok (unsubscribed a s)" using subs_invD(6) [OF inv] a by (auto simp: refs_ok_def)
  note erasing = subs_invD(7) [OF inv, unfolded erasing_ok_def]
  note reg = conjunct1 [OF erasing, rule_format] and loc = conjunct2 [OF erasing, rule_format]
  show "erasing_ok R (unsubscribed a s)"
    unfolding erasing_ok_def
  proof (intro conjI allI impI)
    fix b th
    assume "sb_alive (unsubscribed a s) b \<and> sb_topic (unsubscribed a s) b \<noteq> None \<and>
      th \<in> set (sb_erasing_nodes (unsubscribed a s) b)"
    then have b: "sb_alive s b \<and> sb_topic s b \<noteq> None \<and> th \<in> set (sb_erasing_nodes s b)" "b \<noteq> a"
      by (auto split: if_splits)
    then have "sb_node s th = Some b" and th: "\<forall>t. R t \<noteq> TLocal th" using reg [of b th] by auto
    moreover have "th \<notin> set (sb_erasing_nodes s a)" using reg [of a th] a b \<open>sb_node s th = Some b\<close> by auto
    moreover have "q \<noteq> TLocal th" using q(3) th by (metis topic_slot.distinct(5))
    ultimately show "sb_node (unsubscribed a s) th = Some b" using q by simp
    show "R t' \<noteq> TLocal th" for t' using th by blast
  next
    fix th b
    assume b: "sb_node (unsubscribed a s) th = Some b \<and> (\<forall>t. R t \<noteq> TLocal th)"
    then have "q \<noteq> TLocal th" using q(3) by (metis topic_slot.distinct(5))
    then have "sb_node s th = Some b" "th \<notin> set (sb_erasing_nodes s a)" using b q by (auto split: if_splits)
    then show "sb_alive (unsubscribed a s) b" "sb_topic (unsubscribed a s) b \<noteq> None"
        "th \<in> set (sb_erasing_nodes (unsubscribed a s) b)"
      using loc [of th b] b by auto
  qed
qed

text \<open>Erasing a node takes it out of both lists, and always succeeds.\<close>

lemma unsubscribe_correct:
  assumes inv: "subs_inv R T S s" and a: "sb_alive s a" "sb_topic s a = Some t" and u: "sb_subscriber s a = Some u"
  shows "unsubscribe a s = Ok (unsubscribed a s)"
    and "subs_inv R (T(t := remove1 a (T t))) (S(u := remove1 a (S u))) (unsubscribed a s)"
  using unsubscribe_inv_eq [OF inv a] unsubscribed_lists [OF inv a u] unsubscribed_nodes [OF inv a u]
    unsubscribed_links [OF inv a] unsubscribed_rest [OF inv a] subs_invD(1) [OF inv]
  by (simp_all add: subs_inv_def)

section \<open>Walking the topics of a subscriber\<close>

lemma find_topic_node_path:
  assumes "dpath (sb_subscriber_topic_next s) prv mk p x as" "\<forall>a \<in> set as. sb_alive s a"
  shows "find_topic_node s t x = Some (Ok (find (\<lambda>a. sb_topic s a = Some t) as))"
  using assms by (induction as arbitrary: p x) (auto simp: find_topic_node.simps)

lemma find_topic_node_inv:
  assumes inv: "subs_inv R T S s"
  shows "find_topic_node s t (sb_topic_head s u) = Some (Ok (find (\<lambda>a. sb_topic s a = Some t) (S u)))"
proof -
  have "dpath (sb_subscriber_topic_next s) (sb_subscriber_topic_prev s) SNext (SHead u) (sb_topic_head s u) (S u)"
    using subs_invD(2) [OF inv] by (simp add: lists_ok_def)
  then show ?thesis by (rule find_topic_node_path) (simp add: nodes_okD(1) [OF subs_invD(3) [OF inv]])
qed

lemma Subscriber_has_topic_inv:
  "subs_inv R T S s \<Longrightarrow> Subscriber_has_topic u t s = Some (Ok (\<exists>a \<in> set (S u). sb_topic s a = Some t))"
  by (auto simp: Subscriber_has_topic_def find_topic_node_inv find_None_iff simp del: not_None_eq)

text \<open>What erasing subscriptions does to none of them.\<close>

definition subs_keeps :: "subs \<Rightarrow> subs \<Rightarrow> bool" where
  "subs_keeps s s' \<longleftrightarrow> sb_alive s' = sb_alive s \<and> sb_working s' = sb_working s \<and> sb_msg s' = sb_msg s \<and>
     (\<forall>a. sb_topic s' a = sb_topic s a \<or> sb_topic s' a = None)"

lemma subs_keeps_refl [simp]: "subs_keeps s s"
  by (simp add: subs_keeps_def)

lemma subs_keeps_trans: "subs_keeps s s' \<Longrightarrow> subs_keeps s' s'' \<Longrightarrow> subs_keeps s s''"
  unfolding subs_keeps_def by metis

lemma unsubscribed_keeps [simp]: "subs_keeps s (unsubscribed a s)"
  by (simp add: subs_keeps_def)

section \<open>Dropping all subscriptions of a subscriber\<close>

lemma remove1_filter: "distinct xs \<Longrightarrow> remove1 a xs = filter (\<lambda>x. x \<noteq> a) xs"
  by (auto simp: distinct_remove1_removeAll removeAll_filter_not_eq intro: filter_cong)

lemma lists_distinct:
  assumes "subs_inv R T S s"
  shows "distinct (T t)" "distinct (S u)"
  using subs_invD(2) [OF assms] unfolding lists_ok_def by (blast intro: dpath_distinct)+

lemma Subscriber_unsubscribe_all_inv:
  assumes "subs_inv R T S s"
  shows "\<exists>s'. Subscriber_unsubscribe_all u s = Some (Ok s') \<and>
    subs_inv R (\<lambda>t. filter (\<lambda>a. a \<notin> set (S u)) (T t)) (S(u := [])) s' \<and> subs_keeps s s'"
  using assms
proof (induction "S u" arbitrary: T S s)
  case Nil
  have "dpath (sb_subscriber_topic_next s) (sb_subscriber_topic_prev s) SNext (SHead u) (sb_topic_head s u) (S u)"
    using subs_invD(2) [OF Nil(2)] by (simp add: lists_ok_def)
  then have "sb_topic_head s u = None" by (simp flip: Nil(1))
  moreover have "S(u := []) = S" using Nil(1) by auto
  ultimately show ?case using Nil by (simp add: Subscriber_unsubscribe_all.simps flip: Nil(1))
next
  case (Cons a as)
  note nodes = nodes_okD [OF subs_invD(3) [OF Cons(3)]]
  have path: "dpath (sb_subscriber_topic_next s) (sb_subscriber_topic_prev s) SNext (SHead u) (sb_topic_head s u) (S u)"
    using subs_invD(2) [OF Cons(3)] by (simp add: lists_ok_def)
  then have head: "sb_topic_head s u = Some a" by (simp flip: Cons(2))
  have "a \<in> set (S u)" by (simp flip: Cons(2))
  then have a: "sb_alive s a" "sb_subscriber s a = Some u" using nodes(1) by auto
  then obtain t where t: "sb_topic s a = Some t" using nodes(2) by fastforce
  have "remove1 a (S u) = as" by (simp flip: Cons(2))
  with unsubscribe_correct [OF Cons(3) a(1) t a(2)]
  have step: "unsubscribe a s = Ok (unsubscribed a s)"
      "subs_inv R (T(t := remove1 a (T t))) (S(u := as)) (unsubscribed a s)" by simp_all
  have lists: "filter (\<lambda>x. x \<notin> set as) ((T(t := remove1 a (T t))) t') = filter (\<lambda>x. x \<notin> set (S u)) (T t')" for t'
    using nodes(3) [of a t'] t lists_distinct(1) [OF Cons(3), of t]
    by (auto simp: remove1_filter simp flip: Cons(2) intro!: filter_cong)
  show ?case
    using Cons(1) [of "S(u := as)", OF _ step(2)] step(1) head a t lists
    by (subst Subscriber_unsubscribe_all.simps) (auto intro: subs_keeps_trans [OF unsubscribed_keeps])
qed

section \<open>Clearing a topic\<close>

lemma Topic_clear_loop_inv:
  assumes "subs_inv R T S s" "R t = TLocal th"
  shows "\<exists>s'. Topic_clear_loop th s = Some (Ok s') \<and> sb_node s' th = None \<and>
    subs_inv R (T(t := [])) (\<lambda>u. filter (\<lambda>a. a \<notin> set (T t)) (S u)) s' \<and> subs_keeps s s'"
  using assms
proof (induction "T t" arbitrary: T S s)
  case Nil
  have "dpath (sb_topic_subscriber_next s) (sb_topic_subscriber_prev s) TNext (R t) (tslot_read s (R t)) (T t)"
    using subs_invD(2) [OF Nil(2)] by (simp add: lists_ok_def)
  then have "sb_node s th = None" using Nil(3) by (simp flip: Nil(1))
  moreover have "T(t := []) = T" using Nil(1) by auto
  ultimately show ?case using Nil by (simp add: Topic_clear_loop.simps flip: Nil(1))
next
  case (Cons a as)
  note nodes = nodes_okD [OF subs_invD(3) [OF Cons(3)]]
  have path: "dpath (sb_topic_subscriber_next s) (sb_topic_subscriber_prev s) TNext (R t) (tslot_read s (R t)) (T t)"
    using subs_invD(2) [OF Cons(3)] by (simp add: lists_ok_def)
  then have head: "sb_node s th = Some a" using Cons(4) by (simp flip: Cons(2))
  have "a \<in> set (T t)" by (simp flip: Cons(2))
  then have a: "sb_alive s a" "sb_topic s a = Some t" using nodes(3) by auto
  then obtain u where u: "sb_subscriber s a = Some u" using nodes(2) by fastforce
  have "remove1 a (T t) = as" by (simp flip: Cons(2))
  with unsubscribe_correct [OF Cons(3) a u]
  have step: "unsubscribe a s = Ok (unsubscribed a s)"
      "subs_inv R (T(t := as)) (S(u := remove1 a (S u))) (unsubscribed a s)" by simp_all
  have lists: "filter (\<lambda>x. x \<notin> set as) ((S(u := remove1 a (S u))) u') = filter (\<lambda>x. x \<notin> set (T t)) (S u')" for u'
    using nodes(1) [of a u'] u lists_distinct(2) [OF Cons(3), of u]
    by (auto simp: remove1_filter simp flip: Cons(2) intro!: filter_cong)
  show ?case
    using Cons(1) [of "T(t := as)", OF _ step(2) Cons(4)] step(1) head a u lists
    by (subst Topic_clear_loop.simps) (auto intro: subs_keeps_trans [OF unsubscribed_keeps])
qed

lemma erasing_okD:
  assumes "erasing_ok R s"
  shows "sb_alive s a \<Longrightarrow> sb_topic s a \<noteq> None \<Longrightarrow> th \<in> set (sb_erasing_nodes s a) \<Longrightarrow>
      sb_node s th = Some a \<and> (\<forall>t. R t \<noteq> TLocal th)"
    and "sb_node s th = Some a \<Longrightarrow> \<forall>t. R t \<noteq> TLocal th \<Longrightarrow>
      sb_alive s a \<and> sb_topic s a \<noteq> None \<and> th \<in> set (sb_erasing_nodes s a)"
proof -
  note ok = assms [unfolded erasing_ok_def]
  show "sb_alive s a \<Longrightarrow> sb_topic s a \<noteq> None \<Longrightarrow> th \<in> set (sb_erasing_nodes s a) \<Longrightarrow>
      sb_node s th = Some a \<and> (\<forall>t. R t \<noteq> TLocal th)"
    using conjunct1 [OF ok, rule_format, of a th] by simp
  show "sb_node s th = Some a \<Longrightarrow> \<forall>t. R t \<noteq> TLocal th \<Longrightarrow>
      sb_alive s a \<and> sb_topic s a \<noteq> None \<and> th \<in> set (sb_erasing_nodes s a)"
    using conjunct2 [OF ok, rule_format, of th a] by simp
qed

lemma erasing_okI:
  assumes "\<And>a th. sb_alive s a \<Longrightarrow> sb_topic s a \<noteq> None \<Longrightarrow> th \<in> set (sb_erasing_nodes s a) \<Longrightarrow>
      sb_node s th = Some a \<and> (\<forall>t. R t \<noteq> TLocal th)"
    and "\<And>a th. sb_node s th = Some a \<Longrightarrow> \<forall>t. R t \<noteq> TLocal th \<Longrightarrow>
      sb_alive s a \<and> sb_topic s a \<noteq> None \<and> th \<in> set (sb_erasing_nodes s a)"
  shows "erasing_ok R s"
  unfolding erasing_ok_def using assms by blast

text \<open>Moving the start of the list of a topic to a local variable, and back.\<close>

lemma tslot_read_node:
  "tslot_read (s\<lparr>sb_node := (sb_node s)(th := x), sb_topic_subscriber_prev := p\<rparr>) q =
     (if q = TLocal th then x else tslot_read s q)"
  by (cases q) auto

lemma Topic_clear_start:
  assumes inv: "subs_ok T S s" and head: "sb_head s t = Some a" and free: "sb_node s th = None"
  shows "subs_inv (THead(t := TLocal th)) T S (s\<lparr>sb_node := (sb_node s)(th := Some a),
     sb_topic_subscriber_prev := (sb_topic_subscriber_prev s)(a := Some (TLocal th))\<rparr>)"
    (is "subs_inv ?R T S ?s'")
proof -
  note nodes = nodes_okD [OF subs_invD(3) [OF inv]] and links = links_okD [OF subs_invD(4) [OF inv]]
  have paths: "dpath (sb_topic_subscriber_next s) (sb_topic_subscriber_prev s) TNext (THead t') (sb_head s t') (T t')" for t'
    using subs_invD(2) [OF inv] by (simp add: lists_ok_def)
  obtain as where T: "T t = a # as" using paths [of t] head by (cases "T t") auto
  have a: "sb_alive s a" "sb_topic s a = Some t" using nodes(3) [of a t] T by auto
  have pa: "sb_topic_subscriber_prev s a = Some (THead t)" using paths [of t] T by simp
  have "lists_ok ?R T S ?s'"
    unfolding lists_ok_def
  proof (intro conjI allI)
    fix t'
    show "dpath (sb_topic_subscriber_next ?s') (sb_topic_subscriber_prev ?s') TNext (?R t') (tslot_read ?s' (?R t')) (T t')"
    proof (cases "t' = t")
      case True
      then show ?thesis using paths [of t] lists_distinct(1) [OF inv, of t] T by (auto elim!: dpath_frame)
    next
      case False
      then have "a \<notin> set (T t')" using nodes(3) [of a t'] a by auto
      then show ?thesis using False paths [of t'] by (auto simp: tslot_read_node elim!: dpath_frame)
    qed
  qed (use subs_invD(2) [OF inv] in \<open>simp add: lists_ok_def\<close>)
  moreover have "links_ok ?R ?s'"
    unfolding links_ok_def
  proof (intro conjI allI impI)
    fix b t'
    assume "sb_alive ?s' b \<and> sb_topic ?s' b = Some t'"
    then have b: "sb_alive s b" "sb_topic s b = Some t'" by auto
    obtain q where q: "sb_topic_subscriber_prev s b = Some q" "tslot_read s q = Some b"
        "q = THead t' \<or> (\<exists>c. q = TNext c \<and> sb_alive s c)"
      using links(1) [OF b] by blast
    show "\<exists>q. sb_topic_subscriber_prev ?s' b = Some q \<and> tslot_read ?s' q = Some b \<and>
        (q = ?R t' \<or> (\<exists>c. q = TNext c \<and> sb_alive ?s' c))"
      using q a b(2) head by (cases "b = a") (auto simp: tslot_read_node)
  next
    fix b c
    assume bc: "sb_alive ?s' b \<and> sb_topic ?s' b \<noteq> None \<and> sb_topic_subscriber_next ?s' b = Some c"
    then obtain t' where b: "sb_alive s b" "sb_topic s b = Some t'" "sb_topic_subscriber_next s b = Some c" by auto
    then show "sb_alive ?s' c" "sb_topic ?s' c = sb_topic ?s' b" "sb_topic_subscriber_prev ?s' c = Some (TNext b)"
      using links(2) [OF b] pa by auto
  qed
  moreover have "erasing_ok ?R ?s'"
  proof (rule erasing_okI)
    fix b th'
    assume "sb_alive ?s' b" "sb_topic ?s' b \<noteq> None" "th' \<in> set (sb_erasing_nodes ?s' b)"
    then have "sb_node s th' = Some b" using erasing_okD(1) [OF subs_invD(7) [OF inv], of b th'] by simp
    then show "sb_node ?s' th' = Some b \<and> (\<forall>t'. ?R t' \<noteq> TLocal th')" using free by auto
  next
    fix b th'
    assume "sb_node ?s' th' = Some b" and th': "\<forall>t'. ?R t' \<noteq> TLocal th'"
    moreover have "th' \<noteq> th" using spec [OF th', of t] by simp
    ultimately show "sb_alive ?s' b \<and> sb_topic ?s' b \<noteq> None \<and> th' \<in> set (sb_erasing_nodes ?s' b)"
      using erasing_okD(2) [OF subs_invD(7) [OF inv], of th' b] by simp
  qed
  moreover have "roots_ok ?R" by (auto simp: roots_ok_def inj_def)
  ultimately show ?thesis
    using inv by (simp add: subs_inv_def nodes_ok_def tails_ok_def refs_ok_def)
qed

lemma Topic_clear_end:
  assumes inv: "subs_inv (THead(t := TLocal th)) T S s" and T: "T t = []" and free: "sb_node s th = None"
  shows "subs_ok T S (s\<lparr>sb_head := (sb_head s)(t := None), sb_tail := (sb_tail s)(t := None)\<rparr>)"
    (is "subs_ok T S ?s'")
proof -
  note links = links_okD [OF subs_invD(4) [OF inv]]
  have read: "tslot_read ?s' q = (if q = THead t then None else tslot_read s q)" for q by (cases q) auto
  have "lists_ok THead T S ?s'"
    unfolding lists_ok_def
  proof (intro conjI allI)
    fix t'
    show "dpath (sb_topic_subscriber_next ?s') (sb_topic_subscriber_prev ?s') TNext (THead t') (tslot_read ?s' (THead t')) (T t')"
      using subs_invD(2) [OF inv] T by (cases "t' = t") (auto simp: lists_ok_def dest: spec [of _ t'])
  qed (use subs_invD(2) [OF inv] in \<open>simp add: lists_ok_def\<close>)
  moreover have "links_ok THead ?s'"
    unfolding links_ok_def
  proof (intro conjI allI impI)
    fix b t'
    assume "sb_alive ?s' b \<and> sb_topic ?s' b = Some t'"
    then have b: "sb_alive s b" "sb_topic s b = Some t'" by auto
    obtain q where q: "sb_topic_subscriber_prev s b = Some q" "tslot_read s q = Some b"
        "q = (THead(t := TLocal th)) t' \<or> (\<exists>c. q = TNext c \<and> sb_alive s c)"
      using links(1) [OF b] by blast
    show "\<exists>q. sb_topic_subscriber_prev ?s' b = Some q \<and> tslot_read ?s' q = Some b \<and>
        (q = THead t' \<or> (\<exists>c. q = TNext c \<and> sb_alive ?s' c))"
      using q free by (auto simp: read split: if_splits)
  next
    fix b c
    assume bc: "sb_alive ?s' b \<and> sb_topic ?s' b \<noteq> None \<and> sb_topic_subscriber_next ?s' b = Some c"
    then obtain t' where b: "sb_alive s b" "sb_topic s b = Some t'" "sb_topic_subscriber_next s b = Some c" by auto
    then show "sb_alive ?s' c" "sb_topic ?s' c = sb_topic ?s' b" "sb_topic_subscriber_prev ?s' c = Some (TNext b)"
      using links(2) [OF b] by auto
  qed
  moreover have "erasing_ok THead ?s'"
  proof (rule erasing_okI)
    fix b th'
    assume "sb_alive ?s' b" "sb_topic ?s' b \<noteq> None" "th' \<in> set (sb_erasing_nodes ?s' b)"
    then show "sb_node ?s' th' = Some b \<and> (\<forall>t'. THead t' \<noteq> TLocal th')"
      using erasing_okD(1) [OF subs_invD(7) [OF inv], of b th'] by simp
  next
    fix b th'
    assume "sb_node ?s' th' = Some b"
    moreover from this have "th' \<noteq> th" using free by auto
    ultimately show "sb_alive ?s' b \<and> sb_topic ?s' b \<noteq> None \<and> th' \<in> set (sb_erasing_nodes ?s' b)"
      using erasing_okD(2) [OF subs_invD(7) [OF inv], of th' b] by simp
  qed
  moreover have "tails_ok T ?s'" using tails_okD [OF subs_invD(5) [OF inv]] T by (auto simp: tails_ok_def)
  ultimately show ?thesis using inv by (simp add: subs_inv_def nodes_ok_def refs_ok_def)
qed

lemma Topic_clear_inv:
  assumes inv: "subs_ok T S s" and free: "sb_node s th = None"
  shows "\<exists>s'. Topic_clear th t s = Some (Ok s') \<and>
    subs_ok (T(t := [])) (\<lambda>u. filter (\<lambda>a. a \<notin> set (T t)) (S u)) s' \<and> subs_keeps s s'"
proof -
  have path: "dpath (sb_topic_subscriber_next s) (sb_topic_subscriber_prev s) TNext (THead t) (sb_head s t) (T t)"
    using subs_invD(2) [OF inv] by (simp add: lists_ok_def)
  show ?thesis
  proof (cases "sb_head s t")
    case None
    then have "T t = []" using path by simp
    then have "T(t := []) = T" by auto
    then show ?thesis using inv None \<open>T t = []\<close> by (simp add: Topic_clear_def)
  next
    case (Some a)
    then have "a \<in> set (T t)" using path by (cases "T t") auto
    then have "sb_alive s a" using nodes_okD(3) [OF subs_invD(3) [OF inv]] by blast
    obtain s1 where s1: "Topic_clear_loop th (s\<lparr>sb_node := (sb_node s)(th := Some a),
          sb_topic_subscriber_prev := (sb_topic_subscriber_prev s)(a := Some (TLocal th))\<rparr>) = Some (Ok s1)"
        "sb_node s1 th = None" "subs_inv (THead(t := TLocal th)) (T(t := [])) (\<lambda>u. filter (\<lambda>a. a \<notin> set (T t)) (S u)) s1"
        and keeps: "subs_keeps s s1"
      using Topic_clear_loop_inv [OF Topic_clear_start [OF inv Some free], of t th] by (auto simp: subs_keeps_def)
    have "subs_keeps s (s1\<lparr>sb_head := (sb_head s1)(t := None), sb_tail := (sb_tail s1)(t := None)\<rparr>)"
      using keeps by (simp add: subs_keeps_def)
    then show ?thesis
      using Topic_clear_end [OF s1(3) _ s1(2)] Some s1(1) \<open>sb_alive s a\<close> by (simp add: Topic_clear_def)
  qed
qed

section \<open>Subscribing\<close>

text \<open>The memory after a subscription is added, all fields at once.\<close>

definition subscribed :: "nat \<Rightarrow> nat \<Rightarrow> nat \<Rightarrow> subs \<Rightarrow> subs" where
  "subscribed a t u s =
     (let h = sb_head s t; x = the (sb_tail s t); sh = sb_topic_head s u
      in s\<lparr>sb_alive := (sb_alive s)(a := True),
           sb_topic := (sb_topic s)(a := Some t), sb_subscriber := (sb_subscriber s)(a := Some u),
           sb_topic_subscriber_next := (if h = None then (sb_topic_subscriber_next s)(a := None)
              else (sb_topic_subscriber_next s)(a := None, x := Some a)),
           sb_topic_subscriber_prev := (sb_topic_subscriber_prev s)(a := Some (if h = None then THead t else TNext x)),
           sb_subscriber_topic_next := (sb_subscriber_topic_next s)(a := sh),
           sb_subscriber_topic_prev := (case sh of None \<Rightarrow> sb_subscriber_topic_prev s
              | Some b \<Rightarrow> (sb_subscriber_topic_prev s)(b := Some (SNext a)))(a := Some (SHead u)),
           sb_erasing_nodes := (sb_erasing_nodes s)(a := []), sb_working := (sb_working s)(a := False),
           sb_ref := (sb_ref s)(a := 2),
           sb_head := (if h = None then (sb_head s)(t := Some a) else sb_head s),
           sb_tail := (sb_tail s)(t := Some a),
           sb_topic_head := (sb_topic_head s)(u := Some a)\<rparr>)"

lemma add_topic_subscriber_eq:
  assumes "sb_alive s a" "sb_head s t \<noteq> None \<Longrightarrow> sb_tail s t = Some x \<and> sb_alive s x"
  shows "add_topic_subscriber a t s = Ok (s\<lparr>
     sb_topic_subscriber_next := (if sb_head s t = None then sb_topic_subscriber_next s
        else (sb_topic_subscriber_next s)(the (sb_tail s t) := Some a)),
     sb_topic_subscriber_prev := (sb_topic_subscriber_prev s)
       (a := Some (if sb_head s t = None then THead t else TNext (the (sb_tail s t)))),
     sb_head := (if sb_head s t = None then (sb_head s)(t := Some a) else sb_head s),
     sb_tail := (sb_tail s)(t := Some a)\<rparr>)"
  using assms by (cases "sb_head s t"; cases s) (auto simp: add_topic_subscriber_def with_node_def)

lemma add_subscriber_topic_eq:
  assumes "sb_alive s a" "\<And>h. sb_topic_head s u = Some h \<Longrightarrow> sb_alive s h"
  shows "add_subscriber_topic a u s = Ok (s\<lparr>
     sb_subscriber_topic_next := (sb_subscriber_topic_next s)(a := sb_topic_head s u),
     sb_subscriber_topic_prev := (case sb_topic_head s u of None \<Rightarrow> sb_subscriber_topic_prev s
        | Some b \<Rightarrow> (sb_subscriber_topic_prev s)(b := Some (SNext a)))(a := Some (SHead u)),
     sb_topic_head := (sb_topic_head s)(u := Some a)\<rparr>)"
  using assms by (cases "sb_topic_head s u"; cases s) (auto simp: add_subscriber_topic_def with_node_def)

lemma add_ref_eq: "sb_alive s a \<Longrightarrow> add_ref a s = Ok (s\<lparr>sb_ref := (sb_ref s)(a := sb_ref s a + 1)\<rparr>)"
  by (simp add: add_ref_def with_node_def Atomic_pre_inc_def exchange_add_def Let_def)

lemma reserve_subscribe_eq:
  assumes "\<not> sb_alive s a" "sb_head s t \<noteq> None \<Longrightarrow> sb_tail s t = Some x \<and> sb_alive s x"
    and "\<And>h. sb_topic_head s u = Some h \<Longrightarrow> sb_alive s h"
  shows "obind (reserve_subscribe a t u (Subscription_new a t u s)) (AutoRefPtr_reset None (Some a))
    = Ok (subscribed a t u s, Some a)"
proof -
  let ?s0 = "Subscription_new a t u s"
  have 1: "sb_alive ?s0 a" "sb_head ?s0 t \<noteq> None \<Longrightarrow> sb_tail ?s0 t = Some x \<and> sb_alive ?s0 x"
      "\<And>h. sb_topic_head ?s0 u = Some h \<Longrightarrow> sb_alive ?s0 h"
    using assms by (auto simp: Subscription_new_def)
  obtain s1 where s1: "add_topic_subscriber a t ?s0 = Ok s1" and s1_def: "s1 = ?s0\<lparr>
     sb_topic_subscriber_next := (if sb_head ?s0 t = None then sb_topic_subscriber_next ?s0
        else (sb_topic_subscriber_next ?s0)(the (sb_tail ?s0 t) := Some a)),
     sb_topic_subscriber_prev := (sb_topic_subscriber_prev ?s0)
       (a := Some (if sb_head ?s0 t = None then THead t else TNext (the (sb_tail ?s0 t)))),
     sb_head := (if sb_head ?s0 t = None then (sb_head ?s0)(t := Some a) else sb_head ?s0),
     sb_tail := (sb_tail ?s0)(t := Some a)\<rparr>"
    using add_topic_subscriber_eq [OF 1(1,2)] by blast
  have "sb_alive s1 a" "\<And>h. sb_topic_head s1 u = Some h \<Longrightarrow> sb_alive s1 h"
    using 1 by (simp_all add: s1_def)
  note s2 = add_subscriber_topic_eq [OF this] this(1)
  have "obind (reserve_subscribe a t u ?s0) (AutoRefPtr_reset None (Some a)) =
      Ok (s1\<lparr>sb_subscriber_topic_next := (sb_subscriber_topic_next s1)(a := sb_topic_head s1 u),
        sb_subscriber_topic_prev := (case sb_topic_head s1 u of None \<Rightarrow> sb_subscriber_topic_prev s1
           | Some b \<Rightarrow> (sb_subscriber_topic_prev s1)(b := Some (SNext a)))(a := Some (SHead u)),
        sb_topic_head := (sb_topic_head s1)(u := Some a),
        sb_ref := (sb_ref s1)(a := sb_ref s1 a + 1 + 1)\<rparr>, Some a)"
    using s2(2) by (simp add: reserve_subscribe_def s1 s2(1) add_ref_eq AutoRefPtr_reset_def AutoRefPtr_add_ref_def)
  also have "\<dots> = Ok (subscribed a t u s, Some a)"
    using assms(1,3)
    by (cases "sb_topic_head s u"; cases "sb_head s t"; cases s)
      (auto simp: s1_def subscribed_def Subscription_new_def Let_def fun_eq_iff)
  finally show ?thesis .
qed

text \<open>
  A new subscription is the last one its topic reaches, unless the tail of the topic is a node
  that was unsubscribed: then the topic does not reach it at all.
\<close>

definition topic_list_add :: "nat \<Rightarrow> nat \<Rightarrow> subs \<Rightarrow> nat list \<Rightarrow> nat list" where
  "topic_list_add a t s as = (if as = [] \<or> the (sb_tail s t) \<in> set as then as @ [a] else as)"

lemma sub_paths:
  assumes inv: "subs_ok T S s"
  shows "dpath (sb_topic_subscriber_next s) (sb_topic_subscriber_prev s) TNext (THead t') (sb_head s t') (T t')"
  "dpath (sb_subscriber_topic_next s) (sb_subscriber_topic_prev s) SNext (SHead u') (sb_topic_head s u') (S u')"
  using subs_invD(2) [OF inv] by (auto simp: lists_ok_def)

lemma sub_head:
  assumes inv: "subs_ok T S s"
  shows "sb_head s t' = None \<longleftrightarrow> T t' = []"
  using sub_paths(1) [OF inv, of t'] by (cases "T t'") auto

lemma sub_tail:
  assumes inv: "subs_ok T S s" and fresh: "\<not> sb_alive s a" and x: "x = the (sb_tail s t)" and "T t \<noteq> []"
  shows "sb_tail s t = Some x" "sb_alive s x" "x \<noteq> a" "sb_topic_subscriber_next s x = None"
    "sb_topic s x = None \<or> sb_topic s x = Some t"
proof -
  note tails = tails_okD [OF subs_invD(5) [OF inv]]
  show "sb_tail s t = Some x" "sb_topic_subscriber_next s x = None" "sb_topic s x = None \<or> sb_topic s x = Some t"
    using tails(3) [of t, OF assms(4)] x by auto
  show "sb_alive s x" using tails(1) \<open>sb_tail s t = Some x\<close> by blast
  then show "x \<noteq> a" using fresh by auto
qed

lemma sub_not_in:
  assumes inv: "subs_ok T S s" and fresh: "\<not> sb_alive s a"
  shows "a \<notin> set (T t')" "a \<notin> set (S u')"
  using nodes_okD(1,3) [OF subs_invD(3) [OF inv]] fresh by auto

lemma subscribed_lists:
  assumes inv: "subs_ok T S s" and fresh: "\<not> sb_alive s a"
  shows "lists_ok THead (T(t := topic_list_add a t s (T t))) (S(u := a # S u)) (subscribed a t u s)"
proof -
  define x where "x = the (sb_tail s t)"
  note x = x_def and sub_paths = sub_paths [OF inv] and sub_head = sub_head [OF inv]
    and sub_tail = sub_tail [OF inv fresh x_def] and sub_not_in = sub_not_in [OF inv fresh]
  show ?thesis unfolding lists_ok_def
  proof (intro conjI allI)
  let ?n = "sb_topic_subscriber_next s" and ?p = "sb_topic_subscriber_prev s"
  fix t'
  show "dpath (sb_topic_subscriber_next (subscribed a t u s)) (sb_topic_subscriber_prev (subscribed a t u s)) TNext (THead t')
      (tslot_read (subscribed a t u s) (THead t')) ((T(t := topic_list_add a t s (T t))) t')"
  proof (cases "t' = t")
    case True
    have path: "dpath (?n(a := None)) ?p TNext (THead t) (sb_head s t) (T t)"
      by (rule dpath_frame [OF sub_paths(1)]) (use sub_not_in in auto)
    note app = dpath_append [OF path sub_not_in(1)]
    consider "T t = []" | "T t \<noteq> []" "x \<in> set (T t)" | "T t \<noteq> []" "x \<notin> set (T t)" by blast
    then show ?thesis
    proof cases
      case 1
      then show ?thesis using True sub_head [of t] by (simp add: subscribed_def Let_def topic_list_add_def)
    next
      case 2
      then have "x = last (T t)" using dpath_end [OF sub_paths(1)] sub_tail by blast
      then show ?thesis
        using app 2 True sub_head [of t] x by (auto simp: subscribed_def Let_def topic_list_add_def fun_upd_def)
    next
      case 3
      then have "\<forall>c \<in> set (T t). (?n(a := None, x := Some a)) c = ?n c \<and> (?p(a := Some (TNext x))) c = ?p c"
        using sub_not_in(1) [of t] by auto
      from dpath_frame [OF sub_paths(1) this] show ?thesis
        using 3 True sub_head [of t] x by (auto simp: subscribed_def Let_def topic_list_add_def fun_upd_def)
    qed
  next
    case False
    have "T t \<noteq> [] \<Longrightarrow> x \<notin> set (T t')"
      using nodes_okD(3) [OF subs_invD(3) [OF inv], of x t'] sub_tail(5) False by auto
    then have "\<forall>c \<in> set (T t').
        sb_topic_subscriber_next (subscribed a t u s) c = sb_topic_subscriber_next s c \<and>
        sb_topic_subscriber_prev (subscribed a t u s) c = sb_topic_subscriber_prev s c"
      using sub_not_in(1) [of t'] sub_head [of t] x by (auto simp: subscribed_def Let_def)
    moreover have "tslot_read (subscribed a t u s) (THead t') = sb_head s t'"
      using False by (simp add: subscribed_def Let_def)
    ultimately show ?thesis
      using dpath_frame [OF sub_paths(1) [of t']] by (simp only: fun_upd_other [OF False])
  qed
next
  fix u'
  show "dpath (sb_subscriber_topic_next (subscribed a t u s)) (sb_subscriber_topic_prev (subscribed a t u s)) SNext (SHead u')
      (sb_topic_head (subscribed a t u s) u') ((S(u := a # S u)) u')"
  proof (cases "u' = u")
    case True
    then show ?thesis
      using dpath_push [OF sub_paths(2) [of u] sub_not_in(2)] by (simp add: subscribed_def Let_def)
  next
    case False
    have "sb_topic_head s u = Some h \<Longrightarrow> h \<notin> set (S u')" for h
      using sub_paths(2) [of u] nodes_okD(1) [OF subs_invD(3) [OF inv], of h u]
        nodes_okD(1) [OF subs_invD(3) [OF inv], of h u'] False by (cases "S u") auto
    then have "\<forall>c \<in> set (S u').
        sb_subscriber_topic_next (subscribed a t u s) c = sb_subscriber_topic_next s c \<and>
        sb_subscriber_topic_prev (subscribed a t u s) c = sb_subscriber_topic_prev s c"
      using sub_not_in(2) [of u'] by (auto simp: subscribed_def Let_def split: option.splits)
    moreover have "sb_topic_head (subscribed a t u s) u' = sb_topic_head s u'"
      using False by (simp add: subscribed_def Let_def)
    ultimately show ?thesis
      using dpath_frame [OF sub_paths(2) [of u']] by (simp only: fun_upd_other [OF False])
  qed
  qed
qed

lemma subscribed_nodes:
  assumes inv: "subs_ok T S s" and fresh: "\<not> sb_alive s a"
  shows "nodes_ok (T(t := topic_list_add a t s (T t))) (S(u := a # S u)) (subscribed a t u s)"
  using nodes_okD [OF subs_invD(3) [OF inv]] sub_not_in [OF inv fresh] fresh
  by (auto simp: nodes_ok_def subscribed_def Let_def topic_list_add_def)

lemma subscribed_links:
  assumes inv: "subs_ok T S s" and fresh: "\<not> sb_alive s a"
  shows "links_ok THead (subscribed a t u s)"
proof -
  define x where "x = the (sb_tail s t)"
  note x = x_def and sub_paths = sub_paths [OF inv] and sub_head = sub_head [OF inv]
    and sub_tail = sub_tail [OF inv fresh x_def] and sub_not_in = sub_not_in [OF inv fresh]
  let ?s' = "subscribed a t u s"
  note links = links_okD [OF subs_invD(4) [OF inv]]
  show ?thesis unfolding links_ok_def
  proof (intro conjI allI impI)
  fix b t'
  assume "sb_alive ?s' b \<and> sb_topic ?s' b = Some t'"
  then have b: "b = a \<and> t' = t \<or> b \<noteq> a \<and> sb_alive s b \<and> sb_topic s b = Some t'"
    by (auto simp: subscribed_def Let_def split: if_splits)
  then show "\<exists>q. sb_topic_subscriber_prev ?s' b = Some q \<and> tslot_read ?s' q = Some b \<and>
      (q = THead t' \<or> (\<exists>c. q = TNext c \<and> sb_alive ?s' c))"
  proof (elim disjE conjE)
    assume "b = a" "t' = t"
    then show ?thesis using sub_head [of t] sub_tail x by (auto simp: subscribed_def Let_def)
  next
    assume b: "b \<noteq> a" "sb_alive s b" "sb_topic s b = Some t'"
    obtain q where q: "sb_topic_subscriber_prev s b = Some q" "tslot_read s q = Some b"
        "q = THead t' \<or> (\<exists>c. q = TNext c \<and> sb_alive s c)"
      using links(1) [OF b(2,3)] by blast
    moreover have "q \<noteq> TNext a" using q(3) fresh by auto
    moreover have "sb_head s t \<noteq> None \<Longrightarrow> q \<noteq> TNext x" using q(2) sub_tail(4) sub_head [of t] by auto
    ultimately show ?thesis using b sub_head [of t] x by (auto simp: subscribed_def Let_def)
  qed
next
  fix b c
  assume bc: "sb_alive ?s' b \<and> sb_topic ?s' b \<noteq> None \<and> sb_topic_subscriber_next ?s' b = Some c"
  have "sb_alive ?s' c \<and> sb_topic ?s' c = sb_topic ?s' b \<and> sb_topic_subscriber_prev ?s' c = Some (TNext b)"
  proof (cases "sb_head s t \<noteq> None \<and> b = x")
    case True
    then have "T t \<noteq> []" using sub_head [of t] by simp
    note tl = sub_tail [OF this]
    have "c = a" using bc True tl(3) x by (simp add: subscribed_def Let_def)
    moreover have "sb_topic s x = Some t" using bc True tl(3,5) by (auto simp: subscribed_def Let_def)
    ultimately show ?thesis using True tl(3) x by (simp add: subscribed_def Let_def)
  next
    case False
    then have ba: "b \<noteq> a" and n: "sb_topic_subscriber_next s b = Some c"
      using bc x by (auto simp: subscribed_def Let_def split: if_splits)
    then obtain t' where b: "sb_alive s b" "sb_topic s b = Some t'"
      using bc by (auto simp: subscribed_def Let_def)
    then show ?thesis using links(2) [OF b n] ba fresh by (auto simp: subscribed_def Let_def)
  qed
  then show "sb_alive ?s' c" "sb_topic ?s' c = sb_topic ?s' b" "sb_topic_subscriber_prev ?s' c = Some (TNext b)"
    by blast+
  qed
qed

lemma subscribed_rest:
  assumes inv: "subs_ok T S s" and fresh: "\<not> sb_alive s a"
  shows "tails_ok (T(t := topic_list_add a t s (T t))) (subscribed a t u s)" "refs_ok (subscribed a t u s)"
  "erasing_ok THead (subscribed a t u s)"
proof -
  define x where "x = the (sb_tail s t)"
  note x = x_def and sub_paths = sub_paths [OF inv] and sub_head = sub_head [OF inv]
    and sub_tail = sub_tail [OF inv fresh x_def] and sub_not_in = sub_not_in [OF inv fresh]
  note tails = tails_okD [OF subs_invD(5) [OF inv]]
  show "tails_ok (T(t := topic_list_add a t s (T t))) (subscribed a t u s)"
    unfolding tails_ok_def
  proof (intro conjI allI impI)
    fix t'
    assume "(T(t := topic_list_add a t s (T t))) t' \<noteq> []"
    show "\<exists>y. sb_tail (subscribed a t u s) t' = Some y \<and> sb_topic_subscriber_next (subscribed a t u s) y = None \<and>
        (sb_topic (subscribed a t u s) y = None \<or> sb_topic (subscribed a t u s) y = Some t')"
    proof (cases "t' = t")
      case True
      then show ?thesis using sub_tail(3) sub_head [of t] x by (auto simp: subscribed_def Let_def)
    next
      case False
      then have "T t' \<noteq> []" using \<open>(T(t := topic_list_add a t s (T t))) t' \<noteq> []\<close> by simp
      then obtain y where y: "sb_tail s t' = Some y" "sb_topic_subscriber_next s y = None"
          "sb_topic s y = None \<or> sb_topic s y = Some t'"
        using tails(3) by blast
      moreover have "y \<noteq> a" using tails(1) [OF y(1)] fresh by auto
      moreover have "y \<noteq> x" if "sb_head s t \<noteq> None"
        using tails(2) [of t y t'] y(1) sub_tail(1) sub_head [of t] that False by auto
      ultimately show ?thesis using False x by (auto simp: subscribed_def Let_def)
    qed
  qed (use tails(1,2) fresh in \<open>auto simp: subscribed_def Let_def split: if_splits\<close>)
  show "refs_ok (subscribed a t u s)"
    using subs_invD(6) [OF inv] fresh by (auto simp: refs_ok_def subscribed_def Let_def)
  show "erasing_ok THead (subscribed a t u s)"
  proof (rule erasing_okI)
    fix b th
    assume "sb_alive (subscribed a t u s) b" "sb_topic (subscribed a t u s) b \<noteq> None"
      "th \<in> set (sb_erasing_nodes (subscribed a t u s) b)"
    then show "sb_node (subscribed a t u s) th = Some b \<and> (\<forall>t. THead t \<noteq> TLocal th)"
      using erasing_okD(1) [OF subs_invD(7) [OF inv], of b th]
      by (auto simp: subscribed_def Let_def split: if_splits)
  next
    fix b th
    assume "sb_node (subscribed a t u s) th = Some b"
    then show "sb_alive (subscribed a t u s) b \<and> sb_topic (subscribed a t u s) b \<noteq> None \<and>
        th \<in> set (sb_erasing_nodes (subscribed a t u s) b)"
      using erasing_okD(2) [OF subs_invD(7) [OF inv], of th b] fresh
      by (auto simp: subscribed_def Let_def)
  qed
qed

lemma subscribed_inv:
  assumes inv: "subs_ok T S s" and fresh: "\<not> sb_alive s a"
  shows "subs_ok (T(t := topic_list_add a t s (T t))) (S(u := a # S u)) (subscribed a t u s)"
  using subscribed_lists [OF inv fresh] subscribed_nodes [OF inv fresh] subscribed_links [OF inv fresh]
    subscribed_rest [OF inv fresh]
  by (simp add: subs_inv_def)

text \<open>Subscribing always succeeds, and does nothing for a subscriber that has the topic.\<close>

lemma Topic_reserve_subscribe_inv:
  assumes inv: "subs_ok T S s" and fresh: "\<not> sb_alive s a"
  shows "Topic_reserve_subscribe a t u s = Some (Ok (
    if \<exists>b \<in> set (S u). sb_topic s b = Some t then (s, None) else (subscribed a t u s, Some a)))"
proof -
  have "sb_head s t \<noteq> None \<Longrightarrow> sb_tail s t = Some (the (sb_tail s t)) \<and> sb_alive s (the (sb_tail s t))"
    using sub_head [OF inv, of t] sub_tail(1,2) [OF inv fresh refl] by metis
  moreover have "sb_topic_head s u = Some h \<Longrightarrow> sb_alive s h" for h
    using sub_paths(2) [OF inv, of u] nodes_okD(1) [OF subs_invD(3) [OF inv], of h u] by (cases "S u") auto
  ultimately have "obind (reserve_subscribe a t u (Subscription_new a t u s)) (AutoRefPtr_reset None (Some a))
      = Ok (subscribed a t u s, Some a)"
    by (rule reserve_subscribe_eq [OF fresh])
  then show ?thesis by (simp add: Topic_reserve_subscribe_def Subscriber_has_topic_inv [OF inv])
qed

section \<open>Unsubscribing in two steps\<close>

lemma Subscriber_unsubscribe_find_inv:
  assumes inv: "subs_ok T S s" and free: "sb_node s th = None"
  shows "\<exists>s' found. Subscriber_unsubscribe_find th u t s = Some (Ok (s', found)) \<and> subs_ok T S s' \<and>
    sb_topic s' = sb_topic s \<and> sb_subscriber s' = sb_subscriber s \<and>
    sb_node s' th = find (\<lambda>a. sb_topic s a = Some t) (S u) \<and> found = (sb_node s' th \<noteq> None)"
proof (cases "find (\<lambda>a. sb_topic s a = Some t) (S u)")
  case None
  have "(sb_node s)(th := None) = sb_node s" using free by auto
  then show ?thesis
    using inv None free by (simp add: Subscriber_unsubscribe_find_def find_topic_node_inv)
next
  case (Some a)
  then have "a \<in> set (S u)" and t: "sb_topic s a = Some t" by (auto simp: find_Some_iff in_set_conv_nth)
  then have a: "sb_alive s a" using nodes_okD(1) [OF subs_invD(3) [OF inv]] by blast
  let ?s' = "s\<lparr>sb_node := (sb_node s)(th := Some a),
      sb_erasing_nodes := (sb_erasing_nodes s)(a := th # sb_erasing_nodes s a)\<rparr>"
  have read: "tslot_read ?s' q = tslot_read s q" if "\<And>th'. q \<noteq> TLocal th'" for q using that by (cases q) auto
  have "lists_ok THead T S ?s'" using subs_invD(2) [OF inv] by (simp add: lists_ok_def)
  moreover have "links_ok THead ?s'"
    unfolding links_ok_def
  proof (intro conjI allI impI)
    fix b t'
    assume "sb_alive ?s' b \<and> sb_topic ?s' b = Some t'"
    then obtain q where q: "sb_topic_subscriber_prev s b = Some q" "tslot_read s q = Some b"
        "q = THead t' \<or> (\<exists>c. q = TNext c \<and> sb_alive s c)"
      using links_okD(1) [OF subs_invD(4) [OF inv], of b t'] by auto
    then show "\<exists>q. sb_topic_subscriber_prev ?s' b = Some q \<and> tslot_read ?s' q = Some b \<and>
        (q = THead t' \<or> (\<exists>c. q = TNext c \<and> sb_alive ?s' c))"
      using read [of q] by auto
  next
    fix b c
    assume bc: "sb_alive ?s' b \<and> sb_topic ?s' b \<noteq> None \<and> sb_topic_subscriber_next ?s' b = Some c"
    then obtain t' where "sb_alive s b" "sb_topic s b = Some t'" "sb_topic_subscriber_next s b = Some c" by auto
    then show "sb_alive ?s' c" "sb_topic ?s' c = sb_topic ?s' b" "sb_topic_subscriber_prev ?s' c = Some (TNext b)"
      using links_okD(2) [OF subs_invD(4) [OF inv], of b t' c] by auto
  qed
  moreover have "erasing_ok THead ?s'"
  proof (rule erasing_okI)
    fix b th'
    assume "sb_alive ?s' b" "sb_topic ?s' b \<noteq> None" "th' \<in> set (sb_erasing_nodes ?s' b)"
    then show "sb_node ?s' th' = Some b \<and> (\<forall>t. THead t \<noteq> TLocal th')"
      using erasing_okD(1) [OF subs_invD(7) [OF inv], of b th'] free by (auto split: if_splits)
  next
    fix b th'
    assume "sb_node ?s' th' = Some b"
    then show "sb_alive ?s' b \<and> sb_topic ?s' b \<noteq> None \<and> th' \<in> set (sb_erasing_nodes ?s' b)"
      using erasing_okD(2) [OF subs_invD(7) [OF inv], of th' b] a t by (auto split: if_splits)
  qed
  ultimately have "subs_ok T S ?s'"
    using inv by (simp add: subs_inv_def nodes_ok_def tails_ok_def refs_ok_def)
  then show ?thesis
    using Some by (simp add: Subscriber_unsubscribe_find_def find_topic_node_inv [OF inv])
qed

section \<open>Operations in any order\<close>

text \<open>
  What threads do to the memory while they hold the mutexes: \<open>OFind\<close> and \<open>OErase\<close> are the two
  halves of \<open>Subscriber::unsubscribe\<close>, between which other operations may run. The references
  to the nodes that are handed out are kept.
\<close>

datatype subs_op =
    OReserve nat nat nat
  | OFind nat nat nat
  | OErase nat
  | OUnsubscribeAll nat
  | OClear nat nat
  | OConfirm nat

fun subs_do :: "subs_op \<Rightarrow> subs \<Rightarrow> subs outcome option" where
  "subs_do (OReserve a t u) s = map_option (\<lambda>r. obind r (\<lambda>(s', p). Ok s')) (Topic_reserve_subscribe a t u s)"
| "subs_do (OFind th u t) s = map_option (\<lambda>r. obind r (\<lambda>(s', found). Ok s')) (Subscriber_unsubscribe_find th u t s)"
| "subs_do (OErase th) s = Some (Subscriber_unsubscribe_erase th s)"
| "subs_do (OUnsubscribeAll u) s = Subscriber_unsubscribe_all u s"
| "subs_do (OClear th t) s = Topic_clear th t s"
| "subs_do (OConfirm a) s = Some (confirm_subscribe a s)"

text \<open>
  The allocator returns an address not in use, a thread starts one operation at a time, and a
  subscription is confirmed through a reference to it.
\<close>

fun subs_may :: "subs_op \<Rightarrow> subs \<Rightarrow> bool" where
  "subs_may (OReserve a t u) s \<longleftrightarrow> \<not> sb_alive s a"
| "subs_may (OFind th u t) s \<longleftrightarrow> sb_node s th = None"
| "subs_may (OErase th) s \<longleftrightarrow> True"
| "subs_may (OUnsubscribeAll u) s \<longleftrightarrow> True"
| "subs_may (OClear th t) s \<longleftrightarrow> sb_node s th = None"
| "subs_may (OConfirm a) s \<longleftrightarrow> sb_alive s a"

text \<open>What the operations do to the lists.\<close>

fun topic_lists :: "subs_op \<Rightarrow> subs \<Rightarrow> (nat \<Rightarrow> nat list) \<Rightarrow> (nat \<Rightarrow> nat list) \<Rightarrow> nat \<Rightarrow> nat list" where
  "topic_lists (OReserve a t u) s T S =
     (if \<exists>b \<in> set (S u). sb_topic s b = Some t then T else T(t := topic_list_add a t s (T t)))"
| "topic_lists (OFind th u t) s T S = T"
| "topic_lists (OErase th) s T S = (\<lambda>t. case sb_node s th of None \<Rightarrow> T t | Some a \<Rightarrow> remove1 a (T t))"
| "topic_lists (OUnsubscribeAll u) s T S = (\<lambda>t. filter (\<lambda>a. a \<notin> set (S u)) (T t))"
| "topic_lists (OClear th t) s T S = T(t := [])"
| "topic_lists (OConfirm a) s T S = T"

fun subscriber_lists :: "subs_op \<Rightarrow> subs \<Rightarrow> (nat \<Rightarrow> nat list) \<Rightarrow> (nat \<Rightarrow> nat list) \<Rightarrow> nat \<Rightarrow> nat list" where
  "subscriber_lists (OReserve a t u) s T S =
     (if \<exists>b \<in> set (S u). sb_topic s b = Some t then S else S(u := a # S u))"
| "subscriber_lists (OFind th u t) s T S = S"
| "subscriber_lists (OErase th) s T S = (\<lambda>u. case sb_node s th of None \<Rightarrow> S u | Some a \<Rightarrow> remove1 a (S u))"
| "subscriber_lists (OUnsubscribeAll u) s T S = S(u := [])"
| "subscriber_lists (OClear th t) s T S = (\<lambda>u. filter (\<lambda>a. a \<notin> set (T t)) (S u))"
| "subscriber_lists (OConfirm a) s T S = S"

lemma erase_inv:
  assumes inv: "subs_ok T S s" and a: "sb_node s th = Some a"
  shows "unsubscribe a s = Ok (unsubscribed a s)"
    and "subs_ok (\<lambda>t. remove1 a (T t)) (\<lambda>u. remove1 a (S u)) (unsubscribed a s)"
proof -
  have "sb_alive s a \<and> sb_topic s a \<noteq> None" using erasing_okD(2) [OF subs_invD(7) [OF inv] a] by auto
  then obtain t u where t: "sb_alive s a" "sb_topic s a = Some t" and u: "sb_subscriber s a = Some u"
    using nodes_okD(2) [OF subs_invD(3) [OF inv], of a] by fastforce
  have "a \<notin> set (T t')" if "t' \<noteq> t" for t' using nodes_okD(3) [OF subs_invD(3) [OF inv], of a t'] t that by auto
  moreover have "a \<notin> set (S u')" if "u' \<noteq> u" for u' using nodes_okD(1) [OF subs_invD(3) [OF inv], of a u'] u that by auto
  ultimately have "T(t := remove1 a (T t)) = (\<lambda>t. remove1 a (T t))" "S(u := remove1 a (S u)) = (\<lambda>u. remove1 a (S u))"
    by (auto simp: fun_eq_iff remove1_idem)
  with unsubscribe_correct [OF inv t u]
  show "unsubscribe a s = Ok (unsubscribed a s)"
      "subs_ok (\<lambda>t. remove1 a (T t)) (\<lambda>u. remove1 a (S u)) (unsubscribed a s)"
    by simp_all
qed

lemma tslot_read_working [simp]: "tslot_read (s\<lparr>sb_working := w\<rparr>) = tslot_read s"
proof
  show "tslot_read (s\<lparr>sb_working := w\<rparr>) q = tslot_read s q" for q by (cases q) simp_all
qed

lemma working_frame:
  "sb_alive (s\<lparr>sb_working := w\<rparr>) = sb_alive s"
  "sb_topic (s\<lparr>sb_working := w\<rparr>) = sb_topic s"
  "sb_topic_subscriber_next (s\<lparr>sb_working := w\<rparr>) = sb_topic_subscriber_next s"
  "sb_topic_subscriber_prev (s\<lparr>sb_working := w\<rparr>) = sb_topic_subscriber_prev s"
  "sb_subscriber (s\<lparr>sb_working := w\<rparr>) = sb_subscriber s"
  "sb_subscriber_topic_next (s\<lparr>sb_working := w\<rparr>) = sb_subscriber_topic_next s"
  "sb_subscriber_topic_prev (s\<lparr>sb_working := w\<rparr>) = sb_subscriber_topic_prev s"
  "sb_erasing_nodes (s\<lparr>sb_working := w\<rparr>) = sb_erasing_nodes s"
  "sb_ref (s\<lparr>sb_working := w\<rparr>) = sb_ref s"
  "sb_head (s\<lparr>sb_working := w\<rparr>) = sb_head s"
  "sb_tail (s\<lparr>sb_working := w\<rparr>) = sb_tail s"
  "sb_topic_head (s\<lparr>sb_working := w\<rparr>) = sb_topic_head s"
  "sb_node (s\<lparr>sb_working := w\<rparr>) = sb_node s"
  "sb_msg (s\<lparr>sb_working := w\<rparr>) = sb_msg s"
  by simp_all

lemma subs_inv_working [simp]: "subs_inv R T S (s\<lparr>sb_working := w\<rparr>) = subs_inv R T S s"
  unfolding subs_inv_def lists_ok_def nodes_ok_def links_ok_def tails_ok_def refs_ok_def erasing_ok_def
  by (simp only: working_frame tslot_read_working)

lemma subs_do_inv:
  assumes inv: "subs_ok T S s" and may: "subs_may ob s"
  shows "\<exists>s'. subs_do ob s = Some (Ok s') \<and> subs_ok (topic_lists ob s T S) (subscriber_lists ob s T S) s'"
proof (cases ob)
  case (OReserve a t u)
  then show ?thesis using inv may by (simp add: Topic_reserve_subscribe_inv subscribed_inv)
next
  case (OFind th u t)
  then show ?thesis using Subscriber_unsubscribe_find_inv [OF inv, of th u t] may by auto
next
  case (OErase th)
  then show ?thesis
    using inv erase_inv [OF inv, of th] by (cases "sb_node s th") (auto simp: Subscriber_unsubscribe_erase_def)
next
  case (OUnsubscribeAll u)
  then show ?thesis using Subscriber_unsubscribe_all_inv [OF inv, of u] by auto
next
  case (OClear th t)
  then show ?thesis using Topic_clear_inv [OF inv, of th t] may by auto
next
  case (OConfirm a)
  have "subs_ok T S (s\<lparr>sb_working := (sb_working s)(a := True)\<rparr>)" using inv by simp
  then show ?thesis using OConfirm may by (simp add: confirm_subscribe_def with_node_def)
qed

text \<open>All states that operations can lead to, from an empty memory.\<close>

inductive subs_reach :: "subs \<Rightarrow> bool" where
  subs_reach_start: "subs_reach no_subs"
| subs_reach_step: "subs_reach s \<Longrightarrow> subs_may ob s \<Longrightarrow> subs_do ob s = Some (Ok s') \<Longrightarrow> subs_reach s'"

lemma subs_reach_ok: "subs_reach s \<Longrightarrow> \<exists>T S. subs_ok T S s"
proof (induction rule: subs_reach.induct)
  case (subs_reach_step s ob s')
  then obtain T S where "subs_ok T S s" by blast
  from subs_do_inv [OF this subs_reach_step(2)] subs_reach_step(3) show ?case by auto
qed (use no_subs_ok in blast)

section \<open>Properties\<close>



text \<open>
  In every state threads can reach, every operation returns and touches only live
  nodes: the loops over the subscriptions end, and a node two threads are erasing is erased once.
\<close>

theorem subscription_operations_return:
  assumes "subs_reach s" and "subs_may ob s"
  shows "\<exists>s'. subs_do ob s = Some (Ok s')"
  using subs_reach_ok [OF assms(1)] subs_do_inv [OF _ assms(2)] by blast

theorem subscription_operations_return_witness:
  "\<exists>s'. subs_do (OClear 0 1) (subscribed 5 1 2 no_subs) = Some (Ok s')"
proof (rule subscription_operations_return)
  have "subs_do (OReserve 5 1 2) no_subs = Some (Ok (subscribed 5 1 2 no_subs))"
    using Topic_reserve_subscribe_inv [OF no_subs_ok, of 5 1 2] by (simp add: no_subs_def)
  then show "subs_reach (subscribed 5 1 2 no_subs)"
    using subs_reach_step [OF subs_reach_start, of "OReserve 5 1 2"] by (simp add: no_subs_def)
qed (simp add: subscribed_def no_subs_def)

end
