(* ===== verification/Eco_Topic.thy ===== *)
theory Eco_Topic
  imports Eco_Memory
begin

text \<open>
  The content of topics: \<open>src/project/eco/meta/Timestamp.h\<close>, the classes \<open>TopicId\<close> and \<open>Content\<close> of
  \<open>thread/topic/Role.h\<close>, and the four kinds of topic of \<open>thread/topic/Topic.h\<close> with what they keep
  for their subscribers.

  A topic has a snapshot, which a new subscriber is sent first, and new contents, which the
  publishing thread moves to the snapshot and sends to everybody. A content is shared: the
  timestamp of a content that was published before may change. The contents made for a topic are
  named by their position in the list of all of them, in the order they were made.

  The locale at the end is the contract between a kind of topic and its subscribers: what a
  subscriber makes of the contents it is sent, and that this ends in the state of the topic.
\<close>

section \<open>Timestamps\<close>

definition v_insert :: u32 where "v_insert = 0"
definition v_update :: u32 where "v_update = 1"
definition v_remove :: u32 where "v_remove = 2"
definition v_clear :: u32 where "v_clear = 3"

lemmas timestamp_defs = v_insert_def v_update_def v_remove_def v_clear_def

definition ts_cleared :: "u32 \<Rightarrow> bool" where "ts_cleared v = (v = v_clear)"
definition ts_removed :: "u32 \<Rightarrow> bool" where "ts_removed v = (v = v_remove)"
definition ts_updated :: "u32 \<Rightarrow> bool" where "ts_updated v = (v = v_update)"
definition ts_inserted :: "u32 \<Rightarrow> bool" where "ts_inserted v = (v = v_insert)"

definition ts_clear :: "u32 \<Rightarrow> u32" where
  "ts_clear v = (if \<not> ts_removed v then v_clear else v)"

definition ts_remove :: "u32 \<Rightarrow> u32" where
  "ts_remove v = (if ts_cleared v \<or> ts_updated v then v_remove else v)"

definition ts_insert :: "u32 \<Rightarrow> u32" where
  "ts_insert v = v_insert"

definition ts_update :: "u32 \<Rightarrow> u32" where
  "ts_update v = (if ts_cleared v then v_update else v)"

definition ts_get_text :: "u32 \<Rightarrow> string" where
  "ts_get_text v = (if v = v_clear then ''clear'' else if v = v_insert then ''insert''
     else if v = v_update then ''update'' else if v = v_remove then ''remove'' else ''none'')"

section \<open>Topic ids\<close>

record topic_id =
  ti_type :: u32
  ti_prop :: u32
  ti_value :: u64

definition TopicId_set :: "u32 \<Rightarrow> u32 \<Rightarrow> u64 \<Rightarrow> topic_id \<Rightarrow> topic_id" where
  "TopicId_set ty p v tid = tid\<lparr>ti_type := ty, ti_prop := p, ti_value := v\<rparr>"

text \<open>The product with \<open>m_prop\<close> has 32 bits; only then it is widened.\<close>

definition TopicId_hash_value :: "topic_id \<Rightarrow> u64" where
  "TopicId_hash_value tid =
     (let result = ucast (ti_type tid);
          result = result + ucast (ti_prop tid * 100)
      in result + ti_value tid * 10000)"

definition TopicIdHash :: "topic_id \<Rightarrow> u64" where
  "TopicIdHash v = hash_combine 0 (TopicId_hash_value v)"

definition TopicId_equal :: "topic_id \<Rightarrow> u32 \<Rightarrow> u32 \<Rightarrow> u64 \<Rightarrow> bool" where
  "TopicId_equal tid ty p v \<longleftrightarrow> ti_value tid = v \<and> ti_type tid = ty \<and> ti_prop tid = p"

definition TopicId_eq :: "topic_id \<Rightarrow> topic_id \<Rightarrow> bool" where
  "TopicId_eq a b \<longleftrightarrow> ti_value a = ti_value b \<and> ti_type a = ti_type b \<and> ti_prop a = ti_prop b"

lemma TopicId_eq_iff: "TopicId_eq a b \<longleftrightarrow> a = b"
  by (cases a; cases b) (auto simp: TopicId_eq_def)

section \<open>Contents\<close>

record 'o content =
  ct_object :: 'o
  ct_timestamp :: u32

definition content_removed :: "'o content \<Rightarrow> bool" where
  "content_removed x = ts_removed (ct_timestamp x)"

text \<open>Assigning to the timestamp of the content \<open>c\<close>.\<close>

definition set_timestamp :: "nat \<Rightarrow> u32 \<Rightarrow> 'o content list \<Rightarrow> 'o content list" where
  "set_timestamp c v h = h[c := (h ! c)\<lparr>ct_timestamp := v\<rparr>]"

section \<open>Topics\<close>

text \<open>
  The members of each class: the snapshot and the new contents, and for a set of objects the map
  of the objects as they are now.
\<close>

datatype 'k topic_data =
    OneTopic "nat option" "nat option"
  | SeqTopic "nat list" "nat list"
  | SetTopic "'k \<Rightarrow> nat option" "'k \<Rightarrow> nat option" "nat list"
  | PopTopic "nat list"

datatype topic_kind = OneKind | SeqKind | SetKind | PopKind

fun Topic_make :: "topic_kind \<Rightarrow> 'k topic_data" where
  "Topic_make OneKind = OneTopic None None"
| "Topic_make SeqKind = SeqTopic [] []"
| "Topic_make SetKind = SetTopic (\<lambda>k. None) (\<lambda>k. None) []"
| "Topic_make PopKind = PopTopic []"

fun Topic_get_type :: "'k topic_data \<Rightarrow> topic_kind" where
  "Topic_get_type (OneTopic snap new) = OneKind"
| "Topic_get_type (SeqTopic snap new) = SeqKind"
| "Topic_get_type (SetTopic snap objects new) = SetKind"
| "Topic_get_type (PopTopic new) = PopKind"

text \<open>\<open>get_id\<close> is the identity of an object, from the adapter the topic is instantiated with.\<close>

definition SetTopic_append ::
  "('o \<Rightarrow> 'k) \<Rightarrow> nat \<Rightarrow> 'o content list \<Rightarrow> ('k \<Rightarrow> nat option) \<Rightarrow> ('k \<Rightarrow> nat option) \<Rightarrow> nat list \<Rightarrow>
     'o content list \<times> 'k topic_data" where
  "SetTopic_append get_id newc h snap objects new =
     (let obj_id = get_id (ct_object (h ! newc))
      in case objects obj_id of
           Some it \<Rightarrow>
             if content_removed (h ! newc)
             then (set_timestamp it v_remove h, SetTopic snap (objects(obj_id := None)) (new @ [it]))
             else (set_timestamp newc v_update h, SetTopic snap (objects(obj_id := Some newc)) (new @ [newc]))
         | None \<Rightarrow>
             if \<not> content_removed (h ! newc)
             then (set_timestamp newc v_insert h, SetTopic snap (objects(obj_id := Some newc)) (new @ [newc]))
             else (h, SetTopic snap objects new))"

definition OneTopic_append :: "nat \<Rightarrow> nat option \<Rightarrow> nat option \<Rightarrow> 'k topic_data" where
  [simp]: "OneTopic_append c snap new = OneTopic snap (Some c)"

definition SeqTopic_append :: "nat \<Rightarrow> nat list \<Rightarrow> nat list \<Rightarrow> 'k topic_data" where
  [simp]: "SeqTopic_append c snap new = SeqTopic snap (new @ [c])"

definition PopTopic_append :: "nat \<Rightarrow> nat list \<Rightarrow> 'k topic_data" where
  [simp]: "PopTopic_append c new = PopTopic (new @ [c])"

text \<open>The virtual functions of a topic, by its class.\<close>

fun Topic_append :: "('o \<Rightarrow> 'k) \<Rightarrow> nat \<Rightarrow> 'o content list \<Rightarrow> 'k topic_data \<Rightarrow> 'o content list \<times> 'k topic_data" where
  "Topic_append get_id c h (OneTopic snap new) = (h, OneTopic_append c snap new)"
| "Topic_append get_id c h (SeqTopic snap new) = (h, SeqTopic_append c snap new)"
| "Topic_append get_id c h (SetTopic snap objects new) = SetTopic_append get_id c h snap objects new"
| "Topic_append get_id c h (PopTopic new) = (h, PopTopic_append c new)"

text \<open>
  The contents a new subscriber is sent. The snapshot of a set is sent in the order of its hash
  table, which is a parameter.
\<close>

fun snap_order :: "'k list \<Rightarrow> 'k topic_data \<Rightarrow> bool" where
  "snap_order ks (SetTopic snap objects new) = (distinct ks \<and> set ks = dom snap)"
| "snap_order ks d = (ks = [])"

definition OneTopic_do_snap :: "'o content list \<Rightarrow> nat option \<Rightarrow> 'o content list \<times> nat list" where
  [simp]: "OneTopic_do_snap h snap = (case snap of
     None \<Rightarrow> (h, [])
   | Some c \<Rightarrow> (set_timestamp c (ts_clear (ct_timestamp (h ! c))) h, [c]))"

definition SeqTopic_do_snap :: "nat list \<Rightarrow> nat list" where
  [simp]: "SeqTopic_do_snap snap = snap"

definition SetTopic_do_snap :: "'k list \<Rightarrow> ('k \<Rightarrow> nat option) \<Rightarrow> nat list" where
  [simp]: "SetTopic_do_snap ks snap = map (\<lambda>k. the (snap k)) ks"

fun Topic_do_snap :: "'k list \<Rightarrow> 'o content list \<Rightarrow> 'k topic_data \<Rightarrow> 'o content list \<times> nat list" where
  "Topic_do_snap ks h (OneTopic snap new) = OneTopic_do_snap h snap"
| "Topic_do_snap ks h (SeqTopic snap new) = (h, SeqTopic_do_snap snap)"
| "Topic_do_snap ks h (SetTopic snap objects new) = (h, SetTopic_do_snap ks snap)"
| "Topic_do_snap ks h (PopTopic new) = (h, [])"

definition SetTopic_sync :: "('o \<Rightarrow> 'k) \<Rightarrow> 'o content list \<Rightarrow> nat \<Rightarrow> ('k \<Rightarrow> nat option) \<Rightarrow> 'k \<Rightarrow> nat option" where
  "SetTopic_sync get_id h it snap =
     (let obj_id = get_id (ct_object (h ! it))
      in if content_removed (h ! it) then snap(obj_id := None) else snap(obj_id := Some it))"

text \<open>Moving the new contents to the snapshot: the set to publish, or nothing to do.\<close>

definition OneTopic_do_move :: "nat option \<Rightarrow> nat option \<Rightarrow> (nat list \<times> 'k topic_data) option" where
  [simp]: "OneTopic_do_move snap new = (case new of
     None \<Rightarrow> None
   | Some c \<Rightarrow> Some ([c], OneTopic (Some c) None))"

definition SeqTopic_do_move :: "nat list \<Rightarrow> nat list \<Rightarrow> (nat list \<times> 'k topic_data) option" where
  [simp]: "SeqTopic_do_move snap new = (if new = [] then None else Some (new, SeqTopic (snap @ new) []))"

definition SetTopic_do_move ::
  "('o \<Rightarrow> 'k) \<Rightarrow> 'o content list \<Rightarrow> ('k \<Rightarrow> nat option) \<Rightarrow> ('k \<Rightarrow> nat option) \<Rightarrow> nat list \<Rightarrow> (nat list \<times> 'k topic_data) option" where
  [simp]: "SetTopic_do_move get_id h snap objects new =
     (if new = [] then None
      else Some (new, SetTopic (fold (SetTopic_sync get_id h) new snap) objects []))"

definition PopTopic_do_move :: "nat list \<Rightarrow> (nat list \<times> 'k topic_data) option" where
  [simp]: "PopTopic_do_move new = (if new = [] then None else Some (new, PopTopic []))"

fun Topic_do_move :: "('o \<Rightarrow> 'k) \<Rightarrow> 'o content list \<Rightarrow> 'k topic_data \<Rightarrow> (nat list \<times> 'k topic_data) option" where
  "Topic_do_move get_id h (OneTopic snap new) = OneTopic_do_move snap new"
| "Topic_do_move get_id h (SeqTopic snap new) = SeqTopic_do_move snap new"
| "Topic_do_move get_id h (SetTopic snap objects new) = SetTopic_do_move get_id h snap objects new"
| "Topic_do_move get_id h (PopTopic new) = PopTopic_do_move new"

fun Topic_do_clear :: "'k topic_data \<Rightarrow> 'k topic_data" where
  "Topic_do_clear (OneTopic snap new) = OneTopic None None"
| "Topic_do_clear (SeqTopic snap new) = SeqTopic [] []"
| "Topic_do_clear (SetTopic snap objects new) = SetTopic (\<lambda>k. None) (\<lambda>k. None) []"
| "Topic_do_clear (PopTopic new) = PopTopic []"

text \<open>Looking up an object needs a set; the cast of anything else to one is not defined.\<close>

fun SetTopic_find :: "'k \<Rightarrow> 'k topic_data \<Rightarrow> nat option outcome" where
  "SetTopic_find k (SetTopic snap objects new) = Ok (objects k)"
| "SetTopic_find k d = UB"

section \<open>What a subscriber makes of its contents\<close>

text \<open>The new contents of a topic, all it has named, and a content seen as it is at that time.\<close>

fun topic_pending :: "'k topic_data \<Rightarrow> nat list" where
  "topic_pending (OneTopic snap new) = (case new of None \<Rightarrow> [] | Some c \<Rightarrow> [c])"
| "topic_pending (SeqTopic snap new) = new"
| "topic_pending (SetTopic snap objects new) = new"
| "topic_pending (PopTopic new) = new"

fun topic_contents :: "'k topic_data \<Rightarrow> nat set" where
  "topic_contents (OneTopic snap new) = set_option snap \<union> set_option new"
| "topic_contents (SeqTopic snap new) = set snap \<union> set new"
| "topic_contents (SetTopic snap objects new) = ran snap \<union> ran objects \<union> set new"
| "topic_contents (PopTopic new) = set new"

definition see_all :: "(nat \<Rightarrow> 'o content \<Rightarrow> 'v \<Rightarrow> 'v) \<Rightarrow> 'o content list \<Rightarrow> nat list \<Rightarrow> 'v \<Rightarrow> 'v" where
  "see_all see h cs v = fold (\<lambda>c. see c (h ! c)) cs v"

lemma see_all_simps [simp]:
  "see_all see h [] v = v"
  "see_all see h (c # cs) v = see_all see h cs (see c (h ! c) v)"
  "see_all see h (cs @ cs') v = see_all see h cs' (see_all see h cs v)"
  by (simp_all add: see_all_def)

lemma see_all_cong: "(\<And>c. c \<in> set cs \<Longrightarrow> h' ! c = h ! c) \<Longrightarrow> see_all see h' cs v = see_all see h cs v"
  by (induction cs arbitrary: v) simp_all

text \<open>
  The contract: \<open>see\<close> is what a subscriber does with a content it is sent, starting from \<open>none\<close>;
  \<open>good h d v\<close> says that what it has then is the state \<open>d\<close> of the topic. \<open>inv\<close> is what the
  topic keeps of its members. Whatever a subscriber is still to be sent, \<open>xs\<close> and then the new
  contents, each operation keeps that it ends in a good state.
\<close>

definition topic_keeps ::
  "(nat \<Rightarrow> 'o content \<Rightarrow> 'v \<Rightarrow> 'v) \<Rightarrow> ('o content list \<Rightarrow> 'k topic_data \<Rightarrow> 'v \<Rightarrow> bool) \<Rightarrow>
     'o content list \<Rightarrow> 'k topic_data \<Rightarrow> 'o content list \<Rightarrow> 'k topic_data \<Rightarrow> bool" where
  "topic_keeps see good h d h' d' \<longleftrightarrow> (\<forall>xs v. set xs \<subseteq> {..<length h} \<longrightarrow>
     good h d (see_all see h (xs @ topic_pending d) v) \<longrightarrow>
     good h' d' (see_all see h' (xs @ topic_pending d') v))"

locale topic_contract =
  fixes get_id :: "'o \<Rightarrow> 'k"
    and kind :: topic_kind
    and see :: "nat \<Rightarrow> 'o content \<Rightarrow> 'v \<Rightarrow> 'v"
    and none :: 'v
    and inv :: "'o content list \<Rightarrow> 'k topic_data \<Rightarrow> bool"
    and good :: "'o content list \<Rightarrow> 'k topic_data \<Rightarrow> 'v \<Rightarrow> bool"
  assumes start: "inv [] (Topic_make kind)"
    and append_new: "Topic_get_type d = kind \<Longrightarrow> inv h d \<Longrightarrow> Topic_append get_id (length h) (h @ [x]) d = (h', d') \<Longrightarrow>
      inv h' d' \<and> topic_keeps see good h d h' d'"
    and append_again: "kind = SetKind \<Longrightarrow> Topic_get_type d = kind \<Longrightarrow> inv h d \<Longrightarrow> c < length h \<Longrightarrow>
      Topic_append get_id c h d = (h', d') \<Longrightarrow> inv h' d' \<and> topic_keeps see good h d h' d'"
    and mark: "Topic_get_type d = kind \<Longrightarrow> inv h d \<Longrightarrow> c < length h \<Longrightarrow>
      inv (set_timestamp c v_remove h) d \<and> topic_keeps see good h d (set_timestamp c v_remove h) d"
    and move: "Topic_get_type d = kind \<Longrightarrow> inv h d \<Longrightarrow> Topic_do_move get_id h d = Some (ns, d') \<Longrightarrow>
      inv h d' \<and> ns = topic_pending d \<and> topic_pending d' = [] \<and> (\<forall>v. good h d v \<longrightarrow> good h d' v)"
    and clear: "Topic_get_type d = kind \<Longrightarrow> inv h d \<Longrightarrow>
      inv h (Topic_do_clear d) \<and> topic_pending (Topic_do_clear d) = [] \<and> good h (Topic_do_clear d) none"
    and snap: "Topic_get_type d = kind \<Longrightarrow> inv h d \<Longrightarrow> snap_order ks d \<Longrightarrow> Topic_do_snap ks h d = (h', cs) \<Longrightarrow>
      inv h' d \<and> topic_keeps see good h d h' d \<and> good h' d (see_all see h' (cs @ topic_pending d) none)"

text \<open>What every kind of topic does, whatever its contract.\<close>

lemma Topic_append_type: "Topic_append get_id c h d = (h', d') \<Longrightarrow> Topic_get_type d' = Topic_get_type d"
  by (cases d) (auto simp: SetTopic_append_def Let_def split: option.splits if_splits)

lemma Topic_do_move_type: "Topic_do_move get_id h d = Some (ns, d') \<Longrightarrow> Topic_get_type d' = Topic_get_type d"
  by (cases d) (auto split: option.splits if_splits)

lemma Topic_do_clear_type [simp]: "Topic_get_type (Topic_do_clear d) = Topic_get_type d"
  by (cases d) auto

lemma Topic_make_type [simp]: "Topic_get_type (Topic_make kind) = kind"
  by (cases kind) auto

lemma set_timestamp_length [simp]: "length (set_timestamp c v h) = length h"
  by (simp add: set_timestamp_def)

lemma Topic_append_length: "Topic_append get_id c h d = (h', d') \<Longrightarrow> length h' = length h"
  by (cases d) (auto simp: SetTopic_append_def Let_def split: option.splits if_splits)

lemma Topic_do_snap_length: "Topic_do_snap ks h d = (h', cs) \<Longrightarrow> length h' = length h"
  by (cases d) (auto split: option.splits)

lemma Topic_do_snap_contents:
  assumes "Topic_do_snap ks h d = (h', cs)" "snap_order ks d"
  shows "set cs \<subseteq> topic_contents d"
proof (cases d)
  case (SetTopic snap objects new)
  then have "cs = map (\<lambda>k. the (snap k)) ks" "\<And>k. k \<in> set ks \<Longrightarrow> snap k \<noteq> None" using assms by auto
  then show ?thesis using SetTopic by (fastforce simp: ran_def)
qed (use assms in \<open>auto split: option.splits\<close>)

lemma topic_pending_contents: "set (topic_pending d) \<subseteq> topic_contents d"
  by (cases d) (auto split: option.splits)

section \<open>The kinds of topic\<close>

text \<open>
  The latest content: a subscriber has the last one it was sent. It is the last one that was
  made for the topic.
\<close>

definition latest :: "'o content list \<Rightarrow> nat option \<Rightarrow> bool" where
  "latest h x \<longleftrightarrow> x = None \<or> h \<noteq> [] \<and> x = Some (length h - 1)"

fun one_inv :: "'o content list \<Rightarrow> 'k topic_data \<Rightarrow> bool" where
  "one_inv h (OneTopic snap new) = (case new of None \<Rightarrow> latest h snap | Some c \<Rightarrow> latest h (Some c))"
| "one_inv h d = False"

fun one_good :: "'o content list \<Rightarrow> 'k topic_data \<Rightarrow> nat option \<Rightarrow> bool" where
  "one_good h (OneTopic snap new) v = (v = (case new of None \<Rightarrow> snap | Some c \<Rightarrow> Some c))"
| "one_good h d v = False"

definition see_one :: "nat \<Rightarrow> 'o content \<Rightarrow> nat option \<Rightarrow> nat option" where
  "see_one c x v = Some c"

lemma Topic_type_cases:
  "Topic_get_type d = OneKind \<longleftrightarrow> (\<exists>snap new. d = OneTopic snap new)"
  "Topic_get_type d = SeqKind \<longleftrightarrow> (\<exists>snap new. d = SeqTopic snap new)"
  "Topic_get_type d = SetKind \<longleftrightarrow> (\<exists>snap objects new. d = SetTopic snap objects new)"
  by (cases d; simp)+

lemma see_one_all: "see_all see_one h cs v = (if cs = [] then v else Some (last cs))"
  by (induction cs arbitrary: v) (auto simp: see_one_def)

interpretation one_topic: topic_contract get_id OneKind see_one None one_inv one_good
  for get_id :: "'o \<Rightarrow> 'k"
  by unfold_locales
    (auto simp: latest_def Topic_type_cases see_one_all topic_keeps_def set_timestamp_def
      split: option.splits if_splits)

text \<open>The history: a subscriber has all contents, in the order they were made for the topic.\<close>

fun seq_inv :: "'o content list \<Rightarrow> 'k topic_data \<Rightarrow> bool" where
  "seq_inv h (SeqTopic snap new) = (\<exists>k \<le> length h. snap @ new = [k..<length h])"
| "seq_inv h d = False"

fun seq_good :: "'o content list \<Rightarrow> 'k topic_data \<Rightarrow> nat list \<Rightarrow> bool" where
  "seq_good h (SeqTopic snap new) v = (v = snap @ new)"
| "seq_good h d v = False"

definition see_seq :: "nat \<Rightarrow> 'o content \<Rightarrow> nat list \<Rightarrow> nat list" where
  "see_seq c x v = v @ [c]"

lemma see_seq_all: "see_all see_seq h cs v = v @ cs"
  by (induction cs arbitrary: v) (auto simp: see_seq_def)

lemma seq_inv_snoc: "\<exists>k \<le> n. xs = [k..<n] \<Longrightarrow> \<exists>k \<le> Suc n. xs @ [n] = [k..<Suc n]"
  by (metis le_Suc_eq upt_Suc_append)

interpretation seq_topic: topic_contract get_id SeqKind see_seq "[]" seq_inv seq_good
  for get_id :: "'o \<Rightarrow> 'k"
proof unfold_locales
  fix h h' :: "'o content list" and d d' :: "'k topic_data" and c ns x ks cs
  show "seq_inv [] (Topic_make SeqKind)" by simp
  assume "Topic_get_type d = SeqKind" and inv: "seq_inv h d"
  then obtain snap new where d: "d = SeqTopic snap new" by (auto simp: Topic_type_cases)
  obtain k where k: "k \<le> length h" "snap @ new = [k..<length h]" using inv by (auto simp: d)
  show "Topic_append get_id (length h) (h @ [x]) d = (h', d') \<Longrightarrow> seq_inv h' d' \<and> topic_keeps see_seq seq_good h d h' d'"
    using seq_inv_snoc [of "length h" "snap @ new"] k by (auto simp: d topic_keeps_def see_seq_all)
  show "seq_inv (set_timestamp c v_remove h) d \<and> topic_keeps see_seq seq_good h d (set_timestamp c v_remove h) d"
    using inv by (simp add: d topic_keeps_def see_seq_all set_timestamp_def)
  show "Topic_do_move get_id h d = Some (ns, d') \<Longrightarrow> seq_inv h d' \<and> ns = topic_pending d \<and>
      topic_pending d' = [] \<and> (\<forall>v. seq_good h d v \<longrightarrow> seq_good h d' v)"
    using inv by (auto simp: d split: if_splits)
  show "seq_inv h (Topic_do_clear d) \<and> topic_pending (Topic_do_clear d) = [] \<and> seq_good h (Topic_do_clear d) []"
    by (auto simp: d)
  show "Topic_do_snap ks h d = (h', cs) \<Longrightarrow> seq_inv h' d \<and> topic_keeps see_seq seq_good h d h' d \<and>
      seq_good h' d (see_all see_seq h' (cs @ topic_pending d) [])"
    using inv by (auto simp: d topic_keeps_def see_seq_all)
qed simp_all

text \<open>
  The set of objects: a subscriber has a map from identities to contents. An object whose content
  was marked as removed, but which is not removed yet, is between the two.
\<close>

definition content_id :: "('o \<Rightarrow> 'k) \<Rightarrow> 'o content list \<Rightarrow> nat \<Rightarrow> 'k" where
  "content_id get_id h c = get_id (ct_object (h ! c))"

definition see_set :: "('o \<Rightarrow> 'k) \<Rightarrow> nat \<Rightarrow> 'o content \<Rightarrow> ('k \<Rightarrow> nat option) \<Rightarrow> 'k \<Rightarrow> nat option" where
  "see_set get_id c x v = (if content_removed x then v(get_id (ct_object x) := None) else v(get_id (ct_object x) := Some c))"

definition being_removed :: "'o content list \<Rightarrow> ('k \<Rightarrow> nat option) \<Rightarrow> 'k \<Rightarrow> bool" where
  "being_removed h objects k \<longleftrightarrow> (\<exists>c. objects k = Some c \<and> content_removed (h ! c))"

definition same_objects :: "'o content list \<Rightarrow> ('k \<Rightarrow> nat option) \<Rightarrow> ('k \<Rightarrow> nat option) \<Rightarrow> bool" where
  "same_objects h objects v \<longleftrightarrow> (\<forall>k. v k = objects k \<or> being_removed h objects k)"

fun set_good :: "'o content list \<Rightarrow> 'k topic_data \<Rightarrow> ('k \<Rightarrow> nat option) \<Rightarrow> bool" where
  "set_good h (SetTopic snap objects new) v = same_objects h objects v"
| "set_good h d v = False"

fun set_inv :: "('o \<Rightarrow> 'k) \<Rightarrow> 'o content list \<Rightarrow> 'k topic_data \<Rightarrow> bool" where
  "set_inv get_id h (SetTopic snap objects new) \<longleftrightarrow>
     topic_contents (SetTopic snap objects new) \<subseteq> {..<length h} \<and>
     (\<forall>k c. objects k = Some c \<longrightarrow> content_id get_id h c = k) \<and>
     (\<forall>k c. snap k = Some c \<longrightarrow> content_id get_id h c = k) \<and>
     (\<forall>k c. snap k = Some c \<longrightarrow> content_removed (h ! c) \<longrightarrow>
        k \<in> content_id get_id h ` set new \<or> being_removed h objects k) \<and>
     same_objects h objects (see_all (see_set get_id) h new snap)"
| "set_inv get_id h d = False"

text \<open>What a subscriber has for an identity is the last content with this identity it was sent.\<close>

definition sent_for :: "('o \<Rightarrow> 'k) \<Rightarrow> 'o content list \<Rightarrow> nat list \<Rightarrow> 'k \<Rightarrow> nat list" where
  "sent_for get_id h cs k = filter (\<lambda>c. content_id get_id h c = k) cs"

lemma sent_for_simps [simp]:
  "sent_for get_id h [] k = []"
  "sent_for get_id h (cs @ cs') k = sent_for get_id h cs k @ sent_for get_id h cs' k"
  "sent_for get_id h (c # cs) k = (if content_id get_id h c = k then c # sent_for get_id h cs k else sent_for get_id h cs k)"
  by (simp_all add: sent_for_def)

lemma see_set_all:
  "see_all (see_set get_id) h cs v k =
     (if sent_for get_id h cs k = [] then v k
      else if content_removed (h ! last (sent_for get_id h cs k)) then None else Some (last (sent_for get_id h cs k)))"
  by (induction cs arbitrary: v) (auto simp: see_set_def content_id_def)

lemma sent_for_in: "sent_for get_id h cs k \<noteq> [] \<Longrightarrow> last (sent_for get_id h cs k) \<in> set cs \<and>
   content_id get_id h (last (sent_for get_id h cs k)) = k"
  using last_in_set [of "sent_for get_id h cs k"] by (auto simp: sent_for_def)

lemma sent_for_Nil: "sent_for get_id h cs k = [] \<longleftrightarrow> k \<notin> content_id get_id h ` set cs"
  by (auto simp: sent_for_def filter_empty_conv)

text \<open>A timestamp leaves the identities alone.\<close>

lemma content_id_timestamp [simp]: "content_id get_id (set_timestamp c v h) = content_id get_id h"
proof
  show "content_id get_id (set_timestamp c v h) c' = content_id get_id h c'" for c'
    by (cases "c < length h"; cases "c' = c") (auto simp: content_id_def set_timestamp_def list_update_beyond)
qed

lemma sent_for_timestamp [simp]: "sent_for get_id (set_timestamp c v h) = sent_for get_id h"
  by (simp add: sent_for_def fun_eq_iff)

lemma content_removed_timestamp:
  "c < length h \<Longrightarrow> content_removed (set_timestamp c v h ! c') = (if c' = c then v = v_remove else content_removed (h ! c'))"
  by (auto simp: content_removed_def set_timestamp_def ts_removed_def)

lemma content_id_grow: "c < length h \<Longrightarrow> content_id get_id (h @ [x]) c = content_id get_id h c"
  by (simp add: content_id_def nth_append)

lemma being_removed_grow: "ran objects \<subseteq> {..<length h} \<Longrightarrow> being_removed (h @ [x]) objects k = being_removed h objects k"
  by (auto simp: being_removed_def nth_append ran_def)

lemma see_all_grow: "set cs \<subseteq> {..<length h} \<Longrightarrow> see_all see (h @ [x]) cs v = see_all see h cs v"
  by (rule see_all_cong) (auto simp: nth_append)

lemma set_grow:
  assumes "set_inv get_id h (SetTopic snap objects new)"
  shows "set_inv get_id (h @ [x]) (SetTopic snap objects new)"
    and "topic_keeps (see_set get_id) set_good h (SetTopic snap objects new) (h @ [x]) (SetTopic snap objects new)"
proof -
  have valid: "ran snap \<subseteq> {..<length h}" "ran objects \<subseteq> {..<length h}" "set new \<subseteq> {..<length h}"
    using assms by auto
  have same: "same_objects (h @ [x]) objects v = same_objects h objects v" for v
    using being_removed_grow [OF valid(2)] by (simp add: same_objects_def)
  show "topic_keeps (see_set get_id) set_good h (SetTopic snap objects new) (h @ [x]) (SetTopic snap objects new)"
    using valid(3) by (auto simp: topic_keeps_def same see_all_grow)
  have "snap k = Some c \<Longrightarrow> c < length h" "objects k = Some c \<Longrightarrow> c < length h" for k c
    using valid by (auto simp: ran_def)
  moreover have "content_id get_id (h @ [x]) ` set new = content_id get_id h ` set new"
    using valid(3) by (intro image_cong) (auto simp: content_id_grow)
  ultimately show "set_inv get_id (h @ [x]) (SetTopic snap objects new)"
    using assms valid being_removed_grow [OF valid(2)]
    by (auto simp: content_id_grow same nth_append see_all_grow)
qed

lemma topic_keeps_grow:
  "topic_keeps see good h d (h @ [x]) d \<Longrightarrow> topic_keeps see good (h @ [x]) d h' d' \<Longrightarrow> topic_keeps see good h d h' d'"
  unfolding topic_keeps_def by (fastforce simp: subset_iff less_Suc_eq)

text \<open>Marking a content concerns its own identity only, which is then being removed or has been.\<close>

lemma same_objects_mark:
  assumes c: "c < length h" and same: "same_objects h objects (see_all (see_set get_id) h cs v)"
    and ids: "\<And>k c. objects k = Some c \<Longrightarrow> content_id get_id h c = k"
  shows "same_objects (set_timestamp c v_remove h) objects (see_all (see_set get_id) (set_timestamp c v_remove h) cs v)"
  unfolding same_objects_def
proof
  fix k
  let ?h = "set_timestamp c v_remove h" and ?see = "see_set get_id"
  consider "being_removed h objects k" | "see_all ?see h cs v k = objects k"
    using same by (auto simp: same_objects_def)
  then show "see_all ?see ?h cs v k = objects k \<or> being_removed ?h objects k"
  proof cases
    case 1
    then show ?thesis using c by (auto simp: being_removed_def content_removed_timestamp)
  next
    case 2
    show ?thesis
    proof (cases "sent_for get_id h cs k \<noteq> [] \<and> last (sent_for get_id h cs k) = c \<and> \<not> content_removed (h ! c)")
      case True
      then have "objects k = Some c" using 2 by (simp add: see_set_all)
      then show ?thesis using c by (auto simp: being_removed_def content_removed_timestamp)
    next
      case False
      then have "see_all ?see ?h cs v k = see_all ?see h cs v k"
        using c by (auto simp: see_set_all content_removed_timestamp)
      then show ?thesis using 2 by simp
    qed
  qed
qed

lemma set_mark:
  assumes inv: "set_inv get_id h (SetTopic snap objects new)" and c: "c < length h"
  shows "set_inv get_id (set_timestamp c v_remove h) (SetTopic snap objects new)"
    and "topic_keeps (see_set get_id) set_good h (SetTopic snap objects new) (set_timestamp c v_remove h) (SetTopic snap objects new)"
proof -
  let ?h = "set_timestamp c v_remove h"
  have ids: "\<And>k c. objects k = Some c \<Longrightarrow> content_id get_id h c = k" using inv by simp
  show "topic_keeps (see_set get_id) set_good h (SetTopic snap objects new) ?h (SetTopic snap objects new)"
    using same_objects_mark [OF c _ ids, where cs = "xs @ new" for xs] by (auto simp: topic_keeps_def)
  have "k \<in> content_id get_id h ` set new \<or> being_removed ?h objects k"
    if s: "snap k = Some c'" and rem: "content_removed (?h ! c')" for k c'
  proof (cases "k \<in> content_id get_id h ` set new \<or> content_removed (h ! c')")
    case True
    then have "k \<in> content_id get_id h ` set new \<or> being_removed h objects k" using inv s by auto
    then show ?thesis using c by (auto simp: being_removed_def content_removed_timestamp)
  next
    case False
    then have "see_all (see_set get_id) h new snap k = Some c'" using s by (simp add: see_set_all sent_for_Nil)
    moreover have "c' = c" using False rem c by (simp add: content_removed_timestamp split: if_splits)
    moreover have "same_objects h objects (see_all (see_set get_id) h new snap)" using inv by simp
    ultimately have "objects k = Some c \<or> being_removed h objects k" unfolding same_objects_def by metis
    then show ?thesis using c by (auto simp: being_removed_def content_removed_timestamp)
  qed
  then show "set_inv get_id ?h (SetTopic snap objects new)"
    using inv same_objects_mark [OF c _ ids, where cs = new and v = snap] by simp
qed

text \<open>What is published for an identity decides it for everybody.\<close>

lemma same_objects_publish:
  assumes same: "same_objects h objects (see_all (see_set get_id) h cs v)"
    and ids: "\<And>k c. objects k = Some c \<Longrightarrow> content_id get_id h c = k"
    and c: "c < length h" "content_id get_id h c = k"
    and objects': "objects' = objects(k := (if ts = v_remove then None else Some c))"
  shows "same_objects (set_timestamp c ts h) objects' (see_all (see_set get_id) (set_timestamp c ts h) (cs @ [c]) v)"
  unfolding same_objects_def
proof
  fix k'
  let ?h = "set_timestamp c ts h" and ?see = "see_set get_id"
  show "see_all ?see ?h (cs @ [c]) v k' = objects' k' \<or> being_removed ?h objects' k'"
  proof (cases "k' = k")
    case True
    have "see_all ?see ?h (cs @ [c]) v k = (if ts = v_remove then None else Some c)"
      using c unfolding see_set_all by (simp add: content_removed_timestamp)
    then show ?thesis using True objects' by simp
  next
    case False
    then have k': "sent_for get_id ?h (cs @ [c]) k' = sent_for get_id h cs k'" using c(2) by simp
    have "last (sent_for get_id h cs k') \<noteq> c" if "sent_for get_id h cs k' \<noteq> []"
      using sent_for_in [OF that] c(2) False by auto
    then have "see_all ?see ?h (cs @ [c]) v k' = see_all ?see h cs v k'"
      using c(1) unfolding see_set_all k' by (auto simp: content_removed_timestamp)
    moreover have "being_removed h objects k' \<Longrightarrow> being_removed ?h objects' k'"
      using False objects' c ids [of k'] by (auto simp: being_removed_def content_removed_timestamp)
    ultimately show ?thesis using False same objects' by (auto simp: same_objects_def)
  qed
qed

lemma set_publish:
  assumes inv: "set_inv get_id h (SetTopic snap objects new)" and c: "c < length h"
    and h': "h' = set_timestamp c ts h"
    and objects': "objects' = objects(content_id get_id h c := (if ts = v_remove then None else Some c))"
  shows "set_inv get_id h' (SetTopic snap objects' (new @ [c]))"
    and "topic_keeps (see_set get_id) set_good h (SetTopic snap objects new) h' (SetTopic snap objects' (new @ [c]))"
proof -
  define k where "k = content_id get_id h c"
  have ids: "\<And>k c. objects k = Some c \<Longrightarrow> content_id get_id h c = k" using inv by simp
  note publish = same_objects_publish [OF _ ids c k_def [symmetric] objects' [folded k_def], folded h']
  show "topic_keeps (see_set get_id) set_good h (SetTopic snap objects new) h' (SetTopic snap objects' (new @ [c]))"
    unfolding topic_keeps_def
  proof (intro allI impI)
    fix xs v
    assume "set_good h (SetTopic snap objects new) (see_all (see_set get_id) h (xs @ topic_pending (SetTopic snap objects new)) v)"
    then have "same_objects h objects (see_all (see_set get_id) h (xs @ new) v)" by simp
    from publish [OF this]
    show "set_good h' (SetTopic snap objects' (new @ [c]))
        (see_all (see_set get_id) h' (xs @ topic_pending (SetTopic snap objects' (new @ [c]))) v)"
      by simp
  qed
  have "k' \<in> content_id get_id h ` set (new @ [c]) \<or> being_removed h' objects' k'"
    if s: "snap k' = Some c'" and rem: "content_removed (h' ! c')" for k' c'
  proof (cases "k' = k")
    case True
    then show ?thesis by (simp add: k_def)
  next
    case False
    then have "c' \<noteq> c" using s inv by (auto simp: k_def)
    then have "content_removed (h ! c')" using rem c by (simp add: h' content_removed_timestamp)
    then have "k' \<in> content_id get_id h ` set new \<or> being_removed h objects k'" using inv s by auto
    moreover have "being_removed h objects k' \<Longrightarrow> being_removed h' objects' k'"
      using False ids [of k'] c by (auto simp: being_removed_def objects' h' k_def content_removed_timestamp)
    ultimately show ?thesis by auto
  qed
  moreover have "objects' k' = Some c' \<Longrightarrow> content_id get_id h c' = k' \<and> c' < length h" for k' c'
    using inv c by (auto simp: objects' ran_def split: if_splits)
  moreover have "same_objects h' objects' (see_all (see_set get_id) h' (new @ [c]) snap)"
    using inv by (intro publish) simp
  ultimately show "set_inv get_id h' (SetTopic snap objects' (new @ [c]))"
    using inv c by (auto simp: h' ran_def)
qed

lemma set_append:
  assumes inv: "set_inv get_id h (SetTopic snap objects new)" and c: "c < length h"
    and app: "SetTopic_append get_id c h snap objects new = (h', d')"
  shows "set_inv get_id h' d'" and "topic_keeps (see_set get_id) set_good h (SetTopic snap objects new) h' d'"
proof -
  define k where "k = content_id get_id h c"
  have it: "objects k = Some it \<Longrightarrow> it < length h \<and> content_id get_id h it = k" for it
    using inv by (auto simp: ran_def)
  consider "h' = h" "d' = SetTopic snap objects new"
    | it ts where "it < length h" "content_id get_id h it = k" "h' = set_timestamp it ts h"
      "d' = SetTopic snap (objects(k := (if ts = v_remove then None else Some it))) (new @ [it])"
  proof -
    have eq: "SetTopic_append get_id c h snap objects new =
        (case objects k of
           Some it \<Rightarrow> if content_removed (h ! c)
             then (set_timestamp it v_remove h, SetTopic snap (objects(k := None)) (new @ [it]))
             else (set_timestamp c v_update h, SetTopic snap (objects(k := Some c)) (new @ [c]))
         | None \<Rightarrow> if \<not> content_removed (h ! c)
             then (set_timestamp c v_insert h, SetTopic snap (objects(k := Some c)) (new @ [c]))
             else (h, SetTopic snap objects new))"
      unfolding SetTopic_append_def k_def content_id_def Let_def ..
    have ts: "v_update \<noteq> v_remove" "v_insert \<noteq> v_remove" by (simp_all add: timestamp_defs)
    show ?thesis
    proof (cases "objects k")
      case None
      then show ?thesis using app that(1) that(2) [of c v_insert] c ts by (simp add: eq k_def split: if_splits)
    next
      case (Some it')
      then show ?thesis using app that(2) [of it' v_remove] that(2) [of c v_update] it [OF Some] c ts
        by (simp add: eq k_def split: if_splits)
    qed
  qed
  then have "set_inv get_id h' d' \<and> topic_keeps (see_set get_id) set_good h (SetTopic snap objects new) h' d'"
  proof cases
    case 1
    then show ?thesis using inv by (simp add: topic_keeps_def)
  next
    case (2 it ts)
    show ?thesis using set_publish [OF inv 2(1) 2(3) refl] 2(2,4) by simp
  qed
  then show "set_inv get_id h' d'" "topic_keeps (see_set get_id) set_good h (SetTopic snap objects new) h' d'" by auto
qed

lemma set_append_new:
  assumes inv: "set_inv get_id h (SetTopic snap objects new)"
    and app: "SetTopic_append get_id (length h) (h @ [x]) snap objects new = (h', d')"
  shows "set_inv get_id h' d' \<and> topic_keeps (see_set get_id) set_good h (SetTopic snap objects new) h' d'"
proof -
  have "length h < length (h @ [x])" by simp
  note set_append [OF set_grow(1) [OF inv] this app]
  then show ?thesis using topic_keeps_grow [OF set_grow(2) [OF inv]] by blast
qed

text \<open>Moving the new contents does to the snapshot what it does to a subscriber.\<close>

lemma SetTopic_sync_see: "fold (SetTopic_sync get_id h) cs snap = see_all (see_set get_id) h cs snap"
  by (induction cs arbitrary: snap) (simp_all add: SetTopic_sync_def see_set_def Let_def)

lemma set_move:
  assumes inv: "set_inv get_id h (SetTopic snap objects new)"
  shows "set_inv get_id h (SetTopic (see_all (see_set get_id) h new snap) objects [])"
proof -
  let ?snap = "see_all (see_set get_id) h new snap"
  have snap: "(sent_for get_id h new k = [] \<and> snap k = Some c) \<or>
      (c \<in> set new \<and> content_id get_id h c = k \<and> \<not> content_removed (h ! c))" if "?snap k = Some c" for k c
    using that sent_for_in [of get_id h new k] by (auto simp: see_set_all split: if_splits)
  have "being_removed h objects k" if s: "?snap k = Some c" "content_removed (h ! c)" for k c
    using snap [OF s(1)] s(2) inv by (auto simp: sent_for_Nil)
  moreover have "?snap k = Some c \<Longrightarrow> content_id get_id h c = k \<and> c < length h" for k c
    using snap [of k c] inv by (auto simp: ran_def)
  ultimately show ?thesis using inv by (auto simp: ran_def)
qed

lemma set_snap:
  assumes inv: "set_inv get_id h (SetTopic snap objects new)" and ks: "distinct ks" "set ks = dom snap"
  shows "same_objects h objects (see_all (see_set get_id) h (map (\<lambda>k. the (snap k)) ks @ new) (\<lambda>k. None))"
  unfolding same_objects_def
proof
  fix k
  let ?cs = "map (\<lambda>k. the (snap k)) ks"
  have ids: "content_id get_id h (the (snap k)) = k" if "k \<in> set ks" for k using inv ks(2) that by auto
  then have sent: "sent_for get_id h ?cs k = (if k \<in> set ks then [the (snap k)] else [])"
    using ks(1) by (induction ks) auto
  have old: "see_all (see_set get_id) h new snap k = objects k \<or> being_removed h objects k"
    using inv by (simp add: same_objects_def)
  show "see_all (see_set get_id) h (?cs @ new) (\<lambda>k. None) k = objects k \<or> being_removed h objects k"
  proof (cases "sent_for get_id h new k = []")
    case False
    then show ?thesis using old by (simp add: see_set_all)
  next
    case True
    then have new: "see_all (see_set get_id) h (?cs @ new) (\<lambda>k. None) k =
        (if k \<in> set ks \<and> \<not> content_removed (h ! the (snap k)) then snap k else None)"
      using ks(2) by (auto simp only: see_set_all sent_for_simps sent) auto
    show ?thesis
    proof (cases "k \<in> set ks \<and> content_removed (h ! the (snap k))")
      case True
      then obtain c where "snap k = Some c" "content_removed (h ! c)" using ks(2) by auto
      then show ?thesis using inv \<open>sent_for get_id h new k = []\<close> by (auto simp: sent_for_Nil)
    next
      case no: False
      then have "see_all (see_set get_id) h (?cs @ new) (\<lambda>k. None) k = snap k" using new ks(2) by auto
      then show ?thesis using old True by (simp add: see_set_all)
    qed
  qed
qed

interpretation set_topic: topic_contract get_id SetKind "see_set get_id" "\<lambda>k. None" "set_inv get_id" set_good
  for get_id :: "'o \<Rightarrow> 'k"
proof unfold_locales
  fix h h' :: "'o content list" and d d' :: "'k topic_data" and c ns x ks cs
  show "set_inv get_id [] (Topic_make SetKind)" by (simp add: same_objects_def)
  assume kind: "Topic_get_type d = SetKind" and inv: "set_inv get_id h d"
  then obtain snap objects new where d: "d = SetTopic snap objects new" by (auto simp: Topic_type_cases)
  note inv = inv [unfolded d]
  show "Topic_append get_id (length h) (h @ [x]) d = (h', d') \<Longrightarrow>
      set_inv get_id h' d' \<and> topic_keeps (see_set get_id) set_good h d h' d'"
    using set_append_new [OF inv] by (simp add: d)
  show "c < length h \<Longrightarrow> Topic_append get_id c h d = (h', d') \<Longrightarrow>
      set_inv get_id h' d' \<and> topic_keeps (see_set get_id) set_good h d h' d'"
    using set_append [OF inv] by (simp add: d)
  show "c < length h \<Longrightarrow> set_inv get_id (set_timestamp c v_remove h) d \<and>
      topic_keeps (see_set get_id) set_good h d (set_timestamp c v_remove h) d"
    using set_mark [OF inv] by (simp add: d)
  show "Topic_do_move get_id h d = Some (ns, d') \<Longrightarrow> set_inv get_id h d' \<and> ns = topic_pending d \<and>
      topic_pending d' = [] \<and> (\<forall>v. set_good h d v \<longrightarrow> set_good h d' v)"
    using set_move [OF inv] by (auto simp: d SetTopic_sync_see split: if_splits simp del: set_inv.simps)
  show "set_inv get_id h (Topic_do_clear d) \<and> topic_pending (Topic_do_clear d) = [] \<and>
      set_good h (Topic_do_clear d) (\<lambda>k. None)"
    by (simp add: d same_objects_def)
  show "snap_order ks d \<Longrightarrow> Topic_do_snap ks h d = (h', cs) \<Longrightarrow> set_inv get_id h' d \<and>
      topic_keeps (see_set get_id) set_good h d h' d \<and>
      set_good h' d (see_all (see_set get_id) h' (cs @ topic_pending d) (\<lambda>k. None))"
    using set_snap [OF inv, of ks] inv by (auto simp: d topic_keeps_def simp del: set_inv.simps see_all_simps(3))
qed

end
