(* ===== verification/Eco_TopicServer.thy ===== *)
theory Eco_TopicServer
  imports Eco_Topic Eco_SubscriptionInv Eco_MessageQueue
begin

text \<open>
  The topic server, \<open>src/project/eco/thread/topic/TopicServer.h\<close>, with the classes \<open>Topic\<close>,
  \<open>TopicT\<close> and \<open>Publisher\<close> of \<open>thread/topic/Role.h\<close>: the map of the topics, the queue of the
  publishers, and the one thread that takes them from the queue and calls the subscribers.

  Topics are named by their addresses, an arbitrary free one for a new topic. The state keeps a
  log of the calls of the subscribers. A call does nothing to the server in the model.

  \<open>post\<close> waits while the queue is full: a function that posts is \<open>None\<close> then. \<open>UB\<close> is a null or
  dangling pointer.
\<close>

section \<open>State\<close>

text \<open>The key of a topic is a number, a text or a \<open>TopicId\<close>: one map for each in the code.\<close>

datatype topic_key = IntTopic u64 | StrTopic string | TidTopic topic_id

record ('o, 'k) topic =
  tp_id :: topic_key
  tp_data :: "'k topic_data"
  tp_contents :: "'o content list"

datatype publish_mode = PublishSnap | PublishNew | EraseTopic | ClearContent

record publisher =
  pb_topic :: nat
  pb_subscription :: "nat option"
  pb_mode :: publish_mode

text \<open>The calls of a subscriber: \<open>on_publish\<close> with a content, \<open>on_clear_content\<close>, \<open>on_erase_topic\<close>.\<close>

datatype item = IContent nat | IClear | IErase

record delivery =
  dv_node :: nat
  dv_subscriber :: nat
  dv_item :: item

record ('o) logged =
  lg_delivery :: delivery
  lg_topic :: nat
  lg_content :: "'o content option"

text \<open>
  How far the publishing thread is with its message: what it has moved out of the topic, what it
  still has to deliver while it holds the mutex of the topic, and so on.
\<close>

datatype phase = PStart | PMoved "nat list" | PCleared | PDeliver "delivery list" | PDone

datatype worker = WIdle | WRun publisher phase

text \<open>
  \<open>tv_posting\<close> are the publishers that threads have made and not posted yet, \<open>tv_removing\<close> the
  contents that \<open>remove\<close> has found and not yet removed.
\<close>

record ('o, 'k) tserver =
  tv_subs :: subs
  tv_topics :: "nat \<Rightarrow> ('o, 'k) topic option"
  tv_map :: "topic_key \<Rightarrow> nat option"
  tv_queue :: "publisher list"
  tv_posting :: "publisher list"
  tv_removing :: "(nat \<times> nat) list"
  tv_worker :: worker
  tv_log :: "'o logged list"

definition TopicServer_new :: "('o, 'k) tserver" where
  "TopicServer_new = \<lparr>tv_subs = no_subs, tv_topics = \<lambda>t. None, tv_map = \<lambda>k. None, tv_queue = [], tv_posting = [],
     tv_removing = [], tv_worker = WIdle, tv_log = []\<rparr>"

definition with_topic ::
  "nat \<Rightarrow> ('o, 'k) tserver \<Rightarrow> (('o, 'k) topic \<Rightarrow> 'a outcome) \<Rightarrow> 'a outcome" where
  "with_topic t s f = (case tv_topics s t of None \<Rightarrow> UB | Some p \<Rightarrow> f p)"

text \<open>Sequencing calls that may wait.\<close>

definition wbind :: "'a outcome option \<Rightarrow> ('a \<Rightarrow> 'b outcome option) \<Rightarrow> 'b outcome option" where
  "wbind m f = (case m of None \<Rightarrow> None | Some (Ok x) \<Rightarrow> f x | Some (Err n) \<Rightarrow> Some (Err n) | Some UB \<Rightarrow> Some UB)"

lemma wbind_simps [simp]:
  "wbind None f = None" "wbind (Some (Ok x)) f = f x" "wbind (Some (Err n)) f = Some (Err n)" "wbind (Some UB) f = Some UB"
  by (simp_all add: wbind_def)

section \<open>The map of the topics\<close>

text \<open>A topic is made by its factory, which is given by the kind of topic it makes.\<close>

definition topic_make :: "nat \<Rightarrow> topic_kind \<Rightarrow> topic_key \<Rightarrow> ('o, 'k) tserver \<Rightarrow> ('o, 'k) tserver" where
  "topic_make t kind key s = s\<lparr>
     tv_topics := (tv_topics s)(t := Some \<lparr>tp_id = key, tp_data = Topic_make kind, tp_contents = []\<rparr>),
     tv_subs := (tv_subs s)\<lparr>sb_head := (sb_head (tv_subs s))(t := None), sb_tail := (sb_tail (tv_subs s))(t := None)\<rparr>\<rparr>"

definition get_topic ::
  "nat \<Rightarrow> topic_key \<Rightarrow> topic_kind option \<Rightarrow> ('o, 'k) tserver \<Rightarrow> ('o, 'k) tserver \<times> nat option" where
  "get_topic t key f s = (case tv_map s key of
     Some t' \<Rightarrow> (s, Some t')
   | None \<Rightarrow> (case f of
       Some kind \<Rightarrow> (let s1 = topic_make t kind key s in (s1\<lparr>tv_map := (tv_map s1)(key := Some t)\<rparr>, Some t))
     | None \<Rightarrow> (s, None)))"

definition create_topic :: "nat \<Rightarrow> topic_key \<Rightarrow> topic_kind \<Rightarrow> ('o, 'k) tserver \<Rightarrow> ('o, 'k) tserver" where
  "create_topic t key kind s = (case tv_map s key of
     None \<Rightarrow> (let s1 = topic_make t kind key s in s1\<lparr>tv_map := (tv_map s1)(key := Some t)\<rparr>)
   | Some t' \<Rightarrow> s)"

definition find_topic :: "topic_key \<Rightarrow> ('o, 'k) tserver \<Rightarrow> nat option" where
  "find_topic key s = tv_map s key"

text \<open>The casts: null unless the topic is of the class asked for.\<close>

definition dynamic_cast_topic :: "topic_kind \<Rightarrow> nat option \<Rightarrow> ('o, 'k) tserver \<Rightarrow> nat option" where
  "dynamic_cast_topic kind p s = (case p of
     None \<Rightarrow> None
   | Some t \<Rightarrow> (case tv_topics s t of
       None \<Rightarrow> None
     | Some tp \<Rightarrow> if Topic_get_type (tp_data tp) = kind then Some t else None))"

definition cast_topic :: "nat \<Rightarrow> topic_key \<Rightarrow> topic_kind \<Rightarrow> ('o, 'k) tserver \<Rightarrow> ('o, 'k) tserver \<times> nat option" where
  "cast_topic t key kind s =
     (let (s1, p) = get_topic t key (Some kind) s in (s1, dynamic_cast_topic kind p s1))"

definition find_topic_as :: "topic_key \<Rightarrow> topic_kind \<Rightarrow> ('o, 'k) tserver \<Rightarrow> nat option" where
  "find_topic_as key kind s = dynamic_cast_topic kind (find_topic key s) s"

definition pop_topic :: "topic_key \<Rightarrow> ('o, 'k) tserver \<Rightarrow> ('o, 'k) tserver \<times> nat option" where
  "pop_topic key s = (case tv_map s key of
     Some t \<Rightarrow> (s\<lparr>tv_map := (tv_map s)(key := None)\<rparr>, Some t)
   | None \<Rightarrow> (s, None))"

section \<open>Publishing\<close>

definition post :: "publisher \<Rightarrow> ('o, 'k) tserver \<Rightarrow> ('o, 'k) tserver outcome option" where
  "post p s = (if length (tv_queue s) = unat default_capacity then None
     else Some (Ok (s\<lparr>tv_queue := tv_queue s @ [p]\<rparr>)))"

definition Publisher_of :: "nat \<Rightarrow> publish_mode \<Rightarrow> publisher" where
  "Publisher_of t mode = \<lparr>pb_topic = t, pb_subscription = None, pb_mode = mode\<rparr>"

definition Publisher_snap :: "nat \<Rightarrow> nat option \<Rightarrow> publisher" where
  "Publisher_snap t a = \<lparr>pb_topic = t, pb_subscription = a, pb_mode = PublishSnap\<rparr>"

text \<open>Making a content for a topic and appending it.\<close>

definition append_new ::
  "('o \<Rightarrow> 'k) \<Rightarrow> nat \<Rightarrow> 'o \<Rightarrow> bool \<Rightarrow> ('o, 'k) tserver \<Rightarrow> ('o, 'k) tserver outcome" where
  "append_new get_id t obj remove_obj s = with_topic t s (\<lambda>tp.
     let ts = (if remove_obj then v_remove else v_insert);
         h = tp_contents tp @ [\<lparr>ct_object = obj, ct_timestamp = ts\<rparr>];
         (h', d') = Topic_append get_id (length (tp_contents tp)) h (tp_data tp)
     in Ok (s\<lparr>tv_topics := (tv_topics s)(t := Some (tp\<lparr>tp_data := d', tp_contents := h'\<rparr>))\<rparr>))"

text \<open>
  The caller's pointer to the topic, and what is left of it: \<open>Publisher\<close> moves it away.
\<close>

definition publish_new ::
  "('o \<Rightarrow> 'k) \<Rightarrow> nat option \<Rightarrow> 'o \<Rightarrow> bool \<Rightarrow> ('o, 'k) tserver \<Rightarrow> (('o, 'k) tserver \<times> nat option) outcome option" where
  "publish_new get_id p obj remove_obj s = (case p of
     None \<Rightarrow> Some UB
   | Some t \<Rightarrow> wbind (Some (append_new get_id t obj remove_obj s)) (\<lambda>s1.
       wbind (post (Publisher_of t PublishNew) s1) (\<lambda>s2. Some (Ok (s2, None)))))"

definition publish ::
  "('o \<Rightarrow> 'k) \<Rightarrow> nat \<Rightarrow> topic_key \<Rightarrow> 'o \<Rightarrow> topic_kind option \<Rightarrow> bool \<Rightarrow> ('o, 'k) tserver \<Rightarrow> ('o, 'k) tserver outcome option" where
  "publish get_id t key obj f remove_obj s =
     (let (s1, p) = get_topic t key f s
      in if p \<noteq> None then wbind (publish_new get_id p obj remove_obj s1) (\<lambda>(s2, p'). Some (Ok s2)) else Some (Ok s1))"

fun publish_set ::
  "('o \<Rightarrow> 'k) \<Rightarrow> nat \<Rightarrow> topic_key \<Rightarrow> 'o list \<Rightarrow> topic_kind \<Rightarrow> ('o, 'k) tserver \<Rightarrow> ('o, 'k) tserver outcome option" where
  "publish_set get_id t key [] kind s = Some (Ok s)"
| "publish_set get_id t key (obj # objs) kind s =
     wbind (publish get_id t key obj (Some kind) False s) (publish_set get_id t key objs kind)"

text \<open>Removing an object marks its content first, and then appends the content.\<close>

definition mark_removed :: "nat \<Rightarrow> nat \<Rightarrow> ('o, 'k) tserver \<Rightarrow> ('o, 'k) tserver outcome" where
  "mark_removed t c s = with_topic t s (\<lambda>tp.
     Ok (s\<lparr>tv_topics := (tv_topics s)(t := Some (tp\<lparr>tp_contents := set_timestamp c v_remove (tp_contents tp)\<rparr>))\<rparr>))"

definition append_content ::
  "('o \<Rightarrow> 'k) \<Rightarrow> nat \<Rightarrow> nat \<Rightarrow> ('o, 'k) tserver \<Rightarrow> ('o, 'k) tserver outcome" where
  "append_content get_id t c s = with_topic t s (\<lambda>tp.
     let (h', d') = Topic_append get_id c (tp_contents tp) (tp_data tp)
     in Ok (s\<lparr>tv_topics := (tv_topics s)(t := Some (tp\<lparr>tp_data := d', tp_contents := h'\<rparr>))\<rparr>))"

definition find_object :: "nat \<Rightarrow> 'k \<Rightarrow> ('o, 'k) tserver \<Rightarrow> nat option outcome" where
  "find_object t obj_id s = with_topic t s (\<lambda>tp. SetTopic_find obj_id (tp_data tp))"

definition remove_object ::
  "('o \<Rightarrow> 'k) \<Rightarrow> topic_key \<Rightarrow> 'k \<Rightarrow> ('o, 'k) tserver \<Rightarrow> ('o, 'k) tserver outcome option" where
  "remove_object get_id key obj_id s = (case find_topic key s of
     None \<Rightarrow> Some (Ok s)
   | Some t \<Rightarrow> wbind (Some (find_object t obj_id s)) (\<lambda>content. case content of
       None \<Rightarrow> Some UB
     | Some c \<Rightarrow> wbind (Some (mark_removed t c s)) (\<lambda>s1.
         wbind (Some (append_content get_id t c s1)) (\<lambda>s2. post (Publisher_of t PublishNew) s2))))"

section \<open>Subscribing\<close>

definition topic_reserve ::
  "nat \<Rightarrow> nat \<Rightarrow> nat \<Rightarrow> ('o, 'k) tserver \<Rightarrow> (('o, 'k) tserver \<times> nat option) outcome option" where
  "topic_reserve a t u s = wbind (Some (with_topic t s (\<lambda>tp. Ok ()))) (\<lambda>_.
     wbind (Topic_reserve_subscribe a t u (tv_subs s)) (\<lambda>(b, p). Some (Ok (s\<lparr>tv_subs := b\<rparr>, p))))"

definition subscribe ::
  "nat \<Rightarrow> nat \<Rightarrow> topic_key \<Rightarrow> nat \<Rightarrow> topic_kind option \<Rightarrow> ('o, 'k) tserver \<Rightarrow> (('o, 'k) tserver \<times> bool) outcome option" where
  "subscribe a t key u f s =
     (let (s1, p) = get_topic t key f s
      in case p of
           None \<Rightarrow> Some (Ok (s1, False))
         | Some t' \<Rightarrow> wbind (topic_reserve a t' u s1) (\<lambda>(s2, subscription).
             if subscription \<noteq> None
             then wbind (post (Publisher_snap t' subscription) s2) (\<lambda>s3. Some (Ok (s3, True)))
             else Some (Ok (s2, False))))"

text \<open>A topic for the latest content goes with its last subscriber; \<open>th\<close> is the calling thread.\<close>

definition server_unsubscribe ::
  "nat \<Rightarrow> topic_key \<Rightarrow> nat \<Rightarrow> ('o, 'k) tserver \<Rightarrow> (('o, 'k) tserver \<times> bool) outcome option" where
  "server_unsubscribe th key u s = (case tv_map s key of
     None \<Rightarrow> Some (Ok (s, False))
   | Some t \<Rightarrow> wbind (Subscriber_unsubscribe th u t (tv_subs s)) (\<lambda>(b, found).
       let s1 = s\<lparr>tv_subs := b\<rparr>
       in if found then wbind (Some (with_topic t s1 (\<lambda>tp. Ok (Topic_get_type (tp_data tp))))) (\<lambda>kind.
            Some (Ok (if kind = OneKind \<and> \<not> Topic_has_subscriber t b then s1\<lparr>tv_map := (tv_map s1)(key := None)\<rparr> else s1, True)))
          else Some (Ok (s1, False))))"

definition server_has_subscriber :: "topic_key \<Rightarrow> nat \<Rightarrow> ('o, 'k) tserver \<Rightarrow> bool outcome option" where
  "server_has_subscriber key u s = (case find_topic key s of
     None \<Rightarrow> Some (Ok False)
   | Some t \<Rightarrow> Subscriber_has_topic u t (tv_subs s))"

section \<open>Contents and erasing\<close>

definition find_content_value ::
  "topic_key \<Rightarrow> 'k \<Rightarrow> ('o, 'k) tserver \<Rightarrow> 'o option outcome" where
  "find_content_value key obj_id s = (case find_topic key s of
     None \<Rightarrow> Ok None
   | Some t \<Rightarrow> with_topic t s (\<lambda>tp. obind (SetTopic_find obj_id (tp_data tp)) (\<lambda>c. Ok (case c of
       None \<Rightarrow> None
     | Some c \<Rightarrow> Some (ct_object (tp_contents tp ! c))))))"

definition find_content :: "topic_key \<Rightarrow> 'k \<Rightarrow> ('o, 'k) tserver \<Rightarrow> nat option outcome" where
  "find_content key obj_id s = (case find_topic key s of None \<Rightarrow> Ok None | Some t \<Rightarrow> find_object t obj_id s)"

definition clear_content :: "topic_key \<Rightarrow> ('o, 'k) tserver \<Rightarrow> ('o, 'k) tserver outcome option" where
  "clear_content key s = (case find_topic key s of
     None \<Rightarrow> Some (Ok s)
   | Some t \<Rightarrow> post (Publisher_of t ClearContent) s)"

definition erase_topic :: "topic_key \<Rightarrow> ('o, 'k) tserver \<Rightarrow> ('o, 'k) tserver outcome option" where
  "erase_topic key s =
     (let (s1, p) = pop_topic key s
      in case p of None \<Rightarrow> Some (Ok s1) | Some t \<Rightarrow> post (Publisher_of t EraseTopic) s1)"

text \<open>
  Every topic of one map is erased, in the order \<open>keys\<close> of its hash table; then the map is
  emptied. \<open>same_map\<close> says which map a key belongs to.
\<close>

fun same_map :: "topic_key \<Rightarrow> topic_key \<Rightarrow> bool" where
  "same_map (IntTopic a) (IntTopic b) = True"
| "same_map (StrTopic a) (StrTopic b) = True"
| "same_map (TidTopic a) (TidTopic b) = True"
| "same_map a b = False"

fun post_erase_all :: "topic_key list \<Rightarrow> ('o, 'k) tserver \<Rightarrow> ('o, 'k) tserver outcome option" where
  "post_erase_all [] s = Some (Ok s)"
| "post_erase_all (key # keys) s = (case tv_map s key of
     None \<Rightarrow> post_erase_all keys s
   | Some t \<Rightarrow> wbind (post (Publisher_of t EraseTopic) s) (post_erase_all keys))"

definition clear_topic_map :: "topic_key \<Rightarrow> topic_key list \<Rightarrow> ('o, 'k) tserver \<Rightarrow> ('o, 'k) tserver outcome option" where
  "clear_topic_map m keys s = wbind (post_erase_all keys s) (\<lambda>s1.
     Some (Ok (s1\<lparr>tv_map := \<lambda>key. if same_map m key then None else tv_map s1 key\<rparr>)))"

definition clear_topic ::
  "topic_key list \<Rightarrow> topic_key list \<Rightarrow> topic_key list \<Rightarrow> ('o, 'k) tserver \<Rightarrow> ('o, 'k) tserver outcome option" where
  "clear_topic ints strs tids s =
     wbind (clear_topic_map (IntTopic 0) ints s) (\<lambda>s1.
     wbind (clear_topic_map (StrTopic []) strs s1) (\<lambda>s2.
     clear_topic_map (TidTopic \<lparr>ti_type = 0, ti_prop = 0, ti_value = 0\<rparr>) tids s2))"

section \<open>The publishing thread\<close>

text \<open>The walk over the subscriptions of a topic: the ones at work, with their subscribers.\<close>

partial_function (option) working_nodes :: "subs \<Rightarrow> nat option \<Rightarrow> (nat \<times> nat) list outcome option" where
  "working_nodes b node = (case node of
     None \<Rightarrow> Some (Ok [])
   | Some a \<Rightarrow> if \<not> sb_alive b a then Some UB
       else Option.bind (working_nodes b (sb_topic_subscriber_next b a)) (\<lambda>r.
         if sb_working b a
         then (case sb_subscriber b a of None \<Rightarrow> Some UB | Some u \<Rightarrow> Some (obind r (\<lambda>ns. Ok ((a, u) # ns))))
         else Some r))"

definition deliveries :: "item list \<Rightarrow> (nat \<times> nat) list \<Rightarrow> delivery list" where
  "deliveries items ns = concat (map (\<lambda>(a, u). map (\<lambda>i. \<lparr>dv_node = a, dv_subscriber = u, dv_item = i\<rparr>) items) ns)"

definition to_all :: "nat \<Rightarrow> item list \<Rightarrow> ('o, 'k) tserver \<Rightarrow> phase outcome option" where
  "to_all t items s = wbind (working_nodes (tv_subs s) (sb_head (tv_subs s) t)) (\<lambda>ns.
     Some (Ok (PDeliver (deliveries items ns))))"

definition set_phase :: "phase \<Rightarrow> ('o, 'k) tserver \<Rightarrow> ('o, 'k) tserver" where
  "set_phase ph s = (case tv_worker s of WIdle \<Rightarrow> s | WRun p ph' \<Rightarrow> s\<lparr>tv_worker := WRun p ph\<rparr>)"

text \<open>
  Taking a message from the queue: the move assignment to the thread's own message, and then the
  end of the one in the queue.
\<close>

definition worker_pop :: "('o, 'k) tserver \<Rightarrow> ('o, 'k) tserver outcome option" where
  "worker_pop s = (case tv_queue s of
     [] \<Rightarrow> None
   | p # rest \<Rightarrow> Some (
       obind (AutoRefPtr_move_assign (sb_msg (tv_subs s)) (pb_subscription p) (tv_subs s)) (\<lambda>(b, msg, left).
       obind (AutoRefPtr_destroy left (b\<lparr>sb_msg := msg\<rparr>)) (\<lambda>b1.
       Ok (s\<lparr>tv_subs := b1, tv_queue := rest, tv_worker := WRun p PStart\<rparr>)))))"

definition publish_snap ::
  "'k list \<Rightarrow> nat \<Rightarrow> nat \<Rightarrow> ('o, 'k) tserver \<Rightarrow> ('o, 'k) tserver outcome" where
  "publish_snap ks t a s = with_topic t s (\<lambda>tp. with_node a (tv_subs s) (case sb_subscriber (tv_subs s) a of
     None \<Rightarrow> Ok (set_phase PDone s)
   | Some u \<Rightarrow> obind (confirm_subscribe a (tv_subs s)) (\<lambda>b.
       let (h', cs) = Topic_do_snap ks (tp_contents tp) (tp_data tp)
       in Ok (set_phase (PDeliver (deliveries (map IContent cs) [(a, u)]))
         (s\<lparr>tv_subs := b, tv_topics := (tv_topics s)(t := Some (tp\<lparr>tp_contents := h'\<rparr>))\<rparr>)))))"

definition publish_new_move :: "('o \<Rightarrow> 'k) \<Rightarrow> nat \<Rightarrow> ('o, 'k) tserver \<Rightarrow> ('o, 'k) tserver outcome" where
  "publish_new_move get_id t s = with_topic t s (\<lambda>tp.
     case Topic_do_move get_id (tp_contents tp) (tp_data tp) of
       None \<Rightarrow> Ok (set_phase PDone s)
     | Some (ns, d') \<Rightarrow> Ok (set_phase (PMoved ns) (s\<lparr>tv_topics := (tv_topics s)(t := Some (tp\<lparr>tp_data := d'\<rparr>))\<rparr>)))"

definition publish_clear_move :: "nat \<Rightarrow> ('o, 'k) tserver \<Rightarrow> ('o, 'k) tserver outcome" where
  "publish_clear_move t s = with_topic t s (\<lambda>tp.
     Ok (set_phase PCleared (s\<lparr>tv_topics := (tv_topics s)(t := Some (tp\<lparr>tp_data := Topic_do_clear (tp_data tp)\<rparr>))\<rparr>)))"

definition deliver_all :: "nat \<Rightarrow> item list \<Rightarrow> ('o, 'k) tserver \<Rightarrow> ('o, 'k) tserver outcome option" where
  "deliver_all t items s = wbind (to_all t items s) (\<lambda>ph. Some (Ok (set_phase ph s)))"

definition logged_delivery :: "nat \<Rightarrow> ('o, 'k) tserver \<Rightarrow> delivery \<Rightarrow> 'o logged" where
  "logged_delivery t s j = \<lparr>lg_delivery = j, lg_topic = t, lg_content = (case dv_item j of
     IContent c \<Rightarrow> (case tv_topics s t of None \<Rightarrow> None | Some tp \<Rightarrow> Some (tp_contents tp ! c))
   | IClear \<Rightarrow> None
   | IErase \<Rightarrow> None)\<rparr>"

text \<open>
  One step of the publishing thread, which is the thread 0. The start of a message is the
  \<open>switch\<close> of \<open>Publisher::operator()\<close>; the end of an erased topic's walk is \<open>detail::Topic::clear\<close>.
\<close>

definition worker_step ::
  "('o \<Rightarrow> 'k) \<Rightarrow> 'k list \<Rightarrow> ('o, 'k) tserver \<Rightarrow> ('o, 'k) tserver outcome option" where
  "worker_step get_id ks s = (case tv_worker s of
     WIdle \<Rightarrow> worker_pop s
   | WRun p ph \<Rightarrow> (case ph of
       PStart \<Rightarrow> (case pb_mode p of
         PublishNew \<Rightarrow> Some (publish_new_move get_id (pb_topic p) s)
       | PublishSnap \<Rightarrow> (case pb_subscription p of
           None \<Rightarrow> Some UB
         | Some a \<Rightarrow> Some (publish_snap ks (pb_topic p) a s))
       | EraseTopic \<Rightarrow> deliver_all (pb_topic p) [IErase] s
       | ClearContent \<Rightarrow> Some (publish_clear_move (pb_topic p) s))
     | PMoved ns \<Rightarrow> deliver_all (pb_topic p) (map IContent ns) s
     | PCleared \<Rightarrow> deliver_all (pb_topic p) [IClear] s
     | PDeliver (j # js) \<Rightarrow> Some (Ok (set_phase (PDeliver js) (s\<lparr>tv_log := tv_log s @ [logged_delivery (pb_topic p) s j]\<rparr>)))
     | PDeliver [] \<Rightarrow>
         if pb_mode p = EraseTopic
         then wbind (Topic_clear 0 (pb_topic p) (tv_subs s)) (\<lambda>b. Some (Ok (set_phase PDone (s\<lparr>tv_subs := b\<rparr>))))
         else Some (Ok (set_phase PDone s))
     | PDone \<Rightarrow> Some (obind (AutoRefPtr_destroy (sb_msg (tv_subs s)) ((tv_subs s)\<lparr>sb_msg := None\<rparr>)) (\<lambda>b.
         Ok (s\<lparr>tv_subs := b, tv_worker := WIdle\<rparr>)))))"

end
