(* ===== verification/Eco_TopicInv.thy ===== *)
theory Eco_TopicInv
  imports Eco_TopicServer "HOL-Library.Multiset"
begin

text \<open>
  The topic server of \<open>Eco_TopicServer\<close> under every interleaving: the steps its threads take, and
  what each of them keeps of the state of the server. \<open>Eco_TopicViews\<close> shows what the subscribers
  are sent.
\<close>

section \<open>Interleaving\<close>

text \<open>The publishing thread holds the mutex of the topic it delivers for.\<close>

definition publishing :: "('o, 'k) tserver \<Rightarrow> nat \<Rightarrow> bool" where
  "publishing s t = (case tv_worker s of WRun p (PDeliver js) \<Rightarrow> pb_topic p = t | _ \<Rightarrow> False)"

fun worker_publishers :: "worker \<Rightarrow> publisher list" where
  "worker_publishers WIdle = []"
| "worker_publishers (WRun p ph) = [p]"

abbreviation tv_publishers :: "('o, 'k) tserver \<Rightarrow> publisher list" where
  "tv_publishers s \<equiv> tv_queue s @ tv_posting s @ worker_publishers (tv_worker s)"

text \<open>Nothing in the server points to the topic any more.\<close>

definition topic_unused :: "('o, 'k) tserver \<Rightarrow> nat \<Rightarrow> bool" where
  "topic_unused s t \<longleftrightarrow> t \<notin> ran (tv_map s) \<and> t \<notin> pb_topic ` set (tv_publishers s) \<and> t \<notin> fst ` set (tv_removing s)"

text \<open>The subscriptions an operation of a subscriber erases.\<close>

fun subs_erases :: "subs_op \<Rightarrow> subs \<Rightarrow> nat \<Rightarrow> bool" where
  "subs_erases (OErase th) b a = (sb_node b th = Some a)"
| "subs_erases (OUnsubscribeAll u) b a = (sb_alive b a \<and> sb_subscriber b a = Some u)"
| "subs_erases ob b a = False"

fun subscriber_op :: "subs_op \<Rightarrow> bool" where
  "subscriber_op (OFind th u t) = (th \<noteq> 0)"
| "subscriber_op (OErase th) = (th \<noteq> 0)"
| "subscriber_op (OUnsubscribeAll u) = True"
| "subscriber_op ob = False"

text \<open>
  A topic may be destroyed once the server does not use it; pointers that callers keep delay
  this. A thread that has made a publisher posts it later, when there is room.
\<close>

inductive tv_step :: "('o \<Rightarrow> 'k) \<Rightarrow> ('o, 'k) tserver \<Rightarrow> ('o, 'k) tserver \<Rightarrow> bool" for get_id where
  st_make: "tv_topics s t = None \<Longrightarrow> tv_map s key = None \<Longrightarrow>
     tv_step get_id s (fst (get_topic t key (Some kind) s))"
| st_unmap: "tv_step get_id s (fst (pop_topic key s))"
| st_unmap_all: "tv_step get_id s (s\<lparr>tv_map := \<lambda>key. if same_map m key then None else tv_map s key\<rparr>)"
| st_publisher: "tv_topics s t \<noteq> None \<Longrightarrow> mode \<noteq> PublishSnap \<Longrightarrow>
     tv_step get_id s (s\<lparr>tv_posting := Publisher_of t mode # tv_posting s\<rparr>)"
| st_post: "p \<in> set (tv_posting s) \<Longrightarrow> post p (s\<lparr>tv_posting := remove1 p (tv_posting s)\<rparr>) = Some (Ok s') \<Longrightarrow>
     tv_step get_id s s'"
| st_append: "append_new get_id t obj remove_obj s = Ok s' \<Longrightarrow> tv_step get_id s s'"
| st_found: "find_object t k s = Ok (Some c) \<Longrightarrow> tv_step get_id s (s\<lparr>tv_removing := (t, c) # tv_removing s\<rparr>)"
| st_mark: "(t, c) \<in> set (tv_removing s) \<Longrightarrow> mark_removed t c s = Ok s' \<Longrightarrow> tv_step get_id s s'"
| st_remove: "(t, c) \<in> set (tv_removing s) \<Longrightarrow>
     append_content get_id t c (s\<lparr>tv_removing := remove1 (t, c) (tv_removing s)\<rparr>) = Ok s' \<Longrightarrow> tv_step get_id s s'"
| st_reserve: "\<not> sb_alive (tv_subs s) a \<Longrightarrow> \<not> publishing s t \<Longrightarrow> topic_reserve a t u s = Some (Ok (s', p)) \<Longrightarrow>
     tv_step get_id s (if p = None then s' else s'\<lparr>tv_posting := Publisher_snap t p # tv_posting s'\<rparr>)"
| st_subscriber: "subscriber_op ob \<Longrightarrow> subs_may ob (tv_subs s) \<Longrightarrow>
     \<forall>a t. subs_erases ob (tv_subs s) a \<and> sb_topic (tv_subs s) a = Some t \<longrightarrow> \<not> publishing s t \<and> tv_topics s t \<noteq> None \<Longrightarrow>
     subs_do ob (tv_subs s) = Some (Ok b) \<Longrightarrow> tv_step get_id s (s\<lparr>tv_subs := b\<rparr>)"
| st_destroy: "topic_unused s t \<Longrightarrow> th \<noteq> 0 \<Longrightarrow> sb_node (tv_subs s) th = None \<Longrightarrow>
     Topic_clear th t (tv_subs s) = Some (Ok b) \<Longrightarrow>
     tv_step get_id s (s\<lparr>tv_subs := b, tv_topics := (tv_topics s)(t := None)\<rparr>)"
| st_worker: "sb_node (tv_subs s) 0 = None \<Longrightarrow>
     (\<And>p tp. tv_worker s = WRun p PStart \<Longrightarrow> tv_topics s (pb_topic p) = Some tp \<Longrightarrow> snap_order ks (tp_data tp)) \<Longrightarrow>
     worker_step get_id ks s = Some (Ok s') \<Longrightarrow> tv_step get_id s s'"

inductive tv_reach :: "('o \<Rightarrow> 'k) \<Rightarrow> ('o, 'k) tserver \<Rightarrow> bool" for get_id where
  tv_reach_start: "tv_reach get_id TopicServer_new"
| tv_reach_step: "tv_reach get_id s \<Longrightarrow> tv_step get_id s s' \<Longrightarrow> tv_reach get_id s'"

section \<open>A well-formed server\<close>

definition has_content :: "(nat \<Rightarrow> ('o, 'k) topic option) \<Rightarrow> nat \<Rightarrow> nat \<Rightarrow> bool" where
  "has_content tps t c \<longleftrightarrow> (\<exists>tp. tps t = Some tp \<and> c < length (tp_contents tp))"

definition has_object :: "(nat \<Rightarrow> ('o, 'k) topic option) \<Rightarrow> nat \<Rightarrow> nat \<Rightarrow> bool" where
  "has_object tps t c \<longleftrightarrow> (\<exists>tp. tps t = Some tp \<and> c < length (tp_contents tp) \<and> Topic_get_type (tp_data tp) = SetKind)"

definition topics_ok :: "(nat \<Rightarrow> nat list) \<Rightarrow> ('o, 'k) tserver \<Rightarrow> bool" where
  "topics_ok T s \<longleftrightarrow> (\<forall>t. T t \<noteq> [] \<longrightarrow> tv_topics s t \<noteq> None) \<and> (\<forall>key t. tv_map s key = Some t \<longrightarrow> tv_topics s t \<noteq> None) \<and>
     (\<forall>t tp. tv_topics s t = Some tp \<longrightarrow> topic_contents (tp_data tp) \<subseteq> {..<length (tp_contents tp)}) \<and>
     (\<forall>(t, c) \<in> set (tv_removing s). has_object (tv_topics s) t c)"

definition publisher_ok :: "('o, 'k) tserver \<Rightarrow> publisher \<Rightarrow> bool" where
  "publisher_ok s p \<longleftrightarrow> tv_topics s (pb_topic p) \<noteq> None \<and>
     (case pb_subscription p of
        None \<Rightarrow> pb_mode p \<noteq> PublishSnap
      | Some a \<Rightarrow> pb_mode p = PublishSnap \<and> sb_alive (tv_subs s) a \<and>
          (sb_topic (tv_subs s) a = None \<or> sb_topic (tv_subs s) a = Some (pb_topic p)))"

text \<open>The subscriptions that wait for their snapshot.\<close>

definition unconfirmed :: "('o, 'k) tserver \<Rightarrow> nat list" where
  "unconfirmed s = List.map_filter pb_subscription (tv_queue s @ tv_posting s @
     (case tv_worker s of WRun p PStart \<Rightarrow> [p] | _ \<Rightarrow> []))"

definition publishers_ok :: "('o, 'k) tserver \<Rightarrow> bool" where
  "publishers_ok s \<longleftrightarrow> (\<forall>p \<in> set (tv_publishers s). publisher_ok s p) \<and> distinct (unconfirmed s) \<and>
     (\<forall>a \<in> set (unconfirmed s). \<not> sb_working (tv_subs s) a)"

definition delivery_ok :: "('o, 'k) tserver \<Rightarrow> nat \<Rightarrow> delivery \<Rightarrow> bool" where
  "delivery_ok s t j \<longleftrightarrow> sb_alive (tv_subs s) (dv_node j) \<and> sb_working (tv_subs s) (dv_node j) \<and>
     (sb_topic (tv_subs s) (dv_node j) = None \<or> sb_topic (tv_subs s) (dv_node j) = Some t) \<and>
     (\<forall>c. dv_item j = IContent c \<longrightarrow> has_content (tv_topics s) t c)"

fun phase_ok :: "('o, 'k) tserver \<Rightarrow> nat \<Rightarrow> phase \<Rightarrow> bool" where
  "phase_ok s t (PMoved ns) = (\<forall>c \<in> set ns. has_content (tv_topics s) t c)"
| "phase_ok s t (PDeliver js) = (\<forall>j \<in> set js. delivery_ok s t j)"
| "phase_ok s t ph = True"

definition worker_ok :: "('o, 'k) tserver \<Rightarrow> bool" where
  "worker_ok s = (case tv_worker s of
     WIdle \<Rightarrow> sb_msg (tv_subs s) = None
   | WRun p ph \<Rightarrow> sb_msg (tv_subs s) = pb_subscription p \<and> phase_ok s (pb_topic p) ph)"

definition log_ok :: "('o, 'k) tserver \<Rightarrow> bool" where
  "log_ok s \<longleftrightarrow> (\<forall>l \<in> set (tv_log s). sb_alive (tv_subs s) (dv_node (lg_delivery l)) \<and>
     sb_working (tv_subs s) (dv_node (lg_delivery l)) \<and>
     (\<forall>c. dv_item (lg_delivery l) = IContent c \<longrightarrow> lg_content l \<noteq> None))"

definition tv_ok :: "(nat \<Rightarrow> nat list) \<Rightarrow> (nat \<Rightarrow> nat list) \<Rightarrow> ('o, 'k) tserver \<Rightarrow> bool" where
  "tv_ok T S s \<longleftrightarrow> subs_ok T S (tv_subs s) \<and> topics_ok T s \<and> publishers_ok s \<and> worker_ok s \<and> log_ok s"

lemma tv_okD:
  assumes "tv_ok T S s"
  shows "subs_ok T S (tv_subs s)" "topics_ok T s" "publishers_ok s" "worker_ok s" "log_ok s"
  using assms by (simp_all add: tv_ok_def)

lemma TopicServer_new_ok: "tv_ok (\<lambda>t. []) (\<lambda>u. []) TopicServer_new"
  by (simp add: tv_ok_def TopicServer_new_def no_subs_ok topics_ok_def publishers_ok_def unconfirmed_def
      worker_ok_def log_ok_def List.map_filter_simps) (simp add: no_subs_def)

text \<open>
  A change that keeps what is there: subscriptions stay alive and at work and at most lose their
  topic, topics stay and at most get more contents.
\<close>

definition subs_evolves :: "subs \<Rightarrow> subs \<Rightarrow> bool" where
  "subs_evolves b b' \<longleftrightarrow> sb_msg b' = sb_msg b \<and> (\<forall>a. sb_alive b a \<longrightarrow> sb_alive b' a \<and>
     sb_working b' a = sb_working b a \<and> (sb_topic b' a = sb_topic b a \<or> sb_topic b' a = None))"

definition topics_evolve :: "(nat \<Rightarrow> ('o, 'k) topic option) \<Rightarrow> (nat \<Rightarrow> ('o, 'k) topic option) \<Rightarrow> bool" where
  "topics_evolve tps tps' \<longleftrightarrow> (\<forall>t tp. tps t = Some tp \<longrightarrow>
     (\<exists>tp'. tps' t = Some tp' \<and> length (tp_contents tp) \<le> length (tp_contents tp') \<and>
        Topic_get_type (tp_data tp') = Topic_get_type (tp_data tp)))"

lemma subs_keeps_evolves: "subs_keeps b b' \<Longrightarrow> subs_evolves b b'"
  by (simp add: subs_keeps_def subs_evolves_def)

lemma evolves_refl [simp]: "subs_evolves b b" "topics_evolve tps tps"
  by (auto simp: subs_evolves_def topics_evolve_def)

lemma has_content_evolve: "topics_evolve tps tps' \<Longrightarrow> has_content tps t c \<Longrightarrow> has_content tps' t c"
  unfolding topics_evolve_def has_content_def by force

lemma has_object_evolve: "topics_evolve tps tps' \<Longrightarrow> has_object tps t c \<Longrightarrow> has_object tps' t c"
  unfolding topics_evolve_def has_object_def by force

lemma topics_evolve_Some: "topics_evolve tps tps' \<Longrightarrow> tps t \<noteq> None \<Longrightarrow> tps' t \<noteq> None"
  unfolding topics_evolve_def by fastforce

lemma publisher_ok_evolve:
  "publisher_ok s p \<Longrightarrow> subs_evolves (tv_subs s) (tv_subs s') \<Longrightarrow> topics_evolve (tv_topics s) (tv_topics s') \<Longrightarrow> publisher_ok s' p"
  using topics_evolve_Some [of "tv_topics s" "tv_topics s'" "pb_topic p"]
  by (auto simp: publisher_ok_def subs_evolves_def split: option.splits)

lemma phase_ok_evolve:
  assumes "phase_ok s t ph" "subs_evolves (tv_subs s) (tv_subs s')" "topics_evolve (tv_topics s) (tv_topics s')"
  shows "phase_ok s' t ph"
proof (cases ph)
  case (PDeliver js)
  have "delivery_ok s t j \<Longrightarrow> delivery_ok s' t j" for j
    using assms(2) has_content_evolve [OF assms(3)] by (auto simp: delivery_ok_def subs_evolves_def)
  then show ?thesis using assms(1) PDeliver by auto
qed (use assms(1) has_content_evolve [OF assms(3)] in auto)

lemma unconfirmed_from: "a \<in> set (unconfirmed s) \<Longrightarrow> \<exists>p \<in> set (tv_publishers s). pb_subscription p = Some a"
proof (cases "tv_worker s")
  case (WRun p ph)
  then show "a \<in> set (unconfirmed s) \<Longrightarrow> ?thesis" by (cases ph) (auto simp: unconfirmed_def List.map_filter_def split: if_splits)
qed (auto simp: unconfirmed_def List.map_filter_def)

lemma publishers_okD:
  assumes "publishers_ok s"
  shows "p \<in> set (tv_publishers s) \<Longrightarrow> publisher_ok s p" "distinct (unconfirmed s)"
    and "a \<in> set (unconfirmed s) \<Longrightarrow> \<not> sb_working (tv_subs s) a"
  using assms by (simp_all add: publishers_ok_def)

lemma topics_okD:
  assumes "topics_ok T s"
  shows "T t \<noteq> [] \<Longrightarrow> tv_topics s t \<noteq> None" "tv_map s key = Some t \<Longrightarrow> tv_topics s t \<noteq> None"
    and "tv_topics s t = Some tp \<Longrightarrow> topic_contents (tp_data tp) \<subseteq> {..<length (tp_contents tp)}"
    and "(t, c) \<in> set (tv_removing s) \<Longrightarrow> has_object (tv_topics s) t c"
  using assms by (auto simp: topics_ok_def)

lemma tv_ok_evolve:
  assumes ok: "tv_ok T S s" and subs: "subs_ok T' S' (tv_subs s')" and topics: "topics_ok T' s'"
    and ev: "subs_evolves (tv_subs s) (tv_subs s')" "topics_evolve (tv_topics s) (tv_topics s')"
    and same: "tv_queue s' = tv_queue s" "tv_posting s' = tv_posting s" "tv_worker s' = tv_worker s" "tv_log s' = tv_log s"
  shows "tv_ok T' S' s'"
proof -
  have un: "unconfirmed s' = unconfirmed s" by (simp add: unconfirmed_def same)
  have pub: "p \<in> set (tv_publishers s') \<Longrightarrow> publisher_ok s' p" for p
    using tv_okD(3) [OF ok] publisher_ok_evolve [OF _ ev] by (auto simp: publishers_ok_def same)
  have alive: "sb_alive (tv_subs s) a" if a: "a \<in> set (unconfirmed s)" for a
  proof -
    from unconfirmed_from [OF a] obtain p where "p \<in> set (tv_publishers s)" and a: "pb_subscription p = Some a" by blast
    then have "publisher_ok s p" using publishers_okD(1) [OF tv_okD(3) [OF ok]] by blast
    then show ?thesis using a by (simp add: publisher_ok_def)
  qed
  have "publishers_ok s'"
    using tv_okD(3) [OF ok] pub alive ev(1) unfolding publishers_ok_def un subs_evolves_def by auto
  moreover have "worker_ok s'"
    using tv_okD(4) [OF ok] phase_ok_evolve [OF _ ev] ev(1)
    by (auto simp: worker_ok_def same subs_evolves_def split: worker.splits)
  moreover have "log_ok s'" using tv_okD(5) [OF ok] ev(1) by (auto simp: log_ok_def same subs_evolves_def)
  ultimately show ?thesis using subs topics by (simp add: tv_ok_def)
qed

section \<open>What every step keeps\<close>

text \<open>A topic whose contents grow or get other timestamps, and whose members change.\<close>

lemma tv_ok_topic:
  assumes ok: "tv_ok T S s" and tp: "tv_topics s t = Some tp" "length (tp_contents tp) \<le> length (tp_contents tp')"
    "topic_contents (tp_data tp') \<subseteq> {..<length (tp_contents tp')}" "Topic_get_type (tp_data tp') = Topic_get_type (tp_data tp)"
    and s': "tv_subs s' = tv_subs s" "tv_topics s' = (tv_topics s)(t := Some tp')" "tv_map s' = tv_map s"
    "set (tv_removing s') \<subseteq> set (tv_removing s)"
    and same: "tv_queue s' = tv_queue s" "tv_posting s' = tv_posting s" "tv_worker s' = tv_worker s" "tv_log s' = tv_log s"
  shows "tv_ok T S s'"
proof -
  have ev: "topics_evolve (tv_topics s) (tv_topics s')" using tp by (auto simp: topics_evolve_def s')
  have "topics_ok T s'"
    unfolding topics_ok_def s'(2,3)
  proof (intro conjI allI impI)
    show "\<forall>(t', c) \<in> set (tv_removing s'). has_object ((tv_topics s)(t := Some tp')) t' c"
      using topics_okD(4) [OF tv_okD(2) [OF ok]] has_object_evolve [OF ev] s'(2,4) by auto
  qed (use topics_okD [OF tv_okD(2) [OF ok]] tp in \<open>auto split: if_splits\<close>)
  then show ?thesis using tv_ok_evolve [OF ok _ _ _ ev same] tv_okD(1) [OF ok] by (simp add: s')
qed

lemma Topic_append_contents:
  "Topic_append get_id c h d = (h', d') \<Longrightarrow> topic_contents d' \<subseteq> insert c (topic_contents d)"
  by (cases d) (auto simp: SetTopic_append_def Let_def ran_def split: option.splits if_splits)

lemma see_set_contents: "ran (see_all (see_set get_id) h cs v) \<subseteq> ran v \<union> set cs"
proof (induction cs arbitrary: v)
  case (Cons c cs)
  have "ran (see_set get_id c (h ! c) v) \<subseteq> insert c (ran v)" by (auto simp: see_set_def ran_def)
  with Cons [of "see_set get_id c (h ! c) v"] show ?case by auto
qed simp

lemma Topic_do_move_contents:
  assumes "Topic_do_move get_id h d = Some (ns, d')"
  shows "set ns \<subseteq> topic_contents d" "topic_contents d' \<subseteq> topic_contents d"
proof -
  have "set ns \<subseteq> topic_contents d \<and> topic_contents d' \<subseteq> topic_contents d"
  proof (cases d)
    case (SetTopic snap objects new)
    then show ?thesis using assms see_set_contents [of get_id h new snap] by (auto simp: SetTopic_sync_see split: if_splits)
  qed (use assms in \<open>auto split: option.splits if_splits\<close>)
  then show "set ns \<subseteq> topic_contents d" "topic_contents d' \<subseteq> topic_contents d" by auto
qed

lemma Topic_do_clear_contents [simp]: "topic_contents (Topic_do_clear d) = {}"
  by (cases d) auto

lemma append_new_ok:
  assumes ok: "tv_ok T S s" and app: "append_new get_id t obj remove_obj s = Ok s'"
  shows "tv_ok T S s'"
proof -
  obtain tp where tp: "tv_topics s t = Some tp"
    using app by (auto simp: append_new_def with_topic_def split: option.splits)
  let ?h = "tp_contents tp @ [\<lparr>ct_object = obj, ct_timestamp = if remove_obj then v_remove else v_insert\<rparr>]"
  obtain h' d' where a: "Topic_append get_id (length (tp_contents tp)) ?h (tp_data tp) = (h', d')" by force
  have s': "s' = s\<lparr>tv_topics := (tv_topics s)(t := Some (tp\<lparr>tp_data := d', tp_contents := h'\<rparr>))\<rparr>"
    using app tp a by (simp add: append_new_def with_topic_def)
  have len: "length h' = Suc (length (tp_contents tp))" using Topic_append_length [OF a] by simp
  have sub: "topic_contents d' \<subseteq> {..<Suc (length (tp_contents tp))}"
    using Topic_append_contents [OF a] topics_okD(3) [OF tv_okD(2) [OF ok] tp] by fastforce
  show ?thesis
    by (rule tv_ok_topic [OF ok tp, where tp' = "tp\<lparr>tp_data := d', tp_contents := h'\<rparr>"]) (use len sub Topic_append_type [OF a] in \<open>simp_all add: s'\<close>)
qed

lemma append_content_ok:
  assumes ok: "tv_ok T S s" and c: "(t, c) \<in> set (tv_removing s)"
    and app: "append_content get_id t c (s\<lparr>tv_removing := remove1 (t, c) (tv_removing s)\<rparr>) = Ok s'"
  shows "tv_ok T S s'"
proof -
  obtain tp where tp: "tv_topics s t = Some tp" "c < length (tp_contents tp)" "Topic_get_type (tp_data tp) = SetKind"
    using topics_okD(4) [OF tv_okD(2) [OF ok] c] by (auto simp: has_object_def)
  obtain h' d' where a: "Topic_append get_id c (tp_contents tp) (tp_data tp) = (h', d')" by force
  have s': "s' = s\<lparr>tv_removing := remove1 (t, c) (tv_removing s),
      tv_topics := (tv_topics s)(t := Some (tp\<lparr>tp_data := d', tp_contents := h'\<rparr>))\<rparr>"
    using app tp a by (simp add: append_content_def with_topic_def)
  have len: "length h' = length (tp_contents tp)" by (rule Topic_append_length [OF a])
  have sub: "topic_contents d' \<subseteq> {..<length (tp_contents tp)}"
    using Topic_append_contents [OF a] topics_okD(3) [OF tv_okD(2) [OF ok] tp(1)] tp(2) by auto
  show ?thesis
    by (rule tv_ok_topic [OF ok tp(1), where tp' = "tp\<lparr>tp_data := d', tp_contents := h'\<rparr>"])
      (use len sub Topic_append_type [OF a] in \<open>simp_all add: s' set_remove1_subset\<close>)
qed

lemma mark_removed_ok:
  assumes ok: "tv_ok T S s" and mark: "mark_removed t c s = Ok s'"
  shows "tv_ok T S s'"
proof -
  obtain tp where tp: "tv_topics s t = Some tp"
    using mark by (auto simp: mark_removed_def with_topic_def split: option.splits)
  have s': "s' = s\<lparr>tv_topics := (tv_topics s)(t := Some (tp\<lparr>tp_contents := set_timestamp c v_remove (tp_contents tp)\<rparr>))\<rparr>"
    using mark tp by (simp add: mark_removed_def with_topic_def)
  show ?thesis
    by (rule tv_ok_topic [OF ok tp, where tp' = "tp\<lparr>tp_contents := set_timestamp c v_remove (tp_contents tp)\<rparr>"])
      (use topics_okD(3) [OF tv_okD(2) [OF ok] tp] in \<open>simp_all add: s'\<close>)
qed

lemma find_object_ok:
  assumes ok: "tv_ok T S s" and found: "find_object t k s = Ok (Some c)"
  shows "tv_ok T S (s\<lparr>tv_removing := (t, c) # tv_removing s\<rparr>)"
proof -
  obtain tp where tp: "tv_topics s t = Some tp" "SetTopic_find k (tp_data tp) = Ok (Some c)"
    using found by (auto simp: find_object_def with_topic_def split: option.splits)
  then have "c \<in> topic_contents (tp_data tp)" by (cases "tp_data tp") (auto simp: ran_def)
  moreover have "Topic_get_type (tp_data tp) = SetKind" using tp(2) by (cases "tp_data tp") simp_all
  ultimately have "has_object (tv_topics s) t c"
    using topics_okD(3) [OF tv_okD(2) [OF ok] tp(1)] tp(1) by (auto simp: has_object_def)
  then show ?thesis
    by (intro tv_ok_evolve [OF ok]) (use tv_okD(1,2) [OF ok] in \<open>auto simp: topics_ok_def\<close>)
qed

lemma unmap_ok:
  assumes ok: "tv_ok T S s" and m: "\<And>key t. m key = Some t \<Longrightarrow> tv_map s key = Some t"
  shows "tv_ok T S (s\<lparr>tv_map := m\<rparr>)"
proof (rule tv_ok_evolve [OF ok])
  show "topics_ok T (s\<lparr>tv_map := m\<rparr>)"
    using topics_okD(2) [OF tv_okD(2) [OF ok] m] tv_okD(2) [OF ok] by (simp add: topics_ok_def)
qed (use tv_okD(1) [OF ok] in simp_all)

text \<open>Publishers that are made and posted.\<close>

lemma publisher_ok_cong: "tv_topics s' = tv_topics s \<Longrightarrow> tv_subs s' = tv_subs s \<Longrightarrow> publisher_ok s' = publisher_ok s"
  by (rule ext) (simp add: publisher_ok_def cong: option.case_cong)

lemma phase_ok_cong:
  assumes "tv_topics s' = tv_topics s" "tv_subs s' = tv_subs s"
  shows "phase_ok s' t ph = phase_ok s t ph"
  by (cases ph) (simp_all add: delivery_ok_def assms)

lemma tv_ok_publishers:
  assumes ok: "tv_ok T S s" and pubs: "publishers_ok s'"
    and same: "tv_subs s' = tv_subs s" "tv_topics s' = tv_topics s" "tv_map s' = tv_map s"
      "tv_removing s' = tv_removing s" "tv_worker s' = tv_worker s" "tv_log s' = tv_log s"
  shows "tv_ok T S s'"
  using ok pubs
  by (simp add: tv_ok_def topics_ok_def worker_ok_def log_ok_def same phase_ok_cong [OF same(2,1)] cong: worker.case_cong)

lemma unconfirmed_mset:
  "mset (unconfirmed s) = image_mset (\<lambda>p. the (pb_subscription p)) (filter_mset (\<lambda>p. pb_subscription p \<noteq> None)
     (mset (tv_queue s) + mset (tv_posting s) + mset (case tv_worker s of WRun p PStart \<Rightarrow> [p] | _ \<Rightarrow> [])))"
  by (simp add: unconfirmed_def List.map_filter_def mset_map mset_filter comp_def)

lemma publishers_ok_mset:
  assumes "mset (unconfirmed s') = mset (unconfirmed s)" "set (tv_publishers s') \<subseteq> set (tv_publishers s)"
    and "tv_topics s' = tv_topics s" "tv_subs s' = tv_subs s" "publishers_ok s"
  shows "publishers_ok s'"
proof -
  have "distinct (unconfirmed s') = distinct (unconfirmed s)" "set (unconfirmed s') = set (unconfirmed s)"
    using assms(1) by (rule mset_eq_imp_distinct_iff, intro mset_eq_setD)
  then show ?thesis
    using assms(2,5) publisher_ok_cong [OF assms(3,4)] unfolding publishers_ok_def assms(4) by (metis subsetD)
qed

lemma publisher_made_ok:
  assumes ok: "tv_ok T S s" and p: "publisher_ok s p"
    and new: "\<And>a. pb_subscription p = Some a \<Longrightarrow> a \<notin> set (unconfirmed s) \<and> \<not> sb_working (tv_subs s) a"
  shows "tv_ok T S (s\<lparr>tv_posting := p # tv_posting s\<rparr>)"
proof (rule tv_ok_publishers [OF ok])
  let ?s = "s\<lparr>tv_posting := p # tv_posting s\<rparr>" and ?ps = "List.map_filter pb_subscription [p]"
  have "publisher_ok ?s = publisher_ok s" by (rule publisher_ok_cong) simp_all
  then have pubs: "\<forall>q \<in> set (tv_publishers ?s). publisher_ok ?s q"
    using tv_okD(3) [OF ok] p by (auto simp: publishers_ok_def)
  have un: "mset (unconfirmed ?s) = mset (?ps @ unconfirmed s)"
    unfolding unconfirmed_mset mset_append by (cases "pb_subscription p") (simp_all add: List.map_filter_simps)
  then have "distinct (unconfirmed ?s) = distinct (?ps @ unconfirmed s)" "set (unconfirmed ?s) = set (?ps @ unconfirmed s)"
    by (rule mset_eq_imp_distinct_iff, intro mset_eq_setD)
  moreover have "distinct (?ps @ unconfirmed s)" "\<forall>a \<in> set (?ps @ unconfirmed s). \<not> sb_working (tv_subs s) a"
    using tv_okD(3) [OF ok] new by (cases "pb_subscription p"; auto simp: publishers_ok_def List.map_filter_simps)+
  ultimately show "publishers_ok ?s" using pubs by (simp add: publishers_ok_def)
qed simp_all

lemma post_ok:
  assumes ok: "tv_ok T S s" and p: "p \<in> set (tv_posting s)"
    and post: "post p (s\<lparr>tv_posting := remove1 p (tv_posting s)\<rparr>) = Some (Ok s')"
  shows "tv_ok T S s'"
proof -
  have s': "s' = s\<lparr>tv_posting := remove1 p (tv_posting s), tv_queue := tv_queue s @ [p]\<rparr>"
    using post by (auto simp: post_def split: if_splits)
  have "publishers_ok s'"
  proof (rule publishers_ok_mset [OF _ _ _ _ tv_okD(3) [OF ok]])
    show "mset (unconfirmed s') = mset (unconfirmed s)" using p by (simp add: unconfirmed_mset s')
    show "set (tv_publishers s') \<subseteq> set (tv_publishers s)" using p set_remove1_subset [of p "tv_posting s"] by (auto simp: s')
  qed (simp_all add: s')
  then show ?thesis using ok by (intro tv_ok_publishers [OF ok]) (simp_all add: s')
qed

text \<open>Making a topic, subscribing and unsubscribing.\<close>

lemma subs_ok_new_topic:
  assumes inv: "subs_ok T S b" and T: "T t = []"
  shows "subs_ok T S (b\<lparr>sb_head := (sb_head b)(t := None), sb_tail := (sb_tail b)(t := None)\<rparr>)"
proof -
  have "(sb_head b)(t := None) = sb_head b" using sub_head [OF inv, of t] T by auto
  then have b: "b\<lparr>sb_head := (sb_head b)(t := None), sb_tail := (sb_tail b)(t := None)\<rparr> = b\<lparr>sb_tail := (sb_tail b)(t := None)\<rparr>"
    by simp
  have read: "tslot_read (b\<lparr>sb_tail := x\<rparr>) = tslot_read b" for x
  proof
    show "tslot_read (b\<lparr>sb_tail := x\<rparr>) q = tslot_read b q" for q by (cases q) simp_all
  qed
  let ?b = "b\<lparr>sb_tail := (sb_tail b)(t := None)\<rparr>"
  have "tails_ok T ?b" using tails_okD [OF subs_invD(5) [OF inv]] T by (auto simp: tails_ok_def)
  moreover have "lists_ok THead T S ?b" using subs_invD(2) [OF inv] by (simp add: lists_ok_def read)
  moreover have "nodes_ok T S ?b" using subs_invD(3) [OF inv] by (simp add: nodes_ok_def)
  moreover have "links_ok THead ?b = links_ok THead b" by (simp add: links_ok_def read)
  moreover have "refs_ok ?b = refs_ok b" by (simp add: refs_ok_def)
  moreover have "erasing_ok THead ?b = erasing_ok THead b" by (simp add: erasing_ok_def)
  ultimately show ?thesis using inv unfolding b by (simp add: subs_inv_def)
qed

lemma get_topic_make_ok:
  assumes ok: "tv_ok T S s" and t: "tv_topics s t = None" and key: "tv_map s key = None"
  shows "tv_ok T S (fst (get_topic t key (Some kind) s))"
proof (rule tv_ok_evolve [OF ok])
  let ?s = "fst (get_topic t key (Some kind) s)"
  have T: "T t = []" using topics_okD(1) [OF tv_okD(2) [OF ok], of t] t by blast
  note s' = get_topic_def topic_make_def Let_def key
  show "subs_ok T S (tv_subs ?s)" using subs_ok_new_topic [OF tv_okD(1) [OF ok] T] by (simp add: s')
  show "subs_evolves (tv_subs s) (tv_subs ?s)" by (simp add: s' subs_evolves_def)
  show ev: "topics_evolve (tv_topics s) (tv_topics ?s)" using t by (simp add: s' topics_evolve_def)
  show "topics_ok T ?s"
    unfolding topics_ok_def
  proof (intro conjI allI impI)
    show "\<forall>(t', c) \<in> set (tv_removing ?s). has_object (tv_topics ?s) t' c"
      using topics_okD(4) [OF tv_okD(2) [OF ok]] has_object_evolve [OF ev] by (auto simp: s')
    show "topic_contents (tp_data tp) \<subseteq> {..<length (tp_contents tp)}" if "tv_topics ?s t' = Some tp" for t' tp
      using that topics_okD(3) [OF tv_okD(2) [OF ok], of t' tp] by (cases kind) (auto simp: s' split: if_splits)
  qed (use topics_okD(1,2) [OF tv_okD(2) [OF ok]] in \<open>auto simp: s' split: if_splits\<close>)
qed (simp_all add: get_topic_def topic_make_def Let_def key)

lemma subscribed_evolves: "\<not> sb_alive b a \<Longrightarrow> subs_evolves b (subscribed a t u b)"
  by (auto simp: subs_evolves_def subscribed_def Let_def)

lemma subscribed_sel:
  "sb_alive (subscribed a t u b) = (sb_alive b)(a := True)" "sb_working (subscribed a t u b) = (sb_working b)(a := False)"
  "sb_topic (subscribed a t u b) = (sb_topic b)(a := Some t)"
  by (simp_all add: subscribed_def Let_def)

lemma topic_reserve_ok:
  assumes ok: "tv_ok T S s" and fresh: "\<not> sb_alive (tv_subs s) a" and res: "topic_reserve a t u s = Some (Ok (s', p))"
  shows "p = None \<and> s' = s \<or>
    p = Some a \<and> tv_topics s t \<noteq> None \<and> s' = s\<lparr>tv_subs := subscribed a t u (tv_subs s)\<rparr> \<and>
    tv_ok (T(t := topic_list_add a t (tv_subs s) (T t))) (S(u := a # S u)) (s'\<lparr>tv_posting := Publisher_snap t p # tv_posting s'\<rparr>)"
proof -
  note inv = tv_okD(1) [OF ok]
  have t: "tv_topics s t \<noteq> None"
    using res by (auto simp: topic_reserve_def with_topic_def split: option.splits)
  then have with_t: "with_topic t s (\<lambda>tp. Ok ()) = Ok ()" by (auto simp: with_topic_def)
  show ?thesis
  proof (cases "\<exists>b \<in> set (S u). sb_topic (tv_subs s) b = Some t")
    case True
    then show ?thesis using res Topic_reserve_subscribe_inv [OF inv fresh, of t u] with_t by (simp add: topic_reserve_def)
  next
    case False
    then have s': "s' = s\<lparr>tv_subs := subscribed a t u (tv_subs s)\<rparr>" and p: "p = Some a"
      using res Topic_reserve_subscribe_inv [OF inv fresh, of t u] with_t by (simp_all add: topic_reserve_def)
    have "topics_ok (T(t := topic_list_add a t (tv_subs s) (T t))) s'"
      using tv_okD(2) [OF ok] t by (auto simp: topics_ok_def s')
    then have ok': "tv_ok (T(t := topic_list_add a t (tv_subs s) (T t))) (S(u := a # S u)) s'"
      using subscribed_inv [OF inv fresh, of t u] subscribed_evolves [OF fresh, of t u]
      by (intro tv_ok_evolve [OF ok]) (simp_all add: s')
    have "a \<notin> set (unconfirmed s)"
    proof
      assume "a \<in> set (unconfirmed s)"
      from unconfirmed_from [OF this] obtain q where "q \<in> set (tv_publishers s)" "pb_subscription q = Some a" by blast
      moreover from this have "publisher_ok s q" using publishers_okD(1) [OF tv_okD(3) [OF ok]] by blast
      ultimately show False using fresh by (simp add: publisher_ok_def)
    qed
    moreover have "unconfirmed s' = unconfirmed s" by (simp add: unconfirmed_def s')
    moreover have "publisher_ok s' (Publisher_snap t p)"
      using t by (simp add: publisher_ok_def Publisher_snap_def p s' subscribed_sel)
    ultimately have "tv_ok (T(t := topic_list_add a t (tv_subs s) (T t))) (S(u := a # S u))
        (s'\<lparr>tv_posting := Publisher_snap t p # tv_posting s'\<rparr>)"
      by (intro publisher_made_ok [OF ok']) (simp_all add: Publisher_snap_def p s' subscribed_sel)
    then show ?thesis using p t s' by blast
  qed
qed

lemma subscriber_op_keeps:
  assumes inv: "subs_ok T S b" and op: "subscriber_op ob" "subs_may ob b" "subs_do ob b = Some (Ok b')"
  shows "subs_ok (topic_lists ob b T S) (subscriber_lists ob b T S) b'" and "subs_keeps b b'"
    and "set (topic_lists ob b T S t) \<subseteq> set (T t)"
proof -
  show "subs_ok (topic_lists ob b T S) (subscriber_lists ob b T S) b'"
    using subs_do_inv [OF inv op(2)] op(3) by auto
  show "subs_keeps b b'"
  proof (cases ob)
    case (OFind th u t)
    then show ?thesis
      using op(3) by (auto simp: Subscriber_unsubscribe_find_def subs_keeps_def obind_eq_Ok split: option.splits)
  next
    case (OErase th)
    then show ?thesis
      using op(3) erase_inv(1) [OF inv, of th] by (cases "sb_node b th") (auto simp: Subscriber_unsubscribe_erase_def)
  next
    case (OUnsubscribeAll u)
    then show ?thesis using op(3) Subscriber_unsubscribe_all_inv [OF inv, of u] by auto
  qed (use op(1) in simp_all)
  show "set (topic_lists ob b T S t) \<subseteq> set (T t)"
    using op(1) by (cases ob) (auto split: option.splits dest: set_remove1_subset [THEN subsetD])
qed

lemma subscriber_op_ok:
  assumes ok: "tv_ok T S s" and op: "subscriber_op ob" "subs_may ob (tv_subs s)" "subs_do ob (tv_subs s) = Some (Ok b)"
  shows "tv_ok (topic_lists ob (tv_subs s) T S) (subscriber_lists ob (tv_subs s) T S) (s\<lparr>tv_subs := b\<rparr>)"
proof (rule tv_ok_evolve [OF ok])
  note keeps = subscriber_op_keeps [OF tv_okD(1) [OF ok] op]
  show "topics_ok (topic_lists ob (tv_subs s) T S) (s\<lparr>tv_subs := b\<rparr>)"
    unfolding topics_ok_def
  proof (intro conjI allI impI)
    fix t
    assume "topic_lists ob (tv_subs s) T S t \<noteq> []"
    then have "T t \<noteq> []" using keeps(3) [of t] by auto
    then show "tv_topics (s\<lparr>tv_subs := b\<rparr>) t \<noteq> None" using topics_okD(1) [OF tv_okD(2) [OF ok]] by simp
  qed (use topics_okD(2-4) [OF tv_okD(2) [OF ok]] in auto)
qed (use subscriber_op_keeps [OF tv_okD(1) [OF ok] op] in \<open>simp_all add: subs_keeps_evolves\<close>)

lemma Topic_clear_ok:
  assumes inv: "subs_ok T S b" and clear: "sb_node b th = None" "Topic_clear th t b = Some (Ok b')"
  shows "subs_ok (T(t := [])) (\<lambda>u. filter (\<lambda>a. a \<notin> set (T t)) (S u)) b'" and "subs_keeps b b'"
  using Topic_clear_inv [OF inv clear(1), of t] clear(2) by auto

lemma destroy_ok:
  assumes ok: "tv_ok T S s" and unused: "topic_unused s t"
    and clear: "sb_node (tv_subs s) th = None" "Topic_clear th t (tv_subs s) = Some (Ok b)"
  shows "tv_ok (T(t := [])) (\<lambda>u. filter (\<lambda>a. a \<notin> set (T t)) (S u))
    (s\<lparr>tv_subs := b, tv_topics := (tv_topics s)(t := None)\<rparr>)"
proof -
  let ?T = "T(t := [])" and ?S = "\<lambda>u. filter (\<lambda>a. a \<notin> set (T t)) (S u)"
  let ?s1 = "s\<lparr>tv_subs := b\<rparr>"
  let ?s = "s\<lparr>tv_subs := b, tv_topics := (tv_topics s)(t := None)\<rparr>"
  note b = Topic_clear_ok [OF tv_okD(1) [OF ok] clear]
  have ok1: "tv_ok ?T ?S ?s1"
  proof (rule tv_ok_evolve [OF ok])
    show "topics_ok ?T ?s1" using tv_okD(2) [OF ok] by (auto simp: topics_ok_def)
  qed (use b in \<open>simp_all add: subs_keeps_evolves\<close>)
  have other: "p \<in> set (tv_publishers s) \<Longrightarrow> pb_topic p \<noteq> t" for p using unused by (auto simp: topic_unused_def)
  have "publisher_ok ?s p" if "p \<in> set (tv_publishers s)" for p
    using publishers_okD(1) [OF tv_okD(3) [OF ok1], of p] that other [OF that]
    by (cases "pb_subscription p") (auto simp: publisher_ok_def)
  moreover have "unconfirmed ?s = unconfirmed ?s1" by (simp add: unconfirmed_def)
  ultimately have "publishers_ok ?s" using tv_okD(3) [OF ok1] by (simp add: publishers_ok_def)
  moreover have content: "t' \<noteq> t \<Longrightarrow> has_content ((tv_topics s)(t := None)) t' c = has_content (tv_topics s) t' c" for t' c
    by (simp add: has_content_def)
  moreover have "topics_ok ?T ?s"
    unfolding topics_ok_def
  proof (intro conjI allI impI)
    have "t' \<noteq> t" if "(t', c) \<in> set (tv_removing s)" for t' c using that unused by (force simp: topic_unused_def)
    moreover have "t' \<noteq> t \<Longrightarrow> has_object ((tv_topics s)(t := None)) t' c = has_object (tv_topics s) t' c" for t' c
      by (simp add: has_object_def)
    ultimately show "\<forall>(t', c) \<in> set (tv_removing ?s). has_object (tv_topics ?s) t' c"
      using topics_okD(4) [OF tv_okD(2) [OF ok]] by auto
    show "tv_topics ?s t' \<noteq> None" if "tv_map ?s key = Some t'" for key t'
      using that topics_okD(2) [OF tv_okD(2) [OF ok], of key t'] unused by (auto simp: topic_unused_def ran_def)
  qed (use topics_okD(1,3) [OF tv_okD(2) [OF ok1]] in \<open>auto split: if_splits\<close>)
  moreover have "phase_ok ?s t' ph = phase_ok ?s1 t' ph" if "t' \<noteq> t" for t' ph
    by (cases ph) (use that in \<open>simp_all add: delivery_ok_def content\<close>)
  then have "worker_ok ?s"
    using tv_okD(4) [OF ok1] other by (cases "tv_worker s") (auto simp: worker_ok_def)
  moreover have "log_ok ?s" using tv_okD(5) [OF ok1] by (simp add: log_ok_def)
  ultimately show ?thesis using tv_okD(1) [OF ok1] by (simp add: tv_ok_def)
qed

section \<open>Steps of the publishing thread\<close>

text \<open>The message that is taken holds its subscription until it is done.\<close>

lemma subs_ok_msg:
  assumes inv: "subs_ok T S b" and refs: "refs_ok (b\<lparr>sb_ref := r, sb_msg := m\<rparr>)"
  shows "subs_ok T S (b\<lparr>sb_ref := r, sb_msg := m\<rparr>)"
proof -
  let ?b = "b\<lparr>sb_ref := r, sb_msg := m\<rparr>"
  have read: "tslot_read ?b = tslot_read b"
  proof
    show "tslot_read ?b q = tslot_read b q" for q by (cases q) simp_all
  qed
  have "lists_ok THead T S ?b" using subs_invD(2) [OF inv] by (simp add: lists_ok_def read)
  moreover have "nodes_ok T S ?b" using subs_invD(3) [OF inv] by (simp add: nodes_ok_def)
  moreover have "tails_ok T ?b" using subs_invD(5) [OF inv] by (simp add: tails_ok_def)
  moreover have "links_ok THead ?b = links_ok THead b" by (simp add: links_ok_def read)
  moreover have "erasing_ok THead ?b = erasing_ok THead b" by (simp add: erasing_ok_def)
  ultimately show ?thesis using inv refs by (simp add: subs_inv_def)
qed

lemma msg_take:
  assumes inv: "subs_ok T S b" and msg: "sb_msg b = None" and alive: "\<And>a. p = Some a \<Longrightarrow> sb_alive b a"
  obtains b' where "obind (AutoRefPtr_move_assign (sb_msg b) p b) (\<lambda>(b, msg, left). AutoRefPtr_destroy left (b\<lparr>sb_msg := msg\<rparr>)) = Ok b'"
    "subs_ok T S b'" "sb_msg b' = p" "sb_alive b' = sb_alive b" "sb_working b' = sb_working b" "sb_topic b' = sb_topic b"
proof (cases p)
  case None
  have "b\<lparr>sb_msg := None\<rparr> = b" using msg by (cases b) simp
  then show ?thesis using that [of b] inv msg None
    by (simp add: AutoRefPtr_move_assign_def AutoRefPtr_reset_def AutoRefPtr_add_ref_def AutoRefPtr_destroy_def)
next
  case (Some a)
  let ?b = "b\<lparr>sb_ref := (sb_ref b)(a := sb_ref b a + 1), sb_msg := Some a\<rparr>"
  have "refs_ok ?b" using subs_invD(6) [OF inv] msg alive Some by (auto simp: refs_ok_def)
  then show ?thesis
    using that [of ?b] subs_ok_msg [OF inv] add_ref_eq [OF alive [OF Some]] msg Some
    by (simp add: AutoRefPtr_move_assign_def AutoRefPtr_reset_def AutoRefPtr_add_ref_def AutoRefPtr_destroy_def)
qed

lemma msg_drop:
  assumes inv: "subs_ok T S b"
  obtains b' where "AutoRefPtr_destroy (sb_msg b) (b\<lparr>sb_msg := None\<rparr>) = Ok b'"
    "subs_ok T S b'" "sb_msg b' = None" "sb_alive b' = sb_alive b" "sb_working b' = sb_working b" "sb_topic b' = sb_topic b"
proof (cases "sb_msg b")
  case None
  have "b\<lparr>sb_msg := None\<rparr> = b" using None by (cases b) simp
  then show ?thesis using that [of b] inv None
    by (simp add: AutoRefPtr_destroy_def AutoRefPtr_reset_def AutoRefPtr_add_ref_def)
next
  case (Some a)
  let ?b = "b\<lparr>sb_ref := (sb_ref b)(a := sb_ref b a - 1), sb_msg := None\<rparr>"
  have a: "sb_alive b a" using refs_okD(3) [OF subs_invD(6) [OF inv] Some] .
  have ref: "sb_ref b a = (if sb_topic b a = None then 1 else 2) + 1" using refs_okD(1) [OF subs_invD(6) [OF inv] a] Some by simp
  then have "2 \<le> sb_ref b a" by (simp add: word_le_nat_alt)
  then have drop: "del_ref a (b\<lparr>sb_msg := None\<rparr>) = Ok ?b"
    using del_ref_eq [of "b\<lparr>sb_msg := None\<rparr>" a] a by simp
  have "refs_ok ?b" using subs_invD(6) [OF inv] Some ref by (auto simp: refs_ok_def)
  then show ?thesis
    using that [of ?b] subs_ok_msg [OF inv] drop Some
    by (simp add: AutoRefPtr_destroy_def AutoRefPtr_reset_def AutoRefPtr_add_ref_def)
qed

text \<open>The walk over the subscriptions of a topic finds the ones it can reach.\<close>

lemma working_nodes_path:
  assumes "dpath (sb_topic_subscriber_next b) prv mk p x as" "\<And>a. a \<in> set as \<Longrightarrow> sb_alive b a \<and> sb_subscriber b a \<noteq> None"
  shows "working_nodes b x = Some (Ok (map (\<lambda>a. (a, the (sb_subscriber b a))) (filter (sb_working b) as)))"
  using assms
proof (induction as arbitrary: p x)
  case Nil
  then show ?case by (simp add: working_nodes.simps)
next
  case (Cons a as)
  from Cons.prems obtain u where "sb_alive b a" "sb_subscriber b a = Some u" "x = Some a" by auto
  with Cons.IH [of "mk a" "sb_topic_subscriber_next b a"] Cons.prems show ?case
    by (subst working_nodes.simps) auto
qed

lemma to_all_eq:
  assumes inv: "subs_ok T S (tv_subs s)"
  shows "to_all t items s = Some (Ok (PDeliver (deliveries items
    (map (\<lambda>a. (a, the (sb_subscriber (tv_subs s) a))) (filter (sb_working (tv_subs s)) (T t))))))"
proof -
  have "sb_alive (tv_subs s) a \<and> sb_subscriber (tv_subs s) a \<noteq> None" if "a \<in> set (T t)" for a
    using nodes_okD(2,3) [OF subs_invD(3) [OF inv], of a] that by auto
  then show ?thesis using working_nodes_path [OF sub_paths(1) [OF inv, of t]] by (simp add: to_all_def)
qed

lemma deliveries_in: "j \<in> set (deliveries items ns) \<longleftrightarrow> (dv_node j, dv_subscriber j) \<in> set ns \<and> dv_item j \<in> set items"
  by (cases j) (auto simp: deliveries_def)

lemma set_phase_run [simp]: "tv_worker s = WRun p ph \<Longrightarrow> set_phase ph' s = s\<lparr>tv_worker := WRun p ph'\<rparr>"
  by (simp add: set_phase_def)

text \<open>Going from one phase to another, but not back to the start.\<close>

lemma tv_ok_phase:
  assumes ok: "tv_ok T S s" and w: "tv_worker s = WRun p ph" and ph': "phase_ok s (pb_topic p) ph'" "ph' \<noteq> PStart"
  shows "tv_ok T S (s\<lparr>tv_worker := WRun p ph'\<rparr>)"
proof -
  let ?s = "s\<lparr>tv_worker := WRun p ph'\<rparr>"
  have cong: "publisher_ok ?s = publisher_ok s" "phase_ok ?s t ph'' = phase_ok s t ph''" for t ph''
    by (rule publisher_ok_cong, simp, simp) (rule phase_ok_cong, simp, simp)
  have un: "unconfirmed s = unconfirmed ?s @ (if ph = PStart then List.map_filter pb_subscription [p] else [])"
    using ph'(2) by (cases ph; cases ph') (simp_all add: unconfirmed_def w List.map_filter_def)
  have "publishers_ok ?s"
    using tv_okD(3) [OF ok] by (auto simp: publishers_ok_def un cong w)
  then show ?thesis
    using ok ph'(1) w by (simp add: tv_ok_def topics_ok_def worker_ok_def log_ok_def cong)
qed

lemma deliver_all_ok:
  assumes ok: "tv_ok T S s" and w: "tv_worker s = WRun p ph" and run: "deliver_all (pb_topic p) items s = Some (Ok s')"
    and items: "\<And>c. IContent c \<in> set items \<Longrightarrow> has_content (tv_topics s) (pb_topic p) c"
  shows "s' = s\<lparr>tv_worker := WRun p (PDeliver (deliveries items
      (map (\<lambda>a. (a, the (sb_subscriber (tv_subs s) a))) (filter (sb_working (tv_subs s)) (T (pb_topic p))))))\<rparr>"
    and "tv_ok T S s'"
proof -
  note inv = tv_okD(1) [OF ok]
  show s': "s' = s\<lparr>tv_worker := WRun p (PDeliver (deliveries items
      (map (\<lambda>a. (a, the (sb_subscriber (tv_subs s) a))) (filter (sb_working (tv_subs s)) (T (pb_topic p))))))\<rparr>"
    using run w by (simp add: deliver_all_def to_all_eq [OF inv])
  show "tv_ok T S s'"
    unfolding s'
  proof (rule tv_ok_phase [OF ok w])
    show "phase_ok s (pb_topic p) (PDeliver (deliveries items
        (map (\<lambda>a. (a, the (sb_subscriber (tv_subs s) a))) (filter (sb_working (tv_subs s)) (T (pb_topic p))))))"
      using items nodes_okD(3) [OF subs_invD(3) [OF inv], of _ "pb_topic p"] by (auto simp: deliveries_in delivery_ok_def)
  qed simp
qed

lemma publish_new_move_ok:
  assumes ok: "tv_ok T S s" and w: "tv_worker s = WRun p ph" and run: "publish_new_move get_id (pb_topic p) s = Ok s'"
  obtains "s' = s\<lparr>tv_worker := WRun p PDone\<rparr>" "tv_ok T S s'"
  | tp ns d' where "tv_topics s (pb_topic p) = Some tp" "Topic_do_move get_id (tp_contents tp) (tp_data tp) = Some (ns, d')"
    "s' = s\<lparr>tv_topics := (tv_topics s)(pb_topic p := Some (tp\<lparr>tp_data := d'\<rparr>)), tv_worker := WRun p (PMoved ns)\<rparr>"
    "tv_ok T S s'"
proof -
  obtain tp where tp: "tv_topics s (pb_topic p) = Some tp"
    using run by (auto simp: publish_new_move_def with_topic_def split: option.splits)
  show thesis
  proof (cases "Topic_do_move get_id (tp_contents tp) (tp_data tp)")
    case None
    then have "s' = s\<lparr>tv_worker := WRun p PDone\<rparr>" using run tp w by (simp add: publish_new_move_def with_topic_def)
    then show thesis using that(1) tv_ok_phase [OF ok w, of PDone] by simp
  next
    case (Some nsd)
    then obtain ns d' where move: "Topic_do_move get_id (tp_contents tp) (tp_data tp) = Some (ns, d')" by (cases nsd) auto
    let ?s = "s\<lparr>tv_topics := (tv_topics s)(pb_topic p := Some (tp\<lparr>tp_data := d'\<rparr>))\<rparr>"
    have s': "s' = ?s\<lparr>tv_worker := WRun p (PMoved ns)\<rparr>"
      using run tp w move by (simp add: publish_new_move_def with_topic_def)
    have valid: "topic_contents (tp_data tp) \<subseteq> {..<length (tp_contents tp)}" by (rule topics_okD(3) [OF tv_okD(2) [OF ok] tp])
    have "tv_ok T S ?s"
      by (rule tv_ok_topic [OF ok tp, where tp' = "tp\<lparr>tp_data := d'\<rparr>"])
        (use Topic_do_move_contents [OF move] Topic_do_move_type [OF move] valid in auto)
    moreover have "phase_ok ?s (pb_topic p) (PMoved ns)"
      using Topic_do_move_contents(1) [OF move] valid by (auto simp: has_content_def)
    ultimately have "tv_ok T S s'" using w unfolding s' by (intro tv_ok_phase) simp_all
    then show thesis using that(2) [OF tp move] s' by simp
  qed
qed

lemma publish_clear_move_ok:
  assumes ok: "tv_ok T S s" and w: "tv_worker s = WRun p ph" and run: "publish_clear_move (pb_topic p) s = Ok s'"
  obtains tp where "tv_topics s (pb_topic p) = Some tp"
    "s' = s\<lparr>tv_topics := (tv_topics s)(pb_topic p := Some (tp\<lparr>tp_data := Topic_do_clear (tp_data tp)\<rparr>)), tv_worker := WRun p PCleared\<rparr>"
    "tv_ok T S s'"
proof -
  obtain tp where tp: "tv_topics s (pb_topic p) = Some tp"
    using run by (auto simp: publish_clear_move_def with_topic_def split: option.splits)
  let ?s = "s\<lparr>tv_topics := (tv_topics s)(pb_topic p := Some (tp\<lparr>tp_data := Topic_do_clear (tp_data tp)\<rparr>))\<rparr>"
  have s': "s' = ?s\<lparr>tv_worker := WRun p PCleared\<rparr>" using run tp w by (simp add: publish_clear_move_def with_topic_def)
  have "tv_ok T S ?s"
    by (rule tv_ok_topic [OF ok tp, where tp' = "tp\<lparr>tp_data := Topic_do_clear (tp_data tp)\<rparr>"]) auto
  then have "tv_ok T S s'" using w unfolding s' by (intro tv_ok_phase) simp_all
  then show thesis using that [OF tp] s' by simp
qed

text \<open>Confirming a subscription that still has its subscriber, and sending it the snapshot.\<close>

lemma publish_snap_ok:
  assumes ok: "tv_ok T S s" and w: "tv_worker s = WRun p PStart" and a: "pb_subscription p = Some a"
    and order: "\<And>tp. tv_topics s (pb_topic p) = Some tp \<Longrightarrow> snap_order ks (tp_data tp)"
    and run: "publish_snap ks (pb_topic p) a s = Ok s'"
  obtains "s' = s\<lparr>tv_worker := WRun p PDone\<rparr>" "tv_ok T S s'"
  | tp u h' cs where "tv_topics s (pb_topic p) = Some tp" "Topic_do_snap ks (tp_contents tp) (tp_data tp) = (h', cs)"
    "sb_alive (tv_subs s) a" "\<not> sb_working (tv_subs s) a" "sb_topic (tv_subs s) a = Some (pb_topic p)"
    "s' = s\<lparr>tv_subs := (tv_subs s)\<lparr>sb_working := (sb_working (tv_subs s))(a := True)\<rparr>,
       tv_topics := (tv_topics s)(pb_topic p := Some (tp\<lparr>tp_contents := h'\<rparr>)),
       tv_worker := WRun p (PDeliver (deliveries (map IContent cs) [(a, u)]))\<rparr>"
    "tv_ok T S s'"
proof -
  note inv = tv_okD(1) [OF ok]
  have pok: "publisher_ok s p" using publishers_okD(1) [OF tv_okD(3) [OF ok]] w by simp
  have a': "sb_alive (tv_subs s) a" "sb_topic (tv_subs s) a = None \<or> sb_topic (tv_subs s) a = Some (pb_topic p)"
    using pok a by (simp_all add: publisher_ok_def)
  obtain tp where tp: "tv_topics s (pb_topic p) = Some tp" using pok by (auto simp: publisher_ok_def)
  have un: "a \<in> set (unconfirmed s)" using w a by (simp add: unconfirmed_def List.map_filter_def)
  show thesis
  proof (cases "sb_subscriber (tv_subs s) a")
    case None
    then have "s' = s\<lparr>tv_worker := WRun p PDone\<rparr>" using run tp w a' by (simp add: publish_snap_def with_topic_def with_node_def)
    then show thesis using that(1) tv_ok_phase [OF ok w, of PDone] by simp
  next
    case (Some u)
    obtain h' cs where snap: "Topic_do_snap ks (tp_contents tp) (tp_data tp) = (h', cs)" by force
    let ?b = "(tv_subs s)\<lparr>sb_working := (sb_working (tv_subs s))(a := True)\<rparr>"
    let ?js = "deliveries (map IContent cs) [(a, u)]"
    let ?s1 = "s\<lparr>tv_topics := (tv_topics s)(pb_topic p := Some (tp\<lparr>tp_contents := h'\<rparr>))\<rparr>"
    have s': "s' = s\<lparr>tv_subs := ?b, tv_topics := (tv_topics s)(pb_topic p := Some (tp\<lparr>tp_contents := h'\<rparr>)),
        tv_worker := WRun p (PDeliver ?js)\<rparr>"
      using run tp w a'(1) Some snap by (simp add: publish_snap_def with_topic_def with_node_def confirm_subscribe_def)
    have len: "length h' = length (tp_contents tp)" by (rule Topic_do_snap_length [OF snap])
    have valid: "topic_contents (tp_data tp) \<subseteq> {..<length (tp_contents tp)}" by (rule topics_okD(3) [OF tv_okD(2) [OF ok] tp])
    have ok1: "tv_ok T S ?s1"
      by (rule tv_ok_topic [OF ok tp, where tp' = "tp\<lparr>tp_contents := h'\<rparr>"]) (use valid len in auto)
    have topic: "sb_topic (tv_subs s) a = Some (pb_topic p)"
      using a' nodes_okD(2) [OF subs_invD(3) [OF inv] a'(1)] Some by auto
    have ok2: "tv_ok T S (?s1\<lparr>tv_worker := WRun p PDone\<rparr>)" using w by (intro tv_ok_phase [OF ok1]) simp_all
    have un': "unconfirmed s' = unconfirmed (?s1\<lparr>tv_worker := WRun p PDone\<rparr>)"
      by (simp add: unconfirmed_def s')
    have "unconfirmed s = unconfirmed s' @ [a]" using w a by (simp add: unconfirmed_def s' List.map_filter_def)
    then have fresh: "a \<notin> set (unconfirmed s')" using publishers_okD(2) [OF tv_okD(3) [OF ok]] by simp
    have "publisher_ok s' q = publisher_ok ?s1 q" for q by (cases "pb_subscription q") (simp_all add: publisher_ok_def s')
    then have "publishers_ok s'"
      using tv_okD(3) [OF ok2] fresh publishers_okD(1) [OF tv_okD(3) [OF ok1]] w
      unfolding publishers_ok_def un' by (auto simp: s')
    moreover have "worker_ok s'"
    proof -
      have "has_content (tv_topics s') (pb_topic p) c" if "c \<in> set cs" for c
        using that Topic_do_snap_contents [OF snap order [OF tp]] valid len by (auto simp: has_content_def s')
      then have "phase_ok s' (pb_topic p) (PDeliver ?js)"
        using a'(1) topic by (auto simp: deliveries_in delivery_ok_def s')
      moreover have "sb_msg (tv_subs s) = pb_subscription p" using tv_okD(4) [OF ok] w by (simp add: worker_ok_def)
      ultimately show ?thesis by (simp add: worker_ok_def s')
    qed
    moreover have "log_ok s'" using tv_okD(5) [OF ok] by (auto simp: log_ok_def s')
    moreover have "topics_ok T s'" using tv_okD(2) [OF ok1] by (simp add: topics_ok_def s')
    moreover have "subs_ok T S (tv_subs s')" using inv by (simp add: s')
    ultimately have "tv_ok T S s'" by (simp add: tv_ok_def)
    then show thesis
      using that(2) [OF tp snap a'(1) _ topic] publishers_okD(3) [OF tv_okD(3) [OF ok] un] s' by simp
  qed
qed

text \<open>Taking a message, delivering one item, and the end of a message.\<close>

lemma worker_pop_ok:
  assumes ok: "tv_ok T S s" and w: "tv_worker s = WIdle" and run: "worker_pop s = Some (Ok s')"
  obtains p rest b where "tv_queue s = p # rest" "s' = s\<lparr>tv_subs := b, tv_queue := rest, tv_worker := WRun p PStart\<rparr>"
    "sb_working b = sb_working (tv_subs s)" "sb_alive b = sb_alive (tv_subs s)" "tv_ok T S s'"
proof -
  note inv = tv_okD(1) [OF ok]
  obtain p rest where q: "tv_queue s = p # rest" using run by (auto simp: worker_pop_def split: list.splits)
  have pok: "publisher_ok s p" using publishers_okD(1) [OF tv_okD(3) [OF ok]] q by simp
  have "sb_msg (tv_subs s) = None" using tv_okD(4) [OF ok] w by (simp add: worker_ok_def)
  moreover have "pb_subscription p = Some a \<Longrightarrow> sb_alive (tv_subs s) a" for a using pok by (simp add: publisher_ok_def)
  ultimately obtain b where b: "obind (AutoRefPtr_move_assign (sb_msg (tv_subs s)) (pb_subscription p) (tv_subs s))
        (\<lambda>(b, msg, left). AutoRefPtr_destroy left (b\<lparr>sb_msg := msg\<rparr>)) = Ok b"
    "subs_ok T S b" "sb_msg b = pb_subscription p" "sb_alive b = sb_alive (tv_subs s)"
    "sb_working b = sb_working (tv_subs s)" "sb_topic b = sb_topic (tv_subs s)"
    using msg_take [OF inv] by blast
  have s': "s' = s\<lparr>tv_subs := b, tv_queue := rest, tv_worker := WRun p PStart\<rparr>"
    using run b(1) q by (auto simp: worker_pop_def obind_eq_Ok split: prod.splits)
  have "publisher_ok s' = publisher_ok s" by (rule ext) (simp add: publisher_ok_def s' b(4,6) cong: option.case_cong)
  moreover have "mset (unconfirmed s') = mset (unconfirmed s)" by (simp add: unconfirmed_mset s' q w)
  then have "distinct (unconfirmed s') = distinct (unconfirmed s)" "set (unconfirmed s') = set (unconfirmed s)"
    by (rule mset_eq_imp_distinct_iff, intro mset_eq_setD)
  ultimately have "publishers_ok s'" using tv_okD(3) [OF ok] by (auto simp: publishers_ok_def s' q b(5))
  then have "tv_ok T S s'"
    using ok b(2,3) by (simp add: tv_ok_def topics_ok_def worker_ok_def log_ok_def s' b(4,5))
  then show thesis using that [OF q s' b(5,4)] by simp
qed

lemma deliver_ok:
  assumes ok: "tv_ok T S s" and w: "tv_worker s = WRun p (PDeliver (j # js))"
    and s': "s' = s\<lparr>tv_worker := WRun p (PDeliver js), tv_log := tv_log s @ [logged_delivery (pb_topic p) s j]\<rparr>"
  shows "tv_ok T S s'"
proof -
  have j: "\<forall>i \<in> set (j # js). delivery_ok s (pb_topic p) i" using tv_okD(4) [OF ok] w by (simp add: worker_ok_def)
  let ?s = "s\<lparr>tv_worker := WRun p (PDeliver js)\<rparr>"
  have ok1: "tv_ok T S ?s" using j by (intro tv_ok_phase [OF ok w]) simp_all
  have "unconfirmed s' = unconfirmed ?s" by (simp add: unconfirmed_def s')
  moreover have "publisher_ok s' = publisher_ok ?s" by (rule publisher_ok_cong) (simp_all add: s')
  ultimately have "publishers_ok s'" using tv_okD(3) [OF ok1] by (simp add: publishers_ok_def s')
  moreover have "log_ok s'"
    using tv_okD(5) [OF ok] j by (auto simp: log_ok_def s' logged_delivery_def delivery_ok_def has_content_def)
  moreover have "phase_ok s' t ph = phase_ok ?s t ph" for t ph by (rule phase_ok_cong) (simp_all add: s')
  ultimately show ?thesis using ok1 by (simp add: tv_ok_def topics_ok_def worker_ok_def s')
qed

lemma worker_done_ok:
  assumes ok: "tv_ok T S s" and w: "tv_worker s = WRun p PDone"
    and run: "obind (AutoRefPtr_destroy (sb_msg (tv_subs s)) ((tv_subs s)\<lparr>sb_msg := None\<rparr>))
      (\<lambda>b. Ok (s\<lparr>tv_subs := b, tv_worker := WIdle\<rparr>)) = Ok s'"
  obtains b where "s' = s\<lparr>tv_subs := b, tv_worker := WIdle\<rparr>" "sb_working b = sb_working (tv_subs s)"
    "sb_alive b = sb_alive (tv_subs s)" "tv_ok T S s'"
proof -
  obtain b where b: "AutoRefPtr_destroy (sb_msg (tv_subs s)) ((tv_subs s)\<lparr>sb_msg := None\<rparr>) = Ok b"
    "subs_ok T S b" "sb_msg b = None" "sb_alive b = sb_alive (tv_subs s)"
    "sb_working b = sb_working (tv_subs s)" "sb_topic b = sb_topic (tv_subs s)"
    using msg_drop [OF tv_okD(1) [OF ok]] by blast
  have s': "s' = s\<lparr>tv_subs := b, tv_worker := WIdle\<rparr>" using run b(1) by simp
  have "publisher_ok s' = publisher_ok s" by (rule ext) (simp add: publisher_ok_def s' b(4,6) cong: option.case_cong)
  moreover have "unconfirmed s' = unconfirmed s" by (simp add: unconfirmed_def s' w)
  ultimately have "publishers_ok s'" using tv_okD(3) [OF ok] by (auto simp: publishers_ok_def s' b(5))
  then have "tv_ok T S s'"
    using ok b(2,3) by (simp add: tv_ok_def topics_ok_def worker_ok_def log_ok_def s' b(4,5))
  then show thesis using that [OF s' b(5,4)] by simp
qed

lemma erase_end_ok:
  assumes ok: "tv_ok T S s" and w: "tv_worker s = WRun p ph" and free: "sb_node (tv_subs s) 0 = None"
    and run: "wbind (Topic_clear 0 (pb_topic p) (tv_subs s)) (\<lambda>b. Some (Ok (set_phase PDone (s\<lparr>tv_subs := b\<rparr>)))) = Some (Ok s')"
  obtains b where "s' = s\<lparr>tv_subs := b, tv_worker := WRun p PDone\<rparr>" "sb_working b = sb_working (tv_subs s)"
    "sb_alive b = sb_alive (tv_subs s)" "tv_ok (T(pb_topic p := [])) (\<lambda>u. filter (\<lambda>a. a \<notin> set (T (pb_topic p))) (S u)) s'"
proof -
  let ?T = "T(pb_topic p := [])" and ?S = "\<lambda>u. filter (\<lambda>a. a \<notin> set (T (pb_topic p))) (S u)"
  obtain b where b: "Topic_clear 0 (pb_topic p) (tv_subs s) = Some (Ok b)" "subs_ok ?T ?S b" "subs_keeps (tv_subs s) b"
    using Topic_clear_inv [OF tv_okD(1) [OF ok] free] by blast
  have s': "s' = s\<lparr>tv_subs := b, tv_worker := WRun p PDone\<rparr>" using run b(1) w by simp
  have "tv_ok ?T ?S (s\<lparr>tv_subs := b\<rparr>)"
  proof (rule tv_ok_evolve [OF ok])
    show "topics_ok ?T (s\<lparr>tv_subs := b\<rparr>)" using tv_okD(2) [OF ok] by (auto simp: topics_ok_def)
  qed (use b in \<open>simp_all add: subs_keeps_evolves\<close>)
  then have "tv_ok ?T ?S s'" using tv_ok_phase [of ?T ?S "s\<lparr>tv_subs := b\<rparr>" p ph PDone] w by (simp add: s')
  then show thesis using that [OF s'] b(3) by (simp add: subs_keeps_def)
qed

end
