(* ===== verification/Eco_TopicViews.thy ===== *)
theory Eco_TopicViews
  imports Eco_TopicInv
begin

text \<open>
  What the subscribers of the topic server are sent, for every kind of topic that keeps a
  snapshot, and under every interleaving of the threads. The lemmas are proved once, from the
  contract \<open>topic_contract\<close> of the kinds of topic; the properties are what the three
  interpretations of \<open>Eco_Topic\<close> make of them.
\<close>

section \<open>What a subscriber sees\<close>

text \<open>What a subscription has been sent, and what it is still to be sent, as the contract of its topic sees it.\<close>

definition see_item :: "(nat \<Rightarrow> 'o content \<Rightarrow> 'v \<Rightarrow> 'v) \<Rightarrow> 'v \<Rightarrow> 'o content list \<Rightarrow> item \<Rightarrow> 'v \<Rightarrow> 'v" where
  "see_item see none h i v = (case i of IContent c \<Rightarrow> see c (h ! c) v | IClear \<Rightarrow> none | IErase \<Rightarrow> v)"

definition see_items :: "(nat \<Rightarrow> 'o content \<Rightarrow> 'v \<Rightarrow> 'v) \<Rightarrow> 'v \<Rightarrow> 'o content list \<Rightarrow> item list \<Rightarrow> 'v \<Rightarrow> 'v" where
  "see_items see none h is v = fold (see_item see none h) is v"

definition see_logged :: "(nat \<Rightarrow> 'o content \<Rightarrow> 'v \<Rightarrow> 'v) \<Rightarrow> 'v \<Rightarrow> 'o logged \<Rightarrow> 'v \<Rightarrow> 'v" where
  "see_logged see none l v = (case dv_item (lg_delivery l) of
     IContent c \<Rightarrow> (case lg_content l of None \<Rightarrow> v | Some x \<Rightarrow> see c x v)
   | IClear \<Rightarrow> none
   | IErase \<Rightarrow> v)"

definition view_of :: "(nat \<Rightarrow> 'o content \<Rightarrow> 'v \<Rightarrow> 'v) \<Rightarrow> 'v \<Rightarrow> 'o logged list \<Rightarrow> nat \<Rightarrow> 'v" where
  "view_of see none log a = fold (see_logged see none) (filter (\<lambda>l. dv_node (lg_delivery l) = a) log) none"

definition inflight :: "('o, 'k) tserver \<Rightarrow> nat \<Rightarrow> nat \<Rightarrow> item list" where
  "inflight s t a = (case tv_worker s of
     WIdle \<Rightarrow> []
   | WRun p ph \<Rightarrow> if pb_topic p \<noteq> t then [] else (case ph of
       PMoved ns \<Rightarrow> map IContent ns
     | PCleared \<Rightarrow> [IClear]
     | PDeliver js \<Rightarrow> map dv_item (filter (\<lambda>j. dv_node j = a) js)
     | PStart \<Rightarrow> []
     | PDone \<Rightarrow> []))"

abbreviation outstanding :: "('o, 'k) tserver \<Rightarrow> nat \<Rightarrow> ('o, 'k) topic \<Rightarrow> nat \<Rightarrow> item list" where
  "outstanding s t tp a \<equiv> inflight s t a @ map IContent (topic_pending (tp_data tp))"

text \<open>
  Every subscription at work that its topic can reach ends in the state of the topic, once it is
  sent what is outstanding.
\<close>

definition views_ok ::
  "topic_kind \<Rightarrow> (nat \<Rightarrow> 'o content \<Rightarrow> 'v \<Rightarrow> 'v) \<Rightarrow> 'v \<Rightarrow> ('o content list \<Rightarrow> 'k topic_data \<Rightarrow> bool) \<Rightarrow>
     ('o content list \<Rightarrow> 'k topic_data \<Rightarrow> 'v \<Rightarrow> bool) \<Rightarrow> (nat \<Rightarrow> nat list) \<Rightarrow> ('o, 'k) tserver \<Rightarrow> bool" where
  "views_ok kind see none okd good T s \<longleftrightarrow> (\<forall>t tp. tv_topics s t = Some tp \<longrightarrow> Topic_get_type (tp_data tp) = kind \<longrightarrow>
     okd (tp_contents tp) (tp_data tp) \<and>
     (\<forall>a \<in> set (T t). sb_working (tv_subs s) a \<longrightarrow> good (tp_contents tp) (tp_data tp)
        (see_items see none (tp_contents tp) (outstanding s t tp a) (view_of see none (tv_log s) a))))"

lemma see_items_simps [simp]:
  "see_items see none h [] v = v"
  "see_items see none h (i # is) v = see_items see none h is (see_item see none h i v)"
  "see_items see none h (is @ is') v = see_items see none h is' (see_items see none h is v)"
  "see_items see none h (map IContent cs) v = see_all see h cs v"
proof -
  show "see_items see none h (map IContent cs) v = see_all see h cs v"
    by (induction cs arbitrary: v) (simp_all add: see_items_def see_item_def)
qed (simp_all add: see_items_def)

lemma see_items_split:
  "\<exists>xs v'. (\<forall>c \<in> set xs. IContent c \<in> set is) \<and> (\<forall>h. see_items see none h is v = see_all see h xs v')"
proof (induction "is" rule: rev_induct)
  case Nil
  have "\<forall>h. see_items see none h [] v = see_all see h [] v" by simp
  then show ?case by (metis empty_iff empty_set)
next
  case (snoc i "is")
  then obtain xs v' where xs: "\<forall>c \<in> set xs. IContent c \<in> set is" "\<forall>h. see_items see none h is v = see_all see h xs v'" by blast
  show ?case
  proof (cases i)
    case (IContent c)
    then have "\<forall>h. see_items see none h (is @ [i]) v = see_all see h (xs @ [c]) v'" using xs(2) by (simp add: see_item_def)
    moreover have "\<forall>c' \<in> set (xs @ [c]). IContent c' \<in> set (is @ [i])" using xs(1) IContent by auto
    ultimately show ?thesis by blast
  next
    case IClear
    then have "\<forall>h. see_items see none h (is @ [i]) v = see_all see h [] none" by (simp add: see_item_def)
    then show ?thesis by (metis empty_iff empty_set)
  next
    case IErase
    then have "\<forall>h. see_items see none h (is @ [i]) v = see_all see h xs v'" using xs(2) by (simp add: see_item_def)
    moreover have "\<forall>c' \<in> set xs. IContent c' \<in> set (is @ [i])" using xs(1) by auto
    ultimately show ?thesis by blast
  qed
qed

lemma topic_keepsD:
  assumes "topic_keeps see good h d h' d'" "good h d (see_all see h (topic_pending d) v)"
  shows "good h' d' (see_all see h' (topic_pending d') v)"
  using assms(1) [unfolded topic_keeps_def, rule_format, of "[]" v] assms(2) by simp

lemma topic_keeps_items:
  assumes keeps: "topic_keeps see good h d h' d'" and valid: "\<And>c. IContent c \<in> set is \<Longrightarrow> c < length h"
    and good: "good h d (see_items see none h (is @ map IContent (topic_pending d)) v)"
  shows "good h' d' (see_items see none h' (is @ map IContent (topic_pending d')) v)"
proof -
  obtain xs v' where xs: "\<forall>c \<in> set xs. IContent c \<in> set is" "\<forall>h. see_items see none h is v = see_all see h xs v'"
    using see_items_split [of "is" see none v] by blast
  have "set xs \<subseteq> {..<length h}" using xs(1) valid by auto
  then show ?thesis using keeps good xs(2) by (simp add: topic_keeps_def)
qed

lemma inflight_valid:
  assumes ok: "tv_ok T S s" and c: "IContent c \<in> set (inflight s t a)"
  shows "has_content (tv_topics s) t c"
proof (cases "tv_worker s")
  case (WRun p ph)
  then have "phase_ok s (pb_topic p) ph" using tv_okD(4) [OF ok] by (simp add: worker_ok_def)
  then show ?thesis using c WRun by (cases ph) (auto simp: inflight_def delivery_ok_def split: if_splits)
qed (use c in \<open>simp add: inflight_def\<close>)

lemma view_of_other: "(\<And>l. l \<in> set log \<Longrightarrow> dv_node (lg_delivery l) \<noteq> a) \<Longrightarrow> view_of see none log a = none"
  by (simp add: view_of_def filter_empty_conv)

lemma deliveries_to:
  assumes "distinct as"
  shows "map dv_item (filter (\<lambda>j. dv_node j = a) (deliveries items (map (\<lambda>a. (a, f a)) as))) = (if a \<in> set as then items else [])"
proof -
  have 1: "map dv_item (filter (\<lambda>j. dv_node j = a) (map (\<lambda>i. \<lparr>dv_node = b, dv_subscriber = u, dv_item = i\<rparr>) items)) =
      (if b = a then items else [])" for b u
    by (induction items) auto
  show ?thesis using assms by (induction as) (auto simp: deliveries_def 1)
qed

text \<open>A change of everything but the topics and what they send, after which no more subscriptions are at work.\<close>

lemma views_ok_same:
  assumes views: "views_ok kind see none okd good T s"
    and tps: "\<And>t tp. tv_topics s' t = Some tp \<Longrightarrow> tv_topics s t = Some tp"
    and same: "\<And>t a. a \<in> set (T' t) \<Longrightarrow> sb_working (tv_subs s') a \<Longrightarrow> a \<in> set (T t) \<and> sb_working (tv_subs s) a \<and>
      inflight s' t a = inflight s t a"
    and log: "tv_log s' = tv_log s"
  shows "views_ok kind see none okd good T' s'"
  unfolding views_ok_def log
proof (intro allI impI conjI ballI)
  fix t tp
  assume "tv_topics s' t = Some tp" and kind: "Topic_get_type (tp_data tp) = kind"
  then have tp: "tv_topics s t = Some tp" using tps by blast
  then show "okd (tp_contents tp) (tp_data tp)" using views kind by (simp add: views_ok_def)
  fix a
  assume "a \<in> set (T' t)" "sb_working (tv_subs s') a"
  then have a: "a \<in> set (T t)" "sb_working (tv_subs s) a" "inflight s' t a = inflight s t a" using same by blast+
  then show "good (tp_contents tp) (tp_data tp)
      (see_items see none (tp_contents tp) (outstanding s' t tp a) (view_of see none (tv_log s) a))"
    using views tp kind unfolding views_ok_def a(3) by blast
qed

text \<open>No subscription is freed, and only a new one is added to what a topic reaches.\<close>

definition lists_shrink :: "(nat \<Rightarrow> nat list) \<Rightarrow> subs \<Rightarrow> (nat \<Rightarrow> nat list) \<Rightarrow> subs \<Rightarrow> bool" where
  "lists_shrink T b T' b' \<longleftrightarrow> (\<forall>a. sb_alive b a \<longrightarrow> sb_alive b' a \<and> (\<forall>t. a \<in> set (T' t) \<longrightarrow> a \<in> set (T t)))"

lemma lists_shrink_same [simp]: "sb_alive b' = sb_alive b \<Longrightarrow> lists_shrink T b T b'"
  by (simp add: lists_shrink_def)

lemma lists_shrink_trans: "lists_shrink T b T' b' \<Longrightarrow> lists_shrink T' b' T'' b'' \<Longrightarrow> lists_shrink T b T'' b''"
  by (auto simp: lists_shrink_def)

context topic_contract
begin

abbreviation views :: "(nat \<Rightarrow> nat list) \<Rightarrow> ('o, 'k) tserver \<Rightarrow> bool" where
  "views \<equiv> views_ok kind see none inv good"

lemma viewsD:
  assumes "views T s" "tv_topics s t = Some tp" "Topic_get_type (tp_data tp) = kind"
  shows "inv (tp_contents tp) (tp_data tp)"
    and "a \<in> set (T t) \<Longrightarrow> sb_working (tv_subs s) a \<Longrightarrow> good (tp_contents tp) (tp_data tp)
        (see_items see none (tp_contents tp) (outstanding s t tp a) (view_of see none (tv_log s) a))"
  using assms by (simp_all add: views_ok_def)

text \<open>A change of one topic that its contract allows.\<close>

lemma views_topic:
  assumes ok: "tv_ok T S s" and views: "views T s" and tp: "tv_topics s t = Some tp"
    and type: "Topic_get_type (tp_data tp') = Topic_get_type (tp_data tp)"
    and keeps: "Topic_get_type (tp_data tp) = kind \<Longrightarrow> inv (tp_contents tp) (tp_data tp) \<Longrightarrow>
      inv (tp_contents tp') (tp_data tp') \<and> topic_keeps see good (tp_contents tp) (tp_data tp) (tp_contents tp') (tp_data tp')"
    and s': "tv_subs s' = tv_subs s" "tv_topics s' = (tv_topics s)(t := Some tp')" "tv_worker s' = tv_worker s" "tv_log s' = tv_log s"
  shows "views T s'"
  unfolding views_ok_def s'(1,4)
proof (intro allI impI conjI ballI)
  fix t' tp1
  assume tp1: "tv_topics s' t' = Some tp1" and kind: "Topic_get_type (tp_data tp1) = kind"
  have inflight: "inflight s' = inflight s" by (simp add: inflight_def s' fun_eq_iff)
  have inv: "inv (tp_contents tp) (tp_data tp)" if "t' = t"
    using viewsD(1) [OF views tp] kind type tp1 that by (simp add: s')
  show "inv (tp_contents tp1) (tp_data tp1)"
    using viewsD(1) [OF views, of t' tp1] keeps inv kind type tp1 by (auto simp: s' split: if_splits)
  fix a
  assume a: "a \<in> set (T t')" "sb_working (tv_subs s) a"
  show "good (tp_contents tp1) (tp_data tp1)
      (see_items see none (tp_contents tp1) (outstanding s' t' tp1 a) (view_of see none (tv_log s) a))"
  proof (cases "t' = t")
    case True
    then have "tp1 = tp'" using tp1 by (simp add: s')
    have "topic_keeps see good (tp_contents tp) (tp_data tp) (tp_contents tp') (tp_data tp')"
      using keeps inv True kind type \<open>tp1 = tp'\<close> by simp
    moreover have "IContent c \<in> set (inflight s t' a) \<Longrightarrow> c < length (tp_contents tp)" for c
      using inflight_valid [OF ok, of c t' a] tp True by (auto simp: has_content_def)
    moreover have "good (tp_contents tp) (tp_data tp)
        (see_items see none (tp_contents tp) (outstanding s t' tp a) (view_of see none (tv_log s) a))"
      using viewsD(2) [OF views tp] a kind type True \<open>tp1 = tp'\<close> by simp
    ultimately show ?thesis unfolding inflight \<open>tp1 = tp'\<close> by (rule topic_keeps_items)
  next
    case False
    then show ?thesis using viewsD(2) [OF views _ kind a] tp1 by (simp add: s' inflight)
  qed
qed

text \<open>The steps of the threads that publish.\<close>

lemma views_append_new:
  assumes ok: "tv_ok T S s" and views: "views T s" and app: "append_new get_id t obj remove_obj s = Ok s'"
  shows "views T s'"
proof -
  obtain tp where tp: "tv_topics s t = Some tp"
    using app by (auto simp: append_new_def with_topic_def split: option.splits)
  let ?x = "\<lparr>ct_object = obj, ct_timestamp = if remove_obj then v_remove else v_insert\<rparr>"
  obtain h' d' where a: "Topic_append get_id (length (tp_contents tp)) (tp_contents tp @ [?x]) (tp_data tp) = (h', d')" by force
  have s': "s' = s\<lparr>tv_topics := (tv_topics s)(t := Some (tp\<lparr>tp_data := d', tp_contents := h'\<rparr>))\<rparr>"
    using app tp a by (simp add: append_new_def with_topic_def)
  show ?thesis
  proof (rule views_topic [OF ok views tp, where tp' = "tp\<lparr>tp_data := d', tp_contents := h'\<rparr>"])
    assume kind: "Topic_get_type (tp_data tp) = kind" and inv: "inv (tp_contents tp) (tp_data tp)"
    show "inv (tp_contents (tp\<lparr>tp_data := d', tp_contents := h'\<rparr>)) (tp_data (tp\<lparr>tp_data := d', tp_contents := h'\<rparr>)) \<and>
        topic_keeps see good (tp_contents tp) (tp_data tp) (tp_contents (tp\<lparr>tp_data := d', tp_contents := h'\<rparr>))
          (tp_data (tp\<lparr>tp_data := d', tp_contents := h'\<rparr>))"
      using append_new [OF kind inv a] by simp
  qed (use Topic_append_type [OF a] in \<open>simp_all add: s'\<close>)
qed

lemma views_append_content:
  assumes ok: "tv_ok T S s" and views: "views T s" and c: "(t, c) \<in> set (tv_removing s)"
    and app: "append_content get_id t c (s\<lparr>tv_removing := remove1 (t, c) (tv_removing s)\<rparr>) = Ok s'"
  shows "views T s'"
proof -
  obtain tp where tp: "tv_topics s t = Some tp" "c < length (tp_contents tp)" "Topic_get_type (tp_data tp) = SetKind"
    using topics_okD(4) [OF tv_okD(2) [OF ok] c] by (auto simp: has_object_def)
  obtain h' d' where a: "Topic_append get_id c (tp_contents tp) (tp_data tp) = (h', d')" by force
  have s': "s' = s\<lparr>tv_removing := remove1 (t, c) (tv_removing s),
      tv_topics := (tv_topics s)(t := Some (tp\<lparr>tp_data := d', tp_contents := h'\<rparr>))\<rparr>"
    using app tp a by (simp add: append_content_def with_topic_def)
  show ?thesis
    by (rule views_topic [OF ok views tp(1), where tp' = "tp\<lparr>tp_data := d', tp_contents := h'\<rparr>"])
      (use Topic_append_type [OF a] append_again [OF _ _ _ tp(2) a] tp(3) in \<open>simp_all add: s'\<close>)
qed

lemma views_mark_removed:
  assumes ok: "tv_ok T S s" and views: "views T s" and c: "(t, c) \<in> set (tv_removing s)" and m: "mark_removed t c s = Ok s'"
  shows "views T s'"
proof -
  obtain tp where tp: "tv_topics s t = Some tp" "c < length (tp_contents tp)" "Topic_get_type (tp_data tp) = SetKind"
    using topics_okD(4) [OF tv_okD(2) [OF ok] c] by (auto simp: has_object_def)
  have s': "s' = s\<lparr>tv_topics := (tv_topics s)(t := Some (tp\<lparr>tp_contents := set_timestamp c v_remove (tp_contents tp)\<rparr>))\<rparr>"
    using m tp by (simp add: mark_removed_def with_topic_def)
  show ?thesis
    by (rule views_topic [OF ok views tp(1), where tp' = "tp\<lparr>tp_contents := set_timestamp c v_remove (tp_contents tp)\<rparr>"])
      (use mark [OF _ _ tp(2)] in \<open>simp_all add: s'\<close>)
qed

lemma views_make:
  assumes ok: "tv_ok T S s" and views: "views T s" and t: "tv_topics s t = None" and key: "tv_map s key = None"
  shows "views T (fst (get_topic t key (Some kind') s))"
  unfolding views_ok_def
proof (intro allI impI conjI ballI)
  let ?s = "fst (get_topic t key (Some kind') s)"
  note s' = get_topic_def topic_make_def Let_def key
  have T: "T t = []" using topics_okD(1) [OF tv_okD(2) [OF ok], of t] t by blast
  have inflight: "inflight ?s = inflight s" by (simp add: inflight_def s' fun_eq_iff)
  fix t' tp
  assume tp: "tv_topics ?s t' = Some tp" and kind: "Topic_get_type (tp_data tp) = kind"
  show "inv (tp_contents tp) (tp_data tp)"
    using tp kind viewsD(1) [OF views, of t' tp] start by (auto simp: s' split: if_splits)
  fix a
  assume a: "a \<in> set (T t')" "sb_working (tv_subs ?s) a"
  then have "t' \<noteq> t" using T by auto
  then show "good (tp_contents tp) (tp_data tp)
      (see_items see none (tp_contents tp) (outstanding ?s t' tp a) (view_of see none (tv_log ?s) a))"
    unfolding inflight using viewsD(2) [OF views _ kind a(1)] a(2) tp by (simp add: s')
qed

text \<open>The steps of the publishing thread.\<close>

lemma views_move:
  assumes views: "views T s" and w: "tv_worker s = WRun p PStart" and tp: "tv_topics s (pb_topic p) = Some tp"
    and move': "Topic_do_move get_id (tp_contents tp) (tp_data tp) = Some (ns, d')"
    and s': "s' = s\<lparr>tv_topics := (tv_topics s)(pb_topic p := Some (tp\<lparr>tp_data := d'\<rparr>)), tv_worker := WRun p (PMoved ns)\<rparr>"
  shows "views T s'"
  unfolding views_ok_def
proof (intro allI impI conjI ballI)
  fix t tp'
  assume tp': "tv_topics s' t = Some tp'" and kind: "Topic_get_type (tp_data tp') = kind"
  note type = Topic_do_move_type [OF move']
  show "inv (tp_contents tp') (tp_data tp')"
    using tp' kind viewsD(1) [OF views, of t tp'] viewsD(1) [OF views tp] move [OF _ _ move'] type
    by (auto simp: s' split: if_splits)
  fix a
  assume a: "a \<in> set (T t)" "sb_working (tv_subs s') a"
  then have a': "sb_working (tv_subs s) a" by (simp add: s')
  show "good (tp_contents tp') (tp_data tp')
      (see_items see none (tp_contents tp') (outstanding s' t tp' a) (view_of see none (tv_log s') a))"
  proof (cases "t = pb_topic p")
    case True
    then have tp'_eq: "tp' = tp\<lparr>tp_data := d'\<rparr>" using tp' by (simp add: s')
    then have kind': "Topic_get_type (tp_data tp) = kind" using kind type by simp
    have d': "ns = topic_pending (tp_data tp)" "topic_pending d' = []"
        "\<forall>v. good (tp_contents tp) (tp_data tp) v \<longrightarrow> good (tp_contents tp) d' v"
      using move [OF kind' viewsD(1) [OF views tp kind'] move'] by blast+
    have "inflight s t a = []" "inflight s' t a = map IContent ns" using w True by (simp_all add: inflight_def s')
    moreover have "tv_log s' = tv_log s" by (simp add: s')
    ultimately show ?thesis using viewsD(2) [OF views tp kind', of a] a a' True d' by (simp add: tp'_eq)
  next
    case False
    then have "inflight s' t a = inflight s t a" using w by (simp add: inflight_def s')
    then show ?thesis using viewsD(2) [OF views _ kind a(1) a'] tp' False by (simp add: s')
  qed
qed

lemma views_clear:
  assumes views: "views T s" and w: "tv_worker s = WRun p PStart" and tp: "tv_topics s (pb_topic p) = Some tp"
    and s': "s' = s\<lparr>tv_topics := (tv_topics s)(pb_topic p := Some (tp\<lparr>tp_data := Topic_do_clear (tp_data tp)\<rparr>)),
       tv_worker := WRun p PCleared\<rparr>"
  shows "views T s'"
  unfolding views_ok_def
proof (intro allI impI conjI ballI)
  fix t tp'
  assume tp': "tv_topics s' t = Some tp'" and kind: "Topic_get_type (tp_data tp') = kind"
  show "inv (tp_contents tp') (tp_data tp')"
    using tp' kind viewsD(1) [OF views, of t tp'] viewsD(1) [OF views tp] clear by (auto simp: s' split: if_splits)
  fix a
  assume a: "a \<in> set (T t)" "sb_working (tv_subs s') a"
  then have a': "sb_working (tv_subs s) a" by (simp add: s')
  show "good (tp_contents tp') (tp_data tp')
      (see_items see none (tp_contents tp') (outstanding s' t tp' a) (view_of see none (tv_log s') a))"
  proof (cases "t = pb_topic p")
    case True
    then have tp'_eq: "tp' = tp\<lparr>tp_data := Topic_do_clear (tp_data tp)\<rparr>" and kind': "Topic_get_type (tp_data tp) = kind"
      using tp' kind by (auto simp: s')
    have "topic_pending (Topic_do_clear (tp_data tp)) = []" "good (tp_contents tp) (Topic_do_clear (tp_data tp)) none"
      using clear [OF kind' viewsD(1) [OF views tp kind']] by blast+
    then show ?thesis using True by (simp add: tp'_eq inflight_def s' see_item_def)
  next
    case False
    then have "inflight s' t a = inflight s t a" using w by (simp add: inflight_def s')
    then show ?thesis using viewsD(2) [OF views _ kind a(1) a'] tp' False by (simp add: s')
  qed
qed

text \<open>A new subscription has been sent nothing before its snapshot.\<close>

lemma views_snap:
  assumes ok: "tv_ok T S s" and views: "views T s" and w: "tv_worker s = WRun p PStart"
    and order: "\<And>tp. tv_topics s (pb_topic p) = Some tp \<Longrightarrow> snap_order ks (tp_data tp)"
    and tp: "tv_topics s (pb_topic p) = Some tp" and snap': "Topic_do_snap ks (tp_contents tp) (tp_data tp) = (h', cs)"
    and a: "\<not> sb_working (tv_subs s) a" "sb_alive (tv_subs s) a" "sb_topic (tv_subs s) a = Some (pb_topic p)"
    and s': "s' = s\<lparr>tv_subs := (tv_subs s)\<lparr>sb_working := (sb_working (tv_subs s))(a := True)\<rparr>,
       tv_topics := (tv_topics s)(pb_topic p := Some (tp\<lparr>tp_contents := h'\<rparr>)),
       tv_worker := WRun p (PDeliver (deliveries (map IContent cs) [(a, u)]))\<rparr>"
  shows "views T s'"
  unfolding views_ok_def
proof (intro allI impI conjI ballI)
  have inflight: "inflight s' t b = (if t = pb_topic p \<and> b = a then map IContent cs else [])" for t b
    using deliveries_to [of "[a]" b "map IContent cs" "\<lambda>a. u"] by (auto simp: inflight_def s')
  fix t tp'
  assume tp': "tv_topics s' t = Some tp'" and kind: "Topic_get_type (tp_data tp') = kind"
  show "inv (tp_contents tp') (tp_data tp')"
    using tp' kind viewsD(1) [OF views, of t tp'] viewsD(1) [OF views tp] snap [OF _ _ order [OF tp] snap']
    by (auto simp: s' split: if_splits)
  fix b
  assume b: "b \<in> set (T t)" "sb_working (tv_subs s') b"
  show "good (tp_contents tp') (tp_data tp')
      (see_items see none (tp_contents tp') (outstanding s' t tp' b) (view_of see none (tv_log s') b))"
  proof (cases "t = pb_topic p")
    case True
    then have tp'_eq: "tp' = tp\<lparr>tp_contents := h'\<rparr>" and kind': "Topic_get_type (tp_data tp) = kind"
      using tp' kind by (auto simp: s')
    note law = snap [OF kind' viewsD(1) [OF views tp kind'] order [OF tp] snap']
    show ?thesis
    proof (cases "b = a")
      case True
      have "view_of see none (tv_log s) a = none"
        by (rule view_of_other) (use tv_okD(5) [OF ok] a(1) in \<open>auto simp: log_ok_def\<close>)
      then show ?thesis unfolding inflight using law True \<open>t = pb_topic p\<close> by (simp add: tp'_eq s')
    next
      case False
      then have b': "sb_working (tv_subs s) b" using b(2) by (simp add: s')
      have "inflight s t b = []" using w by (simp add: inflight_def)
      then have "good (tp_contents tp) (tp_data tp)
          (see_all see (tp_contents tp) (topic_pending (tp_data tp)) (view_of see none (tv_log s) b))"
        using viewsD(2) [OF views tp kind' _ b'] b(1) True by simp
      moreover have "topic_keeps see good (tp_contents tp) (tp_data tp) h' (tp_data tp)" using law by blast
      ultimately have "good h' (tp_data tp) (see_all see h' (topic_pending (tp_data tp)) (view_of see none (tv_log s) b))"
        by (metis topic_keepsD)
      then show ?thesis unfolding inflight using False by (simp add: tp'_eq s')
    qed
  next
    case False
    then have "b \<noteq> a" using b(1) a(3) nodes_okD(3) [OF subs_invD(3) [OF tv_okD(1) [OF ok]], of b t] by auto
    then have b': "sb_working (tv_subs s) b" using b(2) by (simp add: s')
    have "inflight s t b = []" using w by (simp add: inflight_def)
    then show ?thesis unfolding inflight using viewsD(2) [OF views _ kind b(1) b'] tp' False by (simp add: s')
  qed
qed

lemma views_deliver:
  assumes ok: "tv_ok T S s" and views: "views T s" and w: "tv_worker s = WRun p (PDeliver (j # js))"
    and s': "s' = s\<lparr>tv_worker := WRun p (PDeliver js), tv_log := tv_log s @ [logged_delivery (pb_topic p) s j]\<rparr>"
  shows "views T s'"
  unfolding views_ok_def
proof (intro allI impI conjI ballI)
  fix t tp
  assume "tv_topics s' t = Some tp" and kind: "Topic_get_type (tp_data tp) = kind"
  then have tp: "tv_topics s t = Some tp" by (simp add: s')
  show "inv (tp_contents tp) (tp_data tp)" by (rule viewsD(1) [OF views tp kind])
  fix a
  assume a: "a \<in> set (T t)" "sb_working (tv_subs s') a"
  have old: "good (tp_contents tp) (tp_data tp)
      (see_items see none (tp_contents tp) (outstanding s t tp a) (view_of see none (tv_log s) a))"
    using viewsD(2) [OF views tp kind a(1)] a(2) by (simp add: s')
  have log: "view_of see none (tv_log s') a = (if dv_node j = a
      then see_logged see none (logged_delivery (pb_topic p) s j) (view_of see none (tv_log s) a) else view_of see none (tv_log s) a)"
    by (simp add: view_of_def s' logged_delivery_def)
  show "good (tp_contents tp) (tp_data tp)
      (see_items see none (tp_contents tp) (outstanding s' t tp a) (view_of see none (tv_log s') a))"
  proof (cases "dv_node j = a")
    case True
    have "delivery_ok s (pb_topic p) j" using tv_okD(4) [OF ok] w by (simp add: worker_ok_def)
    then have t: "t = pb_topic p"
      using True nodes_okD(3) [OF subs_invD(3) [OF tv_okD(1) [OF ok]] a(1)] by (auto simp: delivery_ok_def)
    have "inflight s t a = dv_item j # inflight s' t a" using w t True by (simp add: inflight_def s')
    moreover have "see_logged see none (logged_delivery (pb_topic p) s j) v = see_item see none (tp_contents tp) (dv_item j) v" for v
      using tp t by (cases "dv_item j") (simp_all add: see_logged_def see_item_def logged_delivery_def)
    ultimately show ?thesis using old True log by simp
  next
    case False
    then have "inflight s t a = inflight s' t a" using w by (simp add: inflight_def s')
    then show ?thesis using old False log by simp
  qed
qed

lemma views_deliver_all:
  assumes ok: "tv_ok T S s" and views: "views T s" and w: "tv_worker s = WRun p ph"
    and ph: "\<And>a. inflight s (pb_topic p) a = filter (\<lambda>i. i \<noteq> IErase) items"
    and erase: "items = [IErase] \<or> IErase \<notin> set items"
    and s': "s' = s\<lparr>tv_worker := WRun p (PDeliver (deliveries items
      (map (\<lambda>a. (a, the (sb_subscriber (tv_subs s) a))) (filter (sb_working (tv_subs s)) (T (pb_topic p))))))\<rparr>"
  shows "views T s'"
  unfolding views_ok_def
proof (intro allI impI conjI ballI)
  fix t tp
  assume "tv_topics s' t = Some tp" and kind: "Topic_get_type (tp_data tp) = kind"
  then have tp: "tv_topics s t = Some tp" by (simp add: s')
  show "inv (tp_contents tp) (tp_data tp)" by (rule viewsD(1) [OF views tp kind])
  fix a
  assume a: "a \<in> set (T t)" "sb_working (tv_subs s') a"
  have old: "good (tp_contents tp) (tp_data tp)
      (see_items see none (tp_contents tp) (outstanding s t tp a) (view_of see none (tv_log s) a))"
    using viewsD(2) [OF views tp kind a(1)] a(2) by (simp add: s')
  have "distinct (filter (sb_working (tv_subs s)) (T (pb_topic p)))"
    using lists_distinct(1) [OF tv_okD(1) [OF ok]] by simp
  note to = deliveries_to [OF this, of a items "\<lambda>a. the (sb_subscriber (tv_subs s) a)"]
  show "good (tp_contents tp) (tp_data tp)
      (see_items see none (tp_contents tp) (outstanding s' t tp a) (view_of see none (tv_log s') a))"
  proof (cases "t = pb_topic p")
    case True
    then have new: "inflight s' t a = items" using to a by (simp add: inflight_def s')
    show ?thesis
    proof (cases "items = [IErase]")
      case True
      then show ?thesis using old ph [of a] new \<open>t = pb_topic p\<close> by (simp add: s' see_item_def)
    next
      case False
      then have "filter (\<lambda>i. i \<noteq> IErase) items = items" using erase by (auto simp: filter_id_conv)
      then show ?thesis using old ph [of a] new \<open>t = pb_topic p\<close> by (simp add: s')
    qed
  next
    case False
    then have "inflight s' t a = inflight s t a" using w by (simp add: inflight_def s')
    then show ?thesis using old by (simp add: s')
  qed
qed

text \<open>Every step keeps the server well formed and its subscribers up to date.\<close>

lemma kept:
  assumes "tv_ok T' S' s'" "views T' s'" "lists_shrink T (tv_subs s) T' (tv_subs s')"
  shows "\<exists>T' S'. tv_ok T' S' s' \<and> views T' s' \<and> lists_shrink T (tv_subs s) T' (tv_subs s')"
  using assms by blast

lemmas kept_same = kept [OF _ _ lists_shrink_same]

lemma worker_step_views:
  assumes ok: "tv_ok T S s" and views: "views T s" and free: "sb_node (tv_subs s) 0 = None"
    and order: "\<And>p tp. tv_worker s = WRun p PStart \<Longrightarrow> tv_topics s (pb_topic p) = Some tp \<Longrightarrow> snap_order ks (tp_data tp)"
    and run: "worker_step get_id ks s = Some (Ok s')"
  shows "\<exists>T' S'. tv_ok T' S' s' \<and> views T' s' \<and> lists_shrink T (tv_subs s) T' (tv_subs s')"
proof (cases "tv_worker s")
  case WIdle
  then have "worker_pop s = Some (Ok s')" using run by (simp add: worker_step_def)
  from worker_pop_ok [OF ok WIdle this] obtain p rest b where s': "s' = s\<lparr>tv_subs := b, tv_queue := rest, tv_worker := WRun p PStart\<rparr>"
    "sb_working b = sb_working (tv_subs s)" "sb_alive b = sb_alive (tv_subs s)" and ok': "tv_ok T S s'" by blast
  have "views T s'" by (rule views_ok_same [OF views]) (use s'(2) WIdle in \<open>auto simp: s'(1) inflight_def\<close>)
  then show ?thesis by (rule kept_same [OF ok']) (simp add: s'(1,3))
next
  case (WRun p ph)
  show ?thesis
  proof (cases ph)
    case PStart
    note w = WRun [unfolded PStart] and step = run [unfolded worker_step_def WRun PStart, simplified]
    have finished: "\<exists>T' S'. tv_ok T' S' s' \<and> views T' s' \<and> lists_shrink T (tv_subs s) T' (tv_subs s')"
      if "s' = s\<lparr>tv_worker := WRun p PDone\<rparr>" "tv_ok T S s'"
    proof -
      have "views T s'" by (rule views_ok_same [OF views]) (use w that(1) in \<open>auto simp: inflight_def\<close>)
      then show ?thesis by (rule kept_same [OF that(2)]) (simp add: that(1))
    qed
    show ?thesis
    proof (cases "pb_mode p")
      case PublishSnap
      then obtain a where a: "pb_subscription p = Some a" "publish_snap ks (pb_topic p) a s = Ok s'"
        using step by (auto split: option.splits)
      show ?thesis
      proof (rule publish_snap_ok [OF ok w a(1) order [OF w] a(2)])
        fix tp u h' cs
        assume "tv_topics s (pb_topic p) = Some tp" "Topic_do_snap ks (tp_contents tp) (tp_data tp) = (h', cs)"
          "sb_alive (tv_subs s) a" "\<not> sb_working (tv_subs s) a" "sb_topic (tv_subs s) a = Some (pb_topic p)"
        note snap = this
        assume s': "s' = s\<lparr>tv_subs := (tv_subs s)\<lparr>sb_working := (sb_working (tv_subs s))(a := True)\<rparr>,
          tv_topics := (tv_topics s)(pb_topic p := Some (tp\<lparr>tp_contents := h'\<rparr>)),
          tv_worker := WRun p (PDeliver (deliveries (map IContent cs) [(a, u)]))\<rparr>" and "tv_ok T S s'"
        then show ?thesis using views_snap [OF ok views w order [OF w] snap(1,2,4,3,5) s'] by (intro kept_same) simp_all
      qed (assumption, use finished in blast)
    next
      case PublishNew
      then have step: "publish_new_move get_id (pb_topic p) s = Ok s'" using step by simp
      show ?thesis
      proof (rule publish_new_move_ok [OF ok w step])
        fix tp ns d'
        assume "tv_topics s (pb_topic p) = Some tp" "Topic_do_move get_id (tp_contents tp) (tp_data tp) = Some (ns, d')"
        note tp = this
        assume s': "s' = s\<lparr>tv_topics := (tv_topics s)(pb_topic p := Some (tp\<lparr>tp_data := d'\<rparr>)), tv_worker := WRun p (PMoved ns)\<rparr>"
          and "tv_ok T S s'"
        then show ?thesis using views_move [OF views w tp s'] by (intro kept_same) simp_all
      qed (use finished in blast)
    next
      case EraseTopic
      then have step: "deliver_all (pb_topic p) [IErase] s = Some (Ok s')" using step by simp
      note all = deliver_all_ok [OF ok w step]
      have "views T s'" by (rule views_deliver_all [OF ok views w _ _ all(1)]) (use w in \<open>simp_all add: inflight_def\<close>)
      then show ?thesis by (intro kept_same) (use all in auto)
    next
      case ClearContent
      then have step: "publish_clear_move (pb_topic p) s = Ok s'" using step by simp
      show ?thesis
      proof (rule publish_clear_move_ok [OF ok w step])
        fix tp
        assume tp: "tv_topics s (pb_topic p) = Some tp"
          and s': "s' = s\<lparr>tv_topics := (tv_topics s)(pb_topic p := Some (tp\<lparr>tp_data := Topic_do_clear (tp_data tp)\<rparr>)), tv_worker := WRun p PCleared\<rparr>"
          and "tv_ok T S s'"
        then show ?thesis using views_clear [OF views w tp s'] by (intro kept_same) simp_all
      qed
    qed
  next
    case (PMoved ns)
    note w = WRun [unfolded PMoved]
    have step: "deliver_all (pb_topic p) (map IContent ns) s = Some (Ok s')" using run w by (simp add: worker_step_def)
    have "\<forall>c \<in> set ns. has_content (tv_topics s) (pb_topic p) c" using tv_okD(4) [OF ok] w by (simp add: worker_ok_def)
    then have all: "s' = s\<lparr>tv_worker := WRun p (PDeliver (deliveries (map IContent ns)
        (map (\<lambda>a. (a, the (sb_subscriber (tv_subs s) a))) (filter (sb_working (tv_subs s)) (T (pb_topic p))))))\<rparr>" "tv_ok T S s'"
      by (intro deliver_all_ok [OF ok w step]; auto)+
    have "filter (\<lambda>i. i \<noteq> IErase) (map IContent ns) = map IContent ns" by (induction ns) auto
    then have "views T s'" by (intro views_deliver_all [OF ok views w _ _ all(1)]) (use w in \<open>auto simp: inflight_def\<close>)
    then show ?thesis by (rule kept_same [OF all(2)]) (simp add: all(1))
  next
    case PCleared
    note w = WRun [unfolded PCleared]
    have step: "deliver_all (pb_topic p) [IClear] s = Some (Ok s')" using run w by (simp add: worker_step_def)
    note all = deliver_all_ok [OF ok w step]
    have "views T s'" by (rule views_deliver_all [OF ok views w _ _ all(1)]) (use w in \<open>simp_all add: inflight_def\<close>)
    then show ?thesis by (intro kept_same) (use all in auto)
  next
    case (PDeliver js)
    show ?thesis
    proof (cases js)
      case Nil
      note w = WRun [unfolded PDeliver Nil]
      show ?thesis
      proof (cases "pb_mode p = EraseTopic")
        case True
        then have step: "wbind (Topic_clear 0 (pb_topic p) (tv_subs s)) (\<lambda>b. Some (Ok (set_phase PDone (s\<lparr>tv_subs := b\<rparr>)))) = Some (Ok s')"
          using run w by (simp add: worker_step_def)
        from erase_end_ok [OF ok w free step] obtain b where b: "s' = s\<lparr>tv_subs := b, tv_worker := WRun p PDone\<rparr>"
          "sb_working b = sb_working (tv_subs s)" "sb_alive b = sb_alive (tv_subs s)"
          and ok': "tv_ok (T(pb_topic p := [])) (\<lambda>u. filter (\<lambda>a. a \<notin> set (T (pb_topic p))) (S u)) s'" by blast
        have "views (T(pb_topic p := [])) s'"
          by (rule views_ok_same [OF views]) (use w b(2) in \<open>auto simp: b(1) inflight_def split: if_splits\<close>)
        then show ?thesis by (rule kept [OF ok']) (simp add: b(1,3) lists_shrink_def)
      next
        case False
        then have s': "s' = s\<lparr>tv_worker := WRun p PDone\<rparr>" using run w by (simp add: worker_step_def)
        have ok': "tv_ok T S s'" unfolding s' by (rule tv_ok_phase [OF ok w]) simp_all
        have "views T s'" by (rule views_ok_same [OF views]) (use w in \<open>auto simp: s' inflight_def\<close>)
        then show ?thesis by (rule kept_same [OF ok']) (simp add: s')
      qed
    next
      case (Cons j rest)
      note w = WRun [unfolded PDeliver Cons]
      have s': "s' = s\<lparr>tv_worker := WRun p (PDeliver rest), tv_log := tv_log s @ [logged_delivery (pb_topic p) s j]\<rparr>"
        using run w by (auto simp: worker_step_def set_phase_def)
      show ?thesis by (rule kept_same [OF deliver_ok [OF ok w s'] views_deliver [OF ok views w s']]) (simp add: s')
    qed
  next
    case PDone
    note w = WRun [unfolded PDone]
    have "obind (AutoRefPtr_destroy (sb_msg (tv_subs s)) ((tv_subs s)\<lparr>sb_msg := None\<rparr>))
        (\<lambda>b. Ok (s\<lparr>tv_subs := b, tv_worker := WIdle\<rparr>)) = Ok s'"
      using run w by (simp add: worker_step_def)
    from worker_done_ok [OF ok w this] obtain b where b: "s' = s\<lparr>tv_subs := b, tv_worker := WIdle\<rparr>"
      "sb_working b = sb_working (tv_subs s)" "sb_alive b = sb_alive (tv_subs s)" and ok': "tv_ok T S s'" by blast
    have "views T s'" by (rule views_ok_same [OF views]) (use w b(2) in \<open>auto simp: b(1) inflight_def\<close>)
    then show ?thesis by (rule kept_same [OF ok']) (simp add: b(1,3))
  qed
qed

lemma tv_step_views:
  assumes "tv_step get_id s s'" "tv_ok T S s" "views T s"
  shows "\<exists>T' S'. tv_ok T' S' s' \<and> views T' s' \<and> lists_shrink T (tv_subs s) T' (tv_subs s')"
  using assms
proof (induction rule: tv_step.induct)
  case (st_make s t key kind')
  show ?case
    by (rule kept_same [OF get_topic_make_ok [OF st_make(3,1,2)] views_make [OF st_make(3,4,1,2)]])
      (simp add: get_topic_def topic_make_def Let_def st_make(2))
next
  case (st_unmap s key)
  have s': "fst (pop_topic key s) = s\<lparr>tv_map := (tv_map s)(key := None)\<rparr>"
    by (cases "tv_map s key"; cases s) (auto simp: pop_topic_def)
  show ?case
    unfolding s'
    by (rule kept_same [OF unmap_ok [OF st_unmap(1)] views_ok_same [OF st_unmap(2)]])
      (simp_all add: inflight_def split: if_splits)
next
  case (st_unmap_all s m)
  show ?case
    by (rule kept_same [OF unmap_ok [OF st_unmap_all(1)] views_ok_same [OF st_unmap_all(2)]])
      (simp_all add: inflight_def split: if_splits)
next
  case (st_publisher s t mode)
  have "tv_ok T S (s\<lparr>tv_posting := Publisher_of t mode # tv_posting s\<rparr>)"
    using st_publisher(1,2) by (intro publisher_made_ok [OF st_publisher(3)]) (auto simp: publisher_ok_def Publisher_of_def)
  then show ?case
    by (rule kept_same [OF _ views_ok_same [OF st_publisher(4)]]) (simp_all add: inflight_def)
next
  case (st_post p s s')
  have "s' = s\<lparr>tv_posting := remove1 p (tv_posting s), tv_queue := tv_queue s @ [p]\<rparr>"
    using st_post(2) by (auto simp: post_def split: if_splits)
  then show ?case
    by (intro kept_same [OF post_ok [OF st_post(3,1,2)] views_ok_same [OF st_post(4)]]) (simp_all add: inflight_def)
next
  case (st_append t obj remove_obj s s')
  have "tv_subs s' = tv_subs s"
    using st_append(1) by (auto simp: append_new_def with_topic_def split: option.splits prod.splits)
  then show ?case
    by (intro kept_same [OF append_new_ok [OF st_append(2,1)] views_append_new [OF st_append(2,3,1)]]) simp
next
  case (st_found t k s c)
  show ?case
    by (rule kept_same [OF find_object_ok [OF st_found(2,1)] views_ok_same [OF st_found(3)]]) (simp_all add: inflight_def)
next
  case (st_mark t c s s')
  have "tv_subs s' = tv_subs s" using st_mark(2) by (auto simp: mark_removed_def with_topic_def split: option.splits)
  then show ?case
    by (intro kept_same [OF mark_removed_ok [OF st_mark(3,2)] views_mark_removed [OF st_mark(3,4,1,2)]]) simp
next
  case (st_remove t c s s')
  have "tv_subs s' = tv_subs s"
    using st_remove(2) by (auto simp: append_content_def with_topic_def split: option.splits prod.splits)
  then show ?case
    by (intro kept_same [OF append_content_ok [OF st_remove(3,1,2)] views_append_content [OF st_remove(3,4,1,2)]]) simp
next
  case (st_reserve s a t u s' p)
  from topic_reserve_ok [OF st_reserve(4,1,3)] show ?case
  proof
    assume "p = None \<and> s' = s"
    then have "(if p = None then s' else s'\<lparr>tv_posting := Publisher_snap t p # tv_posting s'\<rparr>) = s" by simp
    then show ?thesis using kept_same [OF st_reserve(4,5) refl] by simp
  next
    let ?s = "s'\<lparr>tv_posting := Publisher_snap t p # tv_posting s'\<rparr>"
    let ?T = "T(t := topic_list_add a t (tv_subs s) (T t))"
    assume r: "p = Some a \<and> tv_topics s t \<noteq> None \<and> s' = s\<lparr>tv_subs := subscribed a t u (tv_subs s)\<rparr> \<and>
      tv_ok ?T (S(u := a # S u)) ?s"
    have "views ?T ?s"
      by (rule views_ok_same [OF st_reserve(5)])
        (use r in \<open>auto simp: subscribed_sel topic_list_add_def inflight_def split: if_splits\<close>)
    moreover have "lists_shrink T (tv_subs s) ?T (tv_subs ?s)"
      using r st_reserve(1) by (auto simp: lists_shrink_def subscribed_sel topic_list_add_def split: if_splits)
    moreover have "(if p = None then s' else ?s) = ?s" using r by simp
    moreover have "tv_ok ?T (S(u := a # S u)) ?s" using r by blast
    ultimately show ?thesis using kept [of ?T "S(u := a # S u)" ?s T s] by presburger
  qed
next
  case (st_subscriber ob s b)
  note keeps = subscriber_op_keeps [OF tv_okD(1) [OF st_subscriber(5)] st_subscriber(1,2,4)]
  have "views (topic_lists ob (tv_subs s) T S) (s\<lparr>tv_subs := b\<rparr>)"
    by (rule views_ok_same [OF st_subscriber(6)]) (use keeps(2,3) in \<open>auto simp: subs_keeps_def inflight_def\<close>)
  moreover have "lists_shrink T (tv_subs s) (topic_lists ob (tv_subs s) T S) b"
    using keeps(2,3) by (auto simp: lists_shrink_def subs_keeps_def)
  ultimately show ?case by (intro kept [OF subscriber_op_ok [OF st_subscriber(5,1,2,4)]]) simp_all
next
  case (st_destroy s t th b)
  have keeps: "subs_keeps (tv_subs s) b" using Topic_clear_ok(2) [OF tv_okD(1) [OF st_destroy(5)] st_destroy(3,4)] .
  then have "views (T(t := [])) (s\<lparr>tv_subs := b, tv_topics := (tv_topics s)(t := None)\<rparr>)"
    by (intro views_ok_same [OF st_destroy(6)]) (auto simp: subs_keeps_def inflight_def split: if_splits)
  moreover have "lists_shrink T (tv_subs s) (T(t := [])) b" using keeps by (auto simp: lists_shrink_def subs_keeps_def)
  ultimately show ?case by (intro kept [OF destroy_ok [OF st_destroy(5,1,3,4)]]) simp_all
next
  case (st_worker s ks s')
  show ?case by (rule worker_step_views [OF st_worker(4,5,1) _ st_worker(3)]) (rule st_worker(2))
qed

lemma tv_reach_views: "tv_reach get_id s \<Longrightarrow> \<exists>T S. tv_ok T S s \<and> views T s"
proof (induction rule: tv_reach.induct)
  case tv_reach_start
  have "views (\<lambda>t. []) TopicServer_new" by (simp add: views_ok_def TopicServer_new_def)
  then show ?case using TopicServer_new_ok by blast
next
  case (tv_reach_step s s')
  then show ?case using tv_step_views [OF tv_reach_step(2)] by blast
qed

end

section \<open>Properties\<close>

text \<open>The calls of a subscription so far, and the contents among them since it was last told to clear.\<close>

definition sent :: "'o logged list \<Rightarrow> nat \<Rightarrow> item list" where
  "sent log a = map (\<lambda>l. dv_item (lg_delivery l)) (filter (\<lambda>l. dv_node (lg_delivery l) = a) log)"

definition since_clear :: "item list \<Rightarrow> nat list" where
  "since_clear is = fold (\<lambda>i cs. case i of IContent c \<Rightarrow> cs @ [c] | IClear \<Rightarrow> [] | IErase \<Rightarrow> cs) is []"

lemma since_clear_simps [simp]:
  "since_clear [] = []"
  "since_clear (is @ [IContent c]) = since_clear is @ [c]"
  "since_clear (is @ [IClear]) = []"
  "since_clear (is @ [IErase]) = since_clear is"
  by (simp_all add: since_clear_def)

lemma since_clear_contents [simp]: "since_clear (is @ map IContent cs) = since_clear is @ cs"
proof (induction cs rule: rev_induct)
  case (snoc c cs)
  then show ?case using since_clear_simps(2) [of "is @ map IContent cs" c] by simp
qed simp

text \<open>A view that is a function of the contents since the last clear.\<close>

lemma see_items_since_clear:
  assumes see: "\<And>c x cs. see c x (f cs) = f (cs @ [c])" and none: "f [] = none"
  shows "see_items see none h is (f (since_clear is')) = f (since_clear (is' @ is))"
proof (induction "is" arbitrary: is')
  case (Cons i "is")
  have "see_item see none h i (f (since_clear is')) = f (since_clear (is' @ [i]))"
    by (cases i) (simp_all add: see_item_def see none)
  then show ?case using Cons [of "is' @ [i]"] by simp
qed simp

lemma view_of_since_clear:
  assumes see: "\<And>c x cs. see c x (f cs) = f (cs @ [c])" and none: "f [] = none"
    and log: "\<And>l c. l \<in> set log \<Longrightarrow> dv_item (lg_delivery l) = IContent c \<Longrightarrow> lg_content l \<noteq> None"
  shows "view_of see none log a = f (since_clear (sent log a))"
  using log
proof (induction log rule: rev_induct)
  case Nil
  show ?case by (simp add: view_of_def sent_def none)
next
  case (snoc l log)
  show ?case
  proof (cases "dv_node (lg_delivery l) = a")
    case True
    have "see_logged see none l (f (since_clear (sent log a))) = f (since_clear (sent log a @ [dv_item (lg_delivery l)]))"
      using snoc.prems [of l] by (cases "dv_item (lg_delivery l)") (auto simp: see_logged_def see none)
    then show ?thesis using snoc True by (simp add: view_of_def sent_def)
  qed (use snoc in \<open>simp add: view_of_def sent_def\<close>)
qed

lemma sent_view:
  assumes see: "\<And>c x cs. see c x (f cs) = f (cs @ [c])" and none: "f [] = none"
    and log: "\<And>l c. l \<in> set log \<Longrightarrow> dv_item (lg_delivery l) = IContent c \<Longrightarrow> lg_content l \<noteq> None"
  shows "see_items see none h is (view_of see none log a) = f (since_clear (sent log a @ is))"
proof -
  have "view_of see none log a = f (since_clear (sent log a))" by (rule view_of_since_clear [OF see none log])
  then show ?thesis using see_items_since_clear [of see f none h "is", OF see none] by simp
qed

lemma log_okD: "log_ok s \<Longrightarrow> l \<in> set (tv_log s) \<Longrightarrow> dv_item (lg_delivery l) = IContent c \<Longrightarrow> lg_content l \<noteq> None"
  by (simp add: log_ok_def)

text \<open>The walk of \<open>publish_new\<close> as a set: the subscriptions at work that the topic reaches.\<close>

lemma working_nodes_in:
  assumes "tv_ok T S s" "working_nodes (tv_subs s) (sb_head (tv_subs s) t) = Some (Ok ns)" "(a, u) \<in> set ns"
  shows "a \<in> set (T t)" "sb_working (tv_subs s) a"
proof -
  note inv = tv_okD(1) [OF assms(1)]
  have "sb_alive (tv_subs s) a \<and> sb_subscriber (tv_subs s) a \<noteq> None" if "a \<in> set (T t)" for a
    using nodes_okD(2,3) [OF subs_invD(3) [OF inv], of a] that by auto
  then have "ns = map (\<lambda>a. (a, the (sb_subscriber (tv_subs s) a))) (filter (sb_working (tv_subs s)) (T t))"
    using working_nodes_path [OF sub_paths(1) [OF inv, of t]] assms(2) by simp
  then show "a \<in> set (T t)" "sb_working (tv_subs s) a" using assms(3) by auto
qed

definition object_view :: "('o \<Rightarrow> 'k) \<Rightarrow> 'o logged list \<Rightarrow> nat \<Rightarrow> 'k \<Rightarrow> nat option" where
  "object_view get_id log a = view_of (see_set get_id) (\<lambda>k. None) log a"

text \<open>
  A subscription of a topic that keeps the history: what it has been sent, and what the
  publishing thread has in its hands for it.
\<close>

lemma seq_topic_sent:
  assumes "tv_reach get_id s" and "tv_topics s t = Some tp" and "tp_data tp = SeqTopic snap new"
    and "working_nodes (tv_subs s) (sb_head (tv_subs s) t) = Some (Ok ns)" and "(a, u) \<in> set ns"
  shows "since_clear (sent (tv_log s) a @ inflight s t a) = snap" and "\<exists>k. snap @ new = [k..<length (tp_contents tp)]"
proof -
  obtain T S where ok: "tv_ok T S s" and views: "views_ok SeqKind see_seq [] seq_inv seq_good T s"
    using seq_topic.tv_reach_views [OF assms(1)] by blast
  note a = working_nodes_in [OF ok assms(4,5)]
  have kind: "Topic_get_type (tp_data tp) = SeqKind" by (simp add: assms(3))
  have "see_items see_seq [] (tp_contents tp) (outstanding s t tp a) (view_of see_seq [] (tv_log s) a)
      = since_clear (sent (tv_log s) a @ outstanding s t tp a)"
    by (rule sent_view [where f = "\<lambda>cs. cs"]) (use log_okD [OF tv_okD(5) [OF ok]] in \<open>auto simp: see_seq_def\<close>)
  then have "since_clear (sent (tv_log s) a @ inflight s t a) @ new = snap @ new"
    using seq_topic.viewsD(2) [OF views assms(2) kind a] assms(3) by (simp flip: append_assoc del: see_items_simps)
  then show "since_clear (sent (tv_log s) a @ inflight s t a) = snap" by simp
  show "\<exists>k. snap @ new = [k..<length (tp_contents tp)]"
    using seq_topic.viewsD(1) [OF views assms(2) kind] assms(3) by auto
qed




text \<open>
  A run: a topic of any kind, a content, a subscriber whose snapshot is being sent. \<open>kind\<close> is
  the kind of the topic, 1 its address, 5 the one of the subscription.
\<close>

definition sample_topic :: "topic_kind \<Rightarrow> (nat, nat) tserver" where
  "sample_topic kind = fst (get_topic 3 (IntTopic 9) (Some kind) TopicServer_new)"

definition sample_content :: "topic_kind \<Rightarrow> (nat, nat) topic" where
  "sample_content kind =
     (let (h, d) = Topic_append (\<lambda>x. x) 0 [\<lparr>ct_object = 7, ct_timestamp = v_insert\<rparr>] (Topic_make kind)
      in \<lparr>tp_id = IntTopic 9, tp_data = d, tp_contents = h\<rparr>)"

definition sample_published :: "topic_kind \<Rightarrow> (nat, nat) tserver" where
  "sample_published kind = (sample_topic kind)\<lparr>tv_topics := (tv_topics (sample_topic kind))(3 := Some (sample_content kind))\<rparr>"

definition sample_reserved :: "topic_kind \<Rightarrow> (nat, nat) tserver" where
  "sample_reserved kind = (sample_published kind)\<lparr>
     tv_subs := subscribed 5 3 2 (tv_subs (sample_published kind)), tv_posting := [Publisher_snap 3 (Some 5)]\<rparr>"

definition sample_posted :: "topic_kind \<Rightarrow> (nat, nat) tserver" where
  "sample_posted kind = (sample_reserved kind)\<lparr>tv_posting := [], tv_queue := [Publisher_snap 3 (Some 5)]\<rparr>"

definition sample_popped :: "topic_kind \<Rightarrow> (nat, nat) tserver" where
  "sample_popped kind = (let b = tv_subs (sample_posted kind) in (sample_posted kind)\<lparr>
     tv_subs := b\<lparr>sb_ref := (sb_ref b)(5 := sb_ref b 5 + 1), sb_msg := Some 5\<rparr>,
     tv_queue := [], tv_worker := WRun (Publisher_snap 3 (Some 5)) PStart\<rparr>)"

definition sample_confirmed :: "topic_kind \<Rightarrow> (nat, nat) tserver" where
  "sample_confirmed kind = (let b = tv_subs (sample_popped kind) in (sample_popped kind)\<lparr>
     tv_subs := b\<lparr>sb_working := (sb_working b)(5 := True)\<rparr>,
     tv_topics := (tv_topics (sample_popped kind))(3 := Some (sample_content kind)),
     tv_worker := WRun (Publisher_snap 3 (Some 5)) (PDeliver [])\<rparr>)"

lemmas sample_defs = sample_confirmed_def sample_popped_def sample_posted_def sample_reserved_def sample_published_def
  sample_topic_def Let_def

lemma sample_topic_sel [simp]:
  "tv_subs (sample_topic kind) = no_subs" "tv_map (sample_topic kind) = (\<lambda>k. None)(IntTopic 9 := Some 3)"
  "tv_topics (sample_topic kind) = (\<lambda>t. None)(3 := Some \<lparr>tp_id = IntTopic 9, tp_data = Topic_make kind, tp_contents = []\<rparr>)"
  "tv_queue (sample_topic kind) = []" "tv_posting (sample_topic kind) = []" "tv_worker (sample_topic kind) = WIdle"
  "tv_log (sample_topic kind) = []" "tv_removing (sample_topic kind) = []"
proof -
  have "no_subs\<lparr>sb_head := (sb_head no_subs)(3 := None), sb_tail := (sb_tail no_subs)(3 := None)\<rparr> = no_subs"
    by (simp add: no_subs_def fun_eq_iff)
  then show "tv_subs (sample_topic kind) = no_subs"
    by (simp add: sample_topic_def get_topic_def topic_make_def Let_def TopicServer_new_def)
qed (simp_all add: sample_topic_def get_topic_def topic_make_def Let_def TopicServer_new_def fun_eq_iff)

lemma sample_data:
  "tp_data (sample_content kind) = (case kind of OneKind \<Rightarrow> OneTopic None (Some 0) | SeqKind \<Rightarrow> SeqTopic [] [0]
      | SetKind \<Rightarrow> SetTopic (\<lambda>k. None) ((\<lambda>k. None)(7 := Some 0)) [0] | PopKind \<Rightarrow> PopTopic [0])"
  by (cases kind) (simp_all add: sample_content_def SetTopic_append_def content_removed_def ts_removed_def timestamp_defs)

lemma sample_confirmed_reach:
  "tv_reach (\<lambda>x. x) (sample_confirmed kind)"
proof -
  have r1: "tv_reach (\<lambda>x. x) (sample_topic kind)"
    unfolding sample_topic_def
    by (rule tv_reach_step [OF tv_reach_start st_make]) (simp_all add: TopicServer_new_def)
  have "append_new (\<lambda>x. x) 3 7 False (sample_topic kind) = Ok (sample_published kind)"
    by (simp add: append_new_def with_topic_def sample_published_def sample_content_def v_insert_def Let_def split: prod.splits)
  then have r2: "tv_reach (\<lambda>x. x) (sample_published kind)" using tv_reach_step [OF r1 st_append] by blast
  have fresh: "\<not> sb_alive (tv_subs (sample_published kind)) 5" by (simp add: sample_published_def no_subs_def)
  have "topic_reserve 5 3 2 (sample_published kind) =
      Some (Ok ((sample_published kind)\<lparr>tv_subs := subscribed 5 3 2 (tv_subs (sample_published kind))\<rparr>, Some 5))"
    using Topic_reserve_subscribe_inv [OF no_subs_ok, of 5 3 2]
    by (simp add: topic_reserve_def with_topic_def sample_published_def no_subs_def)
  from tv_reach_step [OF r2 st_reserve [OF fresh _ this]]
  have r3: "tv_reach (\<lambda>x. x) (sample_reserved kind)"
    by (simp add: publishing_def sample_reserved_def sample_published_def)
  have "post (Publisher_snap 3 (Some 5)) ((sample_reserved kind)\<lparr>tv_posting := remove1 (Publisher_snap 3 (Some 5)) (tv_posting (sample_reserved kind))\<rparr>)
      = Some (Ok (sample_posted kind))"
    by (simp add: post_def sample_posted_def sample_reserved_def sample_published_def default_capacity_def)
  from tv_reach_step [OF r3 st_post [OF _ this]]
  have r4: "tv_reach (\<lambda>x. x) (sample_posted kind)" by (simp add: sample_reserved_def)
  have "worker_step (\<lambda>x. x) [] (sample_posted kind) = Some (Ok (sample_popped kind))"
    by (simp add: worker_step_def worker_pop_def sample_posted_def sample_popped_def sample_reserved_def sample_published_def
        Publisher_snap_def AutoRefPtr_move_assign_def AutoRefPtr_reset_def AutoRefPtr_add_ref_def AutoRefPtr_destroy_def
        add_ref_eq subscribed_sel Let_def)
      (simp add: subscribed_def no_subs_def Let_def add_ref_def with_node_def Atomic_pre_inc_def exchange_add_def)
  from tv_reach_step [OF r4 st_worker [OF _ _ this]]
  have r5: "tv_reach (\<lambda>x. x) (sample_popped kind)"
    by (simp add: sample_posted_def sample_reserved_def sample_published_def subscribed_def no_subs_def Let_def)
  have order: "snap_order [] (tp_data (sample_content kind))" by (cases kind) (simp_all add: sample_data)
  have snap: "Topic_do_snap [] (tp_contents (sample_content kind)) (tp_data (sample_content kind)) =
      (tp_contents (sample_content kind), [])"
    by (cases kind) (simp_all add: sample_data)
  have popped: "tv_worker (sample_popped kind) = WRun (Publisher_snap 3 (Some 5)) PStart"
      "tv_topics (sample_popped kind) 3 = Some (sample_content kind)"
      "sb_alive (tv_subs (sample_popped kind)) 5" "sb_subscriber (tv_subs (sample_popped kind)) 5 = Some 2"
    by (simp_all add: sample_popped_def sample_posted_def sample_reserved_def sample_published_def Let_def)
      (simp_all add: subscribed_def Let_def)
  have same: "(sample_content kind)\<lparr>tp_contents := tp_contents (sample_content kind)\<rparr> = sample_content kind" by simp
  have "worker_step (\<lambda>x. x) [] (sample_popped kind) = Some (publish_snap [] 3 5 (sample_popped kind))"
    by (simp add: worker_step_def popped Publisher_snap_def)
  also have "publish_snap [] 3 5 (sample_popped kind) = Ok (sample_confirmed kind)"
    unfolding publish_snap_def sample_confirmed_def Let_def
    by (simp only: with_topic_def with_node_def confirm_subscribe_def popped snap same option.case if_True obind_simps prod.case)
      (simp add: set_phase_def popped(1) deliveries_def)
  finally have step: "worker_step (\<lambda>x. x) [] (sample_popped kind) = Some (Ok (sample_confirmed kind))" .
  show ?thesis
  proof (rule tv_reach_step [OF r5 st_worker [OF _ _ step]])
    show "sb_node (tv_subs (sample_popped kind)) 0 = None"
      by (simp add: sample_popped_def sample_posted_def sample_reserved_def sample_published_def Let_def)
        (simp add: subscribed_def no_subs_def Let_def)
    show "snap_order [] (tp_data tp)"
      if "tv_worker (sample_popped kind) = WRun p PStart" "tv_topics (sample_popped kind) (pb_topic p) = Some tp" for p tp
      using that order popped(1,2) by (auto simp: Publisher_snap_def)
  qed
qed

lemma sample_confirmed_sel:
  "tv_topics (sample_confirmed kind) 3 = Some (sample_content kind)"
  "working_nodes (tv_subs (sample_confirmed kind)) (sb_head (tv_subs (sample_confirmed kind)) 3) = Some (Ok [(5, 2)])"
  "tv_log (sample_confirmed kind) = []" "inflight (sample_confirmed kind) 3 5 = []"
  "length (tp_contents (sample_content kind)) = 1"
proof -
  have b: "sb_head (tv_subs (sample_confirmed kind)) 3 = Some 5" "sb_alive (tv_subs (sample_confirmed kind)) 5"
      "sb_working (tv_subs (sample_confirmed kind)) 5" "sb_subscriber (tv_subs (sample_confirmed kind)) 5 = Some 2"
      "sb_topic_subscriber_next (tv_subs (sample_confirmed kind)) 5 = None"
    by (simp_all add: sample_confirmed_def sample_popped_def sample_posted_def sample_reserved_def sample_published_def Let_def)
      (simp_all add: subscribed_def no_subs_def Let_def)
  show "working_nodes (tv_subs (sample_confirmed kind)) (sb_head (tv_subs (sample_confirmed kind)) 3) = Some (Ok [(5, 2)])"
    by (simp add: working_nodes.simps [of _ "Some 5"] working_nodes.simps [of _ None] b)
  show "length (tp_contents (sample_content kind)) = 1"
    by (cases kind) (simp_all add: sample_content_def SetTopic_append_def content_removed_def ts_removed_def timestamp_defs)
qed (simp_all add: inflight_def sample_confirmed_def sample_popped_def sample_posted_def sample_reserved_def
    sample_published_def Let_def)




end
