(* ===== verification/Eco_TopicRun.thy ===== *)
theory Eco_TopicRun
  imports Eco_TopicViews
begin

text \<open>
  What the publishing thread gets done: it never meets a null or dangling pointer, every message
  ends after finitely many steps, and with nobody posting the queue runs empty, with all that
  was published delivered.
\<close>

section \<open>The publishing thread is never in an unsubscription\<close>

text \<open>Only a thread that finds a subscription to erase is registered with it.\<close>

lemma tslot_write_erasing: "tslot_write q v b = Ok b' \<Longrightarrow> sb_erasing_nodes b' = sb_erasing_nodes b"
  by (induction q v b rule: tslot_write.induct) (auto simp: with_node_def split: if_splits)

lemma sslot_write_erasing: "sslot_write q v b = Ok b' \<Longrightarrow> sb_erasing_nodes b' = sb_erasing_nodes b"
  by (induction q v b rule: sslot_write.induct) (auto simp: with_node_def split: if_splits)

lemma add_ref_erasing: "add_ref a b = Ok b' \<Longrightarrow> sb_erasing_nodes b' = sb_erasing_nodes b"
  by (auto simp: add_ref_def with_node_def split: if_splits)

lemma del_ref_erasing: "del_ref a b = Ok b' \<Longrightarrow> sb_erasing_nodes b' = sb_erasing_nodes b"
  by (auto simp: del_ref_def with_node_def Let_def split: if_splits)

lemma AutoRefPtr_reset_erasing: "AutoRefPtr_reset p p' b = Ok (b', q) \<Longrightarrow> sb_erasing_nodes b' = sb_erasing_nodes b"
  by (auto simp: AutoRefPtr_reset_def AutoRefPtr_add_ref_def obind_eq_Ok split: option.splits
      dest!: add_ref_erasing del_ref_erasing)

lemma unsubscribe_erasing: "unsubscribe a b = Ok b' \<Longrightarrow> sb_erasing_nodes b' = sb_erasing_nodes b"
  by (auto simp: unsubscribe_def erase_subscriber_topic_def erase_topic_subscriber_def clear_erasing_def with_node_def
      obind_eq_Ok split: if_splits option.splits dest!: tslot_write_erasing sslot_write_erasing del_ref_erasing)

lemma Topic_clear_loop_erasing:
  assumes "Topic_clear_loop th b = Some r"
  shows "\<forall>b'. r = Ok b' \<longrightarrow> sb_erasing_nodes b' = sb_erasing_nodes b"
proof (rule Topic_clear_loop.raw_induct [OF _ assms])
  fix f th b r
  assume step: "\<And>th b r. f th b = Some r \<Longrightarrow> \<forall>b'. r = Ok b' \<longrightarrow> sb_erasing_nodes b' = sb_erasing_nodes b"
    and body: "(case sb_node b th of None \<Rightarrow> Some (Ok b) | Some a \<Rightarrow> if \<not> sb_alive b a \<or> sb_subscriber b a = None then Some UB
       else (case unsubscribe a b of Ok s1 \<Rightarrow> f th s1 | Err e \<Rightarrow> Some (Err e) | UB \<Rightarrow> Some UB)) = Some r"
  show "\<forall>b'. r = Ok b' \<longrightarrow> sb_erasing_nodes b' = sb_erasing_nodes b"
    using body by (auto split: option.splits if_splits outcome.splits dest!: step unsubscribe_erasing)
qed

lemma Topic_clear_erasing: "Topic_clear th t b = Some (Ok b') \<Longrightarrow> sb_erasing_nodes b' = sb_erasing_nodes b"
  by (auto simp: Topic_clear_def obind_eq_Ok split: option.splits if_splits dest!: Topic_clear_loop_erasing)

lemma Subscriber_unsubscribe_all_erasing:
  assumes "Subscriber_unsubscribe_all u b = Some r"
  shows "\<forall>b'. r = Ok b' \<longrightarrow> sb_erasing_nodes b' = sb_erasing_nodes b"
proof (rule Subscriber_unsubscribe_all.raw_induct [OF _ assms])
  fix f u b r
  assume step: "\<And>u b r. f u b = Some r \<Longrightarrow> \<forall>b'. r = Ok b' \<longrightarrow> sb_erasing_nodes b' = sb_erasing_nodes b"
    and body: "(case sb_topic_head b u of None \<Rightarrow> Some (Ok b) | Some a \<Rightarrow> if \<not> sb_alive b a \<or> sb_topic b a = None then Some UB
       else (case unsubscribe a b of Ok s1 \<Rightarrow> f u s1 | Err e \<Rightarrow> Some (Err e) | UB \<Rightarrow> Some UB)) = Some r"
  show "\<forall>b'. r = Ok b' \<longrightarrow> sb_erasing_nodes b' = sb_erasing_nodes b"
    using body by (auto split: option.splits if_splits outcome.splits dest!: step unsubscribe_erasing)
qed

text \<open>The publishing thread is not registered.\<close>

definition worker_unregistered :: "subs \<Rightarrow> bool" where
  "worker_unregistered b \<longleftrightarrow> (\<forall>a. 0 \<notin> set (sb_erasing_nodes b a))"

lemma worker_unregistered_same:
  "worker_unregistered b \<Longrightarrow> sb_erasing_nodes b' = sb_erasing_nodes b \<Longrightarrow> worker_unregistered b'"
  by (simp add: worker_unregistered_def)

lemma subscriber_op_unregistered:
  assumes "worker_unregistered b" "subscriber_op ob" "subs_do ob b = Some (Ok b')"
  shows "worker_unregistered b'"
proof (cases ob)
  case (OFind th u t)
  then show ?thesis
    using assms by (auto simp: worker_unregistered_def Subscriber_unsubscribe_find_def obind_eq_Ok split: option.splits if_splits)
next
  case (OErase th)
  then have "sb_erasing_nodes b' = sb_erasing_nodes b"
    using assms(3) unsubscribe_erasing by (auto simp: Subscriber_unsubscribe_erase_def split: option.splits)
  then show ?thesis using assms(1) by (rule worker_unregistered_same [rotated])
next
  case (OUnsubscribeAll u)
  then have "sb_erasing_nodes b' = sb_erasing_nodes b"
    using assms(3) Subscriber_unsubscribe_all_erasing by auto
  then show ?thesis using assms(1) by (rule worker_unregistered_same [rotated])
qed (use assms(2) in simp_all)

lemma worker_step_unregistered:
  assumes "worker_unregistered (tv_subs s)" "worker_step get_id ks s = Some (Ok s')"
  shows "worker_unregistered (tv_subs s')"
proof -
  have "sb_erasing_nodes (tv_subs s') = sb_erasing_nodes (tv_subs s)"
  proof (cases "tv_worker s")
    case WIdle
    then show ?thesis
      using assms(2) by (auto simp: worker_step_def worker_pop_def AutoRefPtr_move_assign_def AutoRefPtr_destroy_def obind_eq_Ok
          split: list.splits dest!: AutoRefPtr_reset_erasing)
  next
    case (WRun p ph)
    note step = assms(2) [unfolded worker_step_def WRun, simplified]
    have all: "deliver_all t items s = Some (Ok s') \<Longrightarrow> tv_subs s' = tv_subs s" for t items
      by (auto simp: deliver_all_def to_all_def set_phase_def WRun wbind_def split: option.splits outcome.splits)
    show ?thesis
    proof (cases ph)
      case PStart
      then show ?thesis
        using step all
        by (auto simp: publish_snap_def publish_new_move_def publish_clear_move_def with_topic_def with_node_def
            confirm_subscribe_def set_phase_def WRun obind_eq_Ok Let_def
            split: publish_mode.splits option.splits if_splits prod.splits)
    next
      case (PDeliver js)
      then show ?thesis
        using step Topic_clear_erasing
        by (cases js) (auto simp: set_phase_def WRun wbind_def split: option.splits outcome.splits if_splits)
    next
      case PDone
      then show ?thesis
        using step by (auto simp: AutoRefPtr_destroy_def obind_eq_Ok dest!: AutoRefPtr_reset_erasing)
    qed (use step all in auto)
  qed
  then show ?thesis using assms(1) by (rule worker_unregistered_same [rotated])
qed

lemma tv_step_unregistered:
  assumes "tv_step get_id s s'" "worker_unregistered (tv_subs s)"
  shows "worker_unregistered (tv_subs s')"
  using assms
proof (induction rule: tv_step.induct)
  case (st_reserve s a t u s' p)
  have "tv_subs s' = tv_subs s \<or> (\<exists>b. reserve_subscribe a t u (Subscription_new a t u (tv_subs s)) = Ok b \<and>
      sb_erasing_nodes (tv_subs s') = sb_erasing_nodes b)"
    using st_reserve(3)
    by (auto simp: topic_reserve_def Topic_reserve_subscribe_def wbind_def obind_eq_Ok
        split: option.splits outcome.splits if_splits dest!: AutoRefPtr_reset_erasing)
  moreover have "worker_unregistered (Subscription_new a t u (tv_subs s))"
    using st_reserve(4) by (simp add: worker_unregistered_def Subscription_new_def)
  moreover have "sb_erasing_nodes b = sb_erasing_nodes b0" if "reserve_subscribe a t u b0 = Ok b" for b b0
    using that
    by (auto simp: reserve_subscribe_def add_topic_subscriber_def add_subscriber_topic_def with_node_def obind_eq_Ok
        split: option.splits if_splits dest!: add_ref_erasing)
  ultimately have "worker_unregistered (tv_subs s')" using st_reserve(4) by (metis worker_unregistered_same)
  then show ?case by simp
next
  case (st_destroy s t th b)
  then show ?case using Topic_clear_erasing [OF st_destroy(4)] by (simp add: worker_unregistered_def)
next
  case (st_subscriber ob s b)
  then show ?case using subscriber_op_unregistered by simp
next
  case (st_worker s ks s')
  then show ?case using worker_step_unregistered by blast
qed (auto simp: get_topic_def topic_make_def pop_topic_def post_def append_new_def mark_removed_def append_content_def
    with_topic_def worker_unregistered_def Let_def split: option.splits if_splits prod.splits)

lemma tv_reach_unregistered: "tv_reach get_id s \<Longrightarrow> worker_unregistered (tv_subs s)"
proof (induction rule: tv_reach.induct)
  case tv_reach_start
  show ?case by (simp add: worker_unregistered_def TopicServer_new_def no_subs_def)
qed (rule tv_step_unregistered)

lemma worker_free:
  assumes ok: "tv_ok T S s" and un: "worker_unregistered (tv_subs s)"
  shows "sb_node (tv_subs s) 0 = None"
proof (rule ccontr)
  assume "sb_node (tv_subs s) 0 \<noteq> None"
  then obtain a where "sb_node (tv_subs s) 0 = Some a" by blast
  then have "0 \<in> set (sb_erasing_nodes (tv_subs s) a)"
    using erasing_okD(2) [OF subs_invD(7) [OF tv_okD(1) [OF ok]], of 0 a] by auto
  then show False using un by (simp add: worker_unregistered_def)
qed

section \<open>Every message ends\<close>

text \<open>
  What is left of a message: its phase, and the calls still to make. The length of the queue
  comes first.
\<close>

fun worker_left :: "worker \<Rightarrow> nat \<times> nat" where
  "worker_left WIdle = (0, 0)"
| "worker_left (WRun p PDone) = (1, 0)"
| "worker_left (WRun p (PDeliver js)) = (2, length js)"
| "worker_left (WRun p (PMoved ns)) = (3, 0)"
| "worker_left (WRun p PCleared) = (3, 0)"
| "worker_left (WRun p PStart) = (4, 0)"

abbreviation left_less :: "((nat \<times> nat \<times> nat) \<times> (nat \<times> nat \<times> nat)) set" where
  "left_less \<equiv> less_than <*lex*> less_than <*lex*> less_than"

definition messages_left :: "('o, 'k) tserver \<Rightarrow> nat \<times> nat \<times> nat" where
  "messages_left s = (length (tv_queue s), worker_left (tv_worker s))"

lemma deliver_all_queue:
  assumes "deliver_all t items s = Some (Ok s')" "tv_worker s = WRun p ph"
  obtains js where "s' = s\<lparr>tv_worker := WRun p (PDeliver js)\<rparr>"
  using assms by (auto simp: deliver_all_def to_all_def set_phase_def wbind_def split: option.splits outcome.splits)

lemma worker_step_left:
  assumes "worker_step get_id ks s = Some (Ok s')"
  shows "(messages_left s', messages_left s) \<in> left_less"
proof (cases "tv_worker s")
  case WIdle
  then show ?thesis
    using assms by (auto simp: worker_step_def worker_pop_def messages_left_def obind_eq_Ok split: list.splits)
next
  case (WRun p ph)
  note step = assms [unfolded worker_step_def WRun, simplified]
  show ?thesis
  proof (cases ph)
    case PStart
    show ?thesis
    proof (cases "pb_mode p = EraseTopic")
      case True
      then have "deliver_all (pb_topic p) [IErase] s = Some (Ok s')" using step PStart by simp
      then obtain js where "s' = s\<lparr>tv_worker := WRun p (PDeliver js)\<rparr>" by (rule deliver_all_queue [OF _ WRun])
      then show ?thesis using WRun PStart by (simp add: messages_left_def)
    next
      case False
      then show ?thesis
        using step WRun PStart
        by (auto simp: publish_snap_def publish_new_move_def publish_clear_move_def with_topic_def with_node_def
            messages_left_def obind_eq_Ok set_phase_def Let_def case_prod_beta
            split: publish_mode.splits option.splits if_splits)
    qed
  next
    case (PDeliver js)
    then show ?thesis
      using step WRun
      by (cases js) (auto simp: set_phase_def wbind_def messages_left_def split: option.splits outcome.splits if_splits)
  next
    case (PMoved ns)
    then have "deliver_all (pb_topic p) (map IContent ns) s = Some (Ok s')" using step by simp
    then obtain js where "s' = s\<lparr>tv_worker := WRun p (PDeliver js)\<rparr>" by (rule deliver_all_queue [OF _ WRun])
    then show ?thesis using WRun PMoved by (simp add: messages_left_def)
  next
    case PCleared
    then have "deliver_all (pb_topic p) [IClear] s = Some (Ok s')" using step by simp
    then obtain js where "s' = s\<lparr>tv_worker := WRun p (PDeliver js)\<rparr>" by (rule deliver_all_queue [OF _ WRun])
    then show ?thesis using WRun PCleared by (simp add: messages_left_def)
  next
    case PDone
    then show ?thesis using step WRun by (auto simp: messages_left_def obind_eq_Ok)
  qed
qed

lemma worker_steps_wf: "wf {(s', s). \<exists>ks. worker_step get_id ks s = Some (Ok s')}"
proof (rule wf_subset)
  show "wf (inv_image left_less messages_left)" by auto
  show "{(s', s). \<exists>ks. worker_step get_id ks s = Some (Ok s')} \<subseteq> inv_image left_less messages_left"
    using worker_step_left by (auto simp: inv_image_def)
qed

section \<open>The publishing thread always gets on\<close>

lemma worker_step_total:
  assumes ok: "tv_ok T S s" and free: "sb_node (tv_subs s) 0 = None" and busy: "tv_worker s \<noteq> WIdle \<or> tv_queue s \<noteq> []"
  shows "\<exists>s'. worker_step get_id ks s = Some (Ok s')"
proof (cases "tv_worker s")
  case WIdle
  then obtain p rest where q: "tv_queue s = p # rest" using busy by (cases "tv_queue s") auto
  have pok: "publisher_ok s p" using publishers_okD(1) [OF tv_okD(3) [OF ok]] q by simp
  have "sb_msg (tv_subs s) = None" using tv_okD(4) [OF ok] WIdle by (simp add: worker_ok_def)
  moreover have "pb_subscription p = Some a \<Longrightarrow> sb_alive (tv_subs s) a" for a using pok by (simp add: publisher_ok_def)
  ultimately obtain b where "obind (AutoRefPtr_move_assign (sb_msg (tv_subs s)) (pb_subscription p) (tv_subs s))
        (\<lambda>(b, msg, left). AutoRefPtr_destroy left (b\<lparr>sb_msg := msg\<rparr>)) = Ok b"
    using msg_take [OF tv_okD(1) [OF ok]] by blast
  then show ?thesis using WIdle q by (auto simp: worker_step_def worker_pop_def obind_eq_Ok split: prod.splits)
next
  case (WRun p ph)
  note inv = tv_okD(1) [OF ok]
  have pok: "publisher_ok s p" using publishers_okD(1) [OF tv_okD(3) [OF ok]] WRun by simp
  then obtain tp where tp: "tv_topics s (pb_topic p) = Some tp" by (auto simp: publisher_ok_def)
  have all: "\<exists>s'. deliver_all (pb_topic p) items s = Some (Ok s')" for items
    by (simp add: deliver_all_def to_all_eq [OF inv])
  show ?thesis
  proof (cases ph)
    case PStart
    have move: "\<exists>s'. publish_new_move get_id (pb_topic p) s = Ok s'"
      using tp by (auto simp: publish_new_move_def with_topic_def split: option.splits)
    have snap: "\<exists>s'. publish_snap ks (pb_topic p) a s = Ok s'" if "sb_alive (tv_subs s) a" for a
      using tp that
      by (auto simp: publish_snap_def with_topic_def with_node_def confirm_subscribe_def Let_def split: option.splits prod.splits)
    show ?thesis
      using pok all [of "[IErase]"] move snap tp WRun PStart
      by (cases "pb_mode p"; cases "pb_subscription p")
        (simp_all add: worker_step_def publisher_ok_def publish_clear_move_def with_topic_def)
  next
    case (PDeliver js)
    obtain b where "Topic_clear 0 (pb_topic p) (tv_subs s) = Some (Ok b)" using Topic_clear_inv [OF inv free] by blast
    then show ?thesis using WRun PDeliver by (cases js) (simp_all add: worker_step_def)
  next
    case PDone
    obtain b where "AutoRefPtr_destroy (sb_msg (tv_subs s)) ((tv_subs s)\<lparr>sb_msg := None\<rparr>) = Ok b"
      using msg_drop [OF inv] by blast
    then show ?thesis using WRun PDone by (simp add: worker_step_def)
  qed (use all WRun in \<open>simp_all add: worker_step_def\<close>)
qed

text \<open>A run of the publishing thread alone, which takes the snapshots of the sets in some order.\<close>

definition worker_move :: "('o \<Rightarrow> 'k) \<Rightarrow> ('o, 'k) tserver \<Rightarrow> ('o, 'k) tserver \<Rightarrow> bool" where
  "worker_move get_id s s' \<longleftrightarrow> (\<exists>ks. (\<forall>p tp. tv_worker s = WRun p PStart \<longrightarrow> tv_topics s (pb_topic p) = Some tp \<longrightarrow>
     snap_order ks (tp_data tp)) \<and> worker_step get_id ks s = Some (Ok s'))"

lemma tv_reach_ok: "tv_reach get_id s \<Longrightarrow> \<exists>T S. tv_ok T S s \<and> sb_node (tv_subs s) 0 = None"
  using set_topic.tv_reach_views [of get_id s] tv_reach_unregistered [of get_id s] worker_free by blast

lemma worker_move_step: "tv_reach get_id s \<Longrightarrow> worker_move get_id s s' \<Longrightarrow> tv_step get_id s s'"
  using tv_reach_ok [of get_id s] unfolding worker_move_def by (blast intro: st_worker)

lemma worker_move_reach: "tv_reach get_id s \<Longrightarrow> worker_move get_id s s' \<Longrightarrow> tv_reach get_id s'"
  by (rule tv_reach_step [OF _ worker_move_step])

lemma worker_run_reach: "(worker_move get_id)\<^sup>*\<^sup>* s s' \<Longrightarrow> tv_reach get_id s \<Longrightarrow> tv_reach get_id s'"
  by (induction rule: rtranclp_induct) (use worker_move_reach in blast)+

text \<open>The objects of a set are finitely many, so there is an order to send them in.\<close>

lemma set_inv_finite: "set_inv get_id h (SetTopic snap objects new) \<Longrightarrow> finite (dom snap)"
proof -
  assume inv: "set_inv get_id h (SetTopic snap objects new)"
  then have "ran snap \<subseteq> {..<length h}" by (auto simp: ran_def)
  then have "finite (ran snap)" by (rule finite_subset) simp
  moreover have "dom snap \<subseteq> content_id get_id h ` ran snap" using inv by (force simp: ran_def)
  ultimately show "finite (dom snap)" by (meson finite_imageI finite_subset)
qed

lemma snap_order_ex:
  assumes reach: "tv_reach get_id s" and tp: "tv_topics s t = Some tp"
  shows "\<exists>ks. snap_order ks (tp_data tp)"
proof (cases "tp_data tp")
  case (SetTopic snap objects new)
  obtain T S where "views_ok SetKind (see_set get_id) (\<lambda>k. None) (set_inv get_id) set_good T s"
    using set_topic.tv_reach_views [OF reach] by blast
  then have "set_inv get_id (tp_contents tp) (tp_data tp)"
    by (rule set_topic.viewsD(1) [OF _ tp]) (simp add: SetTopic)
  then have "finite (dom snap)" unfolding SetTopic by (rule set_inv_finite)
  from finite_distinct_list [OF this] obtain ks where "set ks = dom snap" "distinct ks" by (elim exE conjE)
  then have "snap_order ks (tp_data tp)" by (simp add: SetTopic)
  then show ?thesis ..
qed simp_all

lemma worker_move_ex:
  assumes reach: "tv_reach get_id s" and busy: "tv_worker s \<noteq> WIdle \<or> tv_queue s \<noteq> []"
  shows "\<exists>s'. worker_move get_id s s'"
proof -
  obtain T S where ok: "tv_ok T S s" "sb_node (tv_subs s) 0 = None" using tv_reach_ok [OF reach] by blast
  have "\<exists>ks. \<forall>p tp. tv_worker s = WRun p PStart \<longrightarrow> tv_topics s (pb_topic p) = Some tp \<longrightarrow> snap_order ks (tp_data tp)"
  proof (cases "tv_worker s")
    case (WRun p ph)
    then show ?thesis using snap_order_ex [OF reach, of "pb_topic p"] by (cases "tv_topics s (pb_topic p)") auto
  qed simp
  then show ?thesis using worker_step_total [OF ok busy] unfolding worker_move_def by blast
qed

lemma worker_run_ex:
  "tv_reach get_id s \<Longrightarrow> \<exists>s'. (worker_move get_id)\<^sup>*\<^sup>* s s' \<and> tv_worker s' = WIdle \<and> tv_queue s' = []"
proof (induction s rule: wf_induct_rule [OF worker_steps_wf [of get_id]])
  case (1 s)
  show ?case
  proof (cases "tv_worker s \<noteq> WIdle \<or> tv_queue s \<noteq> []")
    case True
    then obtain s1 where s1: "worker_move get_id s s1" using worker_move_ex [OF 1(2)] by blast
    then have "\<exists>s'. (worker_move get_id)\<^sup>*\<^sup>* s1 s' \<and> tv_worker s' = WIdle \<and> tv_queue s' = []"
    proof (intro 1(1) [of s1])
      show "(s1, s) \<in> {(s', s). \<exists>ks. worker_step get_id ks s = Some (Ok s')}" using s1 unfolding worker_move_def by blast
    qed (rule worker_move_reach [OF 1(2) s1])
    then show ?thesis using s1 by (meson converse_rtranclp_into_rtranclp)
  qed blast
qed

section \<open>What is published is sent\<close>

definition move_due :: "('o, 'k) tserver \<Rightarrow> nat \<Rightarrow> bool" where
  "move_due s t \<longleftrightarrow> (\<exists>p \<in> set (tv_queue s). pb_mode p = PublishNew \<and> pb_topic p = t) \<or>
     (\<exists>p. tv_worker s = WRun p PStart \<and> pb_mode p = PublishNew \<and> pb_topic p = t)"

definition no_clear :: "('o, 'k) tserver \<Rightarrow> nat \<Rightarrow> bool" where
  "no_clear s t \<longleftrightarrow> (\<forall>p \<in> set (tv_queue s @ worker_publishers (tv_worker s)). pb_topic p = t \<longrightarrow> pb_mode p \<noteq> ClearContent)"

definition seq_history :: "('o, 'k) tserver \<Rightarrow> nat \<Rightarrow> nat list \<Rightarrow> nat list \<Rightarrow> bool" where
  "seq_history s t snap new \<longleftrightarrow> (\<exists>tp. tv_topics s t = Some tp \<and> tp_data tp = SeqTopic snap new)"

lemma worker_move_seq:
  assumes move: "worker_move get_id s s'" and h: "seq_history s t snap new" and quiet: "no_clear s t"
    and due: "new = [] \<or> move_due s t"
  shows "no_clear s' t \<and> (\<exists>snap' new'. seq_history s' t snap' new' \<and> snap' @ new' = snap @ new \<and> (new' = [] \<or> move_due s' t))"
proof -
  obtain ks where run: "worker_step get_id ks s = Some (Ok s')" using move by (auto simp: worker_move_def)
  have same: ?thesis if "tv_topics s' = tv_topics s" "no_clear s' t" "move_due s t \<Longrightarrow> move_due s' t"
  proof -
    have "seq_history s' t snap new" using h that(1) by (simp add: seq_history_def)
    then show ?thesis using that(2,3) due by blast
  qed
  show ?thesis
  proof (cases "tv_worker s")
    case WIdle
    then obtain p rest b where "tv_queue s = p # rest" "s' = s\<lparr>tv_subs := b, tv_queue := rest, tv_worker := WRun p PStart\<rparr>"
      using run by (auto simp: worker_step_def worker_pop_def obind_eq_Ok split: list.splits)
    then show ?thesis using quiet WIdle by (intro same) (auto simp: no_clear_def move_due_def)
  next
    case (WRun p ph)
    note step = run [unfolded worker_step_def WRun, simplified]
    have all: ?thesis if "deliver_all (pb_topic p) items s = Some (Ok s')" "\<not> (ph = PStart \<and> pb_mode p = PublishNew)" for items
    proof -
      from deliver_all_queue [OF that(1) WRun] obtain js where "s' = s\<lparr>tv_worker := WRun p (PDeliver js)\<rparr>" .
      then show ?thesis using quiet that(2) WRun by (intro same) (auto simp: no_clear_def move_due_def)
    qed
    show ?thesis
    proof (cases ph)
      case PStart
      show ?thesis
      proof (cases "pb_mode p")
        case PublishNew
        then have "publish_new_move get_id (pb_topic p) s = Ok s'" using step PStart by simp
        then consider (nothing) tp where "tv_topics s (pb_topic p) = Some tp" "Topic_do_move get_id (tp_contents tp) (tp_data tp) = None"
            "s' = s\<lparr>tv_worker := WRun p PDone\<rparr>"
          | (moved) tp ns d' where "tv_topics s (pb_topic p) = Some tp" "Topic_do_move get_id (tp_contents tp) (tp_data tp) = Some (ns, d')"
            "s' = s\<lparr>tv_topics := (tv_topics s)(pb_topic p := Some (tp\<lparr>tp_data := d'\<rparr>)), tv_worker := WRun p (PMoved ns)\<rparr>"
          using WRun by (auto simp: publish_new_move_def with_topic_def split: option.splits)
        then show ?thesis
        proof cases
          case nothing
          then show ?thesis
            using h quiet due WRun PStart PublishNew by (auto simp: seq_history_def no_clear_def move_due_def split: if_splits)
        next
          case moved
          then show ?thesis
            using h quiet due WRun PStart PublishNew by (auto simp: seq_history_def no_clear_def move_due_def split: if_splits)
        qed
      next
        case ClearContent
        then obtain tp where "pb_topic p \<noteq> t" "s' = s\<lparr>tv_topics := (tv_topics s)(pb_topic p := Some (tp\<lparr>tp_data := Topic_do_clear (tp_data tp)\<rparr>)),
            tv_worker := WRun p PCleared\<rparr>"
          using step PStart WRun quiet by (auto simp: publish_clear_move_def with_topic_def no_clear_def split: option.splits)
        then show ?thesis
          using h quiet due WRun PStart ClearContent by (auto simp: seq_history_def no_clear_def move_due_def)
      next
        case PublishSnap
        then obtain a where "publish_snap ks (pb_topic p) a s = Ok s'" using step PStart by (auto split: option.splits)
        then have "\<exists>ph'. tv_worker s' = WRun p ph' \<and> ph' \<noteq> PStart \<and> tv_queue s' = tv_queue s \<and>
            (tv_topics s' = tv_topics s \<or> (\<exists>tp h'. tv_topics s (pb_topic p) = Some tp \<and>
               tv_topics s' = (tv_topics s)(pb_topic p := Some (tp\<lparr>tp_contents := h'\<rparr>))))"
          using WRun by (auto simp: publish_snap_def with_topic_def with_node_def obind_eq_Ok Let_def case_prod_beta
            split: option.splits if_splits)
        then obtain ph' where s': "tv_worker s' = WRun p ph'" "ph' \<noteq> PStart" "tv_queue s' = tv_queue s"
            "tv_topics s' = tv_topics s \<or> (\<exists>tp h'. tv_topics s (pb_topic p) = Some tp \<and>
               tv_topics s' = (tv_topics s)(pb_topic p := Some (tp\<lparr>tp_contents := h'\<rparr>)))" by (elim exE conjE)
        then have "seq_history s' t snap new" using h by (auto simp: seq_history_def)
        moreover have "no_clear s' t" "move_due s t \<Longrightarrow> move_due s' t"
          using quiet WRun PublishSnap by (auto simp: s'(1,3) no_clear_def move_due_def)
        ultimately show ?thesis using due by blast
      next
        case EraseTopic
        then show ?thesis using step all PStart by auto
      qed
    next
      case (PDeliver js)
      then have "tv_topics s' = tv_topics s \<and> tv_queue s' = tv_queue s \<and> worker_publishers (tv_worker s') = [p]"
        using step WRun by (cases js) (auto simp: set_phase_def wbind_def split: option.splits outcome.splits if_splits)
      then show ?thesis using quiet WRun PDeliver by (intro same) (auto simp: no_clear_def move_due_def)
    next
      case PDone
      then obtain b where "s' = s\<lparr>tv_subs := b, tv_worker := WIdle\<rparr>" using step by (auto simp: obind_eq_Ok)
      then show ?thesis using quiet WRun PDone by (intro same) (auto simp: no_clear_def move_due_def)
    qed (use step all in auto)
  qed
qed

lemma worker_run_seq:
  assumes "(worker_move get_id)\<^sup>*\<^sup>* s s'" "seq_history s t snap new" "no_clear s t" "new = [] \<or> move_due s t"
  shows "no_clear s' t \<and> (\<exists>snap' new'. seq_history s' t snap' new' \<and> snap' @ new' = snap @ new \<and> (new' = [] \<or> move_due s' t))"
  using assms(1)
proof (induction rule: rtranclp_induct)
  case base
  show ?case using assms(2-4) by blast
next
  case (step s1 s2)
  then obtain snap1 new1 where h: "seq_history s1 t snap1 new1" "no_clear s1 t" "new1 = [] \<or> move_due s1 t"
    and same: "snap1 @ new1 = snap @ new" by blast
  show ?case using worker_move_seq [OF step(2) h(1,2,3)] unfolding same .
qed

section \<open>Properties\<close>


text \<open>
  Claim C9. With nobody posting, the publishing thread stops after finitely many steps whatever
  order it takes the snapshots of the sets in, and it stops with an empty queue and all calls of
  subscribers made.
\<close>

theorem publishing_thread_ends:
  assumes "tv_reach get_id s"
  shows "(\<forall>f. f 0 = s \<longrightarrow> (\<exists>n. \<not> worker_move get_id (f n) (f (Suc n)))) \<and>
    (\<forall>s'. (worker_move get_id)\<^sup>*\<^sup>* s s' \<and> (\<nexists>s''. worker_move get_id s' s'') \<longrightarrow> tv_worker s' = WIdle \<and> tv_queue s' = []) \<and>
    (\<exists>s'. (worker_move get_id)\<^sup>*\<^sup>* s s' \<and> tv_worker s' = WIdle \<and> tv_queue s' = [])"
proof (intro conjI allI impI)
  fix f :: "nat \<Rightarrow> ('a, 'b) tserver"
  have "\<not> (\<exists>f. \<forall>n. (f (Suc n), f n) \<in> {(s', s). \<exists>ks. worker_step get_id ks s = Some (Ok s')})"
    using worker_steps_wf [of get_id] unfolding wf_iff_no_infinite_down_chain .
  then show "\<exists>n. \<not> worker_move get_id (f n) (f (Suc n))" unfolding worker_move_def by blast
next
  fix s'
  assume "(worker_move get_id)\<^sup>*\<^sup>* s s' \<and> (\<nexists>s''. worker_move get_id s' s'')"
  then have "tv_worker s' = WIdle \<and> tv_queue s' = []"
    using worker_move_ex [OF worker_run_reach [OF _ assms], of s'] by blast
  then show "tv_worker s' = WIdle" "tv_queue s' = []" by blast+
qed (rule worker_run_ex [OF assms])


text \<open>The run of \<open>Eco_TopicViews\<close> goes on: the content is published, and the thread takes it.\<close>

lemmas sample_runs = sample_confirmed_def sample_popped_def sample_posted_def sample_reserved_def sample_published_def Let_def

definition sample_made :: "(nat, nat) tserver" where
  "sample_made = (sample_confirmed SeqKind)\<lparr>tv_posting := [Publisher_of 3 PublishNew]\<rparr>"

definition sample_queued :: "(nat, nat) tserver" where
  "sample_queued = (sample_confirmed SeqKind)\<lparr>tv_queue := [Publisher_of 3 PublishNew]\<rparr>"

definition sample_given :: subs where
  "sample_given = (let b = tv_subs (sample_confirmed SeqKind) in b\<lparr>sb_ref := (sb_ref b)(5 := sb_ref b 5 - 1), sb_msg := None\<rparr>)"

definition sample_moved :: "(nat, nat) topic" where
  "sample_moved = (sample_content SeqKind)\<lparr>tp_data := SeqTopic [0] []\<rparr>"

definition sample_sent :: "(nat, nat) tserver" where
  "sample_sent = sample_queued\<lparr>tv_queue := [], tv_subs := sample_given, tv_topics := (tv_topics sample_queued)(3 := Some sample_moved),
     tv_log := [\<lparr>lg_delivery = \<lparr>dv_node = 5, dv_subscriber = 2, dv_item = IContent 0\<rparr>, lg_topic = 3,
       lg_content = Some (tp_contents sample_moved ! 0)\<rparr>], tv_worker := WIdle\<rparr>"

lemma sample_confirmed_parts:
  "tv_worker (sample_confirmed kind) = WRun (Publisher_snap 3 (Some 5)) (PDeliver [])" "tv_queue (sample_confirmed kind) = []"
  "tv_posting (sample_confirmed kind) = []" "tv_log (sample_confirmed kind) = []"
  "sb_msg (tv_subs (sample_confirmed kind)) = Some 5" "sb_alive (tv_subs (sample_confirmed kind)) 5"
  "sb_ref (tv_subs (sample_confirmed kind)) 5 = 3"
  "tv_topics (sample_confirmed kind) 3 = Some (sample_content kind)"
  by (simp_all add: sample_runs) (simp_all add: subscribed_def no_subs_def Let_def)

lemma sample_queued_reach: "tv_reach (\<lambda>x. x) sample_queued"
proof -
  have "tv_reach (\<lambda>x. x) sample_made"
    using tv_reach_step [OF sample_confirmed_reach [of SeqKind] st_publisher [of "sample_confirmed SeqKind" 3 PublishNew]]
    by (simp add: sample_made_def sample_confirmed_parts)
  moreover have "post (Publisher_of 3 PublishNew) (sample_made\<lparr>tv_posting := remove1 (Publisher_of 3 PublishNew) (tv_posting sample_made)\<rparr>)
      = Some (Ok sample_queued)"
    by (simp add: post_def sample_made_def sample_queued_def sample_confirmed_parts default_capacity_def)
  ultimately show ?thesis using tv_reach_step [OF _ st_post] by (fastforce simp: sample_made_def)
qed

lemma sample_given_sel:
  "sb_head sample_given 3 = Some 5" "sb_alive sample_given 5" "sb_working sample_given 5" "sb_subscriber sample_given 5 = Some 2"
  "sb_topic_subscriber_next sample_given 5 = None" "sb_msg sample_given = None"
  by (simp_all add: sample_given_def sample_runs) (simp_all add: subscribed_def no_subs_def Let_def)

lemma sample_nodes: "working_nodes sample_given (sb_head sample_given 3) = Some (Ok [(5, 2)])"
  by (simp add: working_nodes.simps [of _ "Some 5"] working_nodes.simps [of _ None] sample_given_sel)

lemma worker_moveI:
  assumes "worker_step get_id [] s = Some (Ok s')" "\<And>t tp. tv_topics s t = Some tp \<Longrightarrow> snap_order [] (tp_data tp)"
  shows "worker_move get_id s s'"
  using assms unfolding worker_move_def by blast

lemma sample_sent_run: "(worker_move (\<lambda>x. x))\<^sup>*\<^sup>* sample_queued sample_sent"
proof -
  let ?P = "Publisher_of 3 PublishNew" and ?d = "\<lparr>dv_node = 5, dv_subscriber = 2, dv_item = IContent 0\<rparr>"
  let ?q1 = "sample_queued\<lparr>tv_worker := WRun (Publisher_snap 3 (Some 5)) PDone\<rparr>"
  let ?q2 = "sample_queued\<lparr>tv_worker := WIdle, tv_subs := sample_given\<rparr>"
  let ?q3 = "?q2\<lparr>tv_queue := [], tv_worker := WRun ?P PStart\<rparr>"
  let ?q4 = "?q3\<lparr>tv_topics := (tv_topics sample_queued)(3 := Some sample_moved), tv_worker := WRun ?P (PMoved [0])\<rparr>"
  let ?q5 = "?q4\<lparr>tv_worker := WRun ?P (PDeliver [?d])\<rparr>"
  let ?q6 = "sample_sent\<lparr>tv_worker := WRun ?P (PDeliver [])\<rparr>"
  let ?q7 = "sample_sent\<lparr>tv_worker := WRun ?P PDone\<rparr>"
  have order: "tv_topics (sample_confirmed SeqKind) t = Some tp \<Longrightarrow> snap_order [] (tp_data tp)" for t and tp :: "(nat, nat) topic"
    by (auto simp: sample_runs sample_data split: if_splits)
  have b0: "sample_given\<lparr>sb_msg := None\<rparr> = sample_given" using sample_given_sel(6) by (cases sample_given) simp
  note parts = sample_queued_def sample_confirmed_parts sample_given_sel b0 Publisher_of_def Publisher_snap_def
  have "worker_move (\<lambda>x. x) sample_queued ?q1"
    by (rule worker_moveI) (use order in \<open>simp_all add: worker_step_def parts\<close>)
  moreover have "worker_move (\<lambda>x. x) ?q1 ?q2"
  proof (rule worker_moveI)
    show "worker_step (\<lambda>x. x) [] ?q1 = Some (Ok ?q2)"
      by (simp add: worker_step_def parts AutoRefPtr_destroy_def AutoRefPtr_reset_def AutoRefPtr_add_ref_def del_ref_def
          with_node_def Atomic_pre_dec_def exchange_add_def sample_given_def Let_def)
  qed (use order in \<open>simp add: parts\<close>)
  moreover have "worker_move (\<lambda>x. x) ?q2 ?q3"
    by (rule worker_moveI) (use order in \<open>simp_all add: worker_step_def worker_pop_def parts AutoRefPtr_move_assign_def
        AutoRefPtr_destroy_def AutoRefPtr_reset_def AutoRefPtr_add_ref_def\<close>)
  moreover have "worker_move (\<lambda>x. x) ?q3 ?q4"
    by (rule worker_moveI) (use order in \<open>simp_all add: worker_step_def parts publish_new_move_def with_topic_def sample_data
        sample_moved_def\<close>)
  moreover have "worker_move (\<lambda>x. x) ?q4 ?q5"
    by (rule worker_moveI) (use order sample_nodes in \<open>auto simp: worker_step_def parts deliver_all_def to_all_def deliveries_def
        sample_moved_def split: if_splits\<close>)
  moreover have "worker_move (\<lambda>x. x) ?q5 ?q6"
    by (rule worker_moveI) (use order in \<open>auto simp: worker_step_def parts logged_delivery_def sample_sent_def
        sample_moved_def split: if_splits\<close>)
  moreover have "worker_move (\<lambda>x. x) ?q6 ?q7"
    by (rule worker_moveI) (use order in \<open>auto simp: worker_step_def parts sample_sent_def sample_moved_def split: if_splits\<close>)
  moreover have "worker_move (\<lambda>x. x) ?q7 sample_sent"
    by (rule worker_moveI) (use order in \<open>auto simp: worker_step_def parts sample_sent_def sample_moved_def
        AutoRefPtr_destroy_def AutoRefPtr_reset_def AutoRefPtr_add_ref_def split: if_splits\<close>)
  ultimately show ?thesis by (meson converse_rtranclp_into_rtranclp rtranclp.rtrancl_refl)
qed


theorem publishing_thread_ends_witness:
  "\<exists>s'. (worker_move (\<lambda>x. x))\<^sup>*\<^sup>* sample_queued s' \<and> tv_worker s' = WIdle \<and> tv_queue s' = []"
  using publishing_thread_ends [OF sample_queued_reach, THEN conjunct2, THEN conjunct2] .


end
