(* ===== verification/Eco_TopicLost.thy ===== *)
theory Eco_TopicLost
  imports Eco_TopicRun
begin

text \<open>
  What goes wrong on the topic server: subscriptions that are lost, and calls of the publishing
  functions that follow a null pointer.
\<close>

section \<open>Null pointers\<close>

text \<open>
  \<open>publish_new\<close> moves the topic out of the pointer its caller passes by reference: a second call
  with the same pointer has none. \<open>remove\<close> does not look whether the object is there.
\<close>

lemma publish_new_consumes:
  "publish_new get_id (Some t) obj remove_obj s = Some (Ok (s1, p)) \<Longrightarrow> publish_new get_id p obj' remove_obj' s2 = Some UB"
  by (auto simp: publish_new_def wbind_def split: option.splits outcome.splits)

lemma remove_object_missing:
  "find_topic key s = Some t \<Longrightarrow> find_object t obj_id s = Ok None \<Longrightarrow> remove_object get_id key obj_id s = Some UB"
  by (simp add: remove_object_def)

section \<open>Lost subscriptions\<close>

text \<open>Every subscription a topic reaches, at work or not: what the walks of the topic could find.\<close>

definition reached_nodes :: "subs \<Rightarrow> nat \<Rightarrow> (nat \<times> nat) list outcome option" where
  "reached_nodes b t = working_nodes (b\<lparr>sb_working := \<lambda>a. True\<rparr>) (sb_head b t)"

lemma reached_nodes_eq:
  assumes inv: "subs_ok T S b"
  shows "reached_nodes b t = Some (Ok (map (\<lambda>a. (a, the (sb_subscriber b a))) (T t)))"
proof -
  have "sb_alive b a \<and> sb_subscriber b a \<noteq> None" if "a \<in> set (T t)" for a
    using nodes_okD(2,3) [OF subs_invD(3) [OF inv], of a] that by auto
  moreover have "filter (\<lambda>a. True) as = as" for as :: "nat list" by simp
  ultimately show ?thesis
    using working_nodes_path [of "b\<lparr>sb_working := \<lambda>a. True\<rparr>", OF _ , of "sb_topic_subscriber_prev b" TNext "THead t" "sb_head b t" "T t"]
      sub_paths(1) [OF inv, of t] by (simp add: reached_nodes_def)
qed

lemma tv_steps_shrink:
  assumes "(tv_step get_id)\<^sup>*\<^sup>* s s'" "tv_ok T S s" "seq_topic.views T s"
  shows "\<exists>T' S'. tv_ok T' S' s' \<and> seq_topic.views T' s' \<and> lists_shrink T (tv_subs s) T' (tv_subs s')"
  using assms(1)
proof (induction rule: rtranclp_induct)
  case base
  show ?case using assms(2,3) lists_shrink_same by blast
next
  case (step s1 s2)
  then obtain T1 S1 where 1: "tv_ok T1 S1 s1" "seq_topic.views T1 s1" "lists_shrink T (tv_subs s) T1 (tv_subs s1)" by blast
  from seq_topic.tv_step_views [OF step(2) 1(1,2)] show ?case using lists_shrink_trans [OF 1(3)] by blast
qed

text \<open>
  Claim C8. A subscription its topic does not reach is lost: in no later state, whatever is
  published, subscribed and unsubscribed in between, a walk of the topic finds it, so that it is
  never sent anything that is published. The run of the witness shows how one comes about: the
  last subscriber of a topic unsubscribes, and the next one is appended behind the node that
  is gone.
\<close>

theorem lost_subscription:
  assumes "tv_reach get_id s" and "sb_alive (tv_subs s) a"
    and "reached_nodes (tv_subs s) t = Some (Ok ns)" and "a \<notin> fst ` set ns"
    and "(tv_step get_id)\<^sup>*\<^sup>* s s'"
  shows "\<exists>ns'. working_nodes (tv_subs s') (sb_head (tv_subs s') t) = Some (Ok ns') \<and> a \<notin> fst ` set ns'"
proof -
  obtain T S where ok: "tv_ok T S s" and views: "seq_topic.views T s" using seq_topic.tv_reach_views [OF assms(1)] by blast
  obtain T' S' where ok': "tv_ok T' S' s'" and shrink: "lists_shrink T (tv_subs s) T' (tv_subs s')"
    using tv_steps_shrink [OF assms(5) ok views] by blast
  have "ns = map (\<lambda>a. (a, the (sb_subscriber (tv_subs s) a))) (T t)"
    using reached_nodes_eq [OF tv_okD(1) [OF ok], of t] assms(3) by simp
  then have "a \<notin> set (T t)" using assms(4) by force
  then have "a \<notin> set (T' t)" using shrink assms(2) by (auto simp: lists_shrink_def)
  moreover have "sb_alive (tv_subs s') c \<and> sb_subscriber (tv_subs s') c \<noteq> None" if "c \<in> set (T' t)" for c
    using nodes_okD(2,3) [OF subs_invD(3) [OF tv_okD(1) [OF ok']], of c] that by auto
  ultimately show ?thesis
    using working_nodes_path [OF sub_paths(1) [OF tv_okD(1) [OF ok'], of t]] by auto
qed

text \<open>Subscriber 2 and 4 subscribe, 4 unsubscribes, 8 subscribes.\<close>

definition lost_1 :: subs where "lost_1 = subscribed 5 3 2 no_subs"
definition lost_2 :: subs where "lost_2 = subscribed 6 3 4 lost_1"
definition lost_3 :: subs where
  "lost_3 = lost_2\<lparr>sb_node := (sb_node lost_2)(9 := Some 6), sb_erasing_nodes := (sb_erasing_nodes lost_2)(6 := [9])\<rparr>"
definition lost_4 :: subs where "lost_4 = unsubscribed 6 lost_3"
definition lost_5 :: subs where "lost_5 = subscribed 7 3 8 lost_4"

lemma lost_lists:
  "subs_ok ((\<lambda>t. [])(3 := [5])) ((\<lambda>u. [])(2 := [5])) lost_1"
  "subs_ok ((\<lambda>t. [])(3 := [5, 6])) ((\<lambda>u. [])(2 := [5], 4 := [6])) lost_2"
  "Subscriber_unsubscribe_find 9 4 3 lost_2 = Some (Ok (lost_3, True))"
  "Subscriber_unsubscribe_erase 9 lost_3 = Ok lost_4"
  "subs_ok ((\<lambda>t. [])(3 := [5])) ((\<lambda>u. [])(2 := [5])) lost_4"
  "subs_ok ((\<lambda>t. [])(3 := [5])) ((\<lambda>u. [])(2 := [5], 8 := [7])) lost_5"
proof -
  note new = subscribed_def no_subs_def Let_def
  show 1: "subs_ok ((\<lambda>t. [])(3 := [5])) ((\<lambda>u. [])(2 := [5])) lost_1"
    using subscribed_inv [OF no_subs_ok, of 5 3 2] by (simp add: lost_1_def topic_list_add_def no_subs_def)
  have "\<not> sb_alive lost_1 6" "sb_tail lost_1 3 = Some 5" by (simp_all add: lost_1_def new)
  from subscribed_inv [OF 1 this(1), of 3 4] this
  show 2: "subs_ok ((\<lambda>t. [])(3 := [5, 6])) ((\<lambda>u. [])(2 := [5], 4 := [6])) lost_2"
    by (simp add: lost_2_def topic_list_add_def)
  have "sb_topic_head lost_2 4 = Some 6" "sb_alive lost_2 6" "sb_topic lost_2 6 = Some 3" "sb_erasing_nodes lost_2 6 = []"
    "sb_node lost_2 9 = None"
    by (simp_all add: lost_2_def lost_1_def new)
  note l2 = this
  show 3: "Subscriber_unsubscribe_find 9 4 3 lost_2 = Some (Ok (lost_3, True))"
    by (simp add: Subscriber_unsubscribe_find_def find_topic_node.simps [of _ _ "Some 6"] l2 lost_3_def)
  have ok3: "subs_ok ((\<lambda>t. [])(3 := [5, 6])) ((\<lambda>u. [])(2 := [5], 4 := [6])) lost_3"
    using Subscriber_unsubscribe_find_inv [OF 2 l2(5), of 4 3] 3 by simp
  have node: "sb_node lost_3 9 = Some 6" by (simp add: lost_3_def)
  show "Subscriber_unsubscribe_erase 9 lost_3 = Ok lost_4"
    using erase_inv(1) [OF ok3 node] by (simp add: Subscriber_unsubscribe_erase_def node lost_4_def)
  have "(\<lambda>t. remove1 6 (((\<lambda>t. [])(3 := [5, 6])) t)) = (\<lambda>t :: nat. [])(3 := [5 :: nat])"
    "(\<lambda>u. remove1 6 (((\<lambda>u. [])(2 := [5], 4 := [6])) u)) = (\<lambda>u :: nat. [])(2 := [5 :: nat])"
    by (simp_all add: fun_eq_iff)
  then show 5: "subs_ok ((\<lambda>t. [])(3 := [5])) ((\<lambda>u. [])(2 := [5])) lost_4"
    using erase_inv(2) [OF ok3 node] by (simp add: lost_4_def)
  have "\<not> sb_alive lost_4 7" "sb_tail lost_4 3 = Some 6"
    by (simp_all add: lost_4_def unsubscribed_def lost_3_def lost_2_def lost_1_def) (simp_all add: new)
  from subscribed_inv [OF 5 this(1), of 3 8] this
  show "subs_ok ((\<lambda>t. [])(3 := [5])) ((\<lambda>u. [])(2 := [5], 8 := [7])) lost_5"
    by (simp add: lost_5_def topic_list_add_def)
qed

text \<open>The same on the server: the threads make the publishers of the snapshots, and do not post them yet.\<close>

definition lost_server :: "(nat, nat) tserver" where
  "lost_server = (sample_topic SeqKind)\<lparr>tv_subs := lost_5,
     tv_posting := [Publisher_snap 3 (Some 7), Publisher_snap 3 (Some 6), Publisher_snap 3 (Some 5)]\<rparr>"

lemma reserve_reach:
  assumes reach: "tv_reach get_id s" and inv: "subs_ok T S (tv_subs s)" and fresh: "\<not> sb_alive (tv_subs s) a"
    and u: "S u = []" and s: "tv_topics s t \<noteq> None" "tv_worker s = WIdle"
  shows "tv_reach get_id (s\<lparr>tv_subs := subscribed a t u (tv_subs s), tv_posting := Publisher_snap t (Some a) # tv_posting s\<rparr>)"
proof -
  have "with_topic t s (\<lambda>tp. Ok ()) = Ok ()" using s(1) by (auto simp: with_topic_def)
  then have "topic_reserve a t u s = Some (Ok (s\<lparr>tv_subs := subscribed a t u (tv_subs s)\<rparr>, Some a))"
    using Topic_reserve_subscribe_inv [OF inv fresh, of t u] u by (simp add: topic_reserve_def)
  from tv_reach_step [OF reach st_reserve [OF fresh _ this]] show ?thesis by (simp add: publishing_def s(2))
qed

lemma lost_server_reach: "tv_reach (\<lambda>x. x) lost_server"
proof -
  let ?p5 = "Publisher_snap 3 (Some 5)" and ?p6 = "Publisher_snap 3 (Some 6)"
  let ?s = "\<lambda>b ps. (sample_topic SeqKind)\<lparr>tv_subs := b, tv_posting := ps\<rparr>"
  have upd: "(?s b ps)\<lparr>tv_subs := b'\<rparr> = ?s b' ps" for b b' ps by (cases "sample_topic SeqKind") simp
  have "tv_reach (\<lambda>x. x) (sample_topic SeqKind)"
    unfolding sample_topic_def by (rule tv_reach_step [OF tv_reach_start st_make]) (simp_all add: TopicServer_new_def)
  from reserve_reach [OF this, of "\<lambda>t. []" "\<lambda>u. []" 5 2 3]
  have 1: "tv_reach (\<lambda>x. x) (?s lost_1 [?p5])"
    using no_subs_ok by (simp add: lost_1_def no_subs_def)
  have "\<not> sb_alive lost_1 6" by (simp add: lost_1_def subscribed_def no_subs_def Let_def)
  with reserve_reach [OF 1, of _ _ 6 4 3] lost_lists(1)
  have 2: "tv_reach (\<lambda>x. x) (?s lost_2 [?p6, ?p5])" by (simp add: lost_2_def)
  have free: "sb_node lost_2 9 = None" by (simp add: lost_2_def lost_1_def subscribed_def no_subs_def Let_def)
  have "tv_step (\<lambda>x. x) (?s lost_2 [?p6, ?p5]) ((?s lost_2 [?p6, ?p5])\<lparr>tv_subs := lost_3\<rparr>)"
    by (rule st_subscriber [of "OFind 9 4 3"]) (use lost_lists(3) free in simp_all)
  from tv_reach_step [OF 2 this] have 3: "tv_reach (\<lambda>x. x) (?s lost_3 [?p6, ?p5])" unfolding upd .
  have "sb_node lost_3 9 = Some 6" "sb_topic lost_3 6 = Some 3"
    by (simp_all add: lost_3_def lost_2_def lost_1_def) (simp add: subscribed_def Let_def)
  then have "tv_step (\<lambda>x. x) (?s lost_3 [?p6, ?p5]) ((?s lost_3 [?p6, ?p5])\<lparr>tv_subs := lost_4\<rparr>)"
    by (intro st_subscriber [of "OErase 9"]) (use lost_lists(4) in \<open>simp_all add: publishing_def\<close>)
  from tv_reach_step [OF 3 this] have 4: "tv_reach (\<lambda>x. x) (?s lost_4 [?p6, ?p5])" unfolding upd .
  have "\<not> sb_alive lost_4 7"
    by (simp add: lost_4_def unsubscribed_def lost_3_def lost_2_def lost_1_def) (simp add: subscribed_def no_subs_def Let_def)
  with reserve_reach [OF 4, of _ _ 7 8 3] lost_lists(5)
  show ?thesis by (simp add: lost_5_def lost_server_def)
qed

definition lost_published :: "(nat, nat) tserver" where
  "lost_published = lost_server\<lparr>tv_topics := (tv_topics lost_server)(3 := Some (sample_content SeqKind))\<rparr>"

theorem lost_subscription_witness:
  "sb_topic (tv_subs lost_published) 7 = Some 3 \<and> sb_subscriber (tv_subs lost_published) 7 = Some 8 \<and>
   (\<exists>ns'. working_nodes (tv_subs lost_published) (sb_head (tv_subs lost_published) 3) = Some (Ok ns') \<and> 7 \<notin> fst ` set ns')"
proof (intro conjI)
  have "append_new (\<lambda>x. x) 3 7 False lost_server = Ok lost_published"
    by (simp add: append_new_def with_topic_def lost_published_def lost_server_def sample_content_def v_insert_def Let_def split: prod.splits)
  then have run: "(tv_step (\<lambda>x. x))\<^sup>*\<^sup>* lost_server lost_published" by (intro r_into_rtranclp st_append)
  have "reached_nodes lost_5 3 = Some (Ok [(5, the (sb_subscriber lost_5 5))])" using reached_nodes_eq [OF lost_lists(6), of 3] by simp
  moreover have "sb_alive lost_5 7" by (simp add: lost_5_def subscribed_def Let_def)
  ultimately show "\<exists>ns'. working_nodes (tv_subs lost_published) (sb_head (tv_subs lost_published) 3) = Some (Ok ns') \<and> 7 \<notin> fst ` set ns'"
    using lost_subscription [OF lost_server_reach _ _ _ run, of 7 3 "[(5, the (sb_subscriber lost_5 5))]"] by (simp add: lost_server_def)
qed (simp_all add: lost_published_def lost_server_def lost_5_def subscribed_def Let_def)

end
