(* ===== verification/Eco_MessageServer.thy ===== *)
theory Eco_MessageServer
  imports Eco_MessageQueue "HOL-Library.Multiset"
begin

text \<open>
  The message server, \<open>src/project/eco/thread/MessageServer.h\<close>, with its thread pool
  (\<open>thread/ThreadPool.h\<close>): worker threads that take messages from the queue of
  \<open>Eco_MessageQueue\<close> and hand them to a handler. \<open>TaskServer\<close> and the closure server are its
  instances.

  The steps of the workers, of the threads that post and of the owner, who starts and stops the
  server, interleave in any order. The lemmas show that a message taken from the queue is
  handled exactly once, and that the workers always get the queue empty and, once it is closed,
  end, so that \<open>stop\<close> returns.
\<close>

section \<open>State\<close>

text \<open>
  A worker is about to call \<open>pop\<close>, waits in it, handles a message, or has ended. A handler
  returns or throws; the loop catches \<open>eco::Error\<close> and \<open>std::exception\<close>, anything else ends the
  program.
\<close>

datatype handler_end = HReturn | HError | HException | HOther

datatype 'm wthread = TRun | TWait | THandle 'm | TEnd

record 'm mserver =
  ms_queue :: "'m MessageQueue"
  ms_threads :: "tid \<Rightarrow> 'm wthread option"
  ms_pool :: "tid list"
  ms_events :: "'m mq_event list"
  ms_handled :: "(tid \<times> 'm) list"

definition MS_new :: "u32 \<Rightarrow> 'm mserver" where
  "MS_new capacity = \<lparr>ms_queue = MQ_new capacity, ms_threads = \<lambda>t. None, ms_pool = [], ms_events = [], ms_handled = []\<rparr>"

section \<open>The owner\<close>

text \<open>\<open>tids\<close> are the identities of new threads, as many as are asked for.\<close>

definition run_size :: "u32 \<Rightarrow> nat" where
  "run_size thread_size = (if thread_size = 0 then 1 else unat thread_size)"

definition ThreadPool_run :: "tid list \<Rightarrow> 'm mserver \<Rightarrow> 'm mserver" where
  "ThreadPool_run tids s = s\<lparr>ms_threads := (\<lambda>t. if t \<in> set tids then Some TRun else ms_threads s t), ms_pool := ms_pool s @ tids\<rparr>"

definition MS_run :: "u32 \<Rightarrow> tid list \<Rightarrow> 'm mserver \<Rightarrow> 'm mserver" where
  "MS_run thread_size tids s = ThreadPool_run (take (run_size thread_size) tids) (s\<lparr>ms_queue := MQ_open (ms_queue s)\<rparr>)"

text \<open>\<open>join\<close> waits for all threads of the pool, and then deletes them.\<close>

definition ThreadPool_release :: "'m mserver \<Rightarrow> 'm mserver" where
  "ThreadPool_release s = s\<lparr>ms_threads := (\<lambda>t. if t \<in> set (ms_pool s) then None else ms_threads s t), ms_pool := []\<rparr>"

definition ThreadPool_join :: "'m mserver \<Rightarrow> 'm mserver option" where
  "ThreadPool_join s =
     (if \<forall>t \<in> set (ms_pool s). ms_threads s t = Some TEnd then Some (ThreadPool_release s) else None)"

definition MS_join :: "'m mserver \<Rightarrow> 'm mserver option" where
  "MS_join s = ThreadPool_join s"

definition MS_close :: "'m mserver \<Rightarrow> 'm mserver" where
  "MS_close s = s\<lparr>ms_queue := MQ_close (ms_queue s)\<rparr>"

definition MS_release_queue :: "'m mserver \<Rightarrow> 'm mserver" where
  "MS_release_queue s = s\<lparr>ms_queue := MQ_release (ms_queue s), ms_events := ms_events s @ [EvRelease]\<rparr>"

text \<open>
  \<open>stop\<close> and \<open>release\<close> as seen by the thread that calls them: they wait in \<open>join\<close>, while the
  other threads go on.
\<close>

definition MS_stop :: "'m mserver \<Rightarrow> 'm mserver option" where
  "MS_stop s = MS_join (MS_close s)"

definition MS_release :: "'m mserver \<Rightarrow> 'm mserver option" where
  "MS_release s = MS_join (MS_release_queue s)"

definition MS_set_capacity :: "u32 \<Rightarrow> 'm mserver \<Rightarrow> 'm mserver" where
  "MS_set_capacity c s = s\<lparr>ms_queue := MQ_set_capacity c (ms_queue s), ms_events := ms_events s @ [EvCapacity]\<rparr>"

section \<open>Posting\<close>

definition ms_queued :: "'m MessageQueue \<times> 'm mq_event \<Rightarrow> 'm mserver \<Rightarrow> 'm mserver" where
  "ms_queued r s = s\<lparr>ms_queue := fst r, ms_events := ms_events s @ [snd r]\<rparr>"

definition MS_post :: "tid \<Rightarrow> 'm \<Rightarrow> nat \<Rightarrow> 'm mserver \<Rightarrow> 'm mserver" where
  "MS_post t msg i s = ms_queued (MQ_post t msg i (ms_queue s)) s"

definition MS_post_unique :: "('m \<Rightarrow> bool) \<Rightarrow> tid \<Rightarrow> 'm \<Rightarrow> nat \<Rightarrow> 'm mserver \<Rightarrow> 'm mserver" where
  "MS_post_unique unique_check t msg i s = ms_queued (MQ_post_unique unique_check t msg i (ms_queue s)) s"

text \<open>A producer that was woken while the queue was full goes once more around its loop.\<close>

definition MS_post_again :: "tid \<Rightarrow> 'm \<Rightarrow> nat \<Rightarrow> 'm mserver \<Rightarrow> 'm mserver" where
  "MS_post_again t msg i s = (let q = ms_queue s
     in ms_queued (MQ_raw_post t msg i (q\<lparr>mq_woken_post := remove1 (t, msg) (mq_woken_post q)\<rparr>)) s)"

section \<open>The workers\<close>

definition popped :: "tid \<Rightarrow> 'm MessageQueue \<times> 'm mq_event \<Rightarrow> 'm mserver \<Rightarrow> 'm mserver" where
  "popped t r s = (ms_queued r s)\<lparr>ms_threads := (ms_threads s)(t := Some (case snd r of
     EvPop t' msg \<Rightarrow> THandle msg
   | EvPopEnd t' \<Rightarrow> TEnd
   | _ \<Rightarrow> TWait))\<rparr>"

definition MS_work_pop :: "tid \<Rightarrow> nat \<Rightarrow> 'm mserver \<Rightarrow> 'm mserver" where
  "MS_work_pop t i s = popped t (MQ_pop t i (ms_queue s)) s"

definition MS_work_pop_again :: "tid \<Rightarrow> nat \<Rightarrow> 'm mserver \<Rightarrow> 'm mserver" where
  "MS_work_pop_again t i s = (let q = ms_queue s
     in popped t (MQ_pop t i (q\<lparr>mq_woken_pop := remove1 t (mq_woken_pop q)\<rparr>)) s)"

fun work_catches :: "handler_end \<Rightarrow> bool" where
  "work_catches HOther = False"
| "work_catches e = True"

definition MS_work_handle :: "('m \<Rightarrow> handler_end) \<Rightarrow> tid \<Rightarrow> 'm \<Rightarrow> 'm mserver \<Rightarrow> 'm mserver option" where
  "MS_work_handle h t msg s =
     (if work_catches (h msg)
      then Some (s\<lparr>ms_threads := (ms_threads s)(t := Some TRun), ms_handled := ms_handled s @ [(t, msg)]\<rparr>)
      else None)"

section \<open>Interleaving\<close>

text \<open>A step of a worker.\<close>

inductive work_step :: "('m \<Rightarrow> handler_end) \<Rightarrow> 'm mserver \<Rightarrow> 'm mserver \<Rightarrow> bool" for h where
  work_pop: "ms_threads s t = Some TRun \<Longrightarrow> notify_choice i (mq_full_cond_var (ms_queue s)) \<Longrightarrow> work_step h s (MS_work_pop t i s)"
| work_pop_again: "ms_threads s t = Some TWait \<Longrightarrow> t \<in> set (mq_woken_pop (ms_queue s)) \<Longrightarrow>
     notify_choice i (mq_full_cond_var (ms_queue s)) \<Longrightarrow> work_step h s (MS_work_pop_again t i s)"
| work_handle: "ms_threads s t = Some (THandle msg) \<Longrightarrow> MS_work_handle h t msg s = Some s' \<Longrightarrow> work_step h s s'"

text \<open>A step of any thread. The threads the owner starts are new.\<close>

inductive ms_step :: "('m \<Rightarrow> handler_end) \<Rightarrow> 'm mserver \<Rightarrow> 'm mserver \<Rightarrow> bool" for h where
  ms_work: "work_step h s s' \<Longrightarrow> ms_step h s s'"
| ms_post: "notify_choice i (mq_empty_cond_var (ms_queue s)) \<Longrightarrow> ms_step h s (MS_post t msg i s)"
| ms_post_unique: "notify_choice i (mq_empty_cond_var (ms_queue s)) \<Longrightarrow> ms_step h s (MS_post_unique chk t msg i s)"
| ms_post_again: "(t, msg) \<in> set (mq_woken_post (ms_queue s)) \<Longrightarrow>
     notify_choice i (mq_empty_cond_var (ms_queue s)) \<Longrightarrow> ms_step h s (MS_post_again t msg i s)"
| ms_spurious_pop: "i < length (mq_empty_cond_var (ms_queue s)) \<Longrightarrow> ms_step h s (s\<lparr>ms_queue := notify_empty i (ms_queue s)\<rparr>)"
| ms_spurious_post: "i < length (mq_full_cond_var (ms_queue s)) \<Longrightarrow> ms_step h s (s\<lparr>ms_queue := notify_full i (ms_queue s)\<rparr>)"
| ms_run: "distinct tids \<Longrightarrow> \<forall>t \<in> set tids. ms_threads s t = None \<Longrightarrow> length tids = run_size thread_size \<Longrightarrow>
     ms_step h s (MS_run thread_size tids s)"
| ms_close: "ms_step h s (MS_close s)"
| ms_release: "ms_step h s (MS_release_queue s)"
| ms_join: "MS_join s = Some s' \<Longrightarrow> ms_step h s s'"
| ms_set_capacity: "ms_step h s (MS_set_capacity c s)"

inductive ms_reach :: "('m \<Rightarrow> handler_end) \<Rightarrow> 'm mserver \<Rightarrow> bool" for h where
  ms_reach_start: "ms_reach h (MS_new c)"
| ms_reach_step: "ms_reach h s \<Longrightarrow> ms_step h s s' \<Longrightarrow> ms_reach h s'"

section \<open>A well-formed server\<close>

text \<open>
  The waiting workers are the ones on the condition variable and the ones woken; nobody
  sleeps while there are more messages than woken workers, or when the queue is closed.
\<close>

definition sleepers :: "'m MessageQueue \<Rightarrow> tid list" where
  "sleepers q = mq_empty_cond_var q @ mq_woken_pop q"

fun pop_of :: "'m mq_event \<Rightarrow> (tid \<times> 'm) list" where
  "pop_of (EvPop t msg) = [(t, msg)]"
| "pop_of ev = []"

definition taken :: "'m mserver \<Rightarrow> (tid \<times> 'm) list" where
  "taken s = concat (map pop_of (ms_events s))"

definition in_hand :: "'m mserver \<Rightarrow> tid \<Rightarrow> (tid \<times> 'm) list" where
  "in_hand s t = (case ms_threads s t of Some (THandle msg) \<Rightarrow> [(t, msg)] | _ \<Rightarrow> [])"

definition ms_inv :: "'m mserver \<Rightarrow> bool" where
  "ms_inv s \<longleftrightarrow> finite (dom (ms_threads s)) \<and> set (ms_pool s) = dom (ms_threads s) \<and>
     distinct (sleepers (ms_queue s)) \<and> (\<forall>t. t \<in> set (sleepers (ms_queue s)) \<longleftrightarrow> ms_threads s t = Some TWait) \<and>
     (mq_empty_cond_var (ms_queue s) = [] \<or> length (mq_deque (ms_queue s)) \<le> length (mq_woken_pop (ms_queue s))) \<and>
     (MQ_is_close (ms_queue s) \<longrightarrow> mq_empty_cond_var (ms_queue s) = []) \<and>
     fifo (ms_events s) [] = Some (mq_deque (ms_queue s)) \<and>
     (\<forall>t. filter (\<lambda>p. fst p = t) (taken s) = filter (\<lambda>p. fst p = t) (ms_handled s) @ in_hand s t)"

lemma ms_invD:
  assumes "ms_inv s"
  shows "finite (dom (ms_threads s))" "set (ms_pool s) = dom (ms_threads s)"
    "distinct (sleepers (ms_queue s))" "t \<in> set (sleepers (ms_queue s)) \<longleftrightarrow> ms_threads s t = Some TWait"
    "mq_empty_cond_var (ms_queue s) = [] \<or> length (mq_deque (ms_queue s)) \<le> length (mq_woken_pop (ms_queue s))"
    "MQ_is_close (ms_queue s) \<Longrightarrow> mq_empty_cond_var (ms_queue s) = []"
    "fifo (ms_events s) [] = Some (mq_deque (ms_queue s))"
    "filter (\<lambda>p. fst p = t) (taken s) = filter (\<lambda>p. fst p = t) (ms_handled s) @ in_hand s t"
  using assms by (simp_all add: ms_inv_def)

lemma MS_new_inv: "ms_inv (MS_new c)"
  by (simp add: ms_inv_def MS_new_def MQ_new_def MQ_open_def MQ_set_capacity_def sleepers_def taken_def in_hand_def)

text \<open>Waking somebody keeps who waits.\<close>

lemma notify_one_mset:
  "notify_one i waiting woken = (waiting', woken') \<Longrightarrow> mset (waiting' @ woken') = mset (waiting @ woken)"
proof (cases "i < length waiting")
  case True
  have "mset waiting = mset (take i waiting @ waiting ! i # drop (Suc i) waiting)" using True by (simp flip: id_take_nth_drop)
  then show "notify_one i waiting woken = (waiting', woken') \<Longrightarrow> ?thesis" using True by (auto simp: notify_one_def)
qed (auto simp: notify_one_def)

lemma sleepers_notify:
  "mset (sleepers (notify_empty i q)) = mset (sleepers q)" "sleepers (notify_full i q) = sleepers q"
  "sleepers (q\<lparr>mq_deque := d\<rparr>) = sleepers q" "sleepers (q\<lparr>mq_full_cond_var := f\<rparr>) = sleepers q"
  "sleepers (q\<lparr>mq_woken_post := w\<rparr>) = sleepers q"
proof -
  show "mset (sleepers (notify_empty i q)) = mset (sleepers q)"
    using notify_one_mset [of i "mq_empty_cond_var q" "mq_woken_pop q"]
    by (auto simp: sleepers_def notify_empty_def split: prod.splits)
qed (simp_all add: sleepers_def)

text \<open>A change of the queue that takes nothing out of it.\<close>

lemma ms_inv_queue:
  assumes inv: "ms_inv s" and same: "ms_threads s' = ms_threads s" "ms_pool s' = ms_pool s" "ms_handled s' = ms_handled s"
    and evs: "ms_events s' = ms_events s @ evs" "concat (map pop_of evs) = []"
      "fifo evs (mq_deque (ms_queue s)) = Some (mq_deque (ms_queue s'))"
    and sleep: "mset (sleepers (ms_queue s')) = mset (sleepers (ms_queue s))"
    and wake: "mq_empty_cond_var (ms_queue s') = [] \<or> length (mq_deque (ms_queue s')) \<le> length (mq_woken_pop (ms_queue s'))"
    and closed: "MQ_is_close (ms_queue s') \<Longrightarrow> mq_empty_cond_var (ms_queue s') = []"
  shows "ms_inv s'"
proof -
  have "set (sleepers (ms_queue s')) = set (sleepers (ms_queue s))" using sleep by (rule mset_eq_setD)
  moreover have "distinct (sleepers (ms_queue s'))" using ms_invD(3) [OF inv] mset_eq_imp_distinct_iff [OF sleep] by simp
  moreover have "taken s' = taken s" using evs(2) by (simp add: taken_def evs(1))
  moreover have "in_hand s' = in_hand s" by (rule ext) (simp add: in_hand_def same)
  moreover have "fifo (ms_events s') [] = Some (mq_deque (ms_queue s'))"
    using ms_invD(7) [OF inv] evs(3) by (simp add: evs(1) fifo_append)
  ultimately show ?thesis using ms_invD(1,2,4,8) [OF inv] wake closed by (simp add: ms_inv_def same)
qed

lemma ms_inv_queued:
  assumes inv: "ms_inv s" and ev: "pop_of ev = []" "fifo_step ev (mq_deque (ms_queue s)) = Some (mq_deque q)"
    and sleep: "mset (sleepers q) = mset (sleepers (ms_queue s))"
    and wake: "mq_empty_cond_var q = [] \<or> length (mq_deque q) \<le> length (mq_woken_pop q)"
    and closed: "MQ_is_close q \<Longrightarrow> mq_empty_cond_var q = []"
  shows "ms_inv (s\<lparr>ms_queue := q, ms_events := ms_events s @ [ev]\<rparr>)"
  by (rule ms_inv_queue [OF inv, where evs = "[ev]"]) (use assms in simp_all)

lemma ms_inv_silent:
  assumes inv: "ms_inv s" and deque: "mq_deque q = mq_deque (ms_queue s)"
    and sleep: "mset (sleepers q) = mset (sleepers (ms_queue s))"
    and wake: "mq_empty_cond_var q = [] \<or> length (mq_deque q) \<le> length (mq_woken_pop q)"
    and closed: "MQ_is_close q \<Longrightarrow> mq_empty_cond_var q = []"
  shows "ms_inv (s\<lparr>ms_queue := q\<rparr>)"
  by (rule ms_inv_queue [OF inv, where evs = "[]"]) (use assms in simp_all)

lemma raw_post_inv:
  assumes inv: "ms_inv s" and q0: "q0 = (ms_queue s)\<lparr>mq_woken_post := w\<rparr>"
    and choice: "notify_choice i (mq_empty_cond_var (ms_queue s))"
  shows "ms_inv (ms_queued (MQ_raw_post t msg i q0) s)"
proof -
  let ?q = "ms_queue s"
  note wake = ms_invD(5,6) [OF inv]
  show ?thesis
  proof (cases "MQ_is_full q0")
    case True
    then show ?thesis
      using wake unfolding ms_queued_def MQ_raw_post_def
      by (simp add: q0) (intro ms_inv_queued [OF inv]; simp add: sleepers_notify MQ_is_close_def)
  next
    case False
    let ?q1 = "q0\<lparr>mq_deque := mq_deque q0 @ [msg]\<rparr>"
    have "mq_empty_cond_var (notify_empty i ?q1) = [] \<or> length (mq_woken_pop (notify_empty i ?q1)) = Suc (length (mq_woken_pop ?q))"
      using notify_empty_woken [of i ?q1] choice by (simp add: q0)
    then have "mq_empty_cond_var (notify_empty i ?q1) = [] \<or>
        length (mq_deque (notify_empty i ?q1)) \<le> length (mq_woken_pop (notify_empty i ?q1))"
      using wake(1) notify_nobody(1) [of ?q1 i] by (auto simp: q0)
    then show ?thesis
      using wake(2) notify_nobody(1) [of ?q1 i] False unfolding ms_queued_def MQ_raw_post_def
      by (simp add: q0) (intro ms_inv_queued [OF inv]; simp add: sleepers_notify MQ_is_close_def)
  qed
qed

lemma post_inv: "ms_inv s \<Longrightarrow> notify_choice i (mq_empty_cond_var (ms_queue s)) \<Longrightarrow> ms_inv (MS_post t msg i s)"
  using raw_post_inv [of s "ms_queue s" "mq_woken_post (ms_queue s)" i t msg] by (simp add: MS_post_def MQ_post_def)

lemma post_again_inv: "ms_inv s \<Longrightarrow> notify_choice i (mq_empty_cond_var (ms_queue s)) \<Longrightarrow> ms_inv (MS_post_again t msg i s)"
  using raw_post_inv [OF _ refl] by (simp add: MS_post_again_def Let_def)

lemma post_unique_inv:
  assumes inv: "ms_inv s" and choice: "notify_choice i (mq_empty_cond_var (ms_queue s))"
  shows "ms_inv (MS_post_unique chk t msg i s)"
proof (cases "find_if chk (mq_deque (ms_queue s))")
  case None
  then show ?thesis using post_inv [OF inv choice, of t msg] by (simp add: MS_post_unique_def MQ_post_unique_def MS_post_def MQ_post_def)
next
  case (Some n)
  then show ?thesis
    using ms_invD(5,6) [OF inv] find_if_bound [OF Some]
    unfolding MS_post_unique_def MQ_post_unique_def ms_queued_def
    by simp (intro ms_inv_queued [OF inv]; simp add: sleepers_notify MQ_is_close_def)
qed

lemma spurious_inv:
  assumes inv: "ms_inv s"
  shows "i < length (mq_empty_cond_var (ms_queue s)) \<Longrightarrow> ms_inv (s\<lparr>ms_queue := notify_empty i (ms_queue s)\<rparr>)"
    and "ms_inv (s\<lparr>ms_queue := notify_full i (ms_queue s)\<rparr>)"
proof -
  let ?q = "notify_empty i (ms_queue s)"
  assume "i < length (mq_empty_cond_var (ms_queue s))"
  then have "mq_empty_cond_var ?q = [] \<or> length (mq_woken_pop ?q) = Suc (length (mq_woken_pop (ms_queue s)))"
    using notify_empty_woken [of i "ms_queue s"] by (simp add: notify_choice_def)
  then show "ms_inv (s\<lparr>ms_queue := ?q\<rparr>)"
    using ms_invD(5,6) [OF inv] notify_nobody(1) [of "ms_queue s" i]
    by (intro ms_inv_silent [OF inv]) (auto simp: sleepers_notify MQ_is_close_def)
next
  show "ms_inv (s\<lparr>ms_queue := notify_full i (ms_queue s)\<rparr>)"
    using ms_invD(5,6) [OF inv] by (intro ms_inv_silent [OF inv])
      (simp_all add: sleepers_notify MQ_is_close_def notify_full_def notify_one_def split: prod.splits)
qed

lemma raw_close_sel:
  "mset (sleepers (MQ_raw_close q)) = mset (sleepers q)" "mq_deque (MQ_raw_close q) = mq_deque q"
  "(mq_empty_cond_var q \<noteq> [] \<Longrightarrow> \<not> MQ_is_close q) \<Longrightarrow> mq_empty_cond_var (MQ_raw_close q) = []"
  by (auto simp: MQ_raw_close_def sleepers_def MQ_is_close_def)

lemma close_inv:
  assumes inv: "ms_inv s"
  shows "ms_inv (MS_close s)"
proof -
  have "mq_empty_cond_var (MQ_raw_close (ms_queue s)) = []" using ms_invD(6) [OF inv] by (intro raw_close_sel(3)) blast
  then show ?thesis
    unfolding MS_close_def MQ_close_def by (intro ms_inv_silent [OF inv]) (simp_all add: raw_close_sel)
qed

lemma release_inv:
  assumes inv: "ms_inv s"
  shows "ms_inv (MS_release_queue s)"
proof -
  let ?q = "(ms_queue s)\<lparr>mq_deque := []\<rparr>"
  have "mq_empty_cond_var (MQ_raw_close ?q) = []"
    using ms_invD(6) [OF inv] by (intro raw_close_sel(3)) (auto simp: MQ_is_close_def)
  then show ?thesis
    unfolding MS_release_queue_def MQ_release_def by (intro ms_inv_queued [OF inv]) (simp_all add: raw_close_sel sleepers_notify)
qed

lemma set_capacity_inv: "ms_inv s \<Longrightarrow> ms_inv (MS_set_capacity c s)"
  unfolding MS_set_capacity_def MQ_set_capacity_def using ms_invD(5,6) [of s]
  by (intro ms_inv_queued) (auto simp: sleepers_def MQ_is_close_def)

text \<open>New threads, and the end of all threads.\<close>

lemma open_not_closed: "\<not> MQ_is_close (MQ_open q)"
proof -
  have "mq_state q OR 4096 \<noteq> 0"
  proof
    assume "mq_state q OR 4096 = 0"
    then have "(mq_state q OR 4096) AND 4096 = 0" by simp
    then show False by (simp add: bit.conj_disj_distrib2)
  qed
  then show ?thesis by (simp add: MQ_is_close_def MQ_open_def State_op_defs State_flag_defs)
qed

lemma run_inv:
  assumes inv: "ms_inv s" and new: "\<forall>t \<in> set tids. ms_threads s t = None"
  shows "ms_inv (ThreadPool_run tids (s\<lparr>ms_queue := MQ_open (ms_queue s)\<rparr>))"
proof -
  let ?s = "s\<lparr>ms_queue := MQ_open (ms_queue s)\<rparr>" and ?s' = "ThreadPool_run tids (s\<lparr>ms_queue := MQ_open (ms_queue s)\<rparr>)"
  have "ms_inv ?s"
    using ms_invD(5) [OF inv] open_not_closed [of "ms_queue s"]
    by (intro ms_inv_silent [OF inv]) (simp_all add: MQ_open_def sleepers_def)
  note i = ms_invD [OF this]
  have dom: "dom (ms_threads ?s') = dom (ms_threads ?s) \<union> set tids" by (auto simp: ThreadPool_run_def split: if_splits)
  have wait: "ms_threads ?s' t = Some TWait \<longleftrightarrow> ms_threads ?s t = Some TWait" for t using new by (auto simp: ThreadPool_run_def)
  have hand: "in_hand ?s' t = in_hand ?s t" for t using new by (auto simp: in_hand_def ThreadPool_run_def)
  have rest: "ms_queue ?s' = ms_queue ?s" "ms_events ?s' = ms_events ?s" "ms_handled ?s' = ms_handled ?s"
    "ms_pool ?s' = ms_pool ?s @ tids" by (simp_all add: ThreadPool_run_def)
  then have "taken ?s' = taken ?s" by (simp add: taken_def)
  then show ?thesis using i unfolding ms_inv_def dom wait hand rest by auto
qed

lemma join_inv:
  assumes inv: "ms_inv s" and join: "MS_join s = Some s'"
  shows "ms_inv s'"
proof -
  have s': "s' = ThreadPool_release s" and ended: "\<And>t. t \<in> set (ms_pool s) \<Longrightarrow> ms_threads s t = Some TEnd"
    using join by (auto simp: MS_join_def ThreadPool_join_def split: if_splits)
  have none: "ms_threads s' = (\<lambda>t. None)"
    using ms_invD(2) [OF inv] by (auto simp: s' ThreadPool_release_def fun_eq_iff)
  have sel: "ms_queue s' = ms_queue s" "ms_pool s' = []" "ms_events s' = ms_events s" "ms_handled s' = ms_handled s"
    by (simp_all add: s' ThreadPool_release_def)
  have ended': "ms_threads s t = None \<or> ms_threads s t = Some TEnd" for t
    using ms_invD(2) [OF inv] ended [of t] by (cases "ms_threads s t") auto
  have "in_hand s t = []" for t using ended' [of t] by (auto simp: in_hand_def)
  moreover have "ms_threads s t \<noteq> Some TWait" for t using ended' [of t] by auto
  moreover have "taken s' = taken s" by (simp add: taken_def sel)
  ultimately show ?thesis using ms_invD [OF inv] unfolding ms_inv_def none sel in_hand_def by auto
qed

text \<open>
  The worker \<open>t\<close> calls \<open>pop\<close>, or goes once more around its loop: \<open>q0\<close> is the queue without
  its entry among the woken.
\<close>

lemma popped_inv:
  assumes inv: "ms_inv s" and q0: "q0 = (ms_queue s)\<lparr>mq_woken_pop := w\<rparr>"
    and sleep: "t \<notin> set (sleepers q0)" "distinct (sleepers q0)"
      "\<And>u. u \<noteq> t \<Longrightarrow> u \<in> set (sleepers q0) \<longleftrightarrow> ms_threads s u = Some TWait"
    and woken: "length (mq_woken_pop (ms_queue s)) \<le> Suc (length w)"
    and t: "ms_threads s t = Some TRun \<or> ms_threads s t = Some TWait"
  shows "ms_inv (popped t (MQ_pop t i q0) s)"
proof -
  let ?q = "ms_queue s" and ?s' = "popped t (MQ_pop t i q0) s"
  note q0_sel = q0 [THEN arg_cong [where f = mq_deque], simplified] q0 [THEN arg_cong [where f = mq_state], simplified]
    q0 [THEN arg_cong [where f = mq_empty_cond_var], simplified] q0 [THEN arg_cong [where f = mq_woken_pop], simplified]
  have dom: "dom (ms_threads ?s') = dom (ms_threads s)" using t by (auto simp: popped_def)
  have rest: "ms_pool ?s' = ms_pool s" "ms_handled ?s' = ms_handled s" by (simp_all add: popped_def ms_queued_def)
  have fifo': "fifo (ms_events ?s') [] = Some (mq_deque (ms_queue ?s'))"
    using MQ_pop_fifo [of t i q0 "fst (MQ_pop t i q0)" "snd (MQ_pop t i q0)"] ms_invD(7) [OF inv]
    by (simp add: popped_def ms_queued_def fifo_append q0_sel)
  have hand0: "in_hand s t = []" using t by (auto simp: in_hand_def)
  have hand: "in_hand ?s' u = in_hand s u" if "u \<noteq> t" for u using that by (simp add: in_hand_def popped_def)
  show ?thesis
  proof (cases "mq_deque ?q")
    case (Cons msg rest')
    have pop: "MQ_pop t i q0 = (notify_full i (q0\<lparr>mq_deque := rest'\<rparr>), EvPop t msg)"
      using Cons by (simp add: MQ_pop_def q0_sel)
    have sl: "sleepers (ms_queue ?s') = sleepers q0" by (simp add: popped_def ms_queued_def pop sleepers_notify)
    have th: "ms_threads ?s' = (ms_threads s)(t := Some (THandle msg))" by (simp add: popped_def pop)
    have tk: "taken ?s' = taken s @ [(t, msg)]" by (simp add: taken_def popped_def ms_queued_def pop)
    have hand1: "in_hand ?s' t = [(t, msg)]" by (simp add: in_hand_def th)
    have "mq_empty_cond_var (ms_queue ?s') = mq_empty_cond_var ?q" "mq_woken_pop (ms_queue ?s') = w"
      "mq_deque (ms_queue ?s') = rest'" "MQ_is_close (ms_queue ?s') = MQ_is_close ?q"
      by (simp_all add: popped_def ms_queued_def pop q0_sel MQ_is_close_def)
    note q' = this
    show ?thesis
      using ms_invD(1,2,5,6,8) [OF inv] sleep woken hand0 hand fifo' Cons
      unfolding ms_inv_def dom rest sl tk q' by (auto simp: th hand1)
  next
    case Nil
    show ?thesis
    proof (cases "MQ_is_close ?q")
      case True
      have pop: "MQ_pop t i q0 = (q0, EvPopEnd t)" using Nil True by (simp add: MQ_pop_def q0_sel MQ_is_close_def)
      have sl: "ms_queue ?s' = q0" by (simp add: popped_def ms_queued_def pop)
      have th: "ms_threads ?s' = (ms_threads s)(t := Some TEnd)" by (simp add: popped_def pop)
      have tk: "taken ?s' = taken s" by (simp add: taken_def popped_def ms_queued_def pop)
      have "in_hand ?s' t = []" by (simp add: in_hand_def th)
      then have hand': "in_hand ?s' u = in_hand s u" for u using hand0 hand by (cases "u = t") simp_all
      show ?thesis
        using ms_invD(1,2,6,8) [OF inv] sleep fifo' Nil True
        unfolding ms_inv_def dom rest sl tk hand' by (auto simp: th q0_sel)
    next
      case False
      have pop: "MQ_pop t i q0 = (q0\<lparr>mq_empty_cond_var := mq_empty_cond_var q0 @ [t]\<rparr>, EvNone)"
        using Nil False by (simp add: MQ_pop_def q0_sel MQ_is_close_def)
      have sl: "ms_queue ?s' = q0\<lparr>mq_empty_cond_var := mq_empty_cond_var q0 @ [t]\<rparr>" by (simp add: popped_def ms_queued_def pop)
      have sleep': "sleepers (q0\<lparr>mq_empty_cond_var := mq_empty_cond_var q0 @ [t]\<rparr>) = mq_empty_cond_var q0 @ t # mq_woken_pop q0"
        by (simp add: sleepers_def)
      have th: "ms_threads ?s' = (ms_threads s)(t := Some TWait)" by (simp add: popped_def pop)
      have tk: "taken ?s' = taken s" by (simp add: taken_def popped_def ms_queued_def pop)
      have "in_hand ?s' t = []" by (simp add: in_hand_def th)
      then have hand': "in_hand ?s' u = in_hand s u" for u using hand0 hand by (cases "u = t") simp_all
      have "MQ_is_close (q0\<lparr>mq_empty_cond_var := mq_empty_cond_var q0 @ [t]\<rparr>) = False" using False by (simp add: MQ_is_close_def q0_sel)
      then show ?thesis
        using ms_invD(1,2,8) [OF inv] sleep fifo' Nil
        unfolding ms_inv_def dom rest sl tk hand' sleep' by (auto simp: th q0_sel sleepers_def)
    qed
  qed
qed

lemma work_pop_inv:
  assumes inv: "ms_inv s" and t: "ms_threads s t = Some TRun"
  shows "ms_inv (MS_work_pop t i s)"
  unfolding MS_work_pop_def
proof (rule popped_inv [OF inv])
  show "ms_queue s = (ms_queue s)\<lparr>mq_woken_pop := mq_woken_pop (ms_queue s)\<rparr>" by simp
qed (use ms_invD(3,4) [OF inv] t in auto)

lemma work_pop_again_inv:
  assumes inv: "ms_inv s" and t: "ms_threads s t = Some TWait" "t \<in> set (mq_woken_pop (ms_queue s))"
  shows "ms_inv (MS_work_pop_again t i s)"
  unfolding MS_work_pop_again_def Let_def
proof (rule popped_inv [OF inv refl])
  let ?q = "ms_queue s"
  let ?r = "?q\<lparr>mq_woken_pop := remove1 t (mq_woken_pop ?q)\<rparr>"
  have dq: "distinct (mq_empty_cond_var ?q)" "distinct (mq_woken_pop ?q)"
      "\<And>u. u \<in> set (mq_empty_cond_var ?q) \<Longrightarrow> u \<notin> set (mq_woken_pop ?q)"
    using ms_invD(3) [OF inv] by (auto simp: sleepers_def)
  have woken: "set (mq_woken_pop ?r) = set (mq_woken_pop ?q) - {t}" using dq(2) by simp
  show "t \<notin> set (sleepers ?r)" using dq(3) t(2) woken by (auto simp: sleepers_def)
  have "set (mq_empty_cond_var ?q) \<inter> set (remove1 t (mq_woken_pop ?q)) = {}"
    using dq(3) set_remove1_subset [of t "mq_woken_pop ?q"] by blast
  then show "distinct (sleepers ?r)" using dq(1,2) by (simp add: sleepers_def distinct_remove1 del: set_remove1_eq)
  show "u \<in> set (sleepers ?r) \<longleftrightarrow> ms_threads s u = Some TWait" if "u \<noteq> t" for u
    using ms_invD(4) [OF inv, of u] woken that by (auto simp: sleepers_def)
  show "length (mq_woken_pop ?q) \<le> Suc (length (remove1 t (mq_woken_pop ?q)))"
    using t(2) by (simp add: length_remove1)
qed (simp add: t)

lemma work_handle_inv:
  assumes inv: "ms_inv s" and t: "ms_threads s t = Some (THandle msg)" and h: "MS_work_handle h t msg s = Some s'"
  shows "ms_inv s'"
proof -
  have s': "s' = s\<lparr>ms_threads := (ms_threads s)(t := Some TRun), ms_handled := ms_handled s @ [(t, msg)]\<rparr>"
    using h by (auto simp: MS_work_handle_def split: if_splits)
  have dom: "dom (ms_threads s') = dom (ms_threads s)" using t by (auto simp: s')
  have wait: "ms_threads s' u = Some TWait \<longleftrightarrow> ms_threads s u = Some TWait" for u using t by (auto simp: s')
  have tk: "taken s' = taken s" by (simp add: taken_def s')
  have "filter (\<lambda>p. fst p = u) (ms_handled s') @ in_hand s' u = filter (\<lambda>p. fst p = u) (ms_handled s) @ in_hand s u" for u
    using t by (auto simp: s' in_hand_def)
  moreover have sel: "ms_queue s' = ms_queue s" "ms_pool s' = ms_pool s" "ms_events s' = ms_events s" by (simp_all add: s')
  ultimately show ?thesis using ms_invD [OF inv] unfolding ms_inv_def dom wait tk sel by simp
qed

lemma work_step_inv: "work_step h s s' \<Longrightarrow> ms_inv s \<Longrightarrow> ms_inv s'"
  by (induction rule: work_step.induct) (rule work_pop_inv work_pop_again_inv work_handle_inv; assumption)+

lemma ms_step_inv: "ms_step h s s' \<Longrightarrow> ms_inv s \<Longrightarrow> ms_inv s'"
proof (induction rule: ms_step.induct)
  case (ms_run tids s thread_size)
  then show ?case using run_inv [of s tids] by (simp add: MS_run_def)
qed (blast intro: work_step_inv post_inv post_unique_inv post_again_inv spurious_inv close_inv release_inv join_inv
    set_capacity_inv)+

lemma ms_reach_inv: "ms_reach h s \<Longrightarrow> ms_inv s"
  by (induction rule: ms_reach.induct) (blast intro: MS_new_inv ms_step_inv)+

section \<open>The workers get done\<close>

text \<open>What the workers still have to do, with nobody posting.\<close>

fun thread_left :: "bool \<Rightarrow> 'm wthread option \<Rightarrow> nat" where
  "thread_left woken None = 0"
| "thread_left woken (Some TRun) = 2"
| "thread_left woken (Some TWait) = (if woken then 1 else 0)"
| "thread_left woken (Some (THandle msg)) = 3"
| "thread_left woken (Some TEnd) = 0"

definition work_left :: "'m mserver \<Rightarrow> nat" where
  "work_left s = 4 * length (mq_deque (ms_queue s)) +
     (\<Sum>t \<in> dom (ms_threads s). thread_left (t \<in> set (mq_woken_pop (ms_queue s))) (ms_threads s t))"

lemma work_left_change:
  assumes fin: "finite (dom (ms_threads s))" and t: "ms_threads s t = Some st" and s': "ms_threads s' = (ms_threads s)(t := Some st')"
    and woken: "\<And>u. u \<noteq> t \<Longrightarrow> u \<in> set (mq_woken_pop (ms_queue s')) \<longleftrightarrow> u \<in> set (mq_woken_pop (ms_queue s))"
    and less: "4 * length (mq_deque (ms_queue s')) + thread_left (t \<in> set (mq_woken_pop (ms_queue s'))) (Some st')
      < 4 * length (mq_deque (ms_queue s)) + thread_left (t \<in> set (mq_woken_pop (ms_queue s))) (Some st)"
  shows "work_left s' < work_left s"
proof -
  let ?f = "\<lambda>s t. thread_left (t \<in> set (mq_woken_pop (ms_queue s))) (ms_threads s t)"
  have dom: "dom (ms_threads s') = dom (ms_threads s)" and td: "t \<in> dom (ms_threads s)" using t by (auto simp: s')
  have "sum (?f s') (dom (ms_threads s) - {t}) = sum (?f s) (dom (ms_threads s) - {t})"
    by (rule sum.cong) (use woken in \<open>auto simp: s'\<close>)
  moreover have "?f s' t = thread_left (t \<in> set (mq_woken_pop (ms_queue s'))) (Some st')"
    and "?f s t = thread_left (t \<in> set (mq_woken_pop (ms_queue s))) (Some st)" using t by (simp_all add: s')
  ultimately show ?thesis
    using less unfolding work_left_def dom sum.remove [OF fin td] by linarith
qed

lemma popped_left:
  assumes inv: "ms_inv s" and q0: "q0 = (ms_queue s)\<lparr>mq_woken_pop := w\<rparr>"
    and w: "t \<notin> set w" "\<And>u. u \<noteq> t \<Longrightarrow> u \<in> set w \<longleftrightarrow> u \<in> set (mq_woken_pop (ms_queue s))"
    and t: "ms_threads s t = Some st" "st = TRun \<or> st = TWait \<and> t \<in> set (mq_woken_pop (ms_queue s))"
  shows "work_left (popped t (MQ_pop t i q0) s) < work_left s"
proof -
  obtain st' where th: "ms_threads (popped t (MQ_pop t i q0) s) = (ms_threads s)(t := Some st')"
    by (simp add: popped_def)
  have st': "st' = (case snd (MQ_pop t i q0) of EvPop t' msg \<Rightarrow> THandle msg | EvPopEnd t' \<Rightarrow> TEnd | _ \<Rightarrow> TWait)"
    using th by (auto simp: popped_def dest: fun_upd_eqD)
  have q: "ms_queue (popped t (MQ_pop t i q0) s) = fst (MQ_pop t i q0)" by (simp add: popped_def ms_queued_def)
  have woken: "mq_woken_pop (fst (MQ_pop t i q0)) = w" by (simp add: MQ_pop_def q0 split: list.splits)
  show ?thesis
  proof (rule work_left_change [OF ms_invD(1) [OF inv] t(1) th])
    show "4 * length (mq_deque (ms_queue (popped t (MQ_pop t i q0) s))) +
        thread_left (t \<in> set (mq_woken_pop (ms_queue (popped t (MQ_pop t i q0) s)))) (Some st')
      < 4 * length (mq_deque (ms_queue s)) + thread_left (t \<in> set (mq_woken_pop (ms_queue s))) (Some st)"
      using t(2) w(1) unfolding q woken st' by (auto simp: MQ_pop_def q0 split: list.splits)
  qed (use w(2) in \<open>simp add: q woken\<close>)
qed

lemma work_step_left: "work_step h s s' \<Longrightarrow> ms_inv s \<Longrightarrow> work_left s' < work_left s"
proof (induction rule: work_step.induct)
  case (work_pop s t i)
  have "t \<notin> set (mq_woken_pop (ms_queue s))" using ms_invD(4) [OF work_pop(3), of t] work_pop(1) by (auto simp: sleepers_def)
  then show ?case
    unfolding MS_work_pop_def
    by (intro popped_left [OF work_pop(3), where w = "mq_woken_pop (ms_queue s)"]) (use work_pop(1) in auto)
next
  case (work_pop_again s t i)
  have "distinct (mq_woken_pop (ms_queue s))" using ms_invD(3) [OF work_pop_again(4)] by (simp add: sleepers_def)
  then show ?case
    unfolding MS_work_pop_again_def Let_def
    by (intro popped_left [OF work_pop_again(4) refl]) (use work_pop_again(1,2) in auto)
next
  case (work_handle s t msg s')
  have s': "s' = s\<lparr>ms_threads := (ms_threads s)(t := Some TRun), ms_handled := ms_handled s @ [(t, msg)]\<rparr>"
    using work_handle(2) by (auto simp: MS_work_handle_def split: if_splits)
  show ?case by (rule work_left_change [OF ms_invD(1) [OF work_handle(3)] work_handle(1), where st' = TRun]) (simp_all add: s')
qed

text \<open>A thread that is not asleep and has not ended can take a step.\<close>

lemma work_step_ex:
  assumes h: "\<And>msg. work_catches (h msg)" and t: "ms_threads s t = Some st"
    and "st = TRun \<or> (\<exists>msg. st = THandle msg) \<or> st = TWait \<and> t \<in> set (mq_woken_pop (ms_queue s))"
  shows "\<exists>s'. work_step h s s'"
proof -
  have "notify_choice 0 (mq_full_cond_var (ms_queue s))" by (auto simp: notify_choice_def)
  then show ?thesis using assms work_pop [of s t 0 h] work_pop_again [of s t 0 h] work_handle [of s t _ h]
    by (auto simp: MS_work_handle_def)
qed

lemma stuck_threads:
  assumes inv: "ms_inv s" and h: "\<And>msg. work_catches (h msg)" and stuck: "\<nexists>s'. work_step h s s'"
  shows "ms_threads s t = Some st \<Longrightarrow> st = TEnd \<or> st = TWait \<and> t \<in> set (mq_empty_cond_var (ms_queue s))"
    and "mq_woken_pop (ms_queue s) = []"
proof -
  have no: "\<not> (st = TRun \<or> (\<exists>msg. st = THandle msg) \<or> st = TWait \<and> t \<in> set (mq_woken_pop (ms_queue s)))"
    if "ms_threads s t = Some st" for t st using work_step_ex [of h s t st] h that stuck by blast
  show "ms_threads s t = Some st \<Longrightarrow> st = TEnd \<or> st = TWait \<and> t \<in> set (mq_empty_cond_var (ms_queue s))"
    using no [of t st] ms_invD(4) [OF inv, of t] by (cases st) (auto simp: sleepers_def)
  show "mq_woken_pop (ms_queue s) = []"
  proof (rule ccontr)
    assume "mq_woken_pop (ms_queue s) \<noteq> []"
    then obtain t where "t \<in> set (mq_woken_pop (ms_queue s))" by (cases "mq_woken_pop (ms_queue s)") auto
    then show False using no [of t TWait] ms_invD(4) [OF inv, of t] by (auto simp: sleepers_def)
  qed
qed

text \<open>The last worker ends with an empty queue.\<close>

definition served :: "'m mserver \<Rightarrow> bool" where
  "served s \<longleftrightarrow> mq_deque (ms_queue s) = [] \<or> (\<exists>t st. ms_threads s t = Some st \<and> st \<noteq> TEnd)"

lemma work_step_served: "work_step h s s' \<Longrightarrow> served s'"
proof (induction rule: work_step.induct)
  case (work_pop s t i)
  then show ?case by (auto simp: served_def MS_work_pop_def popped_def ms_queued_def MQ_pop_def split: list.splits)
next
  case (work_pop_again s t i)
  then show ?case
    by (auto simp: served_def MS_work_pop_again_def popped_def ms_queued_def MQ_pop_def Let_def split: list.splits)
qed (auto simp: served_def MS_work_handle_def split: if_splits)

lemma work_step_close: "work_step h s s' \<Longrightarrow> mq_state (ms_queue s') = mq_state (ms_queue s)"
  by (induction rule: work_step.induct)
    (auto simp: MS_work_pop_def MS_work_pop_again_def MS_work_handle_def popped_def ms_queued_def MQ_pop_def Let_def
      split: list.splits if_splits)

lemma work_run_keeps:
  "(work_step h)\<^sup>*\<^sup>* s s' \<Longrightarrow> ms_inv s \<Longrightarrow> served s \<Longrightarrow>
     ms_inv s' \<and> served s' \<and> mq_state (ms_queue s') = mq_state (ms_queue s)"
  by (induction rule: rtranclp_induct) (auto dest: work_step_inv work_step_served work_step_close)

lemma stuck_served:
  assumes inv: "ms_inv s" and served: "served s" and h: "\<And>msg. work_catches (h msg)" and stuck: "\<nexists>s'. work_step h s s'"
  shows "mq_deque (ms_queue s) = []" and "in_hand s t = []"
    and "MQ_is_close (ms_queue s) \<Longrightarrow> MS_join s = Some (ThreadPool_release s)"
proof -
  note threads = stuck_threads [OF inv h stuck]
  show "mq_deque (ms_queue s) = []"
  proof (cases "mq_empty_cond_var (ms_queue s) = []")
    case True
    then show ?thesis using served threads(1) by (fastforce simp: served_def)
  qed (use ms_invD(5) [OF inv] threads(2) in simp)
  show "in_hand s t = []" using threads(1) [of t] by (auto simp: in_hand_def split: option.splits wthread.splits)
  show "MQ_is_close (ms_queue s) \<Longrightarrow> MS_join s = Some (ThreadPool_release s)"
  proof -
    assume "MQ_is_close (ms_queue s)"
    then have "mq_empty_cond_var (ms_queue s) = []" by (rule ms_invD(6) [OF inv])
    then have "ms_threads s t = Some TEnd" if "t \<in> set (ms_pool s)" for t
      using threads(1) [of t] that ms_invD(2) [OF inv] by (cases "ms_threads s t") auto
    then show ?thesis by (simp add: MS_join_def ThreadPool_join_def)
  qed
qed

lemma work_run_ends:
  "ms_inv s \<Longrightarrow> \<exists>s'. (work_step h)\<^sup>*\<^sup>* s s' \<and> (\<nexists>s''. work_step h s' s'')"
proof (induction "work_left s" arbitrary: s rule: less_induct)
  case less
  show ?case
  proof (cases "\<exists>s1. work_step h s s1")
    case True
    then obtain s1 where s1: "work_step h s s1" by blast
    from less.hyps [OF work_step_left [OF s1 less.prems] work_step_inv [OF s1 less.prems]]
    show ?thesis using s1 by (meson converse_rtranclp_into_rtranclp)
  qed blast
qed

lemma no_decreasing: "\<not> (\<forall>n. f (Suc n) < (f n :: nat))"
  using wf_less_than unfolding wf_iff_no_infinite_down_chain by auto

section \<open>Properties\<close>

text \<open>
  Claim C20. Under every interleaving of the threads, the queue is first-in first-out, and each
  worker has handled exactly the messages it has taken, each once and in the order it took them,
  but for the one it is handling; an exception of a handler loses none.
\<close>

theorem messages_handled_once:
  assumes "ms_reach h s"
  shows "fifo (ms_events s) [] = Some (mq_deque (ms_queue s)) \<and>
    (\<forall>t. filter (\<lambda>p. fst p = t) (taken s) = filter (\<lambda>p. fst p = t) (ms_handled s) @ in_hand s t)"
  using ms_invD(7,8) [OF ms_reach_inv [OF assms]] by blast

text \<open>
  Claim C14. The workers of a server, left alone, get done: they run out of steps, and then the
  queue is empty and nothing is in their hands; if the queue is closed they have all ended, so
  that \<open>join\<close>, and with it \<open>stop\<close>, returns. A handler may throw what the loop catches.
\<close>

theorem message_server_drains:
  assumes "ms_reach h s" and "\<And>msg. work_catches (h msg)" and "ms_threads s t = Some st" and "st \<noteq> TEnd"
  shows "(\<forall>f :: nat \<Rightarrow> 'a mserver. f 0 = s \<longrightarrow> (\<exists>n. \<not> work_step h (f n) (f (Suc n)))) \<and>
    (\<forall>s'. (work_step h)\<^sup>*\<^sup>* s s' \<and> (\<nexists>s''. work_step h s' s'') \<longrightarrow>
      mq_deque (ms_queue s') = [] \<and> (\<forall>t. in_hand s' t = []) \<and>
      (MQ_is_close (ms_queue s) \<longrightarrow> MS_join s' = Some (ThreadPool_release s'))) \<and>
    (\<exists>s'. (work_step h)\<^sup>*\<^sup>* s s' \<and> (\<nexists>s''. work_step h s' s''))"
proof (intro conjI allI impI)
  have inv: "ms_inv s" by (rule ms_reach_inv [OF assms(1)])
  have served: "served s" using assms(3,4) by (auto simp: served_def)
  {
    fix f :: "nat \<Rightarrow> 'a mserver"
    assume f0: "f 0 = s"
    show "\<exists>n. \<not> work_step h (f n) (f (Suc n))"
    proof (rule ccontr)
      assume "\<nexists>n. \<not> work_step h (f n) (f (Suc n))"
      then have step: "work_step h (f n) (f (Suc n))" for n by blast
      have "ms_inv (f n)" for n by (induction n) (use inv f0 work_step_inv [OF step] in auto)
      then have "\<forall>n. work_left (f (Suc n)) < work_left (f n)" using work_step_left [OF step] by blast
      then show False using no_decreasing [of "\<lambda>n. work_left (f n)"] by blast
    qed
  next
    fix s'
    assume run: "(work_step h)\<^sup>*\<^sup>* s s' \<and> (\<nexists>s''. work_step h s' s'')"
    then have k: "ms_inv s'" "served s'" "mq_state (ms_queue s') = mq_state (ms_queue s)"
      using work_run_keeps [OF _ inv served] by blast+
    from run have stuck: "\<nexists>s''. work_step h s' s''" by blast
    note done_facts = stuck_served [OF k(1,2) assms(2) stuck]
    show "mq_deque (ms_queue s') = []" by (rule done_facts(1))
    show "in_hand s' t = []" for t by (rule done_facts(2))
    show "MS_join s' = Some (ThreadPool_release s')" if "MQ_is_close (ms_queue s)"
      using done_facts(3) that k(3) by (simp add: MQ_is_close_def)
  }
  show "\<exists>s'. (work_step h)\<^sup>*\<^sup>* s s' \<and> (\<nexists>s''. work_step h s' s'')" by (rule work_run_ends [OF inv])
qed

text \<open>A run: one worker, a message, which the worker takes.\<close>

definition ms_sample :: "nat mserver" where
  "ms_sample = MS_work_pop 9 0 (MS_post 4 7 0 (MS_run 0 [9] (MS_new 5)))"

lemma ms_sample_reach: "ms_reach h ms_sample"
proof -
  let ?s1 = "MS_run 0 [9] (MS_new 5) :: nat mserver" and ?s2 = "MS_post 4 7 0 (MS_run 0 [9] (MS_new 5)) :: nat mserver"
  have r1: "ms_reach h ?s1"
    by (rule ms_reach_step [OF ms_reach_start ms_run]) (simp_all add: MS_new_def run_size_def)
  have r2: "ms_reach h ?s2" by (rule ms_reach_step [OF r1 ms_post]) (auto simp: notify_choice_def)
  have "ms_threads ?s2 9 = Some TRun" by (simp add: MS_post_def ms_queued_def MS_run_def ThreadPool_run_def run_size_def)
  then show ?thesis
    unfolding ms_sample_def by (intro ms_reach_step [OF r2 ms_work] work_pop) (auto simp: notify_choice_def)
qed

lemma ms_sample_sel: "taken ms_sample = [(9, 7)]" "ms_handled ms_sample = []" "ms_threads ms_sample 9 = Some (THandle 7)"
  "mq_deque (ms_queue ms_sample) = []"
proof -
  note unf = ms_sample_def MS_work_pop_def MS_post_def MS_run_def MS_new_def ThreadPool_run_def run_size_def popped_def
    ms_queued_def MQ_post_def MQ_raw_post_def MQ_pop_def MQ_new_def MQ_open_def MQ_set_capacity_def MQ_is_full_def taken_def
  show "taken ms_sample = [(9, 7)]" "ms_handled ms_sample = []" "ms_threads ms_sample 9 = Some (THandle 7)"
    "mq_deque (ms_queue ms_sample) = []" by (simp_all add: unf)
qed

theorem messages_handled_once_witness: "in_hand ms_sample 9 = [(9, 7)]"
  using messages_handled_once [OF ms_sample_reach [of "\<lambda>m. HReturn"]] by (simp add: ms_sample_sel in_hand_def)

theorem message_server_drains_witness:
  "\<exists>s'. (work_step (\<lambda>m. HException))\<^sup>*\<^sup>* ms_sample s' \<and> (\<nexists>s''. work_step (\<lambda>m. HException) s' s'')"
  using message_server_drains [OF ms_sample_reach [of "\<lambda>m. HException"] _ ms_sample_sel(3)]
  by simp

end
