(* ===== verification/Eco_FixBuffer.thy ===== *)
theory Eco_FixBuffer
  imports Eco_String
begin

text \<open>
  The buffer of a fixed size, \<open>FixBuffer\<close> of \<open>src/project/eco/Type.h\<close>, which errors and log messages
  are printed into.

  It is a refinement of a list that is cut at its capacity: no operation with a size leaves the
  array, and each keeps a terminator behind the text. Appending a C string has no bound, and
  leaves the array exactly when the string does not fit.
\<close>

section \<open>A buffer of a fixed size\<close>

text \<open>The template argument \<open>fix_size\<close> is the length of the array.\<close>

record FixBuffer =
  fb_data :: bytes
  fb_size :: u32

definition fb_capacity :: "u32 \<Rightarrow> u32" where
  "fb_capacity fix_size = fix_size - 1"

definition fb_avail :: "u32 \<Rightarrow> FixBuffer \<Rightarrow> u32" where
  "fb_avail fix_size b = fb_capacity fix_size - fb_size b"

definition fb_is_avail :: "u32 \<Rightarrow> FixBuffer \<Rightarrow> u32 \<Rightarrow> bool" where
  "fb_is_avail fix_size b new_size = (new_size \<le> fb_avail fix_size b)"

definition fb_is_full :: "u32 \<Rightarrow> FixBuffer \<Rightarrow> bool" where
  "fb_is_full fix_size b = (fb_avail fix_size b = 0)"

definition fb_store :: "FixBuffer \<Rightarrow> u32 \<Rightarrow> byte \<Rightarrow> FixBuffer outcome" where
  "fb_store b pos v = obind (wr (fb_data b) (unat pos) v) (\<lambda>d. Ok (b\<lparr>fb_data := d\<rparr>))"

definition fb_clear :: "FixBuffer \<Rightarrow> FixBuffer outcome" where
  "fb_clear b = fb_store (b\<lparr>fb_size := 0\<rparr>) 0 0"

definition fb_new :: "(nat \<Rightarrow> byte) \<Rightarrow> u32 \<Rightarrow> FixBuffer outcome" where
  "fb_new garbage fix_size = fb_clear \<lparr>fb_data = alloc garbage fix_size, fb_size = 0\<rparr>"

definition fb_append :: "u32 \<Rightarrow> FixBuffer \<Rightarrow> bytes \<Rightarrow> u32 \<Rightarrow> (FixBuffer \<times> u32) outcome" where
  "fb_append fix_size b buf siz =
     (let append_size = (if siz < fb_avail fix_size b then siz else fb_avail fix_size b) in
      if 0 < append_size then
        if unat append_size \<le> length buf then
          obind (memcpy_at (fb_data b) (unat (fb_size b)) (take (unat append_size) buf)) (\<lambda>d.
          obind (fb_store (b\<lparr>fb_data := d, fb_size := fb_size b + append_size\<rparr>) (fb_size b + append_size) 0) (\<lambda>b'.
          Ok (b', append_size)))
        else UB
      else Ok (b, append_size))"

text \<open>Appending a C string copies up to its terminator.\<close>

fun fb_append_loop :: "FixBuffer \<Rightarrow> bytes \<Rightarrow> FixBuffer outcome" where
  "fb_append_loop b [] = UB"
| "fb_append_loop b (c # cs) =
     (if c \<noteq> 0
      then obind (fb_store b (fb_size b) c) (\<lambda>b'. fb_append_loop (b'\<lparr>fb_size := fb_size b' + 1\<rparr>) cs)
      else fb_store b (fb_size b) 0)"

definition fb_append_cstr :: "FixBuffer \<Rightarrow> bytes \<Rightarrow> (FixBuffer \<times> u32) outcome" where
  "fb_append_cstr b buf = (let init_size = fb_size b
     in obind (fb_append_loop b buf) (\<lambda>b'. Ok (b', fb_size b' - init_size)))"

definition fb_append_char :: "u32 \<Rightarrow> FixBuffer \<Rightarrow> byte \<Rightarrow> (FixBuffer \<times> u32) outcome" where
  "fb_append_char fix_size b v =
     (if 1 \<le> fb_avail fix_size b then
        obind (fb_store b (fb_size b) v) (\<lambda>b1.
        let b2 = b1\<lparr>fb_size := fb_size b1 + 1\<rparr> in
        obind (fb_store b2 (fb_size b2) 0) (\<lambda>b3. Ok (b3, 1)))
      else Ok (b, 0))"

definition fb_append_buffer :: "u32 \<Rightarrow> FixBuffer \<Rightarrow> FixBuffer \<Rightarrow> (FixBuffer \<times> u32) outcome" where
  "fb_append_buffer fix_size b buf = fb_append fix_size b (fb_data buf) (fb_size buf)"

definition fb_erase :: "FixBuffer \<Rightarrow> u32 \<Rightarrow> FixBuffer outcome" where
  "fb_erase b siz =
     (let new_size = sint (fb_size b - siz);
          b' = b\<lparr>fb_size := (if 0 < new_size then word_of_int new_size else 0)\<rparr>
      in fb_store b' (fb_size b') 0)"

definition fb_force :: "u32 \<Rightarrow> FixBuffer \<Rightarrow> u32 \<Rightarrow> FixBuffer outcome" where
  "fb_force fix_size b siz =
     (let erase_size = sint (siz - fb_avail fix_size b)
      in if 0 < erase_size then fb_erase b (word_of_int erase_size) else Ok b)"

definition fb_force_append :: "u32 \<Rightarrow> FixBuffer \<Rightarrow> bytes \<Rightarrow> u32 \<Rightarrow> (FixBuffer \<times> u32) outcome" where
  "fb_force_append fix_size b buf buf_size =
     obind (fb_force fix_size b buf_size) (\<lambda>b'. fb_append fix_size b' buf buf_size)"

definition fb_force_append_char :: "u32 \<Rightarrow> FixBuffer \<Rightarrow> byte \<Rightarrow> (FixBuffer \<times> u32) outcome" where
  "fb_force_append_char fix_size b v = obind (fb_force fix_size b 1) (\<lambda>b'. fb_append_char fix_size b' v)"

definition fb_assign :: "u32 \<Rightarrow> FixBuffer \<Rightarrow> bytes \<Rightarrow> u32 \<Rightarrow> FixBuffer outcome" where
  "fb_assign fix_size b buf buf_size =
     obind (fb_clear b) (\<lambda>b1. obind (fb_append fix_size b1 buf buf_size) (\<lambda>r. Ok (fst r)))"

definition fb_assign_cstr :: "FixBuffer \<Rightarrow> bytes \<Rightarrow> FixBuffer outcome" where
  "fb_assign_cstr b buf = obind (fb_clear b) (\<lambda>b1. obind (fb_append_cstr b1 buf) (\<lambda>r. Ok (fst r)))"

section \<open>It refines a bounded list\<close>

definition fb_wf :: "u32 \<Rightarrow> FixBuffer \<Rightarrow> bool" where
  "fb_wf fix_size b \<longleftrightarrow> length (fb_data b) = unat fix_size \<and> fb_size b < fix_size \<and> fb_data b ! unat (fb_size b) = 0"

definition fb_text :: "FixBuffer \<Rightarrow> bytes" where
  "fb_text b = take (unat (fb_size b)) (fb_data b)"

definition fb_room :: "u32 \<Rightarrow> nat" where
  "fb_room fix_size = unat fix_size - 1"

lemma fb_wf_size:
  assumes "fb_wf f b"
  shows "unat (fb_capacity f) = fb_room f" "length (fb_text b) = unat (fb_size b)" "unat (fb_size b) \<le> fb_room f"
    "unat (fb_avail f b) = fb_room f - length (fb_text b)" "unat f = Suc (fb_room f)"
proof -
  have f: "unat (fb_size b) < unat f" "length (fb_data b) = unat f"
    using assms by (auto simp: fb_wf_def word_less_nat_alt)
  then show r: "unat f = Suc (fb_room f)" "unat (fb_size b) \<le> fb_room f" "length (fb_text b) = unat (fb_size b)"
    by (auto simp: fb_room_def fb_text_def)
  have "1 \<le> f" using r(1) by (simp add: word_le_nat_alt)
  then show c: "unat (fb_capacity f) = fb_room f" by (simp add: fb_capacity_def fb_room_def unat_sub_if' word_le_nat_alt)
  show "unat (fb_avail f b) = fb_room f - length (fb_text b)"
    using r c by (simp add: fb_avail_def unat_sub_if')
qed

text \<open>Writing the text \<open>xs\<close> behind the old one and a terminator.\<close>

lemma fb_write:
  assumes wf: "fb_wf f b" and fits: "length (fb_text b) + length xs \<le> fb_room f"
    and d: "length d = length (fb_data b)" "take (unat (fb_size b) + length xs) d = fb_text b @ xs"
    and n: "n = fb_size b + of_nat (length xs)"
  shows "\<exists>b'. fb_store \<lparr>fb_data = d, fb_size = n\<rparr> n 0 = Ok b' \<and> fb_wf f b' \<and> fb_text b' = fb_text b @ xs"
proof -
  note sz = fb_wf_size [OF wf]
  have "unat (fb_size b) + length xs < unat f" using fits sz by simp
  moreover have "unat f < 4294967296" using unsigned_less [of f, where 'a = nat] by simp
  ultimately have un: "unat n = unat (fb_size b) + length xs" "unat n < unat f"
    by (simp_all add: n unat_word_ariths unat_of_nat)
  moreover have "length d = unat f" using wf d(1) by (simp add: fb_wf_def)
  ultimately show ?thesis using d(2) by (simp add: fb_store_def wr_def fb_wf_def fb_text_def word_less_nat_alt)
qed

lemma memcpy_text:
  assumes wf: "fb_wf f b" and fits: "length (fb_text b) + length xs \<le> fb_room f"
  obtains d where "memcpy_at (fb_data b) (unat (fb_size b)) xs = Ok d" "length d = length (fb_data b)"
    "take (unat (fb_size b) + length xs) d = fb_text b @ xs"
proof -
  note sz = fb_wf_size [OF wf]
  have "length (fb_data b) = unat f" using wf by (simp add: fb_wf_def)
  then show thesis using that fits sz by (simp add: memcpy_at_def fb_text_def)
qed

lemma of_nat_unat_id: "of_nat (unat (w :: 'a::len word)) = w"
  by simp

lemma fb_append_refines:
  assumes wf: "fb_wf f b" and small: "length xs < 4294967296"
  shows "\<exists>b'. fb_append f b (xs @ rest) (of_nat (length xs)) = Ok (b', of_nat (min (length xs) (fb_room f - length (fb_text b)))) \<and>
    fb_wf f b' \<and> fb_text b' = take (fb_room f) (fb_text b @ xs)"
proof -
  note sz = fb_wf_size [OF wf]
  let ?k = "min (length xs) (fb_room f - length (fb_text b))"
  let ?a = "if of_nat (length xs) < fb_avail f b then of_nat (length xs) else fb_avail f b :: u32"
  have un: "unat ?a = ?k" using small sz by (auto simp: word_less_nat_alt unat_of_nat)
  have a: "?a = of_nat ?k" unfolding un [symmetric] by (rule of_nat_unat_id [symmetric])
  let ?ys = "take ?k xs"
  have fits: "length (fb_text b) + length ?ys \<le> fb_room f" using sz by simp
  have cut: "take (fb_room f) (fb_text b @ xs) = fb_text b @ ?ys" using sz by (simp add: min_def)
  show ?thesis
  proof (cases "?k = 0")
    case True
    then show ?thesis using a cut wf by (simp add: fb_append_def Let_def)
  next
    case False
    then have pos: "0 < ?a" using un by (simp add: word_gt_0 unat_eq_0 [symmetric])
    obtain d where d: "memcpy_at (fb_data b) (unat (fb_size b)) ?ys = Ok d" "length d = length (fb_data b)"
      "take (unat (fb_size b) + length ?ys) d = fb_text b @ ?ys" using memcpy_text [OF wf fits] by blast
    obtain b' where b': "fb_store \<lparr>fb_data = d, fb_size = fb_size b + of_nat (length ?ys)\<rparr> (fb_size b + of_nat (length ?ys)) 0 = Ok b'"
      "fb_wf f b'" "fb_text b' = fb_text b @ ?ys" using fb_write [OF wf fits d(2,3) refl] by blast
    have len: "length ?ys = ?k" by simp
    have take: "take ?k (xs @ rest) = ?ys" by simp
    have le: "?k \<le> length xs + length rest" by simp
    have upd: "b\<lparr>fb_data := d, fb_size := n\<rparr> = \<lparr>fb_data = d, fb_size = n\<rparr>" for n by (cases b) simp
    then have "fb_append f b (xs @ rest) (of_nat (length xs)) = Ok (b', of_nat ?k)"
      using pos un d(1) b'(1) le unfolding fb_append_def Let_def a len take by (simp add: upd)
    then show ?thesis using b'(2,3) cut by auto
  qed
qed

lemma fb_append_char_refines:
  assumes wf: "fb_wf f b"
  shows "\<exists>b'. fb_append_char f b v = Ok (b', if length (fb_text b) < fb_room f then 1 else 0) \<and>
    fb_wf f b' \<and> fb_text b' = take (fb_room f) (fb_text b @ [v])"
proof (cases "length (fb_text b) < fb_room f")
  case True
  note sz = fb_wf_size [OF wf]
  have len: "length (fb_data b) = unat f" using wf by (simp add: fb_wf_def)
  let ?d = "(fb_data b)[unat (fb_size b) := v]"
  have fits: "length (fb_text b) + length [v] \<le> fb_room f" using True by simp
  have "take (unat (fb_size b) + length [v]) ?d = fb_text b @ [v]"
    using True sz len by (simp add: fb_text_def take_Suc_conv_app_nth)
  from fb_write [OF wf fits _ this refl] obtain b' where b': "fb_store \<lparr>fb_data = ?d, fb_size = fb_size b + 1\<rparr> (fb_size b + 1) 0 = Ok b'"
    "fb_wf f b'" "fb_text b' = fb_text b @ [v]" by auto
  have st: "fb_store b (fb_size b) v = Ok \<lparr>fb_data = ?d, fb_size = fb_size b\<rparr>"
    using True sz len by (cases b) (simp add: fb_store_def wr_def)
  have "1 \<le> fb_avail f b" using True sz by (simp add: word_le_nat_alt)
  then show ?thesis using True b' st by (simp add: fb_append_char_def)
next
  case False
  note sz = fb_wf_size [OF wf]
  have "unat (fb_avail f b) = 0" using False sz by simp
  then have "\<not> 1 \<le> fb_avail f b" by (simp add: word_le_nat_alt)
  moreover have "length (fb_text b) = fb_room f" using False sz by simp
  ultimately show ?thesis using False wf by (simp add: fb_append_char_def)
qed

lemma fb_store_zero:
  assumes "length (fb_data b) = unat f" "n < f" "n \<le> fb_size b"
  shows "\<exists>b'. fb_store (b\<lparr>fb_size := n\<rparr>) n 0 = Ok b' \<and> fb_wf f b' \<and> fb_text b' = take (unat n) (fb_text b)"
  using assms by (simp add: fb_store_def wr_def word_less_nat_alt word_le_nat_alt fb_wf_def fb_text_def min_absorb1)

lemma fb_clear_refines: "length (fb_data b) = unat f \<Longrightarrow> 0 < f \<Longrightarrow> \<exists>b'. fb_clear b = Ok b' \<and> fb_wf f b' \<and> fb_text b' = []"
  using fb_store_zero [of b f 0] by (simp add: fb_clear_def)

lemma power_31: "(2 :: int) ^ 31 = 2147483648"
  by simp

lemma sint_diff_small:
  assumes "unat (a :: u32) < 2147483648" "unat n < 2147483648"
  shows "sint (a - n) = int (unat a) - int (unat n)"
proof -
  have "a - n = word_of_int (int (unat a) - int (unat n))" by simp
  then have "sint (a - n) = signed_take_bit 31 (int (unat a) - int (unat n))" by (simp only: signed_of_int) simp
  also have "\<dots> = int (unat a) - int (unat n)" by (rule signed_take_bit_int_eq_self; unfold power_31; use assms in linarith)
  finally show ?thesis .
qed

lemma fb_erase_refines:
  assumes wf: "fb_wf f b" and small: "unat f \<le> 2147483648" "unat n < 2147483648"
  shows "\<exists>b'. fb_erase b n = Ok b' \<and> fb_wf f b' \<and> fb_text b' = take (length (fb_text b) - unat n) (fb_text b)"
proof -
  note sz = fb_wf_size [OF wf]
  let ?m = "sint (fb_size b - n)"
  let ?t = "if 0 < ?m then word_of_int ?m else 0 :: u32"
  have s: "?m = int (unat (fb_size b)) - int (unat n)" using sz small by (intro sint_diff_small) simp_all
  have t: "unat ?t = unat (fb_size b) - unat n"
  proof (cases "0 < ?m")
    case True
    then have "?t = fb_size b - n" by simp
    moreover have "unat n \<le> unat (fb_size b)" using True s by linarith
    ultimately show ?thesis by (simp add: unat_sub_if')
  next
    case False
    then have "unat (fb_size b) \<le> unat n" using s by linarith
    then show ?thesis using False by simp
  qed
  then have "?t < f" "?t \<le> fb_size b" using sz by (simp_all add: word_less_nat_alt word_le_nat_alt)
  moreover have "length (fb_data b) = unat f" using wf by (simp add: fb_wf_def)
  ultimately show ?thesis using fb_store_zero [of b f ?t] t sz by (simp add: fb_erase_def Let_def)
qed


lemma fb_force_refines:
  assumes wf: "fb_wf f b" and small: "unat f \<le> 2147483648" "unat n < 2147483648"
  shows "\<exists>b'. fb_force f b n = Ok b' \<and> fb_wf f b' \<and> fb_text b' = take (fb_room f - unat n) (fb_text b)"
proof -
  note sz = fb_wf_size [OF wf]
  let ?m = "sint (n - fb_avail f b)"
  have m: "?m = int (unat n) - int (fb_room f - length (fb_text b))"
    using sint_diff_small [of n "fb_avail f b"] sz small by simp
  show ?thesis
  proof (cases "0 < ?m")
    case True
    have w: "word_of_int ?m = n - fb_avail f b" by simp
    have "fb_avail f b \<le> n" using True m sz(4) unfolding word_le_nat_alt by linarith
    then have "unat (n - fb_avail f b) = unat n - (fb_room f - length (fb_text b))"
      using sz(4) by (simp add: unat_sub)
    moreover from this have "fb_room f - length (fb_text b) \<le> unat n" using \<open>fb_avail f b \<le> n\<close> sz(4) by (simp add: word_le_nat_alt)
    ultimately have "length (fb_text b) - unat (n - fb_avail f b) = fb_room f - unat n" using sz by linarith
    moreover have "unat (n - fb_avail f b) < 2147483648" using small \<open>unat (n - fb_avail f b) = _\<close> by linarith
    ultimately show ?thesis using fb_erase_refines [OF wf small(1), of "n - fb_avail f b"] True
      unfolding fb_force_def Let_def w by simp
  next
    case False
    then have "length (fb_text b) \<le> fb_room f - unat n" using m sz by linarith
    then show ?thesis using False wf by (simp add: fb_force_def)
  qed
qed

lemma fb_force_append_refines:
  assumes wf: "fb_wf f b" and small: "unat f \<le> 2147483648" "length xs < 2147483648"
  shows "\<exists>b' n. fb_force_append f b (xs @ rest) (of_nat (length xs)) = Ok (b', n) \<and>
    fb_wf f b' \<and> fb_text b' = take (fb_room f) (take (fb_room f - length xs) (fb_text b) @ xs)"
proof -
  have n: "unat (of_nat (length xs) :: u32) = length xs" using small by (simp add: unat_of_nat)
  then obtain b1 where b1: "fb_force f b (of_nat (length xs)) = Ok b1" "fb_wf f b1"
    "fb_text b1 = take (fb_room f - length xs) (fb_text b)"
    using fb_force_refines [OF wf small(1), of "of_nat (length xs)"] small by auto
  have "length xs < 4294967296" using small by simp
  from fb_append_refines [OF b1(2) this, of rest] obtain b' k where "fb_append f b1 (xs @ rest) (of_nat (length xs)) = Ok (b', k)"
    "fb_wf f b'" "fb_text b' = take (fb_room f) (fb_text b1 @ xs)" by blast
  then show ?thesis using b1(1,3) by (simp add: fb_force_append_def)
qed

lemma fb_force_append_char_refines:
  assumes wf: "fb_wf f b" and small: "unat f \<le> 2147483648"
  shows "\<exists>b' n. fb_force_append_char f b v = Ok (b', n) \<and>
    fb_wf f b' \<and> fb_text b' = take (fb_room f) (take (fb_room f - 1) (fb_text b) @ [v])"
proof -
  obtain b1 where b1: "fb_force f b 1 = Ok b1" "fb_wf f b1" "fb_text b1 = take (fb_room f - 1) (fb_text b)"
    using fb_force_refines [OF wf small, of 1] by auto
  from fb_append_char_refines [OF b1(2), of v] obtain b' k where "fb_append_char f b1 v = Ok (b', k)"
    "fb_wf f b'" "fb_text b' = take (fb_room f) (fb_text b1 @ [v])" by blast
  then show ?thesis using b1(1,3) by (simp add: fb_force_append_char_def)
qed

lemma fb_assign_refines:
  assumes wf: "fb_wf f b" and small: "length xs < 4294967296"
  shows "\<exists>b'. fb_assign f b (xs @ rest) (of_nat (length xs)) = Ok b' \<and> fb_wf f b' \<and> fb_text b' = take (fb_room f) xs"
proof -
  have "length (fb_data b) = unat f" "0 < f" using wf by (auto simp: fb_wf_def intro: le_less_trans)
  from fb_clear_refines [OF this] obtain b1 where b1: "fb_clear b = Ok b1" "fb_wf f b1" "fb_text b1 = []" by blast
  from fb_append_refines [OF b1(2) small, of rest] show ?thesis using b1(1,3) by (auto simp: fb_assign_def)
qed

text \<open>The loop over a C string writes without a bound; with room it appends the string.\<close>

lemma fb_append_loop_fits:
  assumes "fb_wf f b" "0 \<notin> set xs" "length (fb_text b) + length xs \<le> fb_room f"
  shows "\<exists>b'. fb_append_loop b (xs @ 0 # rest) = Ok b' \<and> fb_wf f b' \<and> fb_text b' = fb_text b @ xs"
proof -
  note sz = fb_wf_size [OF assms(1)]
  have len: "length (fb_data b) = unat f" using assms(1) by (simp add: fb_wf_def)
  have loop: "\<exists>d. fb_append_loop \<lparr>fb_data = e, fb_size = n\<rparr> (ys @ 0 # rest) =
        fb_store \<lparr>fb_data = d, fb_size = n + of_nat (length ys)\<rparr> (n + of_nat (length ys)) 0 \<and>
      length d = length e \<and> take (unat n + length ys) d = take (unat n) e @ ys"
    if "0 \<notin> set ys" "length e = unat f" "unat n + length ys < unat f" for ys e n
    using that
  proof (induction ys arbitrary: e n)
    case Nil
    then show ?case by auto
  next
    case (Cons y ys)
    have "unat n + 1 < 4294967296" using Cons.prems unsigned_less [of f, where 'a = nat] by simp
    then have n1: "unat (n + 1) = Suc (unat n)" by (simp add: unat_word_ariths)
    have e: "unat n < length e" "take (Suc (unat n)) (e[unat n := y]) = take (unat n) e @ [y]"
      using Cons.prems by (simp_all add: take_Suc_conv_app_nth)
    obtain d where d: "fb_append_loop \<lparr>fb_data = e[unat n := y], fb_size = n + 1\<rparr> (ys @ 0 # rest) =
        fb_store \<lparr>fb_data = d, fb_size = n + 1 + of_nat (length ys)\<rparr> (n + 1 + of_nat (length ys)) 0"
      "length d = length e" "take (Suc (unat n) + length ys) d = take (Suc (unat n)) (e[unat n := y]) @ ys"
      using Cons.IH [of "e[unat n := y]" "n + 1"] Cons.prems n1 by auto
    have "fb_append_loop \<lparr>fb_data = e, fb_size = n\<rparr> ((y # ys) @ 0 # rest) =
        fb_append_loop \<lparr>fb_data = e[unat n := y], fb_size = n + 1\<rparr> (ys @ 0 # rest)"
      using Cons.prems e(1) by (simp add: fb_store_def wr_def)
    moreover have "n + of_nat (length (y # ys)) = n + 1 + of_nat (length ys)" by simp
    moreover have "take (unat n + length (y # ys)) d = take (unat n) e @ y # ys" using d(3) unfolding e(2) by simp
    ultimately show ?case using d(1,2) by metis
  qed
  have "unat (fb_size b) + length xs < unat f" using assms(3) sz by simp
  from loop [OF assms(2) len this] obtain d where d:
    "fb_append_loop b (xs @ 0 # rest) = fb_store \<lparr>fb_data = d, fb_size = fb_size b + of_nat (length xs)\<rparr> (fb_size b + of_nat (length xs)) 0"
    "length d = length (fb_data b)" "take (unat (fb_size b) + length xs) d = fb_text b @ xs"
    by (cases b) (auto simp: fb_text_def)
  show ?thesis using fb_write [OF assms(1,3) d(2,3) refl] d(1) by auto
qed

lemma fb_append_loop_full:
  assumes "length (fb_data b) \<le> unat (fb_size b)" "xs \<noteq> []"
  shows "fb_append_loop b xs = UB"
  using assms by (cases xs) (simp_all add: fb_store_def wr_def)

lemma fb_append_loop_overflows:
  assumes "length (fb_data b) = unat f" "fb_size b < f" "0 \<notin> set xs" "unat f \<le> unat (fb_size b) + length xs"
  shows "fb_append_loop b (xs @ 0 # rest) = UB"
  using assms
proof (induction xs arbitrary: b)
  case (Cons x xs)
  let ?b = "b\<lparr>fb_data := (fb_data b)[unat (fb_size b) := x], fb_size := fb_size b + 1\<rparr>"
  have "unat (fb_size b) + 1 < 4294967296" using Cons.prems(2) unsigned_less [of f, where 'a = nat] by (simp add: word_less_nat_alt)
  then have n1: "unat (fb_size ?b) = Suc (unat (fb_size b))" by (simp add: unat_word_ariths)
  have step: "fb_append_loop b ((x # xs) @ 0 # rest) = fb_append_loop ?b (xs @ 0 # rest)"
    using Cons.prems by (simp add: fb_store_def wr_def word_less_nat_alt)
  show ?case
  proof (cases "fb_size ?b < f")
    case True
    then show ?thesis using Cons.IH [of ?b] Cons.prems n1 unfolding step by simp
  next
    case False
    then have "length (fb_data ?b) \<le> unat (fb_size ?b)" using Cons.prems(1) by (simp add: word_less_nat_alt)
    then show ?thesis unfolding step by (rule fb_append_loop_full) simp
  qed
qed (simp add: word_less_nat_alt)

lemma fb_append_cstr_fits:
  assumes "fb_wf f b" "0 \<notin> set xs" "length (fb_text b) + length xs \<le> fb_room f"
  shows "\<exists>b' n. fb_append_cstr b (xs @ 0 # rest) = Ok (b', n) \<and> fb_wf f b' \<and> fb_text b' = fb_text b @ xs"
  using fb_append_loop_fits [OF assms, of rest] by (auto simp: fb_append_cstr_def)

lemma fb_append_cstr_overflows:
  assumes "fb_wf f b" "0 \<notin> set xs" "fb_room f < length (fb_text b) + length xs"
  shows "fb_append_cstr b (xs @ 0 # rest) = UB"
  using fb_append_loop_overflows [of b f xs rest] fb_wf_size [OF assms(1)] assms
  by (simp add: fb_append_cstr_def fb_wf_def)


section \<open>Properties\<close>

text \<open>
  Claim C25. Every operation on a well-formed buffer that gets a size refines the list cut at its
  capacity: appending keeps what fits and returns how much that was, forcing a text in makes room
  by dropping the end of the old one, erasing drops the end, and none leaves the array.
\<close>

theorem FixBuffer_refines_bounded_list:
  assumes "fb_wf f b" and "unat f \<le> 2147483648" and "length xs < 2147483648" and "unat n < 2147483648"
  shows "(\<exists>b'. fb_append f b (xs @ rest) (of_nat (length xs)) = Ok (b', of_nat (min (length xs) (fb_room f - length (fb_text b)))) \<and>
      fb_wf f b' \<and> fb_text b' = take (fb_room f) (fb_text b @ xs)) \<and>
    (\<exists>b'. fb_append_char f b v = Ok (b', if length (fb_text b) < fb_room f then 1 else 0) \<and>
      fb_wf f b' \<and> fb_text b' = take (fb_room f) (fb_text b @ [v])) \<and>
    (\<exists>b' k. fb_force_append f b (xs @ rest) (of_nat (length xs)) = Ok (b', k) \<and>
      fb_wf f b' \<and> fb_text b' = take (fb_room f) (take (fb_room f - length xs) (fb_text b) @ xs)) \<and>
    (\<exists>b' k. fb_force_append_char f b v = Ok (b', k) \<and>
      fb_wf f b' \<and> fb_text b' = take (fb_room f) (take (fb_room f - 1) (fb_text b) @ [v])) \<and>
    (\<exists>b'. fb_erase b n = Ok b' \<and> fb_wf f b' \<and> fb_text b' = take (length (fb_text b) - unat n) (fb_text b)) \<and>
    (\<exists>b'. fb_assign f b (xs @ rest) (of_nat (length xs)) = Ok b' \<and> fb_wf f b' \<and> fb_text b' = take (fb_room f) xs)"
proof (intro conjI)
  have small: "length xs < 4294967296" using assms(3) by simp
  show "\<exists>b'. fb_append f b (xs @ rest) (of_nat (length xs)) = Ok (b', of_nat (min (length xs) (fb_room f - length (fb_text b)))) \<and>
      fb_wf f b' \<and> fb_text b' = take (fb_room f) (fb_text b @ xs)" by (rule fb_append_refines [OF assms(1) small])
  show "\<exists>b'. fb_append_char f b v = Ok (b', if length (fb_text b) < fb_room f then 1 else 0) \<and>
      fb_wf f b' \<and> fb_text b' = take (fb_room f) (fb_text b @ [v])" by (rule fb_append_char_refines [OF assms(1)])
  show "\<exists>b' k. fb_force_append f b (xs @ rest) (of_nat (length xs)) = Ok (b', k) \<and>
      fb_wf f b' \<and> fb_text b' = take (fb_room f) (take (fb_room f - length xs) (fb_text b) @ xs)"
    by (rule fb_force_append_refines [OF assms(1-3)])
  show "\<exists>b' k. fb_force_append_char f b v = Ok (b', k) \<and>
      fb_wf f b' \<and> fb_text b' = take (fb_room f) (take (fb_room f - 1) (fb_text b) @ [v])"
    by (rule fb_force_append_char_refines [OF assms(1,2)])
  show "\<exists>b'. fb_erase b n = Ok b' \<and> fb_wf f b' \<and> fb_text b' = take (length (fb_text b) - unat n) (fb_text b)"
    by (rule fb_erase_refines [OF assms(1,2,4)])
  show "\<exists>b'. fb_assign f b (xs @ rest) (of_nat (length xs)) = Ok b' \<and> fb_wf f b' \<and> fb_text b' = take (fb_room f) xs"
    by (rule fb_assign_refines [OF assms(1) small])
qed

text \<open>A buffer of four bytes with the text \<open>ab\<close>.\<close>

definition fb_sample :: FixBuffer where
  "fb_sample = \<lparr>fb_data = [97, 98, 0, 170], fb_size = 2\<rparr>"

lemma fb_sample_wf: "fb_wf 4 fb_sample"
  by (simp add: fb_wf_def fb_sample_def)

theorem FixBuffer_refines_bounded_list_witness:
  "\<exists>b' k. fb_force_append 4 fb_sample ([99, 100] @ []) (of_nat (length [99, 100 :: byte])) = Ok (b', k) \<and>
     fb_wf 4 b' \<and> fb_text b' = [97, 99, 100]"
  using FixBuffer_refines_bounded_list [OF fb_sample_wf, of "[99, 100]" 1 "[]" 0] by (simp add: fb_room_def fb_text_def fb_sample_def)

text \<open>
  Appending a C string writes outside the buffer exactly when the string, behind the
  old text, is longer than the capacity; otherwise it appends the string.
\<close>

theorem FixBuffer_cstr_overflow:
  assumes "fb_wf f b" and "0 \<notin> set xs"
  shows "(fb_append_cstr b (xs @ 0 # rest) = UB \<longleftrightarrow> fb_room f < length (fb_text b) + length xs) \<and>
    (length (fb_text b) + length xs \<le> fb_room f \<longrightarrow>
      (\<exists>b' n. fb_append_cstr b (xs @ 0 # rest) = Ok (b', n) \<and> fb_wf f b' \<and> fb_text b' = fb_text b @ xs))"
  using fb_append_cstr_fits [OF assms, of rest] fb_append_cstr_overflows [OF assms, of rest] by (metis not_less outcome.distinct(3))

theorem FixBuffer_cstr_overflow_witness: "fb_append_cstr fb_sample ([99, 100] @ 0 # []) = UB"
  using FixBuffer_cstr_overflow [OF fb_sample_wf, of "[99, 100]" "[]"] by (simp add: fb_room_def fb_text_def fb_sample_def)

end
