(* ===== verification/Eco_Stream.thy ===== *)
theory Eco_Stream
  imports Eco_FixBuffer Eco_Cast Eco_Flags
begin

text \<open>
  The streams of \<open>src/project/eco/Type.h\<close>: \<open>StreamT\<close>, which prints values into a buffer that is its
  template argument, a heap \<open>String\<close> or a \<open>FixBuffer\<close>; byte ranges; and the class \<open>Error\<close>, which
  holds its message in a stream of 256 bytes.

  What a stream needs of its buffer is the contract \<open>stream_buffer\<close>. Both kinds of buffer satisfy
  it, and under it a stream prints its values one after the other, as far as they fit.
\<close>

section \<open>Byte ranges\<close>

record Bytes =
  by_data :: "bytes option"
  by_size :: u32

definition Bytes_null :: Bytes where
  "Bytes_null = \<lparr>by_data = None, by_size = 0\<rparr>"

definition Bytes_new :: "bytes option \<Rightarrow> u32 \<Rightarrow> Bytes outcome" where
  "Bytes_new data n =
     (if n \<noteq> 0 then Ok \<lparr>by_data = data, by_size = n\<rparr>
      else case data of
        None \<Rightarrow> UB
      | Some d \<Rightarrow> obind (strlen d) (\<lambda>len. Ok \<lparr>by_data = Some d, by_size = of_nat len\<rparr>))"

definition Bytes_clear :: "Bytes \<Rightarrow> Bytes" where
  "Bytes_clear b = b\<lparr>by_data := None, by_size := 0\<rparr>"

section \<open>Buffers\<close>

text \<open>The operations of the template argument \<open>Buffer\<close> that a stream calls.\<close>

record 'b Buffer =
  B_append :: "'b \<Rightarrow> bytes \<Rightarrow> u32 \<Rightarrow> 'b outcome"
  B_append_char :: "'b \<Rightarrow> byte \<Rightarrow> 'b outcome"
  B_append_cstr :: "'b \<Rightarrow> bytes \<Rightarrow> 'b outcome"
  B_bytes :: "'b \<Rightarrow> bytes option \<times> u32"

definition FixBuffer_Buffer :: "u32 \<Rightarrow> FixBuffer Buffer" where
  "FixBuffer_Buffer fix_size = \<lparr>
     B_append = \<lambda>b d n. obind (fb_append fix_size b d n) (\<lambda>r. Ok (fst r)),
     B_append_char = \<lambda>b c. obind (fb_append_char fix_size b c) (\<lambda>r. Ok (fst r)),
     B_append_cstr = \<lambda>b d. obind (fb_append_cstr b d) (\<lambda>r. Ok (fst r)),
     B_bytes = \<lambda>b. (Some (fb_data b), fb_size b)\<rparr>"

definition String_Buffer :: "(nat \<Rightarrow> byte) \<Rightarrow> String_rec Buffer" where
  "String_Buffer heap = \<lparr>
     B_append = String_append heap,
     B_append_char = String_append_char heap,
     B_append_cstr = String_append_cstr heap,
     B_bytes = \<lambda>b. (m_data b, m_size b)\<rparr>"

section \<open>Printable values\<close>

text \<open>
  The types that have an overload of \<open><<\<close>, but for floating point numbers. A C string is a buffer
  with a terminator, a \<open>std::string\<close> its bytes; \<open>PSpace v\<close> is \<open>operator<=\<close>, \<open>PToggle\<close> and \<open>PEnd\<close> are the values
  that \<open>brace()\<close> and \<open>end()\<close> return, \<open>PError\<close> the message and the id of an error.
\<close>

datatype printable =
    PBool bool
  | PChar byte
  | PUChar byte
  | PI16 "16 word"
  | PU16 u16
  | PI32 "32 word"
  | PU32 u32
  | PI64 "64 word"
  | PU64 u64
  | PCstr bytes
  | PString String_rec
  | PStdString bytes
  | PBytes Bytes
  | PError bytes "32 word"
  | PGroup printable
  | PSquare printable
  | PBrace printable
  | PSpace printable
  | PToggle
  | PEnd

record 'b StreamT =
  st_flag :: u16
  st_status :: u16
  st_buffer :: 'b

definition StreamT_new :: "'b \<Rightarrow> 'b StreamT" where
  "StreamT_new b = \<lparr>st_flag = 0, st_status = 0, st_buffer = b\<rparr>"

definition status_brace :: u32 where
  "status_brace = 1"

definition on_buffer :: "('b \<Rightarrow> 'b outcome) \<Rightarrow> 'b StreamT \<Rightarrow> 'b StreamT outcome" where
  "on_buffer f st = obind (f (st_buffer st)) (\<lambda>b. Ok (st\<lparr>st_buffer := b\<rparr>))"

definition put_char :: "'b Buffer \<Rightarrow> byte \<Rightarrow> 'b StreamT \<Rightarrow> 'b StreamT outcome" where
  "put_char B c = on_buffer (\<lambda>b. B_append_char B b c)"

definition put_cstr :: "'b Buffer \<Rightarrow> bytes \<Rightarrow> 'b StreamT \<Rightarrow> 'b StreamT outcome" where
  "put_cstr B d = on_buffer (\<lambda>b. B_append_cstr B b d)"

definition put_range :: "'b Buffer \<Rightarrow> bytes option \<Rightarrow> u32 \<Rightarrow> 'b StreamT \<Rightarrow> 'b StreamT outcome" where
  "put_range B d n = on_buffer (\<lambda>b. B_append B b (case d of None \<Rightarrow> [] | Some d' \<Rightarrow> d') n)"

definition put_int :: "'b Buffer \<Rightarrow> int \<Rightarrow> 'b StreamT \<Rightarrow> 'b StreamT outcome" where
  "put_int B v st = obind (Integer_str v Dec 0 48) (\<lambda>t. put_range B (Some t) (of_nat (length t)) st)"

definition put_toggle :: "'b Buffer \<Rightarrow> 'b StreamT \<Rightarrow> 'b StreamT outcome" where
  "put_toggle B st =
     obind (put_char B (if \<not> eco_has (st_status st) status_brace then 123 else 125) st) (\<lambda>st'.
     Ok (st'\<lparr>st_status := eco_toggle (st_status st') status_brace\<rparr>))"

primrec stream_put :: "'b Buffer \<Rightarrow> printable \<Rightarrow> 'b StreamT \<Rightarrow> 'b StreamT outcome" where
  "stream_put B (PBool v) st = put_cstr B (str_bool v @ [0]) st"
| "stream_put B (PChar v) st = put_char B v st"
| "stream_put B (PUChar v) st = put_char B v st"
| "stream_put B (PI16 v) st = put_int B (sint v) st"
| "stream_put B (PU16 v) st = put_int B (uint v) st"
| "stream_put B (PI32 v) st = put_int B (sint v) st"
| "stream_put B (PU32 v) st = put_int B (uint v) st"
| "stream_put B (PI64 v) st = put_int B (sint v) st"
| "stream_put B (PU64 v) st = put_int B (uint v) st"
| "stream_put B (PCstr d) st = put_cstr B d st"
| "stream_put B (PString s) st = put_range B (m_data s) (m_size s) st"
| "stream_put B (PStdString d) st = put_range B (Some (d @ [0])) (of_nat (length d)) st"
| "stream_put B (PBytes v) st = put_range B (by_data v) (by_size v) st"
| "stream_put B (PError msg eid) st =
     obind (put_cstr B msg st) (\<lambda>st1. obind (put_cstr B (lit '' #'' @ [0]) st1) (put_int B (sint eid)))"
| "stream_put B (PGroup v) st = obind (put_char B 40 st) (\<lambda>st1. obind (stream_put B v st1) (put_char B 41))"
| "stream_put B (PSquare v) st = obind (put_char B 40 st) (\<lambda>st1. obind (stream_put B v st1) (put_char B 41))"
| "stream_put B (PBrace v) st = obind (put_char B 40 st) (\<lambda>st1. obind (stream_put B v st1) (put_char B 41))"
| "stream_put B (PSpace v) st = obind (put_char B 32 st) (stream_put B v)"
| "stream_put B PToggle st = put_toggle B st"
| "stream_put B PEnd st = (if eco_has (st_status st) status_brace then put_toggle B st else Ok st)"

primrec stream_puts :: "'b Buffer \<Rightarrow> printable list \<Rightarrow> 'b StreamT \<Rightarrow> 'b StreamT outcome" where
  "stream_puts B [] st = Ok st"
| "stream_puts B (v # vs) st = obind (stream_put B v st) (stream_puts B vs)"

definition stream_set_flag :: "u32 \<Rightarrow> 'b StreamT \<Rightarrow> 'b StreamT" where
  "stream_set_flag flag st = st\<lparr>st_flag := eco_add (st_flag st) flag\<rparr>"

definition stream_has_flag :: "u16 \<Rightarrow> 'b StreamT \<Rightarrow> bool" where
  "stream_has_flag v st = eco_has (st_flag st) (ucast v)"

definition stream_get_bytes :: "'b Buffer \<Rightarrow> 'b StreamT \<Rightarrow> Bytes outcome" where
  "stream_get_bytes B st = (let r = B_bytes B (st_buffer st) in Bytes_new (fst r) (snd r))"

section \<open>Errors\<close>

definition error_fix_size :: u32 where
  "error_fix_size = 256"

definition Error_Buffer :: "FixBuffer Buffer" where
  "Error_Buffer = FixBuffer_Buffer error_fix_size"

record Error =
  e_id :: "32 word"
  e_msg :: "FixBuffer StreamT"

definition Error_new :: "(nat \<Rightarrow> byte) \<Rightarrow> 32 word \<Rightarrow> Error outcome" where
  "Error_new garbage eid = obind (fb_new garbage error_fix_size) (\<lambda>b. Ok \<lparr>e_id = eid, e_msg = StreamT_new b\<rparr>)"

definition Error_put :: "printable \<Rightarrow> Error \<Rightarrow> Error outcome" where
  "Error_put v e = obind (stream_put Error_Buffer v (e_msg e)) (\<lambda>st. Ok (e\<lparr>e_msg := st\<rparr>))"

definition Error_new_msg :: "(nat \<Rightarrow> byte) \<Rightarrow> 32 word \<Rightarrow> bytes \<Rightarrow> Error outcome" where
  "Error_new_msg garbage eid msg = obind (Error_new garbage eid) (Error_put (PStdString msg))"

definition Error_set_error :: "32 word \<Rightarrow> bytes \<Rightarrow> Error \<Rightarrow> Error outcome" where
  "Error_set_error eid msg e =
     (let e1 = e\<lparr>e_id := eid\<rparr> in
      obind (fb_clear (st_buffer (e_msg e1))) (\<lambda>b.
      Error_put (PStdString msg) (e1\<lparr>e_msg := (e_msg e1)\<lparr>st_buffer := b\<rparr>\<rparr>)))"

definition Error_set_id :: "32 word \<Rightarrow> Error \<Rightarrow> Error" where
  "Error_set_id eid e = e\<lparr>e_id := eid\<rparr>"

definition Error_message :: "Error \<Rightarrow> bytes" where
  "Error_message e = fb_data (st_buffer (e_msg e))"

definition Error_is :: "Error \<Rightarrow> bool" where
  "Error_is e = (e_id e \<noteq> 0)"

section \<open>Numbers in decimal\<close>

fun dec_digits :: "nat \<Rightarrow> bytes" where
  "dec_digits n = (if n < 10 then [] else dec_digits (n div 10)) @ [48 + of_nat (n mod 10)]"

declare dec_digits.simps [simp del]

definition dec_text :: "int \<Rightarrow> bytes" where
  "dec_text v = (if v < 0 then [45] else []) @ dec_digits (nat \<bar>v\<bar>)"

lemma s_zero_eq:
  assumes "- 10 < l" "l < 10"
  shows "s_zero l = Ok (48 + of_nat (nat \<bar>l\<bar> mod 10))"
proof -
  have "l = - 9 \<or> l = - 8 \<or> l = - 7 \<or> l = - 6 \<or> l = - 5 \<or> l = - 4 \<or> l = - 3 \<or> l = - 2 \<or> l = - 1 \<or> l = 0 \<or> l = 1 \<or> l = 2 \<or> l = 3 \<or> l = 4 \<or> l = 5 \<or> l = 6 \<or> l = 7 \<or> l = 8 \<or> l = 9"
    using assms by presburger
  then show ?thesis by (elim disjE) (simp_all add: s_zero_def s_digits_bytes rd_def)
qed

lemma int_dec_loop_digits: "int_dec_loop x = Ok (rev (dec_digits (nat \<bar>x\<bar>)))"
proof (induction x rule: int_dec_loop.induct)
  case (1 x)
  have r: "- 10 < x smod 10" "x smod 10 < 10" using abs_ten(2) [of x] by linarith+
  have q: "nat \<bar>x sdiv 10\<bar> = nat \<bar>x\<bar> div 10" using abs_ten(3) [of x] by (simp add: nat_div_distrib)
  have m: "nat \<bar>x smod 10\<bar> mod 10 = nat \<bar>x\<bar> mod 10"
  proof -
    have "\<bar>x smod 10\<bar> = \<bar>x\<bar> mod 10" using abs_ten [of x] by (metis mod_div_mult_eq add_left_cancel add.commute minus_div_mult_eq_mod add_diff_cancel_left')
    then show ?thesis by (simp add: nat_mod_distrib)
  qed
  show ?case
  proof (cases "x sdiv 10 = 0")
    case True
    then have "nat \<bar>x\<bar> < 10" using abs_ten(1,2) [of x] by linarith
    then show ?thesis using True s_zero_eq [OF r] m by (simp add: int_dec_loop.simps [of x] dec_digits.simps [of "nat \<bar>x\<bar>"])
  next
    case False
    have "\<bar>x sdiv 10\<bar> \<noteq> 0" using False by simp
    then have "\<not> nat \<bar>x\<bar> < 10" using abs_ten(1) [of x] by linarith
    then show ?thesis using False 1 [OF refl refl False] s_zero_eq [OF r] m q
      by (simp add: int_dec_loop.simps [of x] dec_digits.simps [of "nat \<bar>x\<bar>"])
  qed
qed

lemma length_dec_digits:
  assumes "int n < 10 ^ 20"
  shows "length (dec_digits n) \<le> 20"
proof -
  obtain ds where ds: "int_dec_loop (int n) = Ok ds" "\<forall>k. \<bar>int n\<bar> < 10 ^ Suc k \<longrightarrow> length ds \<le> Suc k"
    using int_dec_loop_spec [of "int n"] by blast
  have "length ds \<le> Suc 19" by (rule ds(2) [rule_format]) (use assms in simp)
  moreover have "ds = rev (dec_digits n)" using ds(1) int_dec_loop_digits [of "int n"] by simp
  ultimately show ?thesis by simp
qed

lemma Integer_str_dec:
  assumes "\<bar>v\<bar> < 10 ^ 20"
  shows "Integer_str v Dec 0 48 = Ok (dec_text v)"
proof -
  have "length (dec_digits (nat \<bar>v\<bar>)) \<le> 20" using assms by (intro length_dec_digits) simp
  then show ?thesis using int_dec_loop_digits [of v]
    by (cases "v < 0") (simp_all add: Integer_str_def convert_dec_def dec_text_def Let_def)
qed

lemma machine_ints:
  "\<bar>sint (i16 :: 16 word)\<bar> < 10 ^ 20" "\<bar>sint (i32 :: 32 word)\<bar> < 10 ^ 20" "\<bar>sint (i64 :: 64 word)\<bar> < 10 ^ 20"
  "\<bar>uint (u16 :: u16)\<bar> < 10 ^ 20" "\<bar>uint (u32 :: u32)\<bar> < 10 ^ 20" "\<bar>uint (u64 :: u64)\<bar> < 10 ^ 20"
  using sint_range(1,2) [of i64] sint_range(3,4) [of i32] sint_range(5,6) [of i16]
    uint_range(1) [of u64] uint_range(2) [of u32] uint_range(3) [of u16] by simp_all

section \<open>What a stream prints\<close>

definition cstr :: "bytes \<Rightarrow> bytes" where
  "cstr d = takeWhile (\<lambda>b. b \<noteq> 0) d"

primrec text_of :: "bool \<Rightarrow> printable \<Rightarrow> bytes" where
  "text_of br (PBool v) = (if v then lit ''1'' else lit ''0'')"
| "text_of br (PChar v) = [v]"
| "text_of br (PUChar v) = [v]"
| "text_of br (PI16 v) = dec_text (sint v)"
| "text_of br (PU16 v) = dec_text (uint v)"
| "text_of br (PI32 v) = dec_text (sint v)"
| "text_of br (PU32 v) = dec_text (uint v)"
| "text_of br (PI64 v) = dec_text (sint v)"
| "text_of br (PU64 v) = dec_text (uint v)"
| "text_of br (PCstr d) = cstr d"
| "text_of br (PString s) = String_bytes s"
| "text_of br (PStdString d) = d"
| "text_of br (PBytes v) = (case by_data v of None \<Rightarrow> [] | Some d \<Rightarrow> take (unat (by_size v)) d)"
| "text_of br (PError msg eid) = cstr msg @ lit '' #'' @ dec_text (sint eid)"
| "text_of br (PGroup v) = lit ''('' @ text_of br v @ lit '')''"
| "text_of br (PSquare v) = lit ''('' @ text_of br v @ lit '')''"
| "text_of br (PBrace v) = lit ''('' @ text_of br v @ lit '')''"
| "text_of br (PSpace v) = lit '' '' @ text_of br v"
| "text_of br PToggle = (if br then [125] else [123])"
| "text_of br PEnd = (if br then [125] else [])"

primrec brace_after :: "printable \<Rightarrow> bool \<Rightarrow> bool" where
  "brace_after (PBool v) br = br"
| "brace_after (PChar v) br = br"
| "brace_after (PUChar v) br = br"
| "brace_after (PI16 v) br = br"
| "brace_after (PU16 v) br = br"
| "brace_after (PI32 v) br = br"
| "brace_after (PU32 v) br = br"
| "brace_after (PI64 v) br = br"
| "brace_after (PU64 v) br = br"
| "brace_after (PCstr d) br = br"
| "brace_after (PString s) br = br"
| "brace_after (PStdString d) br = br"
| "brace_after (PBytes v) br = br"
| "brace_after (PError msg eid) br = br"
| "brace_after (PGroup v) br = brace_after v br"
| "brace_after (PSquare v) br = brace_after v br"
| "brace_after (PBrace v) br = brace_after v br"
| "brace_after (PSpace v) br = brace_after v br"
| "brace_after PToggle br = (\<not> br)"
| "brace_after PEnd br = False"

primrec printed :: "bool \<Rightarrow> printable list \<Rightarrow> bytes" where
  "printed br [] = []"
| "printed br (v # vs) = text_of br v @ printed (brace_after v br) vs"

text \<open>A C string has its terminator, a byte range its bytes.\<close>

primrec printable_ok :: "printable \<Rightarrow> bool" where
  "printable_ok (PBool v) = True"
| "printable_ok (PChar v) = True"
| "printable_ok (PUChar v) = True"
| "printable_ok (PI16 v) = True"
| "printable_ok (PU16 v) = True"
| "printable_ok (PI32 v) = True"
| "printable_ok (PU32 v) = True"
| "printable_ok (PI64 v) = True"
| "printable_ok (PU64 v) = True"
| "printable_ok (PCstr d) = (0 \<in> set d)"
| "printable_ok (PString s) = String_wf s"
| "printable_ok (PStdString d) = True"
| "printable_ok (PBytes v) = (case by_data v of None \<Rightarrow> by_size v = 0 | Some d \<Rightarrow> unat (by_size v) \<le> length d)"
| "printable_ok (PError msg eid) = (0 \<in> set msg)"
| "printable_ok (PGroup v) = printable_ok v"
| "printable_ok (PSquare v) = printable_ok v"
| "printable_ok (PBrace v) = printable_ok v"
| "printable_ok (PSpace v) = printable_ok v"
| "printable_ok PToggle = True"
| "printable_ok PEnd = True"

definition brace_open :: "'b StreamT \<Rightarrow> bool" where
  "brace_open st = eco_has (st_status st) status_brace"

lemma status_brace_bit: "eco_has (s :: u16) status_brace = bit s 0"
  using and_two_power_eq_0_iff [of "ucast s :: u32" 0]
  by (simp add: eco_has_def status_brace_def and_pos_iff bit_simps)

lemma toggle_brace: "eco_has (eco_toggle (s :: u16) status_brace) status_brace = (\<not> eco_has s status_brace)"
  unfolding status_brace_bit by (simp add: eco_toggle_def status_brace_def bit_simps)

lemma cstr_parts: "0 \<in> set d \<Longrightarrow> \<exists>rest. d = cstr d @ 0 # rest \<and> 0 \<notin> set (cstr d)"
proof -
  assume "0 \<in> set d"
  then obtain xs ys where d: "d = xs @ 0 # ys" "0 \<notin> set xs" by (metis split_list_first)
  then have "cstr d = xs" by (auto simp: cstr_def takeWhile_tail takeWhile_append)
  then show ?thesis using d by blast
qed

section \<open>The contract of a buffer\<close>

locale stream_buffer =
  fixes B :: "'b Buffer" and bwf :: "'b \<Rightarrow> bool" and btext :: "'b \<Rightarrow> bytes" and room :: nat
  assumes append_law: "bwf b \<Longrightarrow> length (btext b) + length xs \<le> room \<Longrightarrow>
      \<exists>b'. B_append B b (xs @ rest) (of_nat (length xs)) = Ok b' \<and> bwf b' \<and> btext b' = btext b @ xs"
    and char_law: "bwf b \<Longrightarrow> Suc (length (btext b)) \<le> room \<Longrightarrow>
      \<exists>b'. B_append_char B b c = Ok b' \<and> bwf b' \<and> btext b' = btext b @ [c]"
    and cstr_law: "bwf b \<Longrightarrow> 0 \<notin> set xs \<Longrightarrow> length (btext b) + length xs \<le> room \<Longrightarrow>
      \<exists>b'. B_append_cstr B b (xs @ 0 # rest) = Ok b' \<and> bwf b' \<and> btext b' = btext b @ xs"
begin

text \<open>The stream \<open>st'\<close> is \<open>st\<close> after the text \<open>xs\<close>.\<close>

definition puts_to :: "'b StreamT outcome \<Rightarrow> 'b StreamT \<Rightarrow> bytes \<Rightarrow> bool \<Rightarrow> bool" where
  "puts_to r st xs br \<longleftrightarrow> (\<exists>st'. r = Ok st' \<and> bwf (st_buffer st') \<and> btext (st_buffer st') = btext (st_buffer st) @ xs \<and>
     st_flag st' = st_flag st \<and> brace_open st' = br)"

definition fits :: "'b StreamT \<Rightarrow> bytes \<Rightarrow> bool" where
  "fits st xs \<longleftrightarrow> bwf (st_buffer st) \<and> length (btext (st_buffer st)) + length xs \<le> room"

lemma put_range_puts: "fits st xs \<Longrightarrow> puts_to (put_range B (Some (xs @ rest)) (of_nat (length xs)) st) st xs (brace_open st)"
  using append_law [of "st_buffer st" xs rest] by (auto simp: put_range_def on_buffer_def puts_to_def fits_def brace_open_def)

lemma put_range_null: "fits st [] \<Longrightarrow> puts_to (put_range B None 0 st) st [] (brace_open st)"
  using append_law [of "st_buffer st" "[]" "[]"] by (auto simp: put_range_def on_buffer_def puts_to_def fits_def brace_open_def)

lemma put_char_puts: "fits st [c] \<Longrightarrow> puts_to (put_char B c st) st [c] (brace_open st)"
  using char_law [of "st_buffer st" c] by (auto simp: put_char_def on_buffer_def puts_to_def fits_def brace_open_def)

lemma put_cstr_puts: "fits st (cstr d) \<Longrightarrow> 0 \<in> set d \<Longrightarrow> puts_to (put_cstr B d st) st (cstr d) (brace_open st)"
proof -
  assume d: "fits st (cstr d)" "0 \<in> set d"
  obtain xs rest where xs: "xs = cstr d" "d = xs @ 0 # rest" "0 \<notin> set xs" using cstr_parts [OF d(2)] by metis
  have "puts_to (put_cstr B (xs @ 0 # rest) st) st xs (brace_open st)"
    using cstr_law [of "st_buffer st" xs rest] xs(3) d(1) unfolding xs(1) [symmetric]
    by (auto simp: put_cstr_def on_buffer_def puts_to_def fits_def brace_open_def)
  then show ?thesis by (simp only: xs(2) [symmetric] xs(1) [symmetric])
qed

lemma put_int_puts: "fits st (dec_text v) \<Longrightarrow> \<bar>v\<bar> < 10 ^ 20 \<Longrightarrow> puts_to (put_int B v st) st (dec_text v) (brace_open st)"
  using put_range_puts [of st "dec_text v" "[]"] by (simp add: put_int_def Integer_str_dec)

lemma put_toggle_puts:
  assumes "fits st (text_of (brace_open st) PToggle)"
  shows "puts_to (put_toggle B st) st (text_of (brace_open st) PToggle) (\<not> brace_open st)"
proof -
  let ?c = "if \<not> eco_has (st_status st) status_brace then 123 else 125 :: byte"
  have tx: "text_of (brace_open st) PToggle = [?c]" by (simp add: brace_open_def)
  obtain b' where "B_append_char B (st_buffer st) ?c = Ok b'" "bwf b'" "btext b' = btext (st_buffer st) @ [?c]"
    using char_law [of "st_buffer st" ?c] assms unfolding tx fits_def by auto
  then show ?thesis unfolding tx
    by (simp add: put_toggle_def put_char_def on_buffer_def puts_to_def brace_open_def toggle_brace del: if_split)
qed

lemma puts_then:
  assumes r: "puts_to r st xs br" and st: "fits st (xs @ ys)"
    and k: "\<And>st'. fits st' ys \<Longrightarrow> brace_open st' = br \<Longrightarrow> puts_to (k st') st' ys br'"
  shows "puts_to (obind r k) st (xs @ ys) br'"
proof -
  obtain st' where st': "r = Ok st'" "bwf (st_buffer st')" "btext (st_buffer st') = btext (st_buffer st) @ xs"
    "st_flag st' = st_flag st" "brace_open st' = br" using r by (auto simp: puts_to_def)
  then have "puts_to (k st') st' ys br'" using k [of st'] st by (simp add: fits_def)
  then show ?thesis using st' by (simp add: puts_to_def)
qed

lemma fits_prefix: "fits st (xs @ ys) \<Longrightarrow> fits st xs"
  by (simp add: fits_def)

lemma group_puts:
  assumes k: "\<And>st'. fits st' xs \<Longrightarrow> brace_open st' = brace_open st \<Longrightarrow> puts_to (k st') st' xs br"
    and st: "fits st ([40] @ xs @ [41])"
  shows "puts_to (obind (put_char B 40 st) (\<lambda>st1. obind (k st1) (put_char B 41))) st ([40] @ xs @ [41]) br"
proof (rule puts_then [OF put_char_puts [OF fits_prefix [OF st]] st])
  fix st'
  assume st': "fits st' (xs @ [41])" "brace_open st' = brace_open st"
  show "puts_to (obind (k st') (put_char B 41)) st' (xs @ [41]) br"
    by (rule puts_then [OF k [OF fits_prefix [OF st'(1)] st'(2)] st'(1)]) (use put_char_puts in fastforce)
qed

lemma group_put:
  assumes IH: "\<And>st. printable_ok v \<Longrightarrow> fits st (text_of (brace_open st) v) \<Longrightarrow>
      puts_to (stream_put B v st) st (text_of (brace_open st) v) (brace_after v (brace_open st))"
    and v: "printable_ok v" and st: "fits st ([40] @ text_of (brace_open st) v @ [41])"
  shows "puts_to (obind (put_char B 40 st) (\<lambda>st1. obind (stream_put B v st1) (put_char B 41))) st
    ([40] @ text_of (brace_open st) v @ [41]) (brace_after v (brace_open st))"
proof (rule group_puts [OF _ st])
  show "puts_to (stream_put B v st') st' (text_of (brace_open st) v) (brace_after v (brace_open st))"
    if "fits st' (text_of (brace_open st) v)" "brace_open st' = brace_open st" for st'
    using IH [OF v, of st'] that by simp
qed

lemma stream_put_puts:
  "printable_ok v \<Longrightarrow> fits st (text_of (brace_open st) v) \<Longrightarrow>
     puts_to (stream_put B v st) st (text_of (brace_open st) v) (brace_after v (brace_open st))"
proof (induction v arbitrary: st)
  case (PBool v)
  have "cstr (str_bool v @ [0]) = str_bool v" by (simp add: cstr_def str_bool_def lit_def)
  then show ?case using put_cstr_puts [of st "str_bool v @ [0]"] PBool by (simp add: str_bool_def)
next
  case (PString s)
  show ?case
  proof (cases "m_data s")
    case None
    then show ?thesis using PString put_range_null [of st] by (simp add: String_bytes_def String_wf_def)
  next
    case (Some d)
    then have "unat (m_size s) \<le> length d" using PString(1) by (auto simp: String_wf_def word_le_nat_alt)
    then show ?thesis
      using PString Some put_range_puts [of st "take (unat (m_size s)) d" "drop (unat (m_size s)) d"] by (simp add: String_bytes_def)
  qed
next
  case (PBytes v)
  show ?case
  proof (cases "by_data v")
    case None
    then show ?thesis using PBytes put_range_null [of st] by simp
  next
    case (Some d)
    then show ?thesis
      using PBytes put_range_puts [of st "take (unat (by_size v)) d" "drop (unat (by_size v)) d"] by simp
  qed
next
  case (PError msg eid)
  let ?m = "lit '' #''"
  have m: "cstr (?m @ [0]) = ?m" "0 \<in> set (?m @ [0])" by (simp_all add: cstr_def lit_def)
  have st: "fits st (cstr msg @ ?m @ dec_text (sint eid))" using PError by simp
  have "puts_to (obind (put_cstr B msg st) (\<lambda>st1. obind (put_cstr B (?m @ [0]) st1) (put_int B (sint eid)))) st
      (cstr msg @ ?m @ dec_text (sint eid)) (brace_open st)"
  proof (rule puts_then [OF put_cstr_puts [OF fits_prefix [OF st]] st])
    fix st1
    assume st1: "fits st1 (?m @ dec_text (sint eid))" "brace_open st1 = brace_open st"
    show "puts_to (obind (put_cstr B (?m @ [0]) st1) (put_int B (sint eid))) st1 (?m @ dec_text (sint eid)) (brace_open st)"
      using put_cstr_puts [of st1 "?m @ [0]"] fits_prefix [OF st1(1)] m
      by (intro puts_then [OF _ st1(1), of _ "brace_open st"]) (use st1(2) put_int_puts machine_ints(2) [of eid] in fastforce)+
  qed (use PError in simp)
  then show ?case by simp
next
  case (PSpace v)
  let ?t = "text_of (brace_open st) v"
  have st: "fits st ([32] @ ?t)" using PSpace.prems by (simp add: lit_def)
  have "puts_to (obind (put_char B 32 st) (stream_put B v)) st ([32] @ ?t) (brace_after v (brace_open st))"
  proof (rule puts_then [OF put_char_puts [OF fits_prefix [OF st]] st])
    show "puts_to (stream_put B v st') st' ?t (brace_after v (brace_open st))"
      if "fits st' ?t" "brace_open st' = brace_open st" for st'
      using PSpace.IH [of st'] PSpace.prems(1) that by simp
  qed
  then show ?case by (simp add: lit_def)
next
  case (PStdString d)
  then show ?case using put_range_puts [of st d "[0]"] by simp
next
  case (PCstr d)
  then show ?case using put_cstr_puts [of st d] by simp
next
  case (PGroup v)
  have "printable_ok v" "fits st ([40] @ text_of (brace_open st) v @ [41])" using PGroup.prems by (simp_all add: lit_def)
  from group_put [OF PGroup.IH this] show ?case by (simp add: lit_def)
next
  case (PSquare v)
  have "printable_ok v" "fits st ([40] @ text_of (brace_open st) v @ [41])" using PSquare.prems by (simp_all add: lit_def)
  from group_put [OF PSquare.IH this] show ?case by (simp add: lit_def)
next
  case (PBrace v)
  have "printable_ok v" "fits st ([40] @ text_of (brace_open st) v @ [41])" using PBrace.prems by (simp_all add: lit_def)
  from group_put [OF PBrace.IH this] show ?case by (simp add: lit_def)
next
  case PEnd
  then show ?case using put_toggle_puts [of st] by (auto simp: brace_open_def puts_to_def fits_def)
next
  case PToggle
  then show ?case using put_toggle_puts [of st] by simp
qed (simp_all add: put_char_puts machine_ints [THEN put_int_puts [rotated]])

lemma stream_puts_puts:
  "list_all printable_ok vs \<Longrightarrow> fits st (printed (brace_open st) vs) \<Longrightarrow>
     puts_to (stream_puts B vs st) st (printed (brace_open st) vs) (fold brace_after vs (brace_open st))"
proof (induction vs arbitrary: st)
  case Nil
  then show ?case by (simp add: puts_to_def fits_def)
next
  case (Cons v vs)
  then obtain st' where st': "stream_put B v st = Ok st'" "bwf (st_buffer st')"
    "btext (st_buffer st') = btext (st_buffer st) @ text_of (brace_open st) v"
    "st_flag st' = st_flag st" "brace_open st' = brace_after v (brace_open st)"
    using stream_put_puts [of v st] by (auto simp: fits_def puts_to_def)
  have "fits st' (printed (brace_open st') vs)" using Cons.prems st' by (simp add: fits_def)
  from Cons.IH [OF _ this] show ?case using st' Cons.prems(1) by (auto simp: puts_to_def)
qed

end


text \<open>Both kinds of buffer keep the contract, a \<open>String\<close> that owns memory up to the largest size.\<close>

interpretation fix_buffer: stream_buffer "FixBuffer_Buffer f" "fb_wf f" fb_text "fb_room f"
proof
  fix b xs rest c
  assume wf: "fb_wf f b"
  note sz = fb_wf_size [OF wf]
  have f: "unat f < 4294967296" using unsigned_less [of f, where 'a = nat] by simp
  show "\<exists>b'. B_append (FixBuffer_Buffer f) b (xs @ rest) (of_nat (length xs)) = Ok b' \<and> fb_wf f b' \<and> fb_text b' = fb_text b @ xs"
    if "length (fb_text b) + length xs \<le> fb_room f"
    using fb_append_refines [OF wf, of xs rest] that sz(5) f by (auto simp: FixBuffer_Buffer_def)
  show "\<exists>b'. B_append_char (FixBuffer_Buffer f) b c = Ok b' \<and> fb_wf f b' \<and> fb_text b' = fb_text b @ [c]"
    if "Suc (length (fb_text b)) \<le> fb_room f"
    using fb_append_char_refines [OF wf, of c] that by (auto simp: FixBuffer_Buffer_def)
  show "\<exists>b'. B_append_cstr (FixBuffer_Buffer f) b (xs @ 0 # rest) = Ok b' \<and> fb_wf f b' \<and> fb_text b' = fb_text b @ xs"
    if "0 \<notin> set xs" "length (fb_text b) + length xs \<le> fb_room f"
    using fb_append_cstr_fits [OF wf that, of rest] by (auto simp: FixBuffer_Buffer_def)
qed

definition String_owner :: "String_rec \<Rightarrow> bool" where
  "String_owner s \<longleftrightarrow> String_wf s \<and> m_data s \<noteq> None"

lemma String_owner_append:
  assumes "String_owner s" "length (String_bytes s) + length xs \<le> 4294967294"
  shows "\<exists>s'. String_append heap s (xs @ rest) (of_nat (length xs)) = Ok s' \<and> String_owner s' \<and> String_bytes s' = String_bytes s @ xs"
proof -
  have wf: "String_wf s" "m_data s \<noteq> None" using assms(1) by (simp_all add: String_owner_def)
  then have "length (String_bytes s) = unat (m_size s)"
    by (auto simp: String_wf_def String_bytes_def word_le_nat_alt)
  then have n: "unat (m_size s) + length xs < 4294967295" "length xs < 4294967295" using assms(2) by simp_all
  from String_put_refines [OF wf(1) _ n(1), of heap] wf(2) obtain s' where
    s': "String_put heap s xs = Ok s'" "String_wf s'" "String_bytes s' = String_bytes s @ xs" "m_data s' \<noteq> None" by blast
  then show ?thesis using s' n by (auto simp: String_owner_def String_append_put)
qed

interpretation heap_buffer: stream_buffer "String_Buffer heap" String_owner String_bytes 4294967294
proof
  fix b xs rest c
  assume owner: "String_owner b"
  show "\<exists>b'. B_append (String_Buffer heap) b (xs @ rest) (of_nat (length xs)) = Ok b' \<and> String_owner b' \<and> String_bytes b' = String_bytes b @ xs"
    if "length (String_bytes b) + length xs \<le> 4294967294"
    using String_owner_append [OF owner that] by (simp add: String_Buffer_def)
  show "\<exists>b'. B_append_char (String_Buffer heap) b c = Ok b' \<and> String_owner b' \<and> String_bytes b' = String_bytes b @ [c]"
    if "Suc (length (String_bytes b)) \<le> 4294967294"
    using String_owner_append [OF owner, of "[c]" heap "[]"] that
    by (simp add: String_Buffer_def String_append_char_def String_append_fill_def String_append_def)
  show "\<exists>b'. B_append_cstr (String_Buffer heap) b (xs @ 0 # rest) = Ok b' \<and> String_owner b' \<and> String_bytes b' = String_bytes b @ xs"
    if "0 \<notin> set xs" "length (String_bytes b) + length xs \<le> 4294967294"
    using String_owner_append [OF owner that(2), of heap "0 # rest"] that(1)
    by (simp add: String_Buffer_def String_append_cstr_def)
qed


text \<open>A fresh buffer of a fixed size is well formed and empty.\<close>

lemma fb_new_wf:
  assumes "0 < f"
  shows "\<exists>b. fb_new garbage f = Ok b \<and> fb_wf f b \<and> fb_text b = []"
  using fb_clear_refines [of "\<lparr>fb_data = alloc garbage f, fb_size = 0\<rparr>" f] assms by (simp add: fb_new_def alloc_def)

lemma Error_new_ok:
  "\<exists>e. Error_new garbage eid = Ok e \<and> e_id e = eid \<and> fb_wf error_fix_size (st_buffer (e_msg e)) \<and> fb_text (st_buffer (e_msg e)) = []"
  using fb_new_wf [of error_fix_size garbage] by (auto simp: Error_new_def error_fix_size_def StreamT_new_def)

lemma error_room: "fb_room error_fix_size = 255"
  by (simp add: fb_room_def error_fix_size_def)

lemma Error_put_text:
  assumes wf: "fb_wf error_fix_size (st_buffer (e_msg e))" and small: "length msg < 4294967296"
  shows "\<exists>e'. Error_put (PStdString msg) e = Ok e' \<and> e_id e' = e_id e \<and> fb_wf error_fix_size (st_buffer (e_msg e')) \<and>
    fb_text (st_buffer (e_msg e')) = take 255 (fb_text (st_buffer (e_msg e)) @ msg)"
  using fb_append_refines [OF wf small, of "[0]"]
  by (auto simp: Error_put_def Error_Buffer_def FixBuffer_Buffer_def put_range_def on_buffer_def error_room)

lemma Error_put_cstr_overflow:
  assumes wf: "fb_wf error_fix_size (st_buffer (e_msg e))" and xs: "0 \<notin> set xs" "255 < length (fb_text (st_buffer (e_msg e))) + length xs"
  shows "Error_put (PCstr (xs @ 0 # rest)) e = UB"
  using fb_append_cstr_overflows [OF wf xs(1), of rest] xs(2)
  by (simp add: Error_put_def Error_Buffer_def FixBuffer_Buffer_def put_cstr_def on_buffer_def error_room)

section \<open>Properties\<close>


text \<open>
  An error that gets its message as a \<open>std::string\<close> holds it up to 255 bytes; setting it
  again replaces it. Streaming a C string that does not fit into an error overruns its buffer.
\<close>

theorem Error_message_limit:
  assumes "length msg < 4294967296" and "length msg2 < 4294967296" and "0 \<notin> set xs" and "255 < length xs"
  shows "\<exists>e e' e0. Error_new_msg garbage eid msg = Ok e \<and> e_id e = eid \<and> fb_text (st_buffer (e_msg e)) = take 255 msg \<and>
    Error_set_error eid2 msg2 e = Ok e' \<and> e_id e' = eid2 \<and> fb_text (st_buffer (e_msg e')) = take 255 msg2 \<and>
    Error_new garbage eid = Ok e0 \<and> Error_put (PCstr (xs @ 0 # rest)) e0 = UB"
proof -
  obtain e0 where e0: "Error_new garbage eid = Ok e0" "e_id e0 = eid" "fb_wf error_fix_size (st_buffer (e_msg e0))"
    "fb_text (st_buffer (e_msg e0)) = []" using Error_new_ok by blast
  obtain e where e: "Error_put (PStdString msg) e0 = Ok e" "e_id e = eid" "fb_wf error_fix_size (st_buffer (e_msg e))"
    "fb_text (st_buffer (e_msg e)) = take 255 msg" using Error_put_text [OF e0(3) assms(1)] e0(2,4) by auto
  have "length (fb_data (st_buffer (e_msg e))) = unat error_fix_size" using e(3) by (simp add: fb_wf_def)
  then obtain b where b: "fb_clear (st_buffer (e_msg e)) = Ok b" "fb_wf error_fix_size b" "fb_text b = []"
    using fb_clear_refines [of "st_buffer (e_msg e)" error_fix_size] by (auto simp: error_fix_size_def)
  let ?e = "e\<lparr>e_id := eid2, e_msg := (e_msg e)\<lparr>st_buffer := b\<rparr>\<rparr>"
  obtain e' where e': "Error_put (PStdString msg2) ?e = Ok e'" "e_id e' = eid2" "fb_text (st_buffer (e_msg e')) = take 255 msg2"
    using Error_put_text [of ?e, OF _ assms(2)] b by auto
  have "Error_set_error eid2 msg2 e = Ok e'" using b(1) e'(1) by (simp add: Error_set_error_def)
  then show ?thesis
    using e0(1) e e'(2,3) Error_put_cstr_overflow [OF e0(3) assms(3)] e0(4) assms(4) by (auto simp: Error_new_msg_def)
qed

text \<open>
  An empty range of bytes behaves as a whole C string, and the bytes of a heap stream that has
  printed nothing are read through a null pointer.
\<close>

theorem Bytes_empty_range:
  "(0 \<notin> set xs \<longrightarrow> length xs < 4294967296 \<longrightarrow>
     Bytes_new (Some (xs @ 0 # rest)) 0 = Ok \<lparr>by_data = Some (xs @ 0 # rest), by_size = of_nat (length xs)\<rparr>) \<and>
   stream_get_bytes (String_Buffer heap) (StreamT_new String_new) = UB"
  by (simp add: Bytes_new_def stream_get_bytes_def String_Buffer_def StreamT_new_def String_new_def)

definition stream_sample :: "FixBuffer StreamT" where
  "stream_sample = \<lparr>st_flag = 0, st_status = 0, st_buffer = \<lparr>fb_data = replicate 20 0, fb_size = 0\<rparr>\<rparr>"


end
