(* ===== verification/Eco_Text.thy ===== *)
theory Eco_Text
  imports Eco_Stream
begin

text \<open>
  The text utilities at the end of \<open>src/project/eco/Type.h\<close>: splitting a text at a character, the
  placeholders of \<open>Format\<close>, the name of a function out of its signature, tests for numbers, and the
  pair of maps \<open>BidiMap\<close>.
\<close>

section \<open>Splitting\<close>

definition str_find :: "byte \<Rightarrow> bytes \<Rightarrow> nat \<Rightarrow> nat option" where
  "str_find ch str pos =
     (let i = pos + length (takeWhile (\<lambda>c. c \<noteq> ch) (drop pos str)) in if i < length str then Some i else None)"

definition substr :: "bytes \<Rightarrow> nat \<Rightarrow> nat \<Rightarrow> bytes" where
  "substr str pos n = take n (drop pos str)"

function split_loop :: "bytes \<Rightarrow> byte \<Rightarrow> nat \<Rightarrow> nat option \<Rightarrow> bytes list \<Rightarrow> bytes list" where
  "split_loop str ch start_pos end_pos out =
     (case end_pos of
        Some e \<Rightarrow> split_loop str ch (e + 1) (str_find ch str (e + 1)) (out @ [substr str start_pos (e - start_pos)])
      | None \<Rightarrow> if start_pos < length str then out @ [substr str start_pos (length str - start_pos)] else out)"
  by pat_completeness auto
termination
  by (relation "measure (\<lambda>(str, ch, start_pos, end_pos, out). case end_pos of None \<Rightarrow> 0 | Some e \<Rightarrow> Suc (length str - e))")
    (auto simp: str_find_def Let_def split: option.splits if_splits)

definition eco_split :: "bytes list \<Rightarrow> bytes \<Rightarrow> byte \<Rightarrow> bytes list" where
  "eco_split out str ch = split_loop str ch 0 (str_find ch str 0) out"

declare split_loop.simps [simp del]

text \<open>The pieces of a text, by recursion on the text.\<close>

primrec pieces :: "byte \<Rightarrow> bytes \<Rightarrow> bytes list" where
  "pieces ch [] = []"
| "pieces ch (c # cs) =
     (if c = ch then [] # pieces ch cs
      else case pieces ch cs of [] \<Rightarrow> [[c]] | p # ps \<Rightarrow> (c # p) # ps)"

lemma pieces_cons: "ch \<notin> set w \<Longrightarrow> pieces ch (w @ ch # s) = w # pieces ch s"
  by (induction w) auto

lemma pieces_last: "ch \<notin> set w \<Longrightarrow> pieces ch w = (if w = [] then [] else [w])"
  by (induction w) auto

lemma str_find_split:
  "str_find ch str pos = (if dropWhile (\<lambda>c. c \<noteq> ch) (drop pos str) = [] then None
     else Some (pos + length (takeWhile (\<lambda>c. c \<noteq> ch) (drop pos str))))"
proof -
  obtain w r where wr: "takeWhile (\<lambda>c. c \<noteq> ch) (drop pos str) = w" "dropWhile (\<lambda>c. c \<noteq> ch) (drop pos str) = r" by blast
  have "length w + length r = length str - pos" by (metis length_append length_drop takeWhile_dropWhile_id wr)
  then show ?thesis by (cases r) (auto simp: str_find_def Let_def wr)
qed

lemma split_loop_pieces:
  "start_pos \<le> length str \<Longrightarrow>
     split_loop str ch start_pos (str_find ch str start_pos) out = out @ pieces ch (drop start_pos str)"
proof (induction "length str - start_pos" arbitrary: start_pos out rule: less_induct)
  case less
  let ?s = "drop start_pos str"
  let ?w = "takeWhile (\<lambda>c. c \<noteq> ch) ?s" and ?r = "dropWhile (\<lambda>c. c \<noteq> ch) ?s"
  have s: "?w @ ?r = ?s" by simp
  have w: "ch \<notin> set ?w" by (auto dest: set_takeWhileD)
  show ?case
  proof (cases "?r = []")
    case True
    then have "?w = ?s" using s by simp
    then have "ch \<notin> set ?s" using w by metis
    from pieces_last [OF this] have "pieces ch ?s = (if ?s = [] then [] else [?s])" .
    then show ?thesis using True less.prems
      by (simp add: split_loop.simps [of str ch start_pos] str_find_split substr_def)
  next
    case False
    then obtain t where t: "?r = ch # t" by (metis (mono_tags) hd_dropWhile list.collapse)
    let ?e = "start_pos + length ?w"
    have st: "?s = ?w @ ch # t" using s t by metis
    then have len: "length str - start_pos = length ?w + Suc (length t)" by (metis length_append length_Cons length_drop)
    have rest: "drop (?e + 1) str = t"
    proof -
      have "drop (?e + 1) str = drop (Suc (length ?w)) ?s" by (simp add: add.commute)
      also have "\<dots> = t" by (subst st) simp
      finally show ?thesis .
    qed
    have sub: "substr str start_pos (?e - start_pos) = ?w" unfolding substr_def by (subst st) simp
    have find: "str_find ch str start_pos = Some ?e" unfolding str_find_split using False by (simp only: if_False)
    have "split_loop str ch start_pos (str_find ch str start_pos) out =
        split_loop str ch (?e + 1) (str_find ch str (?e + 1)) (out @ [?w])"
      by (subst split_loop.simps) (simp only: find option.case sub)
    also have "\<dots> = (out @ [?w]) @ pieces ch (drop (?e + 1) str)" by (rule less.hyps) (use len in auto)
    also have "pieces ch (drop (?e + 1) str) = pieces ch t" unfolding rest ..
    also have "(out @ [?w]) @ pieces ch t = out @ pieces ch ?s" using pieces_cons [OF w, of t] st by (metis append.assoc append_Cons append_Nil)
    finally show ?thesis .
  qed
qed

lemma eco_split_pieces: "eco_split out str ch = out @ pieces ch str"
  by (simp add: eco_split_def split_loop_pieces)

text \<open>Each piece with a separator behind it; the separators between the pieces.\<close>

definition with_separator :: "byte \<Rightarrow> bytes list \<Rightarrow> bytes" where
  "with_separator ch xs = concat (map (\<lambda>x. x @ [ch]) xs)"

definition join_pieces :: "byte \<Rightarrow> bytes list \<Rightarrow> bytes" where
  "join_pieces ch xs = butlast (with_separator ch xs)"

lemma pieces_with_separator: "\<forall>x \<in> set xs. ch \<notin> set x \<Longrightarrow> pieces ch (with_separator ch xs) = xs"
  by (induction xs) (simp_all add: with_separator_def pieces_last pieces_cons)

lemma join_pieces_Cons: "xs \<noteq> [] \<Longrightarrow> join_pieces ch (x # xs) = x @ ch # join_pieces ch xs"
  by (cases xs) (auto simp: join_pieces_def with_separator_def butlast_append)

lemma pieces_join:
  "\<forall>x \<in> set xs. ch \<notin> set x \<Longrightarrow> xs \<noteq> [] \<Longrightarrow> last xs \<noteq> [] \<Longrightarrow> pieces ch (join_pieces ch xs) = xs"
proof (induction xs)
  case (Cons x xs)
  show ?case
  proof (cases "xs = []")
    case True
    then show ?thesis using Cons.prems by (simp add: join_pieces_def with_separator_def pieces_last butlast_append)
  next
    case False
    then show ?thesis using Cons by (simp add: join_pieces_Cons pieces_cons)
  qed
qed simp

lemma pieces_eq_Nil [simp]: "pieces ch s = [] \<longleftrightarrow> s = []"
  by (cases s) (auto split: list.splits)

lemma pieces_inverse:
  "(\<forall>x \<in> set (pieces ch s). ch \<notin> set x) \<and>
   with_separator ch (pieces ch s) = (if s = [] \<or> last s = ch then s else s @ [ch])"
  by (induction s) (auto simp: with_separator_def split: list.splits)


section \<open>Placeholders\<close>

text \<open>The template argument \<open>size\<close> is the size of the buffer behind the stream; \<open>@\<close> is the placeholder.\<close>

record Format =
  fm_format :: "bytes option"
  fm_cur_pos :: u32
  fm_stream :: "FixBuffer StreamT"

definition Format_new :: "(nat \<Rightarrow> byte) \<Rightarrow> u32 \<Rightarrow> bytes option \<Rightarrow> Format outcome" where
  "Format_new garbage fix_size v =
     obind (fb_new garbage fix_size) (\<lambda>b. Ok \<lparr>fm_format = v, fm_cur_pos = 0, fm_stream = StreamT_new b\<rparr>)"

definition Format_reset :: "bytes option \<Rightarrow> Format \<Rightarrow> Format" where
  "Format_reset v f = f\<lparr>fm_format := v, fm_cur_pos := 0\<rparr>"

definition format_rest :: "Format \<Rightarrow> bytes outcome" where
  "format_rest f = (case fm_format f of None \<Rightarrow> UB | Some fmt \<Rightarrow> Ok (drop (unat (fm_cur_pos f)) fmt))"

definition Format_arg :: "u32 \<Rightarrow> printable \<Rightarrow> Format \<Rightarrow> Format outcome" where
  "Format_arg fix_size v f =
     (if fm_cur_pos f = - 1 then Ok f
      else obind (format_rest f) (\<lambda>str.
        obind (find_first str 64) (\<lambda>pos.
        let f1 = f\<lparr>fm_cur_pos := pos\<rparr> in
        if pos = - 1 then
          obind (put_cstr (FixBuffer_Buffer fix_size) str (fm_stream f1)) (\<lambda>st. Ok (f1\<lparr>fm_stream := st\<rparr>))
        else
          obind (put_range (FixBuffer_Buffer fix_size) (Some str) pos (fm_stream f1)) (\<lambda>st1.
          obind (stream_put (FixBuffer_Buffer fix_size) v st1) (\<lambda>st2.
          Ok (f1\<lparr>fm_stream := st2\<rparr>))))))"

primrec Format_args :: "u32 \<Rightarrow> printable list \<Rightarrow> Format \<Rightarrow> Format outcome" where
  "Format_args fix_size [] f = Ok f"
| "Format_args fix_size (v # vs) f = obind (Format_arg fix_size v f) (Format_args fix_size vs)"

definition Format_finish :: "u32 \<Rightarrow> Format \<Rightarrow> Format outcome" where
  "Format_finish fix_size f =
     (if fm_cur_pos f \<noteq> - 1
      then obind (format_rest f) (\<lambda>str.
        obind (put_cstr (FixBuffer_Buffer fix_size) str (fm_stream f)) (\<lambda>st. Ok (f\<lparr>fm_stream := st\<rparr>)))
      else Ok f)"

lemma find_first_from_at:
  "0 \<notin> set a \<Longrightarrow> flag \<notin> set a \<Longrightarrow> flag \<noteq> 0 \<Longrightarrow> find_first_from (a @ flag # rest) flag pos = Ok (pos + of_nat (length a))"
  by (induction a arbitrary: pos) (auto simp: algebra_simps)

lemma find_first_at: "0 \<notin> set a \<Longrightarrow> flag \<notin> set a \<Longrightarrow> flag \<noteq> 0 \<Longrightarrow> find_first (a @ flag # rest) flag = Ok (of_nat (length a))"
  by (simp add: find_first_def find_first_from_at)

text \<open>What a format has printed so far, when it fits.\<close>

definition format_has :: "u32 \<Rightarrow> bytes \<Rightarrow> nat \<Rightarrow> bytes \<Rightarrow> Format \<Rightarrow> bool" where
  "format_has fix_size fmt pos xs f \<longleftrightarrow> fm_format f = Some fmt \<and> unat (fm_cur_pos f) = pos \<and>
     fb_wf fix_size (st_buffer (fm_stream f)) \<and> fb_text (st_buffer (fm_stream f)) = xs"

lemma Format_arg_step:
  assumes f: "format_has n fmt pos xs f" and fmt: "drop pos fmt = a @ 64 # rest" "0 \<notin> set a" "64 \<notin> set a"
    and pos: "pos < 4294967295" "length a < 4294967295"
    and v: "printable_ok v" and fits: "length (xs @ a @ text_of (brace_open (fm_stream f)) v) \<le> fb_room n"
  shows "\<exists>f'. Format_arg n v f = Ok f' \<and> format_has n fmt (length a) (xs @ a @ text_of (brace_open (fm_stream f)) v) f' \<and>
    brace_open (fm_stream f') = brace_after v (brace_open (fm_stream f))"
proof -
  have f': "fm_format f = Some fmt" "unat (fm_cur_pos f) = pos" "fb_wf n (st_buffer (fm_stream f))"
    "fb_text (st_buffer (fm_stream f)) = xs" using f by (simp_all add: format_has_def)
  let ?p = "of_nat (length a) :: u32"
  have p: "unat ?p = length a" "?p \<noteq> - 1" "fm_cur_pos f \<noteq> - 1"
    using pos f'(2) minus_one_nat by (auto simp: unat_of_nat dest: arg_cong [where f = unat])
  have ff: "find_first (a @ 64 # rest) 64 = Ok ?p" using fmt(2,3) by (intro find_first_at) auto
  let ?t = "text_of (brace_open (fm_stream f)) v" and ?B = "FixBuffer_Buffer n"
  have fits: "fix_buffer.fits n (fm_stream f) (a @ ?t)" using f'(3,4) fits by (simp add: fix_buffer.fits_def)
  have put: "fix_buffer.puts_to n (stream_put ?B v st') st' ?t (brace_after v (brace_open (fm_stream f)))"
    if "fix_buffer.fits n st' ?t" "brace_open st' = brace_open (fm_stream f)" for st'
    using fix_buffer.stream_put_puts [OF v, of n st'] that by simp
  have "fix_buffer.puts_to n (obind (put_range ?B (Some (a @ 64 # rest)) ?p (fm_stream f)) (stream_put ?B v)) (fm_stream f)
      (a @ ?t) (brace_after v (brace_open (fm_stream f)))"
    by (rule fix_buffer.puts_then [OF fix_buffer.put_range_puts [OF fix_buffer.fits_prefix [OF fits]] fits put])
  then obtain st2 where st2: "obind (put_range ?B (Some (a @ 64 # rest)) ?p (fm_stream f)) (stream_put ?B v) = Ok st2"
    "fb_wf n (st_buffer st2)" "fb_text (st_buffer st2) = xs @ a @ ?t" "brace_open st2 = brace_after v (brace_open (fm_stream f))"
    using f'(4) unfolding fix_buffer.puts_to_def by blast
  then have "Format_arg n v f = Ok (f\<lparr>fm_cur_pos := ?p, fm_stream := st2\<rparr>)"
    using p f'(1,2) fmt(1) ff by (auto simp: Format_arg_def format_rest_def obind_eq_Ok)
  then show ?thesis using st2 f'(1) p(1) by (auto simp: format_has_def)
qed

lemma cstr_terminated: "0 \<notin> set xs \<Longrightarrow> cstr (xs @ 0 # rest) = xs"
  by (induction xs) (auto simp: cstr_def)

lemma Format_finish_step:
  assumes f: "format_has n fmt pos xs f" and fmt: "drop pos fmt = a @ [0]" "0 \<notin> set a" and pos: "pos < 4294967295"
    and fits: "length (xs @ a) \<le> fb_room n"
  shows "\<exists>f'. Format_finish n f = Ok f' \<and> fb_text (st_buffer (fm_stream f')) = xs @ a"
proof -
  have f': "fm_format f = Some fmt" "unat (fm_cur_pos f) = pos" "fb_wf n (st_buffer (fm_stream f))"
    "fb_text (st_buffer (fm_stream f)) = xs" using f by (simp_all add: format_has_def)
  have p: "fm_cur_pos f \<noteq> - 1" using pos f'(2) minus_one_nat by auto
  have a: "cstr (a @ [0]) = a" using cstr_terminated [OF fmt(2), of "[]"] by simp
  have "fix_buffer.fits n (fm_stream f) (cstr (a @ [0]))" using f'(3,4) fits a by (simp add: fix_buffer.fits_def)
  from fix_buffer.put_cstr_puts [OF this] obtain st where
    "put_cstr (FixBuffer_Buffer n) (a @ [0]) (fm_stream f) = Ok st" "fb_text (st_buffer st) = xs @ a"
    using f'(4) a by (auto simp: fix_buffer.puts_to_def)
  then show ?thesis using f'(1,2) p fmt(1) by (simp add: Format_finish_def format_rest_def)
qed

text \<open>
  The position is relative to the rest that was searched, and the placeholder itself is not
  skipped: one argument leaves it in the text, the second argument finds it again, and what is
  left is then taken from the start.
\<close>

theorem Format_restarts:
  assumes "0 \<notin> set a" and "64 \<notin> set a" and "0 \<notin> set b" and "length a < 4294967295"
    and "printable_ok v1" and "printable_ok v2" and "0 < n"
    and fits: "length (a @ text_of False v1 @ text_of (brace_after v1 False) v2 @ a @ [64] @ b) \<le> fb_room n"
  shows "\<exists>f0 f1 r1 f2 r2. Format_new garbage n (Some (a @ [64] @ b @ [0])) = Ok f0 \<and>
    Format_args n [v1] f0 = Ok f1 \<and> Format_finish n f1 = Ok r1 \<and>
    fb_text (st_buffer (fm_stream r1)) = a @ text_of False v1 @ [64] @ b \<and>
    Format_args n [v1, v2] f0 = Ok f2 \<and> Format_finish n f2 = Ok r2 \<and>
    fb_text (st_buffer (fm_stream r2)) = a @ text_of False v1 @ text_of (brace_after v1 False) v2 @ a @ [64] @ b"
proof -
  let ?fmt = "a @ [64] @ b @ [0]" and ?t1 = "text_of False v1" and ?t2 = "text_of (brace_after v1 False) v2"
  obtain buf where buf: "fb_new garbage n = Ok buf" "fb_wf n buf" "fb_text buf = []" using fb_new_wf [OF assms(7)] by blast
  let ?f0 = "\<lparr>fm_format = Some ?fmt, fm_cur_pos = 0, fm_stream = StreamT_new buf\<rparr>"
  have f0: "Format_new garbage n (Some ?fmt) = Ok ?f0" using buf by (simp add: Format_new_def)
  have h0: "format_has n ?fmt 0 [] ?f0" "\<not> brace_open (fm_stream ?f0)"
    using buf by (simp_all add: format_has_def StreamT_new_def brace_open_def eco_has_def)
  obtain f1 where f1: "Format_arg n v1 ?f0 = Ok f1" "format_has n ?fmt (length a) (a @ ?t1) f1"
    "brace_open (fm_stream f1) = brace_after v1 False"
    using Format_arg_step [OF h0(1), of a "b @ [0]" v1] assms h0(2) by auto
  obtain f2 where f2: "Format_arg n v2 f1 = Ok f2" "format_has n ?fmt 0 (a @ ?t1 @ ?t2) f2"
    using Format_arg_step [OF f1(2), of "[]" "b @ [0]" v2] assms f1(3) by auto
  obtain r1 where r1: "Format_finish n f1 = Ok r1" "fb_text (st_buffer (fm_stream r1)) = a @ ?t1 @ [64] @ b"
    using Format_finish_step [OF f1(2), of "[64] @ b"] assms by auto
  obtain r2 where r2: "Format_finish n f2 = Ok r2" "fb_text (st_buffer (fm_stream r2)) = a @ ?t1 @ ?t2 @ a @ [64] @ b"
    using Format_finish_step [OF f2(2), of "a @ [64] @ b"] assms by auto
  show ?thesis using f0 f1(1) f2(1) r1 r2 by auto
qed

section \<open>Numbers and names\<close>

definition is_number :: "byte \<Rightarrow> bool" where
  "is_number v = (48 \<le> v \<and> v \<le> 57)"

fun is_number_cstr :: "bytes \<Rightarrow> bool outcome" where
  "is_number_cstr [] = UB"
| "is_number_cstr (c # cs) = (if c = 0 then Ok True else if \<not> is_number c then Ok False else is_number_cstr cs)"

definition yn :: "bool \<Rightarrow> byte" where
  "yn v = (if v then 121 else 110)"

definition cstr_empty :: "bytes \<Rightarrow> bool outcome" where
  "cstr_empty v = obind (rd v 0) (\<lambda>c. Ok (c = 0))"

definition cstr_clear :: "bytes \<Rightarrow> bytes outcome" where
  "cstr_clear v = wr v 0 0"

lemma is_number_cstr_digits: "0 \<notin> set xs \<Longrightarrow> is_number_cstr (xs @ 0 # rest) = Ok (list_all is_number xs)"
  by (induction xs) (auto simp: is_number_def)

text \<open>The name of a function in its signature, \<open>ECO_FUNC\<close>.\<close>

definition eco_func :: "bytes \<Rightarrow> Bytes outcome" where
  "eco_func s =
     obind (strlen s) (\<lambda>n. let len = of_nat n in
     obind (find_last_n s len 40) (\<lambda>e. let end_pos = (if e = - 1 then len else e) in
     obind (find_last_n s end_pos 58) (\<lambda>st. let start = (if st = - 1 then 0 else st) in
     Bytes_new (Some (drop (unat start) s)) (end_pos - start))))"

lemma not_minus_one: "unat (w :: u32) < 4294967295 \<Longrightarrow> w \<noteq> - 1"
  by (auto simp: minus_one_nat)

lemma find_last_from_absent: "n \<le> length key \<Longrightarrow> flag \<notin> set (take n key) \<Longrightarrow> find_last_from key n flag = UB"
  by (induction n) (auto simp: rd_Ok take_Suc_conv_app_nth)

lemma find_last_from_found:
  "flag \<notin> set ys \<Longrightarrow> n = length xs + Suc (length ys) \<Longrightarrow>
     find_last_from (xs @ flag # ys @ rest) n flag = Ok (of_nat (length xs))"
proof (induction ys arbitrary: n rest rule: rev_induct)
  case (snoc y ys)
  have "(xs @ flag # (ys @ [y]) @ rest) ! (n - 1) = y" using snoc.prems(2) by (simp add: nth_append)
  moreover have "y \<noteq> flag" "flag \<notin> set ys" using snoc.prems(1) by auto
  moreover have "find_last_from (xs @ flag # ys @ (y # rest)) (n - 1) flag = Ok (of_nat (length xs))"
    using snoc.IH [of "n - 1" "y # rest"] snoc.prems by simp
  ultimately show ?case using snoc.prems(2) by (cases n) (auto simp: rd_def)
qed (simp add: rd_def)

text \<open>
  The name starts with the last colon before the last bracket; without a bracket or without a
  colon, as in the plain name of a function, the search reads before the start of the text.
\<close>

theorem eco_func_spec:
  assumes "0 \<notin> set (a @ b @ c)" and "58 \<notin> set b" and "40 \<notin> set c" and "length a + length b + length c < 4294967290"
  shows "eco_func (a @ [58] @ b @ [40] @ c @ [0]) =
      Ok \<lparr>by_data = Some ([58] @ b @ [40] @ c @ [0]), by_size = of_nat (Suc (length b))\<rparr> \<and>
    (40 \<notin> set (a @ b) \<longrightarrow> eco_func (a @ b @ c @ [0]) = UB) \<and>
    (58 \<notin> set a \<longrightarrow> eco_func (a @ b @ [40] @ c @ [0]) = UB)"
proof (intro conjI impI)
  let ?s = "a @ [58] @ b @ [40] @ c @ [0]"
  have len: "strlen ?s = Ok (length a + length b + length c + 2)"
    using strlen_cstr [of "a @ [58] @ b @ [40] @ c" "[]"] assms(1) by simp
  have u: "unat (of_nat (length a + length b + length c + 2) :: u32) = length a + length b + length c + 2"
    using assms(4) by (intro unat_of_nat_u32) simp
  have e: "find_last_n ?s (of_nat (length a + length b + length c + 2)) 40 = Ok (of_nat (length (a @ [58] @ b)))"
    using find_last_from_found [OF assms(3), of _ "a @ [58] @ b" "[0]"] unfolding find_last_n_def u by simp
  have ue: "unat (of_nat (length (a @ [58] @ b)) :: u32) = Suc (length a + length b)"
    using assms(4) unat_of_nat_u32 [of "Suc (length a + length b)"] by simp
  have st: "find_last_n ?s (of_nat (length (a @ [58] @ b))) 58 = Ok (of_nat (length a))"
    using find_last_from_found [OF assms(2), of _ a "[40] @ c @ [0]"] unfolding find_last_n_def ue by simp
  have ua: "unat (of_nat (length a) :: u32) = length a" using assms(4) by (intro unat_of_nat_u32) simp
  have ne: "of_nat (length (a @ [58] @ b)) \<noteq> (- 1 :: u32)" "of_nat (length a) \<noteq> (- 1 :: u32)"
    using ue ua assms(4) by (auto intro!: not_minus_one simp del: length_append)
  have diff: "of_nat (length (a @ [58] @ b)) - of_nat (length a) = (of_nat (Suc (length b)) :: u32)" by simp
  have "of_nat (Suc (length b)) \<noteq> (0 :: u32)" using assms(4) of_nat_u32_eq_0 [of "Suc (length b)"] by simp
  then show "eco_func ?s = Ok \<lparr>by_data = Some ([58] @ b @ [40] @ c @ [0]), by_size = of_nat (Suc (length b))\<rparr>"
    unfolding eco_func_def len obind_simps Let_def e if_not_P [OF ne(1)] st if_not_P [OF ne(2)] diff ua by (simp add: Bytes_new_def)
next
  assume "40 \<notin> set (a @ b)"
  then have no: "40 \<notin> set (a @ b @ c @ [0])" using assms(3) by simp
  have len: "strlen (a @ b @ c @ [0]) = Ok (length a + length b + length c)"
    using strlen_cstr [of "a @ b @ c" "[]"] assms(1) by simp
  have u: "unat (of_nat (length a + length b + length c) :: u32) = length a + length b + length c"
    using assms(4) by (intro unat_of_nat_u32) simp
  have "find_last_n (a @ b @ c @ [0]) (of_nat (length a + length b + length c)) 40 = UB"
    unfolding find_last_n_def u using no by (intro find_last_from_absent) (auto dest: in_set_takeD)
  then show "eco_func (a @ b @ c @ [0]) = UB" by (simp only: eco_func_def len obind_simps Let_def)
next
  assume a: "58 \<notin> set a"
  let ?s = "a @ b @ [40] @ c @ [0]"
  have len: "strlen ?s = Ok (length a + length b + length c + 1)"
    using strlen_cstr [of "a @ b @ [40] @ c" "[]"] assms(1) by simp
  have u: "unat (of_nat (length a + length b + length c + 1) :: u32) = length a + length b + length c + 1"
    using assms(4) by (intro unat_of_nat_u32) simp
  have e: "find_last_n ?s (of_nat (length a + length b + length c + 1)) 40 = Ok (of_nat (length (a @ b)))"
    using find_last_from_found [OF assms(3), of _ "a @ b" "[0]"] unfolding find_last_n_def u by simp
  have ue: "unat (of_nat (length (a @ b)) :: u32) = length (a @ b)" using assms(4) by (intro unat_of_nat_u32) simp
  then have ne: "of_nat (length (a @ b)) \<noteq> (- 1 :: u32)" using assms(4) by (intro not_minus_one) simp
  have "58 \<notin> set (take (length (a @ b)) ?s)" using a assms(2) by simp
  then have "find_last_n ?s (of_nat (length (a @ b))) 58 = UB"
    unfolding find_last_n_def ue by (intro find_last_from_absent) simp_all
  then show "eco_func ?s = UB" using ne by (simp only: eco_func_def len e obind_simps Let_def if_False)
qed


section \<open>A pair of maps\<close>

record ('a, 'b) BidiMap =
  m_one_map :: "'a \<Rightarrow> 'b option"
  m_two_map :: "'b \<Rightarrow> 'a option"

definition BidiMap_set_value :: "'a \<Rightarrow> 'b \<Rightarrow> ('a, 'b) BidiMap \<Rightarrow> ('a, 'b) BidiMap" where
  "BidiMap_set_value key_one key_two m =
     m\<lparr>m_one_map := (m_one_map m)(key_one := Some key_two), m_two_map := (m_two_map m)(key_two := Some key_one)\<rparr>"

definition bidi_inverse :: "('a, 'b) BidiMap \<Rightarrow> bool" where
  "bidi_inverse m \<longleftrightarrow> (\<forall>a b. m_one_map m a = Some b \<longleftrightarrow> m_two_map m b = Some a)"

text \<open>
  The maps stay inverse to each other exactly when neither key is bound to another one: binding a
  key again leaves the old binding in the other map.
\<close>

theorem BidiMap_set_value_inverse:
  assumes "bidi_inverse m"
  shows "bidi_inverse (BidiMap_set_value a b m) \<longleftrightarrow>
    (m_one_map m a = None \<or> m_one_map m a = Some b) \<and> (m_two_map m b = None \<or> m_two_map m b = Some a)"
proof
  assume inv: "bidi_inverse (BidiMap_set_value a b m)"
  have "m_one_map m a = Some c \<Longrightarrow> c = b" for c
    using inv [unfolded bidi_inverse_def, rule_format, of a c] assms [unfolded bidi_inverse_def, rule_format, of a c]
    by (auto simp: BidiMap_set_value_def split: if_splits)
  moreover have "m_two_map m b = Some c \<Longrightarrow> c = a" for c
    using inv [unfolded bidi_inverse_def, rule_format, of c b] assms [unfolded bidi_inverse_def, rule_format, of c b]
    by (auto simp: BidiMap_set_value_def split: if_splits)
  ultimately show "(m_one_map m a = None \<or> m_one_map m a = Some b) \<and> (m_two_map m b = None \<or> m_two_map m b = Some a)"
    by (metis option.exhaust)
next
  assume h: "(m_one_map m a = None \<or> m_one_map m a = Some b) \<and> (m_two_map m b = None \<or> m_two_map m b = Some a)"
  have old: "m_one_map m x = Some y \<longleftrightarrow> m_two_map m y = Some x" for x y using assms by (simp add: bidi_inverse_def)
  have one: "y = b" if "m_one_map m a = Some y" for y using h that by auto
  have two: "x = a" if "m_two_map m b = Some x" for x using h that by auto
  show "bidi_inverse (BidiMap_set_value a b m)"
    unfolding bidi_inverse_def
  proof (intro allI)
    fix x y
    show "m_one_map (BidiMap_set_value a b m) x = Some y \<longleftrightarrow> m_two_map (BidiMap_set_value a b m) y = Some x"
    proof (cases "x = a \<longleftrightarrow> y = b")
      case True
      then show ?thesis using old [of x y] by (auto simp: BidiMap_set_value_def)
    next
      case False
      then have "m_one_map m x \<noteq> Some y" using one two old by metis
      then show ?thesis using False old [of x y] by (auto simp: BidiMap_set_value_def)
    qed
  qed
qed

section \<open>Properties\<close>



end
