(* ===== verification/Eco_DateTime.thy ===== *)
theory Eco_DateTime
  imports Eco_Text
begin

text \<open>
  Date and time: \<open>src/project/eco/DateTime.h\<close> and \<open>prj/src/DateTime.cpp\<close>. Timestamps print the clock
  in one of six formats; the other functions rewrite dates and times between formats, parse
  them, and count units of time between them.

  The clock is an argument. The calendar is Boost's, not under \<open>src\<close>: what the code uses of it is
  the record \<open>calendar\<close>, and the laws it needs are hypotheses. A \<open>std::out_of_range\<close> is \<open>Err 0\<close>. Functions
  on floating point numbers are left out.
\<close>

section \<open>Formats\<close>

datatype dt_format = fmt_iso | fmt_iso_m | fmt_isot | fmt_isot_m | fmt_std | fmt_std_m

datatype TimeUnitType =
  ttype_second | ttype_minute | ttype_hour | ttype_day | ttype_week | ttype_month | ttype_season | ttype_year

text \<open>The conversion \<open>%wd\<close> of \<open>printf\<close>, with blanks or zeros in front.\<close>

definition printf_d :: "bool \<Rightarrow> nat \<Rightarrow> u32 \<Rightarrow> bytes" where
  "printf_d zeros w n =
     (let v = sint n; sg = (if v < 0 then [45] else []); ds = dec_digits (nat \<bar>v\<bar>); k = w - (length sg + length ds)
      in if zeros then sg @ replicate k 48 @ ds else replicate k 32 @ sg @ ds)"

definition snprintf :: "bytes \<Rightarrow> bytes \<Rightarrow> bytes" where
  "snprintf buf t = (if buf = [] then [] else
     let s = take (length buf - 1) t in s @ 0 # drop (Suc (length s)) buf)"

section \<open>Timestamps\<close>

text \<open>A reading of the clock.\<close>

record ptime =
  pt_year :: u32
  pt_month :: u32
  pt_day :: u32
  pt_hours :: u32
  pt_minutes :: u32
  pt_seconds :: u32
  pt_micros :: u32

record Timestamp =
  m_timestamp :: bytes
  m_fmt :: dt_format

abbreviation "D4 \<equiv> printf_d False 4"
abbreviation "D02 \<equiv> printf_d True 2"
abbreviation "D06 \<equiv> printf_d True 6"

fun timestamp_text :: "dt_format \<Rightarrow> ptime \<Rightarrow> bytes" where
  "timestamp_text fmt_iso t =
     D4 (pt_year t) @ D02 (pt_month t) @ D02 (pt_day t) @ D02 (pt_hours t) @ D02 (pt_minutes t) @ D02 (pt_seconds t)"
| "timestamp_text fmt_iso_m t =
     D4 (pt_year t) @ D02 (pt_month t) @ D02 (pt_day t) @ D02 (pt_hours t) @ D02 (pt_minutes t) @ D02 (pt_seconds t)
       @ D06 (pt_micros t)"
| "timestamp_text fmt_isot t =
     D4 (pt_year t) @ D02 (pt_month t) @ D02 (pt_day t) @ [32] @ D02 (pt_hours t) @ [58] @ D02 (pt_minutes t) @ [58]
       @ D02 (pt_seconds t)"
| "timestamp_text fmt_isot_m t =
     D4 (pt_year t) @ D02 (pt_month t) @ D02 (pt_day t) @ [32] @ D02 (pt_hours t) @ [58] @ D02 (pt_minutes t) @ [58]
       @ D02 (pt_seconds t) @ [46] @ D06 (pt_micros t)"
| "timestamp_text fmt_std t =
     D4 (pt_year t) @ [45] @ D02 (pt_month t) @ [45] @ D02 (pt_day t) @ [32] @ D02 (pt_hours t) @ [58]
       @ D02 (pt_minutes t) @ [58] @ D02 (pt_seconds t)"
| "timestamp_text fmt_std_m t =
     D4 (pt_year t) @ [45] @ D02 (pt_month t) @ [45] @ D02 (pt_day t) @ [32] @ D02 (pt_hours t) @ [58]
       @ D02 (pt_minutes t) @ [58] @ D02 (pt_seconds t) @ [46] @ D06 (pt_micros t)"

definition Timestamp_new :: "(nat \<Rightarrow> byte) \<Rightarrow> dt_format \<Rightarrow> ptime \<Rightarrow> Timestamp" where
  "Timestamp_new garbage fmt pt =
     \<lparr>m_timestamp = snprintf ((alloc garbage 32)[0 := 0]) (timestamp_text fmt pt), m_fmt = fmt\<rparr>"

fun Timestamp_time_pos :: "dt_format \<Rightarrow> nat" where
  "Timestamp_time_pos fmt_iso = 8"
| "Timestamp_time_pos fmt_iso_m = 8"
| "Timestamp_time_pos fmt_isot = 9"
| "Timestamp_time_pos fmt_isot_m = 9"
| "Timestamp_time_pos fmt_std = 11"
| "Timestamp_time_pos fmt_std_m = 11"

definition Timestamp_get_time :: "Timestamp \<Rightarrow> bytes" where
  "Timestamp_get_time ts = drop (Timestamp_time_pos (m_fmt ts)) (m_timestamp ts)"

definition Timestamp_get_date :: "Timestamp \<Rightarrow> bytes" where
  "Timestamp_get_date ts =
     (if m_fmt ts \<in> {fmt_iso, fmt_iso_m, fmt_isot, fmt_isot_m} then take 8 (m_timestamp ts) else take 10 (m_timestamp ts))"

text \<open>\<open>strcmp\<close> compares bytes without sign.\<close>

fun c_strcmp :: "bytes \<Rightarrow> bytes \<Rightarrow> int outcome" where
  "c_strcmp (x # xs) (y # ys) =
     (if x < y then Ok (- 1) else if y < x then Ok 1 else if x = 0 then Ok 0 else c_strcmp xs ys)"
| "c_strcmp xs ys = UB"

definition Timestamp_equal :: "Timestamp \<Rightarrow> Timestamp \<Rightarrow> bool outcome" where
  "Timestamp_equal self ts =
     (if m_fmt ts = m_fmt self then obind (c_strcmp (m_timestamp ts) (m_timestamp self)) (\<lambda>c. Ok (c = 0)) else Ok False)"

definition Timestamp_less :: "Timestamp \<Rightarrow> Timestamp \<Rightarrow> bool outcome" where
  "Timestamp_less self ts =
     (if m_fmt ts = m_fmt self then obind (c_strcmp (m_timestamp ts) (m_timestamp self)) (\<lambda>c. Ok (c < 0)) else Ok False)"

definition today :: "(nat \<Rightarrow> byte) \<Rightarrow> dt_format \<Rightarrow> ptime \<Rightarrow> bytes" where
  "today garbage fmt pt = Timestamp_get_date (Timestamp_new garbage fmt pt)"

section \<open>Order of texts\<close>

fun lexlt :: "'a::linorder list \<Rightarrow> 'a list \<Rightarrow> bool" where
  "lexlt xs [] = False"
| "lexlt [] (y # ys) = True"
| "lexlt (x # xs) (y # ys) = (x < y \<or> x = y \<and> lexlt xs ys)"

lemma lexlt_irrefl [simp]: "\<not> lexlt xs xs"
  by (induction xs) auto

lemma c_strcmp_lexlt:
  "0 \<notin> set xs \<Longrightarrow> 0 \<notin> set ys \<Longrightarrow> length xs = length ys \<Longrightarrow>
     c_strcmp (xs @ 0 # r1) (ys @ 0 # r2) = Ok (if lexlt xs ys then - 1 else if xs = ys then 0 else 1)"
  by (induction xs ys rule: lexlt.induct) (auto simp: not_less_iff_gr_or_eq)

lemma lexlt_append: "length u = length v \<Longrightarrow> lexlt (u @ xs) (v @ ys) \<longleftrightarrow> lexlt u v \<or> u = v \<and> lexlt xs ys"
  by (induction u v rule: lexlt.induct) auto

primrec digits_fixed :: "nat \<Rightarrow> nat \<Rightarrow> bytes" where
  "digits_fixed 0 n = []"
| "digits_fixed (Suc w) n = digits_fixed w (n div 10) @ [48 + of_nat (n mod 10)]"

lemma length_digits_fixed [simp]: "length (digits_fixed w n) = w"
  by (induction w arbitrary: n) auto

lemma digit_unat: "d < 10 \<Longrightarrow> unat (48 + of_nat d :: byte) = 48 + d"
  by (simp add: unat_word_ariths unat_of_nat)

lemma digit_less: "a < 10 \<Longrightarrow> b < 10 \<Longrightarrow> (48 + of_nat a < (48 + of_nat b :: byte)) = (a < b)"
  by (simp add: word_less_nat_alt digit_unat)

lemma digit_eq: "a < 10 \<Longrightarrow> b < 10 \<Longrightarrow> (of_nat a = (of_nat b :: byte)) = (a = b)"
  by (metis add_left_cancel digit_unat)

lemma digits_fixed_order:
  "a < 10 ^ w \<Longrightarrow> b < 10 ^ w \<Longrightarrow>
     (lexlt (digits_fixed w a) (digits_fixed w b) = (a < b)) \<and> (digits_fixed w a = digits_fixed w b \<longleftrightarrow> a = b)"
proof (induction w arbitrary: a b)
  case (Suc w)
  have ih: "(lexlt (digits_fixed w (a div 10)) (digits_fixed w (b div 10)) = (a div 10 < b div 10)) \<and>
      (digits_fixed w (a div 10) = digits_fixed w (b div 10) \<longleftrightarrow> a div 10 = b div 10)"
    by (rule Suc.IH) (use Suc.prems in \<open>simp_all add: less_mult_imp_div_less mult.commute\<close>)
  have less: "a < b \<longleftrightarrow> a div 10 < b div 10 \<or> a div 10 = b div 10 \<and> a mod 10 < b mod 10"
    using div_mult_mod_eq [of a 10] div_mult_mod_eq [of b 10] mod_less_divisor [of 10 a] mod_less_divisor [of 10 b] by linarith
  have eq: "a = b \<longleftrightarrow> a div 10 = b div 10 \<and> a mod 10 = b mod 10" by (metis div_mult_mod_eq)
  show ?case using ih by (auto simp: lexlt_append digit_less digit_eq less eq)
qed simp

lemma digits_fixed_nonzero: "0 \<notin> set (digits_fixed w n)"
proof (induction w arbitrary: n)
  case (Suc w)
  have "unat (48 + of_nat (n mod 10) :: byte) \<noteq> 0" by (simp add: digit_unat)
  then have "48 + of_nat (n mod 10) \<noteq> (0 :: byte)" by (metis unat_0)
  then show ?case using Suc by simp
qed simp

lemma dec_digits_fixed:
  "n < 10 ^ Suc w \<Longrightarrow> replicate (Suc w - length (dec_digits n)) 48 @ dec_digits n = digits_fixed (Suc w) n"
proof (induction w arbitrary: n)
  case 0
  then show ?case by (simp add: dec_digits.simps [of n])
next
  case (Suc w)
  have ih: "replicate (Suc w - length (dec_digits (n div 10))) 48 @ dec_digits (n div 10) = digits_fixed (Suc w) (n div 10)"
    by (rule Suc.IH) (use Suc.prems in \<open>simp add: less_mult_imp_div_less mult.commute\<close>)
  show ?case
  proof (cases "n < 10")
    case True
    then have "n div 10 = 0" by simp
    then show ?thesis using ih True
      by (simp add: dec_digits.simps [of n] dec_digits.simps [of 0] replicate_append_same [symmetric] del: digits_fixed.simps(2)) simp
  next
    case False
    then show ?thesis using ih by (simp add: dec_digits.simps [of n])
  qed
qed


lemma sint_small: "unat (n :: u32) < 2147483648 \<Longrightarrow> sint n = int (unat n)"
  using sint_diff_small [of n 0] by simp

lemma printf_zeros:
  assumes "unat n < 10 ^ w" "0 < w" "unat n < 2147483648"
  shows "printf_d True w n = digits_fixed w (unat n)"
proof -
  obtain v where w: "w = Suc v" using assms(2) by (cases w) auto
  show ?thesis using dec_digits_fixed [of "unat n" v] assms(1) unfolding w
    by (simp add: printf_d_def Let_def sint_small [OF assms(3)] del: digits_fixed.simps(2) int_nat_eq)
qed

lemma length_dec_digits_ge: "10 ^ w \<le> n \<Longrightarrow> Suc w \<le> length (dec_digits n)"
proof (induction w arbitrary: n)
  case 0
  show ?case by (subst dec_digits.simps) simp
next
  case (Suc w)
  have "10 * 1 \<le> 10 * (10 :: nat) ^ w" by (intro mult_le_mono) simp_all
  also have "\<dots> \<le> n" using Suc.prems by simp
  finally have "10 ^ w \<le> n div 10" "\<not> n < 10" using Suc.prems by (auto simp: less_eq_div_iff_mult_less_eq mult.commute)
  then show ?case using Suc.IH [of "n div 10"] by (simp add: dec_digits.simps [of n])
qed

lemma printf_year:
  assumes "unat n < 10000" "1000 \<le> unat n"
  shows "printf_d False 4 n = digits_fixed 4 (unat n)"
proof -
  have s: "sint n = int (unat n)" using assms(1) by (intro sint_small) simp
  have "4 \<le> length (dec_digits (unat n))" using length_dec_digits_ge [of 3 "unat n"] assms(2) by simp
  then have "printf_d False 4 n = dec_digits (unat n)" "printf_d True 4 n = dec_digits (unat n)"
    by (simp_all add: printf_d_def Let_def s del: int_nat_eq)
  then show ?thesis using printf_zeros [of n 4] assms(1) by simp
qed

text \<open>A reading of the clock with every field in its range.\<close>

definition pt_ok :: "ptime \<Rightarrow> bool" where
  "pt_ok t \<longleftrightarrow> 1000 \<le> unat (pt_year t) \<and> unat (pt_year t) < 10000 \<and> unat (pt_month t) < 100 \<and> unat (pt_day t) < 100 \<and>
     unat (pt_hours t) < 100 \<and> unat (pt_minutes t) < 100 \<and> unat (pt_seconds t) < 100 \<and> unat (pt_micros t) < 1000000"

lemma pt_ok_printf:
  assumes "pt_ok t"
  shows "D4 (pt_year t) = digits_fixed 4 (unat (pt_year t))" "D02 (pt_month t) = digits_fixed 2 (unat (pt_month t))"
    "D02 (pt_day t) = digits_fixed 2 (unat (pt_day t))" "D02 (pt_hours t) = digits_fixed 2 (unat (pt_hours t))"
    "D02 (pt_minutes t) = digits_fixed 2 (unat (pt_minutes t))" "D02 (pt_seconds t) = digits_fixed 2 (unat (pt_seconds t))"
    "D06 (pt_micros t) = digits_fixed 6 (unat (pt_micros t))"
  using assms printf_year [of "pt_year t"] printf_zeros [of _ 2] printf_zeros [of "pt_micros t" 6]
  by (simp_all add: pt_ok_def)

definition orders :: "(ptime \<Rightarrow> bytes) \<Rightarrow> (ptime \<Rightarrow> nat list) \<Rightarrow> bool" where
  "orders f ks \<longleftrightarrow> (\<forall>x y. pt_ok x \<longrightarrow> pt_ok y \<longrightarrow> length (f x) = length (f y) \<and> 0 \<notin> set (f x) \<and>
     (lexlt (f x) (f y) \<longleftrightarrow> lexlt (ks x) (ks y)) \<and> (f x = f y \<longleftrightarrow> ks x = ks y))"

lemma orders_Nil: "orders (\<lambda>x. []) (\<lambda>x. [])"
  by (simp add: orders_def)

lemma orders_Cons:
  assumes "orders f ks" and "c \<noteq> 0"
  shows "orders (\<lambda>x. c # f x) ks"
  unfolding orders_def
proof (intro allI impI)
  fix x y
  assume ok: "pt_ok x" "pt_ok y"
  show "length (c # f x) = length (c # f y) \<and> 0 \<notin> set (c # f x) \<and>
      (lexlt (c # f x) (c # f y) \<longleftrightarrow> lexlt (ks x) (ks y)) \<and> (c # f x = c # f y \<longleftrightarrow> ks x = ks y)"
    using assms(1) [unfolded orders_def, rule_format, OF ok] assms(2) by simp
qed

lemma orders_cong:
  assumes "orders f ks" "\<And>x. f' x = f x" "\<And>x. ks' x = ks x"
  shows "orders f' ks'"
proof -
  have "f' = f" "ks' = ks" by (rule ext, rule assms)+
  then show ?thesis using assms(1) by simp
qed

lemma orders_digits:
  assumes "orders f ks" and "\<And>x. pt_ok x \<Longrightarrow> g x < 10 ^ w"
  shows "orders (\<lambda>x. digits_fixed w (g x) @ f x) (\<lambda>x. g x # ks x)"
  unfolding orders_def
proof (intro allI impI)
  fix x y
  assume ok: "pt_ok x" "pt_ok y"
  note d = digits_fixed_order [OF assms(2) [OF ok(1)] assms(2) [OF ok(2)]]
  show "length (digits_fixed w (g x) @ f x) = length (digits_fixed w (g y) @ f y) \<and> 0 \<notin> set (digits_fixed w (g x) @ f x) \<and>
      (lexlt (digits_fixed w (g x) @ f x) (digits_fixed w (g y) @ f y) \<longleftrightarrow> lexlt (g x # ks x) (g y # ks y)) \<and>
      (digits_fixed w (g x) @ f x = digits_fixed w (g y) @ f y \<longleftrightarrow> g x # ks x = g y # ks y)"
    using assms(1) [unfolded orders_def, rule_format, OF ok] d digits_fixed_nonzero [of w "g x"]
    by (auto simp: lexlt_append)
qed

text \<open>The fields that a format shows.\<close>

definition clock_fields :: "dt_format \<Rightarrow> ptime \<Rightarrow> nat list" where
  "clock_fields fmt t = [unat (pt_year t), unat (pt_month t), unat (pt_day t), unat (pt_hours t), unat (pt_minutes t),
     unat (pt_seconds t)] @ (if fmt \<in> {fmt_iso_m, fmt_isot_m, fmt_std_m} then [unat (pt_micros t)] else [])"

fun timestamp_digits :: "dt_format \<Rightarrow> ptime \<Rightarrow> bytes" where
  "timestamp_digits fmt_iso t = digits_fixed 4 (unat (pt_year t)) @ digits_fixed 2 (unat (pt_month t)) @
     digits_fixed 2 (unat (pt_day t)) @ digits_fixed 2 (unat (pt_hours t)) @ digits_fixed 2 (unat (pt_minutes t)) @
     digits_fixed 2 (unat (pt_seconds t)) @ []"
| "timestamp_digits fmt_iso_m t = digits_fixed 4 (unat (pt_year t)) @ digits_fixed 2 (unat (pt_month t)) @
     digits_fixed 2 (unat (pt_day t)) @ digits_fixed 2 (unat (pt_hours t)) @ digits_fixed 2 (unat (pt_minutes t)) @
     digits_fixed 2 (unat (pt_seconds t)) @ digits_fixed 6 (unat (pt_micros t)) @ []"
| "timestamp_digits fmt_isot t = digits_fixed 4 (unat (pt_year t)) @ digits_fixed 2 (unat (pt_month t)) @
     digits_fixed 2 (unat (pt_day t)) @ 32 # digits_fixed 2 (unat (pt_hours t)) @ 58 # digits_fixed 2 (unat (pt_minutes t)) @
     58 # digits_fixed 2 (unat (pt_seconds t)) @ []"
| "timestamp_digits fmt_isot_m t = digits_fixed 4 (unat (pt_year t)) @ digits_fixed 2 (unat (pt_month t)) @
     digits_fixed 2 (unat (pt_day t)) @ 32 # digits_fixed 2 (unat (pt_hours t)) @ 58 # digits_fixed 2 (unat (pt_minutes t)) @
     58 # digits_fixed 2 (unat (pt_seconds t)) @ 46 # digits_fixed 6 (unat (pt_micros t)) @ []"
| "timestamp_digits fmt_std t = digits_fixed 4 (unat (pt_year t)) @ 45 # digits_fixed 2 (unat (pt_month t)) @
     45 # digits_fixed 2 (unat (pt_day t)) @ 32 # digits_fixed 2 (unat (pt_hours t)) @ 58 # digits_fixed 2 (unat (pt_minutes t)) @
     58 # digits_fixed 2 (unat (pt_seconds t)) @ []"
| "timestamp_digits fmt_std_m t = digits_fixed 4 (unat (pt_year t)) @ 45 # digits_fixed 2 (unat (pt_month t)) @
     45 # digits_fixed 2 (unat (pt_day t)) @ 32 # digits_fixed 2 (unat (pt_hours t)) @ 58 # digits_fixed 2 (unat (pt_minutes t)) @
     58 # digits_fixed 2 (unat (pt_seconds t)) @ 46 # digits_fixed 6 (unat (pt_micros t)) @ []"

lemma timestamp_text_digits: "pt_ok t \<Longrightarrow> timestamp_text fmt t = timestamp_digits fmt t"
  by (cases fmt) (simp_all add: pt_ok_printf)

lemma timestamp_orders: "orders (timestamp_digits fmt) (clock_fields fmt)"
proof -
  have ok: "unat (pt_year x) < 10 ^ 4 \<and> unat (pt_month x) < 10 ^ 2 \<and> unat (pt_day x) < 10 ^ 2 \<and> unat (pt_hours x) < 10 ^ 2 \<and>
      unat (pt_minutes x) < 10 ^ 2 \<and> unat (pt_seconds x) < 10 ^ 2 \<and> unat (pt_micros x) < 10 ^ 6" if "pt_ok x" for x
    using that by (simp add: pt_ok_def)
  then have f: "\<And>x. pt_ok x \<Longrightarrow> unat (pt_year x) < 10 ^ 4" "\<And>x. pt_ok x \<Longrightarrow> unat (pt_month x) < 10 ^ 2"
    "\<And>x. pt_ok x \<Longrightarrow> unat (pt_day x) < 10 ^ 2" "\<And>x. pt_ok x \<Longrightarrow> unat (pt_hours x) < 10 ^ 2"
    "\<And>x. pt_ok x \<Longrightarrow> unat (pt_minutes x) < 10 ^ 2" "\<And>x. pt_ok x \<Longrightarrow> unat (pt_seconds x) < 10 ^ 2"
    "\<And>x. pt_ok x \<Longrightarrow> unat (pt_micros x) < 10 ^ 6" by blast+
  have c: "(32 :: byte) \<noteq> 0" "(58 :: byte) \<noteq> 0" "(46 :: byte) \<noteq> 0" "(45 :: byte) \<noteq> 0" by simp_all
  note build = orders_Cons orders_Nil orders_digits [OF _ f(1)] orders_digits [OF _ f(2)] orders_digits [OF _ f(3)]
    orders_digits [OF _ f(4)] orders_digits [OF _ f(5)] orders_digits [OF _ f(6)] orders_digits [OF _ f(7)]
  show ?thesis
  proof (cases fmt)
    case fmt_iso
    show ?thesis unfolding fmt_iso
      by (rule orders_cong [OF _ timestamp_digits.simps(1)], (rule build c | assumption)+) (simp add: clock_fields_def)
  next
    case fmt_iso_m
    show ?thesis unfolding fmt_iso_m
      by (rule orders_cong [OF _ timestamp_digits.simps(2)], (rule build c | assumption)+) (simp add: clock_fields_def)
  next
    case fmt_isot
    show ?thesis unfolding fmt_isot
      by (rule orders_cong [OF _ timestamp_digits.simps(3)], (rule build c | assumption)+) (simp add: clock_fields_def)
  next
    case fmt_isot_m
    show ?thesis unfolding fmt_isot_m
      by (rule orders_cong [OF _ timestamp_digits.simps(4)], (rule build c | assumption)+) (simp add: clock_fields_def)
  next
    case fmt_std
    show ?thesis unfolding fmt_std
      by (rule orders_cong [OF _ timestamp_digits.simps(5)], (rule build c | assumption)+) (simp add: clock_fields_def)
  next
    case fmt_std_m
    show ?thesis unfolding fmt_std_m
      by (rule orders_cong [OF _ timestamp_digits.simps(6)], (rule build c | assumption)+) (simp add: clock_fields_def)
  qed
qed


lemma timestamp_buffer:
  assumes "pt_ok t"
  obtains r where "m_timestamp (Timestamp_new g fmt t) = timestamp_digits fmt t @ 0 # r" "m_fmt (Timestamp_new g fmt t) = fmt"
proof -
  have "length (timestamp_digits fmt t) \<le> 31" by (cases fmt) (simp_all del: digits_fixed.simps)
  then show thesis
    using that timestamp_text_digits [OF assms, of fmt] by (auto simp: Timestamp_new_def snprintf_def Let_def alloc_def)
qed

lemma timestamp_strcmp:
  assumes ok: "pt_ok a" "pt_ok b"
  shows "c_strcmp (m_timestamp (Timestamp_new g1 fmt a)) (m_timestamp (Timestamp_new g2 fmt b)) =
    Ok (if lexlt (clock_fields fmt a) (clock_fields fmt b) then - 1
        else if clock_fields fmt a = clock_fields fmt b then 0 else 1)"
proof -
  obtain r1 where r1: "m_timestamp (Timestamp_new g1 fmt a) = timestamp_digits fmt a @ 0 # r1" using timestamp_buffer [OF ok(1)] by blast
  obtain r2 where r2: "m_timestamp (Timestamp_new g2 fmt b) = timestamp_digits fmt b @ 0 # r2" using timestamp_buffer [OF ok(2)] by blast
  note o = timestamp_orders [of fmt, unfolded orders_def, rule_format]
  from o [OF ok] have a: "length (timestamp_digits fmt a) = length (timestamp_digits fmt b)" "0 \<notin> set (timestamp_digits fmt a)"
    "lexlt (timestamp_digits fmt a) (timestamp_digits fmt b) \<longleftrightarrow> lexlt (clock_fields fmt a) (clock_fields fmt b)"
    "timestamp_digits fmt a = timestamp_digits fmt b \<longleftrightarrow> clock_fields fmt a = clock_fields fmt b" by blast+
  from o [OF ok(2,1)] have b: "0 \<notin> set (timestamp_digits fmt b)" by blast
  show ?thesis unfolding r1 r2 c_strcmp_lexlt [OF a(2) b a(1)] a(3,4) ..
qed

section \<open>Dates and times in other formats\<close>

text \<open>\<open>std::string\<close>; a position behind its end throws.\<close>

definition str_erase :: "nat \<Rightarrow> nat \<Rightarrow> bytes \<Rightarrow> bytes outcome" where
  "str_erase pos n s = (if pos \<le> length s then Ok (take pos s @ drop (pos + n) s) else Err 0)"

definition str_insert :: "nat \<Rightarrow> byte \<Rightarrow> bytes \<Rightarrow> bytes outcome" where
  "str_insert pos c s = (if pos \<le> length s then Ok (take pos s @ c # drop pos s) else Err 0)"

definition str_resize :: "nat \<Rightarrow> bytes \<Rightarrow> bytes" where
  "str_resize n s = take n s @ replicate (n - length s) 0"

definition to_iso_date :: "bytes \<Rightarrow> dt_format \<Rightarrow> bytes outcome" where
  "to_iso_date date fmt_from =
     (if fmt_from = fmt_std then obind (str_erase 7 1 date) (str_erase 4 1) else Ok date)"

definition iso_date_to :: "bytes \<Rightarrow> dt_format \<Rightarrow> bytes outcome" where
  "iso_date_to date fmt_to =
     (if fmt_to = fmt_std then obind (str_insert 4 45 date) (str_insert 7 45) else Ok date)"

definition iso_date_to_cstr :: "bytes \<Rightarrow> dt_format \<Rightarrow> bytes outcome" where
  "iso_date_to_cstr date fmt_to =
     (if fmt_to = fmt_std then obind (eco_insert date 4 1 45) (\<lambda>d. eco_insert d 7 1 45) else Ok date)"

definition to_std_time :: "bytes \<Rightarrow> dt_format \<Rightarrow> bytes outcome" where
  "to_std_time time fmt_from =
     (if fmt_from = fmt_iso \<or> fmt_from = fmt_iso_m
      then obind (str_insert 2 58 time) (\<lambda>t. obind (str_insert 5 58 t) (\<lambda>t. Ok (str_resize 8 t))) else Ok time)"

definition std_time_to :: "bytes \<Rightarrow> dt_format \<Rightarrow> bytes outcome" where
  "std_time_to time fmt_to =
     (if fmt_to = fmt_iso \<or> fmt_to = fmt_iso_m
      then obind (str_erase 5 1 time) (\<lambda>t. obind (str_erase 2 1 t) (\<lambda>t. Ok (str_resize 6 t))) else Ok time)"

text \<open>These two have no return statement.\<close>

definition format_date :: "bytes \<Rightarrow> dt_format \<Rightarrow> dt_format \<Rightarrow> bytes outcome" where
  "format_date date fmt_from fmt_to = obind (to_iso_date date fmt_from) (\<lambda>d. obind (iso_date_to d fmt_to) (\<lambda>d. UB))"

definition format_time :: "bytes \<Rightarrow> dt_format \<Rightarrow> dt_format \<Rightarrow> bytes outcome" where
  "format_time time fmt_from fmt_to = obind (to_std_time time fmt_from) (\<lambda>d. obind (std_time_to d fmt_to) (\<lambda>d. UB))"

section \<open>Parsing\<close>

text \<open>\<open>boost::trim\<close> is a parameter. The text of the parameter is a C string.\<close>

record DateTime =
  m_date :: bytes
  m_time :: bytes

definition count_of :: "byte \<Rightarrow> bytes \<Rightarrow> nat" where
  "count_of c s = length (filter ((=) c) s)"

definition std_date_pos :: "bytes \<Rightarrow> bytes outcome" where
  "std_date_pos s = obind (str_insert 6 45 s) (str_insert 4 45)"

definition std_parts :: "bytes \<Rightarrow> DateTime \<Rightarrow> DateTime" where
  "std_parts s dt = dt\<lparr>m_date := substr s 0 10, m_time := substr s 11 8\<rparr>"

definition midnight :: bytes where
  "midnight = lit ''00:00:00''"

definition first_day :: bytes where
  "first_day = lit ''1900-01-01''"

definition set_date_time :: "(bytes \<Rightarrow> bytes) \<Rightarrow> bytes \<Rightarrow> DateTime \<Rightarrow> DateTime outcome" where
  "set_date_time trim str dt =
     obind (c_string (Some str)) (\<lambda>s. let v = trim s in
     if length v = 19 \<and> count_of 58 v = 2 \<and> count_of 45 v = 2 then Ok (std_parts v dt)
     else if length v = 10 \<and> count_of 45 v = 2 then Ok (dt\<lparr>m_date := v, m_time := midnight\<rparr>)
     else if length v = 8 \<and> count_of 58 v = 0 then
       obind (std_date_pos v) (\<lambda>v. Ok (dt\<lparr>m_date := v, m_time := midnight\<rparr>))
     else if length v = 8 \<and> count_of 58 v = 2 then Ok (dt\<lparr>m_date := first_day, m_time := v\<rparr>)
     else if length v = 6 then
       obind (str_insert 4 58 v) (\<lambda>v. obind (str_insert 2 58 v) (\<lambda>v. Ok (dt\<lparr>m_date := first_day, m_time := v\<rparr>)))
     else if length v = 17 \<and> count_of 58 v = 2 \<and> count_of 45 v = 0 then
       obind (std_date_pos v) (\<lambda>v. Ok (std_parts v dt))
     else if length v = 14 \<and> count_of 58 v = 0 \<and> count_of 45 v = 0 then
       obind (str_insert 8 120 v) (\<lambda>v. obind (str_insert 13 58 v) (\<lambda>v. obind (str_insert 11 58 v) (\<lambda>v.
       obind (std_date_pos v) (\<lambda>v. Ok (std_parts v dt)))))
     else if length v = 15 \<and> count_of 58 v = 0 \<and> count_of 45 v = 0 then
       obind (str_insert 13 58 v) (\<lambda>v. obind (str_insert 11 58 v) (\<lambda>v.
       obind (std_date_pos v) (\<lambda>v. Ok (std_parts v dt))))
     else Ok (dt\<lparr>m_date := first_day, m_time := midnight\<rparr>))"


section \<open>Counting units of time\<close>

text \<open>
  What the code uses of Boost's calendar: dates and times are read from texts, or refused with an
  exception; the number of days from the second date to the first; the day of the week, with
  zero for Sunday; adding units; printing.
\<close>

record ('d, 't) calendar =
  cal_parse :: "bytes \<Rightarrow> 'd option"
  cal_year :: "'d \<Rightarrow> int"
  cal_month :: "'d \<Rightarrow> int"
  cal_days :: "'d \<Rightarrow> 'd \<Rightarrow> int"
  cal_day_of_week :: "'d \<Rightarrow> int"
  cal_add_years :: "u32 \<Rightarrow> 'd \<Rightarrow> 'd"
  cal_add_months :: "u32 \<Rightarrow> 'd \<Rightarrow> 'd"
  cal_add_days :: "u32 \<Rightarrow> 'd \<Rightarrow> 'd"
  cal_iso_extended :: "'d \<Rightarrow> bytes"
  time_parse :: "bytes \<Rightarrow> 't option"
  time_add_seconds :: "int \<Rightarrow> 't \<Rightarrow> 't"
  time_iso_extended :: "'t \<Rightarrow> bytes"

definition get_season :: "u32 \<Rightarrow> u32" where
  "get_season month_num = (month_num - 1) div 3 + 1"

text \<open>Signed arithmetic that overflows is undefined.\<close>

definition int32 :: "int \<Rightarrow> int outcome" where
  "int32 x = (if - (2 ^ 31) \<le> x \<and> x < 2 ^ 31 then Ok x else UB)"

definition throw_times :: "(nat \<Rightarrow> byte) \<Rightarrow> string \<Rightarrow> bytes list \<Rightarrow> 'a outcome" where
  "throw_times garbage what texts =
     obind (Error_new garbage 0) (\<lambda>e.
     obind (stream_puts Error_Buffer (map PCstr ((lit what @ [0]) # texts)) (e_msg e)) (\<lambda>st. Err (sint (e_id e))))"

definition atoi_diff :: "nat \<Rightarrow> bytes \<Rightarrow> bytes \<Rightarrow> int outcome" where
  "atoi_diff k e s = obind (atoi (Some (drop k e))) (\<lambda>a. obind (atoi (Some (drop k s))) (\<lambda>b. int32 (a - b)))"

definition season_units :: "int \<Rightarrow> int \<Rightarrow> int \<Rightarrow> int" where
  "season_units em sm month =
     (let m = (em - sm) sdiv 3; sq = month smod 3 in m + (3 + (em - sm) smod 3 + sq) sdiv 3 - 1)"

definition week_units :: "int \<Rightarrow> int \<Rightarrow> int" where
  "week_units d dow = (let sq = (if dow \<noteq> 0 then dow - 1 else 7 - 1) in d sdiv 7 + (7 + d smod 7 + sq) sdiv 7 - 1)"

definition clock_units :: "int \<Rightarrow> bytes \<Rightarrow> bytes \<Rightarrow> TimeUnitType \<Rightarrow> int outcome" where
  "clock_units d e_dt s_dt t_type =
     obind (obind (atoi_diff 11 e_dt s_dt) (\<lambda>h. int32 (h + d * 24))) (\<lambda>v.
     if t_type = ttype_hour then Ok v
     else obind (obind (atoi_diff 14 e_dt s_dt) (\<lambda>m. obind (int32 (v * 60)) (\<lambda>v. int32 (v + m)))) (\<lambda>v.
     if t_type = ttype_minute then Ok v
     else obind (atoi_diff 17 e_dt s_dt) (\<lambda>s. obind (int32 (v * 60)) (\<lambda>v. int32 (v + s)))))"

definition get_duration_unit :: "('d, 't) calendar \<Rightarrow> (nat \<Rightarrow> byte) \<Rightarrow> bytes \<Rightarrow> bytes \<Rightarrow> TimeUnitType \<Rightarrow> int outcome" where
  "get_duration_unit cal garbage s_dt e_dt t_type =
     obind (c_string (Some s_dt)) (\<lambda>s_text. obind (c_string (Some e_dt)) (\<lambda>e_text.
     case (cal_parse cal s_text, cal_parse cal e_text) of
       (Some s, Some e) \<Rightarrow>
         (case t_type of
            ttype_year \<Rightarrow> Ok (cal_year cal e - cal_year cal s)
          | ttype_season \<Rightarrow>
              Ok (season_units (cal_year cal e * 12 + cal_month cal e) (cal_year cal s * 12 + cal_month cal s) (cal_month cal s))
          | ttype_month \<Rightarrow>
              Ok ((cal_year cal e * 12 + cal_month cal e) - (cal_year cal s * 12 + cal_month cal s))
          | ttype_week \<Rightarrow> Ok (week_units (cal_days cal e s) (cal_day_of_week cal s))
          | ttype_day \<Rightarrow> Ok (cal_days cal e s)
          | _ \<Rightarrow> clock_units (cal_days cal e s) e_dt s_dt t_type)
     | _ \<Rightarrow> throw_times garbage ''get_duration_unit error time: '' [s_dt, [32, 0], e_dt]))"

text \<open>Cutting a time down to a unit.\<close>

fun reset_number :: "bytes \<Rightarrow> byte \<Rightarrow> bytes" where
  "reset_number [] ch = []"
| "reset_number (c # cs) ch = (if c = 0 then c # cs else (if c \<le> 57 \<and> 48 < c then ch else c) # reset_number cs ch)"

definition reset_from :: "nat \<Rightarrow> bytes \<Rightarrow> bytes outcome" where
  "reset_from k dt = (if k \<le> length dt then Ok (take k dt @ reset_number (drop k dt) 48) else UB)"

fun format_date_time_unit :: "bytes \<Rightarrow> TimeUnitType \<Rightarrow> bytes outcome" where
  "format_date_time_unit dt ttype_second = Ok dt"
| "format_date_time_unit dt ttype_minute = reset_from 16 dt"
| "format_date_time_unit dt ttype_hour = reset_from 13 dt"
| "format_date_time_unit dt ttype_day = reset_from 10 dt"
| "format_date_time_unit dt ttype_week = reset_from 10 dt"
| "format_date_time_unit dt ttype_month = reset_from 10 dt"
| "format_date_time_unit dt ttype_season = reset_from 10 dt"
| "format_date_time_unit dt ttype_year = reset_from 10 dt"

definition get_unit_time :: "('d, 't) calendar \<Rightarrow> (nat \<Rightarrow> byte) \<Rightarrow> bytes \<Rightarrow> u32 \<Rightarrow> TimeUnitType \<Rightarrow> bytes outcome" where
  "get_unit_time cal garbage start_dt t_unit t_type =
     obind (c_string (Some start_dt)) (\<lambda>start.
     if t_unit = 0 then format_date_time_unit start t_type
     else if t_type \<in> {ttype_day, ttype_week, ttype_month, ttype_season, ttype_year} then
       (case cal_parse cal start of
          None \<Rightarrow> throw_times garbage ''get_unit_time error time: '' [start_dt]
        | Some s \<Rightarrow>
            (let s' = (case t_type of ttype_year \<Rightarrow> cal_add_years cal t_unit s | ttype_month \<Rightarrow> cal_add_months cal t_unit s
                       | ttype_day \<Rightarrow> cal_add_days cal t_unit s | _ \<Rightarrow> s)
             in Ok (cal_iso_extended cal s' @ lit '' 00:00:00'')))
     else
       (case time_parse cal start of
          None \<Rightarrow> throw_times garbage ''get_unit_time error time: '' [start_dt]
        | Some t \<Rightarrow>
            (let k = (case t_type of ttype_hour \<Rightarrow> 3600 | ttype_minute \<Rightarrow> 60 | _ \<Rightarrow> 1);
                 fmt = time_iso_extended cal (time_add_seconds cal (uint t_unit * k) t)
             in obind (wr fmt 10 32) (\<lambda>f. format_date_time_unit f t_type))))"


section \<open>Facts\<close>

lemma sdiv_shift:
  assumes "0 < n" "0 \<le> q"
  shows "x sdiv n + (n + x smod n + q) sdiv n - 1 = (x + q) div (n :: int)"
proof -
  let ?r = "x smod n"
  have x: "x = x sdiv n * n + ?r" by (simp add: sdiv_mult_smod_eq)
  have "\<bar>?r\<bar> < n" using assms(1) by (simp add: signed_modulo_int_def abs_mult sgn_if)
  then have "0 < n + ?r + q" using assms(2) by linarith
  then have "(n + ?r + q) sdiv n = (n + ?r + q) div n" using assms(1) by (simp add: signed_divide_int_def sgn_if)
  also have "\<dots> = (n + (?r + q)) div n" by (simp add: add.assoc)
  also have "\<dots> = 1 + (?r + q) div n" using assms(1) by (simp add: div_add_self1)
  moreover have "(x + q) div n = x sdiv n + (?r + q) div n"
  proof -
    have "(x + q) div n = (?r + q + x sdiv n * n) div n" using x by (simp add: algebra_simps)
    also have "\<dots> = x sdiv n + (?r + q) div n" using assms(1) by (simp add: div_mult_self1)
    finally show ?thesis .
  qed
  ultimately show ?thesis by simp
qed

lemma div_diff:
  assumes "0 < k"
  shows "(x - y + y mod k) div k = x div k - y div (k :: int)"
proof -
  have "x - y + y mod k = x + (- (y div k)) * k" using div_mult_mod_eq [of y k] by (simp add: algebra_simps)
  then have "(x - y + y mod k) div k = (x + (- (y div k)) * k) div k" by (simp only:)
  also have "\<dots> = x div k - y div k" using assms by (subst div_mult_self1) simp_all
  finally show ?thesis .
qed

lemma week_units_weeks:
  assumes "dow = n mod 7"
  shows "week_units (m - n) dow = (m - 1) div 7 - (n - 1) div 7"
proof -
  let ?sq = "if dow \<noteq> 0 then dow - 1 else 7 - 1"
  have "(n - 1) mod 7 = (n mod 7 - 1) mod 7" by (simp add: mod_diff_left_eq)
  also have "\<dots> = (if n mod 7 \<noteq> 0 then n mod 7 - 1 else 7 - 1)"
    using pos_mod_bound [of 7 n] pos_mod_sign [of 7 n] by (simp add: mod_pos_pos_trivial)
  finally have "(if n mod 7 \<noteq> 0 then n mod 7 - 1 else 7 - 1) = (n - 1) mod 7" by (rule sym)
  then have sq: "?sq = (n - 1) mod 7" unfolding assms .
  have sq_nonneg: "0 \<le> ?sq" unfolding sq by simp
  have "week_units (m - n) dow = (m - n + ?sq) div 7"
    using sdiv_shift [OF _ sq_nonneg, of 7 "m - n"] unfolding week_units_def Let_def by (simp only: zero_less_numeral simp_thms)
  also have "\<dots> = (m - 1) div 7 - (n - 1) div 7" unfolding sq using div_diff [of 7 "m - 1" "n - 1"] by simp
  finally show ?thesis .
qed

lemma season_units_quarters:
  assumes "0 \<le> month"
  shows "season_units em (y * 12 + month) month = em div 3 - (y * 12 + month) div 3"
proof -
  have "month smod 3 = month mod 3" using assms by (simp add: signed_modulo_int_def sgn_if)
  moreover have "0 \<le> month mod 3" by simp
  ultimately have "season_units em (y * 12 + month) month = (em - (y * 12 + month) + month mod 3) div 3"
    using sdiv_shift [of 3 "month mod 3" "em - (y * 12 + month)"] unfolding season_units_def Let_def by simp
  also have "month mod 3 = (y * 12 + month) mod 3" by presburger
  also have "(em - (y * 12 + month) + (y * 12 + month) mod 3) div 3 = em div 3 - (y * 12 + month) div 3" by (rule div_diff) simp
  finally show ?thesis .
qed

text \<open>The text of a clock, and what \<open>atoi\<close> reads in it.\<close>

lemma isdigit_char: "isdigit (48 + of_nat (n mod 10))"
  by (simp add: isdigit_def word_le_nat_alt digit_unat)

lemma digits_fixed_isdigit: "list_all isdigit (digits_fixed w n)"
  by (induction w arbitrary: n) (auto simp: isdigit_char)

lemma digits_value_fixed: "n < 10 ^ w \<Longrightarrow> digits_value acc (digits_fixed w n) = acc * 10 ^ w + int n"
proof (induction w arbitrary: n)
  case (Suc w)
  have ih: "digits_value acc (digits_fixed w (n div 10)) = acc * 10 ^ w + int (n div 10)"
    by (rule Suc.IH) (use Suc.prems in \<open>simp add: less_mult_imp_div_less mult.commute\<close>)
  have d: "uint (48 + of_nat (n mod 10) :: byte) = 48 + int (n mod 10)" using digit_unat [of "n mod 10"] by (simp add: uint_nat)
  have "int n = int (n div 10) * 10 + int (n mod 10)" by (metis div_mult_mod_eq of_nat_add of_nat_mult of_nat_numeral)
  then show ?case using ih d isdigit_char [of n] by (simp add: digits_value_append digits_fixed_isdigit algebra_simps)
qed simp

lemma atoi_fixed:
  assumes "n < 10 ^ w" "0 < w" "n < 2147483648" "0 \<in> set r" "\<not> isdigit (hd r)"
  shows "atoi (Some (digits_fixed w n @ r)) = Ok (int n)"
proof -
  let ?d = "digits_fixed w n"
  obtain t where t: "c_string (Some (?d @ r)) = Ok (?d @ t)" "t = takeWhile (\<lambda>b. b \<noteq> 0) r"
    using assms(4) digits_fixed_nonzero [of w n] by (auto simp: c_string_def takeWhile_append)
  have "t = [] \<or> \<not> isdigit (hd t)" using t(2) assms(5) by (cases r) auto
  then have tail: "digits_value a t = a" for a by (cases t) auto
  obtain c cs where c: "?d = c # cs" using assms(2) length_digits_fixed [of w n] by (cases ?d) auto
  then have "isdigit c" using digits_fixed_isdigit [of w n] by simp
  then have "c_parse (?d @ t) = digits_value 0 (?d @ t)" using c isdigit_cases [of c] by (simp add: c_parse_def)
  also have "\<dots> = int n" using digits_value_fixed [OF assms(1), of 0] tail by (simp add: digits_value_append digits_fixed_isdigit)
  finally show ?thesis using t(1) assms(3) by (simp add: atoi_def)
qed

definition clock_text :: "bytes \<Rightarrow> nat \<Rightarrow> nat \<Rightarrow> nat \<Rightarrow> bytes" where
  "clock_text date h m s = date @ digits_fixed 2 h @ 58 # digits_fixed 2 m @ 58 # digits_fixed 2 s @ [0]"

lemma atoi_clock:
  assumes "length date = 11" "h < 100" "m < 100" "s < 100"
  shows "atoi (Some (drop 11 (clock_text date h m s))) = Ok (int h)"
    "atoi (Some (drop 14 (clock_text date h m s))) = Ok (int m)"
    "atoi (Some (drop 17 (clock_text date h m s))) = Ok (int s)"
proof -
  have nd: "\<not> isdigit 58" "\<not> isdigit 0" by (simp_all add: isdigit_def)
  have d: "drop 11 (clock_text date h m s) = digits_fixed 2 h @ (58 # digits_fixed 2 m @ 58 # digits_fixed 2 s @ [0])"
    "drop 14 (clock_text date h m s) = digits_fixed 2 m @ (58 # digits_fixed 2 s @ [0])"
    "drop 17 (clock_text date h m s) = digits_fixed 2 s @ [0]"
    using assms(1) by (simp_all add: clock_text_def del: digits_fixed.simps)
  show "atoi (Some (drop 11 (clock_text date h m s))) = Ok (int h)"
    "atoi (Some (drop 14 (clock_text date h m s))) = Ok (int m)"
    "atoi (Some (drop 17 (clock_text date h m s))) = Ok (int s)"
    unfolding d using assms(2-4) nd by (simp_all add: atoi_fixed del: digits_fixed.simps)
qed


lemma c_string_clock: "c_string (Some (clock_text date h m s)) = Ok (cstr (clock_text date h m s))"
  by (simp add: c_string_def clock_text_def cstr_def)

lemma clock_units_eq:
  assumes "length ed = 11" "length sd = 11" "eh < 100" "em < 100" "es < 100" "sh < 100" "sm < 100" "ss < 100" "\<bar>d\<bar> \<le> 24000"
  shows "clock_units d (clock_text ed eh em es) (clock_text sd sh sm ss) ttype_hour = Ok (d * 24 + int eh - int sh)"
    "clock_units d (clock_text ed eh em es) (clock_text sd sh sm ss) ttype_minute = Ok ((d * 24 + int eh - int sh) * 60 + int em - int sm)"
    "clock_units d (clock_text ed eh em es) (clock_text sd sh sm ss) ttype_second =
       Ok (((d * 24 + int eh - int sh) * 60 + int em - int sm) * 60 + int es - int ss)"
proof -
  note a = atoi_clock [OF assms(1,3,4,5)] atoi_clock [OF assms(2,6,7,8)]
  let ?e = "clock_text ed eh em es" and ?s = "clock_text sd sh sm ss"
  let ?h = "d * 24 + int eh - int sh"
  let ?m = "?h * 60 + int em - int sm"
  have diff: "atoi_diff 11 ?e ?s = Ok (int eh - int sh)" "atoi_diff 14 ?e ?s = Ok (int em - int sm)"
    "atoi_diff 17 ?e ?s = Ok (int es - int ss)"
    using assms(3-8) by (simp_all add: atoi_diff_def a int32_def)
  have h: "int32 (int eh - int sh + d * 24) = Ok ?h"
    using assms(3-9) by (simp add: int32_def) linarith
  have m: "int32 (?h * 60) = Ok (?h * 60)" "int32 (?h * 60 + (int em - int sm)) = Ok ?m"
    using assms(3-9) by (simp_all add: int32_def) linarith+
  have s: "int32 (?m * 60) = Ok (?m * 60)" "int32 (?m * 60 + (int es - int ss)) = Ok (?m * 60 + int es - int ss)"
    using assms(3-9) by (simp_all add: int32_def) linarith+
  show "clock_units d ?e ?s ttype_hour = Ok ?h" "clock_units d ?e ?s ttype_minute = Ok ?m"
    "clock_units d ?e ?s ttype_second = Ok (?m * 60 + int es - int ss)"
    by (simp_all only: clock_units_def diff h m s obind_simps if_True if_False TimeUnitType.distinct refl)
qed


text \<open>Strings of a known length, and the counts of separators in digits.\<close>

lemma length_two: "length xs = 2 \<longleftrightarrow> (\<exists>a b. xs = [a, b])"
  by (auto simp: numeral_2_eq_2 length_Suc_conv)

lemma length_four: "length xs = 4 \<longleftrightarrow> (\<exists>a b c d. xs = [a, b, c, d])"
  by (auto simp: eval_nat_numeral length_Suc_conv)

lemma count_of_append [simp]: "count_of c (xs @ ys) = count_of c xs + count_of c ys"
  by (simp add: count_of_def)

lemma count_of_Cons [simp]: "count_of c (x # xs) = (if c = x then 1 else 0) + count_of c xs"
  by (simp add: count_of_def)

lemma count_of_Nil [simp]: "count_of c [] = 0"
  by (simp add: count_of_def)

lemma count_of_digits: "list_all isdigit xs \<Longrightarrow> count_of 58 xs = 0 \<and> count_of 45 xs = 0"
  by (induction xs) (auto simp: isdigit_def word_le_nat_alt)

lemma str_insert_split: "length u = pos \<Longrightarrow> str_insert pos c (u @ v) = Ok (u @ c # v)"
  by (auto simp: str_insert_def)

lemma str_erase_split: "length u = pos \<Longrightarrow> str_erase pos 1 (u @ c # v) = Ok (u @ v)"
  by (auto simp: str_erase_def)

text \<open>A date with separators has ten characters, a time eight, whatever the format.\<close>

lemma set_date_time_lengths:
  assumes "0 \<in> set str"
  shows "\<exists>dt'. set_date_time trim str dt = Ok dt' \<and> length (m_date dt') = 10 \<and> length (m_time dt') = 8"
proof -
  obtain s where s: "c_string (Some str) = Ok s" using assms by (simp add: c_string_def)
  have k: "length midnight = 8" "length first_day = 10" by (simp_all add: midnight_def first_day_def)
  show ?thesis
    unfolding set_date_time_def s obind_simps Let_def
    by (auto simp: k std_parts_def substr_def std_date_pos_def str_insert_def)
qed

text \<open>The two ways to write a date, and a time.\<close>

definition std_date :: "bytes \<Rightarrow> bytes \<Rightarrow> bytes \<Rightarrow> bytes" where
  "std_date y m d = y @ 45 # m @ 45 # d"

definition std_time :: "bytes \<Rightarrow> bytes \<Rightarrow> bytes \<Rightarrow> bytes" where
  "std_time h mi s = h @ 58 # mi @ 58 # s"

definition date_digits :: "bytes \<Rightarrow> bytes \<Rightarrow> bytes \<Rightarrow> bool" where
  "date_digits y m d \<longleftrightarrow> length y = 4 \<and> length m = 2 \<and> length d = 2 \<and> list_all isdigit (y @ m @ d)"

definition time_digits :: "bytes \<Rightarrow> bytes \<Rightarrow> bytes \<Rightarrow> bool" where
  "time_digits h mi s \<longleftrightarrow> length h = 2 \<and> length mi = 2 \<and> length s = 2 \<and> list_all isdigit (h @ mi @ s)"

lemma std_date_pos_eq: "date_digits y m d \<Longrightarrow> std_date_pos (y @ m @ d @ r) = Ok (std_date y m d @ r)"
  using str_insert_split [of "y @ m" 6 45 "d @ r"] str_insert_split [of y 4 45 "m @ 45 # d @ r"]
  by (simp add: std_date_pos_def date_digits_def std_date_def)

lemma std_parts_eq:
  assumes "date_digits y m d" "time_digits h mi s"
  shows "std_parts (std_date y m d @ c # std_time h mi s) dt = dt\<lparr>m_date := std_date y m d, m_time := std_time h mi s\<rparr>"
  using assms by (simp add: std_parts_def substr_def date_digits_def time_digits_def std_date_def std_time_def)

lemma date_counts: "date_digits y m d \<Longrightarrow> count_of c (y @ m @ d) = 0" if "c = 58 \<or> c = 45"
  using that count_of_digits [of "y @ m @ d"] by (auto simp: date_digits_def)

lemma time_counts: "time_digits h mi s \<Longrightarrow> count_of c (h @ mi @ s) = 0" if "c = 58 \<or> c = 45"
  using that count_of_digits [of "h @ mi @ s"] by (auto simp: time_digits_def)

text \<open>The eight texts a date and a time are accepted in, and what they mean.\<close>

definition dt_texts :: "bytes \<Rightarrow> bytes \<Rightarrow> bytes \<Rightarrow> bytes \<Rightarrow> bytes \<Rightarrow> bytes \<Rightarrow> byte \<Rightarrow> (bytes \<times> bytes \<times> bytes) list" where
  "dt_texts y m d h mi s c = (let D = std_date y m d; T = std_time h mi s in
     [(D @ c # T, D, T), (D, D, midnight), (y @ m @ d, D, midnight), (T, first_day, T), (h @ mi @ s, first_day, T),
      (y @ m @ d @ c # T, D, T), (y @ m @ d @ h @ mi @ s, D, T), (y @ m @ d @ c # h @ mi @ s, D, T)])"

lemma set_date_time_texts:
  assumes dig: "date_digits y m d" "time_digits h mi s" and c: "c \<noteq> 58" "c \<noteq> 45" "c \<noteq> 0"
    and t: "(t, D, T) \<in> set (dt_texts y m d h mi s c)" and trim: "trim t = t"
  shows "set_date_time trim (t @ 0 # rest) dt = Ok (dt\<lparr>m_date := D, m_time := T\<rparr>)"
proof -
  note len = dig [unfolded date_digits_def time_digits_def]
  have nz: "0 \<notin> set (y @ m @ d @ h @ mi @ s)"
  proof
    assume "0 \<in> set (y @ m @ d @ h @ mi @ s)"
    then have "isdigit 0" using len by (auto simp: list_all_iff)
    then show False by (simp add: isdigit_def)
  qed
  have "0 \<notin> set t" using t nz c(3) by (auto simp: dt_texts_def std_date_def std_time_def Let_def)
  then have str: "c_string (Some (t @ 0 # rest)) = Ok t" by (auto simp: c_string_def takeWhile_append)
  have cnt: "count_of 58 y = 0" "count_of 58 m = 0" "count_of 58 d = 0" "count_of 45 y = 0" "count_of 45 m = 0" "count_of 45 d = 0"
    "count_of 58 h = 0" "count_of 58 mi = 0" "count_of 58 s = 0" "count_of 45 h = 0" "count_of 45 mi = 0" "count_of 45 s = 0"
    using len count_of_digits by auto
  have l: "length y = 4" "length m = 2" "length d = 2" "length h = 2" "length mi = 2" "length s = 2" using len by auto
  have c': "58 \<noteq> c" "45 \<noteq> c" using c by auto
  have L: "length (std_date y m d) = 10" "length (std_time h mi s) = 8" "count_of 58 (std_date y m d) = 0"
    "count_of 45 (std_date y m d) = 2" "count_of 58 (std_time h mi s) = 2" "count_of 45 (std_time h mi s) = 0"
    using l cnt by (simp_all add: std_date_def std_time_def)
  have i8: "str_insert 8 120 (y @ m @ d @ h @ mi @ s) = Ok (y @ m @ d @ 120 # h @ mi @ s)"
    using str_insert_split [of "y @ m @ d" 8 120 "h @ mi @ s"] l by simp
  have i13: "str_insert 13 58 (y @ m @ d @ x # h @ mi @ s) = Ok (y @ m @ d @ x # h @ mi @ 58 # s)" for x
    using str_insert_split [of "y @ m @ d @ x # h @ mi" 13 58 s] l by simp
  have i11: "str_insert 11 58 (y @ m @ d @ x # h @ mi @ 58 # s) = Ok (y @ m @ d @ x # std_time h mi s)" for x
    using str_insert_split [of "y @ m @ d @ x # h" 11 58 "mi @ 58 # s"] l by (simp add: std_time_def)
  have i4: "str_insert 4 58 (h @ mi @ s) = Ok (h @ mi @ 58 # s)" "str_insert 2 58 (h @ mi @ 58 # s) = Ok (std_time h mi s)"
    using str_insert_split [of "h @ mi" 4 58 s] str_insert_split [of h 2 58 "mi @ 58 # s"] l by (simp_all add: std_time_def)
  have p: "std_date_pos (y @ m @ d @ x # std_time h mi s) = Ok (std_date y m d @ x # std_time h mi s)" for x
    by (rule std_date_pos_eq [OF dig(1)])
  have p0: "std_date_pos (y @ m @ d) = Ok (std_date y m d)" using std_date_pos_eq [OF dig(1), of "[]"] by simp
  note ev = set_date_time_def str obind_simps Let_def trim
  note run = L l cnt c' i8 i13 i11 i4 p p0 std_parts_eq [OF dig]
  have "t = std_date y m d @ c # std_time h mi s \<and> D = std_date y m d \<and> T = std_time h mi s \<or>
      t = std_date y m d \<and> D = std_date y m d \<and> T = midnight \<or> t = y @ m @ d \<and> D = std_date y m d \<and> T = midnight \<or>
      t = std_time h mi s \<and> D = first_day \<and> T = std_time h mi s \<or> t = h @ mi @ s \<and> D = first_day \<and> T = std_time h mi s \<or>
      t = y @ m @ d @ c # std_time h mi s \<and> D = std_date y m d \<and> T = std_time h mi s \<or>
      t = y @ m @ d @ h @ mi @ s \<and> D = std_date y m d \<and> T = std_time h mi s \<or>
      t = y @ m @ d @ c # h @ mi @ s \<and> D = std_date y m d \<and> T = std_time h mi s"
    using t by (simp add: dt_texts_def Let_def)
  then show ?thesis unfolding ev
    by (elim disjE conjE; simp only:; simp add: run)
qed


section \<open>Properties\<close>

text \<open>
  Claim C30. A date and a time of digits, written in any of the eight accepted formats, are parsed
  to the same parts, with midnight and the first of January 1900 for what is missing; whatever
  the text is, parsing returns a date of ten characters and a time of eight. Trimming is a
  parameter that leaves a text without blanks at its ends alone.
\<close>

theorem DateTime_parses_formats:
  assumes "\<And>v. v \<noteq> [] \<Longrightarrow> \<not> isspace (hd v) \<Longrightarrow> \<not> isspace (last v) \<Longrightarrow> trim v = v"
    and "date_digits y m d" and "time_digits h mi s" and "c \<noteq> 58" and "c \<noteq> 45" and "c \<noteq> 0"
    and "(t, D, T) \<in> set (dt_texts y m d h mi s c)" and "0 \<in> set str"
  shows "set_date_time trim (t @ 0 # rest) dt = Ok (dt\<lparr>m_date := D, m_time := T\<rparr>) \<and>
    (\<exists>dt'. set_date_time trim str dt = Ok dt' \<and> length (m_date dt') = 10 \<and> length (m_time dt') = 8)"
proof
  note dig = assms(2,3) [unfolded date_digits_def time_digits_def]
  have ne: "y \<noteq> [] \<and> d \<noteq> [] \<and> h \<noteq> [] \<and> s \<noteq> []" using dig by auto
  then have "hd y \<in> set y" "last d \<in> set d" "hd h \<in> set h" "last s \<in> set s" by auto
  then have "isdigit (hd y)" "isdigit (last d)" "isdigit (hd h)" "isdigit (last s)" using dig by (auto simp: list_all_iff)
  then have dg: "\<not> isspace (hd y)" "\<not> isspace (last d)" "\<not> isspace (hd h)" "\<not> isspace (last s)" by (auto dest: isdigit_cases)
  have "t \<noteq> [] \<and> hd t \<in> {hd y, hd h} \<and> last t \<in> {last d, last s}"
    using assms(7) ne by (auto simp: dt_texts_def Let_def std_date_def std_time_def)
  then have "t \<noteq> []" "\<not> isspace (hd t)" "\<not> isspace (last t)" using dg by auto
  then have "trim t = t" by (rule assms(1))
  then show "set_date_time trim (t @ 0 # rest) dt = Ok (dt\<lparr>m_date := D, m_time := T\<rparr>)"
    by (rule set_date_time_texts [OF assms(2-7)])
  show "\<exists>dt'. set_date_time trim str dt = Ok dt' \<and> length (m_date dt') = 10 \<and> length (m_time dt') = 8"
    by (rule set_date_time_lengths [OF assms(8)])
qed

text \<open>Trimming of blanks.\<close>

definition trim_blanks :: "bytes \<Rightarrow> bytes" where
  "trim_blanks v = rev (dropWhile isspace (rev (dropWhile isspace v)))"

lemma trim_blanks_id: "v \<noteq> [] \<Longrightarrow> \<not> isspace (hd v) \<Longrightarrow> \<not> isspace (last v) \<Longrightarrow> trim_blanks v = v"
proof -
  assume v: "v \<noteq> []" "\<not> isspace (hd v)" "\<not> isspace (last v)"
  have "dropWhile isspace v = v" using v by (cases v) auto
  moreover have "dropWhile isspace (rev v) = rev v" using v by (cases "rev v") (auto simp: hd_rev [symmetric])
  ultimately show ?thesis by (simp add: trim_blanks_def)
qed

theorem DateTime_parses_formats_witness:
  "set_date_time trim_blanks (lit ''20170714093005'' @ 0 # []) \<lparr>m_date = [], m_time = []\<rparr> =
     Ok \<lparr>m_date = lit ''2017-07-14'', m_time = lit ''09:30:05''\<rparr>"
proof -
  let ?y = "lit ''2017''" and ?m = "lit ''07''" and ?d = "lit ''14''" and ?h = "lit ''09''" and ?mi = "lit ''30''" and ?s = "lit ''05''"
  have dig: "date_digits ?y ?m ?d" "time_digits ?h ?mi ?s" by (simp_all add: date_digits_def time_digits_def lit_def isdigit_def)
  have mem: "(?y @ ?m @ ?d @ ?h @ ?mi @ ?s, std_date ?y ?m ?d, std_time ?h ?mi ?s) \<in> set (dt_texts ?y ?m ?d ?h ?mi ?s 84)"
    by (simp add: dt_texts_def Let_def)
  have "set_date_time trim_blanks ((?y @ ?m @ ?d @ ?h @ ?mi @ ?s) @ 0 # []) \<lparr>m_date = [], m_time = []\<rparr> =
      Ok (\<lparr>m_date = [], m_time = []\<rparr>\<lparr>m_date := std_date ?y ?m ?d, m_time := std_time ?h ?mi ?s\<rparr>)"
    by (rule DateTime_parses_formats [OF trim_blanks_id dig _ _ _ mem, of "[0]", THEN conjunct1]) simp_all
  then show ?thesis by (simp add: std_date_def std_time_def lit_def)
qed

text \<open>
  Two timestamps of one format are equal exactly when the fields the format shows are,
  and the comparison of the texts is that of the fields in order; but \<open>operator<\<close> has its operands
  the wrong way round: it holds when the other timestamp is the earlier one.
\<close>

theorem Timestamp_order:
  assumes "pt_ok a" and "pt_ok b"
  shows "Timestamp_equal (Timestamp_new g1 fmt a) (Timestamp_new g2 fmt b) = Ok (clock_fields fmt a = clock_fields fmt b) \<and>
    Timestamp_less (Timestamp_new g1 fmt a) (Timestamp_new g2 fmt b) = Ok (lexlt (clock_fields fmt b) (clock_fields fmt a))"
proof -
  have "m_fmt (Timestamp_new g1 fmt a) = fmt" "m_fmt (Timestamp_new g2 fmt b) = fmt" by (simp_all add: Timestamp_new_def)
  then show ?thesis
    using timestamp_strcmp [OF assms(2,1), of g2 fmt g1] by (auto simp: Timestamp_equal_def Timestamp_less_def)
qed

definition sample_clock :: "u32 \<Rightarrow> ptime" where
  "sample_clock s = \<lparr>pt_year = 2016, pt_month = 5, pt_day = 10, pt_hours = 23, pt_minutes = 5, pt_seconds = s, pt_micros = 688675\<rparr>"

theorem Timestamp_order_witness:
  "Timestamp_less (Timestamp_new (\<lambda>_. 170) fmt_std_m (sample_clock 5)) (Timestamp_new (\<lambda>_. 170) fmt_std_m (sample_clock 4)) = Ok True"
  using Timestamp_order [of "sample_clock 5" "sample_clock 4" "\<lambda>_. 170" fmt_std_m "\<lambda>_. 170"]
  by (simp add: sample_clock_def pt_ok_def clock_fields_def)

text \<open>
  Rewriting an ISO date to the standard format and back, or a standard time to the ISO
  format and back, gives it back; and the variant for C strings does to a buffer with room what
  the one for strings does.
\<close>

theorem date_time_roundtrip:
  assumes "date_digits y m d" and "time_digits h mi s" and "2 \<le> length rest"
  shows "obind (iso_date_to (y @ m @ d) fmt_std) (\<lambda>t. to_iso_date t fmt_std) = Ok (y @ m @ d) \<and>
    obind (to_iso_date (std_date y m d) fmt_std) (\<lambda>t. iso_date_to t fmt_std) = Ok (std_date y m d) \<and>
    obind (to_std_time (h @ mi @ s) fmt_iso) (\<lambda>t. std_time_to t fmt_iso) = Ok (h @ mi @ s) \<and>
    obind (std_time_to (std_time h mi s) fmt_iso) (\<lambda>t. to_std_time t fmt_iso) = Ok (std_time h mi s) \<and>
    iso_date_to_cstr ((y @ m @ d) @ 0 # rest) fmt_std = Ok (std_date y m d @ 0 # drop 2 rest)"
proof -
  have l: "length y = 4" "length m = 2" "length d = 2" "length h = 2" "length mi = 2" "length s = 2"
    using assms by (simp_all add: date_digits_def time_digits_def)
  have nz: "0 \<notin> set (y @ m @ d)"
  proof
    assume "0 \<in> set (y @ m @ d)"
    then have "isdigit 0" using assms(1) by (auto simp: date_digits_def list_all_iff)
    then show False by (simp add: isdigit_def)
  qed
  have ins: "str_insert 4 45 (y @ m @ d) = Ok (y @ 45 # m @ d)" "str_insert 7 45 (y @ 45 # m @ d) = Ok (std_date y m d)"
    "str_insert 2 58 (h @ mi @ s) = Ok (h @ 58 # mi @ s)" "str_insert 5 58 (h @ 58 # mi @ s) = Ok (std_time h mi s)"
    using str_insert_split [of y 4 45 "m @ d"] str_insert_split [of "y @ 45 # m" 7 45 d]
      str_insert_split [of h 2 58 "mi @ s"] str_insert_split [of "h @ 58 # mi" 5 58 s] l by (simp_all add: std_date_def std_time_def)
  have ers: "str_erase 7 1 (std_date y m d) = Ok (y @ 45 # m @ d)" "str_erase 4 1 (y @ 45 # m @ d) = Ok (y @ m @ d)"
    "str_erase 5 1 (std_time h mi s) = Ok (h @ 58 # mi @ s)" "str_erase 2 1 (h @ 58 # mi @ s) = Ok (h @ mi @ s)"
    using str_erase_split [of "y @ 45 # m" 7 45 d] str_erase_split [of y 4 45 "m @ d"]
      str_erase_split [of "h @ 58 # mi" 5 58 s] str_erase_split [of h 2 58 "mi @ s"] l by (simp_all add: std_date_def std_time_def)
  have rs: "str_resize 8 (std_time h mi s) = std_time h mi s" "str_resize 6 (h @ mi @ s) = h @ mi @ s"
    using l by (simp_all add: str_resize_def std_time_def)
  have i4: "eco_insert ((y @ m @ d) @ 0 # rest) 4 1 45 = Ok ((y @ 45 # m @ d) @ 0 # drop 1 rest)"
    using eco_insert_cstr [OF nz, of 4 1 rest 45] l assms(3) by simp
  have drop2: "drop (Suc (Suc 0)) rest = drop 2 rest" by (simp add: numeral_2_eq_2)
  have i7: "eco_insert ((y @ 45 # m @ d) @ 0 # drop 1 rest) 7 1 45 = Ok (std_date y m d @ 0 # drop 2 rest)"
    using eco_insert_cstr [of "y @ 45 # m @ d" 7 1 "drop 1 rest" 45] nz l assms(3) drop2 by (simp add: std_date_def)
  have "iso_date_to_cstr ((y @ m @ d) @ 0 # rest) fmt_std = Ok (std_date y m d @ 0 # drop 2 rest)"
    unfolding iso_date_to_cstr_def i4 obind_simps i7 by simp
  then show ?thesis by (simp add: iso_date_to_def to_iso_date_def to_std_time_def std_time_to_def ins ers rs del: One_nat_def)
qed

theorem date_time_roundtrip_witness:
  "iso_date_to_cstr ((lit ''2017'' @ lit ''07'' @ lit ''14'') @ 0 # [7, 7]) fmt_std = Ok (lit ''2017-07-14'' @ 0 # drop 2 [7, 7])"
  using date_time_roundtrip [of "lit ''2017''" "lit ''07''" "lit ''14''" "lit ''09''" "lit ''30''" "lit ''05''" "[7, 7]"]
  by (simp add: date_digits_def time_digits_def lit_def isdigit_def std_date_def)



lemma digits_fixed_2: "digits_fixed 2 n = [48 + of_nat (n div 10 mod 10), 48 + of_nat (n mod 10)]"
  by (simp add: numeral_2_eq_2)

text \<open>A calendar: the proleptic Gregorian one, with day zero a Sunday; dates are read from their digits.\<close>

definition days_from_civil :: "int \<times> int \<times> int \<Rightarrow> int" where
  "days_from_civil dt = (case dt of (y, m, d) \<Rightarrow>
     let y' = (if m \<le> 2 then y - 1 else y); yoe = y' mod 400; doy = (153 * ((m + 9) mod 12) + 2) div 5 + d - 1
     in (y' div 400) * 146097 + yoe * 365 + yoe div 4 - yoe div 100 + doy - 719464)"

definition civil_parse :: "bytes \<Rightarrow> (int \<times> int \<times> int) option" where
  "civil_parse t = (if 10 \<le> length t
     then Some (digits_value 0 (take 4 t), digits_value 0 (take 2 (drop 5 t)), digits_value 0 (take 2 (drop 8 t))) else None)"

definition civil_calendar :: "(int \<times> int \<times> int, unit) calendar" where
  "civil_calendar = \<lparr>cal_parse = civil_parse, cal_year = fst, cal_month = \<lambda>d. fst (snd d),
     cal_days = \<lambda>a b. days_from_civil a - days_from_civil b, cal_day_of_week = \<lambda>d. days_from_civil d mod 7,
     cal_add_years = \<lambda>n d. (fst d + uint n, snd d), cal_add_months = \<lambda>n d. d, cal_add_days = \<lambda>n d. d,
     cal_iso_extended = \<lambda>d. [], time_parse = \<lambda>t. None, time_add_seconds = \<lambda>n t. t, time_iso_extended = \<lambda>t. []\<rparr>"

abbreviation "july_14 \<equiv> lit ''2017-07-14 ''"
abbreviation "july_17 \<equiv> lit ''2017-07-17 ''"


text \<open>
  By this the start of April is no new season after March, and March is one after January, while
  \<open>get_season\<close> has the seasons begin in January, April, July and October.
\<close>

theorem season_units_shifted:
  "season_units (2017 * 12 + 4) (2017 * 12 + 3) 3 = 0 \<and> get_season 4 \<noteq> get_season 3 \<and>
   season_units (2017 * 12 + 3) (2017 * 12 + 1) 1 = 1 \<and> get_season 3 = get_season 1"
  by (simp add: season_units_def get_season_def signed_divide_int_def signed_modulo_int_def Let_def)

text \<open>
  A text that is no date is reported as an error when the message fits, and overruns the buffer of
  the error when the first text alone is too long for it.
\<close>

lemma get_duration_unit_error:
  assumes "cal_parse cal a = None" and "0 \<notin> set a" and "0 \<notin> set b"
  shows "(length a + length b \<le> 224 \<longrightarrow> get_duration_unit cal g (a @ [0]) (b @ [0]) u = Err 0) \<and>
    (225 < length a \<longrightarrow> get_duration_unit cal g (a @ [0]) (b @ [0]) u = UB)"
proof -
  let ?w = "''get_duration_unit error time: ''"
  have strs: "c_string (Some (a @ [0])) = Ok a" "c_string (Some (b @ [0])) = Ok b" using assms by (simp_all add: c_string_print)
  have go: "get_duration_unit cal g (a @ [0]) (b @ [0]) u = throw_times g ?w [a @ [0], [32, 0], b @ [0]]"
    by (simp add: get_duration_unit_def strs assms(1))
  obtain er where er: "Error_new g 0 = Ok er" "e_id er = 0" "fb_wf error_fix_size (st_buffer (e_msg er))"
    "fb_text (st_buffer (e_msg er)) = []" using Error_new_ok by blast
  have br: "\<not> brace_open (e_msg er)"
    using er(1) by (auto simp: Error_new_def obind_eq_Ok StreamT_new_def brace_open_def eco_has_def)
  have len: "length ?w = 30" by simp
  have nz: "0 \<notin> set (lit ?w)" by (simp add: lit_def)
  have cs: "cstr (lit ?w @ [0]) = lit ?w" "cstr (a @ [0]) = a" "cstr [32, 0] = [32]" "cstr (b @ [0]) = b"
    using cstr_terminated [OF nz, of "[]"] cstr_terminated [OF assms(2), of "[]"] cstr_terminated [OF assms(3), of "[]"]
    by (simp_all add: cstr_def)
  let ?vs = "map PCstr [lit ?w @ [0], a @ [0], [32, 0], b @ [0]]"
  have printed: "printed False ?vs = lit ?w @ a @ [32] @ b" using cs by simp
  have "get_duration_unit cal g (a @ [0]) (b @ [0]) u = Err 0" if "length a + length b \<le> 224"
  proof -
    have "fix_buffer.fits error_fix_size (e_msg er) (printed (brace_open (e_msg er)) ?vs)"
      using er(3,4) br that len unfolding fix_buffer.fits_def unfolding error_room by (simp add: printed del: list.map)
    moreover have "list_all printable_ok ?vs" by simp
    ultimately obtain st where "stream_puts Error_Buffer ?vs (e_msg er) = Ok st"
      using fix_buffer.stream_puts_puts [of ?vs error_fix_size "e_msg er"] by (auto simp: fix_buffer.puts_to_def Error_Buffer_def)
    then show ?thesis unfolding go using er(1,2) by (simp add: throw_times_def)
  qed
  moreover have "get_duration_unit cal g (a @ [0]) (b @ [0]) u = UB" if "225 < length a"
  proof -
    have "fix_buffer.fits error_fix_size (e_msg er) (cstr (lit ?w @ [0]))"
      using er(3,4) len unfolding fix_buffer.fits_def cs unfolding error_room by simp
    from fix_buffer.put_cstr_puts [OF this] obtain st1 where st1: "put_cstr Error_Buffer (lit ?w @ [0]) (e_msg er) = Ok st1"
      "fb_wf error_fix_size (st_buffer st1)" "fb_text (st_buffer st1) = lit ?w"
      using er(4) cs(1) by (auto simp: fix_buffer.puts_to_def Error_Buffer_def)
    have "put_cstr Error_Buffer (a @ [0]) st1 = UB"
      using fb_append_cstr_overflows [OF st1(2) assms(2), of "[]"] st1(3) that len
      by (simp add: put_cstr_def on_buffer_def Error_Buffer_def FixBuffer_Buffer_def error_room)
    then show ?thesis unfolding go throw_times_def using er(1) st1(1) by simp
  qed
  ultimately show ?thesis by blast
qed


text \<open>
  Cutting a time down to a unit sets what is below it to zero; for weeks and longer units only the
  clock is set to zero, and the date is kept. Nor do weeks and seasons move a date.
\<close>

lemma reset_number_digits: "list_all isdigit xs \<Longrightarrow> reset_number (xs @ r) 48 = replicate (length xs) 48 @ reset_number r 48"
proof (induction xs)
  case (Cons x xs)
  then have "x \<noteq> 0" "x \<le> 57" "48 < x \<or> x = 48" by (auto simp: isdigit_def)
  then show ?case using Cons by auto
qed simp

lemma format_date_time_unit_cuts:
  assumes "length date = 10" and "time_digits h mi s" and "c = 32 \<or> c = 84"
  shows "format_date_time_unit (date @ c # std_time h mi s) ttype_minute = Ok (date @ c # std_time h mi (lit ''00''))"
    "format_date_time_unit (date @ c # std_time h mi s) ttype_hour = Ok (date @ c # std_time h (lit ''00'') (lit ''00''))"
    "u \<in> {ttype_day, ttype_week, ttype_month, ttype_season, ttype_year} \<Longrightarrow>
       format_date_time_unit (date @ c # std_time h mi s) u = Ok (date @ c # midnight)"
proof -
  have t: "list_all isdigit h" "list_all isdigit mi" "list_all isdigit s" "length h = 2" "length mi = 2" "length s = 2"
    using assms(2) by (simp_all add: time_digits_def)
  have z: "replicate 2 48 = lit ''00''" by (simp add: lit_def replicate_2)
  have reset: "reset_number s 48 = lit ''00''" "reset_number (mi @ x) 48 = lit ''00'' @ reset_number x 48"
    "reset_number (h @ x) 48 = lit ''00'' @ reset_number x 48" for x
    using reset_number_digits [OF t(3), of "[]"] reset_number_digits [OF t(2), of x] reset_number_digits [OF t(1), of x]
    by (simp_all add: t z)
  show "format_date_time_unit (date @ c # std_time h mi s) ttype_minute = Ok (date @ c # std_time h mi (lit ''00''))"
    "format_date_time_unit (date @ c # std_time h mi s) ttype_hour = Ok (date @ c # std_time h (lit ''00'') (lit ''00''))"
    using assms(1) t by (simp_all add: reset_from_def std_time_def reset)
  have "reset_number (c # std_time h mi s) 48 = c # midnight"
    using assms(3) by (auto simp: std_time_def reset midnight_def lit_def)
  then show "format_date_time_unit (date @ c # std_time h mi s) u = Ok (date @ c # midnight)"
    if "u \<in> {ttype_day, ttype_week, ttype_month, ttype_season, ttype_year}"
    using that assms(1) by (auto simp: reset_from_def)
qed

lemma get_unit_time_week:
  assumes "0 \<notin> set a" and "cal_parse cal a = Some d" and "n \<noteq> 0" and "u = ttype_week \<or> u = ttype_season"
  shows "get_unit_time cal g (a @ [0]) n u = Ok (cal_iso_extended cal d @ lit '' 00:00:00'')"
  using assms by (auto simp: get_unit_time_def c_string_print)

end
