(* ===== verification/Eco_Log.thy ===== *)
theory Eco_Log
  imports Eco_Stream Eco_MessageQueue "HOL-Library.Sublist"
begin

text \<open>
  Asynchronous logging: the queue of \<open>src/project/eco/prj/src/log/Queue.h\<close> and the server thread of
  \<open>log/Server.h\<close>. Texts are collected in packs, buffers of a fixed size; a full pack, or after an
  interval the current one, is handed to the server thread, which writes it out and gives it back.

  The queue of packs, a \<open>boost::ptr_deque\<close>, is the list of the packs it owns. The steps of the
  threads that log and of the server thread interleave in any order; who waits on a condition
  variable may be woken at any time. The lemmas show what is kept of each text, and in which order.
\<close>

section \<open>Packs\<close>

definition pack_size :: u32 where "pack_size = 8192"
definition min_queue_size :: u32 where "min_queue_size = 1048576"
definition min_file_roll_size :: u32 where "min_file_roll_size = 10485760"
definition min_sync_interval :: u32 where "min_sync_interval = 1000"
definition queue_size :: u32 where "queue_size = 3145728"
definition file_roll_size :: u32 where "file_roll_size = 52428800"
definition sync_interval :: u32 where "sync_interval = 3000"

type_synonym Pack = FixBuffer

definition Pack_capacity :: u32 where
  "Pack_capacity = fb_capacity pack_size"

section \<open>The queue\<close>

record LogQueue =
  lq_avail :: "Pack list"
  lq_logging :: "Pack list"
  lq_cur_size :: u32
  lq_capacity :: u32
  lq_max_sync_interval :: u32
  lq_state :: State

definition LQ_open :: "LogQueue \<Rightarrow> LogQueue" where
  "LQ_open q = q\<lparr>lq_state := State_ok (lq_state q)\<rparr>"

definition LQ_new :: LogQueue where
  "LQ_new = LQ_open \<lparr>lq_avail = [], lq_logging = [], lq_cur_size = 0, lq_capacity = queue_size,
     lq_max_sync_interval = sync_interval, lq_state = State_no\<rparr>"

definition LQ_set_sync_interval :: "u32 \<Rightarrow> LogQueue \<Rightarrow> LogQueue" where
  "LQ_set_sync_interval millsecs q = q\<lparr>lq_max_sync_interval := millsecs\<rparr>"

definition LQ_set_capacity :: "u32 \<Rightarrow> LogQueue \<Rightarrow> LogQueue" where
  "LQ_set_capacity n q = q\<lparr>lq_capacity := n\<rparr>"

definition LQ_close :: "LogQueue \<Rightarrow> LogQueue" where
  "LQ_close q = q\<lparr>lq_state := State_none (lq_state q)\<rparr>"

definition LQ_is_close :: "LogQueue \<Rightarrow> bool" where
  "LQ_is_close q = (\<not> State_is_ok (lq_state q))"

definition LQ_get_avail :: "(nat \<Rightarrow> byte) \<Rightarrow> LogQueue \<Rightarrow> (LogQueue \<times> bool) outcome" where
  "LQ_get_avail g q =
     (if lq_avail q \<noteq> [] then Ok (q, True)
      else if lq_capacity q < lq_cur_size q + Pack_capacity then Ok (q, False)
      else obind (fb_new g pack_size) (\<lambda>p.
        Ok (q\<lparr>lq_avail := [p], lq_cur_size := lq_cur_size q + Pack_capacity\<rparr>, True)))"

definition LQ_move_avail :: "LogQueue \<Rightarrow> LogQueue" where
  "LQ_move_avail q =
     (if lq_avail q \<noteq> [] \<and> 0 < fb_size (last (lq_avail q))
      then q\<lparr>lq_logging := lq_logging q @ [last (lq_avail q)], lq_avail := butlast (lq_avail q)\<rparr> else q)"

definition LQ_recycle_avail :: "Pack \<Rightarrow> LogQueue \<Rightarrow> LogQueue outcome" where
  "LQ_recycle_avail pack q =
     obind (fb_clear pack) (\<lambda>p.
     Ok (q\<lparr>lq_avail := (if lq_avail q \<noteq> [] then butlast (lq_avail q) @ [p, last (lq_avail q)] else [p])\<rparr>))"

text \<open>
  One turn of the loop in \<open>post\<close>: the part of the text that was appended, or nothing when no pack
  is free and the thread has to wait.
\<close>

definition LQ_put :: "(nat \<Rightarrow> byte) \<Rightarrow> bytes \<Rightarrow> LogQueue \<Rightarrow> (LogQueue \<times> bytes option) outcome" where
  "LQ_put g t q =
     obind (LQ_get_avail g q) (\<lambda>(q, found).
     if \<not> found then Ok (q, None)
     else obind (fb_append pack_size (last (lq_avail q)) t (of_nat (length t))) (\<lambda>(p, n).
       let q1 = q\<lparr>lq_avail := butlast (lq_avail q) @ [p]\<rparr> in
       Ok (if fb_is_full pack_size p then LQ_move_avail q1 else q1, Some (take (unat n) t))))"

definition LQ_post :: "(nat \<Rightarrow> byte) \<Rightarrow> bytes \<Rightarrow> LogQueue \<Rightarrow> (LogQueue \<times> bytes option) outcome" where
  "LQ_post g t q =
     (if unat Pack_capacity < length t then Err 0
      else LQ_put g t (if lq_avail q \<noteq> [] \<and> fb_avail pack_size (last (lq_avail q)) < of_nat (length t) then LQ_move_avail q else q))"

datatype lq_popped = PGot Pack | PClosed | PWaits

definition LQ_pop_turn :: "LogQueue \<Rightarrow> LogQueue \<times> lq_popped" where
  "LQ_pop_turn q =
     (case lq_logging q of
        [] \<Rightarrow> (q, if LQ_is_close q then PClosed else PWaits)
      | p # ps \<Rightarrow> (q\<lparr>lq_logging := ps\<rparr>, PGot p))"

definition LQ_pop :: "Pack option \<Rightarrow> LogQueue \<Rightarrow> (LogQueue \<times> lq_popped) outcome" where
  "LQ_pop pack q =
     obind (case pack of None \<Rightarrow> Ok q | Some p \<Rightarrow> LQ_recycle_avail p q) (\<lambda>q1. Ok (LQ_pop_turn q1))"

definition LQ_pop_timeout :: "LogQueue \<Rightarrow> LogQueue \<times> lq_popped" where
  "LQ_pop_timeout q = LQ_pop_turn (LQ_move_avail q)"

section \<open>The server thread\<close>

text \<open>
  The thread is about to call \<open>pop\<close> with the pack it holds, waits in it, has got no pack, writes
  one, or has left its loop. \<open>ls_posted\<close> is the history: whether the caller had to wait, its text, and
  what was appended of it; \<open>ls_out\<close> is what has been written.
\<close>

datatype lphase = LPop "Pack option" | LWaits | LNoPack | LWrite Pack | LEnd

record LogServer =
  ls_queue :: LogQueue
  ls_phase :: lphase
  ls_out :: bytes
  ls_waiting :: "(tid \<times> bytes) list"
  ls_posted :: "(bool \<times> bytes \<times> bytes) list"

definition LS_new :: LogServer where
  "LS_new = \<lparr>ls_queue = LQ_new, ls_phase = LPop None, ls_out = [], ls_waiting = [], ls_posted = []\<rparr>"

fun after_pop :: "lq_popped \<Rightarrow> lphase" where
  "after_pop (PGot p) = LWrite p"
| "after_pop PClosed = LNoPack"
| "after_pop PWaits = LWaits"

definition LS_popped :: "LogQueue \<times> lq_popped \<Rightarrow> LogServer \<Rightarrow> LogServer" where
  "LS_popped r s = s\<lparr>ls_queue := fst r, ls_phase := after_pop (snd r)\<rparr>"

definition LS_pop :: "Pack option \<Rightarrow> LogServer \<Rightarrow> LogServer outcome" where
  "LS_pop pack s = obind (LQ_pop pack (ls_queue s)) (\<lambda>r. Ok (LS_popped r s))"

definition LS_wake :: "LogServer \<Rightarrow> LogServer" where
  "LS_wake s = LS_popped (LQ_pop_turn (ls_queue s)) s"

definition LS_timeout :: "LogServer \<Rightarrow> LogServer" where
  "LS_timeout s = LS_popped (LQ_pop_timeout (ls_queue s)) s"

text \<open>Without a pack the thread ends if the queue is still closed; else it writes through a null pointer.\<close>

definition LS_no_pack :: "LogServer \<Rightarrow> LogServer outcome" where
  "LS_no_pack s = (if LQ_is_close (ls_queue s) then Ok (s\<lparr>ls_phase := LEnd\<rparr>) else UB)"

definition LS_write :: "Pack \<Rightarrow> LogServer \<Rightarrow> LogServer" where
  "LS_write p s = s\<lparr>ls_out := ls_out s @ fb_text p, ls_phase := LPop (Some p)\<rparr>"

section \<open>Posting\<close>

definition LS_post :: "(nat \<Rightarrow> byte) \<Rightarrow> tid \<Rightarrow> bytes \<Rightarrow> LogServer \<Rightarrow> LogServer outcome" where
  "LS_post g t tx s =
     obind (LQ_post g tx (ls_queue s)) (\<lambda>(q, r). Ok (case r of
         None \<Rightarrow> s\<lparr>ls_queue := q, ls_waiting := ls_waiting s @ [(t, tx)]\<rparr>
       | Some kept \<Rightarrow> s\<lparr>ls_queue := q, ls_posted := ls_posted s @ [(False, tx, kept)]\<rparr>))"

definition LS_post_again :: "(nat \<Rightarrow> byte) \<Rightarrow> tid \<Rightarrow> bytes \<Rightarrow> LogServer \<Rightarrow> LogServer outcome" where
  "LS_post_again g t tx s =
     obind (LQ_put g tx (ls_queue s)) (\<lambda>(q, r). Ok (case r of
         None \<Rightarrow> s\<lparr>ls_queue := q\<rparr>
       | Some kept \<Rightarrow> s\<lparr>ls_queue := q, ls_waiting := remove1 (t, tx) (ls_waiting s),
           ls_posted := ls_posted s @ [(True, tx, kept)]\<rparr>))"

text \<open>The steps of the server thread, and those of all threads.\<close>

inductive log_work :: "LogServer \<Rightarrow> LogServer \<Rightarrow> bool" where
  log_pop: "ls_phase s = LPop p \<Longrightarrow> LS_pop p s = Ok s' \<Longrightarrow> log_work s s'"
| log_wake: "ls_phase s = LWaits \<Longrightarrow> log_work s (LS_wake s)"
| log_timeout: "ls_phase s = LWaits \<Longrightarrow> log_work s (LS_timeout s)"
| log_no_pack: "ls_phase s = LNoPack \<Longrightarrow> LS_no_pack s = Ok s' \<Longrightarrow> log_work s s'"
| log_write: "ls_phase s = LWrite p \<Longrightarrow> log_work s (LS_write p s)"

inductive log_step :: "LogServer \<Rightarrow> LogServer \<Rightarrow> bool" where
  log_worker: "log_work s s' \<Longrightarrow> log_step s s'"
| log_post: "LS_post g t tx s = Ok s' \<Longrightarrow> log_step s s'"
| log_post_again: "(t, tx) \<in> set (ls_waiting s) \<Longrightarrow> LS_post_again g t tx s = Ok s' \<Longrightarrow> log_step s s'"
| log_close: "log_step s (s\<lparr>ls_queue := LQ_close (ls_queue s)\<rparr>)"
| log_set_capacity: "log_step s (s\<lparr>ls_queue := LQ_set_capacity n (ls_queue s)\<rparr>)"
| log_set_sync_interval: "log_step s (s\<lparr>ls_queue := LQ_set_sync_interval n (ls_queue s)\<rparr>)"

inductive log_reach :: "LogServer \<Rightarrow> bool" where
  log_reach_start: "log_reach LS_new"
| log_reach_step: "log_reach s \<Longrightarrow> log_step s s' \<Longrightarrow> log_reach s'"

section \<open>What is in the queue\<close>

definition lq_ok :: "LogQueue \<Rightarrow> bool" where
  "lq_ok q \<longleftrightarrow> (\<forall>p \<in> set (lq_avail q) \<union> set (lq_logging q). fb_wf pack_size p) \<and> (\<forall>p \<in> set (butlast (lq_avail q)). fb_text p = [])"

definition cur_text :: "LogQueue \<Rightarrow> bytes" where
  "cur_text q = (if lq_avail q = [] then [] else fb_text (last (lq_avail q)))"

definition lq_text :: "LogQueue \<Rightarrow> bytes" where
  "lq_text q = concat (map fb_text (lq_logging q)) @ cur_text q"

definition pack_room :: nat where
  "pack_room = fb_room pack_size"

lemma pack_room_eq: "pack_room = 8191" "unat Pack_capacity = pack_room"
  by (simp_all add: pack_room_def fb_room_def pack_size_def Pack_capacity_def fb_capacity_def)

lemma size_text: "fb_wf pack_size p \<Longrightarrow> 0 < fb_size p \<longleftrightarrow> fb_text p \<noteq> []"
  using fb_wf_size(2) [of pack_size p] by (metis length_greater_0_conv unat_gt_0 word_neq_0_conv)

lemma last_avail_ok: "lq_ok q \<Longrightarrow> lq_avail q \<noteq> [] \<Longrightarrow> fb_wf pack_size (last (lq_avail q))"
  by (auto simp: lq_ok_def)

lemma move_avail_ok:
  assumes "lq_ok q"
  shows "lq_ok (LQ_move_avail q)" "lq_text (LQ_move_avail q) = lq_text q" "cur_text (LQ_move_avail q) = []"
proof -
  have empty: "butlast (lq_avail q) \<noteq> [] \<Longrightarrow> fb_text (last (butlast (lq_avail q))) = []"
    using assms last_in_set by (fastforce simp: lq_ok_def)
  have cur: "\<not> (lq_avail q \<noteq> [] \<and> 0 < fb_size (last (lq_avail q))) \<Longrightarrow> cur_text q = []"
    using size_text [OF last_avail_ok [OF assms]] by (auto simp: cur_text_def)
  show "cur_text (LQ_move_avail q) = []" using empty cur by (auto simp: LQ_move_avail_def cur_text_def)
  then show "lq_text (LQ_move_avail q) = lq_text q" using cur by (auto simp: LQ_move_avail_def lq_text_def cur_text_def)
  show "lq_ok (LQ_move_avail q)"
    using assms in_set_butlastD by (fastforce simp: LQ_move_avail_def lq_ok_def)
qed


lemma get_avail_ok:
  assumes "lq_ok q"
  shows "\<exists>q' found. LQ_get_avail g q = Ok (q', found) \<and> lq_ok q' \<and> lq_text q' = lq_text q \<and> cur_text q' = cur_text q \<and>
    (found \<longrightarrow> lq_avail q' \<noteq> [])"
proof -
  obtain p where p: "fb_new g pack_size = Ok p" "fb_wf pack_size p" "fb_text p = []"
    using fb_new_wf [of pack_size g] by (auto simp: pack_size_def)
  show ?thesis using assms p by (auto simp: LQ_get_avail_def lq_ok_def lq_text_def cur_text_def)
qed

lemma append_text:
  assumes wf: "fb_wf pack_size p" and t: "length t \<le> pack_room"
  obtains p' k where "fb_append pack_size p t (of_nat (length t)) = Ok (p', of_nat k)" "fb_wf pack_size p'"
    "fb_text p' = fb_text p @ take k t" "k = min (length t) (pack_room - length (fb_text p))" "unat (of_nat k :: u32) = k"
proof -
  let ?k = "min (length t) (pack_room - length (fb_text p))"
  have len: "length (fb_text p) \<le> pack_room" using fb_wf_size [OF wf] by (simp add: pack_room_def)
  have "length t < 4294967296" using t pack_room_eq(1) by simp
  from fb_append_refines [OF wf this, of "[]"] obtain p' where p': "fb_append pack_size p t (of_nat (length t)) = Ok (p', of_nat ?k)"
    "fb_wf pack_size p'" "fb_text p' = take pack_room (fb_text p @ t)" by (auto simp: pack_room_def)
  have "take pack_room (fb_text p @ t) = fb_text p @ take ?k t" using len by (simp add: min_def)
  moreover have "unat (of_nat ?k :: u32) = ?k" using t pack_room_eq(1) by (intro unat_of_nat_u32) simp
  ultimately show thesis using that [OF p'(1,2) _ refl] p'(3) by simp
qed

lemma put_ok:
  assumes ok: "lq_ok q" and t: "length t \<le> pack_room"
  shows "\<exists>q' r. LQ_put g t q = Ok (q', r) \<and> lq_ok q' \<and>
    (case r of None \<Rightarrow> lq_text q' = lq_text q
     | Some kept \<Rightarrow> lq_text q' = lq_text q @ kept \<and> kept = take (pack_room - length (cur_text q)) t)"
proof -
  obtain q1 found where q1: "LQ_get_avail g q = Ok (q1, found)" "lq_ok q1" "lq_text q1 = lq_text q" "cur_text q1 = cur_text q"
    "found \<longrightarrow> lq_avail q1 \<noteq> []" using get_avail_ok [OF ok] by blast
  show ?thesis
  proof (cases found)
    case False
    then show ?thesis using q1 by (simp add: LQ_put_def)
  next
    case True
    let ?p = "last (lq_avail q1)"
    have ne: "lq_avail q1 \<noteq> []" using q1(5) True by simp
    have cur: "cur_text q1 = fb_text ?p" using ne by (simp add: cur_text_def)
    obtain p' k where p': "fb_append pack_size ?p t (of_nat (length t)) = Ok (p', of_nat k)" "fb_wf pack_size p'"
      "fb_text p' = fb_text ?p @ take k t" "k = min (length t) (pack_room - length (fb_text ?p))" "unat (of_nat k :: u32) = k"
      using append_text [OF last_avail_ok [OF q1(2) ne] t] by blast
    let ?q2 = "q1\<lparr>lq_avail := butlast (lq_avail q1) @ [p']\<rparr>"
    let ?q3 = "if fb_is_full pack_size p' then LQ_move_avail ?q2 else ?q2"
    have ok2: "lq_ok ?q2" using q1(2) p'(2) in_set_butlastD by (fastforce simp: lq_ok_def)
    have text2: "lq_text ?q2 = lq_text q1 @ take k t" using cur p'(3) by (simp add: lq_text_def cur_text_def)
    have "lq_ok ?q3" "lq_text ?q3 = lq_text q1 @ take k t" using ok2 text2 move_avail_ok [OF ok2] by simp_all
    moreover have "LQ_put g t q = Ok (?q3, Some (take k t))"
      using q1(1) True p'(1,5) by (simp add: LQ_put_def)
    moreover have "take k t = take (pack_room - length (cur_text q)) t" using p'(4) cur q1(4) by (simp add: min_def)
    ultimately show ?thesis using q1(3) by (auto intro!: exI [of _ ?q3] exI [of _ "Some (take k t)"])
  qed
qed

lemma lq_post_ok:
  assumes ok: "lq_ok q" and t: "length t \<le> pack_room"
  shows "\<exists>q' r. LQ_post g t q = Ok (q', r) \<and> lq_ok q' \<and>
    (case r of None \<Rightarrow> lq_text q' = lq_text q | Some kept \<Rightarrow> lq_text q' = lq_text q @ t \<and> kept = t)"
proof -
  let ?full = "lq_avail q \<noteq> [] \<and> fb_avail pack_size (last (lq_avail q)) < of_nat (length t)"
  let ?q = "if ?full then LQ_move_avail q else q"
  have t': "\<not> unat Pack_capacity < length t" "unat (of_nat (length t) :: u32) = length t"
    using t pack_room_eq by (simp_all add: unat_of_nat_u32)
  have q: "lq_ok ?q" "lq_text ?q = lq_text q" using ok move_avail_ok [OF ok] by simp_all
  have "length t \<le> pack_room - length (cur_text ?q)"
  proof (cases "?full \<or> lq_avail q = []")
    case True
    then have "cur_text ?q = []" using move_avail_ok(3) [OF ok] by (auto simp: cur_text_def)
    then show ?thesis using t by simp
  next
    case False
    then have "\<not> fb_avail pack_size (last (lq_avail q)) < of_nat (length t)" "lq_avail q \<noteq> []" by auto
    then show ?thesis
      using False fb_wf_size(4) [OF last_avail_ok [OF ok]] t'(2) by (simp add: cur_text_def word_less_nat_alt pack_room_def)
  qed
  then have all: "take (pack_room - length (cur_text ?q)) t = t" by simp
  obtain q' r where r: "LQ_put g t ?q = Ok (q', r)" "lq_ok q'"
    "case r of None \<Rightarrow> lq_text q' = lq_text q | Some kept \<Rightarrow> lq_text q' = lq_text q @ kept \<and> kept = t"
    using put_ok [OF q(1) t, of g] unfolding q(2) all by blast
  have "case r of None \<Rightarrow> lq_text q' = lq_text q | Some kept \<Rightarrow> lq_text q' = lq_text q @ t \<and> kept = t"
    using r(3) by (cases r) auto
  moreover have "LQ_post g t q = Ok (q', r)" using t'(1) r(1) by (simp only: LQ_post_def if_False)
  ultimately show ?thesis using r(2) by blast
qed

lemma recycle_ok:
  assumes ok: "lq_ok q" and p: "fb_wf pack_size p"
  shows "\<exists>q'. LQ_recycle_avail p q = Ok q' \<and> lq_ok q' \<and> lq_text q' = lq_text q \<and> lq_state q' = lq_state q \<and>
    lq_logging q' = lq_logging q \<and> cur_text q' = cur_text q"
proof -
  have "length (fb_data p) = unat pack_size" "0 < pack_size" using p by (simp_all add: fb_wf_def pack_size_def)
  from fb_clear_refines [OF this] obtain p' where p': "fb_clear p = Ok p'" "fb_wf pack_size p'" "fb_text p' = []" by blast
  let ?q = "q\<lparr>lq_avail := (if lq_avail q \<noteq> [] then butlast (lq_avail q) @ [p', last (lq_avail q)] else [p'])\<rparr>"
  have "set (butlast (lq_avail q)) \<subseteq> set (lq_avail q)" by (auto dest: in_set_butlastD)
  then have "lq_ok ?q" using ok p'(2,3) by (auto simp: lq_ok_def butlast_append)
  moreover have "lq_text ?q = lq_text q \<and> cur_text ?q = cur_text q" using p'(3) by (simp add: lq_text_def cur_text_def)
  ultimately show ?thesis using p'(1) by (simp add: LQ_recycle_avail_def)
qed

lemma recycle_held:
  assumes "lq_ok q" and "\<And>p. pack = Some p \<Longrightarrow> fb_wf pack_size p"
  shows "\<exists>q'. (case pack of None \<Rightarrow> Ok q | Some p \<Rightarrow> LQ_recycle_avail p q) = Ok q' \<and> lq_ok q' \<and> lq_text q' = lq_text q \<and>
    lq_state q' = lq_state q \<and> lq_logging q' = lq_logging q \<and> cur_text q' = cur_text q"
proof (cases pack)
  case (Some p)
  then show ?thesis using recycle_ok [OF assms(1) assms(2) [OF Some]] by simp
qed (use assms(1) in simp)


text \<open>The pack that the server thread holds, and what of it is not written yet.\<close>

fun held :: "lphase \<Rightarrow> Pack option" where
  "held (LPop p) = p"
| "held (LWrite p) = Some p"
| "held ph = None"

fun unwritten :: "lphase \<Rightarrow> bytes" where
  "unwritten (LWrite p) = fb_text p"
| "unwritten ph = []"

definition kept_text :: "(bool \<times> bytes \<times> bytes) list \<Rightarrow> bytes" where
  "kept_text evs = concat (map (\<lambda>(waited, tx, kept). kept) evs)"

definition log_inv :: "LogServer \<Rightarrow> bool" where
  "log_inv s \<longleftrightarrow> lq_ok (ls_queue s) \<and> (\<forall>p. held (ls_phase s) = Some p \<longrightarrow> fb_wf pack_size p) \<and>
     ls_out s @ unwritten (ls_phase s) @ lq_text (ls_queue s) = kept_text (ls_posted s) \<and>
     (\<forall>(waited, tx, kept) \<in> set (ls_posted s). prefix kept tx \<and> (waited \<or> kept = tx)) \<and>
     (\<forall>(t, tx) \<in> set (ls_waiting s). length tx \<le> pack_room)"

lemma log_invD:
  assumes "log_inv s"
  shows "lq_ok (ls_queue s)" "held (ls_phase s) = Some p \<Longrightarrow> fb_wf pack_size p"
    "ls_out s @ unwritten (ls_phase s) @ lq_text (ls_queue s) = kept_text (ls_posted s)"
    "(waited, tx, kept) \<in> set (ls_posted s) \<Longrightarrow> prefix kept tx \<and> (waited \<or> kept = tx)"
    "(t, tx) \<in> set (ls_waiting s) \<Longrightarrow> length tx \<le> pack_room"
  using assms by (auto simp: log_inv_def)

lemma pop_turn_ok:
  assumes "lq_ok q"
  shows "lq_ok (fst (LQ_pop_turn q))" "unwritten (after_pop (snd (LQ_pop_turn q))) @ lq_text (fst (LQ_pop_turn q)) = lq_text q"
    "held (after_pop (snd (LQ_pop_turn q))) = Some p \<Longrightarrow> fb_wf pack_size p"
  using assms by (auto simp: LQ_pop_turn_def lq_ok_def lq_text_def cur_text_def split: list.splits if_splits)

lemma ls_popped_inv:
  assumes "log_inv s" "unwritten (ls_phase s) = []" "lq_ok q" "lq_text q = lq_text (ls_queue s)"
  shows "log_inv (LS_popped (LQ_pop_turn q) s)"
  using log_invD [OF assms(1)] assms(2,4) pop_turn_ok [OF assms(3)] by (auto simp: log_inv_def LS_popped_def)

lemma log_work_inv: "log_work s s' \<Longrightarrow> log_inv s \<Longrightarrow> log_inv s'"
proof (induction rule: log_work.induct)
  case (log_pop s p s')
  note inv = log_invD [OF log_pop(3)]
  obtain q where q: "LQ_pop p (ls_queue s) = Ok (LQ_pop_turn q)" "lq_ok q" "lq_text q = lq_text (ls_queue s)"
    using recycle_held [OF inv(1), of p] inv(2) log_pop(1) by (auto simp: LQ_pop_def)
  have "s' = LS_popped (LQ_pop_turn q) s" using log_pop(2) q(1) by (simp add: LS_pop_def)
  then show ?case using ls_popped_inv [OF log_pop(3) _ q(2,3)] log_pop(1) by simp
next
  case (log_wake s)
  then show ?case using ls_popped_inv [OF log_wake(2) _ log_invD(1) [OF log_wake(2)] refl] by (simp add: LS_wake_def)
next
  case (log_timeout s)
  note inv = log_invD(1) [OF log_timeout(2)]
  show ?case using ls_popped_inv [OF log_timeout(2) _ move_avail_ok(1,2) [OF inv]] log_timeout(1)
    by (simp add: LS_timeout_def LQ_pop_timeout_def)
next
  case (log_no_pack s s')
  then have "s' = s\<lparr>ls_phase := LEnd\<rparr>" by (auto simp: LS_no_pack_def split: if_splits)
  then show ?case using log_invD [OF log_no_pack(3)] log_no_pack(1) by (auto simp: log_inv_def)
next
  case (log_write s p)
  then show ?case using log_invD [OF log_write(2)] by (auto simp: log_inv_def LS_write_def)
qed

lemma same_packs_inv:
  assumes "log_inv s" "lq_avail q = lq_avail (ls_queue s)" "lq_logging q = lq_logging (ls_queue s)"
  shows "log_inv (s\<lparr>ls_queue := q\<rparr>)"
proof -
  have "lq_ok q = lq_ok (ls_queue s)" "lq_text q = lq_text (ls_queue s)"
    using assms(2,3) by (simp_all add: lq_ok_def lq_text_def cur_text_def)
  then show ?thesis using assms(1) by (simp add: log_inv_def)
qed

lemma log_step_inv: "log_step s s' \<Longrightarrow> log_inv s \<Longrightarrow> log_inv s'"
proof (induction rule: log_step.induct)
  case (log_worker s s')
  then show ?case by (rule log_work_inv)
next
  case (log_post g t tx s s')
  note inv = log_invD [OF log_post(2)]
  have len: "length tx \<le> pack_room"
    using log_post(1) pack_room_eq(2) by (auto simp: LS_post_def LQ_post_def split: if_splits)
  from lq_post_ok [OF inv(1) len, of g] obtain q r where q: "LQ_post g tx (ls_queue s) = Ok (q, r)" "lq_ok q"
    "case r of None \<Rightarrow> lq_text q = lq_text (ls_queue s) | Some kept \<Rightarrow> lq_text q = lq_text (ls_queue s) @ tx \<and> kept = tx" by blast
  show ?case
  proof (cases r)
    case None
    then have "s' = s\<lparr>ls_queue := q, ls_waiting := ls_waiting s @ [(t, tx)]\<rparr>" using log_post(1) q(1) by (simp add: LS_post_def)
    then show ?thesis using inv q None len by (auto simp: log_inv_def)
  next
    case (Some kept)
    then have "s' = s\<lparr>ls_queue := q, ls_posted := ls_posted s @ [(False, tx, kept)]\<rparr>" using log_post(1) q(1) by (simp add: LS_post_def)
    then show ?thesis using inv q(2,3) Some by (auto simp: log_inv_def kept_text_def)
  qed
next
  case (log_post_again t tx s g s')
  note inv = log_invD [OF log_post_again(3)]
  have len: "length tx \<le> pack_room" by (rule inv(5) [OF log_post_again(1)])
  from put_ok [OF inv(1) len, of g] obtain q r where q: "LQ_put g tx (ls_queue s) = Ok (q, r)" "lq_ok q"
    "case r of None \<Rightarrow> lq_text q = lq_text (ls_queue s)
     | Some kept \<Rightarrow> lq_text q = lq_text (ls_queue s) @ kept \<and> kept = take (pack_room - length (cur_text (ls_queue s))) tx" by blast
  show ?case
  proof (cases r)
    case None
    then have "s' = s\<lparr>ls_queue := q\<rparr>" using log_post_again(2) q(1) by (simp add: LS_post_again_def)
    then show ?thesis using inv q None by (auto simp: log_inv_def)
  next
    case (Some kept)
    then have "s' = s\<lparr>ls_queue := q, ls_waiting := remove1 (t, tx) (ls_waiting s), ls_posted := ls_posted s @ [(True, tx, kept)]\<rparr>"
      using log_post_again(2) q(1) by (simp add: LS_post_again_def)
    then show ?thesis
      using inv q(2,3) Some by (auto simp: log_inv_def kept_text_def take_is_prefix dest: notin_set_remove1 set_remove1_subset [THEN subsetD])
  qed
next
  case (log_close s)
  then show ?case by (rule same_packs_inv) (simp_all add: LQ_close_def)
next
  case (log_set_capacity s n)
  then show ?case by (rule same_packs_inv) (simp_all add: LQ_set_capacity_def)
next
  case (log_set_sync_interval s n)
  then show ?case by (rule same_packs_inv) (simp_all add: LQ_set_sync_interval_def)
qed

lemma log_reach_inv: "log_reach s \<Longrightarrow> log_inv s"
proof (induction rule: log_reach.induct)
  case log_reach_start
  show ?case by (simp add: LS_new_def LQ_new_def LQ_open_def log_inv_def lq_ok_def lq_text_def cur_text_def kept_text_def)
qed (rule log_step_inv)


section \<open>Writing everything out\<close>

text \<open>The queue stays closed once it is; the thread only leaves its loop when it is.\<close>

lemma queue_state:
  "lq_state (LQ_move_avail q) = lq_state q" "lq_state (fst (LQ_pop_turn q)) = lq_state q"
  "LQ_recycle_avail p q = Ok q1 \<Longrightarrow> lq_state q1 = lq_state q"
  "LQ_put g t q = Ok (q2, r) \<Longrightarrow> lq_state q2 = lq_state q"
  "LQ_post g t q = Ok (q2, r) \<Longrightarrow> lq_state q2 = lq_state q"
proof -
  have get: "LQ_get_avail g q = Ok (q', found) \<Longrightarrow> lq_state q' = lq_state q" for q q' found
    by (auto simp: LQ_get_avail_def obind_eq_Ok split: if_splits)
  show move: "lq_state (LQ_move_avail q) = lq_state q" for q by (simp add: LQ_move_avail_def)
  show "lq_state (fst (LQ_pop_turn q)) = lq_state q" by (simp add: LQ_pop_turn_def split: list.splits)
  show "LQ_recycle_avail p q = Ok q1 \<Longrightarrow> lq_state q1 = lq_state q" by (auto simp: LQ_recycle_avail_def obind_eq_Ok)
  show put: "LQ_put g t q = Ok (q2, r) \<Longrightarrow> lq_state q2 = lq_state q" for q
    by (auto simp: LQ_put_def obind_eq_Ok Let_def move dest!: get split: if_splits prod.splits)
  show "LQ_post g t q = Ok (q2, r) \<Longrightarrow> lq_state q2 = lq_state q"
    by (auto simp: LQ_post_def move dest!: put split: if_splits)
qed

definition log_running :: "LogServer \<Rightarrow> bool" where
  "log_running s \<longleftrightarrow> ls_phase s \<noteq> LNoPack \<and> ls_phase s \<noteq> LEnd"

lemma popped_running: "log_running (LS_popped (LQ_pop_turn q) s) \<or> LQ_is_close q"
  by (simp add: LS_popped_def log_running_def LQ_pop_turn_def split: list.splits)

text \<open>How far the thread is from having written everything.\<close>

definition log_left :: "LogServer \<Rightarrow> nat" where
  "log_left s = 3 * (length (lq_logging (ls_queue s)) + (if cur_text (ls_queue s) = [] then 0 else 1)) +
     (case ls_phase s of LPop p \<Rightarrow> 1 | LWrite p \<Rightarrow> 2 | _ \<Rightarrow> 0)"

lemma log_work_progress:
  assumes inv: "log_inv s" and op: "\<not> LQ_is_close (ls_queue s)" and run: "log_running s"
    and todo: "ls_phase s \<noteq> LWaits \<or> lq_text (ls_queue s) \<noteq> []"
  shows "\<exists>s'. log_work s s' \<and> log_left s' < log_left s \<and> \<not> LQ_is_close (ls_queue s') \<and> log_running s' \<and> ls_posted s' = ls_posted s"
proof (cases "ls_phase s")
  case (LPop p)
  note i = log_invD [OF inv]
  obtain q where q: "(case p of None \<Rightarrow> Ok (ls_queue s) | Some p \<Rightarrow> LQ_recycle_avail p (ls_queue s)) = Ok q"
    "lq_logging q = lq_logging (ls_queue s)" "cur_text q = cur_text (ls_queue s)" "lq_state q = lq_state (ls_queue s)"
    using recycle_held [OF i(1), of p] i(2) LPop by auto
  let ?s = "LS_popped (LQ_pop_turn q) s"
  have opq: "\<not> LQ_is_close q" using op q(4) by (simp add: LQ_is_close_def)
  have "LS_pop p s = Ok ?s" using q(1) by (simp add: LS_pop_def LQ_pop_def)
  then have "log_work s ?s" using LPop by (rule log_pop [rotated])
  moreover have "log_left ?s < log_left s" using LPop q(2,3) opq
    by (auto simp: log_left_def LS_popped_def LQ_pop_turn_def cur_text_def split: list.splits)
  moreover have "\<not> LQ_is_close (ls_queue ?s)" using opq queue_state(2) [of q] by (simp add: LS_popped_def LQ_is_close_def)
  moreover have "ls_posted ?s = ls_posted s" by (simp add: LS_popped_def)
  ultimately show ?thesis using popped_running [of q s] opq by blast
next
  case LWaits
  let ?q = "if lq_logging (ls_queue s) = [] then LQ_move_avail (ls_queue s) else ls_queue s"
  let ?s = "LS_popped (LQ_pop_turn ?q) s"
  have opq: "\<not> LQ_is_close ?q" using op by (simp add: LQ_is_close_def queue_state(1))
  have "log_work s ?s" using log_wake [OF LWaits] log_timeout [OF LWaits] by (simp add: LS_wake_def LS_timeout_def LQ_pop_timeout_def)
  moreover have "log_left ?s < log_left s"
  proof (cases "lq_logging (ls_queue s) = []")
    case True
    then have cur: "cur_text (ls_queue s) \<noteq> []" using todo LWaits by (simp add: lq_text_def)
    then have ne: "lq_avail (ls_queue s) \<noteq> []" by (auto simp: cur_text_def)
    then have "0 < fb_size (last (lq_avail (ls_queue s)))"
      using size_text [OF last_avail_ok [OF log_invD(1) [OF inv]]] cur by (simp add: cur_text_def)
    then have m: "lq_logging (LQ_move_avail (ls_queue s)) = [last (lq_avail (ls_queue s))]"
      using True ne by (simp add: LQ_move_avail_def)
    have "cur_text (q\<lparr>lq_logging := l\<rparr>) = cur_text q" for q l by (simp add: cur_text_def)
    note this [simp] move_avail_ok(3) [OF log_invD(1) [OF inv], simp]
    then show ?thesis using True cur LWaits by (simp add: log_left_def LS_popped_def LQ_pop_turn_def m)
  next
    case False
    then show ?thesis using LWaits
      by (cases "lq_logging (ls_queue s)") (auto simp: log_left_def LS_popped_def LQ_pop_turn_def cur_text_def)
  qed
  moreover have "\<not> LQ_is_close (ls_queue ?s)" using opq queue_state(2) [of ?q] by (simp add: LS_popped_def LQ_is_close_def)
  moreover have "ls_posted ?s = ls_posted s" by (simp add: LS_popped_def)
  ultimately show ?thesis using popped_running [of ?q s] opq by blast
next
  case (LWrite p)
  then show ?thesis using op log_write [OF LWrite]
    by (intro exI [of _ "LS_write p s"]) (simp add: LS_write_def log_left_def log_running_def)
qed (use run in \<open>simp_all add: log_running_def\<close>)

lemma log_flushes:
  "log_inv s \<Longrightarrow> \<not> LQ_is_close (ls_queue s) \<Longrightarrow> log_running s \<Longrightarrow>
     \<exists>s'. log_work\<^sup>*\<^sup>* s s' \<and> log_inv s' \<and> ls_phase s' = LWaits \<and> lq_text (ls_queue s') = [] \<and> ls_posted s' = ls_posted s"
proof (induction "log_left s" arbitrary: s rule: less_induct)
  case less
  show ?case
  proof (cases "ls_phase s \<noteq> LWaits \<or> lq_text (ls_queue s) \<noteq> []")
    case True
    obtain s1 where s1: "log_work s s1" "log_left s1 < log_left s" "\<not> LQ_is_close (ls_queue s1)" "log_running s1" "ls_posted s1 = ls_posted s"
      using log_work_progress [OF less.prems True] by blast
    from less.hyps [OF s1(2) log_work_inv [OF s1(1) less.prems(1)] s1(3,4)] s1(5)
    show ?thesis using converse_rtranclp_into_rtranclp [of log_work, OF s1(1)] by metis
  next
    case False
    then show ?thesis using less.prems(1) by blast
  qed
qed

lemma log_running_open: "log_reach s \<Longrightarrow> log_running s \<or> LQ_is_close (ls_queue s)"
proof (induction rule: log_reach.induct)
  case log_reach_start
  show ?case by (simp add: LS_new_def log_running_def)
next
  case (log_reach_step s s')
  have work: "log_running s2 \<or> LQ_is_close (ls_queue s2)" if "log_work s1 s2" "log_running s1 \<or> LQ_is_close (ls_queue s1)" for s1 s2
    using that
  proof (induction rule: log_work.induct)
    case (log_pop s p s')
    obtain q where q: "(case p of None \<Rightarrow> Ok (ls_queue s) | Some p \<Rightarrow> LQ_recycle_avail p (ls_queue s)) = Ok q"
      "s' = LS_popped (LQ_pop_turn q) s" using log_pop(2) unfolding LS_pop_def LQ_pop_def obind_eq_Ok by blast
    then show ?case using popped_running [of q s] queue_state(2) [of q] by (auto simp: LS_popped_def LQ_is_close_def)
  next
    case (log_wake s)
    then show ?case using popped_running [of "ls_queue s" s] queue_state(2) [of "ls_queue s"]
      by (auto simp: LS_wake_def LS_popped_def LQ_is_close_def)
  next
    case (log_timeout s)
    then show ?case using popped_running [of "LQ_move_avail (ls_queue s)" s] queue_state(2) [of "LQ_move_avail (ls_queue s)"]
      by (auto simp: LS_timeout_def LQ_pop_timeout_def LS_popped_def LQ_is_close_def)
  qed (auto simp: LS_no_pack_def LS_write_def log_running_def split: if_splits)
  from log_reach_step(2,3) show ?case
  proof (induction rule: log_step.induct)
    case (log_worker s s')
    then show ?case by (rule work)
  next
    case (log_post g t tx s s')
    then show ?case
      by (auto simp: LS_post_def log_running_def LQ_is_close_def obind_eq_Ok dest!: queue_state(5) split: option.splits)
  next
    case (log_post_again t tx s g s')
    then show ?case
      by (auto simp: LS_post_again_def log_running_def LQ_is_close_def obind_eq_Ok dest!: queue_state(4) split: option.splits)
  qed (auto simp: log_running_def LQ_is_close_def LQ_close_def LQ_set_capacity_def LQ_set_sync_interval_def State_none_def
      State_is_ok_def State_has_def State_no_def)
qed


lemma post_first:
  assumes "tx \<noteq> []" "length tx < pack_room" "lq_avail q = []" "lq_cur_size q + Pack_capacity \<le> lq_capacity q"
  shows "\<exists>p. LQ_post g tx q = Ok (q\<lparr>lq_avail := [p], lq_cur_size := lq_cur_size q + Pack_capacity\<rparr>, Some tx) \<and>
    fb_wf pack_size p \<and> fb_text p = tx"
proof -
  obtain p0 where p0: "fb_new g pack_size = Ok p0" "fb_wf pack_size p0" "fb_text p0 = []"
    using fb_new_wf [of pack_size g] by (auto simp: pack_size_def)
  obtain p k where p: "fb_append pack_size p0 tx (of_nat (length tx)) = Ok (p, of_nat k)" "fb_wf pack_size p"
    "fb_text p = fb_text p0 @ take k tx" "k = min (length tx) (pack_room - length (fb_text p0))" "unat (of_nat k :: u32) = k"
    using append_text [OF p0(2), of tx] assms(2) by auto
  have k: "k = length tx" using p(4) p0(3) assms(2) by simp
  have "unat (fb_avail pack_size p) \<noteq> 0" using fb_wf_size(4) [OF p(2)] p(3) p0(3) k assms(2) by (simp add: pack_room_def)
  then have "\<not> fb_is_full pack_size p" by (auto simp: fb_is_full_def)
  moreover have "\<not> lq_capacity q < lq_cur_size q + Pack_capacity" "\<not> unat Pack_capacity < length tx"
    using assms(2,4) pack_room_eq(2) by simp_all
  ultimately have "LQ_post g tx q = Ok (q\<lparr>lq_avail := [p], lq_cur_size := lq_cur_size q + Pack_capacity\<rparr>, Some tx)"
    using assms(3) p0(1) p(1,5) k by (simp add: LQ_post_def LQ_put_def LQ_get_avail_def Let_def)
  then show ?thesis using p(2,3) p0(3) k by auto
qed

text \<open>The state after the first text has been posted.\<close>

definition after_first :: "bytes \<Rightarrow> Pack \<Rightarrow> LogServer" where
  "after_first tx p = LS_new\<lparr>ls_queue := LQ_new\<lparr>lq_avail := [p], lq_cur_size := Pack_capacity\<rparr>, ls_posted := [(False, tx, tx)]\<rparr>"

lemma first_posted:
  assumes "tx \<noteq> []" "length tx < pack_room"
  obtains p where "log_reach (after_first tx p)" "fb_text p = tx"
proof -
  have "Pack_capacity \<le> queue_size" by (simp add: Pack_capacity_def fb_capacity_def pack_size_def queue_size_def)
  then obtain p where p: "LQ_post (\<lambda>_. 0) tx LQ_new = Ok (LQ_new\<lparr>lq_avail := [p], lq_cur_size := Pack_capacity\<rparr>, Some tx)"
    "fb_text p = tx" using post_first [OF assms, of LQ_new] by (auto simp: LQ_new_def LQ_open_def)
  have "LS_post (\<lambda>_. 0) 0 tx LS_new = Ok (after_first tx p)" using p(1) by (simp add: LS_post_def LS_new_def after_first_def)
  then show thesis using p(2) that log_reach_step [OF log_reach_start log_post] by blast
qed

section \<open>Properties\<close>

text \<open>
  Claim C15. Under every interleaving, what has been written, what the server thread is writing
  and what is in the queue are, one behind the other, what was kept of the texts in the order in
  which they were appended. A text is kept whole unless its thread had to wait for a pack; then it
  may be cut. While the queue is open, the server thread alone can write everything out.
\<close>

theorem log_in_order:
  assumes "log_reach s"
  shows "ls_out s @ unwritten (ls_phase s) @ lq_text (ls_queue s) = kept_text (ls_posted s) \<and>
    (\<forall>(waited, tx, kept) \<in> set (ls_posted s). prefix kept tx \<and> (waited \<or> kept = tx)) \<and>
    (LQ_is_close (ls_queue s) \<or> (\<exists>s'. log_work\<^sup>*\<^sup>* s s' \<and> ls_posted s' = ls_posted s \<and> ls_out s' = kept_text (ls_posted s)))"
proof (intro conjI)
  note inv = log_reach_inv [OF assms]
  show "ls_out s @ unwritten (ls_phase s) @ lq_text (ls_queue s) = kept_text (ls_posted s)" by (rule log_invD(3) [OF inv])
  show "\<forall>(waited, tx, kept) \<in> set (ls_posted s). prefix kept tx \<and> (waited \<or> kept = tx)" using inv by (simp add: log_inv_def)
  show "LQ_is_close (ls_queue s) \<or> (\<exists>s'. log_work\<^sup>*\<^sup>* s s' \<and> ls_posted s' = ls_posted s \<and> ls_out s' = kept_text (ls_posted s))"
  proof (cases "LQ_is_close (ls_queue s)")
    case False
    then obtain s' where s': "log_work\<^sup>*\<^sup>* s s'" "log_inv s'" "ls_phase s' = LWaits" "lq_text (ls_queue s') = []" "ls_posted s' = ls_posted s"
      using log_flushes [OF inv] log_running_open [OF assms] by blast
    then have "ls_out s' = kept_text (ls_posted s)" using log_invD(3) [OF s'(2)] by simp
    then show ?thesis using s'(1,5) by blast
  qed simp
qed

theorem log_in_order_witness:
  "\<exists>s s'. log_reach s \<and> log_work\<^sup>*\<^sup>* s s' \<and> ls_posted s = [(False, [65], [65])] \<and> lq_text (ls_queue s) = [65] \<and> ls_out s' = [65]"
proof -
  from first_posted [of "[65]"] obtain p where r: "log_reach (after_first [65] p)" by (auto simp: pack_room_eq(1))
  let ?s = "after_first [65] p"
  have s: "ls_posted ?s = [(False, [65], [65])]" "ls_out ?s = []" "ls_phase ?s = LPop None" "\<not> LQ_is_close (ls_queue ?s)"
    by (simp_all add: after_first_def LS_new_def LQ_new_def LQ_open_def LQ_is_close_def State_ok_def State_is_ok_def State_has_def
        State_add_def State_ok_flag_def State_no_def)
  from log_in_order [OF r] s obtain s' where "log_work\<^sup>*\<^sup>* ?s s'" "ls_out s' = [65]" "lq_text (ls_queue ?s) = [65]"
    by (auto simp: kept_text_def)
  then show ?thesis using r s(1) by blast
qed

text \<open>
  Closing the queue loses what is in the current pack: the server thread ends when no pack is
  handed over, and does not take the current one.
\<close>

lemma ended_out: "log_step s s' \<Longrightarrow> ls_phase s = LEnd \<Longrightarrow> ls_phase s' = LEnd \<and> ls_out s' = ls_out s"
  by (induction rule: log_step.induct)
    (auto simp: LS_post_def LS_post_again_def obind_eq_Ok elim!: log_work.cases split: option.splits prod.splits)

theorem log_lost_at_close:
  assumes "tx \<noteq> []" and "length tx < pack_room"
  shows "\<exists>s. log_reach s \<and> ls_phase s = LEnd \<and> ls_posted s = [(False, tx, tx)] \<and> ls_waiting s = [] \<and>
    (\<forall>s'. log_step\<^sup>*\<^sup>* s s' \<longrightarrow> ls_out s' = [])"
proof -
  from first_posted [OF assms] obtain p where r1: "log_reach (after_first tx p)" by blast
  let ?q = "LQ_close (LQ_new\<lparr>lq_avail := [p], lq_cur_size := Pack_capacity\<rparr>)"
  let ?s2 = "(after_first tx p)\<lparr>ls_queue := ?q\<rparr>"
  let ?s3 = "?s2\<lparr>ls_phase := LNoPack\<rparr>" and ?s4 = "?s2\<lparr>ls_phase := LEnd\<rparr>"
  have cl: "LQ_is_close ?q" by (simp add: LQ_is_close_def LQ_close_def State_none_def State_is_ok_def State_has_def State_no_def)
  have lg: "lq_logging ?q = []" by (simp add: LQ_close_def LQ_new_def LQ_open_def)
  have r2: "log_reach ?s2" using log_reach_step [OF r1 log_close] by (simp add: after_first_def)
  have "LS_pop None ?s2 = Ok ?s3" using cl lg by (simp add: LS_pop_def LQ_pop_def LQ_pop_turn_def LS_popped_def after_first_def)
  moreover have "ls_phase ?s2 = LPop None" by (simp add: after_first_def LS_new_def)
  ultimately have r3: "log_reach ?s3" by (intro log_reach_step [OF r2 log_worker [OF log_pop]])
  have "LS_no_pack ?s3 = Ok ?s4" using cl by (simp add: LS_no_pack_def)
  then have r4: "log_reach ?s4" by (intro log_reach_step [OF r3 log_worker [OF log_no_pack]]) simp_all
  have "ls_phase s' = LEnd \<and> ls_out s' = []" if "log_step\<^sup>*\<^sup>* ?s4 s'" for s'
    using that by (induction rule: rtranclp_induct) (auto simp: after_first_def LS_new_def dest: ended_out)
  moreover have "ls_phase ?s4 = LEnd \<and> ls_posted ?s4 = [(False, tx, tx)] \<and> ls_waiting ?s4 = []" by (simp add: after_first_def LS_new_def)
  ultimately show ?thesis using r4 by blast
qed

end
