(* ===== verification/Eco_LogCore.thy ===== *)
theory Eco_LogCore
  imports Eco_Log Eco_DateTime
begin

text \<open>
  The core of logging: the severity levels, the sinks, the options and the writer of log lines of
  \<open>src/project/eco/prj/src/log/Core.cpp\<close>, \<open>FileSink.cpp\<close>, \<open>filesystem/File.h\<close> and \<open>log/Pusher.inl\<close>,
  on top of the queue and the server thread of theory \<open>Eco_Log\<close>.

  The operating system is the argument \<open>os\<close>: which files can be opened, the day of the year and the
  time stamp of a time, the names of the host and of the process. The files are a map from paths to
  what has been written into them; what a stream of the C library has not flushed yet is kept with it.
\<close>

section \<open>Severity levels\<close>

definition sev_trace :: u16 where "sev_trace = 0"
definition sev_debug :: u16 where "sev_debug = 1"
definition sev_info :: u16 where "sev_info = 2"
definition sev_warn :: u16 where "sev_warn = 3"
definition sev_error :: u16 where "sev_error = 4"
definition sev_fatal :: u16 where "sev_fatal = 5"
definition sev_none :: u16 where "sev_none = 6"

definition g_sev_name :: "bytes list" where
  "g_sev_name = map (\<lambda>s. lit s @ [0]) [''trace'', ''debug'', ''info'', ''warn'', ''error'', ''fatal'', ''none'']"

definition g_sev_display :: "bytes list" where
  "g_sev_display = map (\<lambda>s. lit s @ [0]) [''[trace]'', ''[debug]'', ''[info ]'', ''[warn ]'', ''[error]'', ''[fatal]'']"

fun get_level_from :: "bytes list \<Rightarrow> u16 \<Rightarrow> bytes \<Rightarrow> u16 outcome" where
  "get_level_from [] i sev_name = Ok sev_info"
| "get_level_from (n # ns) i sev_name =
     obind (c_strcmp n sev_name) (\<lambda>c. if c = 0 then Ok i else get_level_from ns (i + 1) sev_name)"

definition Severity_get_level :: "bytes \<Rightarrow> u16 outcome" where
  "Severity_get_level sev_name = get_level_from g_sev_name 0 sev_name"

definition Severity_get_name :: "u16 \<Rightarrow> bytes outcome" where
  "Severity_get_name sev_level =
     (if sev_none < sev_level then Ok (lit ''unknown'' @ [0]) else rd g_sev_name (unat sev_level))"

definition Severity_get_display :: "u16 \<Rightarrow> bytes outcome" where
  "Severity_get_display sev_level =
     (if sev_none \<le> sev_level then Ok (lit ''Unknown'' @ [0]) else rd g_sev_display (unat sev_level))"

section \<open>Files\<close>

type_synonym fsys = "bytes \<rightharpoonup> bytes"

record os =
  os_opens :: "bytes \<Rightarrow> bool"
  os_yday :: "bool \<Rightarrow> int \<Rightarrow> int"
  os_stamp :: "bool \<Rightarrow> int \<Rightarrow> bytes"
  os_host :: bytes
  os_pid :: bytes

record File =
  f_open :: "bytes option"
  f_buf :: bytes
  f_size :: u64

definition file_content :: "fsys \<Rightarrow> bytes \<Rightarrow> bytes" where
  "file_content fs p = (case fs p of None \<Rightarrow> [] | Some d \<Rightarrow> d)"

definition File_new :: File where
  "File_new = \<lparr>f_open = None, f_buf = [], f_size = 0\<rparr>"

text \<open>Closing a stream flushes it; opening one for appending creates the file.\<close>

definition FileRaw_close :: "File \<Rightarrow> fsys \<Rightarrow> File \<times> fsys" where
  "FileRaw_close f fs =
     (case f_open f of
        None \<Rightarrow> (f, fs)
      | Some p \<Rightarrow> (f\<lparr>f_open := None, f_buf := []\<rparr>, fs(p \<mapsto> file_content fs p @ f_buf f)))"

definition FileRaw_open :: "os \<Rightarrow> bytes \<Rightarrow> File \<Rightarrow> fsys \<Rightarrow> (File \<times> fsys) \<times> bool" where
  "FileRaw_open os path f fs =
     (let (f1, fs1) = FileRaw_close f fs in
      if os_opens os path then ((f1\<lparr>f_open := Some path\<rparr>, fs1(path \<mapsto> file_content fs1 path)), True)
      else ((f1, fs1), False))"

definition FileRaw_file_size :: "fsys \<Rightarrow> bytes \<Rightarrow> u32" where
  "FileRaw_file_size fs path = of_nat (length (file_content fs path))"

definition File_open :: "os \<Rightarrow> bytes \<Rightarrow> File \<Rightarrow> fsys \<Rightarrow> (File \<times> fsys) \<times> bool" where
  "File_open os path f fs =
     (let ((f1, fs1), opened) = FileRaw_open os path f fs in
      if opened then ((f1\<lparr>f_size := ucast (FileRaw_file_size fs1 path)\<rparr>, fs1), True) else ((f1, fs1), False))"

definition File_close :: "File \<Rightarrow> fsys \<Rightarrow> File \<times> fsys" where
  "File_close f fs = (let (f1, fs1) = FileRaw_close f fs in (f1\<lparr>f_size := 0\<rparr>, fs1))"

definition File_write :: "bytes \<Rightarrow> u32 \<Rightarrow> File \<Rightarrow> File outcome" where
  "File_write buf n f =
     (if f_open f = None \<or> length buf < unat n then UB
      else Ok (f\<lparr>f_buf := f_buf f @ take (unat n) buf, f_size := f_size f + ucast n\<rparr>))"

definition File_flush :: "File \<Rightarrow> fsys \<Rightarrow> File \<times> fsys" where
  "File_flush f fs =
     (case f_open f of None \<Rightarrow> (f, fs) | Some p \<Rightarrow> (f\<lparr>f_buf := []\<rparr>, fs(p \<mapsto> file_content fs p @ f_buf f)))"

section \<open>The sinks\<close>

record FileContext =
  cx_file_path :: bytes
  cx_roll_size :: u64
  cx_flush_interval :: u32
  cx_is_utc :: bool
  cx_start_day :: int
  cx_last_time :: int
  cx_now_time :: int

definition FileContext_update :: "int \<Rightarrow> FileContext \<Rightarrow> FileContext" where
  "FileContext_update now c = c\<lparr>cx_last_time := cx_now_time c, cx_now_time := now\<rparr>"

definition FileContext_yday :: "os \<Rightarrow> FileContext \<Rightarrow> int" where
  "FileContext_yday os c = os_yday os (cx_is_utc c) (cx_now_time c)"

definition FileContext_new :: "os \<Rightarrow> int \<Rightarrow> int \<Rightarrow> bytes \<Rightarrow> u64 \<Rightarrow> u32 \<Rightarrow> bool \<Rightarrow> FileContext" where
  "FileContext_new os garbage now file_path roll_size flush_interval is_utc =
     (let c = FileContext_update now \<lparr>cx_file_path = file_path, cx_roll_size = roll_size, cx_flush_interval = flush_interval,
        cx_is_utc = False, cx_start_day = garbage, cx_last_time = garbage, cx_now_time = garbage\<rparr>
      in c\<lparr>cx_start_day := FileContext_yday os c, cx_last_time := cx_now_time c\<rparr>)"

definition FileContext_get_file_path :: "os \<Rightarrow> FileContext \<Rightarrow> bytes" where
  "FileContext_get_file_path os c =
     cx_file_path c @ os_stamp os (cx_is_utc c) (cx_now_time c) @ os_host os @ lit ''.'' @ os_pid os @ lit ''.log''"

definition FileContext_is_roll_file :: "os \<Rightarrow> u64 \<Rightarrow> FileContext \<Rightarrow> bool" where
  "FileContext_is_roll_file os cur_size c = (cx_roll_size c < cur_size \<or> cx_start_day c < FileContext_yday os c)"

definition FileContext_is_flush :: "FileContext \<Rightarrow> bool" where
  "FileContext_is_flush c = (uint (cx_flush_interval c) \<le> cx_now_time c - cx_last_time c)"

definition FileContext_roll_file :: "os \<Rightarrow> FileContext \<Rightarrow> FileContext" where
  "FileContext_roll_file os c = c\<lparr>cx_start_day := FileContext_yday os c\<rparr>"

text \<open>\<open>fk_told\<close> is the history of the calls of the callback \<open>m_on_changed\<close>.\<close>

record FileSink =
  fk_file :: File
  fk_context :: FileContext
  fk_on_changed :: bool
  fk_told :: "bytes list"

text \<open>Where the code throws, the state is as it is left, and the flag is \<open>False\<close>.\<close>

definition FileSink_new :: "os \<Rightarrow> int \<Rightarrow> int \<Rightarrow> bytes \<Rightarrow> u64 \<Rightarrow> u32 \<Rightarrow> bool \<Rightarrow> bool \<Rightarrow> fsys \<Rightarrow> (FileSink \<times> fsys) \<times> bool" where
  "FileSink_new os garbage now file_path roll_size flush_interval is_utc on_changed fs =
     (let c = FileContext_new os garbage now file_path roll_size flush_interval is_utc;
          ((f, fs1), opened) = File_open os (FileContext_get_file_path os c) File_new fs
      in ((\<lparr>fk_file = f, fk_context = c, fk_on_changed = on_changed, fk_told = []\<rparr>, fs1), opened))"

definition FileSink_flush :: "FileSink \<times> fsys \<Rightarrow> FileSink \<times> fsys" where
  "FileSink_flush r = (let (k, fs) = r in
     if FileContext_is_flush (fk_context k) then let (f, fs1) = File_flush (fk_file k) fs in (k\<lparr>fk_file := f\<rparr>, fs1) else (k, fs))"

definition FileSink_append :: "os \<Rightarrow> int \<Rightarrow> bytes \<Rightarrow> u32 \<Rightarrow> FileSink \<Rightarrow> fsys \<Rightarrow> ((FileSink \<times> fsys) \<times> bool) outcome" where
  "FileSink_append os now buf n k fs =
     obind (File_write buf n (fk_file k)) (\<lambda>f.
     let c = FileContext_update now (fk_context k); k1 = k\<lparr>fk_file := f, fk_context := c\<rparr> in
     Ok (if FileContext_is_roll_file os (f_size f) c then
           let path = FileContext_get_file_path os c; ((f2, fs2), opened) = File_open os path f fs;
               k2 = k1\<lparr>fk_file := f2\<rparr> in
           if opened then
             (FileSink_flush (k2\<lparr>fk_context := FileContext_roll_file os c,
                fk_told := (if fk_on_changed k then fk_told k @ [path] else fk_told k)\<rparr>, fs2), True)
           else ((k2, fs2), False)
         else (FileSink_flush (k1, fs), True)))"

text \<open>
  The console gets the text as the format of \<open>printf\<close>: up to its terminator, \<open>%%\<close> prints a percent
  sign, and every other conversion reads an argument that has not been passed.
\<close>

fun printf_only :: "bytes \<Rightarrow> bytes outcome" where
  "printf_only [] = UB"
| "printf_only (c # cs) =
     (if c = 0 then Ok []
      else if c = 37 then
        (case cs of [] \<Rightarrow> UB | d # ds \<Rightarrow> if d = 37 then obind (printf_only ds) (\<lambda>out. Ok (37 # out)) else UB)
      else obind (printf_only cs) (\<lambda>out. Ok (c # out)))"

definition ConsoleSink_put :: "bytes \<Rightarrow> bytes \<Rightarrow> bytes outcome" where
  "ConsoleSink_put buf console = obind (printf_only buf) (\<lambda>out. Ok (console @ out))"

section \<open>What is in a file\<close>

text \<open>The text of a file, with what its stream has not flushed yet.\<close>

definition file_text :: "File \<Rightarrow> fsys \<Rightarrow> bytes \<Rightarrow> bytes" where
  "file_text f fs q = file_content fs q @ (if f_open f = Some q then f_buf f else [])"

text \<open>The path of the log file at a time.\<close>

definition log_path :: "os \<Rightarrow> int \<Rightarrow> FileSink \<Rightarrow> bytes" where
  "log_path os now k = FileContext_get_file_path os (FileContext_update now (fk_context k))"

lemma file_content_upd: "file_content (fs(p \<mapsto> d)) q = (if q = p then d else file_content fs q)"
  by (simp add: file_content_def)

lemma File_flush_logged:
  "f_open (fst (File_flush f fs)) = f_open f" "file_text (fst (File_flush f fs)) (snd (File_flush f fs)) q = file_text f fs q"
  "f_size (fst (File_flush f fs)) = f_size f" "f_open f \<noteq> None \<Longrightarrow> f_buf (fst (File_flush f fs)) = []"
  by (auto simp: File_flush_def file_text_def file_content_upd split: option.splits)

lemma File_open_logged:
  assumes "f_open f \<noteq> None" "os_opens os path"
  obtains f1 fs1 where "File_open os path f fs = ((f1, fs1), True)" "f_open f1 = Some path" "f_buf f1 = []"
    "\<And>q. file_text f1 fs1 q = file_text f fs q" "f_size f1 = ucast (of_nat (length (file_content fs1 path)) :: u32)"
proof -
  obtain p where p: "f_open f = Some p" using assms(1) by auto
  let ?fs = "fs(p \<mapsto> file_content fs p @ f_buf f)"
  let ?f1 = "f\<lparr>f_open := Some path, f_buf := []\<rparr>" and ?fs1 = "?fs(path \<mapsto> file_content ?fs path)"
  have raw: "FileRaw_open os path f fs = ((?f1, ?fs1), True)"
    using p assms(2) by (simp add: FileRaw_open_def FileRaw_close_def)
  show thesis
    by (rule that [of "?f1\<lparr>f_size := ucast (FileRaw_file_size ?fs1 path)\<rparr>" ?fs1])
      (use p in \<open>auto simp: File_open_def raw file_text_def file_content_upd FileRaw_file_size_def\<close>)
qed

lemma File_open_fails:
  assumes "f_open f \<noteq> None" "\<not> os_opens os path"
  shows "\<exists>f1 fs1. File_open os path f fs = ((f1, fs1), False) \<and> f_open f1 = None \<and> (\<forall>q. file_text f1 fs1 q = file_text f fs q)"
  using assms by (auto simp: File_open_def FileRaw_open_def FileRaw_close_def file_text_def file_content_upd)

lemma File_write_logged:
  assumes "f_open f = Some p" "unat n \<le> length buf"
  shows "\<exists>f'. File_write buf n f = Ok f' \<and> f_open f' = Some p \<and> f_size f' = f_size f + ucast n \<and>
    (\<forall>q fs. file_text f' fs q = file_text f fs q @ (if q = p then take (unat n) buf else []))"
  using assms by (auto simp: File_write_def file_text_def)

lemma FileSink_flush_logged:
  assumes "f_open (fk_file k) \<noteq> None"
  shows "\<exists>k' fs'. FileSink_flush (k, fs) = (k', fs') \<and> f_open (fk_file k') = f_open (fk_file k) \<and> fk_context k' = fk_context k \<and>
    fk_told k' = fk_told k \<and> f_size (fk_file k') = f_size (fk_file k) \<and> (\<forall>q. file_text (fk_file k') fs' q = file_text (fk_file k) fs q) \<and>
    (FileContext_is_flush (fk_context k) \<longrightarrow> f_buf (fk_file k') = []) \<and> fk_on_changed k' = fk_on_changed k"
  using File_flush_logged [of "fk_file k" fs] assms
  by (cases "File_flush (fk_file k) fs") (auto simp: FileSink_flush_def)

definition sink_rolls :: "os \<Rightarrow> int \<Rightarrow> u32 \<Rightarrow> FileSink \<Rightarrow> bool" where
  "sink_rolls os now n k \<longleftrightarrow> cx_roll_size (fk_context k) < f_size (fk_file k) + ucast n \<or>
     cx_start_day (fk_context k) < os_yday os (cx_is_utc (fk_context k)) now"

text \<open>What an append has done: \<open>p\<close> is the file before, \<open>opened\<close> whether a new file could be opened.\<close>

lemma FileSink_append_cases:
  assumes p: "f_open (fk_file k) = Some p" and n: "unat n \<le> length buf"
    and os: "sink_rolls os now n k \<Longrightarrow> os_opens os (log_path os now k)"
  shows "\<exists>k' fs'. FileSink_append os now buf n k fs = Ok ((k', fs'), True) \<and>
    f_open (fk_file k') = Some (if sink_rolls os now n k then log_path os now k else p) \<and>
    (\<forall>q. file_text (fk_file k') fs' q = file_text (fk_file k) fs q @ (if q = p then take (unat n) buf else [])) \<and>
    (cx_flush_interval (fk_context k) = 0 \<and> cx_now_time (fk_context k) \<le> now \<longrightarrow> f_buf (fk_file k') = []) \<and>
    fk_told k' = fk_told k @ (if sink_rolls os now n k \<and> fk_on_changed k then [log_path os now k] else []) \<and>
    (\<not> sink_rolls os now n k \<longrightarrow> f_size (fk_file k') = f_size (fk_file k) + ucast n \<and>
      fk_context k' = FileContext_update now (fk_context k))"
proof -
  let ?c = "FileContext_update now (fk_context k)"
  obtain f where f: "File_write buf n (fk_file k) = Ok f" "f_open f = Some p" "f_size f = f_size (fk_file k) + ucast n"
    "\<And>q fs. file_text f fs q = file_text (fk_file k) fs q @ (if q = p then take (unat n) buf else [])"
    using File_write_logged [OF p n] by blast
  let ?k1 = "k\<lparr>fk_file := f, fk_context := ?c\<rparr>"
  have rolls: "FileContext_is_roll_file os (f_size f) ?c = sink_rolls os now n k"
    by (simp add: FileContext_is_roll_file_def sink_rolls_def FileContext_update_def FileContext_yday_def f(3))
  have flush: "FileContext_is_flush (FileContext_roll_file os ?c) = FileContext_is_flush ?c"
    "cx_flush_interval (fk_context k) = 0 \<Longrightarrow> cx_now_time (fk_context k) \<le> now \<Longrightarrow> FileContext_is_flush ?c"
    by (simp_all add: FileContext_is_flush_def FileContext_roll_file_def FileContext_update_def)
  show ?thesis
  proof (cases "sink_rolls os now n k")
    case True
    obtain f2 fs2 where o: "File_open os (log_path os now k) f fs = ((f2, fs2), True)" "f_open f2 = Some (log_path os now k)"
      "f_buf f2 = []" "\<And>q. file_text f2 fs2 q = file_text f fs q"
      by (rule File_open_logged [OF _ os [OF True], of f fs]) (use f(2) in auto)
    let ?k2 = "?k1\<lparr>fk_file := f2, fk_context := FileContext_roll_file os ?c,
       fk_told := (if fk_on_changed k then fk_told k @ [log_path os now k] else fk_told k)\<rparr>"
    have r: "FileSink_append os now buf n k fs = Ok (FileSink_flush (?k2, fs2), True)"
      using o(1) True by (simp add: FileSink_append_def f(1) rolls Let_def log_path_def)
    show ?thesis unfolding r using FileSink_flush_logged [of ?k2 fs2] o(2-4) f(4) flush True by auto
  next
    case False
    then have r: "FileSink_append os now buf n k fs = Ok (FileSink_flush (?k1, fs), True)"
      by (simp add: FileSink_append_def f(1) rolls Let_def)
    show ?thesis unfolding r using FileSink_flush_logged [of ?k1 fs] f(2-4) flush(2) False by auto
  qed
qed

section \<open>The core\<close>

definition file_sink :: u32 where "file_sink = 0x0001"
definition console_sink :: u32 where "console_sink = 0x0002"

text \<open>\<open>cm_console_sink\<close> is what the console has got; \<open>cm_server\<close> is the server thread with its queue.\<close>

record CoreImpl =
  cm_server :: "LogServer option"
  cm_async :: u32
  cm_sink_option :: "32 word"
  cm_capacity :: u32
  cm_async_flush :: u32
  cm_file_sink :: "FileSink option"
  cm_console_sink :: "bytes option"
  cm_file_sev :: u16
  cm_console_sev :: u16
  cm_file_path :: bytes
  cm_file_roll_size :: u32
  cm_on_create :: bool
  cm_running :: bool

definition Core_new :: "u32 \<Rightarrow> CoreImpl" where
  "Core_new garbage = \<lparr>cm_server = None, cm_async = 1, cm_sink_option = ucast file_sink, cm_capacity = queue_size,
     cm_async_flush = garbage, cm_file_sink = None, cm_console_sink = None, cm_file_sev = sev_info,
     cm_console_sev = sev_info, cm_file_path = lit ''./log/'', cm_file_roll_size = file_roll_size,
     cm_on_create = False, cm_running = False\<rparr>"

text \<open>Handing a text to both sinks, where an exception of the first one skips the second.\<close>

definition to_file :: "os \<Rightarrow> int \<Rightarrow> bytes \<Rightarrow> u32 \<Rightarrow> bool \<Rightarrow> CoreImpl \<times> fsys \<Rightarrow> ((CoreImpl \<times> fsys) \<times> bool) outcome" where
  "to_file os now buf n wanted r = (let (c, fs) = r in
     case cm_file_sink c of
       None \<Rightarrow> Ok (r, True)
     | Some k \<Rightarrow>
         if wanted then obind (FileSink_append os now buf n k fs) (\<lambda>((k', fs'), ok). Ok ((c\<lparr>cm_file_sink := Some k'\<rparr>, fs'), ok))
         else Ok (r, True))"

definition to_console :: "bytes \<Rightarrow> bool \<Rightarrow> CoreImpl \<times> fsys \<Rightarrow> (CoreImpl \<times> fsys) outcome" where
  "to_console buf wanted r = (let (c, fs) = r in
     case cm_console_sink c of
       None \<Rightarrow> Ok r
     | Some out \<Rightarrow>
         if wanted then obind (ConsoleSink_put buf out) (\<lambda>out'. Ok (c\<lparr>cm_console_sink := Some out'\<rparr>, fs)) else Ok r)"

definition Handler_sync :: "os \<Rightarrow> int \<Rightarrow> bytes \<Rightarrow> u32 \<Rightarrow> u16 \<Rightarrow> CoreImpl \<times> fsys \<Rightarrow> ((CoreImpl \<times> fsys) \<times> bool) outcome" where
  "Handler_sync os now buf n level r = (let (c, fs) = r in
     obind (to_file os now buf n (cm_file_sev c \<le> level) (c, fs)) (\<lambda>(r1, ok).
     if \<not> ok then Ok (r1, False)
     else obind (to_console buf (cm_console_sev c \<le> level) r1) (\<lambda>r2. Ok (r2, True))))"

definition Handler_async :: "os \<Rightarrow> int \<Rightarrow> Pack \<Rightarrow> CoreImpl \<times> fsys \<Rightarrow> ((CoreImpl \<times> fsys) \<times> bool) outcome" where
  "Handler_async os now p r =
     obind (to_file os now (fb_data p) (fb_size p) True r) (\<lambda>(r1, ok).
     if \<not> ok then Ok (r1, False) else obind (to_console (fb_data p) True r1) (\<lambda>r2. Ok (r2, True)))"

text \<open>
  \<open>run\<close> creates the directory, the server and the sinks. It throws when the directory can neither be
  found nor created, and when the first file cannot be opened.
\<close>

definition run_server :: "CoreImpl \<Rightarrow> CoreImpl" where
  "run_server c =
     (if cm_async c = 0 then c
      else let c1 = c\<lparr>cm_capacity := max min_queue_size (cm_capacity c),
             cm_async_flush := max min_sync_interval (cm_async_flush c)\<rparr>
        in c1\<lparr>cm_server := Some (LS_new\<lparr>ls_queue := LQ_set_sync_interval (cm_async_flush c1) (LQ_set_capacity (cm_capacity c1) LQ_new)\<rparr>)\<rparr>)"

definition run_console :: "CoreImpl \<Rightarrow> CoreImpl" where
  "run_console c = (if eco_has (cm_sink_option c) console_sink then c\<lparr>cm_console_sink := Some []\<rparr> else c)"

definition run_file :: "os \<Rightarrow> int \<Rightarrow> int \<Rightarrow> CoreImpl \<Rightarrow> fsys \<Rightarrow> (CoreImpl \<times> fsys) \<times> bool" where
  "run_file os garbage now c fs =
     (if eco_has (cm_sink_option c) file_sink then
        let c1 = c\<lparr>cm_file_roll_size := max min_file_roll_size (cm_file_roll_size c)\<rparr>;
            ((k, fs1), ok) = FileSink_new os garbage now (cm_file_path c1) (ucast (cm_file_roll_size c1)) 0 False (cm_on_create c1) fs
        in if ok then ((c1\<lparr>cm_file_sink := Some k\<rparr>, fs1), True) else ((c1, fs1), False)
      else ((c, fs), True))"

definition Core_run :: "os \<Rightarrow> (bytes \<Rightarrow> bool) \<Rightarrow> (bytes \<Rightarrow> bool) \<Rightarrow> int \<Rightarrow> int \<Rightarrow> CoreImpl \<Rightarrow> fsys \<Rightarrow> (CoreImpl \<times> fsys) \<times> bool" where
  "Core_run os exists_dir create_dir garbage now c fs =
     (if \<not> exists_dir (cm_file_path c) \<and> \<not> create_dir (cm_file_path c) then ((c, fs), False)
      else let ((c1, fs1), ok) = run_file os garbage now (run_console (run_server c)) fs
        in if ok then ((c1\<lparr>cm_running := True\<rparr>, fs1), True) else ((c1, fs1), False))"

definition Core_stop :: "CoreImpl \<Rightarrow> CoreImpl" where
  "Core_stop c = (case cm_server c of None \<Rightarrow> c
     | Some s \<Rightarrow> c\<lparr>cm_server := Some (s\<lparr>ls_queue := LQ_close (ls_queue s)\<rparr>)\<rparr>)"

definition Core_set_severity_level :: "u16 \<Rightarrow> int \<Rightarrow> CoreImpl \<Rightarrow> CoreImpl" where
  "Core_set_severity_level v flag c =
     (let c1 = (if flag = 0 \<or> flag = 1 then c\<lparr>cm_file_sev := v\<rparr> else c)
      in if flag = 0 \<or> flag = 2 then c1\<lparr>cm_console_sev := v\<rparr> else c1)"

definition Core_set_severity_name :: "bytes \<Rightarrow> int \<Rightarrow> CoreImpl \<Rightarrow> CoreImpl outcome" where
  "Core_set_severity_name v flag c = obind (Severity_get_level v) (\<lambda>l. Ok (Core_set_severity_level l flag c))"

definition Core_get_severity_level :: "CoreImpl \<Rightarrow> u16" where
  "Core_get_severity_level c = (if cm_file_sev c < cm_console_sev c then cm_file_sev c else cm_console_sev c)"

definition Core_add_file_sink :: "bool \<Rightarrow> CoreImpl \<Rightarrow> CoreImpl" where
  "Core_add_file_sink is_add c = c\<lparr>cm_sink_option := eco_set (cm_sink_option c) file_sink is_add\<rparr>"

definition Core_has_file_sink :: "CoreImpl \<Rightarrow> bool" where
  "Core_has_file_sink c = eco_has (cm_sink_option c) file_sink"

definition Core_add_console_sink :: "bool \<Rightarrow> CoreImpl \<Rightarrow> CoreImpl" where
  "Core_add_console_sink is_add c = c\<lparr>cm_sink_option := eco_set (cm_sink_option c) console_sink is_add\<rparr>"

definition Core_has_console_sink :: "CoreImpl \<Rightarrow> bool" where
  "Core_has_console_sink c = eco_has (cm_sink_option c) console_sink"

definition Core_append :: "os \<Rightarrow> int \<Rightarrow> (nat \<Rightarrow> byte) \<Rightarrow> tid \<Rightarrow> bytes \<Rightarrow> u32 \<Rightarrow> u16 \<Rightarrow> CoreImpl \<times> fsys \<Rightarrow>
    ((CoreImpl \<times> fsys) \<times> bool) outcome" where
  "Core_append os now g t buf n level r = (let (c, fs) = r in
     case cm_server c of
       Some s \<Rightarrow> obind (LS_post g t (take (unat n) buf) s) (\<lambda>s'. Ok ((c\<lparr>cm_server := Some s'\<rparr>, fs), True))
     | None \<Rightarrow> Handler_sync os now buf n level (c, fs))"

text \<open>The server thread writes a pack; an exception of a sink ends the thread.\<close>

definition Core_write :: "os \<Rightarrow> int \<Rightarrow> LogServer \<Rightarrow> Pack \<Rightarrow> CoreImpl \<times> fsys \<Rightarrow> (CoreImpl \<times> fsys) outcome" where
  "Core_write os now s p r =
     obind (Handler_async os now p r) (\<lambda>((c, fs), ok).
     Ok (c\<lparr>cm_server := Some (if ok then LS_write p s else s\<lparr>ls_phase := LEnd\<rparr>)\<rparr>, fs))"

section \<open>Log lines\<close>

record 'b Pusher =
  ps_stream :: "'b StreamT"
  ps_severity :: u16
  ps_file_line :: u32
  ps_file_name :: "bytes option"

definition Pusher_new :: "'b \<Rightarrow> 'b Pusher" where
  "Pusher_new b = \<lparr>ps_stream = StreamT_new b, ps_severity = sev_none, ps_file_line = 0, ps_file_name = None\<rparr>"

text \<open>The name of a source file without its directories.\<close>

definition base_name :: "bytes \<Rightarrow> bytes outcome" where
  "base_name file_name =
     obind (find_last file_name 47) (\<lambda>pos.
     if pos \<noteq> - 1 then Ok (drop (unat (pos + 1)) file_name)
     else obind (find_last file_name 92) (\<lambda>pos.
       Ok (if pos \<noteq> - 1 then drop (unat (pos + 1)) file_name else file_name)))"

text \<open>
  The time, the name of the thread (a parameter, as the time is), the level and a blank start the line.
\<close>

definition Pusher_set ::
    "'b Buffer \<Rightarrow> (nat \<Rightarrow> byte) \<Rightarrow> ptime \<Rightarrow> bytes \<Rightarrow> bytes \<Rightarrow> u32 \<Rightarrow> u16 \<Rightarrow> 'b Pusher \<Rightarrow> 'b Pusher outcome" where
  "Pusher_set B garbage pt thread_id file_name file_line sev_level ps =
     (let ps1 = ps\<lparr>ps_severity := sev_level\<rparr> in
      obind (if sev_info < sev_level
             then obind (base_name file_name) (\<lambda>f. Ok (ps1\<lparr>ps_file_name := Some f, ps_file_line := file_line\<rparr>))
             else Ok ps1) (\<lambda>ps2.
      obind (Severity_get_display sev_level) (\<lambda>d.
      obind (stream_puts B [PCstr (m_timestamp (Timestamp_new garbage fmt_std_m pt)), PSpace (PCstr thread_id), PSpace (PCstr d),
          PChar 32] (ps_stream ps2)) (\<lambda>st.
      Ok (ps2\<lparr>ps_stream := st\<rparr>)))))"

text \<open>What the destructor appends to the line.\<close>

definition line_end :: "bytes \<Rightarrow> 'b Pusher \<Rightarrow> printable list" where
  "line_end t_name ps =
     (if sev_info < ps_severity ps \<and> t_name ! 0 \<noteq> 0 then [PCstr (lit '' &'' @ [0]), PCstr t_name] else []) @
     (case ps_file_name ps of None \<Rightarrow> []
      | Some f \<Rightarrow> [PCstr (lit '' @'' @ [0]), PCstr f, PChar 46, PU32 (ps_file_line ps)]) @ [PEnd]"

definition Fix_force :: "u32 \<Rightarrow> FixBuffer \<Rightarrow> byte \<Rightarrow> FixBuffer outcome" where
  "Fix_force fix_size b v = obind (fb_force_append_char fix_size b v) (\<lambda>r. Ok (fst r))"

definition String_force :: "(nat \<Rightarrow> byte) \<Rightarrow> String_rec \<Rightarrow> byte \<Rightarrow> String_rec outcome" where
  "String_force heap = String_append_char heap"

text \<open>The destructor: the line that is appended to the log, or nothing below the level.\<close>

definition Pusher_end ::
    "'b Buffer \<Rightarrow> ('b \<Rightarrow> byte \<Rightarrow> 'b outcome) \<Rightarrow> u16 \<Rightarrow> bytes \<Rightarrow> 'b Pusher \<Rightarrow> Bytes option outcome" where
  "Pusher_end B force level t_name ps =
     (if ps_severity ps < level then Ok None
      else obind (stream_puts B (line_end t_name ps) (ps_stream ps)) (\<lambda>st.
        obind (on_buffer (\<lambda>b. force b 10) st) (\<lambda>st'.
        obind (stream_get_bytes B st') (\<lambda>by. Ok (Some by)))))"

text \<open>A line of \<open>EcoLog\<close>: the stream prints the values between \<open>set\<close> and the destructor.\<close>

definition FixPusher_line ::
    "u32 \<Rightarrow> (nat \<Rightarrow> byte) \<Rightarrow> ptime \<Rightarrow> bytes \<Rightarrow> bytes \<Rightarrow> bytes \<Rightarrow> u32 \<Rightarrow> u16 \<Rightarrow> u16 \<Rightarrow> printable list \<Rightarrow> Bytes option outcome" where
  "FixPusher_line fix_size garbage pt thread_id t_name file_name file_line sev_level level vs =
     (if sev_level < level then Ok None
      else let B = FixBuffer_Buffer fix_size in
        obind (fb_new garbage fix_size) (\<lambda>b.
        obind (Pusher_set B garbage pt thread_id file_name file_line sev_level (Pusher_new b)) (\<lambda>ps.
        obind (stream_puts B vs (ps_stream ps)) (\<lambda>st.
        Pusher_end B (Fix_force fix_size) level t_name (ps\<lparr>ps_stream := st\<rparr>)))))"

text \<open>The parts of a line around its message.\<close>

definition log_head :: "(nat \<Rightarrow> byte) \<Rightarrow> ptime \<Rightarrow> bytes \<Rightarrow> bytes \<Rightarrow> printable list" where
  "log_head garbage pt thread_id display =
     [PCstr (m_timestamp (Timestamp_new garbage fmt_std_m pt)), PSpace (PCstr thread_id), PSpace (PCstr display), PChar 32]"

definition log_tail :: "bytes \<Rightarrow> bytes \<Rightarrow> u32 \<Rightarrow> bytes" where
  "log_tail t_name f line =
     (if t_name ! 0 \<noteq> 0 then lit '' &'' @ cstr t_name else []) @ lit '' @'' @ cstr f @ [46] @ dec_text (uint line)"

lemma display_ok: "\<exists>d. Severity_get_display l = Ok d \<and> 0 \<in> set d"
proof (cases "sev_none \<le> l")
  case False
  then have l: "unat l < length g_sev_display" by (simp add: g_sev_display_def sev_none_def word_le_nat_alt)
  have "\<forall>d \<in> set g_sev_display. 0 \<in> set d" by (simp add: g_sev_display_def)
  then have "0 \<in> set (g_sev_display ! unat l)" using nth_mem [OF l] by blast
  then show ?thesis using False l by (simp add: Severity_get_display_def rd_def)
qed (simp add: Severity_get_display_def)

lemma timestamp_terminated: "0 \<in> set (m_timestamp (Timestamp_new garbage fmt pt))"
  by (simp add: Timestamp_new_def snprintf_def Let_def alloc_def)

lemma cstr_lit2: "cstr (lit '' &'' @ [0]) = lit '' &''" "cstr (lit '' @'' @ [0]) = lit '' @''"
  by (simp_all add: cstr_def lit_def)

lemma printed_head_brace: "printed br (log_head g pt tid d @ vs) = printed br (log_head g pt tid d) @ printed br vs"
  by (simp add: log_head_def)

lemma printed_line_end:
  "sev_info < ps_severity ps \<Longrightarrow> ps_file_name ps = Some f \<Longrightarrow>
     printed False (line_end t_name ps) = log_tail t_name f (ps_file_line ps)"
  by (simp add: line_end_def log_tail_def cstr_lit2)

context stream_buffer begin

lemma Pusher_set_puts:
  assumes b: "bwf b" "btext b = []" and tid: "0 \<in> set thread_id" and d: "Severity_get_display l = Ok d"
    and f: "base_name file_name = Ok f" and l: "sev_info < l"
    and room: "length (printed False (log_head garbage pt thread_id d)) \<le> room"
  shows "\<exists>ps. Pusher_set B garbage pt thread_id file_name file_line l (Pusher_new b) = Ok ps \<and> bwf (st_buffer (ps_stream ps)) \<and>
    btext (st_buffer (ps_stream ps)) = printed False (log_head garbage pt thread_id d) \<and> \<not> brace_open (ps_stream ps) \<and>
    ps_severity ps = l \<and> ps_file_name ps = Some f \<and> ps_file_line ps = file_line"
proof -
  have d0: "0 \<in> set d" using display_ok [of l] d by auto
  have nb: "\<not> brace_open (StreamT_new b)" by (simp add: brace_open_def StreamT_new_def eco_has_def)
  have ok: "list_all printable_ok (log_head garbage pt thread_id d)"
    using tid d0 timestamp_terminated by (simp add: log_head_def)
  let ?h = "printed False (log_head garbage pt thread_id d)"
  have "fits (StreamT_new b) (printed (brace_open (StreamT_new b)) (log_head garbage pt thread_id d))"
    using b room nb by (simp add: fits_def StreamT_new_def)
  from stream_puts_puts [OF ok this] obtain st where st: "stream_puts B (log_head garbage pt thread_id d) (StreamT_new b) = Ok st"
    "bwf (st_buffer st)" "btext (st_buffer st) = ?h" "\<not> brace_open st"
    using nb b(2) by (auto simp: puts_to_def StreamT_new_def log_head_def)
  then show ?thesis using d f l by (auto simp: Pusher_set_def Pusher_new_def log_head_def Let_def)
qed

lemma line_end_puts:
  assumes sev: "sev_info < ps_severity ps" and f: "ps_file_name ps = Some f" "0 \<in> set f" "0 \<in> set t_name"
    and st: "\<not> brace_open (ps_stream ps)" "fits (ps_stream ps) (log_tail t_name f (ps_file_line ps))"
  shows "puts_to (stream_puts B (line_end t_name ps) (ps_stream ps)) (ps_stream ps) (log_tail t_name f (ps_file_line ps)) False"
proof -
  have ok: "list_all printable_ok (line_end t_name ps)" using f by (simp add: line_end_def)
  have "fold brace_after (line_end t_name ps) False = False" using f(1) by (simp add: line_end_def)
  then show ?thesis using stream_puts_puts [OF ok, of "ps_stream ps"] st by (simp add: printed_line_end [OF sev f(1)])
qed

end

text \<open>The newline takes the place of the last byte when the buffer is full.\<close>

lemma Pusher_end_fix:
  assumes room: "1 < unat fs" "unat fs \<le> 2147483648" and sev: "sev_info < ps_severity ps" "level \<le> ps_severity ps"
    and f: "ps_file_name ps = Some f" "0 \<in> set f" "0 \<in> set t_name"
    and st: "\<not> brace_open (ps_stream ps)" "fb_wf fs (st_buffer (ps_stream ps))"
    and fit: "length (fb_text (st_buffer (ps_stream ps))) + length (log_tail t_name f (ps_file_line ps)) \<le> fb_room fs"
  shows "\<exists>d n. Pusher_end (FixBuffer_Buffer fs) (Fix_force fs) level t_name ps = Ok (Some \<lparr>by_data = Some d, by_size = n\<rparr>) \<and>
    take (unat n) d = take (fb_room fs - 1) (fb_text (st_buffer (ps_stream ps)) @ log_tail t_name f (ps_file_line ps)) @ [10]"
proof -
  let ?t = "fb_text (st_buffer (ps_stream ps)) @ log_tail t_name f (ps_file_line ps)"
  have "fix_buffer.fits fs (ps_stream ps) (log_tail t_name f (ps_file_line ps))" using st(2) fit by (simp add: fix_buffer.fits_def)
  from fix_buffer.line_end_puts [OF sev(1) f st(1) this] obtain st' where st': "stream_puts (FixBuffer_Buffer fs) (line_end t_name ps) (ps_stream ps) = Ok st'"
    "fb_wf fs (st_buffer st')" "fb_text (st_buffer st') = ?t" by (auto simp: fix_buffer.puts_to_def)
  obtain b n where b: "fb_force_append_char fs (st_buffer st') 10 = Ok (b, n)" "fb_wf fs b"
    "fb_text b = take (fb_room fs) (take (fb_room fs - 1) ?t @ [10])"
    using fb_force_append_char_refines [OF st'(2) room(2), of 10] st'(3) by metis
  have "length (take (fb_room fs - 1) ?t @ [10 :: byte]) \<le> fb_room fs" using room(1) by (simp add: fb_room_def)
  then have tx: "fb_text b = take (fb_room fs - 1) ?t @ [10]" using b(3) by simp
  then have "fb_size b \<noteq> 0" by (auto simp: fb_text_def)
  then show ?thesis using sev(2) st'(1) b(1) tx
    by (auto simp: Pusher_end_def on_buffer_def Fix_force_def stream_get_bytes_def FixBuffer_Buffer_def Bytes_new_def fb_text_def Let_def)
qed

lemma Pusher_end_overflows:
  assumes sev: "sev_info < ps_severity ps" "level \<le> ps_severity ps" and f: "ps_file_name ps = Some f"
    and st: "fb_wf fs (st_buffer (ps_stream ps))" and full: "fb_room fs < length (fb_text (st_buffer (ps_stream ps))) + 2"
  shows "Pusher_end (FixBuffer_Buffer fs) (Fix_force fs) level t_name ps = UB"
proof -
  have over: "stream_put (FixBuffer_Buffer fs) (PCstr (lit [x, y] @ [0])) (ps_stream ps) = UB" if "0 \<notin> set (lit [x, y])" for x y
    using fb_append_cstr_overflows [OF st that, of "[]"] full
    by (simp add: put_cstr_def on_buffer_def FixBuffer_Buffer_def lit_def)
  have "0 \<notin> set (lit '' &'')" "0 \<notin> set (lit '' @'')" by (simp_all add: lit_def)
  note o = this [THEN over]
  show ?thesis using o sev(1) leD [OF sev(2)] f by (simp add: Pusher_end_def line_end_def)
qed

section \<open>Properties\<close>

text \<open>
  Claim C26. A line above the level \<open>info\<close> whose message is a \<open>std::string\<close> is written as time, thread,
  level, message, thread name, source file and line, and ends with a newline, if it fits in the
  buffer. When the message leaves less than two bytes, the destructor writes outside the buffer,
  although the message itself has been cut.
\<close>

theorem FixPusher_line_written:
  fixes message :: bytes
  assumes "1 < unat fs" and "unat fs \<le> 2147483648" and "sev_info < l" and "level \<le> l"
    and "base_name file_name = Ok f" and "0 \<in> set f" and "0 \<in> set t_name" and "0 \<in> set thread_id" and "length message < 4294967296"
    and "Severity_get_display l = Ok d"
    and h: "h = printed False (log_head garbage pt thread_id d)" and "length h \<le> fb_room fs"
  shows "(length h + length message + length (log_tail t_name f line) \<le> fb_room fs \<longrightarrow>
      (\<exists>r n. FixPusher_line fs garbage pt thread_id t_name file_name line l level [PStdString message] =
          Ok (Some \<lparr>by_data = Some r, by_size = n\<rparr>) \<and>
        take (unat n) r = take (fb_room fs - 1) (h @ message @ log_tail t_name f line) @ [10])) \<and>
    (fb_room fs < length h + length message + 2 \<longrightarrow>
      FixPusher_line fs garbage pt thread_id t_name file_name line l level [PStdString message] = UB)"
proof -
  let ?B = "FixBuffer_Buffer fs"
  have "0 < fs" using assms(1) by (simp add: word_less_nat_alt)
  then obtain b where b: "fb_new garbage fs = Ok b" "fb_wf fs b" "fb_text b = []" using fb_new_wf by blast
  obtain ps where ps: "Pusher_set ?B garbage pt thread_id file_name line l (Pusher_new b) = Ok ps" "fb_wf fs (st_buffer (ps_stream ps))"
    "fb_text (st_buffer (ps_stream ps)) = h" "\<not> brace_open (ps_stream ps)" "ps_severity ps = l" "ps_file_name ps = Some f" "ps_file_line ps = line"
    using fix_buffer.Pusher_set_puts [OF b(2,3) assms(8,10,5,3)] assms(12) h by blast
  obtain b' where b': "fb_append fs (st_buffer (ps_stream ps)) (message @ [0]) (of_nat (length message)) =
      Ok (b', of_nat (min (length message) (fb_room fs - length h)))"
    "fb_wf fs b'" "fb_text b' = take (fb_room fs) (h @ message)" using fb_append_refines [OF ps(2) assms(9), of "[0]"] ps(3) by auto
  let ?ps = "ps\<lparr>ps_stream := (ps_stream ps)\<lparr>st_buffer := b'\<rparr>\<rparr>"
  have nb: "\<not> brace_open (ps_stream ?ps)" using ps(4) by (simp add: brace_open_def)
  have line: "FixPusher_line fs garbage pt thread_id t_name file_name line l level [PStdString message] =
      Pusher_end ?B (Fix_force fs) level t_name ?ps"
    using b(1) ps(1) b'(1) leD [OF assms(4)]
    by (simp add: FixPusher_line_def put_range_def on_buffer_def FixBuffer_Buffer_def)
  show ?thesis unfolding line
  proof (intro conjI impI)
    assume fit: "length h + length message + length (log_tail t_name f line) \<le> fb_room fs"
    then have tx: "fb_text b' = h @ message" using b'(3) by simp
    show "\<exists>r n. Pusher_end ?B (Fix_force fs) level t_name ?ps = Ok (Some \<lparr>by_data = Some r, by_size = n\<rparr>) \<and>
        take (unat n) r = take (fb_room fs - 1) (h @ message @ log_tail t_name f line) @ [10]"
      using Pusher_end_fix [OF assms(1,2), of ?ps level f t_name] assms(3,4,6,7) ps(5-7) nb b'(2) tx fit by simp
  next
    assume "fb_room fs < length h + length message + 2"
    then have "fb_room fs < length (fb_text b') + 2" using b'(3) by (simp add: min_def)
    then show "Pusher_end ?B (Fix_force fs) level t_name ?ps = UB"
      using Pusher_end_overflows [of ?ps level f fs t_name] assms(3,4) ps(5,6) b'(2) by simp
  qed
qed

text \<open>A warning with a message of 200 bytes from a \<open>std::string\<close>, in the buffer of \<open>EcoWarn\<close>.\<close>

definition text_size :: u32 where "text_size = 160"

theorem FixPusher_line_written_witness:
  "FixPusher_line text_size (\<lambda>_. 0) (sample_clock 5) (lit ''4711'' @ [0]) [0] (lit ''src/a.cpp'' @ [0]) 12 sev_warn sev_info
     [PStdString (replicate 200 65)] = UB"
proof -
  have f: "base_name (lit ''src/a.cpp'' @ [0]) = Ok (lit ''a.cpp'' @ [0])" by code_simp
  have d: "Severity_get_display sev_warn = Ok (lit ''[warn ]'' @ [0])" by code_simp
  let ?t = "m_timestamp (Timestamp_new (\<lambda>_. 0) fmt_std_m (sample_clock 5))"
  have "length (cstr ?t) \<le> length ?t" by (simp add: cstr_def length_takeWhile_le)
  then have "length (cstr ?t) \<le> 32" by (simp add: Timestamp_new_def snprintf_def alloc_def Let_def)
  then have h: "length (printed False (log_head (\<lambda>_. 0) (sample_clock 5) (lit ''4711'' @ [0]) (lit ''[warn ]'' @ [0]))) \<le> 60"
    by (simp add: log_head_def cstr_def lit_def)
  show ?thesis
    using FixPusher_line_written [of text_size sev_warn sev_info, OF _ _ _ _ f _ _ _ _ d refl, of "[0]" "lit ''4711'' @ [0]" "replicate 200 65"] h
    by (simp add: text_size_def sev_warn_def sev_info_def fb_room_def)
qed

text \<open>
  Claim C27. Appending to the log file adds the text to the file that is open, and to no other, also
  when the sink then changes to a new file, which it does when the size exceeds the limit or the day
  of the year has grown. Without a flush interval nothing stays in the stream. When the new file
  cannot be opened the sink is left without a file, and the next append writes through a null pointer.
\<close>

theorem FileSink_append_spec:
  assumes "f_open (fk_file k) = Some p" and "unat n \<le> length buf"
  shows "((sink_rolls os now n k \<longrightarrow> os_opens os (log_path os now k)) \<longrightarrow>
      (\<exists>k' fs'. FileSink_append os now buf n k fs = Ok ((k', fs'), True) \<and>
        f_open (fk_file k') = Some (if sink_rolls os now n k then log_path os now k else p) \<and>
        (\<forall>q. file_text (fk_file k') fs' q = file_text (fk_file k) fs q @ (if q = p then take (unat n) buf else [])) \<and>
        (cx_flush_interval (fk_context k) = 0 \<and> cx_now_time (fk_context k) \<le> now \<longrightarrow> f_buf (fk_file k') = []) \<and>
        fk_told k' = fk_told k @ (if sink_rolls os now n k \<and> fk_on_changed k then [log_path os now k] else []))) \<and>
    (sink_rolls os now n k \<and> \<not> os_opens os (log_path os now k) \<longrightarrow>
      (\<exists>k' fs'. FileSink_append os now buf n k fs = Ok ((k', fs'), False) \<and> f_open (fk_file k') = None \<and>
        (\<forall>q. file_text (fk_file k') fs' q = file_text (fk_file k) fs q @ (if q = p then take (unat n) buf else [])) \<and>
        FileSink_append os now' buf' n' k' fs' = UB))" (is "?A \<and> ?B")
proof
  show ?A using FileSink_append_cases [OF assms, of os now fs] by blast
  show ?B
  proof (intro impI, elim conjE)
    assume r: "sink_rolls os now n k" "\<not> os_opens os (log_path os now k)"
    obtain f where f: "File_write buf n (fk_file k) = Ok f" "f_open f = Some p" "f_size f = f_size (fk_file k) + ucast n"
      "\<And>q fs. file_text f fs q = file_text (fk_file k) fs q @ (if q = p then take (unat n) buf else [])"
      using File_write_logged [OF assms] by blast
    obtain f1 fs1 where o: "File_open os (log_path os now k) f fs = ((f1, fs1), False)" "f_open f1 = None"
      "\<And>q. file_text f1 fs1 q = file_text f fs q" using File_open_fails [OF _ r(2), of f fs] f(2) by auto
    have "FileContext_is_roll_file os (f_size f) (FileContext_update now (fk_context k))"
      using r(1) by (simp add: FileContext_is_roll_file_def sink_rolls_def FileContext_update_def FileContext_yday_def f(3))
    then have "FileSink_append os now buf n k fs = Ok ((k\<lparr>fk_file := f1, fk_context := FileContext_update now (fk_context k)\<rparr>, fs1), False)"
      using o(1) by (simp add: FileSink_append_def f(1) Let_def log_path_def)
    then show "\<exists>k' fs'. FileSink_append os now buf n k fs = Ok ((k', fs'), False) \<and> f_open (fk_file k') = None \<and>
        (\<forall>q. file_text (fk_file k') fs' q = file_text (fk_file k) fs q @ (if q = p then take (unat n) buf else [])) \<and>
        FileSink_append os now' buf' n' k' fs' = UB"
      using o(2,3) f(4) by (simp add: FileSink_append_def File_write_def)
  qed
qed

text \<open>A host on which the first log file can be opened, and the file of the next day cannot.\<close>

definition sample_os :: os where
  "sample_os = \<lparr>os_opens = (\<lambda>p. 50 \<notin> set p), os_yday = (\<lambda>utc t. t div 86400), os_stamp = (\<lambda>utc t. [49 + of_int (t div 86400)]),
     os_host = lit ''h'', os_pid = lit ''p''\<rparr>"

definition sample_sink :: FileSink where
  "sample_sink = fst (fst (FileSink_new sample_os 0 100 (lit ''d/'') 10 0 False True (\<lambda>_. None)))"

theorem FileSink_append_spec_witness:
  "\<exists>k' fs'. FileSink_append sample_os 86401 [65, 66] 2 sample_sink (\<lambda>_. None) = Ok ((k', fs'), False) \<and> f_open (fk_file k') = None \<and>
     file_text (fk_file k') fs' (lit ''d/1h.p.log'') = [65, 66] \<and> FileSink_append sample_os 86402 [67] 1 k' fs' = UB"
proof -
  have k: "f_open (fk_file sample_sink) = Some (lit ''d/1h.p.log'')"
    "file_text (fk_file sample_sink) (\<lambda>_. None) (lit ''d/1h.p.log'') = []"
    "sink_rolls sample_os 86401 2 sample_sink" "\<not> os_opens sample_os (log_path sample_os 86401 sample_sink)"
    by (simp_all add: sample_sink_def FileSink_new_def FileContext_new_def FileContext_update_def FileContext_get_file_path_def File_open_def
        FileRaw_open_def FileRaw_close_def File_new_def sample_os_def lit_def Let_def file_text_def file_content_def sink_rolls_def
        FileContext_yday_def log_path_def)
  then show ?thesis using FileSink_append_spec [OF k(1), of 2 "[65, 66]" sample_os 86401 "\<lambda>_. None" 86402 "[67]" 1] by auto
qed

section \<open>Levels\<close>

lemma c_strcmp_same: "0 \<notin> set xs \<Longrightarrow> c_strcmp (xs @ 0 # r1) (xs @ 0 # r2) = Ok 0"
  by (induction xs) auto

lemma c_strcmp_other: "0 \<notin> set xs \<Longrightarrow> 0 \<notin> set ys \<Longrightarrow> \<exists>c. c_strcmp (xs @ 0 # r1) (ys @ 0 # r2) = Ok c \<and> (c = 0 \<longleftrightarrow> xs = ys)"
proof (induction xs arbitrary: ys)
  case Nil
  then show ?case by (cases ys) (auto intro: word_neq_0_conv [THEN iffD1])
next
  case (Cons x xs)
  show ?case
  proof (cases ys)
    case Nil
    then show ?thesis using Cons.prems by (auto intro: word_neq_0_conv [THEN iffD1])
  next
    case (Cons y ys')
    then show ?thesis using Cons.IH [of ys'] Cons.prems \<open>0 \<notin> set (x # xs)\<close> by auto
  qed
qed

text \<open>
  The name of every level is read back as the level, in any buffer that has it as a
  C string, and every other name as \<open>info\<close>.
\<close>

theorem Severity_names_roundtrip:
  "(\<forall>l. l \<le> sev_none \<longrightarrow> (\<exists>nm. Severity_get_name l = Ok nm \<and> Severity_get_level (nm @ rest) = Ok l)) \<and>
   (\<forall>xs. 0 \<notin> set xs \<and> xs @ [0] \<notin> set g_sev_name \<longrightarrow> Severity_get_level (xs @ 0 # rest) = Ok sev_info)"
proof (intro conjI allI impI)
  fix l :: u16
  assume "l \<le> sev_none"
  then have "unat l \<le> 6" by (simp add: sev_none_def word_le_nat_alt)
  then have "unat l \<in> {0, 1, 2, 3, 4, 5, 6}" by auto
  moreover have "l = of_nat (unat l)" by simp
  ultimately have "l \<in> {0, 1, 2, 3, 4, 5, 6}" by (elim insertE emptyE) simp_all
  then show "\<exists>nm. Severity_get_name l = Ok nm \<and> Severity_get_level (nm @ rest) = Ok l"
    by (elim insertE emptyE) (simp_all add: Severity_get_name_def Severity_get_level_def g_sev_name_def sev_none_def rd_def lit_def)
next
  fix xs :: bytes
  assume xs: "0 \<notin> set xs \<and> xs @ [0] \<notin> set g_sev_name"
  have other: "get_level_from (map (\<lambda>s. lit s @ [0]) names) i (xs @ 0 # rest) = Ok sev_info"
    if "\<forall>s \<in> set names. 0 \<notin> set (lit s) \<and> lit s \<noteq> xs" for names i
    using that
  proof (induction names arbitrary: i)
    case (Cons n names)
    then obtain c where "c_strcmp (lit n @ 0 # []) (xs @ 0 # rest) = Ok c" "c \<noteq> 0"
      using c_strcmp_other [of "lit n" xs "[]" rest] xs by auto
    then show ?case using Cons by simp
  qed simp
  show "Severity_get_level (xs @ 0 # rest) = Ok sev_info"
    unfolding Severity_get_level_def g_sev_name_def by (rule other) (use xs in \<open>auto simp: g_sev_name_def lit_def\<close>)
qed

section \<open>The whole core\<close>

text \<open>
  The steps of an asynchronous core: a thread appends a line, a waiting one tries again, the server
  thread works on its queue or writes a pack, and the core is stopped.
\<close>

inductive core_step :: "os \<Rightarrow> CoreImpl \<times> fsys \<Rightarrow> CoreImpl \<times> fsys \<Rightarrow> bool" for os where
  core_append: "Core_append os now g t buf n level r = Ok (r', True) \<Longrightarrow> core_step os r r'"
| core_again: "cm_server c = Some s \<Longrightarrow> (t, tx) \<in> set (ls_waiting s) \<Longrightarrow> LS_post_again g t tx s = Ok s' \<Longrightarrow>
    core_step os (c, fs) (c\<lparr>cm_server := Some s'\<rparr>, fs)"
| core_work: "cm_server c = Some s \<Longrightarrow> \<forall>p. ls_phase s \<noteq> LWrite p \<Longrightarrow> log_work s s' \<Longrightarrow>
    core_step os (c, fs) (c\<lparr>cm_server := Some s'\<rparr>, fs)"
| core_write: "cm_server c = Some s \<Longrightarrow> ls_phase s = LWrite p \<Longrightarrow> Core_write os now s p (c, fs) = Ok r' \<Longrightarrow> core_step os (c, fs) r'"
| core_stop: "core_step os (c, fs) (Core_stop c, fs)"

text \<open>The part of a history of appends, paths and texts, that went into one file.\<close>

definition texts_of :: "bytes \<Rightarrow> (bytes \<times> bytes) list \<Rightarrow> bytes" where
  "texts_of q hist = concat (map snd (filter (\<lambda>e. fst e = q) hist))"

definition core_logs :: "fsys \<Rightarrow> CoreImpl \<times> fsys \<Rightarrow> LogServer \<Rightarrow> (bytes \<times> bytes) list \<Rightarrow> bool" where
  "core_logs fs0 r s hist \<longleftrightarrow> cm_server (fst r) = Some s \<and> log_reach s \<and> ls_out s = concat (map snd hist) \<and>
     (\<exists>k. cm_file_sink (fst r) = Some k \<and> f_open (fk_file k) \<noteq> None \<and>
       (\<forall>q. file_text (fk_file k) (snd r) q = file_content fs0 q @ texts_of q hist))"

lemma core_logs_server:
  "core_logs fs0 (c, fs) s hist \<Longrightarrow> log_step s s' \<Longrightarrow> ls_out s' = ls_out s \<Longrightarrow> core_logs fs0 (c\<lparr>cm_server := Some s'\<rparr>, fs) s' hist"
  by (auto simp: core_logs_def intro: log_reach_step)

lemma pack_bytes: "log_reach s \<Longrightarrow> ls_phase s = LWrite p \<Longrightarrow> unat (fb_size p) \<le> length (fb_data p)"
  using log_invD(2) [OF log_reach_inv, of s p] by (auto simp: fb_wf_def word_less_nat_alt)

lemma to_console_keeps:
  "to_console buf w r = Ok r' \<Longrightarrow> snd r' = snd r \<and> cm_server (fst r') = cm_server (fst r) \<and> cm_file_sink (fst r') = cm_file_sink (fst r)"
  by (auto simp: to_console_def obind_eq_Ok split: option.splits if_splits prod.splits)

lemma core_logs_write:
  assumes os: "\<And>p. os_opens os p" and logs: "core_logs fs0 (c, fs) s hist" and ph: "ls_phase s = LWrite p"
    and w: "Core_write os now s p (c, fs) = Ok r'"
  shows "\<exists>hist'. core_logs fs0 r' (LS_write p s) hist'"
proof -
  obtain k path where k: "cm_server c = Some s" "log_reach s" "ls_out s = concat (map snd hist)" "cm_file_sink c = Some k"
    "f_open (fk_file k) = Some path" "\<And>q. file_text (fk_file k) fs q = file_content fs0 q @ texts_of q hist"
    using logs by (auto simp: core_logs_def)
  have tx: "take (unat (fb_size p)) (fb_data p) = fb_text p" by (simp add: fb_text_def)
  from FileSink_append_cases [OF k(5) pack_bytes [OF k(2) ph] os, where now = now and fs = fs] obtain k' fs' where
    a: "FileSink_append os now (fb_data p) (fb_size p) k fs = Ok ((k', fs'), True)"
      "f_open (fk_file k') = Some (if sink_rolls os now (fb_size p) k then log_path os now k else path)"
      "\<And>q. file_text (fk_file k') fs' q = file_text (fk_file k) fs q @ (if q = path then fb_text p else [])"
    unfolding tx by blast
  have tf: "to_file os now (fb_data p) (fb_size p) True (c, fs) = Ok ((c\<lparr>cm_file_sink := Some k'\<rparr>, fs'), True)"
    using k(4) a(1) by (simp add: to_file_def)
  obtain r2 where r2: "to_console (fb_data p) True (c\<lparr>cm_file_sink := Some k'\<rparr>, fs') = Ok r2"
    "r' = ((fst r2)\<lparr>cm_server := Some (LS_write p s)\<rparr>, snd r2)"
    using w tf by (auto simp: Core_write_def Handler_async_def obind_eq_Ok)
  have "log_reach (LS_write p s)" using log_reach_step [OF k(2) log_worker [OF log_write [OF ph]]] .
  then have "core_logs fs0 r' (LS_write p s) (hist @ [(path, fb_text p)])"
    using to_console_keeps [OF r2(1)] r2(2) a(2,3) k(3,6) by (simp add: core_logs_def LS_write_def texts_of_def)
  then show ?thesis by blast
qed

lemma work_keeps_out: "log_work s s' \<Longrightarrow> \<forall>p. ls_phase s \<noteq> LWrite p \<Longrightarrow> ls_out s' = ls_out s"
  by (induction rule: log_work.induct)
    (auto simp: LS_pop_def LS_popped_def LS_wake_def LS_timeout_def LS_no_pack_def obind_eq_Ok split: if_splits)

lemma core_step_logs:
  assumes os: "\<And>p. os_opens os p"
  shows "core_step os r r' \<Longrightarrow> core_logs fs0 r s hist \<Longrightarrow> \<exists>s' hist'. core_logs fs0 r' s' hist'"
proof (induction rule: core_step.induct)
  case (core_append now g t buf n level r r')
  obtain c fs where r: "r = (c, fs)" by (cases r)
  have "cm_server c = Some s" using core_append(2) r by (simp add: core_logs_def)
  then obtain s' where s': "LS_post g t (take (unat n) buf) s = Ok s'" "r' = (c\<lparr>cm_server := Some s'\<rparr>, fs)"
    using core_append(1) r by (auto simp: Core_append_def obind_eq_Ok)
  have "ls_out s' = ls_out s" using s'(1) by (auto simp: LS_post_def obind_eq_Ok split: option.splits prod.splits)
  then show ?case using core_logs_server [OF _ log_post [OF s'(1)]] core_append(2) r s'(2) by blast
next
  case (core_again c s0 t tx g s' fs)
  then have s0: "s0 = s" by (simp add: core_logs_def)
  have "ls_out s' = ls_out s" using core_again(3) s0 by (auto simp: LS_post_again_def obind_eq_Ok split: option.splits prod.splits)
  then show ?case using core_logs_server [OF core_again(4) log_post_again] core_again(2,3) s0 by blast
next
  case (core_work c s0 s' fs)
  then have s0: "s0 = s" by (simp add: core_logs_def)
  show ?case using core_logs_server [OF core_work(4) log_worker] work_keeps_out core_work(2,3) s0 by blast
next
  case (core_write c s0 p now fs r')
  then have s0: "s0 = s" by (simp add: core_logs_def)
  show ?case using core_logs_write [OF os core_write(4)] core_write(2,3) s0 by blast
next
  case (core_stop c fs)
  then have "cm_server c = Some s" by (simp add: core_logs_def)
  then show ?case using core_logs_server [OF core_stop log_close] by (auto simp: Core_stop_def)
qed

lemma run_logs:
  assumes os: "\<And>p. os_opens os p" and run: "Core_run os exists_dir create_dir garbage now c0 fs0 = ((c, fs), True)"
    and opts: "cm_async c0 \<noteq> 0" "eco_has (cm_sink_option c0) file_sink"
  shows "\<exists>s. core_logs fs0 (c, fs) s []"
proof -
  let ?c = "run_console (run_server c0)"
  let ?k = "FileSink_new os garbage now (cm_file_path c0) (ucast (max min_file_roll_size (cm_file_roll_size c0))) 0 False (cm_on_create c0) fs0"
  have c: "cm_sink_option ?c = cm_sink_option c0" "cm_file_roll_size ?c = cm_file_roll_size c0" "cm_file_path ?c = cm_file_path c0"
    "cm_on_create ?c = cm_on_create c0" "cm_server ?c = cm_server (run_server c0)"
    by (simp_all add: run_console_def run_server_def Let_def)
  obtain s where s: "cm_server (run_server c0) = Some s" "s = LS_new\<lparr>ls_queue := ls_queue s\<rparr>" "log_reach s"
  proof -
    let ?q1 = "LQ_set_capacity (max min_queue_size (cm_capacity c0)) LQ_new"
    let ?q2 = "LQ_set_sync_interval (max min_sync_interval (cm_async_flush c0)) ?q1"
    have r1: "log_reach (LS_new\<lparr>ls_queue := ?q1\<rparr>)"
      using log_reach_step [OF log_reach_start log_set_capacity] by (simp add: LS_new_def)
    have "log_reach (LS_new\<lparr>ls_queue := ?q2\<rparr>)"
      using log_reach_step [OF r1 log_set_sync_interval] by (simp add: LS_new_def)
    then show thesis using that [of "LS_new\<lparr>ls_queue := ?q2\<rparr>"] opts(1) by (simp add: run_server_def Let_def)
  qed
  have out: "ls_out s = []" by (subst s(2)) (simp add: LS_new_def)
  obtain k fs1 where k: "?k = ((k, fs1), True)" "f_open (fk_file k) \<noteq> None" "\<And>q. file_text (fk_file k) fs1 q = file_content fs0 q"
    by (rule that [of "fst (fst ?k)" "snd (fst ?k)"])
      (simp_all add: FileSink_new_def File_open_def FileRaw_open_def FileRaw_close_def File_new_def os Let_def file_text_def file_content_def)
  have "run_file os garbage now ?c fs0 =
      ((?c\<lparr>cm_file_roll_size := max min_file_roll_size (cm_file_roll_size c0), cm_file_sink := Some k\<rparr>, fs1), True)"
    using opts(2) k(1) by (simp add: run_file_def c Let_def)
  then have "c = ?c\<lparr>cm_file_roll_size := max min_file_roll_size (cm_file_roll_size c0), cm_file_sink := Some k, cm_running := True\<rparr>" "fs = fs1"
    using run by (auto simp: Core_run_def split: if_splits)
  then show ?thesis using s(1,3) out k(2,3) c(5) by (auto simp: core_logs_def texts_of_def)
qed

text \<open>
  Claim C16. From \<open>run\<close> on, under every interleaving of the threads that log with the server thread,
  the log files hold what the queue has handed over: the texts that were written, split over the
  files in order, and behind them what is being written and what is still queued are what was kept
  of the lines, in the order in which they were appended.
\<close>

theorem Core_async_logs:
  assumes "\<forall>p. os_opens os p" and "Core_run os exists_dir create_dir garbage now c0 fs0 = (r0, True)"
    and "cm_async c0 \<noteq> 0" and "eco_has (cm_sink_option c0) file_sink" and "(core_step os)\<^sup>*\<^sup>* r0 (c, fs)"
  shows "\<exists>s k hist. cm_server c = Some s \<and> cm_file_sink c = Some k \<and>
    (\<forall>q. file_text (fk_file k) fs q = file_content fs0 q @ texts_of q hist) \<and>
    concat (map snd hist) @ unwritten (ls_phase s) @ lq_text (ls_queue s) = kept_text (ls_posted s)"
proof -
  have "\<exists>s hist. core_logs fs0 (c, fs) s hist"
    using assms(5)
  proof (induction rule: rtranclp_induct)
    case base
    then show ?case using run_logs [of os] assms(1-4) by (cases r0) blast
  next
    case (step r r')
    then show ?case using core_step_logs assms(1) by blast
  qed
  then obtain s hist where l: "core_logs fs0 (c, fs) s hist" by blast
  then have "ls_out s @ unwritten (ls_phase s) @ lq_text (ls_queue s) = kept_text (ls_posted s)"
    using log_invD(3) [OF log_reach_inv, of s] by (simp add: core_logs_def)
  then show ?thesis using l by (auto simp: core_logs_def)
qed

text \<open>A host on which every file can be opened: the core is run and a first text appended.\<close>

definition open_os :: os where
  "open_os = sample_os\<lparr>os_opens := \<lambda>p. True\<rparr>"

theorem Core_async_logs_witness:
  "\<exists>r0 c fs s k hist. Core_run open_os (\<lambda>p. True) (\<lambda>p. False) 0 100 (Core_new 0) (\<lambda>_. None) = (r0, True) \<and>
     core_step open_os r0 (c, fs) \<and> cm_server c = Some s \<and> cm_file_sink c = Some k \<and>
     (\<forall>q. file_text (fk_file k) fs q = texts_of q hist) \<and> concat (map snd hist) @ unwritten (ls_phase s) @ lq_text (ls_queue s) = [65]"
proof -
  let ?q = "LQ_set_sync_interval 1000 (LQ_set_capacity queue_size LQ_new)"
  let ?s = "LS_new\<lparr>ls_queue := ?q\<rparr>"
  obtain r0 where run: "Core_run open_os (\<lambda>p. True) (\<lambda>p. False) 0 100 (Core_new 0) (\<lambda>_. None) = (r0, True)" "cm_server (fst r0) = Some ?s"
    by (simp add: Core_run_def run_file_def run_console_def run_server_def Core_new_def eco_has_def console_sink_def file_sink_def
        FileSink_new_def File_open_def FileRaw_open_def FileRaw_close_def File_new_def open_os_def Let_def min_sync_interval_def
        queue_size_def min_queue_size_def)
  have "Pack_capacity \<le> queue_size" by (simp add: Pack_capacity_def fb_capacity_def pack_size_def queue_size_def)
  then obtain p where "LQ_post (\<lambda>_. 0) [65] ?q = Ok (?q\<lparr>lq_avail := [p], lq_cur_size := lq_cur_size ?q + Pack_capacity\<rparr>, Some [65])"
    using post_first [of "[65]" ?q "\<lambda>_. 0"]
    by (auto simp: LQ_new_def LQ_open_def LQ_set_sync_interval_def LQ_set_capacity_def pack_room_eq(1))
  then obtain s where s: "LS_post (\<lambda>_. 0) 0 [65] ?s = Ok s" "ls_posted s = [(False, [65], [65])]"
    by (auto simp: LS_post_def LS_new_def)
  obtain c fs where r0: "r0 = (c, fs)" by (cases r0)
  have "Core_append open_os 0 (\<lambda>_. 0) 0 [65] 1 sev_info r0 = Ok ((c\<lparr>cm_server := Some s\<rparr>, fs), True)"
    using run(2) s(1) r0 by (simp add: Core_append_def)
  then have step: "core_step open_os r0 (c\<lparr>cm_server := Some s\<rparr>, fs)" by (rule core_append)
  have opts: "\<forall>p. os_opens open_os p" "cm_async (Core_new 0) \<noteq> 0" "eco_has (cm_sink_option (Core_new 0)) file_sink"
    by (simp_all add: open_os_def Core_new_def eco_has_def file_sink_def)
  from Core_async_logs [OF opts(1) run(1) opts(2,3) r_into_rtranclp [of "core_step open_os", OF step]] s(2) show ?thesis
    using run(1) step by (fastforce simp: kept_text_def file_content_def)
qed

text \<open>The console prints a text without percent signs; any conversion in it reads an argument that is not there.\<close>

theorem ConsoleSink_format:
  "0 \<notin> set xs \<Longrightarrow> 37 \<notin> set xs \<Longrightarrow>
     ConsoleSink_put (xs @ 0 # rest) out = Ok (out @ xs) \<and> (d \<noteq> 37 \<longrightarrow> ConsoleSink_put (xs @ 37 # d # rest) out = UB)"
proof -
  assume xs: "0 \<notin> set xs" "37 \<notin> set xs"
  have "printf_only (xs @ 0 # rest) = Ok xs \<and> (d \<noteq> 37 \<longrightarrow> printf_only (xs @ 37 # d # rest) = UB)"
    using xs by (induction xs) auto
  then show ?thesis by (simp add: ConsoleSink_put_def)
qed

text \<open>
  A synchronous core drops what lies below both levels; an asynchronous one does not look at
  the levels of its sinks.
\<close>

theorem Core_levels:
  "(cm_server c = None \<and> level < Core_get_severity_level c \<longrightarrow> Core_append os now g t buf n level (c, fs) = Ok ((c, fs), True)) \<and>
   (cm_server c = Some s \<longrightarrow>
     Core_append os now g t buf n level (c\<lparr>cm_file_sev := v, cm_console_sev := w\<rparr>, fs) =
     obind (Core_append os now g t buf n level' (c, fs)) (\<lambda>((c', fs'), ok).
       Ok ((c'\<lparr>cm_file_sev := v, cm_console_sev := w\<rparr>, fs'), ok)))"
  by (cases "LS_post g t (take (unat n) buf) s")
    (auto simp: Core_append_def Handler_sync_def to_file_def to_console_def Core_get_severity_level_def split: option.splits if_splits)

text \<open>
  A sink that was opened on the last day of a year does not change files by day in the next
  year, whose days have smaller numbers.
\<close>

theorem FileSink_new_year:
  assumes "f_open (fk_file k) = Some p" and "unat n \<le> length buf" and "os_yday os (cx_is_utc (fk_context k)) now \<le> cx_start_day (fk_context k)"
    and "f_size (fk_file k) + ucast n \<le> cx_roll_size (fk_context k)"
  shows "\<exists>k' fs'. FileSink_append os now buf n k fs = Ok ((k', fs'), True) \<and> f_open (fk_file k') = Some p \<and>
    cx_start_day (fk_context k') = cx_start_day (fk_context k) \<and> f_size (fk_file k') = f_size (fk_file k) + ucast n"
proof -
  have "\<not> sink_rolls os now n k" using assms(3,4) by (simp add: sink_rolls_def not_less)
  then show ?thesis using FileSink_append_cases [OF assms(1,2), where now = now and fs = fs and os = os]
    by (auto simp: FileContext_update_def)
qed

end
