(* ===== verification/Spec2Isabelle.thy ===== *)
theory Spec2Isabelle
  imports Eco_Atomic Eco_String Eco_TcpProtocol Eco_WebSocket Eco_Base64 Eco_Sha1 Eco_ShakeHand Eco_ServerInv Eco_MessageQueue Eco_Authority Eco_TopicLocks Eco_SubscriptionInv Eco_TopicLost Eco_MessageServer Eco_DateTime Eco_LogCore
begin

text \<open>
  A verification library of the networking framework \<open>eco\<close>, \<open>src/project/eco\<close>: a TCP server and
  client that exchange framed messages with sessions and requests on top, and the thread
  library under them.

  \<^bold>\<open>The program and how its parts interact.\<close> A socket (Boost asio, not under \<open>src\<close>) hands bytes to a
  \<open>TcpPeer\<close>. The peer finds the message head with a protocol head (\<open>TcpProtocol.h\<close>,
  \<open>WebSocketProtocol.h\<close>), collects the message and passes it to its handler, the \<open>TcpServer\<close> or the
  \<open>TcpClient\<close>. The handler decodes it and posts it to a \<open>MessageQueue\<close>; a business thread takes it
  from there and the dispatcher (\<open>DispatchServer.cpp\<close>) looks up the session and calls the handler
  registered for the message type. Answers go the other way: the protocol encodes a
  \<open>MessageMeta\<close> with a body, the peer sends it. Independent of the network, a \<open>TopicServer\<close> publishes
  contents to subscribers through one publishing thread.

  \<^bold>\<open>How the code is modelled.\<close> A class is a record, an operation a function from the state to the new
  state, a callback to another object is a value of an action type that the caller runs. Machine
  integers keep their width. An access outside a buffer, through a null pointer or to a freed
  node is the outcome \<open>UB\<close>, a reported error is \<open>Err\<close> (\<open>Eco_Prelude\<close>). Threads are interleaved at the
  places where the code releases its mutexes. What is not under \<open>src\<close> is a parameter: the codec of a
  message body, the resolver of host names, Boost's calendar, the user's handlers.

  \<^bold>\<open>The theories.\<close>
  \<^item> \<open>Eco_Prelude\<close>: outcomes, buffers, words, text.
  \<^item> \<open>Eco_Flags\<close> (\<open>Export.h\<close>, \<open>thread/State.h\<close>, \<open>net/TcpState.h\<close>) and \<open>Eco_Atomic\<close> (\<open>thread/Atomic.h\<close>): flag
    words and connection states; an active peer is live in every reachable state, and the compound
    assignments of the atomic cell lose updates when two threads interleave.
  \<^item> \<open>Eco_Memory\<close> (\<open>Memory.h\<close>), \<open>Eco_String\<close> (\<open>Type.h\<close>), \<open>Eco_Cast\<close> (\<open>Cast.h\<close>), \<open>Eco_Net\<close> (\<open>net/Net.h\<close>): C strings,
    the growing string as a refinement of lists, numbers as text, byte order.
  \<^item> \<open>Eco_Message\<close>, \<open>Eco_TcpProtocol\<close>, \<open>Eco_WebSocket\<close> (\<open>net/protocol\<close>): metadata and the two wire formats, with
    round trips, sizes and memory safety of the decoders.
  \<^item> \<open>Eco_Base64\<close>, \<open>Eco_Sha1\<close> (\<open>codec\<close>), \<open>Eco_ShakeHand\<close> (\<open>WebSocketShakeHand.h\<close>): the handshake and its two
    algorithms.
  \<^item> \<open>Eco_TcpPeer\<close> (\<open>net/TcpPeer.h\<close>, \<open>prj/src/net/TcpPeer.cpp\<close>, \<open>.ipp\<close>): one connection.
  \<^item> \<open>Eco_Map\<close> (\<open>thread/Map.h\<close>), \<open>Eco_PeerSet\<close> (\<open>TcpPeerSet.h\<close>), \<open>Eco_Sessions\<close> (\<open>TcpSession\<close>, \<open>Context.h\<close>, the session
    tables of \<open>TcpServer.ipp\<close>), \<open>Eco_TcpServer\<close>, \<open>Eco_Dispatch\<close> and \<open>Eco_ServerInv\<close>: the server with its step
    relation \<open>srv_step\<close>, the invariant of all reachable states and the path of a message from the
    socket to the handler.
  \<^item> \<open>Eco_Address\<close> (\<open>net/Address.h\<close>, the load balancer of \<open>TcpClient.cpp\<close>), \<open>Eco_Monitor\<close> (\<open>thread/Monitor.h\<close>),
    \<open>Eco_TcpClient\<close>, \<open>Eco_ClientInv\<close>: the client, its step relation \<open>client_step\<close> and its invariant.
    \<open>Eco_Authority\<close> composes client and server.
  \<^item> \<open>Eco_MessageQueue\<close> (\<open>thread/MessageQueue.h\<close>): the bounded queue with its condition variables, a
    refinement of a list under every interleaving, and no lost wake-up.
  \<^item> \<open>Eco_MessageServer\<close> (\<open>thread/MessageServer.h\<close>, \<open>ThreadPool.h\<close>): worker threads that take messages from
    such a queue. Under every interleaving each message taken is handled once, and the workers get
    the queue empty and end.
  \<^item> \<open>Eco_FixBuffer\<close>, \<open>Eco_Stream\<close>, \<open>Eco_Text\<close> (the rest of \<open>Type.h\<close>): the buffer of a fixed size as a refinement
    of a bounded list, the streams over either kind of buffer by the contract \<open>stream_buffer\<close>, errors,
    splitting. \<open>Eco_DateTime\<close> (\<open>DateTime.h\<close>, \<open>DateTime.cpp\<close>): timestamps, formats of dates, units of time.
  \<^item> \<open>Eco_Log\<close> (\<open>prj/src/log/Queue.h\<close>, \<open>Server.h\<close>): the queue of packs of log lines and the thread that writes
    them, as the step relation \<open>log_step\<close>; order and completeness of what is written, and what closing
    loses. \<open>Eco_LogCore\<close> (\<open>Core.cpp\<close>, \<open>FileSink.cpp\<close>, \<open>filesystem/File.h\<close>, \<open>log/Pusher.inl\<close>): levels, files, sinks,
    options and lines; \<open>core_step\<close> composes them with the thread.
  \<^item> \<open>Eco_Mutex\<close> (\<open>thread/Mutex.h\<close>), \<open>Eco_TopicLocks\<close>: recursive mutexes, the ordered locks, and that the topic
    operations never deadlock, save erasing a topic.
  \<^item> \<open>Eco_Subscription\<close>, \<open>Eco_SubscriptionInv\<close> (\<open>thread/topic/Subscription.h\<close>, \<open>thread/AutoRef.h\<close>): the subscriptions,
    nodes of two intrusive linked lists, on an explicit memory, as a refinement of lists.
  \<^item> \<open>Eco_Topic\<close> (\<open>thread/topic/Topic.h\<close>, \<open>TopicId\<close>, \<open>Content\<close> and \<open>TopicT\<close> of \<open>Role.h\<close>): the four kinds of topic and
    the contract \<open>topic_contract\<close> of the three that keep a snapshot. \<open>Eco_TopicServer\<close> (\<open>TopicServer.h\<close>,
    \<open>Publisher\<close>): the map of the topics, the queue and the publishing thread, one step per place where
    it takes or releases a mutex. \<open>Eco_TopicInv\<close>: the step relation \<open>tv_step\<close> of all threads and its
    invariant. \<open>Eco_TopicViews\<close>: what subscribers are sent agrees with the topic. \<open>Eco_TopicRun\<close>: the
    publishing thread never fails, every message ends, and what is queued is sent. \<open>Eco_TopicLost\<close>:
    subscriptions that a topic has lost.

  \<^bold>\<open>Bounds and fuel.\<close> Sizes that the code keeps in 32 bits carry the bound below \<open>2 ^ 32\<close> as a hypothesis
  where a sum could wrap. Loops are structural recursions over the bytes they read. The walks over
  linked nodes are partial functions into \<open>option\<close>, and theorems show that they return.

  \<^bold>\<open>Not modelled.\<close> Boost asio, operating system calls (files, clock and host names are parameters),
  configuration files, the protobuf codec, the persistence layer (drivers outside \<open>src\<close>) and the
  applications built on the framework. Writes complete in order; a callback of the user under a
  lock does not call back into the object that holds it.
\<close>

end
